(* ===== verification/Comparison.thy ===== *)
theory Comparison
  imports Prelude
begin

text \<open>
  The comparison operators (\<open>common/operator/comparison_operators.hpp\<close> and the float part of
  \<open>common/vector_operations/comparison_operators.cpp\<close>). The operators are templates; the
  operations a template instance supplies are a record, with one value of the record per
  C++ type, so a component written over \<open>T\<close> is a function of the record. The locale
  \<open>duck_order\<close> states what the components rely on, and every instance interprets it.
\<close>

type_synonym byte = "8 word"
type_synonym bytes = "byte list"

subsection \<open>The operations of a value type\<close>

text \<open>
  \<open>op_eq\<close>, \<open>op_gt\<close> and \<open>op_ge\<close> are \<open>Equals\<close>, \<open>GreaterThan\<close> and \<open>GreaterThanEquals\<close> with
  their specialisations; \<open>raw_eq\<close> and \<open>raw_gt\<close> are the operators of the C++ type itself. The
  next three are \<open>ClusterValueTraits\<close>, the last three the values \<open>T()\<close>, \<open>T(0)\<close> and \<open>T(1)\<close>.
\<close>

record 'v value_ops =
  op_eq :: "'v \<Rightarrow> 'v \<Rightarrow> bool"
  op_gt :: "'v \<Rightarrow> 'v \<Rightarrow> bool"
  op_ge :: "'v \<Rightarrow> 'v \<Rightarrow> bool"
  raw_eq :: "'v \<Rightarrow> 'v \<Rightarrow> bool"
  raw_gt :: "'v \<Rightarrow> 'v \<Rightarrow> bool"
  v_isnan :: "'v \<Rightarrow> bool"
  v_isinf :: "'v \<Rightarrow> bool"
  v_isneginf :: "'v \<Rightarrow> bool"
  v_default :: 'v
  v_zero :: 'v
  v_one :: 'v

text \<open>
  The clustering also subtracts: \<open>gap_of left right\<close> is \<open>right - left\<close> in the type
  \<open>ClusterGapType<T>::type\<close>, with that type's \<open><\<close> and its test for \<open>U(0)\<close>.
\<close>

record ('v, 'g) cluster_ops = "'v value_ops" +
  gap_of :: "'v \<Rightarrow> 'v \<Rightarrow> 'g"
  gap_less :: "'g \<Rightarrow> 'g \<Rightarrow> bool"
  gap_is_zero :: "'g \<Rightarrow> bool"

subsection \<open>The derived operators\<close>

definition op_ne :: "('v, 'z) value_ops_scheme \<Rightarrow> 'v \<Rightarrow> 'v \<Rightarrow> bool" where
  "op_ne ops left right = (\<not> op_eq ops left right)"

definition op_lt :: "('v, 'z) value_ops_scheme \<Rightarrow> 'v \<Rightarrow> 'v \<Rightarrow> bool" where
  "op_lt ops left right = op_gt ops right left"

definition op_le :: "('v, 'z) value_ops_scheme \<Rightarrow> 'v \<Rightarrow> 'v \<Rightarrow> bool" where
  "op_le ops left right = (\<not> op_gt ops left right)"

text \<open>\<open>ConstantExactRange\<close> and \<open>ConstantValueInRange\<close> of the zone maps.\<close>

definition ConstantExactRange :: "('v, 'z) value_ops_scheme \<Rightarrow> 'v \<Rightarrow> 'v \<Rightarrow> 'v \<Rightarrow> bool" where
  "ConstantExactRange ops lo hi constant = (op_eq ops constant lo \<and> op_eq ops constant hi)"

definition ConstantValueInRange :: "('v, 'z) value_ops_scheme \<Rightarrow> 'v \<Rightarrow> 'v \<Rightarrow> 'v \<Rightarrow> bool" where
  "ConstantValueInRange ops lo hi constant =
     (\<not> (op_lt ops constant lo \<or> op_gt ops constant hi))"

text \<open>
  The comparisons that take NULL as a value: NULL equals NULL and comes after every value,
  or before it in the variants named so.
\<close>

definition DistinctFrom ::
  "('v, 'z) value_ops_scheme \<Rightarrow> 'v \<Rightarrow> 'v \<Rightarrow> bool \<Rightarrow> bool \<Rightarrow> bool" where
  "DistinctFrom ops left right left_null right_null =
     (if left_null \<or> right_null then left_null \<noteq> right_null else op_ne ops left right)"

definition NotDistinctFrom ::
  "('v, 'z) value_ops_scheme \<Rightarrow> 'v \<Rightarrow> 'v \<Rightarrow> bool \<Rightarrow> bool \<Rightarrow> bool" where
  "NotDistinctFrom ops left right left_null right_null =
     (\<not> DistinctFrom ops left right left_null right_null)"

definition DistinctGreaterThan ::
  "('v, 'z) value_ops_scheme \<Rightarrow> 'v \<Rightarrow> 'v \<Rightarrow> bool \<Rightarrow> bool \<Rightarrow> bool" where
  "DistinctGreaterThan ops left right left_null right_null =
     (if left_null \<or> right_null then \<not> right_null else op_gt ops left right)"

definition DistinctGreaterThanNullsFirst ::
  "('v, 'z) value_ops_scheme \<Rightarrow> 'v \<Rightarrow> 'v \<Rightarrow> bool \<Rightarrow> bool \<Rightarrow> bool" where
  "DistinctGreaterThanNullsFirst ops left right left_null right_null =
     DistinctGreaterThan ops left right right_null left_null"

definition DistinctGreaterThanEquals ::
  "('v, 'z) value_ops_scheme \<Rightarrow> 'v \<Rightarrow> 'v \<Rightarrow> bool \<Rightarrow> bool \<Rightarrow> bool" where
  "DistinctGreaterThanEquals ops left right left_null right_null =
     (\<not> DistinctGreaterThan ops right left right_null left_null)"

definition DistinctLessThan ::
  "('v, 'z) value_ops_scheme \<Rightarrow> 'v \<Rightarrow> 'v \<Rightarrow> bool \<Rightarrow> bool \<Rightarrow> bool" where
  "DistinctLessThan ops left right left_null right_null =
     DistinctGreaterThan ops right left right_null left_null"

definition DistinctLessThanNullsFirst ::
  "('v, 'z) value_ops_scheme \<Rightarrow> 'v \<Rightarrow> 'v \<Rightarrow> bool \<Rightarrow> bool \<Rightarrow> bool" where
  "DistinctLessThanNullsFirst ops left right left_null right_null =
     DistinctGreaterThan ops right left left_null right_null"

definition DistinctLessThanEquals ::
  "('v, 'z) value_ops_scheme \<Rightarrow> 'v \<Rightarrow> 'v \<Rightarrow> bool \<Rightarrow> bool \<Rightarrow> bool" where
  "DistinctLessThanEquals ops left right left_null right_null =
     (\<not> DistinctGreaterThan ops left right left_null right_null)"

subsection \<open>The order the components rely on\<close>

text \<open>
  \<open>GreaterThan\<close> is a strict weak order whose incomparable pairs are exactly the equal ones;
  a NaN is above every value, positive infinity above everything but the NaNs, negative
  infinity below everything. The raw operators agree with \<open>GreaterThan\<close> and \<open>Equals\<close>
  wherever they hold.
\<close>

locale duck_order =
  fixes ops :: "('v, 'z) value_ops_scheme"
  assumes gt_asym: "op_gt ops a b \<Longrightarrow> \<not> op_gt ops b a"
    and gt_negtrans: "\<not> op_gt ops a b \<Longrightarrow> \<not> op_gt ops b c \<Longrightarrow> \<not> op_gt ops a c"
    and eq_iff: "op_eq ops a b \<longleftrightarrow> \<not> op_gt ops a b \<and> \<not> op_gt ops b a"
    and ge_iff: "op_ge ops a b \<longleftrightarrow> \<not> op_gt ops b a"
    and raw_gt_gt: "raw_gt ops a b \<Longrightarrow> op_gt ops a b"
    and raw_eq_eq: "raw_eq ops a b \<Longrightarrow> op_eq ops a b"
    and nan_top: "v_isnan ops a \<Longrightarrow> \<not> op_gt ops b a"
    and inf_top: "v_isinf ops a \<Longrightarrow> \<not> v_isneginf ops a \<Longrightarrow> op_gt ops b a \<Longrightarrow> v_isnan ops b"
    and neginf_bot: "v_isneginf ops a \<Longrightarrow> \<not> op_gt ops a b"
begin

lemma gt_irrefl [simp]: "\<not> op_gt ops a a"
  using gt_asym by blast

lemma eq_refl [simp]: "op_eq ops a a"
  by (simp add: eq_iff)

lemma eq_sym: "op_eq ops a b \<Longrightarrow> op_eq ops b a"
  by (simp add: eq_iff)

lemma eq_trans: "op_eq ops a b \<Longrightarrow> op_eq ops b c \<Longrightarrow> op_eq ops a c"
  using gt_negtrans by (simp add: eq_iff) blast

lemma gt_trans: "op_gt ops a b \<Longrightarrow> op_gt ops b c \<Longrightarrow> op_gt ops a c"
  using gt_asym gt_negtrans by blast

lemma gt_le_trans: "op_gt ops a b \<Longrightarrow> \<not> op_gt ops c b \<Longrightarrow> op_gt ops a c"
  using gt_asym gt_negtrans by blast

lemma le_gt_trans: "\<not> op_gt ops b a \<Longrightarrow> op_gt ops b c \<Longrightarrow> op_gt ops a c"
  using gt_asym gt_negtrans by blast

lemma not_gt_eq: "\<not> op_gt ops a b \<Longrightarrow> \<not> op_gt ops b a \<Longrightarrow> op_eq ops a b"
  by (simp add: eq_iff)

lemma gt_cong: "op_eq ops a a' \<Longrightarrow> op_eq ops b b' \<Longrightarrow> op_gt ops a b = op_gt ops a' b'"
  by (metis eq_iff gt_le_trans le_gt_trans)

lemma strict_weak_less: "strict_weak (\<lambda>l r. op_gt ops r l)"
  unfolding strict_weak_def using gt_asym gt_negtrans by blast

lemma in_range_iff:
  "ConstantValueInRange ops lo hi c \<longleftrightarrow> \<not> op_gt ops lo c \<and> \<not> op_gt ops c hi"
  by (simp add: ConstantValueInRange_def op_lt_def)

lemma exact_range_in_range:
  "ConstantExactRange ops lo hi c \<Longrightarrow> ConstantValueInRange ops lo hi c"
  by (simp add: ConstantExactRange_def in_range_iff eq_iff)

text \<open>Comparing with NULLs is a total preorder: NULL is the greatest value.\<close>

lemma distinct_gt_trans:
  "DistinctGreaterThan ops a b na nb \<Longrightarrow> DistinctGreaterThan ops b c nb nc \<Longrightarrow>
   DistinctGreaterThan ops a c na nc"
  by (auto simp: DistinctGreaterThan_def split: if_splits intro: gt_trans)

lemma distinct_trichotomy:
  "NotDistinctFrom ops a b na nb \<or> DistinctGreaterThan ops a b na nb \<or>
   DistinctLessThan ops a b na nb"
  by (auto simp: NotDistinctFrom_def DistinctFrom_def DistinctGreaterThan_def
      DistinctLessThan_def op_ne_def eq_iff)

end

subsection \<open>Integers\<close>

text \<open>Every unsigned and every signed width; the gap of a signed type is its unsigned type.\<close>

definition unsigned_ops :: "('w::len word, 'w word) cluster_ops" where
  "unsigned_ops =
     \<lparr>op_eq = (=), op_gt = (\<lambda>l r. r < l), op_ge = (\<lambda>l r. \<not> l < r),
      raw_eq = (=), raw_gt = (\<lambda>l r. r < l),
      v_isnan = (\<lambda>_. False), v_isinf = (\<lambda>_. False), v_isneginf = (\<lambda>_. False),
      v_default = 0, v_zero = 0, v_one = 1,
      gap_of = (\<lambda>l r. r - l), gap_less = (<), gap_is_zero = (\<lambda>g. g = 0)\<rparr>"

definition signed_ops :: "('w::len word, 'w word) cluster_ops" where
  "signed_ops =
     \<lparr>op_eq = (=), op_gt = (\<lambda>l r. r <s l), op_ge = (\<lambda>l r. \<not> l <s r),
      raw_eq = (=), raw_gt = (\<lambda>l r. r <s l),
      v_isnan = (\<lambda>_. False), v_isinf = (\<lambda>_. False), v_isneginf = (\<lambda>_. False),
      v_default = 0, v_zero = 0, v_one = 1,
      gap_of = (\<lambda>l r. r - l), gap_less = (<), gap_is_zero = (\<lambda>g. g = 0)\<rparr>"

interpretation unsigned_order: duck_order "unsigned_ops :: ('w::len word, 'w word) cluster_ops"
  by unfold_locales (auto simp: unsigned_ops_def)

interpretation signed_order: duck_order "signed_ops :: ('w::len word, 'w word) cluster_ops"
  by unfold_locales (auto simp: signed_ops_def word_sless_alt intro: signed_word_eqI [OF sym])

subsection \<open>Booleans\<close>

text \<open>The specialised \<open>GreaterThan\<close>, and a gap of type \<open>uint8_t\<close>.\<close>

definition bool_to_u8 :: "bool \<Rightarrow> 8 word" where
  "bool_to_u8 b = (if b then 1 else 0)"

definition bool_gt :: "bool \<Rightarrow> bool \<Rightarrow> bool" where
  "bool_gt left right = (\<not> right \<and> left)"

definition bool_ops :: "(bool, 8 word) cluster_ops" where
  "bool_ops =
     \<lparr>op_eq = (=), op_gt = bool_gt, op_ge = (\<lambda>l r. \<not> bool_gt r l),
      raw_eq = (=), raw_gt = (\<lambda>l r. l \<and> \<not> r),
      v_isnan = (\<lambda>_. False), v_isinf = (\<lambda>_. False), v_isneginf = (\<lambda>_. False),
      v_default = False, v_zero = False, v_one = True,
      gap_of = (\<lambda>l r. bool_to_u8 r - bool_to_u8 l), gap_less = (<), gap_is_zero = (\<lambda>g. g = 0)\<rparr>"

interpretation bool_order: duck_order bool_ops
  by unfold_locales (auto simp: bool_ops_def bool_gt_def)

subsection \<open>Strings\<close>

text \<open>\<open>std::string\<close> compares by the unsigned bytes, then by the length.\<close>

fun bytes_less :: "bytes \<Rightarrow> bytes \<Rightarrow> bool" where
  "bytes_less xs [] = False"
| "bytes_less [] (y # ys) = True"
| "bytes_less (x # xs) (y # ys) = (x < y \<or> (x = y \<and> bytes_less xs ys))"

definition string_ops :: "bytes value_ops" where
  "string_ops =
     \<lparr>op_eq = (=), op_gt = (\<lambda>l r. bytes_less r l), op_ge = (\<lambda>l r. \<not> bytes_less l r),
      raw_eq = (=), raw_gt = (\<lambda>l r. bytes_less r l),
      v_isnan = (\<lambda>_. False), v_isinf = (\<lambda>_. False), v_isneginf = (\<lambda>_. False),
      v_default = [], v_zero = [], v_one = []\<rparr>"

lemma bytes_less_asym: "bytes_less xs ys \<Longrightarrow> \<not> bytes_less ys xs"
  by (induction xs ys rule: bytes_less.induct) auto

lemma bytes_less_total: "\<not> bytes_less xs ys \<Longrightarrow> \<not> bytes_less ys xs \<Longrightarrow> xs = ys"
proof (induction xs ys rule: bytes_less.induct)
  case (1 xs)
  then show ?case by (cases xs) auto
qed auto

lemma bytes_less_trans: "bytes_less xs ys \<Longrightarrow> bytes_less ys zs \<Longrightarrow> bytes_less xs zs"
proof (induction xs ys arbitrary: zs rule: bytes_less.induct)
  case (2 y ys)
  then show ?case by (cases zs) auto
next
  case (3 x xs y ys)
  then show ?case by (cases zs) auto
qed auto

lemma bytes_less_negtrans:
  "\<not> bytes_less xs ys \<Longrightarrow> \<not> bytes_less ys zs \<Longrightarrow> \<not> bytes_less xs zs"
  using bytes_less_total bytes_less_trans by blast

interpretation string_order: duck_order string_ops
  by unfold_locales
    (auto simp: string_ops_def dest: bytes_less_asym bytes_less_total bytes_less_negtrans)

subsection \<open>Floating point\<close>

text \<open>
  A float is its bit pattern: one sign bit, then an exponent field, then \<open>p\<close> fraction bits.
  Without the sign the patterns are ordered as the magnitudes are, with infinity at
  \<open>fp_inf\<close> and the NaNs above it.
\<close>

definition fp_mag :: "'w::len word \<Rightarrow> nat" where
  "fp_mag w = unat w mod 2 ^ (LENGTH('w) - 1)"

definition fp_neg :: "'w::len word \<Rightarrow> bool" where
  "fp_neg w = (2 ^ (LENGTH('w) - 1) \<le> unat w)"

definition fp_inf :: "nat \<Rightarrow> 'w::len itself \<Rightarrow> nat" where
  "fp_inf p _ = 2 ^ (LENGTH('w) - 1) - 2 ^ p"

definition fp_key :: "'w::len word \<Rightarrow> int" where
  "fp_key w = (if fp_neg w then - int (fp_mag w) else int (fp_mag w))"

definition fp_isnan :: "nat \<Rightarrow> 'w::len word \<Rightarrow> bool" where
  "fp_isnan p w = (fp_inf p TYPE('w) < fp_mag w)"

definition fp_isinf :: "nat \<Rightarrow> 'w::len word \<Rightarrow> bool" where
  "fp_isinf p w = (fp_mag w = fp_inf p TYPE('w))"

definition fp_lt0 :: "nat \<Rightarrow> 'w::len word \<Rightarrow> bool" where
  "fp_lt0 p w = (\<not> fp_isnan p w \<and> fp_key w < 0)"

definition fp_raw_gt :: "nat \<Rightarrow> 'w::len word \<Rightarrow> 'w word \<Rightarrow> bool" where
  "fp_raw_gt p l r = (\<not> fp_isnan p l \<and> \<not> fp_isnan p r \<and> fp_key r < fp_key l)"

definition fp_raw_ge :: "nat \<Rightarrow> 'w::len word \<Rightarrow> 'w word \<Rightarrow> bool" where
  "fp_raw_ge p l r = (\<not> fp_isnan p l \<and> \<not> fp_isnan p r \<and> fp_key r \<le> fp_key l)"

definition fp_raw_eq :: "nat \<Rightarrow> 'w::len word \<Rightarrow> 'w word \<Rightarrow> bool" where
  "fp_raw_eq p l r = (\<not> fp_isnan p l \<and> \<not> fp_isnan p r \<and> fp_key l = fp_key r)"

text \<open>\<open>EqualsFloat\<close>, \<open>GreaterThanFloat\<close> and \<open>GreaterThanEqualsFloat\<close>.\<close>

definition EqualsFloat :: "nat \<Rightarrow> 'w::len word \<Rightarrow> 'w word \<Rightarrow> bool" where
  "EqualsFloat p left right =
     (if fp_isnan p left \<and> fp_isnan p right then True else fp_raw_eq p left right)"

definition GreaterThanFloat :: "nat \<Rightarrow> 'w::len word \<Rightarrow> 'w word \<Rightarrow> bool" where
  "GreaterThanFloat p left right =
     (let left_is_nan = fp_isnan p left; right_is_nan = fp_isnan p right
      in if right_is_nan then False
         else if left_is_nan then True
         else fp_raw_gt p left right)"

definition GreaterThanEqualsFloat :: "nat \<Rightarrow> 'w::len word \<Rightarrow> 'w word \<Rightarrow> bool" where
  "GreaterThanEqualsFloat p left right =
     (let left_is_nan = fp_isnan p left; right_is_nan = fp_isnan p right
      in if right_is_nan then left_is_nan
         else if left_is_nan then True
         else fp_raw_ge p left right)"

text \<open>
  Subtraction of two finite values. A finite value is an integer multiple of the smallest
  positive one (\<open>fp_units\<close>), so the difference is an exact integer, which \<open>fp_round\<close> rounds
  to the nearest pattern, ties to even; past the largest finite value that is infinity.
\<close>

fun bit_len :: "nat \<Rightarrow> nat" where
  "bit_len n = (if n = 0 then 0 else Suc (bit_len (n div 2)))"

declare bit_len.simps [simp del]

definition fp_units :: "nat \<Rightarrow> 'w::len word \<Rightarrow> int" where
  "fp_units p w =
     (let m = fp_mag w; e = m div 2 ^ p; f = m mod 2 ^ p;
          u = (if e = 0 then f else (2 ^ p + f) * 2 ^ (e - 1))
      in if fp_neg w then - int u else int u)"

definition round_shift :: "nat \<Rightarrow> nat \<Rightarrow> nat" where
  "round_shift a s =
     (let q = a div 2 ^ s; r = a mod 2 ^ s
      in if s = 0 then a
         else if r > 2 ^ (s - 1) \<or> (r = 2 ^ (s - 1) \<and> odd q) then q + 1 else q)"

definition fp_round :: "nat \<Rightarrow> 'w::len itself \<Rightarrow> nat \<Rightarrow> nat" where
  "fp_round p ty a =
     (let s = bit_len a - (p + 1) in min (s * 2 ^ p + round_shift a s) (fp_inf p ty))"

definition fp_sub :: "nat \<Rightarrow> 'w::len word \<Rightarrow> 'w word \<Rightarrow> 'w word" where
  "fp_sub p x y =
     (let d = fp_units p x - fp_units p y; sgn = 2 ^ (LENGTH('w) - 1)
      in if d = 0 then (if fp_mag x = 0 \<and> fp_mag y = 0 \<and> fp_neg x \<and> \<not> fp_neg y
                        then word_of_nat sgn else 0)
         else word_of_nat ((if d < 0 then sgn else 0) + fp_round p TYPE('w) (nat \<bar>d\<bar>)))"

definition fp_ops :: "nat \<Rightarrow> nat \<Rightarrow> ('w::len word, 'w word) cluster_ops" where
  "fp_ops p one =
     \<lparr>op_eq = EqualsFloat p, op_gt = GreaterThanFloat p, op_ge = GreaterThanEqualsFloat p,
      raw_eq = fp_raw_eq p, raw_gt = fp_raw_gt p,
      v_isnan = fp_isnan p, v_isinf = fp_isinf p,
      v_isneginf = (\<lambda>v. fp_isinf p v \<and> fp_lt0 p v),
      v_default = 0, v_zero = 0, v_one = word_of_nat one,
      gap_of = (\<lambda>l r. fp_sub p r l), gap_less = (\<lambda>a b. fp_raw_gt p b a),
      gap_is_zero = (\<lambda>g. fp_raw_eq p g 0)\<rparr>"

definition float_ops :: "(32 word, 32 word) cluster_ops" where
  "float_ops = fp_ops 23 0x3F800000"

definition double_ops :: "(64 word, 64 word) cluster_ops" where
  "double_ops = fp_ops 52 0x3FF0000000000000"

lemma fp_mag_le_inf: "\<not> fp_isnan p w \<Longrightarrow> fp_mag w \<le> fp_inf p TYPE('w)"
  for w :: "'w::len word"
  by (simp add: fp_isnan_def)

lemma fp_key_bounds:
  "\<not> fp_isnan p w \<Longrightarrow> \<bar>fp_key w\<bar> \<le> int (fp_inf p TYPE('w))" for w :: "'w::len word"
  using fp_mag_le_inf [of p w] by (simp add: fp_key_def)

lemma fp_duck_order: "duck_order (fp_ops p one :: ('w::len word, 'w word) cluster_ops)"
proof
  fix a b :: "'w word"
  assume "v_isinf (fp_ops p one) a" "\<not> v_isneginf (fp_ops p one) a" "op_gt (fp_ops p one) b a"
  moreover from this have "fp_key a = int (fp_inf p TYPE('w)) \<or> fp_key a = 0"
    by (auto simp: fp_ops_def fp_isinf_def fp_lt0_def fp_key_def fp_isnan_def split: if_splits)
  ultimately show "v_isnan (fp_ops p one) b"
    using fp_key_bounds [of p b]
    by (auto simp: fp_ops_def fp_isinf_def fp_lt0_def GreaterThanFloat_def Let_def fp_raw_gt_def
        fp_isnan_def fp_key_def split: if_splits)
next
  fix a b :: "'w word"
  assume *: "v_isneginf (fp_ops p one) a"
  then have "fp_key a = - int (fp_inf p TYPE('w))" "\<not> fp_isnan p a"
    by (auto simp: fp_ops_def fp_isinf_def fp_lt0_def fp_key_def split: if_splits)
  then show "\<not> op_gt (fp_ops p one) a b"
    using fp_key_bounds [of p b]
    by (auto simp: fp_ops_def GreaterThanFloat_def Let_def fp_raw_gt_def)
qed (auto simp: fp_ops_def EqualsFloat_def GreaterThanFloat_def GreaterThanEqualsFloat_def
       fp_raw_gt_def fp_raw_eq_def fp_raw_ge_def Let_def split: if_splits)

interpretation float_order: duck_order float_ops
  unfolding float_ops_def by (rule fp_duck_order)

interpretation double_order: duck_order double_ops
  unfolding double_ops_def by (rule fp_duck_order)

text \<open>Ordering the bit patterns is ordering the numbers they stand for.\<close>

definition fp_mag_units :: "nat \<Rightarrow> nat \<Rightarrow> nat" where
  "fp_mag_units p m =
     (if m div 2 ^ p = 0 then m mod 2 ^ p else (2 ^ p + m mod 2 ^ p) * 2 ^ (m div 2 ^ p - 1))"

lemma fp_mag_units_Suc: "fp_mag_units p m < fp_mag_units p (Suc m)"
proof (cases "Suc (m mod 2 ^ p) = 2 ^ p")
  case True
  then have "Suc m div 2 ^ p = Suc (m div 2 ^ p)" "Suc m mod 2 ^ p = 0" "m mod 2 ^ p < 2 ^ p"
    by (simp_all add: div_Suc mod_Suc)
  then show ?thesis
    by (cases "m div 2 ^ p") (auto simp: fp_mag_units_def)
next
  case False
  then have "Suc m div 2 ^ p = m div 2 ^ p" "Suc m mod 2 ^ p = Suc (m mod 2 ^ p)"
    by (simp_all add: div_Suc mod_Suc)
  then show ?thesis by (auto simp: fp_mag_units_def)
qed

lemma fp_mag_units_mono: "m < n \<Longrightarrow> fp_mag_units p m < fp_mag_units p n"
  using lift_Suc_mono_less [of "fp_mag_units p"] fp_mag_units_Suc by blast

lemma fp_mag_units_less_iff: "fp_mag_units p m < fp_mag_units p n \<longleftrightarrow> m < n"
  by (metis fp_mag_units_mono linorder_less_linear order_less_asym)

lemma fp_key_units: "fp_key x < fp_key y \<longleftrightarrow> fp_units p x < fp_units p y"
  for x y :: "'w::len word"
proof -
  have u: "fp_units p w = (if fp_neg w then - int (fp_mag_units p (fp_mag w))
      else int (fp_mag_units p (fp_mag w)))" for w :: "'w word"
    by (simp add: fp_units_def fp_mag_units_def Let_def)
  have z: "0 < fp_mag_units p m \<longleftrightarrow> 0 < m" for m
    using fp_mag_units_less_iff [of p 0 m] by (simp add: fp_mag_units_def)
  define f where "f m = int (fp_mag_units p m)" for m
  have f: "f m < f n \<longleftrightarrow> m < n" "f m = f n \<longleftrightarrow> m = n" "0 \<le> f m" "0 < f m \<longleftrightarrow> 0 < m" for m n
    using fp_mag_units_less_iff [of p m n] fp_mag_units_less_iff [of p n m] z [of m]
    by (auto simp: f_def)
  have l: "(int m < int n) = (f m < f n)" "(- int m < int n) = (- f m < f n)"
    "(int m < - int n) = (f m < - f n)" "(- int m < - int n) = (- f m < - f n)" for m n
    using f(1) [of m n] f(1) [of n m] f(3) [of m] f(3) [of n] f(4) [of m] f(4) [of n] by linarith+
  show ?thesis
    unfolding u fp_key_def f_def [symmetric] by (simp only: l split: if_split) blast
qed

text \<open>Unfolding rules to evaluate the operations at concrete patterns.\<close>

lemmas fp_eval = float_ops_def double_ops_def fp_ops_def fp_raw_gt_def fp_raw_eq_def fp_raw_ge_def
  fp_isnan_def fp_inf_def fp_mag_def fp_key_def fp_neg_def GreaterThanFloat_def
  GreaterThanEqualsFloat_def EqualsFloat_def fp_isinf_def fp_lt0_def fp_sub_def fp_units_def
  fp_round_def round_shift_def bit_len.simps

lemmas ops_eval = signed_ops_def unsigned_ops_def bool_ops_def bool_gt_def string_ops_def
  op_ne_def op_lt_def op_le_def word_sless_alt

end
