(* ===== verification/Types.thy ===== *)
theory Types
  imports Prelude
begin

text \<open>
  The types of the type system (\<open>common/types.hpp\<close>, \<open>common/types.cpp\<close>) and the two
  enumerations every component speaks: the comparison kinds of an expression and the five
  answers of a statistics check.
\<close>

subsection \<open>Enumerations\<close>

datatype PhysicalType =
    PT_BOOL | PT_UINT8 | PT_INT8 | PT_UINT16 | PT_INT16 | PT_UINT32 | PT_INT32
  | PT_UINT64 | PT_INT64 | PT_FLOAT | PT_DOUBLE | PT_INTERVAL | PT_LIST | PT_STRUCT
  | PT_ARRAY | PT_VARCHAR | PT_UINT128 | PT_INT128 | PT_UNKNOWN | PT_BIT | PT_INVALID

datatype LogicalTypeId =
    LT_INVALID | LT_SQLNULL | LT_UNKNOWN | LT_ANY | LT_USER | LT_TEMPLATE
  | LT_BOOLEAN | LT_TINYINT | LT_SMALLINT | LT_INTEGER | LT_BIGINT | LT_DATE | LT_TIME
  | LT_TIMESTAMP_SEC | LT_TIMESTAMP_MS | LT_TIMESTAMP | LT_TIMESTAMP_NS | LT_DECIMAL
  | LT_FLOAT | LT_DOUBLE | LT_CHAR | LT_VARCHAR | LT_BLOB | LT_INTERVAL | LT_UTINYINT
  | LT_USMALLINT | LT_UINTEGER | LT_UBIGINT | LT_TIMESTAMP_TZ | LT_TIME_TZ | LT_TIME_NS
  | LT_BIT | LT_STRING_LITERAL | LT_INTEGER_LITERAL | LT_BIGNUM | LT_UHUGEINT | LT_HUGEINT
  | LT_POINTER | LT_VALIDITY | LT_UUID | LT_STRUCT | LT_LIST | LT_MAP | LT_TABLE | LT_ENUM
  | LT_AGGREGATE_STATE | LT_LAMBDA | LT_UNION | LT_ARRAY | LT_VARIANT

text \<open>
  The expression kinds the modelled code names; every other member of the enumeration is
  \<open>EXPRESSION_OTHER\<close> with its raw value.
\<close>

datatype ExpressionType =
    OPERATOR_NOT | OPERATOR_IS_NULL | OPERATOR_IS_NOT_NULL
  | COMPARE_EQUAL | COMPARE_NOTEQUAL | COMPARE_LESSTHAN | COMPARE_GREATERTHAN
  | COMPARE_LESSTHANOREQUALTO | COMPARE_GREATERTHANOREQUALTO | COMPARE_IN | COMPARE_NOT_IN
  | COMPARE_DISTINCT_FROM | COMPARE_BETWEEN | COMPARE_NOT_BETWEEN | COMPARE_NOT_DISTINCT_FROM
  | CONJUNCTION_AND | CONJUNCTION_OR | VALUE_CONSTANT | BOUND_FUNCTION | OPERATOR_COALESCE
  | BOUND_REF | BOUND_COLUMN_REF | EXPRESSION_OTHER "8 word"

datatype FilterPropagateResult =
    NO_PRUNING_POSSIBLE
  | FILTER_ALWAYS_TRUE
  | FILTER_ALWAYS_FALSE
  | FILTER_TRUE_OR_NULL
  | FILTER_FALSE_OR_NULL

subsection \<open>Logical types\<close>

text \<open>
  A logical type is its id and the extra type information of the parameterised ids: the
  width of a decimal, the dictionary size of an enum, the children of nested types.
\<close>

datatype LogicalType = LogicalType (type_id: LogicalTypeId) (type_info: ExtraTypeInfo)
and ExtraTypeInfo =
    NoTypeInfo
  | DecimalTypeInfo nat
  | EnumTypeInfo nat
  | is_ListTypeInfo: ListTypeInfo LogicalType
  | is_StructTypeInfo: StructTypeInfo "(string \<times> LogicalType) list"
  | is_ArrayTypeInfo: ArrayTypeInfo LogicalType nat

definition EnumDictType :: "nat \<Rightarrow> PhysicalType result" where
  "EnumDictType n =
     (if n \<le> 255 then Inr PT_UINT8
      else if n \<le> 65535 then Inr PT_UINT16
      else if n \<le> 4294967295 then Inr PT_UINT32
      else Inl InternalException)"

text \<open>
  \<open>LogicalType::GetInternalType\<close>. A pointer has eight bytes on the platforms modelled;
  a list-like or enum id whose type information has another shape is a failed cast of the
  type information.
\<close>

definition GetInternalType :: "LogicalType \<Rightarrow> PhysicalType result" where
  "GetInternalType t =
     (case type_id t of
        LT_BOOLEAN \<Rightarrow> Inr PT_BOOL
      | LT_TINYINT \<Rightarrow> Inr PT_INT8
      | LT_UTINYINT \<Rightarrow> Inr PT_UINT8
      | LT_SMALLINT \<Rightarrow> Inr PT_INT16
      | LT_USMALLINT \<Rightarrow> Inr PT_UINT16
      | LT_SQLNULL \<Rightarrow> Inr PT_INT32
      | LT_DATE \<Rightarrow> Inr PT_INT32
      | LT_INTEGER \<Rightarrow> Inr PT_INT32
      | LT_UINTEGER \<Rightarrow> Inr PT_UINT32
      | LT_BIGINT \<Rightarrow> Inr PT_INT64
      | LT_TIME \<Rightarrow> Inr PT_INT64
      | LT_TIME_NS \<Rightarrow> Inr PT_INT64
      | LT_TIMESTAMP \<Rightarrow> Inr PT_INT64
      | LT_TIMESTAMP_SEC \<Rightarrow> Inr PT_INT64
      | LT_TIMESTAMP_NS \<Rightarrow> Inr PT_INT64
      | LT_TIMESTAMP_MS \<Rightarrow> Inr PT_INT64
      | LT_TIME_TZ \<Rightarrow> Inr PT_INT64
      | LT_TIMESTAMP_TZ \<Rightarrow> Inr PT_INT64
      | LT_UBIGINT \<Rightarrow> Inr PT_UINT64
      | LT_UHUGEINT \<Rightarrow> Inr PT_UINT128
      | LT_HUGEINT \<Rightarrow> Inr PT_INT128
      | LT_UUID \<Rightarrow> Inr PT_INT128
      | LT_FLOAT \<Rightarrow> Inr PT_FLOAT
      | LT_DOUBLE \<Rightarrow> Inr PT_DOUBLE
      | LT_DECIMAL \<Rightarrow>
          (case type_info t of
             DecimalTypeInfo width \<Rightarrow>
               (if width \<le> 4 then Inr PT_INT16
                else if width \<le> 9 then Inr PT_INT32
                else if width \<le> 18 then Inr PT_INT64
                else if width \<le> 38 then Inr PT_INT128
                else Inl InternalException)
           | NoTypeInfo \<Rightarrow> Inr PT_INVALID
           | _ \<Rightarrow> Inl InternalException)
      | LT_BIGNUM \<Rightarrow> Inr PT_VARCHAR
      | LT_VARCHAR \<Rightarrow> Inr PT_VARCHAR
      | LT_CHAR \<Rightarrow> Inr PT_VARCHAR
      | LT_BLOB \<Rightarrow> Inr PT_VARCHAR
      | LT_BIT \<Rightarrow> Inr PT_VARCHAR
      | LT_INTERVAL \<Rightarrow> Inr PT_INTERVAL
      | LT_UNION \<Rightarrow> Inr PT_STRUCT
      | LT_VARIANT \<Rightarrow> Inr PT_STRUCT
      | LT_STRUCT \<Rightarrow> Inr PT_STRUCT
      | LT_LIST \<Rightarrow> Inr PT_LIST
      | LT_MAP \<Rightarrow> Inr PT_LIST
      | LT_ARRAY \<Rightarrow> Inr PT_ARRAY
      | LT_POINTER \<Rightarrow> Inr PT_UINT64
      | LT_VALIDITY \<Rightarrow> Inr PT_BIT
      | LT_ENUM \<Rightarrow>
          (case type_info t of
             EnumTypeInfo dict_size \<Rightarrow> EnumDictType dict_size
           | NoTypeInfo \<Rightarrow> Inr PT_INVALID
           | _ \<Rightarrow> Inl InternalException)
      | LT_TABLE \<Rightarrow> Inr PT_INVALID
      | LT_LAMBDA \<Rightarrow> Inr PT_INVALID
      | LT_ANY \<Rightarrow> Inr PT_INVALID
      | LT_INVALID \<Rightarrow> Inr PT_INVALID
      | LT_UNKNOWN \<Rightarrow> Inr PT_INVALID
      | LT_STRING_LITERAL \<Rightarrow> Inr PT_INVALID
      | LT_INTEGER_LITERAL \<Rightarrow> Inr PT_INVALID
      | LT_TEMPLATE \<Rightarrow> Inr PT_INVALID
      | LT_USER \<Rightarrow> Inr PT_UNKNOWN
      | LT_AGGREGATE_STATE \<Rightarrow> Inr PT_VARCHAR)"

text \<open>
  \<open>LogicalType::InternalType\<close> reads the field the constructor filled from
  \<open>GetInternalType\<close>; a type whose constructor throws does not exist.
\<close>

definition InternalType :: "LogicalType \<Rightarrow> PhysicalType" where
  "InternalType t = (case GetInternalType t of Inr p \<Rightarrow> p | Inl _ \<Rightarrow> PT_INVALID)"

subsection \<open>Child types\<close>

text \<open>
  \<open>StructType::GetChildTypes\<close>, \<open>ListType::GetChildType\<close> and \<open>ArrayType::GetChildType\<close>
  read the extra type information of a nested type.
\<close>

fun struct_child_types :: "LogicalType \<Rightarrow> (string \<times> LogicalType) list" where
  "struct_child_types (LogicalType _ (StructTypeInfo ts)) = ts"
| "struct_child_types _ = []"

fun list_child_type :: "LogicalType \<Rightarrow> LogicalType" where
  "list_child_type (LogicalType _ (ListTypeInfo t)) = t"
| "list_child_type _ = LogicalType LT_INVALID NoTypeInfo"

fun array_child_type :: "LogicalType \<Rightarrow> LogicalType" where
  "array_child_type (LogicalType _ (ArrayTypeInfo t _)) = t"
| "array_child_type _ = LogicalType LT_INVALID NoTypeInfo"

lemma size_struct_child [termination_simp]:
  "p \<in> set ts \<Longrightarrow> size (snd p) < Suc (size_list (size_prod (\<lambda>_. 0) size) ts)"
  by (induction ts) (auto simp: size_prod_def split: prod.splits)

text \<open>
  A type is well formed when the parameterised ids carry the information their accessors
  read, all the way down.
\<close>

fun wf_type :: "LogicalType \<Rightarrow> bool"
and wf_info :: "ExtraTypeInfo \<Rightarrow> bool" where
  "wf_type (LogicalType i info) \<longleftrightarrow>
     wf_info info \<and>
     (InternalType (LogicalType i info) = PT_STRUCT \<longleftrightarrow> is_StructTypeInfo info) \<and>
     (InternalType (LogicalType i info) = PT_LIST \<longleftrightarrow> is_ListTypeInfo info) \<and>
     (InternalType (LogicalType i info) = PT_ARRAY \<longleftrightarrow> is_ArrayTypeInfo info)"
| "wf_info NoTypeInfo \<longleftrightarrow> True"
| "wf_info (DecimalTypeInfo _) \<longleftrightarrow> True"
| "wf_info (EnumTypeInfo _) \<longleftrightarrow> True"
| "wf_info (ListTypeInfo t) \<longleftrightarrow> wf_type t"
| "wf_info (StructTypeInfo ts) \<longleftrightarrow> (\<forall>p \<in> set ts. wf_type (snd p))"
| "wf_info (ArrayTypeInfo t _) \<longleftrightarrow> wf_type t"

end
