(* ===== verification/AdditionalStats.thy ===== *)
theory AdditionalStats
  imports Comparison Types
begin

text \<open>
  The interface of an additional statistic (\<open>storage/statistics/additional\<close>): a summary of
  the values of a column chunk that answers whether a comparison with a constant, or a
  range, can hold for any of them. The locale states what a statistic promises; the cluster,
  bloom, dictionary and empty statistics interpret it, and the dispatcher and the zone maps
  use it.
\<close>

subsection \<open>What a comparison means for one value\<close>

text \<open>
  The truth of \<open>value cmp constant\<close> for a value that is not NULL. An expression kind that is
  no comparison says nothing about the value.
\<close>

fun compare_holds :: "('v, 'z) value_ops_scheme \<Rightarrow> ExpressionType \<Rightarrow> 'v \<Rightarrow> 'v \<Rightarrow> bool" where
  "compare_holds ops COMPARE_EQUAL v c = op_eq ops v c"
| "compare_holds ops COMPARE_NOT_DISTINCT_FROM v c = op_eq ops v c"
| "compare_holds ops COMPARE_NOTEQUAL v c = op_ne ops v c"
| "compare_holds ops COMPARE_DISTINCT_FROM v c = op_ne ops v c"
| "compare_holds ops COMPARE_GREATERTHAN v c = op_gt ops v c"
| "compare_holds ops COMPARE_GREATERTHANOREQUALTO v c = op_ge ops v c"
| "compare_holds ops COMPARE_LESSTHAN v c = op_lt ops v c"
| "compare_holds ops COMPARE_LESSTHANOREQUALTO v c = op_le ops v c"
| "compare_holds ops _ v c = True"

definition in_closed_range :: "('v, 'z) value_ops_scheme \<Rightarrow> 'v \<Rightarrow> 'v \<Rightarrow> 'v \<Rightarrow> bool" where
  "in_closed_range ops lo hi v = (op_ge ops v lo \<and> op_le ops v hi)"

text \<open>The comparison kinds the statistics answer.\<close>

definition is_comparison :: "ExpressionType \<Rightarrow> bool" where
  "is_comparison cmp = (cmp \<in> {COMPARE_EQUAL, COMPARE_NOT_DISTINCT_FROM, COMPARE_NOTEQUAL,
     COMPARE_DISTINCT_FROM, COMPARE_GREATERTHAN, COMPARE_GREATERTHANOREQUALTO,
     COMPARE_LESSTHAN, COMPARE_LESSTHANOREQUALTO})"

context duck_order
begin

lemma compare_holds_cong:
  "op_eq ops v v' \<Longrightarrow> compare_holds ops cmp v c = compare_holds ops cmp v' c"
  using gt_cong [of v v' c c] gt_cong [of c c v v']
  by (cases "(ops, cmp, v, c)" rule: compare_holds.cases)
    (auto simp: op_ne_def op_lt_def op_le_def ge_iff eq_iff)

lemma compare_holds_ge:
  "cmp = COMPARE_GREATERTHAN \<or> cmp = COMPARE_GREATERTHANOREQUALTO \<Longrightarrow>
   compare_holds ops cmp v c \<Longrightarrow> \<not> op_gt ops c v"
  by (auto simp: ge_iff dest: gt_asym)

lemma compare_holds_le:
  "cmp = COMPARE_LESSTHAN \<or> cmp = COMPARE_LESSTHANOREQUALTO \<Longrightarrow>
   compare_holds ops cmp v c \<Longrightarrow> \<not> op_gt ops v c"
  by (auto simp: op_lt_def op_le_def dest: gt_asym)

end

subsection \<open>The interface\<close>

text \<open>
  \<open>describes s xs\<close> says that the statistic \<open>s\<close> summarises a chunk whose values are \<open>xs\<close>. A
  query may throw; when it answers, the answer is \<open>NO_PRUNING_POSSIBLE\<close> or
  \<open>FILTER_ALWAYS_FALSE\<close>, and the second only when no value satisfies the comparison.
\<close>

locale additional_stats = duck_order ops
  for ops :: "('v, 'z) value_ops_scheme" +
  fixes describes :: "'s \<Rightarrow> 'v list \<Rightarrow> bool"
    and query :: "'s \<Rightarrow> ExpressionType \<Rightarrow> 'v \<Rightarrow> FilterPropagateResult result"
    and query_range :: "'s \<Rightarrow> 'v \<Rightarrow> 'v \<Rightarrow> FilterPropagateResult result"
  assumes query_answer:
      "query s cmp c = Inr r \<Longrightarrow> r = NO_PRUNING_POSSIBLE \<or> r = FILTER_ALWAYS_FALSE"
    and query_false:
      "describes s xs \<Longrightarrow> query s cmp c = Inr FILTER_ALWAYS_FALSE \<Longrightarrow> v \<in> set xs \<Longrightarrow>
       \<not> compare_holds ops cmp v c"
    and range_answer:
      "query_range s lo hi = Inr r \<Longrightarrow> r = NO_PRUNING_POSSIBLE \<or> r = FILTER_ALWAYS_FALSE"
    and range_false:
      "describes s xs \<Longrightarrow> query_range s lo hi = Inr FILTER_ALWAYS_FALSE \<Longrightarrow> v \<in> set xs \<Longrightarrow>
       \<not> in_closed_range ops lo hi v"
begin

text \<open>A pruned chunk contributes no row, and a chunk with a matching row is kept.\<close>

lemma pruned_empty:
  "describes s xs \<Longrightarrow> query s cmp c = Inr FILTER_ALWAYS_FALSE \<Longrightarrow>
   [v \<leftarrow> xs. compare_holds ops cmp v c] = []"
  using query_false by (auto simp: filter_empty_conv)

lemma match_kept:
  "describes s xs \<Longrightarrow> v \<in> set xs \<Longrightarrow> compare_holds ops cmp v c \<Longrightarrow> query s cmp c = Inr r \<Longrightarrow>
   r = NO_PRUNING_POSSIBLE"
  using query_answer query_false by blast

lemma range_pruned_empty:
  "describes s xs \<Longrightarrow> query_range s lo hi = Inr FILTER_ALWAYS_FALSE \<Longrightarrow>
   [v \<leftarrow> xs. compare_holds ops COMPARE_GREATERTHANOREQUALTO v lo \<and>
             compare_holds ops COMPARE_LESSTHANOREQUALTO v hi] = []"
  using range_false by (fastforce simp: filter_empty_conv in_closed_range_def)

lemma range_pruned_between:
  assumes "describes s xs" "query_range s lo hi = Inr FILTER_ALWAYS_FALSE" "v \<in> set xs"
    and lower: "lcmp = COMPARE_GREATERTHAN \<or> lcmp = COMPARE_GREATERTHANOREQUALTO"
    and upper: "ucmp = COMPARE_LESSTHAN \<or> ucmp = COMPARE_LESSTHANOREQUALTO"
  shows "\<not> (compare_holds ops lcmp v lo \<and> compare_holds ops ucmp v hi)"
proof
  assume "compare_holds ops lcmp v lo \<and> compare_holds ops ucmp v hi"
  then have "in_closed_range ops lo hi v"
    using compare_holds_ge [OF lower] compare_holds_le [OF upper]
    by (simp add: in_closed_range_def ge_iff op_le_def)
  then show False using range_false assms(1-3) by blast
qed

end

end
