(* ===== verification/Cluster.thy ===== *)
theory Cluster
  imports AdditionalStats
begin

text \<open>
  The cluster statistic for numeric types (\<open>cluster_additional_stats.hpp\<close>,
  \<open>ClusterAdditionalStats<T, N>\<close>): at most \<open>N\<close> disjoint ranges that cover the values, cut at
  the largest gaps. The template argument \<open>N\<close> is an argument of the definitions; the loop
  counter of type \<open>int\<close> is a natural number, so the model speaks of chunks of fewer than
  $2^{31}$ values.
\<close>

subsection \<open>State\<close>

record 'v cluster_stats =
  min_values :: "'v list"
  max_values :: "'v list"

text \<open>The arrays as the constructor leaves them, before \<open>Initialise\<close> runs.\<close>

definition cluster_alloc :: "nat \<Rightarrow> 'v \<Rightarrow> 'v cluster_stats" where
  "cluster_alloc N d = \<lparr>min_values = replicate N d, max_values = replicate N d\<rparr>"

subsection \<open>Initialise\<close>

text \<open>
  The values that get a range of their own: negative infinity, positive infinity and NaN.
  The first loop keeps the last one seen of each.
\<close>

record 'v special_values =
  neg_inf :: "'v option"
  pos_inf :: "'v option"
  nan_val :: "'v option"

definition scan_special_step ::
  "('v, 'z) value_ops_scheme \<Rightarrow> 'v \<Rightarrow> 'v special_values \<Rightarrow> 'v special_values" where
  "scan_special_step ops value sp =
     (if v_isnan ops value then sp\<lparr>nan_val := Some value\<rparr>
      else if v_isinf ops value then
        (if v_isneginf ops value then sp\<lparr>neg_inf := Some value\<rparr>
         else sp\<lparr>pos_inf := Some value\<rparr>)
      else sp)"

definition scan_special :: "('v, 'z) value_ops_scheme \<Rightarrow> 'v list \<Rightarrow> 'v special_values" where
  "scan_special ops data =
     fold (scan_special_step ops) data \<lparr>neg_inf = None, pos_inf = None, nan_val = None\<rparr>"

definition has_special_values :: "'v special_values \<Rightarrow> bool" where
  "has_special_values sp = (neg_inf sp \<noteq> None \<or> pos_inf sp \<noteq> None \<or> nan_val sp \<noteq> None)"

definition finite_data :: "('v, 'z) value_ops_scheme \<Rightarrow> 'v list \<Rightarrow> 'v list" where
  "finite_data ops data = [v \<leftarrow> data. \<not> v_isnan ops v \<and> \<not> v_isinf ops v]"

text \<open>The gaps between neighbours, and the comparator \<open>std::greater\<close> on pairs.\<close>

definition compute_gaps :: "('v, 'g, 'z) cluster_ops_scheme \<Rightarrow> 'v list \<Rightarrow> ('g \<times> nat) list" where
  "compute_gaps ops xs = map (\<lambda>i. (gap_of ops (xs ! i) (xs ! (i + 1)), i)) [0..<length xs - 1]"

definition pair_greater :: "('g \<Rightarrow> 'g \<Rightarrow> bool) \<Rightarrow> 'g \<times> nat \<Rightarrow> 'g \<times> nat \<Rightarrow> bool" where
  "pair_greater lt x y = (lt (fst y) (fst x) \<or> (\<not> lt (fst x) (fst y) \<and> snd y < snd x))"

text \<open>The positions of the \<open>stop\<close> largest gaps that are not zero, largest gap first.\<close>

definition select_gaps :: "('v, 'g, 'z) cluster_ops_scheme \<Rightarrow> nat \<Rightarrow> 'v list \<Rightarrow> nat list" where
  "select_gaps ops stop xs =
     (let gaps = std_sort (pair_greater (gap_less ops)) (compute_gaps ops xs)
      in map snd (takeWhile (\<lambda>g. \<not> gap_is_zero ops (fst g)) (take (min (length gaps) stop) gaps)))"

text \<open>
  Writing the ranges: the statistic under construction and \<open>cluster_count\<close>. A write outside
  the arrays is \<open>OutOfBounds\<close>.
\<close>

type_synonym 'v cluster_st = "'v cluster_stats \<times> nat"

definition set_range :: "'v \<Rightarrow> 'v \<Rightarrow> 'v cluster_st \<Rightarrow> 'v cluster_st result" where
  "set_range lo hi st =
     (case st of (s, cluster_count) \<Rightarrow>
        if cluster_count < length (min_values s) \<and> cluster_count < length (max_values s)
        then Inr (s\<lparr>min_values := (min_values s)[cluster_count := lo],
                    max_values := (max_values s)[cluster_count := hi]\<rparr>, cluster_count + 1)
        else Inl OutOfBounds)"

definition set_special :: "'v option \<Rightarrow> 'v cluster_st \<Rightarrow> 'v cluster_st result" where
  "set_special sp st = (case sp of None \<Rightarrow> Inr st | Some v \<Rightarrow> set_range v v st)"

fun set_ranges :: "'v list \<Rightarrow> nat list \<Rightarrow> 'v \<Rightarrow> 'v cluster_st \<Rightarrow> ('v \<times> 'v cluster_st) result" where
  "set_ranges xs [] start st = Inr (start, st)"
| "set_ranges xs (idx # idxs) start st =
     bind_result (set_range start (xs ! idx) st) (set_ranges xs idxs (xs ! (idx + 1)))"

text \<open>The remaining slots repeat the last range.\<close>

function pad_from :: "nat \<Rightarrow> nat \<Rightarrow> 'v cluster_stats \<Rightarrow> 'v cluster_stats result" where
  "pad_from N i s =
     (if i < N then
        (if i = 0 then Inl OutOfBounds
         else pad_from N (i + 1)
                (s\<lparr>min_values := (min_values s)[i := min_values s ! (i - 1)],
                   max_values := (max_values s)[i := max_values s ! (i - 1)]\<rparr>))
      else Inr s)"
  by pat_completeness auto
termination by (relation "measure (\<lambda>(N, i, s). N - i)") auto

declare pad_from.simps [simp del]

text \<open>The end of \<open>Initialise\<close>: the ranges of positive infinity and NaN, then the padding.\<close>

definition cluster_finish ::
  "'v special_values \<Rightarrow> nat \<Rightarrow> 'v cluster_st \<Rightarrow> 'v cluster_stats result" where
  "cluster_finish sp N st =
     bind_result (set_special (pos_inf sp) st) (\<lambda>st.
     bind_result (set_special (nan_val sp) st) (\<lambda>(s, cluster_count).
     pad_from N cluster_count s))"

definition cluster_stop :: "'v special_values \<Rightarrow> nat \<Rightarrow> nat" where
  "cluster_stop sp N =
     N - 1 - (if nan_val sp \<noteq> None then 1 else 0) - (if neg_inf sp \<noteq> None then 1 else 0)
       - (if pos_inf sp \<noteq> None then 1 else 0)"

definition cluster_Initialise ::
  "('v, 'g, 'z) cluster_ops_scheme \<Rightarrow> nat \<Rightarrow> 'v list \<Rightarrow> 'v cluster_stats \<Rightarrow> 'v cluster_stats result"
  where
  "cluster_Initialise ops N data nstats =
     (if (word_of_nat (length data) :: 32 word) = 0
      then bind_result (set_range (v_one ops) (v_zero ops) (nstats, 0)) (\<lambda>(s, _). Inr s)
      else
        let sorted_data = std_sort (\<lambda>left right. op_gt ops right left) data;
            sp = scan_special ops sorted_data;
            cluster_data = (if has_special_values sp then finite_data ops sorted_data else sorted_data)
        in if N = 1 \<or> (N < 4 \<and> has_special_values sp)
           then bind_result (set_range (hd sorted_data) (last sorted_data) (nstats, 0))
                  (\<lambda>(s, cluster_count). pad_from N cluster_count s)
           else bind_result (set_special (neg_inf sp) (nstats, 0)) (\<lambda>st.
             if cluster_data = [] then cluster_finish sp N st
             else bind_result
                    (set_ranges cluster_data
                       (std_sort (<) (select_gaps ops (cluster_stop sp N) cluster_data))
                       (hd cluster_data) st) (\<lambda>(start, st).
                  bind_result (set_range start (last cluster_data) st) (cluster_finish sp N))))"

definition cluster_construct ::
  "('v, 'g, 'z) cluster_ops_scheme \<Rightarrow> nat \<Rightarrow> 'v list \<Rightarrow> 'v cluster_stats result" where
  "cluster_construct ops N data = cluster_Initialise ops N data (cluster_alloc N (v_default ops))"

subsection \<open>The queries\<close>

text \<open>
  \<open>FindLastIndexBeforePoint_Binary\<close>, its loop with \<open>lo\<close> and \<open>hi\<close> as integers, and the
  linear scan the code keeps beside it.
\<close>

function find_binary_loop ::
  "('v, 'z) value_ops_scheme \<Rightarrow> 'v list \<Rightarrow> 'v \<Rightarrow> int \<Rightarrow> int \<Rightarrow> int" where
  "find_binary_loop ops mins constant lo hi =
     (if lo < hi then
        (let mid = (lo + hi + 1) div 2
         in if op_gt ops (mins ! nat mid) constant then find_binary_loop ops mins constant lo (mid - 1)
            else if op_lt ops (mins ! nat mid) constant then find_binary_loop ops mins constant mid hi
            else mid)
      else lo)"
  by pat_completeness auto
termination
  by (relation "measure (\<lambda>(ops, mins, constant, lo, hi). nat (hi - lo))") auto

declare find_binary_loop.simps [simp del]

definition FindLastIndexBeforePoint_Binary ::
  "('v, 'z) value_ops_scheme \<Rightarrow> 'v list \<Rightarrow> nat \<Rightarrow> 'v \<Rightarrow> int" where
  "FindLastIndexBeforePoint_Binary ops mins len constant =
     (if op_gt ops (mins ! 0) constant then -1
      else find_binary_loop ops mins constant 0 (int len - 1))"

fun find_linear_loop :: "('v, 'z) value_ops_scheme \<Rightarrow> 'v list \<Rightarrow> 'v \<Rightarrow> int \<Rightarrow> int" where
  "find_linear_loop ops [] constant i = i - 1"
| "find_linear_loop ops (m # mins) constant i =
     (if op_gt ops m constant then i - 1 else find_linear_loop ops mins constant (i + 1))"

definition FindLastIndexBeforePoint_Linear ::
  "('v, 'z) value_ops_scheme \<Rightarrow> 'v list \<Rightarrow> nat \<Rightarrow> 'v \<Rightarrow> int" where
  "FindLastIndexBeforePoint_Linear ops mins len constant =
     find_linear_loop ops (take len mins) constant 0"

definition FindLastIndexBeforePoint ::
  "('v, 'z) value_ops_scheme \<Rightarrow> 'v list \<Rightarrow> nat \<Rightarrow> 'v \<Rightarrow> int" where
  "FindLastIndexBeforePoint ops mins len constant =
     FindLastIndexBeforePoint_Binary ops mins len constant"

definition Query_Equal ::
  "('v, 'z) value_ops_scheme \<Rightarrow> nat \<Rightarrow> 'v cluster_stats \<Rightarrow> 'v \<Rightarrow> FilterPropagateResult" where
  "Query_Equal ops N s constant =
     (let idx = FindLastIndexBeforePoint ops (min_values s) N constant
      in if idx = -1 then FILTER_ALWAYS_FALSE
         else if op_ge ops (max_values s ! nat idx) constant then NO_PRUNING_POSSIBLE
         else FILTER_ALWAYS_FALSE)"

definition cluster_Query ::
  "('v, 'z) value_ops_scheme \<Rightarrow> nat \<Rightarrow> 'v cluster_stats \<Rightarrow> ExpressionType \<Rightarrow> 'v \<Rightarrow>
   FilterPropagateResult result" where
  "cluster_Query ops N s comparison_type constant =
     (if N = 0 \<or> raw_gt ops (min_values s ! 0) (max_values s ! 0) then Inr NO_PRUNING_POSSIBLE
      else case comparison_type of
        COMPARE_EQUAL \<Rightarrow> Inr (Query_Equal ops N s constant)
      | COMPARE_NOT_DISTINCT_FROM \<Rightarrow> Inr (Query_Equal ops N s constant)
      | COMPARE_NOTEQUAL \<Rightarrow>
          Inr (if op_eq ops (min_values s ! 0) (max_values s ! (N - 1))
                  \<and> op_eq ops (min_values s ! 0) constant
               then FILTER_ALWAYS_FALSE else NO_PRUNING_POSSIBLE)
      | COMPARE_DISTINCT_FROM \<Rightarrow>
          Inr (if op_eq ops (min_values s ! 0) (max_values s ! (N - 1))
                  \<and> op_eq ops (min_values s ! 0) constant
               then FILTER_ALWAYS_FALSE else NO_PRUNING_POSSIBLE)
      | COMPARE_GREATERTHANOREQUALTO \<Rightarrow>
          Inr (if op_ge ops (max_values s ! (N - 1)) constant
               then NO_PRUNING_POSSIBLE else FILTER_ALWAYS_FALSE)
      | COMPARE_GREATERTHAN \<Rightarrow>
          Inr (if op_ge ops (max_values s ! (N - 1)) constant
               then NO_PRUNING_POSSIBLE else FILTER_ALWAYS_FALSE)
      | COMPARE_LESSTHANOREQUALTO \<Rightarrow>
          Inr (if op_le ops (min_values s ! 0) constant
               then NO_PRUNING_POSSIBLE else FILTER_ALWAYS_FALSE)
      | COMPARE_LESSTHAN \<Rightarrow>
          Inr (if op_le ops (min_values s ! 0) constant
               then NO_PRUNING_POSSIBLE else FILTER_ALWAYS_FALSE)
      | _ \<Rightarrow> Inl InternalException)"

definition cluster_QueryRange ::
  "('v, 'z) value_ops_scheme \<Rightarrow> nat \<Rightarrow> 'v cluster_stats \<Rightarrow> 'v \<Rightarrow> 'v \<Rightarrow>
   FilterPropagateResult result" where
  "cluster_QueryRange ops N s lower upper =
     (if N = 0 \<or> raw_gt ops (min_values s ! 0) (max_values s ! 0) then Inr NO_PRUNING_POSSIBLE
      else
        let idx = FindLastIndexBeforePoint ops (min_values s) N lower
        in if idx = -1 then
             (if op_gt ops (min_values s ! 0) upper then Inr FILTER_ALWAYS_FALSE
              else Inr NO_PRUNING_POSSIBLE)
           else if op_ge ops (max_values s ! nat idx) lower
                   \<or> (nat idx < N - 1 \<and> op_le ops (min_values s ! (nat idx + 1)) upper)
           then Inr NO_PRUNING_POSSIBLE
           else Inr FILTER_ALWAYS_FALSE)"

subsection \<open>The arrays that Initialise writes\<close>

text \<open>
  \<open>wrote N rs st\<close>: the first \<open>cluster_count\<close> slots hold the ranges \<open>rs\<close>. Every write
  extends the list, the padding repeats its last element.
\<close>

definition wrote :: "nat \<Rightarrow> ('v \<times> 'v) list \<Rightarrow> 'v cluster_st \<Rightarrow> bool" where
  "wrote N rs st =
     (case st of (s, cc) \<Rightarrow>
        length (min_values s) = N \<and> length (max_values s) = N \<and> cc = length rs \<and> length rs \<le> N
        \<and> take cc (min_values s) = map fst rs \<and> take cc (max_values s) = map snd rs)"

definition padded :: "nat \<Rightarrow> ('v \<times> 'v) list \<Rightarrow> 'v cluster_stats \<Rightarrow> bool" where
  "padded N rs s \<longleftrightarrow>
     min_values s = map fst rs @ replicate (N - length rs) (fst (last rs)) \<and>
     max_values s = map snd rs @ replicate (N - length rs) (snd (last rs)) \<and>
     rs \<noteq> [] \<and> length rs \<le> N"

lemma wrote_start:
  "length (min_values s) = N \<Longrightarrow> length (max_values s) = N \<Longrightarrow> wrote N [] (s, 0)"
  by (simp add: wrote_def)

lemma set_range_wrote:
  assumes "wrote N rs st" "length rs < N"
  shows "\<exists>st'. set_range lo hi st = Inr st' \<and> wrote N (rs @ [(lo, hi)]) st'"
proof -
  obtain s cc where st: "st = (s, cc)" by (cases st)
  show ?thesis
    using assms by (auto simp: st wrote_def set_range_def take_Suc_update)
qed

lemma pad_from_wrote:
  "wrote N rs (s, cc) \<Longrightarrow> rs \<noteq> [] \<Longrightarrow> \<exists>s'. pad_from N cc s = Inr s' \<and> padded N rs s'"
proof (induction "N - cc" arbitrary: cc s rs)
  case 0
  then have "N \<le> cc" by simp
  with 0(2) have "N = length rs" "cc = length rs" by (simp_all add: wrote_def)
  with 0(2,3) show ?case
    by (auto simp: pad_from.simps [of "length rs" "length rs" s] wrote_def padded_def)
next
  case (Suc n)
  then have cc: "cc < N" "cc \<noteq> 0" "cc = length rs" by (auto simp: wrote_def)
  let ?s = "s\<lparr>min_values := (min_values s)[cc := min_values s ! (cc - 1)],
              max_values := (max_values s)[cc := max_values s ! (cc - 1)]\<rparr>"
  have last: "min_values s ! (cc - 1) = fst (last rs)" "max_values s ! (cc - 1) = snd (last rs)"
  proof -
    have last_slot: "ms ! (length rs - 1) = f (last rs)" if "take (length rs) ms = map f rs" for ms f
      using arg_cong [OF that, of "\<lambda>l. l ! (length rs - 1)"] Suc.prems(2)
      by (simp add: last_conv_nth)
    have "take (length rs) (min_values s) = map fst rs" "take (length rs) (max_values s) = map snd rs"
      using Suc.prems(1) by (auto simp: wrote_def)
    note last_slot [OF this(1)] last_slot [OF this(2)]
    then show "min_values s ! (cc - 1) = fst (last rs)" "max_values s ! (cc - 1) = snd (last rs)"
      by (simp_all only: cc(3))
  qed
  have "wrote N (rs @ [last rs]) (?s, cc + 1)"
    using Suc.prems cc last [unfolded cc(3)] by (auto simp: wrote_def take_Suc_update)
  moreover have "n = N - (cc + 1)" using Suc.hyps(2) by linarith
  ultimately obtain s' where s': "pad_from N (cc + 1) ?s = Inr s'" "padded N (rs @ [last rs]) s'"
    using Suc.hyps(1) [of "cc + 1" "rs @ [last rs]" ?s] by auto
  have "padded N rs s'"
    using s'(2) cc Suc.prems(2)
    by (simp add: padded_def replicate_app_Cons_same [symmetric])
       (metis Suc_diff_Suc replicate_Suc)
  moreover have "pad_from N cc s = pad_from N (cc + 1) ?s"
    using cc(1,2) by (subst pad_from.simps) simp
  ultimately show ?case using s'(1) by auto
qed

text \<open>The ranges of the finite values: cut after every chosen position.\<close>

fun cuts :: "'v list \<Rightarrow> nat list \<Rightarrow> 'v \<Rightarrow> ('v \<times> 'v) list" where
  "cuts xs [] start = [(start, last xs)]"
| "cuts xs (i # is) start = (start, xs ! i) # cuts xs is (xs ! (i + 1))"

lemma length_cuts [simp]: "length (cuts xs idxs start) = Suc (length idxs)"
  by (induction idxs arbitrary: start) auto

lemma set_ranges_wrote:
  "wrote N rs st \<Longrightarrow> length rs + length idxs \<le> N \<Longrightarrow>
   \<exists>start' st' rs'. set_ranges xs idxs start st = Inr (start', st') \<and> wrote N (rs @ rs') st' \<and>
     rs' @ [(start', last xs)] = cuts xs idxs start"
proof (induction idxs arbitrary: start rs st)
  case Nil
  then show ?case by auto
next
  case (Cons i idxs)
  then obtain st1 where st1: "set_range start (xs ! i) st = Inr st1"
    "wrote N (rs @ [(start, xs ! i)]) st1"
    using set_range_wrote [OF Cons.prems(1)] by fastforce
  obtain start' st' rs' where
    "set_ranges xs idxs (xs ! (i + 1)) st1 = Inr (start', st')"
    "wrote N ((rs @ [(start, xs ! i)]) @ rs') st'"
    "rs' @ [(start', last xs)] = cuts xs idxs (xs ! (i + 1))"
    using Cons.IH [OF st1(2), of "xs ! (i + 1)"] Cons.prems(2) by auto
  then show ?case
    using st1(1)
    by (intro exI [of _ start'] exI [of _ st'] exI [of _ "(start, xs ! i) # rs'"]) simp
qed

text \<open>
  What \<open>Initialise\<close> computes, as one list of ranges: the negative infinities, the cuts of the
  finite values, the positive infinities, the NaNs; or everything in one range when there is
  no room for that.
\<close>

definition option_range :: "'v option \<Rightarrow> ('v \<times> 'v) list" where
  "option_range sp = (case sp of None \<Rightarrow> [] | Some v \<Rightarrow> [(v, v)])"

definition cluster_ranges ::
  "('v, 'g, 'z) cluster_ops_scheme \<Rightarrow> nat \<Rightarrow> 'v list \<Rightarrow> ('v \<times> 'v) list" where
  "cluster_ranges ops N data =
     (let xs = std_sort (\<lambda>left right. op_gt ops right left) data;
          sp = scan_special ops xs;
          fs = (if has_special_values sp then finite_data ops xs else xs)
      in if N = 1 \<or> (N < 4 \<and> has_special_values sp) then [(hd xs, last xs)]
         else option_range (neg_inf sp)
              @ (if fs = [] then [] else cuts fs (std_sort (<) (select_gaps ops (cluster_stop sp N) fs)) (hd fs))
              @ option_range (pos_inf sp) @ option_range (nan_val sp))"

lemma length_option_range [simp]: "length (option_range sp) = (if sp = None then 0 else 1)"
  by (simp add: option_range_def split: option.splits)

lemma length_select_gaps: "length (select_gaps ops stop xs) \<le> stop"
  unfolding select_gaps_def Let_def length_map
  by (rule le_trans [OF length_takeWhile_le]) simp

lemma set_special_option_range:
  assumes "wrote N rs st" "length rs + length (option_range sp) \<le> N"
  shows "\<exists>st'. set_special sp st = Inr st' \<and> wrote N (rs @ option_range sp) st'"
proof (cases sp)
  case None
  then show ?thesis using assms by (simp add: set_special_def option_range_def)
next
  case (Some v)
  then show ?thesis
    using set_range_wrote [OF assms(1), of v v] assms(2)
    by (simp add: set_special_def option_range_def)
qed

lemma cluster_finish_padded:
  assumes "wrote N rs st" "rs @ option_range (pos_inf sp) @ option_range (nan_val sp) \<noteq> []"
    "length rs + length (option_range (pos_inf sp)) + length (option_range (nan_val sp)) \<le> N"
  shows "\<exists>s. cluster_finish sp N st = Inr s
           \<and> padded N (rs @ option_range (pos_inf sp) @ option_range (nan_val sp)) s"
proof -
  obtain st1 where 1: "set_special (pos_inf sp) st = Inr st1"
    "wrote N (rs @ option_range (pos_inf sp)) st1"
    using set_special_option_range [OF assms(1), of "pos_inf sp"] assms(3) by force
  obtain st2 where 2: "set_special (nan_val sp) st1 = Inr st2"
    "wrote N ((rs @ option_range (pos_inf sp)) @ option_range (nan_val sp)) st2"
    using set_special_option_range [OF 1(2), of "nan_val sp"] assms(3) by force
  obtain s cc where "st2 = (s, cc)" by (cases st2)
  then show ?thesis
    using pad_from_wrote [of N "(rs @ option_range (pos_inf sp)) @ option_range (nan_val sp)" s cc]
      1 2 assms(2) by (simp add: cluster_finish_def)
qed

lemma cluster_stop_bound:
  assumes "\<not> (N = 1 \<or> (N < 4 \<and> has_special_values sp))" "0 < N"
  shows "length (option_range (neg_inf sp)) + cluster_stop sp N + 1
           + length (option_range (pos_inf sp)) + length (option_range (nan_val sp)) = N"
  using assms by (auto simp: cluster_stop_def has_special_values_def)

lemma scan_special_snoc:
  "scan_special ops (xs @ [x]) = scan_special_step ops x (scan_special ops xs)"
  by (simp add: scan_special_def)

lemma scan_special_None:
  "neg_inf (scan_special ops xs) = None \<longleftrightarrow>
     (\<forall>x \<in> set xs. \<not> (\<not> v_isnan ops x \<and> v_isinf ops x \<and> v_isneginf ops x))"
  "pos_inf (scan_special ops xs) = None \<longleftrightarrow>
     (\<forall>x \<in> set xs. \<not> (\<not> v_isnan ops x \<and> v_isinf ops x \<and> \<not> v_isneginf ops x))"
  "nan_val (scan_special ops xs) = None \<longleftrightarrow> (\<forall>x \<in> set xs. \<not> v_isnan ops x)"
proof (induction xs rule: rev_induct)
  case Nil
  { case 1 show ?case by (simp add: scan_special_def) }
  { case 2 show ?case by (simp add: scan_special_def) }
  { case 3 show ?case by (simp add: scan_special_def) }
next
  case (snoc x xs)
  { case 1 show ?case using snoc.IH(1) by (auto simp: scan_special_snoc scan_special_step_def) }
  { case 2 show ?case using snoc.IH(2) by (auto simp: scan_special_snoc scan_special_step_def) }
  { case 3 show ?case using snoc.IH(3) by (auto simp: scan_special_snoc scan_special_step_def) }
qed

lemma scan_special_Some:
  "neg_inf (scan_special ops xs) = Some v \<Longrightarrow> v \<in> set xs \<and> v_isinf ops v \<and> v_isneginf ops v"
  "pos_inf (scan_special ops xs) = Some v \<Longrightarrow>
     v \<in> set xs \<and> v_isinf ops v \<and> \<not> v_isneginf ops v \<and> \<not> v_isnan ops v"
  "nan_val (scan_special ops xs) = Some v \<Longrightarrow> v \<in> set xs \<and> v_isnan ops v"
proof (induction xs rule: rev_induct)
  case Nil
  { case 1 then show ?case by (simp add: scan_special_def) }
  { case 2 then show ?case by (simp add: scan_special_def) }
  { case 3 then show ?case by (simp add: scan_special_def) }
next
  case (snoc x xs)
  { case 1 then show ?case using snoc.IH(1)
      by (auto simp: scan_special_snoc scan_special_step_def split: if_splits) }
  { case 2 then show ?case using snoc.IH(2)
      by (auto simp: scan_special_snoc scan_special_step_def split: if_splits) }
  { case 3 then show ?case using snoc.IH(3)
      by (auto simp: scan_special_snoc scan_special_step_def split: if_splits) }
qed

lemma finite_data_id: "\<not> has_special_values (scan_special ops xs) \<Longrightarrow> finite_data ops xs = xs"
  by (fastforce simp: has_special_values_def scan_special_None finite_data_def filter_id_conv)

text \<open>With that, \<open>Initialise\<close> always succeeds and writes exactly \<open>cluster_ranges\<close>, padded.\<close>

lemma cluster_Initialise_padded:
  assumes N: "0 < N" and len: "length (min_values s0) = N" "length (max_values s0) = N"
    and data: "data \<noteq> []" "length data < 2 ^ 31"
  shows "\<exists>s. cluster_Initialise ops N data s0 = Inr s \<and> padded N (cluster_ranges ops N data) s"
proof -
  define xs where "xs = std_sort (\<lambda>left right. op_gt ops right left) data"
  define sp where "sp = scan_special ops xs"
  define fs where "fs = (if has_special_values sp then finite_data ops xs else xs)"
  let ?one = "N = 1 \<or> (N < 4 \<and> has_special_values sp)"
  have size: "(word_of_nat (length data) :: 32 word) \<noteq> 0"
    using data by (simp add: word_of_nat_eq_0_iff nat_dvd_not_less)
  note defs = cluster_Initialise_def cluster_ranges_def Let_def xs_def [symmetric]
    sp_def [symmetric] fs_def [symmetric]
  note start = wrote_start [OF len]
  show ?thesis
  proof (cases ?one)
    case True
    obtain s cc where "set_range (hd xs) (last xs) (s0, 0) = Inr (s, cc)"
      "wrote N ([] @ [(hd xs, last xs)]) (s, cc)"
      using set_range_wrote [OF start, of "hd xs" "last xs"] N by force
    then show ?thesis
      using pad_from_wrote [of N "[(hd xs, last xs)]" s cc] True size
      by (simp add: defs)
  next
    case False
    note bound = cluster_stop_bound [OF False N]
    obtain st where st: "set_special (neg_inf sp) (s0, 0) = Inr st"
      "wrote N (option_range (neg_inf sp)) st"
      using set_special_option_range [OF start, of "neg_inf sp"] bound by force
    have init: "cluster_Initialise ops N data s0 =
        (if fs = [] then cluster_finish sp N st
         else bind_result (set_ranges fs (std_sort (<) (select_gaps ops (cluster_stop sp N) fs)) (hd fs) st)
                (\<lambda>(start, st). bind_result (set_range start (last fs) st) (cluster_finish sp N)))"
      using False size st(1) by (auto simp: defs)
    show ?thesis
    proof (cases "fs = []")
      case True
      have "has_special_values sp" using True data(1) by (auto simp: fs_def xs_def split: if_splits)
      then have "option_range (neg_inf sp) @ option_range (pos_inf sp)
          @ option_range (nan_val sp) \<noteq> []"
        by (auto simp: has_special_values_def option_range_def)
      then show ?thesis
        using cluster_finish_padded [OF st(2), of sp] bound init True False
        by (auto simp: defs)
    next
      case fs: False
      let ?idxs = "std_sort (<) (select_gaps ops (cluster_stop sp N) fs)"
      have li: "length ?idxs \<le> cluster_stop sp N" by (simp add: length_select_gaps)
      obtain start' st' rs' where 1: "set_ranges fs ?idxs (hd fs) st = Inr (start', st')"
        "wrote N (option_range (neg_inf sp) @ rs') st'"
        "rs' @ [(start', last fs)] = cuts fs ?idxs (hd fs)"
        using set_ranges_wrote [OF st(2), of ?idxs fs "hd fs"] bound li by force
      have lr: "length rs' = length ?idxs"
        using arg_cong [OF 1(3), of length] by simp
      obtain st2 where 2: "set_range start' (last fs) st' = Inr st2"
        "wrote N (option_range (neg_inf sp) @ cuts fs ?idxs (hd fs)) st2"
        using set_range_wrote [OF 1(2), of start' "last fs"] bound li lr
        by (auto simp: 1(3) [symmetric])
      have "cluster_Initialise ops N data s0 = cluster_finish sp N st2"
        unfolding init using fs 1(1) 2(1) by simp
      moreover have "cuts fs ?idxs (hd fs) \<noteq> []" by (metis length_cuts length_0_conv nat.distinct(1))
      ultimately show ?thesis
        using cluster_finish_padded [OF 2(2), of sp] bound li fs False
        by (auto simp: defs)
    qed
  qed
qed

subsection \<open>The ranges are ordered and cover the data\<close>

context duck_order
begin

definition ok_ranges :: "('v \<times> 'v) list \<Rightarrow> bool" where
  "ok_ranges rs \<longleftrightarrow>
     (\<forall>(a, b) \<in> set rs. \<not> op_gt ops a b) \<and> sorted_wrt (\<lambda>(a, b) (c, d). \<not> op_gt ops b c) rs"

definition covers :: "('v \<times> 'v) list \<Rightarrow> 'v \<Rightarrow> bool" where
  "covers rs v \<longleftrightarrow> (\<exists>(a, b) \<in> set rs. \<not> op_gt ops a v \<and> \<not> op_gt ops v b)"

definition sorted_data :: "'v list \<Rightarrow> bool" where
  "sorted_data xs \<longleftrightarrow> sorted_wrt (\<lambda>a b. \<not> op_gt ops a b) xs"

lemma sorted_data_std_sort: "sorted_data (std_sort (\<lambda>left right. op_gt ops right left) data)"
  using sorted_std_sort [OF strict_weak_less] by (simp add: sorted_data_def)

lemma sorted_data_nth:
  "sorted_data xs \<Longrightarrow> i \<le> j \<Longrightarrow> j < length xs \<Longrightarrow> \<not> op_gt ops (xs ! i) (xs ! j)"
  unfolding sorted_data_def by (cases "i = j") (auto dest: sorted_wrt_nth_less [of _ _ i j])

lemma last_nth: "k < length xs \<Longrightarrow> last xs = xs ! (length xs - 1)"
  by (rule last_conv_nth) auto

lemma sorted_data_filter: "sorted_data xs \<Longrightarrow> sorted_data (filter P xs)"
  by (simp add: sorted_data_def sorted_wrt_filter)

lemma ok_ranges_append:
  "ok_ranges (rs @ rs') \<longleftrightarrow> ok_ranges rs \<and> ok_ranges rs' \<and>
     (\<forall>(a, b) \<in> set rs. \<forall>(c, d) \<in> set rs'. \<not> op_gt ops b c)"
  by (auto simp: ok_ranges_def sorted_wrt_append)

lemma covers_append: "covers (rs @ rs') v \<longleftrightarrow> covers rs v \<or> covers rs' v"
  by (auto simp: covers_def)

lemma cuts_bounds:
  assumes "sorted_wrt (<) idxs" "\<forall>i \<in> set idxs. k \<le> i \<and> i + 1 < length xs" "k < length xs"
    "(a, b) \<in> set (cuts xs idxs (xs ! k))"
  shows "\<exists>i j. k \<le> i \<and> i \<le> j \<and> j < length xs \<and> a = xs ! i \<and> b = xs ! j"
  using assms
proof (induction idxs arbitrary: k)
  case Nil
  then show ?case
    by (intro exI [of _ k] exI [of _ "length xs - 1"]) (auto simp: last_nth)
next
  case (Cons i idxs)
  show ?case
  proof (cases "(a, b) = (xs ! k, xs ! i)")
    case True
    then show ?thesis using Cons.prems by (intro exI [of _ k] exI [of _ i]) auto
  next
    case False
    then have "\<exists>i' j. i + 1 \<le> i' \<and> i' \<le> j \<and> j < length xs \<and> a = xs ! i' \<and> b = xs ! j"
      using Cons.prems by (intro Cons.IH) auto
    then obtain i' j where "i + 1 \<le> i'" "i' \<le> j" "j < length xs" "a = xs ! i'" "b = xs ! j"
      by blast
    then show ?thesis using Cons.prems(2) by (intro exI [of _ i'] exI [of _ j]) auto
  qed
qed

lemma cuts_ok:
  assumes "sorted_data xs" "sorted_wrt (<) idxs"
    "\<forall>i \<in> set idxs. k \<le> i \<and> i + 1 < length xs" "k < length xs"
  shows "ok_ranges (cuts xs idxs (xs ! k))"
  using assms(2-4)
proof (induction idxs arbitrary: k)
  case Nil
  then show ?case
    using sorted_data_nth [OF assms(1), of k "length xs - 1"]
    by (simp add: ok_ranges_def last_nth)
next
  case (Cons i idxs)
  have rest: "ok_ranges (cuts xs idxs (xs ! (i + 1)))"
    using Cons.prems by (intro Cons.IH) auto
  have "\<not> op_gt ops (xs ! i) a" if "(a, b) \<in> set (cuts xs idxs (xs ! (i + 1)))" for a b
  proof -
    have "\<exists>i' j. i + 1 \<le> i' \<and> i' \<le> j \<and> j < length xs \<and> a = xs ! i' \<and> b = xs ! j"
      using Cons.prems that by (intro cuts_bounds [of idxs]) auto
    then obtain i' where "i + 1 \<le> i'" "i' < length xs" "a = xs ! i'"
      by auto
    then show ?thesis using sorted_data_nth [OF assms(1), of i i'] by simp
  qed
  moreover have "\<not> op_gt ops (xs ! k) (xs ! i)"
    using Cons.prems sorted_data_nth [OF assms(1), of k i] by simp
  ultimately show ?case using rest by (auto simp: ok_ranges_def)
qed

lemma cuts_cover:
  assumes "sorted_data xs" "sorted_wrt (<) idxs"
    "\<forall>i \<in> set idxs. k \<le> i \<and> i + 1 < length xs" "k \<le> j" "j < length xs"
  shows "covers (cuts xs idxs (xs ! k)) (xs ! j)"
  using assms(2-5)
proof (induction idxs arbitrary: k)
  case Nil
  then show ?case
    using sorted_data_nth [OF assms(1), of k j] sorted_data_nth [OF assms(1), of j "length xs - 1"]
    by (simp add: covers_def last_nth)
next
  case (Cons i idxs)
  show ?case
  proof (cases "j \<le> i")
    case True
    then show ?thesis
      using Cons.prems sorted_data_nth [OF assms(1), of k j] sorted_data_nth [OF assms(1), of j i]
      by (simp add: covers_def)
  next
    case False
    then have "covers (cuts xs idxs (xs ! (i + 1))) (xs ! j)"
      using Cons.prems by (intro Cons.IH) auto
    then show ?thesis by (simp add: covers_def)
  qed
qed

end

text \<open>The chosen positions are distinct, in range and in order.\<close>

lemma distinct_map_takeWhile: "distinct (map f xs) \<Longrightarrow> distinct (map f (takeWhile P xs))"
  by (induction xs) (auto dest: set_takeWhileD)

lemma select_gaps_sorted:
  "sorted_wrt (<) (std_sort (<) (select_gaps ops stop xs))"
  "i \<in> set (select_gaps ops stop xs) \<Longrightarrow> i + 1 < length xs"
proof -
  let ?gaps = "std_sort (pair_greater (gap_less ops)) (compute_gaps ops xs)"
  have snds: "map snd (compute_gaps ops xs) = [0..<length xs - 1]"
    by (simp add: compute_gaps_def comp_def)
  have "distinct (map snd ?gaps)"
    by (metis snds distinct_upt mset_std_sort mset_map mset_eq_imp_distinct_iff)
  then have "distinct (map snd (take (min (length ?gaps) stop) ?gaps))"
    by (simp only: take_map [symmetric] distinct_take)
  then have "distinct (select_gaps ops stop xs)"
    unfolding select_gaps_def Let_def by (rule distinct_map_takeWhile)
  moreover have "strict_weak ((<) :: nat \<Rightarrow> nat \<Rightarrow> bool)"
    unfolding strict_weak_def by auto
  ultimately show "sorted_wrt (<) (std_sort (<) (select_gaps ops stop xs))"
    using sorted_std_sort [of "(<)" "select_gaps ops stop xs"]
    by (simp add: strict_sorted_iff not_less)
  show "i + 1 < length xs" if "i \<in> set (select_gaps ops stop xs)"
  proof -
    have "i \<in> snd ` set (compute_gaps ops xs)"
      using that by (auto simp: select_gaps_def Let_def dest!: set_takeWhileD in_set_takeD)
    then have "i \<in> set [0..<length xs - 1]" by (metis snds set_map)
    then show ?thesis by auto
  qed
qed

context duck_order
begin

lemma finite_cuts:
  assumes "sorted_data fs" "fs \<noteq> []"
    and rs_def: "rs = cuts fs (std_sort (<) (select_gaps cops stop fs)) (hd fs)"
  shows "ok_ranges rs" "v \<in> set fs \<Longrightarrow> covers rs v"
    "(a, b) \<in> set rs \<Longrightarrow> a \<in> set fs \<and> b \<in> set fs"
proof -
  let ?idxs = "std_sort (<) (select_gaps cops stop fs)"
  have idxs: "sorted_wrt (<) ?idxs" "\<forall>i \<in> set ?idxs. 0 \<le> i \<and> i + 1 < length fs" "0 < length fs"
    using select_gaps_sorted assms(2) by auto
  have rs: "rs = cuts fs ?idxs (fs ! 0)" using assms(2) by (simp add: rs_def hd_conv_nth)
  show "ok_ranges rs" unfolding rs by (rule cuts_ok [OF assms(1) idxs])
  show "covers rs v" if "v \<in> set fs"
    using that cuts_cover [OF assms(1) idxs(1,2), of _] unfolding rs in_set_conv_nth by blast
  show "a \<in> set fs \<and> b \<in> set fs" if "(a, b) \<in> set rs"
    using cuts_bounds [OF idxs, of a b] that unfolding rs by auto
qed

text \<open>
  The chain of the special ranges: negative infinity below the finite values, positive
  infinity above them, NaN on top.
\<close>

lemma special_ranges_ok:
  assumes sp: "sp = scan_special ops xs"
    and rs: "ok_ranges rs" "\<And>a b. (a, b) \<in> set rs \<Longrightarrow>
       \<not> v_isnan ops a \<and> \<not> v_isnan ops b \<and> \<not> v_isinf ops a \<and> \<not> v_isinf ops b"
  shows "ok_ranges (option_range (neg_inf sp) @ rs @ option_range (pos_inf sp)
           @ option_range (nan_val sp))"
proof -
  have N: "\<not> op_gt ops n v" if "neg_inf sp = Some n" for n v
    using scan_special_Some(1) [of ops xs n] that neginf_bot [of n v] by (simp add: sp)
  have P: "\<not> op_gt ops v p" if "pos_inf sp = Some p" "\<not> v_isnan ops v" for p v
    using scan_special_Some(2) [of ops xs p] that inf_top [of p v] by (auto simp: sp)
  have Q: "\<not> op_gt ops v n" if "nan_val sp = Some n" for n v
    using scan_special_Some(3) [of ops xs n] that nan_top [of n v] by (simp add: sp)
  have opt: "ok_ranges (option_range x)" "(a, b) \<in> set (option_range x) \<longleftrightarrow> x = Some a \<and> b = a"
    for x a b
    by (auto simp: ok_ranges_def option_range_def split: option.splits)
  show ?thesis
    unfolding ok_ranges_append set_append
    using rs(1) by (auto simp: opt N P Q dest: rs(2))
qed

lemma special_cover:
  assumes "v \<in> set xs" "v_isnan ops v \<or> v_isinf ops v"
  shows "covers (option_range (neg_inf (scan_special ops xs))) v
       \<or> covers (option_range (pos_inf (scan_special ops xs))) v
       \<or> covers (option_range (nan_val (scan_special ops xs))) v"
proof -
  let ?sp = "scan_special ops xs"
  consider "v_isnan ops v" | "\<not> v_isnan ops v" "v_isinf ops v" "v_isneginf ops v"
    | "\<not> v_isnan ops v" "v_isinf ops v" "\<not> v_isneginf ops v"
    using assms(2) by blast
  then show ?thesis
  proof cases
    case 1
    then obtain n where n: "nan_val ?sp = Some n" using scan_special_None(3) [of ops xs] assms(1) by (cases "nan_val ?sp") auto
    then have "v_isnan ops n" using scan_special_Some(3) [OF n] by simp
    then show ?thesis using n 1 nan_top by (simp add: covers_def option_range_def)
  next
    case 2
    then obtain n where n: "neg_inf ?sp = Some n" using scan_special_None(1) [of ops xs] assms(1) by (cases "neg_inf ?sp") auto
    then have "v_isneginf ops n" using scan_special_Some(1) [OF n] by simp
    then show ?thesis using n 2 neginf_bot by (simp add: covers_def option_range_def)
  next
    case 3
    then obtain n where n: "pos_inf ?sp = Some n" using scan_special_None(2) [of ops xs] assms(1) by (cases "pos_inf ?sp") auto
    then have "\<not> op_gt ops n v" "\<not> op_gt ops v n"
      using scan_special_Some(2) [OF n] inf_top [of v n] inf_top [of n v] 3 by auto
    then show ?thesis using n by (simp add: covers_def option_range_def)
  qed
qed

end

lemma padded_nth:
  assumes "padded N rs s" "i < N"
  shows "(min_values s ! i, max_values s ! i) = rs ! min i (length rs - 1)"
proof (cases "i < length rs")
  case True
  then show ?thesis using assms by (simp add: padded_def nth_append)
next
  case False
  then have "min i (length rs - 1) = length rs - 1" by simp
  then show ?thesis using assms False by (simp add: padded_def nth_append last_conv_nth)
qed

locale cluster_order = duck_order ops for ops :: "('v, 'g, 'z) cluster_ops_scheme" +
  assumes one_gt_zero: "raw_gt ops (v_one ops) (v_zero ops)"
begin

text \<open>
  What the queries need of the arrays: both sequences ascend, every range is ordered, and a
  value of the chunk lies in one of the ranges.
\<close>

definition arrays_ok :: "nat \<Rightarrow> 'v cluster_stats \<Rightarrow> bool" where
  "arrays_ok N s \<longleftrightarrow>
     0 < N \<and> length (min_values s) = N \<and> length (max_values s) = N \<and>
     (\<forall>j < N. \<forall>i \<le> j. \<not> op_gt ops (min_values s ! i) (min_values s ! j) \<and>
                      \<not> op_gt ops (max_values s ! i) (max_values s ! j)) \<and>
     (\<forall>i < N. \<not> op_gt ops (min_values s ! i) (max_values s ! i))"

definition in_some_range :: "nat \<Rightarrow> 'v cluster_stats \<Rightarrow> 'v \<Rightarrow> bool" where
  "in_some_range N s v \<longleftrightarrow>
     (\<exists>i < N. ConstantValueInRange ops (min_values s ! i) (max_values s ! i) v)"

lemma arrays_okD:
  assumes "arrays_ok N s"
  shows "i \<le> j \<Longrightarrow> j < N \<Longrightarrow> \<not> op_gt ops (min_values s ! i) (min_values s ! j)"
    "i \<le> j \<Longrightarrow> j < N \<Longrightarrow> \<not> op_gt ops (max_values s ! i) (max_values s ! j)"
    "i < N \<Longrightarrow> \<not> op_gt ops (min_values s ! i) (max_values s ! i)"
    "0 < N"
  using assms by (auto simp: arrays_ok_def)

lemma padded_arrays_ok:
  assumes "padded N rs s" "ok_ranges rs"
  shows "arrays_ok N s"
proof -
  have len: "0 < N" "length (min_values s) = N" "length (max_values s) = N" "rs \<noteq> []"
    using assms(1) by (cases rs; auto simp: padded_def)+
  have ord: "\<not> op_gt ops a b" if "(a, b) \<in> set rs" for a b
    using assms(2) that by (auto simp: ok_ranges_def)
  have step: "\<not> op_gt ops (fst (rs ! i)) (fst (rs ! j)) \<and> \<not> op_gt ops (snd (rs ! i)) (snd (rs ! j))"
    if "i < j" "j < length rs" for i j
  proof -
    have "\<not> op_gt ops (snd (rs ! i)) (fst (rs ! j))"
      using assms(2) that sorted_wrt_nth_less [of "\<lambda>(a, b) (c, d). \<not> op_gt ops b c" rs i j]
      by (simp add: ok_ranges_def case_prod_beta)
    moreover have "\<not> op_gt ops (fst (rs ! i)) (snd (rs ! i))" "\<not> op_gt ops (fst (rs ! j)) (snd (rs ! j))"
      using that ord [of "fst (rs ! i)" "snd (rs ! i)"] ord [of "fst (rs ! j)" "snd (rs ! j)"] by simp_all
    ultimately show ?thesis using gt_negtrans by blast
  qed
  have min_nth: "min_values s ! i = fst (rs ! min i (length rs - 1))"
    "max_values s ! i = snd (rs ! min i (length rs - 1))" if "i < N" for i
    using padded_nth [OF assms(1) that] by (metis fst_conv, metis snd_conv)
  have "\<not> op_gt ops (min_values s ! i) (min_values s ! j) \<and>
        \<not> op_gt ops (max_values s ! i) (max_values s ! j)" if "i \<le> j" "j < N" for i j
  proof -
    have "min i (length rs - 1) = min j (length rs - 1) \<or>
        min i (length rs - 1) < min j (length rs - 1)" "min j (length rs - 1) < length rs"
      using that len(4) by (cases rs; auto simp: min_def)+
    then show ?thesis using that step by (auto simp: min_nth)
  qed
  moreover have "\<not> op_gt ops (min_values s ! i) (max_values s ! i)" if "i < N" for i
    using padded_nth [OF assms(1) that] ord len(4)
    by (metis diff_less length_greater_0_conv less_numeral_extra(1) min.strict_coboundedI2 nth_mem)
  ultimately show ?thesis using len by (auto simp: arrays_ok_def)
qed

lemma padded_covers: "padded N rs s \<Longrightarrow> covers rs v \<Longrightarrow> in_some_range N s v"
proof -
  assume p: "padded N rs s" and "covers rs v"
  then obtain i where i: "i < length rs" "\<not> op_gt ops (fst (rs ! i)) v" "\<not> op_gt ops v (snd (rs ! i))"
    unfolding covers_def by (auto simp: in_set_conv_nth)
  then have "i < N" "min i (length rs - 1) = i" using p by (auto simp: padded_def)
  then show ?thesis
    using padded_nth [OF p, of i] i
    by (auto simp: in_some_range_def in_range_iff prod_eq_iff intro!: exI [of _ i])
qed

lemma cluster_ranges_ok:
  assumes "data \<noteq> []"
  shows "ok_ranges (cluster_ranges ops N data)"
    "v \<in> set data \<Longrightarrow> covers (cluster_ranges ops N data) v"
proof -
  define xs where "xs = std_sort (\<lambda>left right. op_gt ops right left) data"
  define sp where "sp = scan_special ops xs"
  define fs where "fs = (if has_special_values sp then finite_data ops xs else xs)"
  define cs where "cs = (if fs = [] then []
    else cuts fs (std_sort (<) (select_gaps ops (cluster_stop sp N) fs)) (hd fs))"
  have xs: "sorted_data xs" "set xs = set data" "xs \<noteq> []"
    using sorted_data_std_sort assms by (simp_all add: xs_def)
  have fs: "fs = finite_data ops xs"
    using finite_data_id [of ops xs] by (auto simp: fs_def sp_def)
  have fs_sorted: "sorted_data fs"
    unfolding fs finite_data_def by (rule sorted_data_filter [OF xs(1)])
  note cut = finite_cuts [OF fs_sorted _ refl, where cops = ops and stop = "cluster_stop sp N"]
  let ?whole = "option_range (neg_inf sp) @ cs @ option_range (pos_inf sp) @ option_range (nan_val sp)"
  have eq: "cluster_ranges ops N data =
      (if N = 1 \<or> (N < 4 \<and> has_special_values sp) then [(hd xs, last xs)] else ?whole)"
    unfolding cluster_ranges_def Let_def xs_def [symmetric] sp_def [symmetric]
      fs_def [symmetric] cs_def [symmetric] by simp
  have one: "ok_ranges [(hd xs, last xs)]" "v \<in> set data \<Longrightarrow> covers [(hd xs, last xs)] v" for v
    using cuts_ok [OF xs(1), of "[]" 0] cuts_cover [OF xs(1), of "[]" 0] xs(2,3)
    by (simp_all add: hd_conv_nth) (metis in_set_conv_nth)
  have "ok_ranges cs" using cut(1) by (simp add: cs_def ok_ranges_def)
  moreover have "a \<in> set fs \<and> b \<in> set fs" if "(a, b) \<in> set cs" for a b
    using cut(3) that by (auto simp: cs_def split: if_splits)
  ultimately have whole: "ok_ranges ?whole"
    by (intro special_ranges_ok [OF sp_def]) (auto simp: fs finite_data_def)
  have cover: "covers ?whole v" if "v \<in> set data" for v
  proof (cases "v_isnan ops v \<or> v_isinf ops v")
    case True
    then show ?thesis using special_cover [of v xs] that xs(2) by (auto simp: covers_append sp_def)
  next
    case False
    then have "v \<in> set fs" using that xs(2) by (simp add: fs finite_data_def)
    then show ?thesis using cut(2) by (auto simp: covers_append cs_def)
  qed
  show "ok_ranges (cluster_ranges ops N data)" using one(1) whole by (simp add: eq)
  show "covers (cluster_ranges ops N data) v" if "v \<in> set data"
    using one(2) cover that by (simp add: eq)
qed

text \<open>
  Both searches return the last slot whose minimum does not exceed the constant, or -1; the
  binary search may stop earlier, at a slot whose minimum equals it.
\<close>

definition before_point :: "'v list \<Rightarrow> nat \<Rightarrow> 'v \<Rightarrow> int \<Rightarrow> bool" where
  "before_point mins len c r \<longleftrightarrow>
     (r = -1 \<and> (\<forall>j < len. op_gt ops (mins ! j) c)) \<or>
     (0 \<le> r \<and> nat r < len \<and> \<not> op_gt ops (mins ! nat r) c \<and>
      (op_eq ops (mins ! nat r) c \<or> (\<forall>j < len. nat r < j \<longrightarrow> op_gt ops (mins ! j) c)))"

lemma find_binary_loop_spec:
  assumes "\<forall>j < len. \<forall>i \<le> j. \<not> op_gt ops (mins ! i) (mins ! j)"
    and "0 \<le> lo" "lo \<le> hi" "hi < int len" "\<not> op_gt ops (mins ! nat lo) c"
    and "\<forall>j < len. nat hi < j \<longrightarrow> op_gt ops (mins ! j) c"
  shows "before_point mins len c (find_binary_loop ops mins c lo hi)"
  using assms(2-6)
proof (induction "nat (hi - lo)" arbitrary: lo hi rule: less_induct)
  case less
  show ?case
  proof (cases "lo < hi")
    case False
    then have "lo = hi" using less.prems(2) by simp
    then show ?thesis
      using less.prems by (subst find_binary_loop.simps) (auto simp: before_point_def)
  next
    case True
    define mid where "mid = (lo + hi + 1) div 2"
    have mid: "lo < mid" "mid \<le> hi" using True by (auto simp: mid_def)
    have unfold: "find_binary_loop ops mins c lo hi =
        (if op_gt ops (mins ! nat mid) c then find_binary_loop ops mins c lo (mid - 1)
         else if op_lt ops (mins ! nat mid) c then find_binary_loop ops mins c mid hi else mid)"
      using True by (subst find_binary_loop.simps) (simp add: mid_def Let_def)
    consider "op_gt ops (mins ! nat mid) c" | "\<not> op_gt ops (mins ! nat mid) c" "op_lt ops (mins ! nat mid) c"
      | "\<not> op_gt ops (mins ! nat mid) c" "\<not> op_lt ops (mins ! nat mid) c"
      by blast
    then show ?thesis
    proof cases
      case 1
      have "op_gt ops (mins ! j) c" if "j < len" "nat (mid - 1) < j" for j
      proof -
        have "nat mid \<le> j" using that(2) mid less.prems(1) by linarith
        then show ?thesis using 1 assms(1) that(1) le_gt_trans by blast
      qed
      then have "before_point mins len c (find_binary_loop ops mins c lo (mid - 1))"
        using less.prems mid by (intro less.hyps) auto
      then show ?thesis using 1 unfold by simp
    next
      case 2
      have "before_point mins len c (find_binary_loop ops mins c mid hi)"
        using less.prems mid 2 by (intro less.hyps) auto
      then show ?thesis using 2 unfold by simp
    next
      case 3
      then have "op_eq ops (mins ! nat mid) c" by (simp add: eq_iff op_lt_def)
      then show ?thesis
        using 3 unfold mid less.prems by (simp add: before_point_def)
    qed
  qed
qed

lemma find_before_point:
  assumes "arrays_ok N s"
  shows "before_point (min_values s) N c (FindLastIndexBeforePoint ops (min_values s) N c)"
proof (cases "op_gt ops (min_values s ! 0) c")
  case True
  then have "op_gt ops (min_values s ! j) c" if "j < N" for j
    using arrays_okD(1) [OF assms, of 0 j] that le_gt_trans by blast
  then show ?thesis
    using True by (simp add: FindLastIndexBeforePoint_def FindLastIndexBeforePoint_Binary_def
        before_point_def)
next
  case False
  then have "before_point (min_values s) N c (find_binary_loop ops (min_values s) c 0 (int N - 1))"
    using assms by (intro find_binary_loop_spec) (auto simp: arrays_ok_def)
  then show ?thesis
    using False by (simp add: FindLastIndexBeforePoint_def FindLastIndexBeforePoint_Binary_def)
qed

lemma find_linear_loop_spec:
  "find_linear_loop ops xs c i = i - 1 + int (length (takeWhile (\<lambda>m. \<not> op_gt ops m c) xs))"
  by (induction xs arbitrary: i) auto

lemma linear_before_point:
  assumes "arrays_ok N s"
  shows "before_point (min_values s) N c (FindLastIndexBeforePoint_Linear ops (min_values s) N c)"
proof -
  let ?P = "\<lambda>m. \<not> op_gt ops m c"
  let ?k = "length (takeWhile ?P (min_values s))"
  have len: "length (min_values s) = N" using assms by (simp add: arrays_ok_def)
  have r: "FindLastIndexBeforePoint_Linear ops (min_values s) N c = int ?k - 1"
    using len by (simp add: FindLastIndexBeforePoint_Linear_def find_linear_loop_spec)
  have k: "?k \<le> N" using len length_takeWhile_le [of ?P "min_values s"] by simp
  have below: "\<not> op_gt ops (min_values s ! j) c" if "j < ?k" for j
    using that by (metis nth_mem set_takeWhileD takeWhile_nth)
  have above: "op_gt ops (min_values s ! j) c" if "?k \<le> j" "j < N" for j
  proof -
    have "op_gt ops (min_values s ! ?k) c" using that len nth_length_takeWhile [of ?P "min_values s"] by simp
    then show ?thesis using arrays_okD(1) [OF assms that] le_gt_trans by blast
  qed
  show ?thesis
  proof (cases "?k = 0")
    case True
    then show ?thesis using above by (simp add: r before_point_def)
  next
    case False
    then have "nat (int ?k - 1) = ?k - 1" "?k - 1 < N" using k by linarith+
    then show ?thesis
      using False below [of "?k - 1"] above k by (auto simp: r before_point_def)
  qed
qed

text \<open>Any index with that property decides membership in a range, and disjointness from a range.\<close>

lemma before_point_member:
  assumes ok: "arrays_ok N s" and r: "before_point (min_values s) N c r"
  shows "in_some_range N s c \<longleftrightarrow> r \<noteq> -1 \<and> op_ge ops (max_values s ! nat r) c"
proof
  assume "in_some_range N s c"
  then obtain j where j: "j < N" "\<not> op_gt ops (min_values s ! j) c" "\<not> op_gt ops c (max_values s ! j)"
    by (auto simp: in_some_range_def in_range_iff)
  then have ne: "r \<noteq> -1" using r by (auto simp: before_point_def)
  then have rb: "nat r < N" "op_eq ops (min_values s ! nat r) c \<or> j \<le> nat r"
    using r j by (auto simp: before_point_def)
  from rb(2) have "\<not> op_gt ops c (max_values s ! nat r)"
  proof
    assume "op_eq ops (min_values s ! nat r) c"
    then show ?thesis using arrays_okD(3) [OF ok rb(1)] gt_negtrans eq_iff by blast
  next
    assume "j \<le> nat r"
    then show ?thesis using arrays_okD(2) [OF ok _ rb(1)] j(3) gt_negtrans by blast
  qed
  then show "r \<noteq> -1 \<and> op_ge ops (max_values s ! nat r) c" using ne by (simp add: ge_iff)
next
  assume a: "r \<noteq> -1 \<and> op_ge ops (max_values s ! nat r) c"
  then have "nat r < N" "\<not> op_gt ops (min_values s ! nat r) c"
    using r by (auto simp: before_point_def)
  then show "in_some_range N s c"
    using a by (auto simp: in_some_range_def in_range_iff ge_iff)
qed

lemma query_equal_exact:
  "arrays_ok N s \<Longrightarrow>
   Query_Equal ops N s c = (if in_some_range N s c then NO_PRUNING_POSSIBLE else FILTER_ALWAYS_FALSE)"
  using before_point_member [OF _ find_before_point, of N s c]
  by (auto simp: Query_Equal_def Let_def)

definition overlaps :: "nat \<Rightarrow> 'v cluster_stats \<Rightarrow> 'v \<Rightarrow> 'v \<Rightarrow> bool" where
  "overlaps N s lo hi \<longleftrightarrow>
     (\<exists>i < N. \<not> op_gt ops (min_values s ! i) hi \<and> \<not> op_gt ops lo (max_values s ! i))"

lemma query_range_exact:
  assumes ok: "arrays_ok N s" and lohi: "\<not> op_gt ops lo hi"
    and nonempty: "\<not> raw_gt ops (min_values s ! 0) (max_values s ! 0)"
  shows "cluster_QueryRange ops N s lo hi =
     Inr (if overlaps N s lo hi then NO_PRUNING_POSSIBLE else FILTER_ALWAYS_FALSE)"
proof -
  define r where "r = FindLastIndexBeforePoint ops (min_values s) N lo"
  have r: "before_point (min_values s) N lo r"
    unfolding r_def by (rule find_before_point [OF ok])
  have N: "0 < N" by (rule arrays_okD(4) [OF ok])
  have run: "cluster_QueryRange ops N s lo hi =
      (if r = -1 then (if op_gt ops (min_values s ! 0) hi then Inr FILTER_ALWAYS_FALSE
                       else Inr NO_PRUNING_POSSIBLE)
       else if op_ge ops (max_values s ! nat r) lo
               \<or> (nat r < N - 1 \<and> op_le ops (min_values s ! (nat r + 1)) hi)
       then Inr NO_PRUNING_POSSIBLE else Inr FILTER_ALWAYS_FALSE)"
    using N nonempty by (simp add: cluster_QueryRange_def r_def Let_def)
  show ?thesis
  proof (cases "r = -1")
    case True
    then have above: "\<forall>j < N. op_gt ops (min_values s ! j) lo" using r by (auto simp: before_point_def)
    have "overlaps N s lo hi \<longleftrightarrow> \<not> op_gt ops (min_values s ! 0) hi"
    proof
      assume "overlaps N s lo hi"
      then show "\<not> op_gt ops (min_values s ! 0) hi"
        unfolding overlaps_def using arrays_okD(1) [OF ok, of 0] gt_negtrans by blast
    next
      assume "\<not> op_gt ops (min_values s ! 0) hi"
      moreover have "\<not> op_gt ops lo (max_values s ! 0)"
        using above N arrays_okD(3) [OF ok N] gt_asym gt_negtrans by blast
      ultimately show "overlaps N s lo hi" unfolding overlaps_def using N by blast
    qed
    then show ?thesis using True run by simp
  next
    case False
    then have rN: "nat r < N" "\<not> op_gt ops (min_values s ! nat r) lo"
      and split: "op_eq ops (min_values s ! nat r) lo \<or>
        (\<forall>j < N. nat r < j \<longrightarrow> op_gt ops (min_values s ! j) lo)"
      using r by (auto simp: before_point_def)
    let ?hit = "op_ge ops (max_values s ! nat r) lo
               \<or> (nat r < N - 1 \<and> op_le ops (min_values s ! (nat r + 1)) hi)"
    have "overlaps N s lo hi" if "op_ge ops (max_values s ! nat r) lo"
      using that rN lohi gt_negtrans unfolding overlaps_def ge_iff by blast
    moreover have "overlaps N s lo hi"
      if "nat r < N - 1" "op_le ops (min_values s ! (nat r + 1)) hi" "\<not> op_ge ops (max_values s ! nat r) lo"
    proof -
      have n: "nat r + 1 < N" using that(1) by simp
      have "\<not> op_eq ops (min_values s ! nat r) lo"
        using that(3) arrays_okD(3) [OF ok rN(1)] gt_negtrans unfolding ge_iff eq_iff by blast
      then have "op_gt ops (min_values s ! (nat r + 1)) lo" using split n by auto
      then have "\<not> op_gt ops lo (max_values s ! (nat r + 1))"
        using arrays_okD(3) [OF ok n] gt_asym gt_negtrans by blast
      then show ?thesis using n that(2) unfolding overlaps_def op_le_def by blast
    qed
    moreover have "\<not> overlaps N s lo hi" if miss: "\<not> ?hit"
    proof
      assume "overlaps N s lo hi"
      then obtain j where j: "j < N" "\<not> op_gt ops (min_values s ! j) hi" "\<not> op_gt ops lo (max_values s ! j)"
        by (auto simp: overlaps_def)
      show False
      proof (cases "j \<le> nat r")
        case True
        then show False
          using miss j(3) arrays_okD(2) [OF ok True rN(1)] gt_negtrans unfolding ge_iff by blast
      next
        case False
        then have "nat r + 1 \<le> j" "nat r < N - 1" using j(1) by simp_all
        then show False
          using miss j(1,2) arrays_okD(1) [OF ok, of "nat r + 1" j] gt_negtrans
          unfolding op_le_def by blast
      qed
    qed
    ultimately have "overlaps N s lo hi \<longleftrightarrow> ?hit" by blast
    then show ?thesis using False run by simp
  qed
qed

definition cluster_describes :: "nat \<Rightarrow> 'v cluster_stats \<Rightarrow> 'v list \<Rightarrow> bool" where
  "cluster_describes N s xs \<longleftrightarrow>
     N = 0 \<or> raw_gt ops (min_values s ! 0) (max_values s ! 0) \<or>
     (arrays_ok N s \<and> (\<forall>v \<in> set xs. in_some_range N s v))"

lemma bounds_of_range:
  assumes ok: "arrays_ok N s" and v: "in_some_range N s v"
  shows "\<not> op_gt ops (min_values s ! 0) v" "\<not> op_gt ops v (max_values s ! (N - 1))"
proof -
  obtain i where i: "i < N" "\<not> op_gt ops (min_values s ! i) v" "\<not> op_gt ops v (max_values s ! i)"
    using v by (auto simp: in_some_range_def in_range_iff)
  have "\<not> op_gt ops (min_values s ! 0) (min_values s ! i)"
    "\<not> op_gt ops (max_values s ! i) (max_values s ! (N - 1))"
    using arrays_okD(1) [OF ok, of 0 i] arrays_okD(2) [OF ok, of i "N - 1"] i(1) by auto
  then show "\<not> op_gt ops (min_values s ! 0) v" "\<not> op_gt ops v (max_values s ! (N - 1))"
    using i(2,3) gt_negtrans by blast+
qed

lemma cluster_query_empty:
  "N = 0 \<or> raw_gt ops (min_values s ! 0) (max_values s ! 0) \<Longrightarrow>
   cluster_Query ops N s cmp c = Inr NO_PRUNING_POSSIBLE"
  by (simp add: cluster_Query_def)

lemma cluster_query_false:
  assumes d: "cluster_describes N s xs" and q: "cluster_Query ops N s cmp c = Inr FILTER_ALWAYS_FALSE"
    and v: "v \<in> set xs"
  shows "\<not> compare_holds ops cmp v c"
proof -
  have ne: "N \<noteq> 0" "\<not> raw_gt ops (min_values s ! 0) (max_values s ! 0)"
    using q cluster_query_empty [of N s cmp c]
    by (metis FilterPropagateResult.distinct(3) old.sum.inject(2))+
  then have ok: "arrays_ok N s" and rng: "in_some_range N s v"
    using d v by (auto simp: cluster_describes_def)
  note b = bounds_of_range [OF ok rng]
  have mem: "in_some_range N s c" if "op_eq ops v c"
    using rng gt_cong [OF eq_refl that] gt_cong [OF that eq_refl]
    unfolding in_some_range_def in_range_iff by blast
  let ?min = "min_values s ! 0" and ?max = "max_values s ! (N - 1)"
  have all_equal: "op_eq ops v c" if "op_eq ops ?min ?max" "op_eq ops ?min c"
  proof -
    have "\<not> op_gt ops v ?min" using b(2) that(1) gt_cong [OF eq_refl, of ?min ?max v] by simp
    then show ?thesis using b(1) that(2) eq_trans not_gt_eq by blast
  qed
  have above: "op_gt ops c v" if "\<not> op_ge ops ?max c"
    using that b(2) gt_le_trans unfolding ge_iff by blast
  have below: "op_gt ops v c" if "\<not> op_le ops ?min c"
    using that b(1) le_gt_trans unfolding op_le_def by blast
  have equal: "\<not> op_eq ops v c" if "Query_Equal ops N s c = FILTER_ALWAYS_FALSE"
    using that mem query_equal_exact [OF ok, of c] by auto
  consider "cmp = COMPARE_EQUAL \<or> cmp = COMPARE_NOT_DISTINCT_FROM"
    | "cmp = COMPARE_NOTEQUAL \<or> cmp = COMPARE_DISTINCT_FROM"
    | "cmp = COMPARE_GREATERTHAN \<or> cmp = COMPARE_GREATERTHANOREQUALTO"
    | "cmp = COMPARE_LESSTHAN \<or> cmp = COMPARE_LESSTHANOREQUALTO"
    using q ne by (cases cmp) (auto simp: cluster_Query_def)
  then show ?thesis
  proof cases
    case 1
    then show ?thesis using q ne equal by (auto simp: cluster_Query_def)
  next
    case 2
    then show ?thesis
      using q ne all_equal by (auto simp: cluster_Query_def op_ne_def split: if_splits)
  next
    case 3
    then have "op_gt ops c v" using q ne above by (auto simp: cluster_Query_def split: if_splits)
    then show ?thesis using 3 compare_holds_ge by blast
  next
    case 4
    then have "op_gt ops v c" using q ne below by (auto simp: cluster_Query_def split: if_splits)
    then show ?thesis using 4 compare_holds_le by blast
  qed
qed

lemma cluster_range_false:
  assumes d: "cluster_describes N s xs" and q: "cluster_QueryRange ops N s lo hi = Inr FILTER_ALWAYS_FALSE"
    and v: "v \<in> set xs"
  shows "\<not> in_closed_range ops lo hi v"
proof
  assume "in_closed_range ops lo hi v"
  then have vr: "\<not> op_gt ops lo v" "\<not> op_gt ops v hi"
    by (simp_all add: in_closed_range_def ge_iff op_le_def)
  then have lohi: "\<not> op_gt ops lo hi" using gt_negtrans by blast
  have ne: "N \<noteq> 0" "\<not> raw_gt ops (min_values s ! 0) (max_values s ! 0)"
    using q by (auto simp: cluster_QueryRange_def split: if_splits)
  then have ok: "arrays_ok N s" and rng: "in_some_range N s v"
    using d v by (auto simp: cluster_describes_def)
  have "\<not> overlaps N s lo hi"
    using q query_range_exact [OF ok lohi ne(2)] by (auto split: if_splits)
  moreover have "overlaps N s lo hi"
    using rng vr gt_negtrans unfolding overlaps_def in_some_range_def in_range_iff by blast
  ultimately show False by blast
qed

lemma cluster_query_answer:
  "cluster_Query ops N s cmp c = Inr r \<Longrightarrow> r = NO_PRUNING_POSSIBLE \<or> r = FILTER_ALWAYS_FALSE"
  by (cases cmp) (auto simp: cluster_Query_def Query_Equal_def Let_def split: if_splits)

lemma cluster_range_answer:
  "cluster_QueryRange ops N s lo hi = Inr r \<Longrightarrow> r = NO_PRUNING_POSSIBLE \<or> r = FILTER_ALWAYS_FALSE"
  by (auto simp: cluster_QueryRange_def Let_def split: if_splits)

text \<open>A construction never fails and describes its data.\<close>

lemma cluster_construct_ok:
  assumes "0 < N" "length data < 2 ^ 31"
  shows "\<exists>s. cluster_construct ops N data = Inr s \<and> cluster_describes N s data"
proof (cases "data = []")
  case True
  then show ?thesis
    using assms(1) one_gt_zero
    by (auto simp: cluster_construct_def cluster_Initialise_def set_range_def cluster_alloc_def
        cluster_describes_def)
next
  case False
  have "length (min_values (cluster_alloc N (v_default ops))) = N"
    "length (max_values (cluster_alloc N (v_default ops))) = N"
    by (simp_all add: cluster_alloc_def)
  then obtain s where s: "cluster_construct ops N data = Inr s"
    "padded N (cluster_ranges ops N data) s"
    using cluster_Initialise_padded [OF assms(1) _ _ False assms(2)] unfolding cluster_construct_def
    by blast
  then have "arrays_ok N s" "\<forall>v \<in> set data. in_some_range N s v"
    using padded_arrays_ok padded_covers cluster_ranges_ok [OF False] by blast+
  then show ?thesis using s(1) by (auto simp: cluster_describes_def)
qed

lemma cluster_construct_arrays:
  assumes "0 < N" "length data < 2 ^ 31" "data \<noteq> []"
  shows "\<exists>s. cluster_construct ops N data = Inr s \<and> padded N (cluster_ranges ops N data) s \<and>
           arrays_ok N s \<and> (\<forall>v \<in> set data. in_some_range N s v)"
proof -
  have "length (min_values (cluster_alloc N (v_default ops))) = N"
    "length (max_values (cluster_alloc N (v_default ops))) = N"
    by (simp_all add: cluster_alloc_def)
  then obtain s where s: "cluster_construct ops N data = Inr s"
    "padded N (cluster_ranges ops N data) s"
    using cluster_Initialise_padded [OF assms(1) _ _ assms(3,2)] unfolding cluster_construct_def
    by blast
  then show ?thesis
    using padded_arrays_ok padded_covers cluster_ranges_ok [OF assms(3)] by blast
qed

end

sublocale cluster_order \<subseteq> cluster:
  additional_stats ops "cluster_describes N" "cluster_Query ops N" "cluster_QueryRange ops N"
  for N
  using cluster_query_answer cluster_query_false cluster_range_answer cluster_range_false
  by unfold_locales

subsection \<open>The instances\<close>

interpretation bool_cluster: cluster_order bool_ops
  by unfold_locales (simp add: bool_ops_def)

interpretation uint_cluster: cluster_order "unsigned_ops :: ('w::len word, 'w word) cluster_ops"
  by unfold_locales (simp add: unsigned_ops_def)

interpretation int8_cluster: cluster_order "signed_ops :: (8 word, 8 word) cluster_ops"
  by unfold_locales (simp add: signed_ops_def word_sless_alt)

interpretation int16_cluster: cluster_order "signed_ops :: (16 word, 16 word) cluster_ops"
  by unfold_locales (simp add: signed_ops_def word_sless_alt)

interpretation int32_cluster: cluster_order "signed_ops :: (32 word, 32 word) cluster_ops"
  by unfold_locales (simp add: signed_ops_def word_sless_alt)

interpretation int64_cluster: cluster_order "signed_ops :: (64 word, 64 word) cluster_ops"
  by unfold_locales (simp add: signed_ops_def word_sless_alt)

interpretation int128_cluster: cluster_order "signed_ops :: (128 word, 128 word) cluster_ops"
  by unfold_locales (simp add: signed_ops_def word_sless_alt)

interpretation float_cluster: cluster_order float_ops
  by unfold_locales (simp add: float_ops_def fp_ops_def fp_raw_gt_def fp_isnan_def fp_inf_def
      fp_mag_def fp_key_def fp_neg_def)

interpretation double_cluster: cluster_order double_ops
  by unfold_locales (simp add: double_ops_def fp_ops_def fp_raw_gt_def fp_isnan_def fp_inf_def
      fp_mag_def fp_key_def fp_neg_def)

text \<open>Unfolding rules to evaluate a construction and its queries.\<close>

lemmas cluster_eval = cluster_construct_def cluster_Initialise_def cluster_alloc_def
  scan_special_def scan_special_step_def has_special_values_def finite_data_def cluster_stop_def
  select_gaps_def compute_gaps_def pair_greater_def set_range_def set_special_def
  cluster_finish_def pad_from.simps Let_def list_eval

lemmas cluster_query_eval = cluster_Query_def Query_Equal_def cluster_QueryRange_def
  FindLastIndexBeforePoint_def FindLastIndexBeforePoint_Binary_def find_binary_loop.simps Let_def

end
