(* ===== verification/ClusterString.thy ===== *)
theory ClusterString
  imports Cluster
begin

text \<open>
  The cluster statistic for strings (the specialisation \<open>ClusterAdditionalStats<std::string, N>\<close>
  of \<open>cluster_additional_stats.hpp\<close>). A bound keeps the first eight bytes of a string and its
  length, so a comparison with a bound may be undecided; the queries answer for every range
  in turn. The clustering itself is the one of the numeric case, with the gap taken between
  the values of \<open>StringToLong\<close>.
\<close>

definition CLUSTER_MAX_STRING_MINMAX_SIZE :: nat where
  "CLUSTER_MAX_STRING_MINMAX_SIZE = 8"

record data_array =
  da_data :: bytes
  da_size :: nat

record StringComparisonResult =
  scr_order :: int
  scr_exact :: bool

text \<open>The characters are signed: a byte from 128 on subtracts.\<close>

definition StringToLong :: "bytes \<Rightarrow> 64 word" where
  "StringToLong str = fold (\<lambda>c res. push_bit 7 res + scast c) str 0"

text \<open>\<open>memcmp\<close> of two ranges of the same length: negative, zero or positive.\<close>

definition memcmp :: "bytes \<Rightarrow> bytes \<Rightarrow> nat \<Rightarrow> int" where
  "memcmp a b n =
     (if bytes_less (take n a) (take n b) then -1
      else if bytes_less (take n b) (take n a) then 1 else 0)"

definition StringValueComparison :: "bytes \<Rightarrow> data_array \<Rightarrow> StringComparisonResult" where
  "StringValueComparison value bound =
     (let bound_prefix_size = min (da_size bound) CLUSTER_MAX_STRING_MINMAX_SIZE;
          compare_size = min (min (length value) bound_prefix_size) CLUSTER_MAX_STRING_MINMAX_SIZE;
          comparison = (if compare_size = 0 then 0 else memcmp value (da_data bound) compare_size)
      in if comparison \<noteq> 0 then \<lparr>scr_order = (if comparison < 0 then -1 else 1), scr_exact = True\<rparr>
         else if da_size bound \<le> CLUSTER_MAX_STRING_MINMAX_SIZE then
           (if length value < da_size bound then \<lparr>scr_order = -1, scr_exact = True\<rparr>
            else \<lparr>scr_order = (if length value > da_size bound then 1 else 0), scr_exact = True\<rparr>)
         else \<lparr>scr_order = (if length value \<le> CLUSTER_MAX_STRING_MINMAX_SIZE then -1 else 0),
               scr_exact = (length value \<le> CLUSTER_MAX_STRING_MINMAX_SIZE)\<rparr>)"

definition ConstructValue :: "bytes \<Rightarrow> data_array" where
  "ConstructValue data =
     (let value_size = (if length data > CLUSTER_MAX_STRING_MINMAX_SIZE
                        then CLUSTER_MAX_STRING_MINMAX_SIZE else length data)
      in \<lparr>da_data = take value_size data @ replicate (CLUSTER_MAX_STRING_MINMAX_SIZE - value_size) 0,
          da_size = length data\<rparr>)"

definition empty_value :: data_array where
  "empty_value = \<lparr>da_data = replicate CLUSTER_MAX_STRING_MINMAX_SIZE 0, da_size = 0\<rparr>"

definition string_cluster_ops :: "(bytes, 64 word) cluster_ops" where
  "string_cluster_ops =
     value_ops.extend string_ops
       \<lparr>gap_of = (\<lambda>l r. StringToLong r - StringToLong l), gap_less = (<), gap_is_zero = (\<lambda>g. g = 0)\<rparr>"

definition string_Initialise ::
  "nat \<Rightarrow> bytes list \<Rightarrow> data_array cluster_stats \<Rightarrow> data_array cluster_stats result" where
  "string_Initialise N data nstats =
     (if N = 0 then Inr nstats
      else if (word_of_nat (length data) :: 32 word) = 0
      then Inr (nstats\<lparr>min_values := replicate N empty_value, max_values := replicate N empty_value\<rparr>)
      else
        let xs = std_sort bytes_less data;
            idxs = std_sort (<) (select_gaps string_cluster_ops (N - 1) xs)
        in bind_result (set_ranges (map ConstructValue xs) idxs (ConstructValue (xs ! 0)) (nstats, 0))
             (\<lambda>(start, st).
           bind_result (set_range start (ConstructValue (last xs)) st) (\<lambda>(s, cluster_count).
           pad_from N cluster_count s)))"

definition string_construct :: "nat \<Rightarrow> bytes list \<Rightarrow> data_array cluster_stats result" where
  "string_construct N data = string_Initialise N data (cluster_alloc N empty_value)"

definition Query_inner ::
  "data_array \<Rightarrow> data_array \<Rightarrow> ExpressionType \<Rightarrow> bytes \<Rightarrow> FilterPropagateResult result" where
  "Query_inner min_value max_value comparison_type constant =
     (let min_comp = StringValueComparison constant min_value;
          max_comp = StringValueComparison constant max_value
      in if comparison_type = COMPARE_EQUAL \<or> comparison_type = COMPARE_NOT_DISTINCT_FROM then
           (if scr_order min_comp \<ge> 0 \<and> scr_order max_comp \<le> 0 then Inr NO_PRUNING_POSSIBLE
            else Inr FILTER_ALWAYS_FALSE)
         else if comparison_type = COMPARE_NOTEQUAL \<or> comparison_type = COMPARE_DISTINCT_FROM then
           (if scr_exact min_comp \<and> scr_exact max_comp \<and> scr_order min_comp = 0 \<and> scr_order max_comp = 0
            then Inr FILTER_ALWAYS_FALSE else Inr NO_PRUNING_POSSIBLE)
         else if comparison_type = COMPARE_GREATERTHANOREQUALTO
                 \<or> comparison_type = COMPARE_GREATERTHAN then
           Inr (if scr_order max_comp > 0 then FILTER_ALWAYS_FALSE else NO_PRUNING_POSSIBLE)
         else if comparison_type = COMPARE_LESSTHAN
                 \<or> comparison_type = COMPARE_LESSTHANOREQUALTO then
           Inr (if scr_order min_comp < 0 then FILTER_ALWAYS_FALSE else NO_PRUNING_POSSIBLE)
         else Inl InternalException)"

text \<open>The loop over the ranges: the first one that cannot be excluded ends it.\<close>

fun string_query_loop ::
  "(data_array \<times> data_array) list \<Rightarrow> ExpressionType \<Rightarrow> bytes \<Rightarrow> FilterPropagateResult result" where
  "string_query_loop [] comparison_type constant = Inr FILTER_ALWAYS_FALSE"
| "string_query_loop ((min_value, max_value) # ranges) comparison_type constant =
     bind_result (Query_inner min_value max_value comparison_type constant) (\<lambda>res.
       if res = FILTER_ALWAYS_TRUE then Inr NO_PRUNING_POSSIBLE
       else if res = NO_PRUNING_POSSIBLE then Inr NO_PRUNING_POSSIBLE
       else string_query_loop ranges comparison_type constant)"

definition string_Query ::
  "nat \<Rightarrow> data_array cluster_stats \<Rightarrow> ExpressionType \<Rightarrow> bytes \<Rightarrow> FilterPropagateResult result" where
  "string_Query N s comparison_type constant =
     (if N = 0 then Inr NO_PRUNING_POSSIBLE
      else string_query_loop (zip (take N (min_values s)) (take N (max_values s)))
             comparison_type constant)"

definition string_QueryRange ::
  "nat \<Rightarrow> data_array cluster_stats \<Rightarrow> bytes \<Rightarrow> bytes \<Rightarrow> FilterPropagateResult result" where
  "string_QueryRange N s lower upper = Inr NO_PRUNING_POSSIBLE"

subsection \<open>Comparing with a bound\<close>

lemma bytes_less_irrefl [simp]: "\<not> bytes_less xs xs"
  using bytes_less_asym by blast

lemma bytes_less_take:
  "bytes_less (take n xs) (take n ys) \<Longrightarrow> n \<le> length xs \<Longrightarrow> n \<le> length ys \<Longrightarrow> bytes_less xs ys"
proof (induction xs ys arbitrary: n rule: bytes_less.induct)
  case (3 x xs y ys)
  then show ?case by (cases n) auto
qed auto

lemma bytes_less_prefix:
  "take (length xs) ys = xs \<Longrightarrow> length xs < length ys \<Longrightarrow> bytes_less xs ys"
proof (induction xs arbitrary: ys)
  case Nil
  then show ?case by (cases ys) auto
next
  case (Cons x xs)
  then show ?case by (cases ys) auto
qed

lemma memcmp_eq: "memcmp a b n = 0 \<longleftrightarrow> take n a = take n b"
  by (auto simp: memcmp_def dest: bytes_less_total)

text \<open>A decided comparison is right; an undecided one is reported as order 0, not exact.\<close>

lemma StringValueComparison_sound:
  defines "r v s \<equiv> StringValueComparison v (ConstructValue s)"
  shows "scr_order (r v s) < 0 \<Longrightarrow> bytes_less v s"
    and "scr_order (r v s) > 0 \<Longrightarrow> bytes_less s v"
    and "scr_order (r v s) = 0 \<Longrightarrow> scr_exact (r v s) \<Longrightarrow> v = s"
proof -
  define n where "n = min (length v) (min (length s) 8)"
  have n: "n \<le> length v" "n \<le> length s" "n \<le> 8" by (auto simp: n_def)
  have pre: "take n (da_data (ConstructValue s)) = take n s" "da_size (ConstructValue s) = length s"
    using n by (auto simp: ConstructValue_def CLUSTER_MAX_STRING_MINMAX_SIZE_def Let_def min_def)
  have cs: "min (min (length v) (min (length s) 8)) 8 = n" by (simp add: n_def)
  define m where "m = memcmp v (da_data (ConstructValue s)) n"
  have "m < 0 \<Longrightarrow> bytes_less v s" "m > 0 \<Longrightarrow> bytes_less s v"
    using bytes_less_take [of n v s] bytes_less_take [of n s v] n pre
    by (auto simp: m_def memcmp_def split: if_splits)
  moreover have "m = 0 \<longleftrightarrow> take n v = take n s" by (simp add: m_def memcmp_eq pre)
  ultimately have m: "m < 0 \<Longrightarrow> bytes_less v s" "m > 0 \<Longrightarrow> bytes_less s v"
    "m = 0 \<longleftrightarrow> take n v = take n s" by blast+
  have r: "r v s = (if (if n = 0 then 0 else m) \<noteq> 0 then \<lparr>scr_order = (if m < 0 then -1 else 1), scr_exact = True\<rparr>
      else if length s \<le> 8 then
        (if length v < length s then \<lparr>scr_order = -1, scr_exact = True\<rparr>
         else \<lparr>scr_order = (if length v > length s then 1 else 0), scr_exact = True\<rparr>)
      else \<lparr>scr_order = (if length v \<le> 8 then -1 else 0), scr_exact = (length v \<le> 8)\<rparr>)"
    unfolding r_def StringValueComparison_def Let_def CLUSTER_MAX_STRING_MINMAX_SIZE_def pre cs m_def
    by (cases "n = 0") auto
  have same: "take n v = take n s" if "(if n = 0 then 0 else m) = 0"
    using that m(3) by (auto split: if_splits)
  consider "(if n = 0 then 0 else m) \<noteq> 0" | "take n v = take n s" "(if n = 0 then 0 else m) = 0"
    using same by blast
  then have "(scr_order (r v s) < 0 \<longrightarrow> bytes_less v s) \<and> (scr_order (r v s) > 0 \<longrightarrow> bytes_less s v)
      \<and> (scr_order (r v s) = 0 \<longrightarrow> scr_exact (r v s) \<longrightarrow> v = s)"
  proof cases
    case 1
    then show ?thesis using m(1,2) by (auto simp: r split: if_splits)
  next
    case 2
    have "bytes_less v s" if "length v < length s" "n = length v"
      using 2(1) that by (intro bytes_less_prefix) auto
    moreover have "bytes_less s v" if "length s < length v" "n = length s"
      using 2(1) that by (intro bytes_less_prefix) auto
    moreover have "v = s" if "length s = length v" "n = length s"
      using 2(1) that by simp
    ultimately show ?thesis
      using 2(2) unfolding r n_def by (auto simp: min_def)
  qed
  then show "scr_order (r v s) < 0 \<Longrightarrow> bytes_less v s" "scr_order (r v s) > 0 \<Longrightarrow> bytes_less s v"
    "scr_order (r v s) = 0 \<Longrightarrow> scr_exact (r v s) \<Longrightarrow> v = s" by blast+
qed

subsection \<open>The interface\<close>

text \<open>The bounds of a slot are the prefixes of two strings that enclose some of the values.\<close>

definition string_slot :: "data_array cluster_stats \<Rightarrow> nat \<Rightarrow> bytes \<Rightarrow> bool" where
  "string_slot s i v \<longleftrightarrow>
     (\<exists>lo hi. min_values s ! i = ConstructValue lo \<and> max_values s ! i = ConstructValue hi \<and>
        \<not> bytes_less v lo \<and> \<not> bytes_less hi v)"

definition string_describes :: "nat \<Rightarrow> data_array cluster_stats \<Rightarrow> bytes list \<Rightarrow> bool" where
  "string_describes N s xs \<longleftrightarrow>
     length (min_values s) = N \<and> length (max_values s) = N \<and>
     (\<forall>v \<in> set xs. \<exists>i < N. string_slot s i v)"

lemma string_query_loop_false:
  "string_query_loop rs cmp c = Inr FILTER_ALWAYS_FALSE \<Longrightarrow> (lo, hi) \<in> set rs \<Longrightarrow>
   Query_inner lo hi cmp c = Inr FILTER_ALWAYS_FALSE"
proof (induction rs)
  case (Cons r rs)
  obtain a b where r: "r = (a, b)" by (cases r)
  then obtain x where x: "Query_inner a b cmp c = Inr x"
    using Cons.prems(1) by (auto simp: bind_result_Inr_iff)
  moreover have "x = NO_PRUNING_POSSIBLE \<or> x = FILTER_ALWAYS_FALSE"
    using x by (auto simp: Query_inner_def Let_def split: if_splits)
  ultimately show ?case using Cons r by auto
qed simp

lemma string_query_loop_answer:
  "string_query_loop rs cmp c = Inr r \<Longrightarrow> r = NO_PRUNING_POSSIBLE \<or> r = FILTER_ALWAYS_FALSE"
proof (induction rs)
  case (Cons r rs)
  then show ?case by (cases r) (auto simp: bind_result_Inr_iff split: if_splits)
qed simp

lemma Query_inner_sound:
  assumes "Query_inner (ConstructValue lo) (ConstructValue hi) cmp c = Inr FILTER_ALWAYS_FALSE"
    and v: "\<not> bytes_less v lo" "\<not> bytes_less hi v"
  shows "\<not> compare_holds string_ops cmp v c"
proof -
  note lo = StringValueComparison_sound [of c lo] and hi = StringValueComparison_sound [of c hi]
  let ?min = "StringValueComparison c (ConstructValue lo)"
  let ?max = "StringValueComparison c (ConstructValue hi)"
  have below: "bytes_less c v" if "scr_order ?min < 0"
    using lo(1) [OF that] v(1) bytes_less_total bytes_less_trans by blast
  have above: "bytes_less v c" if "scr_order ?max > 0"
    using hi(2) [OF that] v(2) bytes_less_total bytes_less_trans by blast
  have same: "v = c" if "scr_order ?min = 0" "scr_exact ?min" "scr_order ?max = 0" "scr_exact ?max"
    using lo(3) [OF that(1,2)] hi(3) [OF that(3,4)] v bytes_less_total by blast
  consider "cmp = COMPARE_EQUAL \<or> cmp = COMPARE_NOT_DISTINCT_FROM"
    | "cmp = COMPARE_NOTEQUAL \<or> cmp = COMPARE_DISTINCT_FROM"
    | "cmp = COMPARE_GREATERTHAN \<or> cmp = COMPARE_GREATERTHANOREQUALTO"
    | "cmp = COMPARE_LESSTHAN \<or> cmp = COMPARE_LESSTHANOREQUALTO"
    using assms(1) by (auto simp: Query_inner_def Let_def split: if_splits)
  then show ?thesis
  proof cases
    case 1
    then have "scr_order ?min < 0 \<or> scr_order ?max > 0"
      using assms(1) by (auto simp: Query_inner_def Let_def split: if_splits)
    then have "v \<noteq> c" using below above by auto
    then show ?thesis using 1 by (auto simp: string_ops_def)
  next
    case 2
    then have "v = c"
      using assms(1) same by (auto simp: Query_inner_def Let_def split: if_splits)
    then show ?thesis using 2 by (auto simp: string_ops_def op_ne_def)
  next
    case 3
    then have "bytes_less v c"
      using assms(1) above by (auto simp: Query_inner_def Let_def split: if_splits)
    then show ?thesis using 3 by (auto simp: string_ops_def dest: bytes_less_asym)
  next
    case 4
    then have "bytes_less c v"
      using assms(1) below by (auto simp: Query_inner_def Let_def split: if_splits)
    then show ?thesis using 4 by (auto simp: string_ops_def op_lt_def op_le_def dest: bytes_less_asym)
  qed
qed

lemma string_Query_false:
  assumes "string_describes N s xs" "v \<in> set xs"
    "string_Query N s cmp c = Inr FILTER_ALWAYS_FALSE"
  shows "\<not> compare_holds string_ops cmp v c"
proof -
  obtain i where i: "i < N" "string_slot s i v" using assms(1,2) by (auto simp: string_describes_def)
  then obtain lo hi where b: "min_values s ! i = ConstructValue lo" "max_values s ! i = ConstructValue hi"
    "\<not> bytes_less v lo" "\<not> bytes_less hi v" by (auto simp: string_slot_def)
  have len: "length (min_values s) = N" "length (max_values s) = N"
    using assms(1) by (simp_all add: string_describes_def)
  then have "(min_values s ! i, max_values s ! i) \<in> set (zip (take N (min_values s)) (take N (max_values s)))"
    using i(1) by (auto simp: set_zip)
  then have "Query_inner (ConstructValue lo) (ConstructValue hi) cmp c = Inr FILTER_ALWAYS_FALSE"
    using assms(3) string_query_loop_false b(1,2) by (auto simp: string_Query_def split: if_splits)
  then show ?thesis using Query_inner_sound b(3,4) by blast
qed

interpretation string_cluster:
  additional_stats string_ops "string_describes N" "string_Query N" "string_QueryRange N" for N
  by unfold_locales
    (auto simp: string_Query_def string_QueryRange_def split: if_splits
      dest: string_query_loop_answer string_Query_false)

subsection \<open>Construction\<close>

lemma cuts_map:
  "xs \<noteq> [] \<Longrightarrow> \<forall>i \<in> set idxs. i + 1 < length xs \<Longrightarrow>
   cuts (map f xs) idxs (f start) = map (map_prod f f) (cuts xs idxs start)"
  by (induction idxs arbitrary: start) (auto simp: last_map)

lemma string_construct_padded:
  assumes N: "0 < N" and data: "data \<noteq> []" "length data < 2 ^ 31"
  defines "xs \<equiv> std_sort bytes_less data"
  defines "rs \<equiv> cuts xs (std_sort (<) (select_gaps string_cluster_ops (N - 1) xs)) (hd xs)"
  shows "\<exists>s. string_construct N data = Inr s \<and>
           padded N (map (map_prod ConstructValue ConstructValue) rs) s"
proof -
  let ?idxs = "std_sort (<) (select_gaps string_cluster_ops (N - 1) xs)"
  let ?s0 = "cluster_alloc N empty_value"
  let ?xs = "map ConstructValue xs"
  have size: "(word_of_nat (length data) :: 32 word) \<noteq> 0"
    using data by (simp add: word_of_nat_eq_0_iff nat_dvd_not_less)
  have ne: "xs \<noteq> []" using data by (simp add: xs_def)
  have li: "length ?idxs \<le> N - 1" by (simp add: length_select_gaps)
  have idx: "\<forall>i \<in> set ?idxs. i + 1 < length xs" using select_gaps_sorted(2) by auto
  have start: "wrote N [] (?s0, 0)" by (rule wrote_start) (simp_all add: cluster_alloc_def)
  obtain start' st' rs' where 1: "set_ranges ?xs ?idxs (ConstructValue (hd xs)) (?s0, 0) = Inr (start', st')"
    "wrote N rs' st'" "rs' @ [(start', last ?xs)] = cuts ?xs ?idxs (ConstructValue (hd xs))"
    using set_ranges_wrote [OF start, of ?idxs ?xs "ConstructValue (hd xs)"] li by force
  have lr: "length rs' = length ?idxs" using arg_cong [OF 1(3), of length] by simp
  have rs: "rs' @ [(start', last ?xs)] = map (map_prod ConstructValue ConstructValue) rs"
    unfolding 1(3) rs_def by (rule cuts_map [OF ne idx])
  obtain s2 cc where 2: "set_range start' (ConstructValue (last xs)) st' = Inr (s2, cc)"
    "wrote N (rs' @ [(start', last ?xs)]) (s2, cc)"
  proof -
    have "length rs' < N" using li lr N by linarith
    then show ?thesis
      using that set_range_wrote [OF 1(2), of start' "last ?xs"] ne by (auto simp: last_map)
  qed
  have "string_construct N data = pad_from N cc s2"
    using N size 1(1) 2(1) ne
    by (simp add: string_construct_def string_Initialise_def Let_def xs_def [symmetric] hd_conv_nth)
  then show ?thesis using pad_from_wrote [OF 2(2)] unfolding rs [symmetric] by simp
qed

lemma string_construct_describes:
  assumes "0 < N" "length data < 2 ^ 31"
  shows "\<exists>s. string_construct N data = Inr s \<and> string_describes N s data"
proof (cases "data = []")
  case True
  then show ?thesis
    using assms(1) by (simp add: string_construct_def string_Initialise_def string_describes_def
        cluster_alloc_def)
next
  case False
  define xs where "xs = std_sort bytes_less data"
  define rs where "rs = cuts xs (std_sort (<) (select_gaps string_cluster_ops (N - 1) xs)) (hd xs)"
  obtain s where s: "string_construct N data = Inr s"
    "padded N (map (map_prod ConstructValue ConstructValue) rs) s"
    using string_construct_padded [OF assms(1) False assms(2)] by (auto simp: xs_def rs_def)
  have xs: "string_order.sorted_data xs" "xs \<noteq> []" "set xs = set data"
    using string_order.sorted_data_std_sort [of data] False
    by (simp_all add: xs_def string_ops_def)
  have "\<exists>i < N. string_slot s i v" if "v \<in> set data" for v
  proof -
    have "string_order.covers rs v"
      using string_order.finite_cuts(2) [OF xs(1,2) rs_def] that xs(3) by simp
    then obtain i where i: "i < length rs" "\<not> bytes_less v (fst (rs ! i))" "\<not> bytes_less (snd (rs ! i)) v"
      unfolding string_order.covers_def by (auto simp: string_ops_def in_set_conv_nth)
    moreover have "i < N" using s(2) i(1) by (auto simp: padded_def)
    moreover have "min i (length rs - 1) = i" using i(1) by simp
    ultimately have "min_values s ! i = ConstructValue (fst (rs ! i))"
      "max_values s ! i = ConstructValue (snd (rs ! i))"
      using padded_nth [OF s(2), of i] by (simp_all add: map_prod_def split: prod.splits)
    then show ?thesis using i \<open>i < N\<close> unfolding string_slot_def by blast
  qed
  moreover have "length (min_values s) = N" "length (max_values s) = N"
    using s(2) by (auto simp: padded_def)
  ultimately show ?thesis using s(1) by (auto simp: string_describes_def)
qed

end
