(* ===== verification/ClusterQuery.thy ===== *)
theory ClusterQuery
  imports ClusterString
begin

text \<open>
  What the cluster statistic guarantees: the exact meaning of its answers over the ranges it
  keeps, the agreement of its two searches, the choice of the largest gaps.
\<close>

subsection \<open>The queries decide over the ranges\<close>

text \<open>
  The abstract reading of a query: the chunk is a set of ranges, and it is kept exactly when
  some range may hold a matching value.
\<close>

definition range_may_hold ::
  "('v, 'z) value_ops_scheme \<Rightarrow> ('v \<times> 'v) list \<Rightarrow> ExpressionType \<Rightarrow> 'v \<Rightarrow> bool" where
  "range_may_hold ops rs cmp c =
     (if cmp = COMPARE_EQUAL \<or> cmp = COMPARE_NOT_DISTINCT_FROM
      then list_ex (\<lambda>(lo, hi). ConstantValueInRange ops lo hi c) rs
      else if cmp = COMPARE_NOTEQUAL \<or> cmp = COMPARE_DISTINCT_FROM
      then \<not> list_all (\<lambda>(lo, hi). ConstantExactRange ops lo hi c) rs
      else if cmp = COMPARE_GREATERTHAN \<or> cmp = COMPARE_GREATERTHANOREQUALTO
      then list_ex (\<lambda>(lo, hi). op_ge ops hi c) rs
      else list_ex (\<lambda>(lo, hi). op_le ops lo c) rs)"

lemma padded_ex:
  assumes "padded N rs s"
  shows "(\<exists>i < N. P (min_values s ! i) (max_values s ! i)) \<longleftrightarrow> (\<exists>(a, b) \<in> set rs. P a b)"
proof
  assume "\<exists>i < N. P (min_values s ! i) (max_values s ! i)"
  then obtain i where i: "i < N" "P (min_values s ! i) (max_values s ! i)" by blast
  have "min i (length rs - 1) < length rs" using assms by (cases rs) (auto simp: padded_def)
  then have "(min_values s ! i, max_values s ! i) \<in> set rs"
    using padded_nth [OF assms i(1)] nth_mem by metis
  then show "\<exists>(a, b) \<in> set rs. P a b" using i(2) by blast
next
  assume "\<exists>(a, b) \<in> set rs. P a b"
  then obtain i where i: "i < length rs" "P (fst (rs ! i)) (snd (rs ! i))"
    by (auto simp: in_set_conv_nth)
  then have "i < N" "min i (length rs - 1) = i" using assms by (auto simp: padded_def)
  then show "\<exists>i < N. P (min_values s ! i) (max_values s ! i)"
    using padded_nth [OF assms, of i] i by (intro exI [of _ i]) (auto simp: prod_eq_iff)
qed

context cluster_order
begin

lemma padded_first_last:
  assumes "padded N rs s"
  shows "min_values s ! 0 = fst (hd rs)" "max_values s ! (N - 1) = snd (last rs)"
proof -
  have "rs \<noteq> []" "length rs \<le> N" using assms by (auto simp: padded_def)
  then have "0 < N" "N - 1 < N" "min 0 (length rs - 1) = 0" "min (N - 1) (length rs - 1) = length rs - 1"
    by (cases rs; auto)+
  then show "min_values s ! 0 = fst (hd rs)" "max_values s ! (N - 1) = snd (last rs)"
    using padded_nth [OF assms, of 0] padded_nth [OF assms, of "N - 1"] \<open>rs \<noteq> []\<close>
    by (auto simp: hd_conv_nth last_conv_nth prod_eq_iff)
qed

lemma query_refines:
  assumes p: "padded N rs s" and ok: "ok_ranges rs" and cmp: "is_comparison cmp"
  shows "cluster_Query ops N s cmp c =
     Inr (if range_may_hold ops rs cmp c then NO_PRUNING_POSSIBLE else FILTER_ALWAYS_FALSE)"
proof -
  have arr: "arrays_ok N s" by (rule padded_arrays_ok [OF p ok])
  let ?min = "min_values s ! 0" and ?max = "max_values s ! (N - 1)"
  have ne: "rs \<noteq> []" and N: "0 < N" using p by (cases rs; auto simp: padded_def)+
  note fl = padded_first_last [OF p]
  have mem: "hd rs \<in> set rs" "last rs \<in> set rs" using ne by simp_all
  have nonempty: "\<not> raw_gt ops ?min (max_values s ! 0)"
    using arrays_okD(3) [OF arr N] raw_gt_gt by blast
  have le_max: "\<not> op_gt ops b ?max" and min_le: "\<not> op_gt ops ?min a" and ab: "\<not> op_gt ops a b"
    if mem_ab: "(a, b) \<in> set rs" for a b
  proof -
    obtain i where i: "i < N" "a = min_values s ! i" "b = max_values s ! i"
    proof -
      have "\<exists>i < N. min_values s ! i = a \<and> max_values s ! i = b"
        using mem_ab padded_ex [OF p, of "\<lambda>x y. x = a \<and> y = b"] by auto
      then show ?thesis using that by metis
    qed
    show "\<not> op_gt ops b ?max" "\<not> op_gt ops ?min a" "\<not> op_gt ops a b"
      unfolding i(2,3)
      using arrays_okD(1) [OF arr, of 0 i] arrays_okD(2) [OF arr, of i "N - 1"]
        arrays_okD(3) [OF arr, of i] i(1) by auto
  qed
  consider "cmp = COMPARE_EQUAL \<or> cmp = COMPARE_NOT_DISTINCT_FROM"
    | "cmp = COMPARE_NOTEQUAL \<or> cmp = COMPARE_DISTINCT_FROM"
    | "cmp = COMPARE_GREATERTHAN \<or> cmp = COMPARE_GREATERTHANOREQUALTO"
    | "cmp = COMPARE_LESSTHAN \<or> cmp = COMPARE_LESSTHANOREQUALTO"
    using cmp by (auto simp: is_comparison_def)
  then show ?thesis
  proof cases
    case 1
    have "in_some_range N s c \<longleftrightarrow> list_ex (\<lambda>(lo, hi). ConstantValueInRange ops lo hi c) rs"
      using padded_ex [OF p, of "\<lambda>lo hi. ConstantValueInRange ops lo hi c"]
      by (auto simp: in_some_range_def list_ex_iff)
    then show ?thesis
      using 1 N nonempty query_equal_exact [OF arr, of c]
      by (auto simp: cluster_Query_def range_may_hold_def)
  next
    case 2
    have "op_eq ops ?min ?max \<and> op_eq ops ?min c \<longleftrightarrow>
        list_all (\<lambda>(lo, hi). ConstantExactRange ops lo hi c) rs" (is "?l \<longleftrightarrow> ?r")
    proof
      assume l: ?l
      have "op_eq ops c a \<and> op_eq ops c b" if ab': "(a, b) \<in> set rs" for a b
      proof -
        have "op_eq ops a ?min" "op_eq ops b ?min"
          using l min_le [OF ab'] ab [OF ab'] le_max [OF ab'] gt_negtrans unfolding eq_iff by blast+
        then show ?thesis using l eq_trans eq_sym by blast
      qed
      then show ?r by (auto simp: list_all_iff ConstantExactRange_def)
    next
      assume ?r
      then have "op_eq ops c ?min" "op_eq ops c ?max"
        using mem unfolding fl by (simp_all add: list_all_iff ConstantExactRange_def case_prod_beta)
      then show ?l using eq_trans eq_sym by blast
    qed
    then show ?thesis
      using 2 N nonempty by (auto simp: cluster_Query_def range_may_hold_def)
  next
    case 3
    have "op_ge ops ?max c \<longleftrightarrow> list_ex (\<lambda>(lo, hi). op_ge ops hi c) rs"
    proof
      assume "op_ge ops ?max c"
      then show "list_ex (\<lambda>(lo, hi). op_ge ops hi c) rs"
        using mem(2) unfolding fl by (auto simp: list_ex_iff case_prod_beta)
    next
      assume "list_ex (\<lambda>(lo, hi). op_ge ops hi c) rs"
      then show "op_ge ops ?max c"
        using le_max gt_negtrans unfolding list_ex_iff ge_iff by blast
    qed
    then show ?thesis
      using 3 N nonempty by (auto simp: cluster_Query_def range_may_hold_def)
  next
    case 4
    have "op_le ops ?min c \<longleftrightarrow> list_ex (\<lambda>(lo, hi). op_le ops lo c) rs"
    proof
      assume "op_le ops ?min c"
      then show "list_ex (\<lambda>(lo, hi). op_le ops lo c) rs"
        using mem(1) unfolding fl by (auto simp: list_ex_iff case_prod_beta)
    next
      assume "list_ex (\<lambda>(lo, hi). op_le ops lo c) rs"
      then show "op_le ops ?min c"
        using min_le gt_negtrans unfolding list_ex_iff op_le_def by blast
    qed
    then show ?thesis
      using 4 N nonempty by (auto simp: cluster_Query_def range_may_hold_def)
  qed
qed

lemma construct_query_refines:
  assumes "0 < N" "length data < 2 ^ 31" "data \<noteq> []"
  shows "\<exists>s. cluster_construct ops N data = Inr s \<and>
     (\<forall>cmp c. is_comparison cmp \<longrightarrow> cluster_Query ops N s cmp c =
        Inr (if range_may_hold ops (cluster_ranges ops N data) cmp c
             then NO_PRUNING_POSSIBLE else FILTER_ALWAYS_FALSE))"
  using cluster_construct_arrays [OF assms] query_refines cluster_ranges_ok(1) [OF assms(3)] by blast

text \<open>The two searches decide alike.\<close>

lemma searches_agree:
  assumes "arrays_ok N s"
    and b_def: "b = FindLastIndexBeforePoint_Binary ops (min_values s) N c"
    and l_def: "l = FindLastIndexBeforePoint_Linear ops (min_values s) N c"
  shows "b = -1 \<longleftrightarrow> l = -1"
    "b \<noteq> -1 \<Longrightarrow> op_ge ops (max_values s ! nat b) c \<longleftrightarrow> op_ge ops (max_values s ! nat l) c"
proof -
  have bp: "before_point (min_values s) N c b"
    using find_before_point [OF assms(1), of c] by (simp add: FindLastIndexBeforePoint_def b_def)
  have lp: "before_point (min_values s) N c l"
    unfolding l_def by (rule linear_before_point [OF assms(1)])
  have m1: "before_point (min_values s) N c r \<Longrightarrow> r = -1 \<longleftrightarrow> (\<forall>j < N. op_gt ops (min_values s ! j) c)"
    for r by (auto simp: before_point_def)
  show eq: "b = -1 \<longleftrightarrow> l = -1" using m1 [OF bp] m1 [OF lp] by blast
  show "op_ge ops (max_values s ! nat b) c \<longleftrightarrow> op_ge ops (max_values s ! nat l) c" if "b \<noteq> -1"
    using before_point_member [OF assms(1) bp] before_point_member [OF assms(1) lp] that eq by blast
qed

end

subsection \<open>The cuts are at the largest gaps\<close>

lemma strict_weak_pair_greater:
  assumes "strict_weak lt"
  shows "strict_weak (pair_greater lt)"
proof -
  have a: "lt x y \<Longrightarrow> \<not> lt y x" and t: "\<not> lt x y \<Longrightarrow> \<not> lt y z \<Longrightarrow> \<not> lt x z" for x y z
    using assms unfolding strict_weak_def by blast+
  show ?thesis
    unfolding strict_weak_def pair_greater_def
  proof (intro conjI allI impI)
    fix x y :: "'a \<times> nat"
    assume "lt (fst y) (fst x) \<or> \<not> lt (fst x) (fst y) \<and> snd y < snd x"
    then show "\<not> (lt (fst x) (fst y) \<or> \<not> lt (fst y) (fst x) \<and> snd x < snd y)"
      using a by auto
  next
    fix x y z :: "'a \<times> nat"
    assume "\<not> (lt (fst y) (fst x) \<or> \<not> lt (fst x) (fst y) \<and> snd y < snd x)"
      "\<not> (lt (fst z) (fst y) \<or> \<not> lt (fst y) (fst z) \<and> snd z < snd y)"
    then show "\<not> (lt (fst z) (fst x) \<or> \<not> lt (fst x) (fst z) \<and> snd z < snd x)"
      using a t by (meson le_less_trans not_less)
  qed
qed

lemma select_gaps_prefix:
  assumes sw: "strict_weak (gap_less ops)"
    and zero: "\<And>a b. gap_is_zero ops a \<Longrightarrow> \<not> gap_less ops a b \<Longrightarrow> gap_is_zero ops b"
    and j: "j + 1 < length xs" "j \<notin> set (select_gaps ops stop xs)"
      "\<not> gap_is_zero ops (gap_of ops (xs ! j) (xs ! (j + 1)))"
  shows "i \<in> set (select_gaps ops stop xs) \<Longrightarrow>
      \<not> gap_less ops (gap_of ops (xs ! i) (xs ! (i + 1))) (gap_of ops (xs ! j) (xs ! (j + 1)))"
    "length (select_gaps ops stop xs) = stop"
proof -
  define gs where "gs = std_sort (pair_greater (gap_less ops)) (compute_gaps ops xs)"
  define P where "P = (\<lambda>g :: 'a \<times> nat. \<not> gap_is_zero ops (fst g))"
  define m where "m = min (length gs) stop"
  define k where "k = length (takeWhile P (take m gs))"
  have sel: "select_gaps ops stop xs = map snd (takeWhile P (take m gs))"
    by (simp add: select_gaps_def gs_def P_def m_def Let_def)
  have tk: "takeWhile P (take m gs) = take k gs"
    by (metis k_def takeWhile_eq_take take_take min.absorb1 length_takeWhile_le length_take m_def
        min.cobounded1 min.left_idem)
  have km: "k \<le> m" "m \<le> length gs"
    using length_takeWhile_le [of P "take m gs"] by (auto simp: k_def m_def)
  have sorted: "\<not> gap_less ops (fst (gs ! p)) (fst (gs ! q))" if "p < q" "q < length gs" for p q
  proof -
    have "\<not> pair_greater (gap_less ops) (gs ! q) (gs ! p)"
      using sorted_std_sort [OF strict_weak_pair_greater [OF sw], of "compute_gaps ops xs"] that
        sorted_wrt_nth_less [of "\<lambda>a b. \<not> pair_greater (gap_less ops) b a" gs p q]
      by (simp add: gs_def)
    then show ?thesis by (simp add: pair_greater_def)
  qed
  have elem: "g = gap_of ops (xs ! n) (xs ! (n + 1))" if "(g, n) \<in> set gs" for g n
    using that by (auto simp: gs_def compute_gaps_def)
  have "(gap_of ops (xs ! j) (xs ! (j + 1)), j) \<in> set gs"
    using j(1) by (auto simp: gs_def compute_gaps_def)
  then obtain q where q: "q < length gs" "gs ! q = (gap_of ops (xs ! j) (xs ! (j + 1)), j)"
    by (auto simp: in_set_conv_nth)
  have kq: "k \<le> q"
  proof (rule ccontr)
    assume "\<not> k \<le> q"
    then have "gs ! q \<in> set (take k gs)" using q(1) by (auto simp: in_set_conv_nth)
    then show False using j(2) q(2) unfolding sel tk by force
  qed
  show "\<not> gap_less ops (gap_of ops (xs ! i) (xs ! (i + 1))) (gap_of ops (xs ! j) (xs ! (j + 1)))"
    if i: "i \<in> set (select_gaps ops stop xs)"
  proof -
    obtain p where p: "p < k" "snd (gs ! p) = i"
      using i km unfolding sel tk by (auto simp: in_set_conv_nth)
    have "(fst (gs ! p), i) \<in> set gs" using p km by (metis nth_mem order_less_le_trans prod.collapse)
    then have "fst (gs ! p) = gap_of ops (xs ! i) (xs ! (i + 1))" by (rule elem)
    then show ?thesis using sorted [of p q] p(1) kq q by simp
  qed
  have "k = stop"
  proof (rule ccontr)
    assume "k \<noteq> stop"
    then have lt: "k < m" using km kq q(1) by (auto simp: m_def)
    then have "\<not> P (take m gs ! k)"
      using nth_length_takeWhile [of P "take m gs"] km by (simp add: k_def)
    then have z: "gap_is_zero ops (fst (gs ! k))" using lt by (simp add: P_def)
    then have "gap_is_zero ops (fst (gs ! q))"
      using zero sorted [of k q] kq q(1) by (cases "k = q") auto
    then show False using j(3) q(2) by simp
  qed
  then show "length (select_gaps ops stop xs) = stop" by (simp add: sel k_def)
qed

subsection \<open>Properties\<close>

text \<open>C11: The cluster statistic over doubles never prunes a chunk with a matching value.\<close>
theorem cluster_never_prunes_match:
  assumes "0 < N" "length data < 2 ^ 31" "cluster_construct double_ops N data = Inr s"
    and "cluster_Query double_ops N s cmp c = Inr FILTER_ALWAYS_FALSE" and "v \<in> set data"
  shows "\<not> compare_holds double_ops cmp v c"
  using double_cluster.cluster_construct_ok [OF assms(1,2)] assms(3-5)
    double_cluster.cluster_query_false by fastforce

lemma cluster_never_prunes_match_witness:
  "cluster_Query double_ops 2 \<lparr>min_values = [1, 8], max_values = [2, 8]\<rparr> COMPARE_EQUAL 4
     = Inr FILTER_ALWAYS_FALSE \<and> \<not> compare_holds double_ops COMPARE_EQUAL 2 4"
proof -
  have c: "cluster_construct double_ops 2 [1, 8, 2] = Inr \<lparr>min_values = [1, 8], max_values = [2, 8]\<rparr>"
    by (simp add: cluster_eval fp_eval)
  have q: "cluster_Query double_ops 2 \<lparr>min_values = [1, 8], max_values = [2, 8]\<rparr> COMPARE_EQUAL 4
      = Inr FILTER_ALWAYS_FALSE"
    by (simp add: cluster_query_eval fp_eval op_lt_def)
  show ?thesis using cluster_never_prunes_match [OF _ _ c q, of 2] q by simp
qed

text \<open>C27: Every query of the cluster statistic over doubles is decided exactly by its list of ranges.\<close>
theorem cluster_query_refines_ranges:
  assumes "0 < N" "length data < 2 ^ 31" "data \<noteq> []"
  shows "\<exists>s. cluster_construct double_ops N data = Inr s \<and>
     (\<forall>cmp c. is_comparison cmp \<longrightarrow> cluster_Query double_ops N s cmp c =
        Inr (if range_may_hold double_ops (cluster_ranges double_ops N data) cmp c
             then NO_PRUNING_POSSIBLE else FILTER_ALWAYS_FALSE))"
  by (rule double_cluster.construct_query_refines [OF assms])

lemma cluster_query_refines_ranges_witness:
  "\<exists>s. cluster_construct double_ops 3 [0x7FF8000000000000, 1, 8] = Inr s \<and>
     (\<forall>cmp c. is_comparison cmp \<longrightarrow> cluster_Query double_ops 3 s cmp c =
        Inr (if range_may_hold double_ops (cluster_ranges double_ops 3 [0x7FF8000000000000, 1, 8]) cmp c
             then NO_PRUNING_POSSIBLE else FILTER_ALWAYS_FALSE))"
  using cluster_query_refines_ranges [of 3 "[0x7FF8000000000000, 1, 8]"] by simp

text \<open>A range query prunes exactly when the range meets none of the ranges kept.\<close>
theorem cluster_range_query_exact:
  assumes "0 < N" "length data < 2 ^ 31" "data \<noteq> []"
    and "cluster_construct (signed_ops :: (64 word, 64 word) cluster_ops) N data = Inr s"
    and "\<not> op_gt (signed_ops :: (64 word, 64 word) cluster_ops) lower upper"
  shows "cluster_QueryRange signed_ops N s lower upper =
     Inr (if \<exists>(lo, hi) \<in> set (cluster_ranges signed_ops N data).
               op_le (signed_ops :: (64 word, 64 word) cluster_ops) lo upper \<and>
               op_le (signed_ops :: (64 word, 64 word) cluster_ops) lower hi
          then NO_PRUNING_POSSIBLE else FILTER_ALWAYS_FALSE)"
proof -
  have p: "padded N (cluster_ranges signed_ops N data) s" and ok: "int64_cluster.arrays_ok N s"
    using int64_cluster.cluster_construct_arrays [OF assms(1-3)] assms(4) by auto
  have "\<not> raw_gt signed_ops (min_values s ! 0) (max_values s ! 0)"
    using int64_cluster.arrays_okD(3) [OF ok assms(1)] signed_order.raw_gt_gt by blast
  moreover have "int64_cluster.overlaps N s lower upper \<longleftrightarrow>
      (\<exists>(lo, hi) \<in> set (cluster_ranges signed_ops N data).
         op_le (signed_ops :: (64 word, 64 word) cluster_ops) lo upper \<and>
         op_le (signed_ops :: (64 word, 64 word) cluster_ops) lower hi)"
    using padded_ex [OF p] by (simp add: int64_cluster.overlaps_def op_le_def)
  ultimately show ?thesis using int64_cluster.query_range_exact [OF ok assms(5)] by simp
qed

text \<open>C28: The binary search and the linear scan it replaces decide every equality query alike.\<close>
theorem binary_search_is_linear_scan:
  fixes data :: "64 word list"
  assumes "0 < N" "length data < 2 ^ 31" "data \<noteq> []" "cluster_construct signed_ops N data = Inr s"
    and "b = FindLastIndexBeforePoint_Binary signed_ops (min_values s) N c"
    and "l = FindLastIndexBeforePoint_Linear signed_ops (min_values s) N c"
  shows "(b = -1 \<longleftrightarrow> l = -1) \<and>
     (b \<noteq> -1 \<longrightarrow> op_ge signed_ops (max_values s ! nat b) c = op_ge signed_ops (max_values s ! nat l) c)"
proof -
  have "int64_cluster.arrays_ok N s"
    using int64_cluster.cluster_construct_arrays [OF assms(1-3)] assms(4) by auto
  then show ?thesis using int64_cluster.searches_agree assms(5,6) by simp
qed

lemma binary_search_is_linear_scan_witness:
  "FindLastIndexBeforePoint_Binary signed_ops [1, 9 :: 64 word] 2 10 \<noteq> -1 \<and>
   op_ge signed_ops ([2, 9] ! nat (FindLastIndexBeforePoint_Binary signed_ops [1, 9 :: 64 word] 2 10)) (10 :: 64 word)
     = op_ge signed_ops ([2, 9] ! nat (FindLastIndexBeforePoint_Linear signed_ops [1, 9 :: 64 word] 2 10)) (10 :: 64 word)"
proof -
  have c: "cluster_construct (signed_ops :: (64 word, 64 word) cluster_ops) 2 [9, 1, 2] =
      Inr \<lparr>min_values = [1, 9], max_values = [2, 9]\<rparr>"
    by (simp add: cluster_eval ops_eval)
  have "FindLastIndexBeforePoint_Binary signed_ops [1, 9 :: 64 word] 2 10 \<noteq> -1"
    by (simp add: cluster_query_eval ops_eval)
  then show ?thesis
    using binary_search_is_linear_scan [OF _ _ _ c refl refl, of 10] by simp
qed

text \<open>C29: The cuts between the ranges are at the largest gaps of the sorted values.\<close>
theorem cluster_cuts_at_largest_gaps:
  fixes xs :: "64 word list"
  assumes "i \<in> set (select_gaps signed_ops stop xs)"
    and "j + 1 < length xs" "j \<notin> set (select_gaps signed_ops stop xs)" "xs ! j \<noteq> xs ! (j + 1)"
  shows "xs ! (j + 1) - xs ! j \<le> xs ! (i + 1) - xs ! i \<and> length (select_gaps signed_ops stop xs) = stop"
proof -
  have "strict_weak (gap_less (signed_ops :: (64 word, 64 word) cluster_ops))"
    unfolding strict_weak_def signed_ops_def by auto
  moreover have "gap_is_zero (signed_ops :: (64 word, 64 word) cluster_ops) a \<Longrightarrow>
      \<not> gap_less (signed_ops :: (64 word, 64 word) cluster_ops) a b \<Longrightarrow>
      gap_is_zero (signed_ops :: (64 word, 64 word) cluster_ops) b" for a b
    by (simp add: signed_ops_def word_neq_0_conv [symmetric])
  ultimately show ?thesis
    using select_gaps_prefix(1) [of "signed_ops :: (64 word, 64 word) cluster_ops" j xs stop i]
      select_gaps_prefix(2) [of "signed_ops :: (64 word, 64 word) cluster_ops" j xs stop] assms
    by (simp add: signed_ops_def not_less)
qed

lemma cluster_cuts_at_largest_gaps_witness:
  "(2 :: 64 word) - 1 \<le> 9 - 2 \<and> length (select_gaps signed_ops 1 [1, 2, 9 :: 64 word]) = 1"
  using cluster_cuts_at_largest_gaps [of 1 1 "[1, 2, 9]" 0]
  by (simp add: cluster_eval ops_eval)

end
