(* ===== verification/Bloom.thy ===== *)
theory Bloom
  imports AdditionalStats
begin

text \<open>
  The bloom statistic (\<open>bloom_additional_stats.hpp\<close>): MurmurHash3 over the standard hash of a
  value, a block of the bit array chosen by one half of the hash, \<open>K\<close> bits in that block
  chosen by both. The standard hash \<open>std::hash<T>\<close> is a parameter \<open>std_hash\<close>. The template
  arguments \<open>N\<close> (words per block), \<open>M\<close> (blocks) and \<open>K\<close> (bits per value) are arguments.
\<close>

unbundle bit_operations_syntax

subsection \<open>MurmurHash3\<close>

definition rotl64 :: "64 word \<Rightarrow> nat \<Rightarrow> 64 word" where
  "rotl64 x r = (push_bit r x) OR (drop_bit (64 - r) x)"

definition fmix64 :: "64 word \<Rightarrow> 64 word" where
  "fmix64 k =
     (let k = k XOR drop_bit 33 k;
          k = k * 0xff51afd7ed558ccd;
          k = k XOR drop_bit 33 k;
          k = k * 0xc4ceb9fe1a85ec53
      in k XOR drop_bit 33 k)"

definition murmur_c1 :: "64 word" where "murmur_c1 = 0x87c37b91114253d5"
definition murmur_c2 :: "64 word" where "murmur_c2 = 0x4cf5ad432745937f"

text \<open>\<open>blocks[i]\<close>: eight bytes read as one little-endian word.\<close>

definition le_word :: "bytes \<Rightarrow> 64 word" where
  "le_word bs = foldr (\<lambda>b acc. push_bit 8 acc OR ucast b) bs 0"

definition block_at :: "bytes \<Rightarrow> nat \<Rightarrow> 64 word" where
  "block_at data i = le_word (take 8 (drop (8 * i) data))"

definition murmur_body_step :: "bytes \<Rightarrow> nat \<Rightarrow> 64 word \<times> 64 word \<Rightarrow> 64 word \<times> 64 word" where
  "murmur_body_step data i h =
     (let (h1, h2) = h;
          k1 = block_at data (i * 2 + 0);
          k2 = block_at data (i * 2 + 1);
          k1 = k1 * murmur_c1; k1 = rotl64 k1 31; k1 = k1 * murmur_c2;
          h1 = h1 XOR k1;
          h1 = rotl64 h1 27; h1 = h1 + h2; h1 = h1 * 5 + 0x52dce729;
          k2 = k2 * murmur_c2; k2 = rotl64 k2 33; k2 = k2 * murmur_c1;
          h2 = h2 XOR k2;
          h2 = rotl64 h2 31; h2 = h2 + h1; h2 = h2 * 5 + 0x38495ab5
      in (h1, h2))"

text \<open>
  The switch over the tail falls through: case \<open>n\<close> xors \<open>tail[n - 1]\<close> and every byte below
  it, down to byte 8 for \<open>k2\<close> and to byte 0 for \<open>k1\<close>.
\<close>

fun xor_tail :: "bytes \<Rightarrow> nat \<Rightarrow> nat \<Rightarrow> 64 word \<Rightarrow> 64 word" where
  "xor_tail tail base 0 k = k"
| "xor_tail tail base (Suc n) k =
     xor_tail tail base n (k XOR push_bit (8 * n) (ucast (tail ! (base + n))))"

definition murmur_tail :: "bytes \<Rightarrow> nat \<Rightarrow> 64 word \<times> 64 word \<Rightarrow> 64 word \<times> 64 word" where
  "murmur_tail tail rest h =
     (let (h1, h2) = h;
          h2 = (if rest \<ge> 9 then
                  (let k2 = xor_tail tail 8 (rest - 8) 0;
                       k2 = k2 * murmur_c2; k2 = rotl64 k2 33; k2 = k2 * murmur_c1
                   in h2 XOR k2)
                else h2);
          h1 = (if rest \<ge> 1 then
                  (let k1 = xor_tail tail 0 (min rest 8) 0;
                       k1 = k1 * murmur_c1; k1 = rotl64 k1 31; k1 = k1 * murmur_c2
                   in h1 XOR k1)
                else h1)
      in (h1, h2))"

definition MurmurHash3_x64_128 :: "bytes \<Rightarrow> 32 word \<Rightarrow> 64 word" where
  "MurmurHash3_x64_128 key seed =
     (let len = length key; nblocks = len div 16;
          (h1, h2) = fold (murmur_body_step key) [0..<nblocks] (ucast seed, ucast seed);
          (h1, h2) = murmur_tail (drop (nblocks * 16) key) (len mod 16) (h1, h2);
          h1 = h1 XOR word_of_nat len;
          h2 = h2 XOR word_of_nat len;
          h1 = h1 + h2;
          h2 = h2 + h1;
          h1 = fmix64 h1;
          h2 = fmix64 h2;
          h1 = h1 + h2
      in h1)"

text \<open>The bytes of a \<open>size_t\<close> in memory, lowest first.\<close>

definition le_bytes :: "64 word \<Rightarrow> bytes" where
  "le_bytes w = map (\<lambda>i. ucast (drop_bit (8 * i) w)) [0..<8]"

definition bloom_hash :: "('v \<Rightarrow> 64 word) \<Rightarrow> 'v \<Rightarrow> 64 word" where
  "bloom_hash std_hash v = MurmurHash3_x64_128 (le_bytes (std_hash v)) 1"

subsection \<open>The bit array\<close>

definition hash_low :: "64 word \<Rightarrow> 32 word" where
  "hash_low h = ucast (h AND (2 ^ 32 - 1))"

definition hash_high :: "64 word \<Rightarrow> 32 word" where
  "hash_high h = ucast (drop_bit 32 h)"

text \<open>\<open>GetBlock\<close> as the offset of the block, in 32-bit arithmetic.\<close>

definition GetBlock :: "nat \<Rightarrow> nat \<Rightarrow> 32 word \<Rightarrow> 32 word \<Rightarrow> nat" where
  "GetBlock M N h1 h2 =
     (let block_idx = h1 mod word_of_nat M; byte_idx = block_idx * word_of_nat N
      in unat byte_idx)"

definition bit_position :: "nat \<Rightarrow> 32 word \<Rightarrow> 32 word \<Rightarrow> nat \<Rightarrow> 32 word" where
  "bit_position N h1 h2 i = (h1 + word_of_nat i * h2) mod (64 * word_of_nat N)"

definition read_bit :: "64 word list \<Rightarrow> nat \<Rightarrow> 32 word \<Rightarrow> bool" where
  "read_bit bit_array block bit_pos =
     (let bit_idx = unat (bit_pos mod 64); byte_idx = unat (bit_pos div 64)
      in drop_bit bit_idx (bit_array ! (block + byte_idx)) AND 1 \<noteq> 0)"

definition QueryUtil ::
  "('v \<Rightarrow> 64 word) \<Rightarrow> nat \<Rightarrow> nat \<Rightarrow> nat \<Rightarrow> 'v \<Rightarrow> 64 word list \<Rightarrow> bool" where
  "QueryUtil std_hash M N K v bit_array =
     (let h = bloom_hash std_hash v; h1 = hash_low h; h2 = hash_high h; block = GetBlock M N h1 h2
      in fold (\<lambda>i result. result \<and> read_bit bit_array block (bit_position N h1 h2 i)) [1..<K + 1] True)"

definition write_bit :: "nat \<Rightarrow> 32 word \<Rightarrow> 64 word list \<Rightarrow> 64 word list result" where
  "write_bit block bit_pos bit_array =
     (let bit_idx = unat (bit_pos mod 64); byte_idx = unat (bit_pos div 64)
      in if block + byte_idx < length bit_array
         then Inr (bit_array[block + byte_idx := bit_array ! (block + byte_idx) OR push_bit bit_idx 1])
         else Inl OutOfBounds)"

definition bloom_Insert ::
  "('v \<Rightarrow> 64 word) \<Rightarrow> nat \<Rightarrow> nat \<Rightarrow> nat \<Rightarrow> 'v \<Rightarrow> 64 word list \<Rightarrow> 64 word list result" where
  "bloom_Insert std_hash M N K v bit_array =
     (let h = bloom_hash std_hash v; h1 = hash_low h; h2 = hash_high h; block = GetBlock M N h1 h2
      in fold_result (\<lambda>i. write_bit block (bit_position N h1 h2 i)) [1..<K + 1] bit_array)"

subsection \<open>The statistic\<close>

definition bloom_Initialise ::
  "('v \<Rightarrow> 64 word) \<Rightarrow> nat \<Rightarrow> nat \<Rightarrow> nat \<Rightarrow> 'v list \<Rightarrow> 64 word list result" where
  "bloom_Initialise std_hash N M K data =
     fold_result (bloom_Insert std_hash M N K) data (replicate (N * M) 0)"

definition bloom_Query ::
  "('v \<Rightarrow> 64 word) \<Rightarrow> nat \<Rightarrow> nat \<Rightarrow> nat \<Rightarrow> 64 word list \<Rightarrow> ExpressionType \<Rightarrow> 'v \<Rightarrow>
   FilterPropagateResult result" where
  "bloom_Query std_hash N M K bit_array comparison_type constant =
     (if comparison_type = COMPARE_EQUAL \<or> comparison_type = COMPARE_NOT_DISTINCT_FROM
      then (if QueryUtil std_hash M N K constant bit_array then Inr NO_PRUNING_POSSIBLE
            else Inr FILTER_ALWAYS_FALSE)
      else Inr NO_PRUNING_POSSIBLE)"

definition bloom_QueryRange :: "64 word list \<Rightarrow> 'v \<Rightarrow> 'v \<Rightarrow> FilterPropagateResult result" where
  "bloom_QueryRange bit_array lower upper = Inr NO_PRUNING_POSSIBLE"

subsection \<open>What the bit array stands for\<close>

text \<open>
  The abstraction of a bit array is the set of its one bits; a value stands for the \<open>K\<close>
  positions its hash selects. Inserting adds those positions, querying tests that they are
  all there.
\<close>

definition bit_set :: "64 word list \<Rightarrow> (nat \<times> nat) set" where
  "bit_set arr = {(i, j). i < length arr \<and> bit (arr ! i) j}"

definition bloom_position :: "nat \<Rightarrow> nat \<Rightarrow> 64 word \<Rightarrow> nat \<Rightarrow> nat \<times> nat" where
  "bloom_position M N h i =
     (let h1 = hash_low h; h2 = hash_high h; p = bit_position N h1 h2 i
      in (GetBlock M N h1 h2 + unat (p div 64), unat (p mod 64)))"

definition bloom_positions ::
  "('v \<Rightarrow> 64 word) \<Rightarrow> nat \<Rightarrow> nat \<Rightarrow> nat \<Rightarrow> 'v \<Rightarrow> (nat \<times> nat) set" where
  "bloom_positions std_hash M N K v =
     bloom_position M N (bloom_hash std_hash v) ` {1..K}"

text \<open>The sizes for which the 32-bit index arithmetic does not wrap.\<close>

definition bloom_sizes_ok :: "nat \<Rightarrow> nat \<Rightarrow> bool" where
  "bloom_sizes_ok N M \<longleftrightarrow> 0 < N \<and> 0 < M \<and> 64 * N < 2 ^ 32 \<and> N * M < 2 ^ 32"

lemma unat_of_nat_32: "n < 2 ^ 32 \<Longrightarrow> unat (word_of_nat n :: 32 word) = n"
  by (simp add: unat_of_nat)

lemma block_bound:
  assumes "bloom_sizes_ok N M"
  shows "GetBlock M N h1 h2 + N \<le> N * M"
proof -
  have "M \<le> N * M" "N * M < 2 ^ 32" "N < 2 ^ 32" using assms by (simp_all add: bloom_sizes_ok_def)
  then have NM: "N < 2 ^ 32" "M < 2 ^ 32" by linarith+
  define b where "b = unat h1 mod M"
  have b: "b < M" using assms by (simp add: b_def bloom_sizes_ok_def)
  then have bN: "(b + 1) * N \<le> M * N" by (intro mult_le_mono1) simp
  then have "b * N < 2 ^ 32" using assms by (simp add: bloom_sizes_ok_def mult.commute)
  moreover have "unat (h1 mod word_of_nat M) = b"
    using NM by (simp add: unat_mod unat_of_nat_32 b_def)
  ultimately have "GetBlock M N h1 h2 = b * N"
    using NM by (simp add: GetBlock_def Let_def unat_mult_lem [THEN iffD1] unat_word_ariths unat_of_nat_32)
  then show ?thesis using bN by (simp add: mult.commute add.commute)
qed

lemma bit_position_bound:
  assumes "bloom_sizes_ok N M"
  shows "unat (bit_position N h1 h2 i div 64) < N" "unat (bit_position N h1 h2 i mod 64) < 64"
proof -
  have N: "unat (64 * word_of_nat N :: 32 word) = 64 * N"
    using assms by (simp add: bloom_sizes_ok_def unat_word_ariths unat_of_nat_32)
  have "unat (bit_position N h1 h2 i) < 64 * N"
    using assms by (simp add: bit_position_def unat_mod N bloom_sizes_ok_def)
  then show "unat (bit_position N h1 h2 i div 64) < N"
    by (simp add: unat_div less_mult_imp_div_less mult.commute)
  show "unat (bit_position N h1 h2 i mod 64) < 64" by (simp add: unat_mod)
qed

lemma bloom_position_bound:
  "bloom_sizes_ok N M \<Longrightarrow> bloom_position M N h i = (w, b) \<Longrightarrow> w < N * M \<and> b < 64"
  using block_bound [of N M "hash_low h" "hash_high h"]
    bit_position_bound [of N M "hash_low h" "hash_high h" i]
  by (auto simp: bloom_position_def Let_def)

lemma read_bit_iff: "drop_bit n w AND 1 \<noteq> 0 \<longleftrightarrow> bit w n" for w :: "64 word"
  by (simp add: and_one_eq bit_iff_odd_drop_bit odd_iff_mod_2_eq_one)

lemma bit_set_replicate [simp]: "bit_set (replicate n 0) = {}"
  by (auto simp: bit_set_def)

lemma set_bit_bit_set:
  assumes "i < length arr" "b < 64"
  shows "bit_set (arr[i := arr ! i OR push_bit b 1]) = insert (i, b) (bit_set arr)"
proof -
  have b: "bit (arr ! i OR push_bit b 1) j \<longleftrightarrow> bit (arr ! i) j \<or> j = b" for j
    using assms(2) by (auto simp: bit_or_iff bit_exp_iff)
  show ?thesis
    using assms(1) by (auto simp: bit_set_def nth_list_update b simp del: push_bit_of_1 split: if_splits)
qed

lemma write_bit_bit_set:
  assumes "block + unat (p div 64) < length arr"
  shows "\<exists>arr'. write_bit block p arr = Inr arr' \<and> length arr' = length arr \<and>
           bit_set arr' = insert (block + unat (p div 64), unat (p mod 64)) (bit_set arr)"
proof -
  have "unat (p mod 64) < 64" by (simp add: unat_mod)
  from set_bit_bit_set [OF assms this] show ?thesis
    using assms by (simp add: write_bit_def Let_def del: push_bit_of_1)
qed

lemma upt_range: "set [1..<K + 1] = {1..K}"
  by auto

text \<open>\<open>Insert\<close> adds the positions of its value, and never writes outside the array.\<close>

lemma bloom_Insert_bit_set:
  assumes "bloom_sizes_ok N M" "length arr = N * M"
  shows "\<exists>arr'. bloom_Insert std_hash M N K v arr = Inr arr' \<and> length arr' = N * M \<and>
           bit_set arr' = bit_set arr \<union> bloom_positions std_hash M N K v"
proof -
  define h1 where "h1 = hash_low (bloom_hash std_hash v)"
  define h2 where "h2 = hash_high (bloom_hash std_hash v)"
  let ?pos = "bloom_position M N (bloom_hash std_hash v)"
  have pos: "?pos i = (GetBlock M N h1 h2 + unat (bit_position N h1 h2 i div 64),
      unat (bit_position N h1 h2 i mod 64))" for i
    by (simp add: bloom_position_def h1_def h2_def Let_def)
  have "\<exists>arr'. fold_result (\<lambda>i. write_bit (GetBlock M N h1 h2) (bit_position N h1 h2 i)) is a = Inr arr' \<and>
      length arr' = N * M \<and> bit_set arr' = bit_set a \<union> ?pos ` set is" if "length a = N * M" for "is" a
    using that
  proof (induction "is" arbitrary: a)
    case (Cons i "is")
    have "GetBlock M N h1 h2 + unat (bit_position N h1 h2 i div 64) < length a"
      using block_bound [OF assms(1), of h1 h2] bit_position_bound(1) [OF assms(1), of h1 h2 i]
        Cons.prems by linarith
    then obtain a1 where a1: "write_bit (GetBlock M N h1 h2) (bit_position N h1 h2 i) a = Inr a1"
      "length a1 = N * M" "bit_set a1 = insert (?pos i) (bit_set a)"
      using write_bit_bit_set [of "GetBlock M N h1 h2" "bit_position N h1 h2 i" a] Cons.prems
      by (auto simp: pos)
    then show ?case using Cons.IH [OF a1(2)] by auto
  qed simp
  from this [OF assms(2), of "[1..<K + 1]"] show ?thesis
    unfolding bloom_Insert_def bloom_positions_def Let_def h1_def h2_def upt_range .
qed

lemma QueryUtil_bit_set:
  assumes "bloom_sizes_ok N M" "length arr = N * M"
  shows "QueryUtil std_hash M N K v arr \<longleftrightarrow> bloom_positions std_hash M N K v \<subseteq> bit_set arr"
proof -
  define h1 where "h1 = hash_low (bloom_hash std_hash v)"
  define h2 where "h2 = hash_high (bloom_hash std_hash v)"
  have "read_bit arr (GetBlock M N h1 h2) (bit_position N h1 h2 i) \<longleftrightarrow>
      bloom_position M N (bloom_hash std_hash v) i \<in> bit_set arr" for i
    using block_bound [OF assms(1), of h1 h2] bit_position_bound(1) [OF assms(1), of h1 h2 i] assms(2)
    by (auto simp: read_bit_def read_bit_iff bit_set_def bloom_position_def h1_def h2_def Let_def)
  moreover have "fold (\<lambda>i r. r \<and> P i) xs b \<longleftrightarrow> b \<and> (\<forall>i \<in> set xs. P i)" for P and xs :: "nat list" and b
    by (induction xs arbitrary: b) auto
  ultimately show ?thesis
    unfolding QueryUtil_def bloom_positions_def Let_def h1_def h2_def upt_range [symmetric]
    by (simp only: simp_thms image_subset_iff)
qed

lemma bloom_Initialise_bit_set:
  assumes "bloom_sizes_ok N M"
  shows "\<exists>arr. bloom_Initialise std_hash N M K data = Inr arr \<and> length arr = N * M \<and>
           bit_set arr = (\<Union>v \<in> set data. bloom_positions std_hash M N K v)"
proof -
  have "\<exists>arr. fold_result (bloom_Insert std_hash M N K) data a = Inr arr \<and> length arr = N * M \<and>
      bit_set arr = bit_set a \<union> (\<Union>v \<in> set data. bloom_positions std_hash M N K v)"
    if "length a = N * M" for a
    using that
  proof (induction data arbitrary: a)
    case (Cons v data)
    obtain a1 where a1: "bloom_Insert std_hash M N K v a = Inr a1" "length a1 = N * M"
      "bit_set a1 = bit_set a \<union> bloom_positions std_hash M N K v"
      using bloom_Insert_bit_set [OF assms Cons.prems, of std_hash K v] by (elim exE conjE)
    obtain arr where "fold_result (bloom_Insert std_hash M N K) data a1 = Inr arr"
      "length arr = N * M"
      "bit_set arr = bit_set a1 \<union> (\<Union>v \<in> set data. bloom_positions std_hash M N K v)"
      using Cons.IH [OF a1(2)] by (elim exE conjE)
    then show ?case using a1 by (intro exI [of _ arr]) (simp add: Un_assoc)
  qed simp
  from this [of "replicate (N * M) 0"] show ?thesis by (simp add: bloom_Initialise_def)
qed

subsection \<open>The interface\<close>

text \<open>
  The array holds the positions of every value of the chunk, and values that compare equal
  have the same standard hash. The second is what \<open>std::hash\<close> promises for the equality of
  the C++ type; a NaN is the one value DuckDB compares equal to others for which it may fail.
\<close>

definition hash_respects :: "('v, 'z) value_ops_scheme \<Rightarrow> ('v \<Rightarrow> 64 word) \<Rightarrow> 'v list \<Rightarrow> bool" where
  "hash_respects ops std_hash xs \<longleftrightarrow>
     (\<forall>v \<in> set xs. \<forall>c. op_eq ops v c \<longrightarrow> std_hash v = std_hash c)"

definition bloom_describes ::
  "('v, 'z) value_ops_scheme \<Rightarrow> ('v \<Rightarrow> 64 word) \<Rightarrow> nat \<Rightarrow> nat \<Rightarrow> nat \<Rightarrow> 64 word list \<Rightarrow> 'v list \<Rightarrow> bool"
  where
  "bloom_describes ops std_hash N M K arr xs \<longleftrightarrow>
     bloom_sizes_ok N M \<and> length arr = N * M \<and> hash_respects ops std_hash xs \<and>
     (\<forall>v \<in> set xs. bloom_positions std_hash M N K v \<subseteq> bit_set arr)"

lemma bloom_Query_false:
  assumes "bloom_describes ops std_hash N M K arr xs" "v \<in> set xs"
    "bloom_Query std_hash N M K arr cmp c = Inr FILTER_ALWAYS_FALSE"
  shows "\<not> compare_holds ops cmp v c"
proof -
  have cmp: "cmp = COMPARE_EQUAL \<or> cmp = COMPARE_NOT_DISTINCT_FROM"
    and miss: "\<not> QueryUtil std_hash M N K c arr"
    using assms(3) by (auto simp: bloom_Query_def split: if_splits)
  have "\<not> op_eq ops v c"
  proof
    assume "op_eq ops v c"
    then have "std_hash v = std_hash c"
      using assms(1,2) by (auto simp: bloom_describes_def hash_respects_def)
    then have "bloom_positions std_hash M N K c = bloom_positions std_hash M N K v"
      by (simp add: bloom_positions_def bloom_hash_def)
    then show False
      using miss assms(1,2) QueryUtil_bit_set [of N M arr std_hash K c]
      by (auto simp: bloom_describes_def)
  qed
  then show ?thesis using cmp by auto
qed

sublocale duck_order \<subseteq> bloom:
  additional_stats ops "bloom_describes ops std_hash N M K" "bloom_Query std_hash N M K" bloom_QueryRange
  for std_hash N M K
  by unfold_locales (auto simp: bloom_Query_def bloom_QueryRange_def split: if_splits
      dest: bloom_Query_false)

lemma bloom_Initialise_describes:
  assumes "bloom_sizes_ok N M" "hash_respects ops std_hash data"
  shows "\<exists>arr. bloom_Initialise std_hash N M K data = Inr arr \<and>
           bloom_describes ops std_hash N M K arr data"
  using bloom_Initialise_bit_set [OF assms(1), of std_hash K data] assms
  by (auto simp: bloom_describes_def)

subsection \<open>The finaliser loses nothing\<close>

definition xorshift33 :: "64 word \<Rightarrow> 64 word" where
  "xorshift33 k = k XOR drop_bit 33 k"

lemma xorshift33_involution [simp]: "xorshift33 (xorshift33 k) = k"
proof (rule bit_word_eqI)
  fix n assume "n < LENGTH(64)"
  then have "\<not> bit k (33 + (33 + n))" by (intro notI) (auto dest: bit_imp_le_length)
  then show "bit (xorshift33 (xorshift33 k)) n \<longleftrightarrow> bit k n"
    by (auto simp: xorshift33_def bit_xor_iff bit_drop_bit_eq add.commute)
qed

definition fmix64_inverse :: "64 word \<Rightarrow> 64 word" where
  "fmix64_inverse k = xorshift33 (xorshift33 (xorshift33 k * 0x9cb4b2f8129337db) * 0x4f74430c22a54005)"

lemma fmix64_inverse: "fmix64_inverse (fmix64 k) = k"
proof -
  have f: "fmix64 k = xorshift33 (xorshift33 (xorshift33 k * 0xff51afd7ed558ccd) * 0xc4ceb9fe1a85ec53)"
    by (simp add: fmix64_def xorshift33_def Let_def)
  have "(0xc4ceb9fe1a85ec53 * 0x9cb4b2f8129337db :: 64 word) = 1"
    "(0xff51afd7ed558ccd * 0x4f74430c22a54005 :: 64 word) = 1"
    by (transfer, simp)+
  then have cancel: "x * 0xc4ceb9fe1a85ec53 * 0x9cb4b2f8129337db = x"
    "x * 0xff51afd7ed558ccd * 0x4f74430c22a54005 = x" for x :: "64 word"
    by (simp_all only: mult.assoc mult_1_right)
  show ?thesis by (simp only: f fmix64_inverse_def cancel xorshift33_involution)
qed

end
