(* ===== verification/Dictionary.thy ===== *)
theory Dictionary
  imports AdditionalStats
begin

text \<open>
  The dictionary statistic (\<open>dictionary_additional_stats.hpp\<close>): the distinct values of the
  chunk, discarded when there are more than \<open>N\<close>. The \<open>unordered_set\<close> is the list of its
  elements in insertion order; no answer depends on the iteration order. Its serialised form
  is the sequence of properties written with their field ids.
\<close>

subsection \<open>State and construction\<close>

record 'v dictionary_stats =
  valid :: bool
  dictionary :: "'v list"

definition dictionary_alloc :: "'v dictionary_stats" where
  "dictionary_alloc = \<lparr>valid = True, dictionary = []\<rparr>"

definition set_contains :: "('v, 'z) value_ops_scheme \<Rightarrow> 'v list \<Rightarrow> 'v \<Rightarrow> bool" where
  "set_contains ops d item = (\<exists>e \<in> set d. raw_eq ops e item)"

definition set_insert :: "('v, 'z) value_ops_scheme \<Rightarrow> 'v \<Rightarrow> 'v list \<Rightarrow> 'v list" where
  "set_insert ops item d = (if set_contains ops d item then d else d @ [item])"

text \<open>The insertion loop stops as soon as the set is too large.\<close>

fun insert_loop :: "('v, 'z) value_ops_scheme \<Rightarrow> nat \<Rightarrow> 'v list \<Rightarrow> 'v list \<Rightarrow> 'v list" where
  "insert_loop ops N [] d = d"
| "insert_loop ops N (item # data) d =
     (let d = set_insert ops item d
      in if length d > N then d else insert_loop ops N data d)"

definition dictionary_Initialise ::
  "('v, 'z) value_ops_scheme \<Rightarrow> nat \<Rightarrow> 'v list \<Rightarrow> 'v dictionary_stats \<Rightarrow> 'v dictionary_stats" where
  "dictionary_Initialise ops N data nstats =
     (let d = insert_loop ops N data (dictionary nstats)
      in if length d > N then nstats\<lparr>valid := False, dictionary := []\<rparr>
         else nstats\<lparr>dictionary := d\<rparr>)"

definition dictionary_construct ::
  "('v, 'z) value_ops_scheme \<Rightarrow> nat \<Rightarrow> 'v list \<Rightarrow> 'v dictionary_stats" where
  "dictionary_construct ops N data = dictionary_Initialise ops N data dictionary_alloc"

subsection \<open>The queries\<close>

text \<open>Each loop returns at the first element that may satisfy the comparison.\<close>

fun any_elem :: "('v \<Rightarrow> bool) \<Rightarrow> 'v list \<Rightarrow> FilterPropagateResult" where
  "any_elem P [] = FILTER_ALWAYS_FALSE"
| "any_elem P (elem # d) = (if P elem then NO_PRUNING_POSSIBLE else any_elem P d)"

definition dictionary_Query ::
  "('v, 'z) value_ops_scheme \<Rightarrow> 'v dictionary_stats \<Rightarrow> ExpressionType \<Rightarrow> 'v \<Rightarrow>
   FilterPropagateResult result" where
  "dictionary_Query ops s comparison_type constant =
     (if \<not> valid s then Inr NO_PRUNING_POSSIBLE
      else case comparison_type of
        COMPARE_EQUAL \<Rightarrow> Inr (any_elem (\<lambda>e. op_eq ops e constant) (dictionary s))
      | COMPARE_NOT_DISTINCT_FROM \<Rightarrow> Inr (any_elem (\<lambda>e. op_eq ops e constant) (dictionary s))
      | COMPARE_NOTEQUAL \<Rightarrow> Inr (any_elem (\<lambda>e. op_ne ops e constant) (dictionary s))
      | COMPARE_DISTINCT_FROM \<Rightarrow> Inr (any_elem (\<lambda>e. op_ne ops e constant) (dictionary s))
      | COMPARE_GREATERTHANOREQUALTO \<Rightarrow> Inr (any_elem (\<lambda>e. op_ge ops e constant) (dictionary s))
      | COMPARE_GREATERTHAN \<Rightarrow> Inr (any_elem (\<lambda>e. op_ge ops e constant) (dictionary s))
      | COMPARE_LESSTHAN \<Rightarrow> Inr (any_elem (\<lambda>e. op_le ops e constant) (dictionary s))
      | COMPARE_LESSTHANOREQUALTO \<Rightarrow> Inr (any_elem (\<lambda>e. op_le ops e constant) (dictionary s))
      | _ \<Rightarrow> Inr NO_PRUNING_POSSIBLE)"

definition dictionary_QueryRange ::
  "('v, 'z) value_ops_scheme \<Rightarrow> 'v dictionary_stats \<Rightarrow> 'v \<Rightarrow> 'v \<Rightarrow> FilterPropagateResult result" where
  "dictionary_QueryRange ops s lower upper =
     (if \<not> valid s then Inr NO_PRUNING_POSSIBLE
      else Inr (any_elem (\<lambda>e. op_ge ops e lower \<and> op_le ops e upper) (dictionary s)))"

text \<open>\<open>Size\<close>, with the object size and the bucket count of the standard library as arguments.\<close>

definition dictionary_Size :: "nat \<Rightarrow> nat \<Rightarrow> nat \<Rightarrow> 'v dictionary_stats \<Rightarrow> nat" where
  "dictionary_Size object_size bucket_count value_size s =
     object_size + bucket_count * 8 + length (dictionary s) * value_size"

subsection \<open>Serialisation\<close>

text \<open>
  A serialiser writes properties one after the other; the deserialiser reads the next one
  and throws when its field id is not the expected one.
\<close>

datatype 'v property = PropBool bool | PropUInt nat | PropItem 'v

type_synonym 'v stream = "(nat \<times> 'v property) list"

definition read_property :: "nat \<Rightarrow> 'v stream \<Rightarrow> ('v property \<times> 'v stream) result" where
  "read_property field_id st =
     (case st of
        [] \<Rightarrow> Inl SerializationException
      | (i, p) # rest \<Rightarrow> if i = field_id then Inr (p, rest) else Inl SerializationException)"

definition read_bool :: "nat \<Rightarrow> 'v stream \<Rightarrow> (bool \<times> 'v stream) result" where
  "read_bool field_id st =
     bind_result (read_property field_id st) (\<lambda>(p, rest).
       case p of PropBool b \<Rightarrow> Inr (b, rest) | _ \<Rightarrow> Inl SerializationException)"

text \<open>An \<open>unsigned int\<close> is read into 32 bits.\<close>

definition read_uint32 :: "nat \<Rightarrow> 'v stream \<Rightarrow> (nat \<times> 'v stream) result" where
  "read_uint32 field_id st =
     bind_result (read_property field_id st) (\<lambda>(p, rest).
       case p of PropUInt n \<Rightarrow> Inr (n mod 2 ^ 32, rest) | _ \<Rightarrow> Inl SerializationException)"

definition read_item :: "nat \<Rightarrow> 'v stream \<Rightarrow> ('v \<times> 'v stream) result" where
  "read_item field_id st =
     bind_result (read_property field_id st) (\<lambda>(p, rest).
       case p of PropItem v \<Rightarrow> Inr (v, rest) | _ \<Rightarrow> Inl SerializationException)"

definition dictionary_Serialise :: "'v dictionary_stats \<Rightarrow> 'v stream" where
  "dictionary_Serialise s =
     (1001, PropBool (valid s)) # (1002, PropUInt (length (dictionary s)))
       # map (\<lambda>item. (1003, PropItem item)) (dictionary s)"

fun read_items ::
  "('v, 'z) value_ops_scheme \<Rightarrow> nat \<Rightarrow> 'v stream \<Rightarrow> 'v list \<Rightarrow> ('v list \<times> 'v stream) result" where
  "read_items ops 0 st d = Inr (d, st)"
| "read_items ops (Suc n) st d =
     bind_result (read_item 1003 st) (\<lambda>(item, st). read_items ops n st (set_insert ops item d))"

definition dictionary_Deserialise ::
  "('v, 'z) value_ops_scheme \<Rightarrow> 'v dictionary_stats \<Rightarrow> 'v stream \<Rightarrow>
   ('v dictionary_stats \<times> 'v stream) result" where
  "dictionary_Deserialise ops nstats st =
     bind_result (read_bool 1001 st) (\<lambda>(v, st).
     bind_result (read_uint32 1002 st) (\<lambda>(n, st).
     bind_result (read_items ops n st (dictionary nstats)) (\<lambda>(d, st).
       Inr (nstats\<lparr>valid := v, dictionary := d\<rparr>, st))))"

subsection \<open>The dictionary holds the distinct values\<close>

lemma any_elem_false: "any_elem P d = FILTER_ALWAYS_FALSE \<longleftrightarrow> (\<forall>e \<in> set d. \<not> P e)"
  by (induction d) auto

lemma any_elem_answer: "any_elem P d = NO_PRUNING_POSSIBLE \<or> any_elem P d = FILTER_ALWAYS_FALSE"
  by (induction d) auto

text \<open>The elements are pairwise distinct for the equality of the C++ type.\<close>

definition raw_distinct :: "('v, 'z) value_ops_scheme \<Rightarrow> 'v list \<Rightarrow> bool" where
  "raw_distinct ops d \<longleftrightarrow> sorted_wrt (\<lambda>a b. \<not> raw_eq ops a b) d"

lemma raw_distinct_insert: "raw_distinct ops d \<Longrightarrow> raw_distinct ops (set_insert ops item d)"
  by (auto simp: raw_distinct_def set_insert_def set_contains_def sorted_wrt_append)

lemma insert_loop_distinct: "raw_distinct ops d \<Longrightarrow> raw_distinct ops (insert_loop ops N data d)"
  by (induction data arbitrary: d) (simp_all add: Let_def raw_distinct_insert)

lemma set_insert_subset: "set d \<subseteq> set (set_insert ops item d)"
  "set (set_insert ops item d) \<subseteq> insert item (set d)"
  by (auto simp: set_insert_def)

lemma insert_loop_subset: "set (insert_loop ops N data d) \<subseteq> set data \<union> set d"
proof (induction data arbitrary: d)
  case (Cons item data)
  show ?case
    using Cons.IH [of "set_insert ops item d"] set_insert_subset(2) [of ops item d]
    by (simp add: Let_def) blast
qed simp

lemma insert_loop_keeps: "set d \<subseteq> set (insert_loop ops N data d)"
proof (induction data arbitrary: d)
  case (Cons item data)
  show ?case
    using Cons.IH [of "set_insert ops item d"] set_insert_subset(1) [of d ops item]
    by (simp add: Let_def) blast
qed simp

lemma insert_loop_all:
  "length (insert_loop ops N data d) \<le> N \<Longrightarrow> v \<in> set data \<Longrightarrow>
   v \<in> set (insert_loop ops N data d) \<or> (\<exists>e \<in> set (insert_loop ops N data d). raw_eq ops e v)"
proof (induction data arbitrary: d)
  case (Cons item data)
  let ?d = "set_insert ops item d"
  have rest: "insert_loop ops N (item # data) d = insert_loop ops N data ?d"
    using Cons.prems(1) by (auto simp: Let_def split: if_splits)
  show ?case
  proof (cases "v \<in> set data")
    case True
    then show ?thesis using Cons.IH [of ?d] Cons.prems(1) unfolding rest by simp
  next
    case False
    then have "v = item" using Cons.prems(2) by simp
    then have "v \<in> set ?d \<or> (\<exists>e \<in> set ?d. raw_eq ops e v)"
      by (auto simp: set_insert_def set_contains_def)
    then show ?thesis
      unfolding rest using insert_loop_keeps [of ?d ops N data] by blast
  qed
qed simp

text \<open>What was written is read back, element for element.\<close>

lemma read_items_map:
  "raw_distinct ops (d @ xs) \<Longrightarrow>
   read_items ops (length xs) (map (\<lambda>item. (1003, PropItem item)) xs @ st) d = Inr (d @ xs, st)"
proof (induction xs arbitrary: d)
  case (Cons x xs)
  then have "\<not> set_contains ops d x"
    by (auto simp: set_contains_def raw_distinct_def sorted_wrt_append)
  then show ?case
    using Cons by (simp add: read_item_def read_property_def set_insert_def)
qed simp

lemma dictionary_Deserialise_Serialise:
  assumes "raw_distinct ops (dictionary s)" "length (dictionary s) < 2 ^ 32" "dictionary nstats = []"
  shows "dictionary_Deserialise ops nstats (dictionary_Serialise s @ st)
           = Inr (nstats\<lparr>valid := valid s, dictionary := dictionary s\<rparr>, st)"
  using read_items_map [of ops "[]" "dictionary s" st] assms
  by (simp add: dictionary_Deserialise_def dictionary_Serialise_def read_bool_def read_uint32_def
      read_property_def)

lemma dictionary_construct_distinct:
  "raw_distinct ops (dictionary (dictionary_construct ops N data))
   \<and> length (dictionary (dictionary_construct ops N data)) \<le> N"
  using insert_loop_distinct [of ops "[]" N data]
  by (simp add: dictionary_construct_def dictionary_Initialise_def dictionary_alloc_def Let_def
      raw_distinct_def)

subsection \<open>The interface\<close>

definition dictionary_describes ::
  "('v, 'z) value_ops_scheme \<Rightarrow> 'v dictionary_stats \<Rightarrow> 'v list \<Rightarrow> bool" where
  "dictionary_describes ops s xs \<longleftrightarrow>
     (valid s \<longrightarrow> (\<forall>v \<in> set xs. v \<in> set (dictionary s) \<or> (\<exists>e \<in> set (dictionary s). raw_eq ops e v)))"

context duck_order
begin

lemma dictionary_elem:
  assumes "dictionary_describes ops s xs" "valid s" "v \<in> set xs"
  shows "\<exists>e \<in> set (dictionary s). op_eq ops e v"
  using assms raw_eq_eq eq_refl unfolding dictionary_describes_def by blast

lemma dictionary_Query_false:
  assumes "dictionary_describes ops s xs" "v \<in> set xs"
    "dictionary_Query ops s cmp c = Inr FILTER_ALWAYS_FALSE"
  shows "\<not> compare_holds ops cmp v c"
proof -
  have ok: "valid s" using assms(3) by (auto simp: dictionary_Query_def split: if_splits)
  then obtain e where e: "e \<in> set (dictionary s)" "op_eq ops e v"
    using dictionary_elem assms(1,2) by blast
  have ge: "op_gt ops e c \<Longrightarrow> op_ge ops e c" "op_lt ops e c \<Longrightarrow> op_le ops e c"
    by (auto simp: ge_iff op_lt_def op_le_def dest: gt_asym)
  have "\<not> compare_holds ops cmp e c"
    using assms(3) ok e(1) ge
    by (cases cmp) (auto simp: dictionary_Query_def any_elem_false)
  then show ?thesis using compare_holds_cong [OF e(2)] by simp
qed

lemma dictionary_QueryRange_false:
  assumes "dictionary_describes ops s xs" "v \<in> set xs"
    "dictionary_QueryRange ops s lo hi = Inr FILTER_ALWAYS_FALSE"
  shows "\<not> in_closed_range ops lo hi v"
proof -
  have ok: "valid s" using assms(3) by (auto simp: dictionary_QueryRange_def split: if_splits)
  then obtain e where e: "e \<in> set (dictionary s)" "op_eq ops e v"
    using dictionary_elem assms(1,2) by blast
  then have "\<not> in_closed_range ops lo hi e"
    using assms(3) ok by (auto simp: dictionary_QueryRange_def any_elem_false in_closed_range_def)
  then show ?thesis
    using gt_cong [OF eq_refl e(2), of lo] gt_cong [OF e(2) eq_refl, of hi]
    by (simp add: in_closed_range_def ge_iff op_le_def)
qed

lemma dictionary_Query_answer:
  "dictionary_Query ops s cmp c = Inr r \<Longrightarrow> r = NO_PRUNING_POSSIBLE \<or> r = FILTER_ALWAYS_FALSE"
  using any_elem_answer by (cases cmp) (auto simp: dictionary_Query_def split: if_splits)

lemma dictionary_QueryRange_answer:
  "dictionary_QueryRange ops s lo hi = Inr r \<Longrightarrow> r = NO_PRUNING_POSSIBLE \<or> r = FILTER_ALWAYS_FALSE"
  using any_elem_answer by (auto simp: dictionary_QueryRange_def split: if_splits)

end

sublocale duck_order \<subseteq> dict:
  additional_stats ops "dictionary_describes ops" "dictionary_Query ops" "dictionary_QueryRange ops"
  using dictionary_Query_answer dictionary_Query_false dictionary_QueryRange_answer
    dictionary_QueryRange_false
  by unfold_locales

lemma dictionary_construct_describes:
  "dictionary_describes ops (dictionary_construct ops N data) data"
  using insert_loop_all [of ops N data "[]"]
  by (auto simp: dictionary_describes_def dictionary_construct_def dictionary_Initialise_def
      dictionary_alloc_def Let_def split: if_splits)

end
