(* ===== verification/SketchQuery.thy ===== *)
theory SketchQuery
  imports Bloom Dictionary
begin

text \<open>
  The properties of the bloom and of the dictionary statistic, over the definitions of
  \<open>Bloom\<close> and \<open>Dictionary\<close>. The bit array refines the set of bit positions its values
  select, the dictionary refines the set of distinct values.
\<close>

subsection \<open>Bloom\<close>

text \<open>C30: Building the bit array never writes outside it, and sets exactly the bits its values select.\<close>
theorem bloom_build_refines:
  assumes "bloom_sizes_ok N M"
  shows "\<exists>arr. bloom_Initialise std_hash N M K data = Inr arr \<and> length arr = N * M \<and>
           bit_set arr = (\<Union>v \<in> set data. bloom_positions std_hash M N K v)"
  by (rule bloom_Initialise_bit_set [OF assms])

lemma bloom_build_refines_witness:
  "\<exists>arr. bloom_Initialise id 400 1 2 [1, 2, 3] = Inr arr \<and> length arr = 400 \<and>
     bit_set arr = (\<Union>v \<in> {1, 2, 3}. bloom_positions id 1 400 2 v)"
  using bloom_build_refines [of 400 1 id 2 "[1, 2, 3]"] by (simp add: bloom_sizes_ok_def)

text \<open>A bloom query prunes exactly an equality whose constant selects a bit no value has set.\<close>
theorem bloom_query_exact:
  assumes "bloom_sizes_ok N M" "bloom_Initialise std_hash N M K data = Inr arr"
  shows "bloom_Query std_hash N M K arr cmp c =
     Inr (if (cmp = COMPARE_EQUAL \<or> cmp = COMPARE_NOT_DISTINCT_FROM) \<and>
             \<not> bloom_positions std_hash M N K c \<subseteq> (\<Union>v \<in> set data. bloom_positions std_hash M N K v)
          then FILTER_ALWAYS_FALSE else NO_PRUNING_POSSIBLE)"
  using bloom_Initialise_bit_set [OF assms(1), of std_hash K data] assms(2)
    QueryUtil_bit_set [OF assms(1), of arr std_hash K c]
  by (auto simp: bloom_Query_def)



text \<open>The finaliser of the hash is injective, so it merges no two intermediate hashes.\<close>
theorem fmix64_injective: "inj fmix64"
  by (rule inj_on_inverseI [of _ fmix64_inverse]) (rule fmix64_inverse)

subsection \<open>Bloom and NaN\<close>

text \<open>
  \<open>std::hash\<close> promises one hash for values that are equal under \<open>==\<close>. No NaN is equal to
  anything there, while DuckDB's \<open>Equals\<close> makes all NaNs equal.
\<close>

definition std_hash_contract :: "('v, 'z) value_ops_scheme \<Rightarrow> ('v \<Rightarrow> 64 word) \<Rightarrow> bool" where
  "std_hash_contract ops std_hash \<longleftrightarrow> (\<forall>a b. raw_eq ops a b \<longrightarrow> std_hash a = std_hash b)"

text \<open>A hash of the bit pattern that sends both zeros to the same value.\<close>

definition pattern_hash :: "64 word \<Rightarrow> 64 word" where
  "pattern_hash w = (if w = 0x8000000000000000 then 0 else w)"

lemma fp_raw_eq_cases:
  "fp_raw_eq p a b \<Longrightarrow> a = b \<or> (fp_mag a = 0 \<and> fp_mag b = 0)" for a b :: "64 word"
proof -
  assume "fp_raw_eq p a b"
  then have k: "fp_key a = fp_key b" by (simp add: fp_raw_eq_def)
  have w: "unat w = (if fp_neg w then 2 ^ 63 else 0) + fp_mag w" for w :: "64 word"
    using unsigned_less [of w, where 'a=nat] by (auto simp: fp_neg_def fp_mag_def mod_if not_le)
  show ?thesis
  proof (cases "fp_mag a = 0 \<and> fp_mag b = 0")
    case False
    then have "fp_neg a = fp_neg b" "fp_mag a = fp_mag b"
      using k by (auto simp: fp_key_def split: if_splits)
    then have "unat a = unat b" by (simp add: w [of a] w [of b])
    then show ?thesis using word_eq_iff_unsigned [of a b, where 'a = nat] by simp
  qed simp
qed

lemma pattern_hash_zero: "fp_mag w = 0 \<Longrightarrow> pattern_hash w = 0"
proof -
  assume "fp_mag w = 0"
  then have "unat w = 0 \<or> unat w = 2 ^ 63"
    using unsigned_less [of w, where 'a=nat] by (auto simp: fp_mag_def mod_eq_0_iff_dvd elim!: dvdE)
  then have "unat w = unat (0 :: 64 word) \<or> unat w = unat (0x8000000000000000 :: 64 word)" by simp
  then have "w = 0 \<or> w = 0x8000000000000000"
    using word_eq_iff_unsigned [of w, where 'a = nat] by blast
  then show ?thesis by (auto simp: pattern_hash_def)
qed

lemma pattern_hash_contract: "std_hash_contract double_ops pattern_hash"
  using fp_raw_eq_cases pattern_hash_zero
  by (auto simp: std_hash_contract_def double_ops_def fp_ops_def) metis

text \<open>A hash that keeps the promise of std::hash still lets the bloom statistic prune a chunk
  of doubles whose NaN is equal to the NaN asked for.\<close>
theorem bloom_prunes_equal_nan:
  "\<exists>std_hash arr. std_hash_contract double_ops std_hash \<and>
     bloom_Initialise std_hash 20 1 1 [0x7FF8000000000000] = Inr arr \<and>
     bloom_Query std_hash 20 1 1 arr COMPARE_EQUAL 0xFFF8000000000000 = Inr FILTER_ALWAYS_FALSE \<and>
     compare_holds double_ops COMPARE_EQUAL 0x7FF8000000000000 0xFFF8000000000000"
proof -
  obtain arr where b: "bloom_Initialise pattern_hash 20 1 1 [0x7FF8000000000000] = Inr arr"
    using bloom_Initialise_bit_set [of 20 1 pattern_hash 1 "[0x7FF8000000000000]"]
    by (auto simp: bloom_sizes_ok_def)
  have p: "bloom_position 1 20 (bloom_hash pattern_hash 0x7FF8000000000000) 1 \<noteq>
      bloom_position 1 20 (bloom_hash pattern_hash 0xFFF8000000000000) 1"
    by code_simp
  have "bloom_Query pattern_hash 20 1 1 arr COMPARE_EQUAL 0xFFF8000000000000 = Inr FILTER_ALWAYS_FALSE"
    using bloom_Initialise_bit_set [of 20 1 pattern_hash 1 "[0x7FF8000000000000]"] b p
      QueryUtil_bit_set [of 20 1 arr pattern_hash 1 "0xFFF8000000000000"]
    by (auto simp: bloom_Query_def bloom_sizes_ok_def bloom_positions_def)
  moreover have "compare_holds double_ops COMPARE_EQUAL 0x7FF8000000000000 0xFFF8000000000000"
    by (simp add: fp_eval)
  ultimately show ?thesis using b pattern_hash_contract by blast
qed

subsection \<open>Dictionary\<close>

text \<open>C31: A dictionary that is kept answers an equality, inequality or closed range over signed
  integers exactly: it prunes when and only when no value of the chunk matches.\<close>
theorem dictionary_exact:
  fixes data :: "64 word list"
  assumes "valid (dictionary_construct signed_ops N data)"
    and "cmp \<in> {COMPARE_EQUAL, COMPARE_NOT_DISTINCT_FROM, COMPARE_NOTEQUAL, COMPARE_DISTINCT_FROM,
      COMPARE_GREATERTHANOREQUALTO, COMPARE_LESSTHANOREQUALTO}"
  shows "dictionary_Query signed_ops (dictionary_construct signed_ops N data) cmp c =
     Inr (if \<exists>v \<in> set data. compare_holds signed_ops cmp v c then NO_PRUNING_POSSIBLE
          else FILTER_ALWAYS_FALSE)"
proof -
  define d where "d = dictionary_construct signed_ops N data"
  have "set (dictionary d) = set data"
  proof
    show "set (dictionary d) \<subseteq> set data"
      using insert_loop_subset [of signed_ops N data "[]"] assms(1)
      by (auto simp: d_def dictionary_construct_def dictionary_Initialise_def dictionary_alloc_def Let_def
          split: if_splits)
    show "set data \<subseteq> set (dictionary d)"
      using dictionary_construct_describes [of "signed_ops :: (64 word, 64 word) cluster_ops" N data] assms(1)
      by (auto simp: d_def dictionary_describes_def) (auto simp: signed_ops_def)
  qed
  moreover have "any_elem P xs = (if \<exists>v \<in> set xs. P v then NO_PRUNING_POSSIBLE else FILTER_ALWAYS_FALSE)"
    for P and xs :: "64 word list"
    by (induction xs) auto
  ultimately show ?thesis
    using assms unfolding d_def [symmetric] by (auto simp: dictionary_Query_def)
qed

lemma dictionary_exact_witness:
  "dictionary_Query signed_ops (dictionary_construct signed_ops 2 [5, 3, 5, 3]) COMPARE_EQUAL (4 :: 64 word)
     = Inr FILTER_ALWAYS_FALSE"
proof -
  have "valid (dictionary_construct signed_ops 2 [5, 3, 5, 3 :: 64 word])"
    by (simp add: dictionary_construct_def dictionary_Initialise_def dictionary_alloc_def Let_def
        set_insert_def set_contains_def signed_ops_def)
  then show ?thesis
    using dictionary_exact [of 2 "[5, 3, 5, 3]" COMPARE_EQUAL 4] by (simp add: signed_ops_def)
qed

text \<open>A dictionary survives serialisation: what a dictionary writes is what a fresh one reads
  back, and the rest of the stream is left.\<close>
theorem dictionary_roundtrip:
  assumes "N < 2 ^ 32"
  shows "dictionary_Deserialise ops dictionary_alloc (dictionary_Serialise (dictionary_construct ops N data) @ st)
     = Inr (dictionary_construct ops N data, st)"
  using dictionary_Deserialise_Serialise [of ops "dictionary_construct ops N data" dictionary_alloc st]
    dictionary_construct_distinct [of ops N data] assms
  by (simp add: dictionary_alloc_def)

end
