(* ===== verification/StatsSet.thy ===== *)
theory StatsSet
  imports ClusterString Bloom Dictionary
begin

text \<open>
  The dispatcher (\<open>stats_set.hpp\<close>): a statistic is constructed with one of the fixed
  instances named by its type, and every operation switches on that type. The empty
  statistic (\<open>empty_additional_stats.hpp\<close>) is the instance \<open>NONE\<close>. What the template argument
  \<open>T\<close> selects is a record of operations, one value of it per type.
\<close>

datatype STATISTIC_TYPE =
    ST_ERROR | ST_NONE | ST_MIN_MAX | ST_CLUSTER_SMALL | ST_CLUSTER_MEDIUM | ST_CLUSTER_LARGE
  | ST_BLOOM_SMALL | ST_BLOOM_MEDIUM | ST_BLOOM_LARGE | ST_DICTIONARY | ST_BLOOM_TINY
  | ST_OTHER "8 word"

subsection \<open>What the value type selects\<close>

record ('v, 'c) stat_env =
  e_ops :: "'v value_ops"
  e_hash :: "'v \<Rightarrow> 64 word"
  e_cluster_construct :: "nat \<Rightarrow> 'v list \<Rightarrow> 'c cluster_stats result"
  e_cluster_query :: "nat \<Rightarrow> 'c cluster_stats \<Rightarrow> ExpressionType \<Rightarrow> 'v \<Rightarrow> FilterPropagateResult result"
  e_cluster_range :: "nat \<Rightarrow> 'c cluster_stats \<Rightarrow> 'v \<Rightarrow> 'v \<Rightarrow> FilterPropagateResult result"

definition numeric_env ::
  "('v, 'g, 'z) cluster_ops_scheme \<Rightarrow> ('v \<Rightarrow> 64 word) \<Rightarrow> ('v, 'v) stat_env" where
  "numeric_env ops std_hash =
     \<lparr>e_ops = value_ops.truncate ops, e_hash = std_hash,
      e_cluster_construct = cluster_construct ops,
      e_cluster_query = cluster_Query ops,
      e_cluster_range = cluster_QueryRange ops\<rparr>"

definition string_env :: "(bytes \<Rightarrow> 64 word) \<Rightarrow> (bytes, data_array) stat_env" where
  "string_env std_hash =
     \<lparr>e_ops = string_ops, e_hash = std_hash,
      e_cluster_construct = string_construct,
      e_cluster_query = string_Query,
      e_cluster_range = string_QueryRange\<rparr>"

subsection \<open>Statistics objects\<close>

text \<open>
  The object behind an \<open>AdditionalStats<T>\<close> pointer: the type tag and the members of the
  instance. Reading the members of another instance is \<open>TypeConfusion\<close>.
\<close>

datatype ('v, 'c) stat_body =
    NoneBody
  | ClusterBody "'c cluster_stats"
  | BloomBody "64 word list"
  | DictionaryBody "'v dictionary_stats"

record ('v, 'c) additional_stat =
  stat_type :: STATISTIC_TYPE
  stat_body :: "('v, 'c) stat_body"

definition new_cluster ::
  "('v, 'c) stat_env \<Rightarrow> nat \<Rightarrow> 'v list \<Rightarrow> ('v, 'c) stat_body option result" where
  "new_cluster env N data = bind_result (e_cluster_construct env N data) (\<lambda>s. Inr (Some (ClusterBody s)))"

definition new_bloom ::
  "('v, 'c) stat_env \<Rightarrow> nat \<Rightarrow> nat \<Rightarrow> nat \<Rightarrow> 'v list \<Rightarrow> ('v, 'c) stat_body option result" where
  "new_bloom env N M K data =
     bind_result (bloom_Initialise (e_hash env) N M K data) (\<lambda>s. Inr (Some (BloomBody s)))"

definition new_body ::
  "('v, 'c) stat_env \<Rightarrow> 'v list \<Rightarrow> STATISTIC_TYPE \<Rightarrow> ('v, 'c) stat_body option result" where
  "new_body env data type =
     (case type of
        ST_ERROR \<Rightarrow> Inl InvalidArgument
      | ST_NONE \<Rightarrow> Inr (Some NoneBody)
      | ST_MIN_MAX \<Rightarrow> new_cluster env 1 data
      | ST_CLUSTER_SMALL \<Rightarrow> new_cluster env 10 data
      | ST_CLUSTER_MEDIUM \<Rightarrow> new_cluster env 50 data
      | ST_CLUSTER_LARGE \<Rightarrow> new_cluster env 200 data
      | ST_BLOOM_SMALL \<Rightarrow> new_bloom env 20 1 1 data
      | ST_BLOOM_MEDIUM \<Rightarrow> new_bloom env 100 1 1 data
      | ST_BLOOM_LARGE \<Rightarrow> new_bloom env 400 1 2 data
      | ST_DICTIONARY \<Rightarrow> Inr (Some (DictionaryBody (dictionary_construct (e_ops env) 300 data)))
      | ST_BLOOM_TINY \<Rightarrow> new_bloom env 2 1 1 data
      | ST_OTHER _ \<Rightarrow> Inr None)"

text \<open>\<open>construct\<close> with an explicit type: \<open>None\<close> is the null pointer.\<close>

definition StatisticsSet_construct_type ::
  "('v, 'c) stat_env \<Rightarrow> 'v list \<Rightarrow> STATISTIC_TYPE \<Rightarrow> ('v, 'c) additional_stat option result" where
  "StatisticsSet_construct_type env data type =
     bind_result (new_body env data type) (\<lambda>b.
       Inr (map_option (\<lambda>body. \<lparr>stat_type = type, stat_body = body\<rparr>) b))"

text \<open>The configured type of a table, row group and column, or the default.\<close>

type_synonym stat_mapping = "string \<times> nat \<times> nat \<Rightarrow> STATISTIC_TYPE option"

definition StatisticsSet_construct ::
  "('v, 'c) stat_env \<Rightarrow> stat_mapping \<Rightarrow> STATISTIC_TYPE \<Rightarrow> 'v list \<Rightarrow> string \<Rightarrow> nat \<Rightarrow> nat \<Rightarrow>
   ('v, 'c) additional_stat option result" where
  "StatisticsSet_construct env mapping default_type data table_name rowgroup column =
     (case mapping (table_name, rowgroup, column) of
        None \<Rightarrow> StatisticsSet_construct_type env data default_type
      | Some type \<Rightarrow> StatisticsSet_construct_type env data type)"

text \<open>\<open>StatisticsSetKeyHash\<close>, over the standard hashes of a string and of an int.\<close>

definition StatisticsSetKeyHash ::
  "(string \<Rightarrow> 64 word) \<Rightarrow> (nat \<Rightarrow> 64 word) \<Rightarrow> string \<times> nat \<times> nat \<Rightarrow> 64 word" where
  "StatisticsSetKeyHash hash_string hash_int key =
     (let hash = hash_string (fst key);
          hash = hash * 31 + hash_int (fst (snd key))
      in hash * 31 + hash_int (snd (snd key)))"

subsection \<open>Dispatch\<close>

definition as_cluster ::
  "('v, 'c) additional_stat \<Rightarrow> ('c cluster_stats \<Rightarrow> 'r result) \<Rightarrow> 'r result" where
  "as_cluster stats f = (case stat_body stats of ClusterBody s \<Rightarrow> f s | _ \<Rightarrow> Inl TypeConfusion)"

definition as_bloom ::
  "('v, 'c) additional_stat \<Rightarrow> (64 word list \<Rightarrow> 'r result) \<Rightarrow> 'r result" where
  "as_bloom stats f = (case stat_body stats of BloomBody s \<Rightarrow> f s | _ \<Rightarrow> Inl TypeConfusion)"

definition as_dictionary ::
  "('v, 'c) additional_stat \<Rightarrow> ('v dictionary_stats \<Rightarrow> 'r result) \<Rightarrow> 'r result" where
  "as_dictionary stats f = (case stat_body stats of DictionaryBody s \<Rightarrow> f s | _ \<Rightarrow> Inl TypeConfusion)"

definition StatisticsSet_Query ::
  "('v, 'c) stat_env \<Rightarrow> ('v, 'c) additional_stat \<Rightarrow> ExpressionType \<Rightarrow> 'v \<Rightarrow>
   FilterPropagateResult result" where
  "StatisticsSet_Query env stats cmp constant =
     (case stat_type stats of
        ST_ERROR \<Rightarrow> Inl InvalidArgument
      | ST_NONE \<Rightarrow> Inr NO_PRUNING_POSSIBLE
      | ST_MIN_MAX \<Rightarrow> as_cluster stats (\<lambda>s. e_cluster_query env 1 s cmp constant)
      | ST_CLUSTER_SMALL \<Rightarrow> as_cluster stats (\<lambda>s. e_cluster_query env 10 s cmp constant)
      | ST_CLUSTER_MEDIUM \<Rightarrow> as_cluster stats (\<lambda>s. e_cluster_query env 50 s cmp constant)
      | ST_CLUSTER_LARGE \<Rightarrow> as_cluster stats (\<lambda>s. e_cluster_query env 200 s cmp constant)
      | ST_BLOOM_SMALL \<Rightarrow> as_bloom stats (\<lambda>s. bloom_Query (e_hash env) 20 1 1 s cmp constant)
      | ST_BLOOM_MEDIUM \<Rightarrow> as_bloom stats (\<lambda>s. bloom_Query (e_hash env) 100 1 1 s cmp constant)
      | ST_BLOOM_LARGE \<Rightarrow> as_bloom stats (\<lambda>s. bloom_Query (e_hash env) 400 1 2 s cmp constant)
      | ST_DICTIONARY \<Rightarrow> as_dictionary stats (\<lambda>s. dictionary_Query (e_ops env) s cmp constant)
      | ST_BLOOM_TINY \<Rightarrow> as_bloom stats (\<lambda>s. bloom_Query (e_hash env) 2 1 1 s cmp constant)
      | ST_OTHER _ \<Rightarrow> Inr NO_PRUNING_POSSIBLE)"

definition StatisticsSet_QueryRange ::
  "('v, 'c) stat_env \<Rightarrow> ('v, 'c) additional_stat \<Rightarrow> 'v \<Rightarrow> 'v \<Rightarrow> FilterPropagateResult result" where
  "StatisticsSet_QueryRange env stats lower upper =
     (case stat_type stats of
        ST_ERROR \<Rightarrow> Inl InvalidArgument
      | ST_NONE \<Rightarrow> Inr NO_PRUNING_POSSIBLE
      | ST_MIN_MAX \<Rightarrow> as_cluster stats (\<lambda>s. e_cluster_range env 1 s lower upper)
      | ST_CLUSTER_SMALL \<Rightarrow> as_cluster stats (\<lambda>s. e_cluster_range env 10 s lower upper)
      | ST_CLUSTER_MEDIUM \<Rightarrow> as_cluster stats (\<lambda>s. e_cluster_range env 50 s lower upper)
      | ST_CLUSTER_LARGE \<Rightarrow> as_cluster stats (\<lambda>s. e_cluster_range env 200 s lower upper)
      | ST_BLOOM_SMALL \<Rightarrow> as_bloom stats (\<lambda>s. bloom_QueryRange s lower upper)
      | ST_BLOOM_MEDIUM \<Rightarrow> as_bloom stats (\<lambda>s. bloom_QueryRange s lower upper)
      | ST_BLOOM_LARGE \<Rightarrow> as_bloom stats (\<lambda>s. bloom_QueryRange s lower upper)
      | ST_DICTIONARY \<Rightarrow> as_dictionary stats (\<lambda>s. dictionary_QueryRange (e_ops env) s lower upper)
      | ST_BLOOM_TINY \<Rightarrow> as_bloom stats (\<lambda>s. bloom_QueryRange s lower upper)
      | ST_OTHER _ \<Rightarrow> Inr NO_PRUNING_POSSIBLE)"

text \<open>
  \<open>Size\<close>: the size of an object is the compiler's \<open>sizeof\<close>, a parameter per type; the
  dictionary adds its buckets, whose number the standard library chooses, and its elements.
\<close>

definition StatisticsSet_Size ::
  "(STATISTIC_TYPE \<Rightarrow> nat) \<Rightarrow> ('v list \<Rightarrow> nat) \<Rightarrow> nat \<Rightarrow> ('v, 'c) additional_stat \<Rightarrow> nat result" where
  "StatisticsSet_Size object_size bucket_count value_size stats =
     (case stat_type stats of
        ST_ERROR \<Rightarrow> Inl InvalidArgument
      | ST_DICTIONARY \<Rightarrow>
          as_dictionary stats (\<lambda>s. Inr (dictionary_Size (object_size ST_DICTIONARY)
            (bucket_count (dictionary s)) value_size s))
      | ST_OTHER _ \<Rightarrow> Inr 0
      | type \<Rightarrow> Inr (object_size type))"

definition StatisticsSet_Name :: "('v, 'c) additional_stat \<Rightarrow> string result" where
  "StatisticsSet_Name stats =
     (case stat_type stats of
        ST_ERROR \<Rightarrow> Inl InvalidArgument
      | ST_NONE \<Rightarrow> Inr ''empty''
      | ST_MIN_MAX \<Rightarrow> Inr ''cluster''
      | ST_CLUSTER_SMALL \<Rightarrow> Inr ''cluster''
      | ST_CLUSTER_MEDIUM \<Rightarrow> Inr ''cluster''
      | ST_CLUSTER_LARGE \<Rightarrow> Inr ''cluster''
      | ST_BLOOM_SMALL \<Rightarrow> Inr ''bloom''
      | ST_BLOOM_MEDIUM \<Rightarrow> Inr ''bloom''
      | ST_BLOOM_LARGE \<Rightarrow> Inr ''bloom''
      | ST_DICTIONARY \<Rightarrow> Inr ''dictionary''
      | ST_BLOOM_TINY \<Rightarrow> Inr ''bloom''
      | ST_OTHER _ \<Rightarrow> Inr ''error'')"

subsection \<open>The dispatcher keeps the contract of the statistics\<close>

text \<open>
  What the clustering of the value type owes the dispatcher: its queries keep the contract
  for every size, and a construction succeeds with a statistic that describes the data.
\<close>

locale statistics_env = duck_order "e_ops env" for env :: "('v, 'c) stat_env" +
  fixes cdescribes :: "nat \<Rightarrow> 'c cluster_stats \<Rightarrow> 'v list \<Rightarrow> bool"
  assumes cluster_stats:
      "additional_stats (e_ops env) (cdescribes N) (e_cluster_query env N) (e_cluster_range env N)"
    and cluster_new:
      "0 < N \<Longrightarrow> length data < 2 ^ 31 \<Longrightarrow>
       \<exists>s. e_cluster_construct env N data = Inr s \<and> cdescribes N s data"
begin

definition body_describes :: "STATISTIC_TYPE \<Rightarrow> ('v, 'c) stat_body \<Rightarrow> 'v list \<Rightarrow> bool" where
  "body_describes type body xs =
     (case type of
        ST_ERROR \<Rightarrow> True
      | ST_NONE \<Rightarrow> True
      | ST_MIN_MAX \<Rightarrow> (\<exists>s. body = ClusterBody s \<and> cdescribes 1 s xs)
      | ST_CLUSTER_SMALL \<Rightarrow> (\<exists>s. body = ClusterBody s \<and> cdescribes 10 s xs)
      | ST_CLUSTER_MEDIUM \<Rightarrow> (\<exists>s. body = ClusterBody s \<and> cdescribes 50 s xs)
      | ST_CLUSTER_LARGE \<Rightarrow> (\<exists>s. body = ClusterBody s \<and> cdescribes 200 s xs)
      | ST_BLOOM_SMALL \<Rightarrow>
          (\<exists>s. body = BloomBody s \<and> bloom_describes (e_ops env) (e_hash env) 20 1 1 s xs)
      | ST_BLOOM_MEDIUM \<Rightarrow>
          (\<exists>s. body = BloomBody s \<and> bloom_describes (e_ops env) (e_hash env) 100 1 1 s xs)
      | ST_BLOOM_LARGE \<Rightarrow>
          (\<exists>s. body = BloomBody s \<and> bloom_describes (e_ops env) (e_hash env) 400 1 2 s xs)
      | ST_DICTIONARY \<Rightarrow>
          (\<exists>s. body = DictionaryBody s \<and> dictionary_describes (e_ops env) s xs)
      | ST_BLOOM_TINY \<Rightarrow>
          (\<exists>s. body = BloomBody s \<and> bloom_describes (e_ops env) (e_hash env) 2 1 1 s xs)
      | ST_OTHER _ \<Rightarrow> True)"

definition stat_describes :: "('v, 'c) additional_stat \<Rightarrow> 'v list \<Rightarrow> bool" where
  "stat_describes st xs = body_describes (stat_type st) (stat_body st) xs"

lemmas cluster_answer = additional_stats.query_answer [OF cluster_stats]
lemmas cluster_false = additional_stats.query_false [OF cluster_stats]
lemmas cluster_range_ans = additional_stats.range_answer [OF cluster_stats]
lemmas cluster_range_no = additional_stats.range_false [OF cluster_stats]

lemma dispatch_answer:
  "StatisticsSet_Query env st cmp c = Inr r \<Longrightarrow> r = NO_PRUNING_POSSIBLE \<or> r = FILTER_ALWAYS_FALSE"
  by (cases "stat_type st"; cases "stat_body st")
    (auto simp: StatisticsSet_Query_def as_cluster_def as_bloom_def as_dictionary_def
      dest: cluster_answer bloom.query_answer dict.query_answer)

lemma dispatch_range_answer:
  "StatisticsSet_QueryRange env st lo hi = Inr r \<Longrightarrow> r = NO_PRUNING_POSSIBLE \<or> r = FILTER_ALWAYS_FALSE"
  by (cases "stat_type st"; cases "stat_body st")
    (auto simp: StatisticsSet_QueryRange_def as_cluster_def as_bloom_def as_dictionary_def
      dest: cluster_range_ans bloom.range_answer dict.range_answer)

lemma dispatch_false:
  "stat_describes st xs \<Longrightarrow> StatisticsSet_Query env st cmp c = Inr FILTER_ALWAYS_FALSE \<Longrightarrow>
   v \<in> set xs \<Longrightarrow> \<not> compare_holds (e_ops env) cmp v c"
  by (cases "stat_type st")
    (auto simp: StatisticsSet_Query_def as_cluster_def as_bloom_def as_dictionary_def
      stat_describes_def body_describes_def
      dest: cluster_false bloom.query_false dict.query_false)

lemma dispatch_range_false:
  "stat_describes st xs \<Longrightarrow> StatisticsSet_QueryRange env st lo hi = Inr FILTER_ALWAYS_FALSE \<Longrightarrow>
   v \<in> set xs \<Longrightarrow> \<not> in_closed_range (e_ops env) lo hi v"
  by (cases "stat_type st")
    (auto simp: StatisticsSet_QueryRange_def as_cluster_def as_bloom_def as_dictionary_def
      stat_describes_def body_describes_def
      dest: cluster_range_no bloom.range_false dict.range_false)

lemma new_cluster_ok:
  "0 < N \<Longrightarrow> length data < 2 ^ 31 \<Longrightarrow>
   \<exists>s. new_cluster env N data = Inr (Some (ClusterBody s)) \<and> cdescribes N s data"
  using cluster_new [of N data] by (auto simp: new_cluster_def)

lemma new_bloom_ok:
  "bloom_sizes_ok N M \<Longrightarrow> hash_respects (e_ops env) (e_hash env) data \<Longrightarrow>
   \<exists>s. new_bloom env N M K data = Inr (Some (BloomBody s)) \<and>
       bloom_describes (e_ops env) (e_hash env) N M K s data"
  using bloom_Initialise_describes [of N M "e_ops env" "e_hash env" data K]
  by (auto simp: new_bloom_def)

lemma construct_describes:
  assumes "length data < 2 ^ 31" "hash_respects (e_ops env) (e_hash env) data"
    "StatisticsSet_construct_type env data type = Inr (Some st)"
  shows "stat_describes st data"
proof -
  obtain body where b: "new_body env data type = Inr (Some body)"
    "st = \<lparr>stat_type = type, stat_body = body\<rparr>"
    using assms(3) by (auto simp: StatisticsSet_construct_type_def bind_result_Inr_iff)
  have "body_describes type body data"
    using b(1) new_cluster_ok [OF _ assms(1), of 1] new_cluster_ok [OF _ assms(1), of 10]
      new_cluster_ok [OF _ assms(1), of 50] new_cluster_ok [OF _ assms(1), of 200]
      new_bloom_ok [OF _ assms(2), of 20 1 1] new_bloom_ok [OF _ assms(2), of 100 1 1]
      new_bloom_ok [OF _ assms(2), of 400 1 2] new_bloom_ok [OF _ assms(2), of 2 1 1]
    by (cases type) (auto simp: new_body_def body_describes_def bloom_sizes_ok_def
        dictionary_construct_describes)
  then show ?thesis by (simp add: stat_describes_def b(2))
qed

lemma construct_ok:
  assumes "length data < 2 ^ 31" "hash_respects (e_ops env) (e_hash env) data" "type \<noteq> ST_ERROR"
  shows "\<exists>st. StatisticsSet_construct_type env data type = Inr st"
  using new_cluster_ok [OF _ assms(1), of 1] new_cluster_ok [OF _ assms(1), of 10]
    new_cluster_ok [OF _ assms(1), of 50] new_cluster_ok [OF _ assms(1), of 200]
    new_bloom_ok [OF _ assms(2), of 20 1 1] new_bloom_ok [OF _ assms(2), of 100 1 1]
    new_bloom_ok [OF _ assms(2), of 400 1 2] new_bloom_ok [OF _ assms(2), of 2 1 1] assms(3)
  by (cases type) (auto simp: StatisticsSet_construct_type_def new_body_def bloom_sizes_ok_def)

end

sublocale statistics_env \<subseteq> dispatch:
  additional_stats "e_ops env" stat_describes "StatisticsSet_Query env" "StatisticsSet_QueryRange env"
  using dispatch_answer dispatch_false dispatch_range_answer dispatch_range_false
  by unfold_locales

subsection \<open>The instances\<close>

text \<open>The order of a numeric type does not depend on its gap operations.\<close>

lemma truncate_ops [simp]:
  "op_eq (value_ops.truncate ops) = op_eq ops" "op_gt (value_ops.truncate ops) = op_gt ops"
  "op_ge (value_ops.truncate ops) = op_ge ops" "raw_eq (value_ops.truncate ops) = raw_eq ops"
  "raw_gt (value_ops.truncate ops) = raw_gt ops" "v_isnan (value_ops.truncate ops) = v_isnan ops"
  "v_isinf (value_ops.truncate ops) = v_isinf ops"
  "v_isneginf (value_ops.truncate ops) = v_isneginf ops"
  by (simp_all add: value_ops.truncate_def)

lemma duck_order_truncate: "duck_order ops \<Longrightarrow> duck_order (value_ops.truncate ops)"
  unfolding duck_order_def truncate_ops .

lemma compare_holds_truncate [simp]:
  "compare_holds (value_ops.truncate ops) cmp v c = compare_holds ops cmp v c"
  by (cases cmp) (simp_all add: op_ne_def op_lt_def op_le_def)

lemma in_closed_range_truncate [simp]:
  "in_closed_range (value_ops.truncate ops) lo hi v = in_closed_range ops lo hi v"
  by (simp add: in_closed_range_def op_le_def)

lemma numeric_statistics_env:
  assumes "cluster_order ops"
  shows "statistics_env (numeric_env ops h) (cluster_order.cluster_describes ops)"
proof (intro statistics_env.intro statistics_env_axioms.intro)
  have ord: "duck_order ops" using assms by (simp add: cluster_order_def)
  then show trunc: "duck_order (e_ops (numeric_env ops h))"
    by (simp add: numeric_env_def duck_order_truncate)
  show "additional_stats (e_ops (numeric_env ops h)) (cluster_order.cluster_describes ops N)
      (e_cluster_query (numeric_env ops h) N) (e_cluster_range (numeric_env ops h) N)" for N
    using cluster_order.cluster_query_answer [OF assms] cluster_order.cluster_query_false [OF assms]
      cluster_order.cluster_range_answer [OF assms] cluster_order.cluster_range_false [OF assms]
    by (intro additional_stats.intro additional_stats_axioms.intro trunc)
      (auto simp: numeric_env_def)
  show "\<exists>s. e_cluster_construct (numeric_env ops h) N data = Inr s
      \<and> cluster_order.cluster_describes ops N s data"
    if "0 < N" "length data < 2 ^ 31" for N data
    using cluster_order.cluster_construct_ok [OF assms that] by (simp add: numeric_env_def)
qed

interpretation bool_stats: statistics_env "numeric_env bool_ops h" bool_cluster.cluster_describes for h
  by (rule numeric_statistics_env) unfold_locales

interpretation uint_stats: statistics_env
  "numeric_env (unsigned_ops :: ('w::len word, 'w word) cluster_ops) h" uint_cluster.cluster_describes
  for h
  by (rule numeric_statistics_env) unfold_locales

interpretation int8_stats: statistics_env
  "numeric_env (signed_ops :: (8 word, 8 word) cluster_ops) h" int8_cluster.cluster_describes for h
  by (rule numeric_statistics_env) unfold_locales

interpretation int16_stats: statistics_env
  "numeric_env (signed_ops :: (16 word, 16 word) cluster_ops) h" int16_cluster.cluster_describes for h
  by (rule numeric_statistics_env) unfold_locales

interpretation int32_stats: statistics_env
  "numeric_env (signed_ops :: (32 word, 32 word) cluster_ops) h" int32_cluster.cluster_describes for h
  by (rule numeric_statistics_env) unfold_locales

interpretation int64_stats: statistics_env
  "numeric_env (signed_ops :: (64 word, 64 word) cluster_ops) h" int64_cluster.cluster_describes for h
  by (rule numeric_statistics_env) unfold_locales

interpretation int128_stats: statistics_env
  "numeric_env (signed_ops :: (128 word, 128 word) cluster_ops) h" int128_cluster.cluster_describes for h
  by (rule numeric_statistics_env) unfold_locales

interpretation float_stats: statistics_env "numeric_env float_ops h" float_cluster.cluster_describes for h
  by (rule numeric_statistics_env) unfold_locales

interpretation double_stats: statistics_env "numeric_env double_ops h" double_cluster.cluster_describes
  for h
  by (rule numeric_statistics_env) unfold_locales

lemma string_env_simps [simp]:
  "e_ops (string_env h) = string_ops" "e_cluster_construct (string_env h) = string_construct"
  "e_cluster_query (string_env h) = string_Query" "e_cluster_range (string_env h) = string_QueryRange"
  "e_hash (string_env h) = h"
  by (simp_all add: string_env_def)

lemma numeric_env_simps [simp]:
  "e_ops (numeric_env ops h) = value_ops.truncate ops"
  "e_cluster_construct (numeric_env ops h) = cluster_construct ops"
  "e_cluster_query (numeric_env ops h) = cluster_Query ops"
  "e_cluster_range (numeric_env ops h) = cluster_QueryRange ops"
  "e_hash (numeric_env ops h) = h"
  by (simp_all add: numeric_env_def)

interpretation string_stats: statistics_env "string_env h" string_describes for h
  by (intro statistics_env.intro statistics_env_axioms.intro)
    (simp_all add: string_order.duck_order_axioms string_cluster.additional_stats_axioms
      string_construct_describes)

end
