(* ===== verification/Values.thy ===== *)
theory Values
  imports AdditionalStats
begin

text \<open>
  Values (\<open>common/types/value.hpp\<close>, \<open>common/types/value.cpp\<close>): a logical type, a NULL flag,
  the 128-bit union of the constant-size representations, the string and the children of
  the other ones. \<open>GetValueUnsafe<T>\<close> reads the union at the width of \<open>T\<close>, whatever the type.
\<close>

datatype Value =
  Value (v_type: LogicalType) (v_is_null: bool) (v_bits: "128 word") (v_string: bytes)
    (v_children: "Value list")

subsection \<open>Reading a value\<close>

definition GetValue_bool :: "Value \<Rightarrow> bool" where
  "GetValue_bool v = ((ucast (v_bits v) :: 8 word) \<noteq> 0)"

definition GetValue_int8 :: "Value \<Rightarrow> 8 word" where
  "GetValue_int8 v = ucast (v_bits v)"

definition GetValue_int16 :: "Value \<Rightarrow> 16 word" where
  "GetValue_int16 v = ucast (v_bits v)"

definition GetValue_int32 :: "Value \<Rightarrow> 32 word" where
  "GetValue_int32 v = ucast (v_bits v)"

definition GetValue_int64 :: "Value \<Rightarrow> 64 word" where
  "GetValue_int64 v = ucast (v_bits v)"

definition GetValue_hugeint :: "Value \<Rightarrow> 128 word" where
  "GetValue_hugeint v = v_bits v"

definition GetValue_uint8 :: "Value \<Rightarrow> 8 word" where
  "GetValue_uint8 v = ucast (v_bits v)"

definition GetValue_uint16 :: "Value \<Rightarrow> 16 word" where
  "GetValue_uint16 v = ucast (v_bits v)"

definition GetValue_uint32 :: "Value \<Rightarrow> 32 word" where
  "GetValue_uint32 v = ucast (v_bits v)"

definition GetValue_uint64 :: "Value \<Rightarrow> 64 word" where
  "GetValue_uint64 v = ucast (v_bits v)"

definition GetValue_uhugeint :: "Value \<Rightarrow> 128 word" where
  "GetValue_uhugeint v = v_bits v"

definition GetValue_float :: "Value \<Rightarrow> 32 word" where
  "GetValue_float v = ucast (v_bits v)"

definition GetValue_double :: "Value \<Rightarrow> 64 word" where
  "GetValue_double v = ucast (v_bits v)"

text \<open>\<open>StringValue::Get\<close> throws on NULL.\<close>

definition StringValue_Get :: "Value \<Rightarrow> bytes result" where
  "StringValue_Get v = (if v_is_null v then Inl InternalException else Inr (v_string v))"

subsection \<open>Comparing two values of one physical type\<close>

text \<open>
  What \<open>left cmp right\<close> means for two values of the physical type \<open>t\<close>; types without a
  pushed-down comparison have no instance.
\<close>

definition typed_holds :: "PhysicalType \<Rightarrow> ExpressionType \<Rightarrow> Value \<Rightarrow> Value \<Rightarrow> bool option" where
  "typed_holds t cmp v c =
     (case t of
        PT_BOOL \<Rightarrow> Some (compare_holds bool_ops cmp (GetValue_bool v) (GetValue_bool c))
      | PT_INT8 \<Rightarrow> Some (compare_holds signed_ops cmp (GetValue_int8 v) (GetValue_int8 c))
      | PT_INT16 \<Rightarrow> Some (compare_holds signed_ops cmp (GetValue_int16 v) (GetValue_int16 c))
      | PT_INT32 \<Rightarrow> Some (compare_holds signed_ops cmp (GetValue_int32 v) (GetValue_int32 c))
      | PT_INT64 \<Rightarrow> Some (compare_holds signed_ops cmp (GetValue_int64 v) (GetValue_int64 c))
      | PT_INT128 \<Rightarrow> Some (compare_holds signed_ops cmp (GetValue_hugeint v) (GetValue_hugeint c))
      | PT_UINT8 \<Rightarrow> Some (compare_holds unsigned_ops cmp (GetValue_uint8 v) (GetValue_uint8 c))
      | PT_UINT16 \<Rightarrow> Some (compare_holds unsigned_ops cmp (GetValue_uint16 v) (GetValue_uint16 c))
      | PT_UINT32 \<Rightarrow> Some (compare_holds unsigned_ops cmp (GetValue_uint32 v) (GetValue_uint32 c))
      | PT_UINT64 \<Rightarrow> Some (compare_holds unsigned_ops cmp (GetValue_uint64 v) (GetValue_uint64 c))
      | PT_UINT128 \<Rightarrow> Some (compare_holds unsigned_ops cmp (GetValue_uhugeint v) (GetValue_uhugeint c))
      | PT_FLOAT \<Rightarrow> Some (compare_holds float_ops cmp (GetValue_float v) (GetValue_float c))
      | PT_DOUBLE \<Rightarrow> Some (compare_holds double_ops cmp (GetValue_double v) (GetValue_double c))
      | PT_VARCHAR \<Rightarrow> Some (compare_holds string_ops cmp (v_string v) (v_string c))
      | _ \<Rightarrow> None)"

end
