(* ===== verification/TypedStats.thy ===== *)
theory TypedStats
  imports StatsSet Values
begin

text \<open>
  The typed side of the statistics (\<open>storage/table/column_data.hpp\<close>): the untyped pointer
  \<open>additional_stats\<close>, the switch over the physical type that recovers its type, and the
  temporary vectors the values are collected in before a statistic is built from them.
\<close>

subsection \<open>The untyped pointer\<close>

text \<open>
  What \<open>additional_stats\<close> points to, one constructor per value type. Using the pointer at
  another type than its own is \<open>TypeConfusion\<close>.
\<close>

datatype stats_ptr =
    BoolStats "(bool, bool) additional_stat"
  | Int8Stats "(8 word, 8 word) additional_stat"
  | Int16Stats "(16 word, 16 word) additional_stat"
  | Int32Stats "(32 word, 32 word) additional_stat"
  | Int64Stats "(64 word, 64 word) additional_stat"
  | Int128Stats "(128 word, 128 word) additional_stat"
  | UInt8Stats "(8 word, 8 word) additional_stat"
  | UInt16Stats "(16 word, 16 word) additional_stat"
  | UInt32Stats "(32 word, 32 word) additional_stat"
  | UInt64Stats "(64 word, 64 word) additional_stat"
  | UInt128Stats "(128 word, 128 word) additional_stat"
  | FloatStats "(32 word, 32 word) additional_stat"
  | DoubleStats "(64 word, 64 word) additional_stat"
  | StringStats "(bytes, data_array) additional_stat"

text \<open>The standard hash of every value type, parameters of the model.\<close>

record hashes =
  h_bool :: "bool \<Rightarrow> 64 word"
  h_int8 :: "8 word \<Rightarrow> 64 word"
  h_int16 :: "16 word \<Rightarrow> 64 word"
  h_int32 :: "32 word \<Rightarrow> 64 word"
  h_int64 :: "64 word \<Rightarrow> 64 word"
  h_hugeint :: "128 word \<Rightarrow> 64 word"
  h_uint8 :: "8 word \<Rightarrow> 64 word"
  h_uint16 :: "16 word \<Rightarrow> 64 word"
  h_uint32 :: "32 word \<Rightarrow> 64 word"
  h_uint64 :: "64 word \<Rightarrow> 64 word"
  h_uhugeint :: "128 word \<Rightarrow> 64 word"
  h_float :: "32 word \<Rightarrow> 64 word"
  h_double :: "64 word \<Rightarrow> 64 word"
  h_string :: "bytes \<Rightarrow> 64 word"

subsection \<open>QueryAdditionalStats and RangeQueryAdditionalStats\<close>

text \<open>The template: a null pointer prunes nothing, another one is asked at type \<open>T\<close>.\<close>

definition QueryAdditionalStats ::
  "hashes \<Rightarrow> stats_ptr option \<Rightarrow> ExpressionType \<Rightarrow> PhysicalType \<Rightarrow> Value \<Rightarrow>
   FilterPropagateResult result" where
  "QueryAdditionalStats hs ptr comparison_type type constant =
     (case type of
        PT_BOOL \<Rightarrow> (case ptr of None \<Rightarrow> Inr NO_PRUNING_POSSIBLE
          | Some (BoolStats s) \<Rightarrow> StatisticsSet_Query (numeric_env bool_ops (h_bool hs)) s comparison_type (GetValue_bool constant)
          | _ \<Rightarrow> Inl TypeConfusion)
      | PT_INT8 \<Rightarrow> (case ptr of None \<Rightarrow> Inr NO_PRUNING_POSSIBLE
          | Some (Int8Stats s) \<Rightarrow> StatisticsSet_Query (numeric_env signed_ops (h_int8 hs)) s comparison_type (GetValue_int8 constant)
          | _ \<Rightarrow> Inl TypeConfusion)
      | PT_INT16 \<Rightarrow> (case ptr of None \<Rightarrow> Inr NO_PRUNING_POSSIBLE
          | Some (Int16Stats s) \<Rightarrow> StatisticsSet_Query (numeric_env signed_ops (h_int16 hs)) s comparison_type (GetValue_int16 constant)
          | _ \<Rightarrow> Inl TypeConfusion)
      | PT_INT32 \<Rightarrow> (case ptr of None \<Rightarrow> Inr NO_PRUNING_POSSIBLE
          | Some (Int32Stats s) \<Rightarrow> StatisticsSet_Query (numeric_env signed_ops (h_int32 hs)) s comparison_type (GetValue_int32 constant)
          | _ \<Rightarrow> Inl TypeConfusion)
      | PT_INT64 \<Rightarrow> (case ptr of None \<Rightarrow> Inr NO_PRUNING_POSSIBLE
          | Some (Int64Stats s) \<Rightarrow> StatisticsSet_Query (numeric_env signed_ops (h_int64 hs)) s comparison_type (GetValue_int64 constant)
          | _ \<Rightarrow> Inl TypeConfusion)
      | PT_INT128 \<Rightarrow> (case ptr of None \<Rightarrow> Inr NO_PRUNING_POSSIBLE
          | Some (Int128Stats s) \<Rightarrow> StatisticsSet_Query (numeric_env signed_ops (h_hugeint hs)) s comparison_type (GetValue_hugeint constant)
          | _ \<Rightarrow> Inl TypeConfusion)
      | PT_UINT8 \<Rightarrow> (case ptr of None \<Rightarrow> Inr NO_PRUNING_POSSIBLE
          | Some (UInt8Stats s) \<Rightarrow> StatisticsSet_Query (numeric_env unsigned_ops (h_uint8 hs)) s comparison_type (GetValue_uint8 constant)
          | _ \<Rightarrow> Inl TypeConfusion)
      | PT_UINT16 \<Rightarrow> (case ptr of None \<Rightarrow> Inr NO_PRUNING_POSSIBLE
          | Some (UInt16Stats s) \<Rightarrow> StatisticsSet_Query (numeric_env unsigned_ops (h_uint16 hs)) s comparison_type (GetValue_uint16 constant)
          | _ \<Rightarrow> Inl TypeConfusion)
      | PT_UINT32 \<Rightarrow> (case ptr of None \<Rightarrow> Inr NO_PRUNING_POSSIBLE
          | Some (UInt32Stats s) \<Rightarrow> StatisticsSet_Query (numeric_env unsigned_ops (h_uint32 hs)) s comparison_type (GetValue_uint32 constant)
          | _ \<Rightarrow> Inl TypeConfusion)
      | PT_UINT64 \<Rightarrow> (case ptr of None \<Rightarrow> Inr NO_PRUNING_POSSIBLE
          | Some (UInt64Stats s) \<Rightarrow> StatisticsSet_Query (numeric_env unsigned_ops (h_uint64 hs)) s comparison_type (GetValue_uint64 constant)
          | _ \<Rightarrow> Inl TypeConfusion)
      | PT_UINT128 \<Rightarrow> (case ptr of None \<Rightarrow> Inr NO_PRUNING_POSSIBLE
          | Some (UInt128Stats s) \<Rightarrow> StatisticsSet_Query (numeric_env unsigned_ops (h_uhugeint hs)) s comparison_type (GetValue_uhugeint constant)
          | _ \<Rightarrow> Inl TypeConfusion)
      | PT_FLOAT \<Rightarrow> (case ptr of None \<Rightarrow> Inr NO_PRUNING_POSSIBLE
          | Some (FloatStats s) \<Rightarrow> StatisticsSet_Query (numeric_env float_ops (h_float hs)) s comparison_type (GetValue_float constant)
          | _ \<Rightarrow> Inl TypeConfusion)
      | PT_DOUBLE \<Rightarrow> (case ptr of None \<Rightarrow> Inr NO_PRUNING_POSSIBLE
          | Some (DoubleStats s) \<Rightarrow> StatisticsSet_Query (numeric_env double_ops (h_double hs)) s comparison_type (GetValue_double constant)
          | _ \<Rightarrow> Inl TypeConfusion)
      | PT_VARCHAR \<Rightarrow> bind_result (StringValue_Get constant) (\<lambda>constant.
          case ptr of None \<Rightarrow> Inr NO_PRUNING_POSSIBLE
          | Some (StringStats s) \<Rightarrow> StatisticsSet_Query (string_env (h_string hs)) s comparison_type constant
          | _ \<Rightarrow> Inl TypeConfusion)
      | _ \<Rightarrow> Inl InternalException)"

definition RangeQueryAdditionalStats ::
  "hashes \<Rightarrow> stats_ptr option \<Rightarrow> PhysicalType \<Rightarrow> Value \<Rightarrow> Value \<Rightarrow> FilterPropagateResult result" where
  "RangeQueryAdditionalStats hs ptr type lower upper =
     (case type of
        PT_BOOL \<Rightarrow> (case ptr of None \<Rightarrow> Inr NO_PRUNING_POSSIBLE
          | Some (BoolStats s) \<Rightarrow> StatisticsSet_QueryRange (numeric_env bool_ops (h_bool hs)) s (GetValue_bool lower) (GetValue_bool upper)
          | _ \<Rightarrow> Inl TypeConfusion)
      | PT_INT8 \<Rightarrow> (case ptr of None \<Rightarrow> Inr NO_PRUNING_POSSIBLE
          | Some (Int8Stats s) \<Rightarrow> StatisticsSet_QueryRange (numeric_env signed_ops (h_int8 hs)) s (GetValue_int8 lower) (GetValue_int8 upper)
          | _ \<Rightarrow> Inl TypeConfusion)
      | PT_INT16 \<Rightarrow> (case ptr of None \<Rightarrow> Inr NO_PRUNING_POSSIBLE
          | Some (Int16Stats s) \<Rightarrow> StatisticsSet_QueryRange (numeric_env signed_ops (h_int16 hs)) s (GetValue_int16 lower) (GetValue_int16 upper)
          | _ \<Rightarrow> Inl TypeConfusion)
      | PT_INT32 \<Rightarrow> (case ptr of None \<Rightarrow> Inr NO_PRUNING_POSSIBLE
          | Some (Int32Stats s) \<Rightarrow> StatisticsSet_QueryRange (numeric_env signed_ops (h_int32 hs)) s (GetValue_int32 lower) (GetValue_int32 upper)
          | _ \<Rightarrow> Inl TypeConfusion)
      | PT_INT64 \<Rightarrow> (case ptr of None \<Rightarrow> Inr NO_PRUNING_POSSIBLE
          | Some (Int64Stats s) \<Rightarrow> StatisticsSet_QueryRange (numeric_env signed_ops (h_int64 hs)) s (GetValue_int64 lower) (GetValue_int64 upper)
          | _ \<Rightarrow> Inl TypeConfusion)
      | PT_INT128 \<Rightarrow> (case ptr of None \<Rightarrow> Inr NO_PRUNING_POSSIBLE
          | Some (Int128Stats s) \<Rightarrow> StatisticsSet_QueryRange (numeric_env signed_ops (h_hugeint hs)) s (GetValue_hugeint lower) (GetValue_hugeint upper)
          | _ \<Rightarrow> Inl TypeConfusion)
      | PT_UINT8 \<Rightarrow> (case ptr of None \<Rightarrow> Inr NO_PRUNING_POSSIBLE
          | Some (UInt8Stats s) \<Rightarrow> StatisticsSet_QueryRange (numeric_env unsigned_ops (h_uint8 hs)) s (GetValue_uint8 lower) (GetValue_uint8 upper)
          | _ \<Rightarrow> Inl TypeConfusion)
      | PT_UINT16 \<Rightarrow> (case ptr of None \<Rightarrow> Inr NO_PRUNING_POSSIBLE
          | Some (UInt16Stats s) \<Rightarrow> StatisticsSet_QueryRange (numeric_env unsigned_ops (h_uint16 hs)) s (GetValue_uint16 lower) (GetValue_uint16 upper)
          | _ \<Rightarrow> Inl TypeConfusion)
      | PT_UINT32 \<Rightarrow> (case ptr of None \<Rightarrow> Inr NO_PRUNING_POSSIBLE
          | Some (UInt32Stats s) \<Rightarrow> StatisticsSet_QueryRange (numeric_env unsigned_ops (h_uint32 hs)) s (GetValue_uint32 lower) (GetValue_uint32 upper)
          | _ \<Rightarrow> Inl TypeConfusion)
      | PT_UINT64 \<Rightarrow> (case ptr of None \<Rightarrow> Inr NO_PRUNING_POSSIBLE
          | Some (UInt64Stats s) \<Rightarrow> StatisticsSet_QueryRange (numeric_env unsigned_ops (h_uint64 hs)) s (GetValue_uint64 lower) (GetValue_uint64 upper)
          | _ \<Rightarrow> Inl TypeConfusion)
      | PT_UINT128 \<Rightarrow> (case ptr of None \<Rightarrow> Inr NO_PRUNING_POSSIBLE
          | Some (UInt128Stats s) \<Rightarrow> StatisticsSet_QueryRange (numeric_env unsigned_ops (h_uhugeint hs)) s (GetValue_uhugeint lower) (GetValue_uhugeint upper)
          | _ \<Rightarrow> Inl TypeConfusion)
      | PT_FLOAT \<Rightarrow> (case ptr of None \<Rightarrow> Inr NO_PRUNING_POSSIBLE
          | Some (FloatStats s) \<Rightarrow> StatisticsSet_QueryRange (numeric_env float_ops (h_float hs)) s (GetValue_float lower) (GetValue_float upper)
          | _ \<Rightarrow> Inl TypeConfusion)
      | PT_DOUBLE \<Rightarrow> (case ptr of None \<Rightarrow> Inr NO_PRUNING_POSSIBLE
          | Some (DoubleStats s) \<Rightarrow> StatisticsSet_QueryRange (numeric_env double_ops (h_double hs)) s (GetValue_double lower) (GetValue_double upper)
          | _ \<Rightarrow> Inl TypeConfusion)
      | PT_VARCHAR \<Rightarrow> bind_result (StringValue_Get lower) (\<lambda>lower. bind_result (StringValue_Get upper) (\<lambda>upper.
          case ptr of None \<Rightarrow> Inr NO_PRUNING_POSSIBLE
          | Some (StringStats s) \<Rightarrow> StatisticsSet_QueryRange (string_env (h_string hs)) s lower upper
          | _ \<Rightarrow> Inl TypeConfusion))
      | _ \<Rightarrow> Inl InternalException)"

subsection \<open>Collecting values\<close>

text \<open>
  The temporary vectors of one column: the maps \<open><type>_temp_vectors\<close> restricted to the key
  \<open>this\<close>, where a missing entry reads as the empty vector.
\<close>

record temp_vectors =
  tmp_bool :: "bool list"
  tmp_int8 :: "8 word list"
  tmp_int16 :: "16 word list"
  tmp_int32 :: "32 word list"
  tmp_int64 :: "64 word list"
  tmp_hugeint :: "128 word list"
  tmp_uint8 :: "8 word list"
  tmp_uint16 :: "16 word list"
  tmp_uint32 :: "32 word list"
  tmp_uint64 :: "64 word list"
  tmp_uhugeint :: "128 word list"
  tmp_float :: "32 word list"
  tmp_double :: "64 word list"
  tmp_string :: "bytes list"

definition no_temp_vectors :: temp_vectors where
  "no_temp_vectors =
     \<lparr>tmp_bool = [], tmp_int8 = [], tmp_int16 = [], tmp_int32 = [],
      tmp_int64 = [], tmp_hugeint = [], tmp_uint8 = [], tmp_uint16 = [],
      tmp_uint32 = [], tmp_uint64 = [], tmp_uhugeint = [], tmp_float = [],
      tmp_double = [], tmp_string = []\<rparr>"

text \<open>
  The vector format: the physical values, the selection and the validity mask. Without any
  NULL the mask is not consulted.
\<close>

record unified_format =
  u_data :: "Value list"
  u_sel :: "nat \<Rightarrow> nat"
  u_all_valid :: bool
  u_valid :: "nat \<Rightarrow> bool"

definition AppendTemp_values :: "unified_format \<Rightarrow> nat \<Rightarrow> nat \<Rightarrow> Value list" where
  "AppendTemp_values adata offset append_count =
     (if \<not> u_all_valid adata
      then map (\<lambda>i. u_data adata ! u_sel adata (offset + i))
             [i \<leftarrow> [0..<append_count]. u_valid adata (u_sel adata (offset + i))]
      else map (\<lambda>i. u_data adata ! u_sel adata (offset + i)) [0..<append_count])"

definition AppendTemp ::
  "PhysicalType \<Rightarrow> unified_format \<Rightarrow> nat \<Rightarrow> nat \<Rightarrow> temp_vectors \<Rightarrow> temp_vectors" where
  "AppendTemp type vdata offset copied_elements tmp =
     (let vals = AppendTemp_values vdata offset copied_elements
      in case type of
           PT_BOOL \<Rightarrow> tmp\<lparr>tmp_bool := tmp_bool tmp @ map GetValue_bool vals\<rparr>
         | PT_INT8 \<Rightarrow> tmp\<lparr>tmp_int8 := tmp_int8 tmp @ map GetValue_int8 vals\<rparr>
         | PT_INT16 \<Rightarrow> tmp\<lparr>tmp_int16 := tmp_int16 tmp @ map GetValue_int16 vals\<rparr>
         | PT_INT32 \<Rightarrow> tmp\<lparr>tmp_int32 := tmp_int32 tmp @ map GetValue_int32 vals\<rparr>
         | PT_INT64 \<Rightarrow> tmp\<lparr>tmp_int64 := tmp_int64 tmp @ map GetValue_int64 vals\<rparr>
         | PT_INT128 \<Rightarrow> tmp\<lparr>tmp_hugeint := tmp_hugeint tmp @ map GetValue_hugeint vals\<rparr>
         | PT_UINT8 \<Rightarrow> tmp\<lparr>tmp_uint8 := tmp_uint8 tmp @ map GetValue_uint8 vals\<rparr>
         | PT_UINT16 \<Rightarrow> tmp\<lparr>tmp_uint16 := tmp_uint16 tmp @ map GetValue_uint16 vals\<rparr>
         | PT_UINT32 \<Rightarrow> tmp\<lparr>tmp_uint32 := tmp_uint32 tmp @ map GetValue_uint32 vals\<rparr>
         | PT_UINT64 \<Rightarrow> tmp\<lparr>tmp_uint64 := tmp_uint64 tmp @ map GetValue_uint64 vals\<rparr>
         | PT_UINT128 \<Rightarrow> tmp\<lparr>tmp_uhugeint := tmp_uhugeint tmp @ map GetValue_uhugeint vals\<rparr>
         | PT_FLOAT \<Rightarrow> tmp\<lparr>tmp_float := tmp_float tmp @ map GetValue_float vals\<rparr>
         | PT_DOUBLE \<Rightarrow> tmp\<lparr>tmp_double := tmp_double tmp @ map GetValue_double vals\<rparr>
         | PT_VARCHAR \<Rightarrow> tmp\<lparr>tmp_string := tmp_string tmp @ map v_string vals\<rparr>
         | _ \<Rightarrow> tmp)"

subsection \<open>Building a statistic\<close>

text \<open>
  \<open>InitStats\<close>: unless the statistics of the column were invalidated, the values collected so
  far become a statistic of the configured type; the vector is dropped in any case.
\<close>

record stats_config =
  c_mapping :: stat_mapping
  c_default_type :: STATISTIC_TYPE

definition InitAdditionalStats ::
  "('v, 'c) stat_env \<Rightarrow> stats_config \<Rightarrow> bool \<Rightarrow> 'v list \<Rightarrow> string \<Rightarrow> nat \<Rightarrow> nat \<Rightarrow>
   (('v, 'c) additional_stat \<Rightarrow> stats_ptr) \<Rightarrow> stats_ptr option \<Rightarrow> stats_ptr option result" where
  "InitAdditionalStats env conf invalidated temp_storage table_name index column wrap ptr =
     (if invalidated then Inr ptr
      else bind_result
             (StatisticsSet_construct env (c_mapping conf) (c_default_type conf) temp_storage
                table_name index column)
             (\<lambda>st. Inr (map_option wrap st)))"

definition InitStats_ptr ::
  "hashes \<Rightarrow> stats_config \<Rightarrow> bool \<Rightarrow> temp_vectors \<Rightarrow> PhysicalType \<Rightarrow> string \<Rightarrow> nat \<Rightarrow> nat \<Rightarrow>
   stats_ptr option \<Rightarrow> stats_ptr option result" where
  "InitStats_ptr hs conf invalidated tmp type table_name index column ptr =
     (case type of
        PT_BOOL \<Rightarrow> InitAdditionalStats (numeric_env bool_ops (h_bool hs)) conf invalidated (tmp_bool tmp)
          table_name index column BoolStats ptr
      | PT_INT8 \<Rightarrow> InitAdditionalStats (numeric_env signed_ops (h_int8 hs)) conf invalidated (tmp_int8 tmp)
          table_name index column Int8Stats ptr
      | PT_INT16 \<Rightarrow> InitAdditionalStats (numeric_env signed_ops (h_int16 hs)) conf invalidated (tmp_int16 tmp)
          table_name index column Int16Stats ptr
      | PT_INT32 \<Rightarrow> InitAdditionalStats (numeric_env signed_ops (h_int32 hs)) conf invalidated (tmp_int32 tmp)
          table_name index column Int32Stats ptr
      | PT_INT64 \<Rightarrow> InitAdditionalStats (numeric_env signed_ops (h_int64 hs)) conf invalidated (tmp_int64 tmp)
          table_name index column Int64Stats ptr
      | PT_INT128 \<Rightarrow> InitAdditionalStats (numeric_env signed_ops (h_hugeint hs)) conf invalidated (tmp_hugeint tmp)
          table_name index column Int128Stats ptr
      | PT_UINT8 \<Rightarrow> InitAdditionalStats (numeric_env unsigned_ops (h_uint8 hs)) conf invalidated (tmp_uint8 tmp)
          table_name index column UInt8Stats ptr
      | PT_UINT16 \<Rightarrow> InitAdditionalStats (numeric_env unsigned_ops (h_uint16 hs)) conf invalidated (tmp_uint16 tmp)
          table_name index column UInt16Stats ptr
      | PT_UINT32 \<Rightarrow> InitAdditionalStats (numeric_env unsigned_ops (h_uint32 hs)) conf invalidated (tmp_uint32 tmp)
          table_name index column UInt32Stats ptr
      | PT_UINT64 \<Rightarrow> InitAdditionalStats (numeric_env unsigned_ops (h_uint64 hs)) conf invalidated (tmp_uint64 tmp)
          table_name index column UInt64Stats ptr
      | PT_UINT128 \<Rightarrow> InitAdditionalStats (numeric_env unsigned_ops (h_uhugeint hs)) conf invalidated (tmp_uhugeint tmp)
          table_name index column UInt128Stats ptr
      | PT_FLOAT \<Rightarrow> InitAdditionalStats (numeric_env float_ops (h_float hs)) conf invalidated (tmp_float tmp)
          table_name index column FloatStats ptr
      | PT_DOUBLE \<Rightarrow> InitAdditionalStats (numeric_env double_ops (h_double hs)) conf invalidated (tmp_double tmp)
          table_name index column DoubleStats ptr
      | PT_VARCHAR \<Rightarrow> InitAdditionalStats (string_env (h_string hs)) conf invalidated (tmp_string tmp)
          table_name index column StringStats ptr
      | _ \<Rightarrow> Inr ptr)"

definition clear_temp :: "PhysicalType \<Rightarrow> temp_vectors \<Rightarrow> temp_vectors" where
  "clear_temp type tmp =
     (case type of
        PT_BOOL \<Rightarrow> tmp\<lparr>tmp_bool := []\<rparr>
      | PT_INT8 \<Rightarrow> tmp\<lparr>tmp_int8 := []\<rparr>
      | PT_INT16 \<Rightarrow> tmp\<lparr>tmp_int16 := []\<rparr>
      | PT_INT32 \<Rightarrow> tmp\<lparr>tmp_int32 := []\<rparr>
      | PT_INT64 \<Rightarrow> tmp\<lparr>tmp_int64 := []\<rparr>
      | PT_INT128 \<Rightarrow> tmp\<lparr>tmp_hugeint := []\<rparr>
      | PT_UINT8 \<Rightarrow> tmp\<lparr>tmp_uint8 := []\<rparr>
      | PT_UINT16 \<Rightarrow> tmp\<lparr>tmp_uint16 := []\<rparr>
      | PT_UINT32 \<Rightarrow> tmp\<lparr>tmp_uint32 := []\<rparr>
      | PT_UINT64 \<Rightarrow> tmp\<lparr>tmp_uint64 := []\<rparr>
      | PT_UINT128 \<Rightarrow> tmp\<lparr>tmp_uhugeint := []\<rparr>
      | PT_FLOAT \<Rightarrow> tmp\<lparr>tmp_float := []\<rparr>
      | PT_DOUBLE \<Rightarrow> tmp\<lparr>tmp_double := []\<rparr>
      | PT_VARCHAR \<Rightarrow> tmp\<lparr>tmp_string := []\<rparr>
      | _ \<Rightarrow> tmp)"

text \<open>\<open>GetAdditionalStatsSize\<close>, over the sizes of the objects.\<close>

definition typed_size ::
  "(STATISTIC_TYPE \<Rightarrow> nat) \<Rightarrow> nat \<Rightarrow> nat \<Rightarrow> ('v, 'c) additional_stat \<Rightarrow> nat result" where
  "typed_size object_size bucket_count value_size s =
     StatisticsSet_Size object_size (\<lambda>_. bucket_count) value_size s"

definition GetAdditionalStatsSize ::
  "(PhysicalType \<Rightarrow> STATISTIC_TYPE \<Rightarrow> nat) \<Rightarrow> nat \<Rightarrow> stats_ptr option \<Rightarrow> PhysicalType \<Rightarrow> nat result" where
  "GetAdditionalStatsSize object_size bucket_count ptr type =
     (case type of
        PT_BOOL \<Rightarrow> (case ptr of None \<Rightarrow> Inr 0
          | Some (BoolStats s) \<Rightarrow> typed_size (object_size PT_BOOL) bucket_count 1 s
          | _ \<Rightarrow> Inl TypeConfusion)
      | PT_INT8 \<Rightarrow> (case ptr of None \<Rightarrow> Inr 0
          | Some (Int8Stats s) \<Rightarrow> typed_size (object_size PT_INT8) bucket_count 1 s
          | _ \<Rightarrow> Inl TypeConfusion)
      | PT_INT16 \<Rightarrow> (case ptr of None \<Rightarrow> Inr 0
          | Some (Int16Stats s) \<Rightarrow> typed_size (object_size PT_INT16) bucket_count 2 s
          | _ \<Rightarrow> Inl TypeConfusion)
      | PT_INT32 \<Rightarrow> (case ptr of None \<Rightarrow> Inr 0
          | Some (Int32Stats s) \<Rightarrow> typed_size (object_size PT_INT32) bucket_count 4 s
          | _ \<Rightarrow> Inl TypeConfusion)
      | PT_INT64 \<Rightarrow> (case ptr of None \<Rightarrow> Inr 0
          | Some (Int64Stats s) \<Rightarrow> typed_size (object_size PT_INT64) bucket_count 8 s
          | _ \<Rightarrow> Inl TypeConfusion)
      | PT_INT128 \<Rightarrow> (case ptr of None \<Rightarrow> Inr 0
          | Some (Int128Stats s) \<Rightarrow> typed_size (object_size PT_INT128) bucket_count 16 s
          | _ \<Rightarrow> Inl TypeConfusion)
      | PT_UINT8 \<Rightarrow> (case ptr of None \<Rightarrow> Inr 0
          | Some (UInt8Stats s) \<Rightarrow> typed_size (object_size PT_UINT8) bucket_count 1 s
          | _ \<Rightarrow> Inl TypeConfusion)
      | PT_UINT16 \<Rightarrow> (case ptr of None \<Rightarrow> Inr 0
          | Some (UInt16Stats s) \<Rightarrow> typed_size (object_size PT_UINT16) bucket_count 2 s
          | _ \<Rightarrow> Inl TypeConfusion)
      | PT_UINT32 \<Rightarrow> (case ptr of None \<Rightarrow> Inr 0
          | Some (UInt32Stats s) \<Rightarrow> typed_size (object_size PT_UINT32) bucket_count 4 s
          | _ \<Rightarrow> Inl TypeConfusion)
      | PT_UINT64 \<Rightarrow> (case ptr of None \<Rightarrow> Inr 0
          | Some (UInt64Stats s) \<Rightarrow> typed_size (object_size PT_UINT64) bucket_count 8 s
          | _ \<Rightarrow> Inl TypeConfusion)
      | PT_UINT128 \<Rightarrow> (case ptr of None \<Rightarrow> Inr 0
          | Some (UInt128Stats s) \<Rightarrow> typed_size (object_size PT_UINT128) bucket_count 16 s
          | _ \<Rightarrow> Inl TypeConfusion)
      | PT_FLOAT \<Rightarrow> (case ptr of None \<Rightarrow> Inr 0
          | Some (FloatStats s) \<Rightarrow> typed_size (object_size PT_FLOAT) bucket_count 4 s
          | _ \<Rightarrow> Inl TypeConfusion)
      | PT_DOUBLE \<Rightarrow> (case ptr of None \<Rightarrow> Inr 0
          | Some (DoubleStats s) \<Rightarrow> typed_size (object_size PT_DOUBLE) bucket_count 8 s
          | _ \<Rightarrow> Inl TypeConfusion)
      | PT_VARCHAR \<Rightarrow> (case ptr of None \<Rightarrow> Inr 0
          | Some (StringStats s) \<Rightarrow> typed_size (object_size PT_VARCHAR) bucket_count 32 s
          | _ \<Rightarrow> Inl TypeConfusion)
      | _ \<Rightarrow> Inr 0)"

subsection \<open>The typed statistic describes the collected values\<close>

text \<open>
  The pointer summarises the values \<open>vals\<close> of a column of the physical type. For floating
  point the standard hash has to agree on values that compare equal, the NaNs included.
\<close>

definition ptr_describes :: "hashes \<Rightarrow> PhysicalType \<Rightarrow> stats_ptr \<Rightarrow> Value list \<Rightarrow> bool" where
  "ptr_describes hs type ptr vals =
     (case type of
        PT_BOOL \<Rightarrow> (\<exists>s. ptr = BoolStats s \<and> bool_stats.stat_describes (h_bool hs) s (map GetValue_bool vals))
      | PT_INT8 \<Rightarrow> (\<exists>s. ptr = Int8Stats s \<and> int8_stats.stat_describes (h_int8 hs) s (map GetValue_int8 vals))
      | PT_INT16 \<Rightarrow> (\<exists>s. ptr = Int16Stats s \<and> int16_stats.stat_describes (h_int16 hs) s (map GetValue_int16 vals))
      | PT_INT32 \<Rightarrow> (\<exists>s. ptr = Int32Stats s \<and> int32_stats.stat_describes (h_int32 hs) s (map GetValue_int32 vals))
      | PT_INT64 \<Rightarrow> (\<exists>s. ptr = Int64Stats s \<and> int64_stats.stat_describes (h_int64 hs) s (map GetValue_int64 vals))
      | PT_INT128 \<Rightarrow> (\<exists>s. ptr = Int128Stats s \<and> int128_stats.stat_describes (h_hugeint hs) s (map GetValue_hugeint vals))
      | PT_UINT8 \<Rightarrow> (\<exists>s. ptr = UInt8Stats s \<and> uint_stats.stat_describes (h_uint8 hs) s (map GetValue_uint8 vals))
      | PT_UINT16 \<Rightarrow> (\<exists>s. ptr = UInt16Stats s \<and> uint_stats.stat_describes (h_uint16 hs) s (map GetValue_uint16 vals))
      | PT_UINT32 \<Rightarrow> (\<exists>s. ptr = UInt32Stats s \<and> uint_stats.stat_describes (h_uint32 hs) s (map GetValue_uint32 vals))
      | PT_UINT64 \<Rightarrow> (\<exists>s. ptr = UInt64Stats s \<and> uint_stats.stat_describes (h_uint64 hs) s (map GetValue_uint64 vals))
      | PT_UINT128 \<Rightarrow> (\<exists>s. ptr = UInt128Stats s \<and> uint_stats.stat_describes (h_uhugeint hs) s (map GetValue_uhugeint vals))
      | PT_FLOAT \<Rightarrow> (\<exists>s. ptr = FloatStats s \<and> float_stats.stat_describes (h_float hs) s (map GetValue_float vals))
      | PT_DOUBLE \<Rightarrow> (\<exists>s. ptr = DoubleStats s \<and> double_stats.stat_describes (h_double hs) s (map GetValue_double vals))
      | PT_VARCHAR \<Rightarrow> (\<exists>s. ptr = StringStats s \<and> string_stats.stat_describes (h_string hs) s (map v_string vals))
      | _ \<Rightarrow> True)"

definition hashes_respect :: "hashes \<Rightarrow> PhysicalType \<Rightarrow> Value list \<Rightarrow> bool" where
  "hashes_respect hs type vals =
     (case type of
        PT_FLOAT \<Rightarrow> hash_respects (value_ops.truncate float_ops) (h_float hs) (map GetValue_float vals)
      | PT_DOUBLE \<Rightarrow> hash_respects (value_ops.truncate double_ops) (h_double hs) (map GetValue_double vals)
      | _ \<Rightarrow> True)"

text \<open>One switch case per type, for the proofs.\<close>

lemma QueryAdditionalStats_cases:
  "QueryAdditionalStats hs (Some (BoolStats s_bool)) cmp PT_BOOL c =
     StatisticsSet_Query (numeric_env bool_ops (h_bool hs)) s_bool cmp (GetValue_bool c)"
  "QueryAdditionalStats hs (Some (Int8Stats s_int8)) cmp PT_INT8 c =
     StatisticsSet_Query (numeric_env signed_ops (h_int8 hs)) s_int8 cmp (GetValue_int8 c)"
  "QueryAdditionalStats hs (Some (Int16Stats s_int16)) cmp PT_INT16 c =
     StatisticsSet_Query (numeric_env signed_ops (h_int16 hs)) s_int16 cmp (GetValue_int16 c)"
  "QueryAdditionalStats hs (Some (Int32Stats s_int32)) cmp PT_INT32 c =
     StatisticsSet_Query (numeric_env signed_ops (h_int32 hs)) s_int32 cmp (GetValue_int32 c)"
  "QueryAdditionalStats hs (Some (Int64Stats s_int64)) cmp PT_INT64 c =
     StatisticsSet_Query (numeric_env signed_ops (h_int64 hs)) s_int64 cmp (GetValue_int64 c)"
  "QueryAdditionalStats hs (Some (Int128Stats s_hugeint)) cmp PT_INT128 c =
     StatisticsSet_Query (numeric_env signed_ops (h_hugeint hs)) s_hugeint cmp (GetValue_hugeint c)"
  "QueryAdditionalStats hs (Some (UInt8Stats s_uint8)) cmp PT_UINT8 c =
     StatisticsSet_Query (numeric_env unsigned_ops (h_uint8 hs)) s_uint8 cmp (GetValue_uint8 c)"
  "QueryAdditionalStats hs (Some (UInt16Stats s_uint16)) cmp PT_UINT16 c =
     StatisticsSet_Query (numeric_env unsigned_ops (h_uint16 hs)) s_uint16 cmp (GetValue_uint16 c)"
  "QueryAdditionalStats hs (Some (UInt32Stats s_uint32)) cmp PT_UINT32 c =
     StatisticsSet_Query (numeric_env unsigned_ops (h_uint32 hs)) s_uint32 cmp (GetValue_uint32 c)"
  "QueryAdditionalStats hs (Some (UInt64Stats s_uint64)) cmp PT_UINT64 c =
     StatisticsSet_Query (numeric_env unsigned_ops (h_uint64 hs)) s_uint64 cmp (GetValue_uint64 c)"
  "QueryAdditionalStats hs (Some (UInt128Stats s_uhugeint)) cmp PT_UINT128 c =
     StatisticsSet_Query (numeric_env unsigned_ops (h_uhugeint hs)) s_uhugeint cmp (GetValue_uhugeint c)"
  "QueryAdditionalStats hs (Some (FloatStats s_float)) cmp PT_FLOAT c =
     StatisticsSet_Query (numeric_env float_ops (h_float hs)) s_float cmp (GetValue_float c)"
  "QueryAdditionalStats hs (Some (DoubleStats s_double)) cmp PT_DOUBLE c =
     StatisticsSet_Query (numeric_env double_ops (h_double hs)) s_double cmp (GetValue_double c)"
  "QueryAdditionalStats hs (Some (StringStats s_string)) cmp PT_VARCHAR c =
     bind_result (StringValue_Get c) (StatisticsSet_Query (string_env (h_string hs)) s_string cmp)"
  by (simp_all add: QueryAdditionalStats_def)

lemma RangeQueryAdditionalStats_cases:
  "RangeQueryAdditionalStats hs (Some (BoolStats s_bool)) PT_BOOL c d =
     StatisticsSet_QueryRange (numeric_env bool_ops (h_bool hs)) s_bool (GetValue_bool c) (GetValue_bool d)"
  "RangeQueryAdditionalStats hs (Some (Int8Stats s_int8)) PT_INT8 c d =
     StatisticsSet_QueryRange (numeric_env signed_ops (h_int8 hs)) s_int8 (GetValue_int8 c) (GetValue_int8 d)"
  "RangeQueryAdditionalStats hs (Some (Int16Stats s_int16)) PT_INT16 c d =
     StatisticsSet_QueryRange (numeric_env signed_ops (h_int16 hs)) s_int16 (GetValue_int16 c) (GetValue_int16 d)"
  "RangeQueryAdditionalStats hs (Some (Int32Stats s_int32)) PT_INT32 c d =
     StatisticsSet_QueryRange (numeric_env signed_ops (h_int32 hs)) s_int32 (GetValue_int32 c) (GetValue_int32 d)"
  "RangeQueryAdditionalStats hs (Some (Int64Stats s_int64)) PT_INT64 c d =
     StatisticsSet_QueryRange (numeric_env signed_ops (h_int64 hs)) s_int64 (GetValue_int64 c) (GetValue_int64 d)"
  "RangeQueryAdditionalStats hs (Some (Int128Stats s_hugeint)) PT_INT128 c d =
     StatisticsSet_QueryRange (numeric_env signed_ops (h_hugeint hs)) s_hugeint (GetValue_hugeint c) (GetValue_hugeint d)"
  "RangeQueryAdditionalStats hs (Some (UInt8Stats s_uint8)) PT_UINT8 c d =
     StatisticsSet_QueryRange (numeric_env unsigned_ops (h_uint8 hs)) s_uint8 (GetValue_uint8 c) (GetValue_uint8 d)"
  "RangeQueryAdditionalStats hs (Some (UInt16Stats s_uint16)) PT_UINT16 c d =
     StatisticsSet_QueryRange (numeric_env unsigned_ops (h_uint16 hs)) s_uint16 (GetValue_uint16 c) (GetValue_uint16 d)"
  "RangeQueryAdditionalStats hs (Some (UInt32Stats s_uint32)) PT_UINT32 c d =
     StatisticsSet_QueryRange (numeric_env unsigned_ops (h_uint32 hs)) s_uint32 (GetValue_uint32 c) (GetValue_uint32 d)"
  "RangeQueryAdditionalStats hs (Some (UInt64Stats s_uint64)) PT_UINT64 c d =
     StatisticsSet_QueryRange (numeric_env unsigned_ops (h_uint64 hs)) s_uint64 (GetValue_uint64 c) (GetValue_uint64 d)"
  "RangeQueryAdditionalStats hs (Some (UInt128Stats s_uhugeint)) PT_UINT128 c d =
     StatisticsSet_QueryRange (numeric_env unsigned_ops (h_uhugeint hs)) s_uhugeint (GetValue_uhugeint c) (GetValue_uhugeint d)"
  "RangeQueryAdditionalStats hs (Some (FloatStats s_float)) PT_FLOAT c d =
     StatisticsSet_QueryRange (numeric_env float_ops (h_float hs)) s_float (GetValue_float c) (GetValue_float d)"
  "RangeQueryAdditionalStats hs (Some (DoubleStats s_double)) PT_DOUBLE c d =
     StatisticsSet_QueryRange (numeric_env double_ops (h_double hs)) s_double (GetValue_double c) (GetValue_double d)"
  "RangeQueryAdditionalStats hs (Some (StringStats s_string)) PT_VARCHAR c d =
     bind_result (StringValue_Get c) (\<lambda>l. bind_result (StringValue_Get d)
       (StatisticsSet_QueryRange (string_env (h_string hs)) s_string l))"
  by (simp_all add: RangeQueryAdditionalStats_def)

lemma null_ptr_query:
  "QueryAdditionalStats hs None cmp type c = Inr r \<Longrightarrow> r = NO_PRUNING_POSSIBLE"
  "RangeQueryAdditionalStats hs None type c d = Inr r \<Longrightarrow> r = NO_PRUNING_POSSIBLE"
  by (cases type; auto simp: QueryAdditionalStats_def RangeQueryAdditionalStats_def
      bind_result_Inr_iff)+

lemma typed_query_false:
  assumes "ptr_describes hs type ptr vals" "v \<in> set vals"
    "QueryAdditionalStats hs (Some ptr) cmp type c = Inr FILTER_ALWAYS_FALSE"
  shows "typed_holds type cmp v c = Some False"
proof (cases type)
  case PT_BOOL
  then show ?thesis
    using assms bool_stats.dispatch_false [of "h_bool hs" _ "map GetValue_bool vals" cmp "GetValue_bool c" "GetValue_bool v"]
    by (auto simp: ptr_describes_def QueryAdditionalStats_cases typed_holds_def)
next
  case PT_UINT8
  then show ?thesis
    using assms uint_stats.dispatch_false [of "h_uint8 hs" _ "map GetValue_uint8 vals" cmp "GetValue_uint8 c" "GetValue_uint8 v"]
    by (auto simp: ptr_describes_def QueryAdditionalStats_cases typed_holds_def)
next
  case PT_INT8
  then show ?thesis
    using assms int8_stats.dispatch_false [of "h_int8 hs" _ "map GetValue_int8 vals" cmp "GetValue_int8 c" "GetValue_int8 v"]
    by (auto simp: ptr_describes_def QueryAdditionalStats_cases typed_holds_def)
next
  case PT_UINT16
  then show ?thesis
    using assms uint_stats.dispatch_false [of "h_uint16 hs" _ "map GetValue_uint16 vals" cmp "GetValue_uint16 c" "GetValue_uint16 v"]
    by (auto simp: ptr_describes_def QueryAdditionalStats_cases typed_holds_def)
next
  case PT_INT16
  then show ?thesis
    using assms int16_stats.dispatch_false [of "h_int16 hs" _ "map GetValue_int16 vals" cmp "GetValue_int16 c" "GetValue_int16 v"]
    by (auto simp: ptr_describes_def QueryAdditionalStats_cases typed_holds_def)
next
  case PT_UINT32
  then show ?thesis
    using assms uint_stats.dispatch_false [of "h_uint32 hs" _ "map GetValue_uint32 vals" cmp "GetValue_uint32 c" "GetValue_uint32 v"]
    by (auto simp: ptr_describes_def QueryAdditionalStats_cases typed_holds_def)
next
  case PT_INT32
  then show ?thesis
    using assms int32_stats.dispatch_false [of "h_int32 hs" _ "map GetValue_int32 vals" cmp "GetValue_int32 c" "GetValue_int32 v"]
    by (auto simp: ptr_describes_def QueryAdditionalStats_cases typed_holds_def)
next
  case PT_UINT64
  then show ?thesis
    using assms uint_stats.dispatch_false [of "h_uint64 hs" _ "map GetValue_uint64 vals" cmp "GetValue_uint64 c" "GetValue_uint64 v"]
    by (auto simp: ptr_describes_def QueryAdditionalStats_cases typed_holds_def)
next
  case PT_INT64
  then show ?thesis
    using assms int64_stats.dispatch_false [of "h_int64 hs" _ "map GetValue_int64 vals" cmp "GetValue_int64 c" "GetValue_int64 v"]
    by (auto simp: ptr_describes_def QueryAdditionalStats_cases typed_holds_def)
next
  case PT_FLOAT
  then show ?thesis
    using assms float_stats.dispatch_false [of "h_float hs" _ "map GetValue_float vals" cmp "GetValue_float c" "GetValue_float v"]
    by (auto simp: ptr_describes_def QueryAdditionalStats_cases typed_holds_def)
next
  case PT_DOUBLE
  then show ?thesis
    using assms double_stats.dispatch_false [of "h_double hs" _ "map GetValue_double vals" cmp "GetValue_double c" "GetValue_double v"]
    by (auto simp: ptr_describes_def QueryAdditionalStats_cases typed_holds_def)
next
  case PT_INTERVAL
  then show ?thesis using assms(3) by (simp add: QueryAdditionalStats_def)
next
  case PT_LIST
  then show ?thesis using assms(3) by (simp add: QueryAdditionalStats_def)
next
  case PT_STRUCT
  then show ?thesis using assms(3) by (simp add: QueryAdditionalStats_def)
next
  case PT_ARRAY
  then show ?thesis using assms(3) by (simp add: QueryAdditionalStats_def)
next
  case PT_VARCHAR
  then show ?thesis
    using assms string_stats.dispatch_false [of "h_string hs" _ "map v_string vals" cmp _ "v_string v"]
    by (auto simp: ptr_describes_def QueryAdditionalStats_cases typed_holds_def bind_result_Inr_iff
        StringValue_Get_def split: if_splits)
next
  case PT_UINT128
  then show ?thesis
    using assms uint_stats.dispatch_false [of "h_uhugeint hs" _ "map GetValue_uhugeint vals" cmp "GetValue_uhugeint c" "GetValue_uhugeint v"]
    by (auto simp: ptr_describes_def QueryAdditionalStats_cases typed_holds_def)
next
  case PT_INT128
  then show ?thesis
    using assms int128_stats.dispatch_false [of "h_hugeint hs" _ "map GetValue_hugeint vals" cmp "GetValue_hugeint c" "GetValue_hugeint v"]
    by (auto simp: ptr_describes_def QueryAdditionalStats_cases typed_holds_def)
next
  case PT_UNKNOWN
  then show ?thesis using assms(3) by (simp add: QueryAdditionalStats_def)
next
  case PT_BIT
  then show ?thesis using assms(3) by (simp add: QueryAdditionalStats_def)
next
  case PT_INVALID
  then show ?thesis using assms(3) by (simp add: QueryAdditionalStats_def)
qed

lemma typed_range_false:
  assumes "ptr_describes hs type ptr vals" "v \<in> set vals"
    "RangeQueryAdditionalStats hs (Some ptr) type lo hi = Inr FILTER_ALWAYS_FALSE"
  shows "typed_holds type COMPARE_GREATERTHANOREQUALTO v lo = Some False \<or>
         typed_holds type COMPARE_LESSTHANOREQUALTO v hi = Some False"
proof (cases type)
  case PT_BOOL
  then show ?thesis
    using assms bool_stats.dispatch_range_false [of "h_bool hs" _ "map GetValue_bool vals" "GetValue_bool lo"
        "GetValue_bool hi" "GetValue_bool v"]
    by (auto simp: ptr_describes_def RangeQueryAdditionalStats_cases typed_holds_def in_closed_range_def op_le_def)
next
  case PT_UINT8
  then show ?thesis
    using assms uint_stats.dispatch_range_false [of "h_uint8 hs" _ "map GetValue_uint8 vals" "GetValue_uint8 lo"
        "GetValue_uint8 hi" "GetValue_uint8 v"]
    by (auto simp: ptr_describes_def RangeQueryAdditionalStats_cases typed_holds_def in_closed_range_def op_le_def)
next
  case PT_INT8
  then show ?thesis
    using assms int8_stats.dispatch_range_false [of "h_int8 hs" _ "map GetValue_int8 vals" "GetValue_int8 lo"
        "GetValue_int8 hi" "GetValue_int8 v"]
    by (auto simp: ptr_describes_def RangeQueryAdditionalStats_cases typed_holds_def in_closed_range_def op_le_def)
next
  case PT_UINT16
  then show ?thesis
    using assms uint_stats.dispatch_range_false [of "h_uint16 hs" _ "map GetValue_uint16 vals" "GetValue_uint16 lo"
        "GetValue_uint16 hi" "GetValue_uint16 v"]
    by (auto simp: ptr_describes_def RangeQueryAdditionalStats_cases typed_holds_def in_closed_range_def op_le_def)
next
  case PT_INT16
  then show ?thesis
    using assms int16_stats.dispatch_range_false [of "h_int16 hs" _ "map GetValue_int16 vals" "GetValue_int16 lo"
        "GetValue_int16 hi" "GetValue_int16 v"]
    by (auto simp: ptr_describes_def RangeQueryAdditionalStats_cases typed_holds_def in_closed_range_def op_le_def)
next
  case PT_UINT32
  then show ?thesis
    using assms uint_stats.dispatch_range_false [of "h_uint32 hs" _ "map GetValue_uint32 vals" "GetValue_uint32 lo"
        "GetValue_uint32 hi" "GetValue_uint32 v"]
    by (auto simp: ptr_describes_def RangeQueryAdditionalStats_cases typed_holds_def in_closed_range_def op_le_def)
next
  case PT_INT32
  then show ?thesis
    using assms int32_stats.dispatch_range_false [of "h_int32 hs" _ "map GetValue_int32 vals" "GetValue_int32 lo"
        "GetValue_int32 hi" "GetValue_int32 v"]
    by (auto simp: ptr_describes_def RangeQueryAdditionalStats_cases typed_holds_def in_closed_range_def op_le_def)
next
  case PT_UINT64
  then show ?thesis
    using assms uint_stats.dispatch_range_false [of "h_uint64 hs" _ "map GetValue_uint64 vals" "GetValue_uint64 lo"
        "GetValue_uint64 hi" "GetValue_uint64 v"]
    by (auto simp: ptr_describes_def RangeQueryAdditionalStats_cases typed_holds_def in_closed_range_def op_le_def)
next
  case PT_INT64
  then show ?thesis
    using assms int64_stats.dispatch_range_false [of "h_int64 hs" _ "map GetValue_int64 vals" "GetValue_int64 lo"
        "GetValue_int64 hi" "GetValue_int64 v"]
    by (auto simp: ptr_describes_def RangeQueryAdditionalStats_cases typed_holds_def in_closed_range_def op_le_def)
next
  case PT_FLOAT
  then show ?thesis
    using assms float_stats.dispatch_range_false [of "h_float hs" _ "map GetValue_float vals" "GetValue_float lo"
        "GetValue_float hi" "GetValue_float v"]
    by (auto simp: ptr_describes_def RangeQueryAdditionalStats_cases typed_holds_def in_closed_range_def op_le_def)
next
  case PT_DOUBLE
  then show ?thesis
    using assms double_stats.dispatch_range_false [of "h_double hs" _ "map GetValue_double vals" "GetValue_double lo"
        "GetValue_double hi" "GetValue_double v"]
    by (auto simp: ptr_describes_def RangeQueryAdditionalStats_cases typed_holds_def in_closed_range_def op_le_def)
next
  case PT_INTERVAL
  then show ?thesis using assms(3) by (simp add: RangeQueryAdditionalStats_def)
next
  case PT_LIST
  then show ?thesis using assms(3) by (simp add: RangeQueryAdditionalStats_def)
next
  case PT_STRUCT
  then show ?thesis using assms(3) by (simp add: RangeQueryAdditionalStats_def)
next
  case PT_ARRAY
  then show ?thesis using assms(3) by (simp add: RangeQueryAdditionalStats_def)
next
  case PT_VARCHAR
  then show ?thesis
    using assms string_stats.dispatch_range_false [of "h_string hs" _ "map v_string vals" _ _ "v_string v"]
    by (auto simp: ptr_describes_def RangeQueryAdditionalStats_cases typed_holds_def bind_result_Inr_iff
        StringValue_Get_def in_closed_range_def split: if_splits)
next
  case PT_UINT128
  then show ?thesis
    using assms uint_stats.dispatch_range_false [of "h_uhugeint hs" _ "map GetValue_uhugeint vals" "GetValue_uhugeint lo"
        "GetValue_uhugeint hi" "GetValue_uhugeint v"]
    by (auto simp: ptr_describes_def RangeQueryAdditionalStats_cases typed_holds_def in_closed_range_def op_le_def)
next
  case PT_INT128
  then show ?thesis
    using assms int128_stats.dispatch_range_false [of "h_hugeint hs" _ "map GetValue_hugeint vals" "GetValue_hugeint lo"
        "GetValue_hugeint hi" "GetValue_hugeint v"]
    by (auto simp: ptr_describes_def RangeQueryAdditionalStats_cases typed_holds_def in_closed_range_def op_le_def)
next
  case PT_UNKNOWN
  then show ?thesis using assms(3) by (simp add: RangeQueryAdditionalStats_def)
next
  case PT_BIT
  then show ?thesis using assms(3) by (simp add: RangeQueryAdditionalStats_def)
next
  case PT_INVALID
  then show ?thesis using assms(3) by (simp add: RangeQueryAdditionalStats_def)
qed

subsection \<open>A built statistic describes what was collected\<close>

definition supports_stats :: "PhysicalType \<Rightarrow> bool" where
  "supports_stats type = (type \<in> {PT_BOOL, PT_INT8, PT_INT16, PT_INT32, PT_INT64, PT_INT128, PT_UINT8,
     PT_UINT16, PT_UINT32, PT_UINT64, PT_UINT128, PT_FLOAT, PT_DOUBLE, PT_VARCHAR})"

definition tmp_holds :: "PhysicalType \<Rightarrow> temp_vectors \<Rightarrow> Value list \<Rightarrow> bool" where
  "tmp_holds type tmp vals =
     (case type of
        PT_BOOL \<Rightarrow> tmp_bool tmp = map GetValue_bool vals
      | PT_INT8 \<Rightarrow> tmp_int8 tmp = map GetValue_int8 vals
      | PT_INT16 \<Rightarrow> tmp_int16 tmp = map GetValue_int16 vals
      | PT_INT32 \<Rightarrow> tmp_int32 tmp = map GetValue_int32 vals
      | PT_INT64 \<Rightarrow> tmp_int64 tmp = map GetValue_int64 vals
      | PT_INT128 \<Rightarrow> tmp_hugeint tmp = map GetValue_hugeint vals
      | PT_UINT8 \<Rightarrow> tmp_uint8 tmp = map GetValue_uint8 vals
      | PT_UINT16 \<Rightarrow> tmp_uint16 tmp = map GetValue_uint16 vals
      | PT_UINT32 \<Rightarrow> tmp_uint32 tmp = map GetValue_uint32 vals
      | PT_UINT64 \<Rightarrow> tmp_uint64 tmp = map GetValue_uint64 vals
      | PT_UINT128 \<Rightarrow> tmp_uhugeint tmp = map GetValue_uhugeint vals
      | PT_FLOAT \<Rightarrow> tmp_float tmp = map GetValue_float vals
      | PT_DOUBLE \<Rightarrow> tmp_double tmp = map GetValue_double vals
      | PT_VARCHAR \<Rightarrow> tmp_string tmp = map v_string vals
      | _ \<Rightarrow> True)"

lemma tmp_holds_empty: "tmp_holds type no_temp_vectors []"
  by (cases type) (simp_all add: tmp_holds_def no_temp_vectors_def)

lemma tmp_holds_clear: "tmp_holds type (clear_temp type tmp) []"
  by (cases type) (simp_all add: tmp_holds_def clear_temp_def)

lemma AppendTemp_holds:
  "tmp_holds type tmp vals \<Longrightarrow>
   tmp_holds type (AppendTemp type vdata offset n tmp) (vals @ AppendTemp_values vdata offset n)"
  by (cases type) (simp_all add: tmp_holds_def AppendTemp_def Let_def)

lemma hash_respects_eq:
  "op_eq ops = (=) \<Longrightarrow> hash_respects ops h xs"
  by (simp add: hash_respects_def)

lemma hash_respects_exact [simp]:
  "hash_respects (value_ops.truncate (signed_ops :: ('w::len word, 'w word) cluster_ops)) hs xs"
  "hash_respects (value_ops.truncate (unsigned_ops :: ('v::len word, 'v word) cluster_ops)) hu ys"
  "hash_respects (value_ops.truncate bool_ops) hb zs"
  "hash_respects string_ops ht us"
  by (simp_all add: hash_respects_eq signed_ops_def unsigned_ops_def bool_ops_def string_ops_def
      value_ops.truncate_def)

lemma StatisticsSet_construct_conf:
  "StatisticsSet_construct env m d data n i c = StatisticsSet_construct_type env data
     (case m (n, i, c) of None \<Rightarrow> d | Some type \<Rightarrow> type)"
  by (simp add: StatisticsSet_construct_def split: option.splits)

text \<open>The statistic type configured for a column of a row group.\<close>

definition configured_type :: "stats_config \<Rightarrow> string \<Rightarrow> nat \<Rightarrow> nat \<Rightarrow> STATISTIC_TYPE" where
  "configured_type conf n i c =
     (case c_mapping conf (n, i, c) of None \<Rightarrow> c_default_type conf | Some type \<Rightarrow> type)"

lemma InitAdditionalStats_run:
  "InitAdditionalStats env conf invalidated data n i c wrap ptr =
     (if invalidated then Inr ptr
      else bind_result (StatisticsSet_construct_type env data (configured_type conf n i c))
             (\<lambda>st. Inr (map_option wrap st)))"
  by (simp add: InitAdditionalStats_def StatisticsSet_construct_conf configured_type_def)

lemma InitStats_ptr_describes:
  assumes "tmp_holds type tmp vals" "length vals < 2 ^ 31" "hashes_respect hs type vals"
    and "InitStats_ptr hs conf False tmp type n i c old = Inr (Some ptr)" and "supports_stats type"
  shows "ptr_describes hs type ptr vals"
proof (cases type)
  case PT_BOOL
  then show ?thesis
    using assms bool_stats.construct_describes [of "map GetValue_bool vals" "h_bool hs"]
    by (auto simp: InitStats_ptr_def InitAdditionalStats_run ptr_describes_def tmp_holds_def
        hashes_respect_def bind_result_Inr_iff)
next
  case PT_UINT8
  then show ?thesis
    using assms uint_stats.construct_describes [of "map GetValue_uint8 vals" "h_uint8 hs"]
    by (auto simp: InitStats_ptr_def InitAdditionalStats_run ptr_describes_def tmp_holds_def
        hashes_respect_def bind_result_Inr_iff)
next
  case PT_INT8
  then show ?thesis
    using assms int8_stats.construct_describes [of "map GetValue_int8 vals" "h_int8 hs"]
    by (auto simp: InitStats_ptr_def InitAdditionalStats_run ptr_describes_def tmp_holds_def
        hashes_respect_def bind_result_Inr_iff)
next
  case PT_UINT16
  then show ?thesis
    using assms uint_stats.construct_describes [of "map GetValue_uint16 vals" "h_uint16 hs"]
    by (auto simp: InitStats_ptr_def InitAdditionalStats_run ptr_describes_def tmp_holds_def
        hashes_respect_def bind_result_Inr_iff)
next
  case PT_INT16
  then show ?thesis
    using assms int16_stats.construct_describes [of "map GetValue_int16 vals" "h_int16 hs"]
    by (auto simp: InitStats_ptr_def InitAdditionalStats_run ptr_describes_def tmp_holds_def
        hashes_respect_def bind_result_Inr_iff)
next
  case PT_UINT32
  then show ?thesis
    using assms uint_stats.construct_describes [of "map GetValue_uint32 vals" "h_uint32 hs"]
    by (auto simp: InitStats_ptr_def InitAdditionalStats_run ptr_describes_def tmp_holds_def
        hashes_respect_def bind_result_Inr_iff)
next
  case PT_INT32
  then show ?thesis
    using assms int32_stats.construct_describes [of "map GetValue_int32 vals" "h_int32 hs"]
    by (auto simp: InitStats_ptr_def InitAdditionalStats_run ptr_describes_def tmp_holds_def
        hashes_respect_def bind_result_Inr_iff)
next
  case PT_UINT64
  then show ?thesis
    using assms uint_stats.construct_describes [of "map GetValue_uint64 vals" "h_uint64 hs"]
    by (auto simp: InitStats_ptr_def InitAdditionalStats_run ptr_describes_def tmp_holds_def
        hashes_respect_def bind_result_Inr_iff)
next
  case PT_INT64
  then show ?thesis
    using assms int64_stats.construct_describes [of "map GetValue_int64 vals" "h_int64 hs"]
    by (auto simp: InitStats_ptr_def InitAdditionalStats_run ptr_describes_def tmp_holds_def
        hashes_respect_def bind_result_Inr_iff)
next
  case PT_FLOAT
  then show ?thesis
    using assms float_stats.construct_describes [of "map GetValue_float vals" "h_float hs"]
    by (auto simp: InitStats_ptr_def InitAdditionalStats_run ptr_describes_def tmp_holds_def
        hashes_respect_def bind_result_Inr_iff)
next
  case PT_DOUBLE
  then show ?thesis
    using assms double_stats.construct_describes [of "map GetValue_double vals" "h_double hs"]
    by (auto simp: InitStats_ptr_def InitAdditionalStats_run ptr_describes_def tmp_holds_def
        hashes_respect_def bind_result_Inr_iff)
next
  case PT_INTERVAL
  then show ?thesis using assms(5) by (simp add: supports_stats_def)
next
  case PT_LIST
  then show ?thesis using assms(5) by (simp add: supports_stats_def)
next
  case PT_STRUCT
  then show ?thesis using assms(5) by (simp add: supports_stats_def)
next
  case PT_ARRAY
  then show ?thesis using assms(5) by (simp add: supports_stats_def)
next
  case PT_VARCHAR
  then show ?thesis
    using assms string_stats.construct_describes [of "map v_string vals" "h_string hs"]
    by (auto simp: InitStats_ptr_def InitAdditionalStats_run ptr_describes_def tmp_holds_def
        hashes_respect_def bind_result_Inr_iff)
next
  case PT_UINT128
  then show ?thesis
    using assms uint_stats.construct_describes [of "map GetValue_uhugeint vals" "h_uhugeint hs"]
    by (auto simp: InitStats_ptr_def InitAdditionalStats_run ptr_describes_def tmp_holds_def
        hashes_respect_def bind_result_Inr_iff)
next
  case PT_INT128
  then show ?thesis
    using assms int128_stats.construct_describes [of "map GetValue_hugeint vals" "h_hugeint hs"]
    by (auto simp: InitStats_ptr_def InitAdditionalStats_run ptr_describes_def tmp_holds_def
        hashes_respect_def bind_result_Inr_iff)
next
  case PT_UNKNOWN
  then show ?thesis using assms(5) by (simp add: supports_stats_def)
next
  case PT_BIT
  then show ?thesis using assms(5) by (simp add: supports_stats_def)
next
  case PT_INVALID
  then show ?thesis using assms(5) by (simp add: supports_stats_def)
qed

lemma InitStats_ptr_ok:
  assumes "tmp_holds type tmp vals" "length vals < 2 ^ 31" "hashes_respect hs type vals"
    "configured_type conf n i c \<noteq> ST_ERROR"
  shows "\<exists>p. InitStats_ptr hs conf invalidated tmp type n i c old = Inr p"
proof (cases type)
  case PT_BOOL
  then show ?thesis
    using assms bool_stats.construct_ok [of "map GetValue_bool vals" "h_bool hs" "configured_type conf n i c"]
    by (auto simp: InitStats_ptr_def InitAdditionalStats_run tmp_holds_def hashes_respect_def)
next
  case PT_UINT8
  then show ?thesis
    using assms uint_stats.construct_ok [of "map GetValue_uint8 vals" "h_uint8 hs" "configured_type conf n i c"]
    by (auto simp: InitStats_ptr_def InitAdditionalStats_run tmp_holds_def hashes_respect_def)
next
  case PT_INT8
  then show ?thesis
    using assms int8_stats.construct_ok [of "map GetValue_int8 vals" "h_int8 hs" "configured_type conf n i c"]
    by (auto simp: InitStats_ptr_def InitAdditionalStats_run tmp_holds_def hashes_respect_def)
next
  case PT_UINT16
  then show ?thesis
    using assms uint_stats.construct_ok [of "map GetValue_uint16 vals" "h_uint16 hs" "configured_type conf n i c"]
    by (auto simp: InitStats_ptr_def InitAdditionalStats_run tmp_holds_def hashes_respect_def)
next
  case PT_INT16
  then show ?thesis
    using assms int16_stats.construct_ok [of "map GetValue_int16 vals" "h_int16 hs" "configured_type conf n i c"]
    by (auto simp: InitStats_ptr_def InitAdditionalStats_run tmp_holds_def hashes_respect_def)
next
  case PT_UINT32
  then show ?thesis
    using assms uint_stats.construct_ok [of "map GetValue_uint32 vals" "h_uint32 hs" "configured_type conf n i c"]
    by (auto simp: InitStats_ptr_def InitAdditionalStats_run tmp_holds_def hashes_respect_def)
next
  case PT_INT32
  then show ?thesis
    using assms int32_stats.construct_ok [of "map GetValue_int32 vals" "h_int32 hs" "configured_type conf n i c"]
    by (auto simp: InitStats_ptr_def InitAdditionalStats_run tmp_holds_def hashes_respect_def)
next
  case PT_UINT64
  then show ?thesis
    using assms uint_stats.construct_ok [of "map GetValue_uint64 vals" "h_uint64 hs" "configured_type conf n i c"]
    by (auto simp: InitStats_ptr_def InitAdditionalStats_run tmp_holds_def hashes_respect_def)
next
  case PT_INT64
  then show ?thesis
    using assms int64_stats.construct_ok [of "map GetValue_int64 vals" "h_int64 hs" "configured_type conf n i c"]
    by (auto simp: InitStats_ptr_def InitAdditionalStats_run tmp_holds_def hashes_respect_def)
next
  case PT_FLOAT
  then show ?thesis
    using assms float_stats.construct_ok [of "map GetValue_float vals" "h_float hs" "configured_type conf n i c"]
    by (auto simp: InitStats_ptr_def InitAdditionalStats_run tmp_holds_def hashes_respect_def)
next
  case PT_DOUBLE
  then show ?thesis
    using assms double_stats.construct_ok [of "map GetValue_double vals" "h_double hs" "configured_type conf n i c"]
    by (auto simp: InitStats_ptr_def InitAdditionalStats_run tmp_holds_def hashes_respect_def)
next
  case PT_INTERVAL
  then show ?thesis by (simp add: InitStats_ptr_def)
next
  case PT_LIST
  then show ?thesis by (simp add: InitStats_ptr_def)
next
  case PT_STRUCT
  then show ?thesis by (simp add: InitStats_ptr_def)
next
  case PT_ARRAY
  then show ?thesis by (simp add: InitStats_ptr_def)
next
  case PT_VARCHAR
  then show ?thesis
    using assms string_stats.construct_ok [of "map v_string vals" "h_string hs" "configured_type conf n i c"]
    by (auto simp: InitStats_ptr_def InitAdditionalStats_run tmp_holds_def hashes_respect_def)
next
  case PT_UINT128
  then show ?thesis
    using assms uint_stats.construct_ok [of "map GetValue_uhugeint vals" "h_uhugeint hs" "configured_type conf n i c"]
    by (auto simp: InitStats_ptr_def InitAdditionalStats_run tmp_holds_def hashes_respect_def)
next
  case PT_INT128
  then show ?thesis
    using assms int128_stats.construct_ok [of "map GetValue_hugeint vals" "h_hugeint hs" "configured_type conf n i c"]
    by (auto simp: InitStats_ptr_def InitAdditionalStats_run tmp_holds_def hashes_respect_def)
next
  case PT_UNKNOWN
  then show ?thesis by (simp add: InitStats_ptr_def)
next
  case PT_BIT
  then show ?thesis by (simp add: InitStats_ptr_def)
next
  case PT_INVALID
  then show ?thesis by (simp add: InitStats_ptr_def)
qed

end
