(* ===== verification/Utf8.thy ===== *)
theory Utf8
  imports Bloom
begin

text \<open>
  The UTF-8 check the string statistics rely on (\<open>utf8proc_wrapper.cpp\<close>). \<open>Analyze\<close> skips
  ASCII eight bytes at a time and looks at single bytes only near a non-ASCII one; it is
  shown to give the answer of the plain loop over single bytes.
\<close>

datatype UnicodeType = INVALID | ASCII | UTF8

definition is_ascii :: "byte \<Rightarrow> bool" where
  "is_ascii c = (c AND 0x80 = 0)"

subsection \<open>One character\<close>

text \<open>The loop over the extra bytes: the index of the last one and the code point.\<close>

fun extra_bytes :: "bytes \<Rightarrow> nat \<Rightarrow> nat \<Rightarrow> 32 word \<Rightarrow> (nat \<times> 32 word) option" where
  "extra_bytes s 0 i utf8char = Some (i, utf8char)"
| "extra_bytes s (Suc j) i utf8char =
     (let c = s ! Suc i
      in if c AND 0xC0 \<noteq> 0x80 then None
         else extra_bytes s j (Suc i) (push_bit 6 utf8char OR (ucast c AND 0x3F)))"

definition UTF8ExtraByteLoop :: "nat \<Rightarrow> 32 word \<Rightarrow> 32 word \<Rightarrow> nat \<Rightarrow> bytes \<Rightarrow> nat option" where
  "UTF8ExtraByteLoop nextra_bytes range_mask utf8char i s =
     (if length s - i < nextra_bytes + 1 then None
      else case extra_bytes s nextra_bytes i utf8char of
        None \<Rightarrow> None
      | Some (i, utf8char) \<Rightarrow>
          if utf8char AND range_mask = 0 then None
          else if utf8char > 0x10FFFF then None
          else if utf8char AND 0x1FFF800 = 0xD800 then None
          else Some i)"

text \<open>The body of the byte loop: the index of the last byte read, and the type so far.\<close>

definition utf8_step :: "bytes \<Rightarrow> nat \<Rightarrow> UnicodeType \<Rightarrow> (nat \<times> UnicodeType) option" where
  "utf8_step s i type =
     (let c = s ! i
      in if is_ascii c then Some (i, type)
         else if c AND 0xE0 = 0xC0 then
           map_option (\<lambda>i. (i, UTF8)) (UTF8ExtraByteLoop 1 0x000780 (ucast c AND 0x1F) i s)
         else if c AND 0xF0 = 0xE0 then
           map_option (\<lambda>i. (i, UTF8)) (UTF8ExtraByteLoop 2 0x00F800 (ucast c AND 0x0F) i s)
         else if c AND 0xF8 = 0xF0 then
           map_option (\<lambda>i. (i, UTF8)) (UTF8ExtraByteLoop 3 0x1F0000 (ucast c AND 0x07) i s)
         else None)"

lemma extra_bytes_mono: "extra_bytes s n i u = Some (i', u') \<Longrightarrow> i' = i + n"
proof (induction n arbitrary: i u)
  case (Suc n)
  then show ?case using Suc.IH [of "Suc i"] by (simp add: Let_def split: if_splits)
qed simp

lemma extra_loop_mono: "UTF8ExtraByteLoop n m u i s = Some i' \<Longrightarrow> i \<le> i' \<and> i' < length s"
  by (auto simp: UTF8ExtraByteLoop_def split: if_splits option.splits prod.splits
      dest!: extra_bytes_mono)

lemma utf8_step_mono: "utf8_step s i type = Some (i', type') \<Longrightarrow> i \<le> i'"
  by (auto simp: utf8_step_def Let_def split: if_splits dest!: extra_loop_mono)

subsection \<open>The loops\<close>

function skip_ascii :: "bytes \<Rightarrow> nat \<Rightarrow> nat" where
  "skip_ascii s i =
     (if i + 8 \<le> length s \<and> le_word (take 8 (drop i s)) AND 0x8080808080808080 = 0
      then skip_ascii s (i + 8) else i)"
  by auto
termination by (relation "measure (\<lambda>(s, i). length s - i)") auto

declare skip_ascii.simps [simp del]

function byte_loop :: "bytes \<Rightarrow> nat \<Rightarrow> nat \<Rightarrow> UnicodeType \<Rightarrow> (nat \<times> UnicodeType) option" where
  "byte_loop s stop i type =
     (if i < stop then
        (case utf8_step s i type of
           None \<Rightarrow> None
         | Some (i, type) \<Rightarrow> byte_loop s stop (i + 1) type)
      else Some (i, type))"
  by auto
termination
  by (relation "measure (\<lambda>(s, stop, i, type). stop - i)") (auto dest!: utf8_step_mono)

declare byte_loop.simps [simp del]

lemma skip_ascii_mono: "i \<le> skip_ascii s i"
proof (induction s i rule: skip_ascii.induct)
  case (1 s i)
  then show ?case by (subst skip_ascii.simps) auto
qed

lemma byte_loop_mono: "byte_loop s stop i type = Some (i', type') \<Longrightarrow> i \<le> i' \<and> (i < stop \<longrightarrow> i < i')"
proof (induction s stop i type rule: byte_loop.induct)
  case (1 s stop i type)
  show ?case
  proof (cases "i < stop")
    case True
    then obtain j t where j: "utf8_step s i type = Some (j, t)"
      and rest: "byte_loop s stop (j + 1) t = Some (i', type')"
      using 1(2) byte_loop.simps [of s stop i type] by (auto split: option.splits)
    show ?thesis using 1(1) [OF True j refl rest] utf8_step_mono [OF j] by simp
  next
    case False
    then show ?thesis using 1(2) byte_loop.simps [of s stop i type] by simp
  qed
qed

function analyze_loop :: "bytes \<Rightarrow> nat \<Rightarrow> UnicodeType \<Rightarrow> UnicodeType" where
  "analyze_loop s i type =
     (if i < length s then
        (let i1 = skip_ascii s i; stop = min (i1 + 8) (length s)
         in case byte_loop s stop i1 type of
              None \<Rightarrow> INVALID
            | Some (i2, type) \<Rightarrow> analyze_loop s i2 type)
      else type)"
  by auto
termination
proof (relation "measure (\<lambda>(s, i, type). length s - i)", goal_cases)
  case (2 s i type i1 stop p i2 type')
  then have "i \<le> i1" "i1 \<le> i2" "i1 < stop \<longrightarrow> i1 < i2"
    using skip_ascii_mono [of i s] byte_loop_mono [of s stop i1 type i2 type'] by auto
  then show ?case using 2(1,3) by auto
qed simp

declare analyze_loop.simps [simp del]

definition Analyze :: "bytes \<Rightarrow> UnicodeType" where
  "Analyze s = analyze_loop s 0 ASCII"

text \<open>The reference: every byte is looked at.\<close>

definition Analyze_bytes :: "bytes \<Rightarrow> UnicodeType" where
  "Analyze_bytes s = (case byte_loop s (length s) 0 ASCII of None \<Rightarrow> INVALID | Some (_, type) \<Rightarrow> type)"

subsection \<open>Eight bytes at a time\<close>

lemma bit_le_word:
  "length bs \<le> 8 \<Longrightarrow> j < 8 \<Longrightarrow> k < length bs \<Longrightarrow> bit (le_word bs) (8 * k + j) \<longleftrightarrow> bit (bs ! k) j"
proof (induction bs arbitrary: k)
  case (Cons b bs)
  have high: "\<not> bit b n" if "8 \<le> n" for n using that bit_imp_le_length [of b n] by auto
  show ?case
  proof (cases k)
    case 0
    then show ?thesis
      using Cons.prems by (simp add: le_word_def bit_or_iff bit_push_bit_iff bit_ucast_iff)
  next
    case (Suc n)
    then have "bit (le_word (b # bs)) (8 * k + j) \<longleftrightarrow> bit (le_word bs) (8 * n + j)"
      using Cons.prems high
      by (simp add: le_word_def bit_or_iff bit_push_bit_iff bit_ucast_iff algebra_simps)
    then show ?thesis using Cons Suc by simp
  qed
qed simp

lemma mask_bit: "bit (0x8080808080808080 :: 64 word) n \<longleftrightarrow> (\<exists>k < 8. n = 8 * k + 7)"
proof (cases "n < 64")
  case True
  then have "n \<in> set [0..<64]" by simp
  moreover have "list_all (\<lambda>n. bit (0x8080808080808080 :: 64 word) n = (n mod 8 = 7)) [0..<64]"
    by code_simp
  ultimately have "bit (0x8080808080808080 :: 64 word) n \<longleftrightarrow> n mod 8 = 7"
    by (simp only: list_all_iff Ball_def)
  also have "\<dots> \<longleftrightarrow> (\<exists>k < 8. n = 8 * k + 7)"
  proof
    assume "n mod 8 = 7"
    then have "n div 8 < 8" "n = 8 * (n div 8) + 7" using True div_mult_mod_eq [of n 8] by linarith+
    then show "\<exists>k < 8. n = 8 * k + 7" by blast
  qed auto
  finally show ?thesis .
next
  case False
  then show ?thesis using bit_imp_le_length [of "0x8080808080808080 :: 64 word" n] by auto
qed

lemma is_ascii_bit: "is_ascii c \<longleftrightarrow> \<not> bit c 7"
proof -
  have "c AND 0x80 = 0 \<longleftrightarrow> \<not> bit c 7" for c :: "8 word"
    using and_exp_eq_0_iff_not_bit [of c 7] by simp
  then show ?thesis by (simp add: is_ascii_def)
qed

lemma and_zero_bits: "a AND b = 0 \<longleftrightarrow> (\<forall>n. bit b n \<longrightarrow> \<not> bit a n)" for a b :: "64 word"
proof
  assume "a AND b = 0"
  then have "bit (a AND b) n \<longleftrightarrow> False" for n by simp
  then show "\<forall>n. bit b n \<longrightarrow> \<not> bit a n" by (simp add: bit_and_iff) blast
next
  assume "\<forall>n. bit b n \<longrightarrow> \<not> bit a n"
  then show "a AND b = 0" by (intro bit_word_eqI) (auto simp: bit_and_iff)
qed

lemma le_word_mask:
  assumes "length bs = 8"
  shows "le_word bs AND 0x8080808080808080 = 0 \<longleftrightarrow> (\<forall>k < 8. is_ascii (bs ! k))"
proof -
  have "le_word bs AND 0x8080808080808080 = 0 \<longleftrightarrow> (\<forall>k < 8. \<not> bit (le_word bs) (8 * k + 7))"
    by (simp only: and_zero_bits mask_bit) blast
  also have "\<dots> \<longleftrightarrow> (\<forall>k < 8. is_ascii (bs ! k))"
    using assms bit_le_word [of bs 7] by (simp add: is_ascii_bit)
  finally show ?thesis .
qed

lemma byte_loop_ascii:
  "i + n \<le> stop \<Longrightarrow> \<forall>k < n. is_ascii (s ! (i + k)) \<Longrightarrow> byte_loop s stop i type = byte_loop s stop (i + n) type"
proof (induction n arbitrary: i)
  case (Suc n)
  then have "is_ascii (s ! i)" by (metis add_0_right zero_less_Suc)
  then have "byte_loop s stop i type = byte_loop s stop (i + 1) type"
    using Suc.prems(1) by (subst byte_loop.simps) (simp add: utf8_step_def Let_def)
  moreover have "\<forall>k < n. is_ascii (s ! (i + 1 + k))" using Suc.prems(2) by auto
  ultimately show ?case using Suc.IH [of "i + 1"] Suc.prems(1) by simp
qed simp

lemma skip_ascii_loop:
  "byte_loop s (length s) i type = byte_loop s (length s) (skip_ascii s i) type"
proof (induction s i rule: skip_ascii.induct)
  case (1 s i)
  show ?case
  proof (cases "i + 8 \<le> length s \<and> le_word (take 8 (drop i s)) AND 0x8080808080808080 = 0")
    case True
    then have "\<forall>k < 8. is_ascii (s ! (i + k))"
    proof -
      have "length (take 8 (drop i s)) = 8" using True by (auto simp: min_def)
      then show ?thesis using True le_word_mask by auto
    qed
    then show ?thesis
      using True 1 byte_loop_ascii [of i 8 "length s" s type] skip_ascii.simps [of s i] by simp
  next
    case False
    then show ?thesis using skip_ascii.simps [of s i] by auto
  qed
qed

lemma byte_loop_split:
  "stop \<le> n \<Longrightarrow> byte_loop s n i type =
     (case byte_loop s stop i type of None \<Rightarrow> None | Some (i, type) \<Rightarrow> byte_loop s n i type)"
proof (induction s stop i type rule: byte_loop.induct)
  case (1 s stop i type)
  show ?case
  proof (cases "i < stop")
    case True
    then show ?thesis
      using 1 byte_loop.simps [of s n i type] byte_loop.simps [of s stop i type]
      by (auto split: option.splits)
  next
    case False
    then show ?thesis using byte_loop.simps [of s stop i type] by simp
  qed
qed

lemma analyze_loop_bytes:
  "analyze_loop s i type =
     (case byte_loop s (length s) i type of None \<Rightarrow> INVALID | Some (_, type) \<Rightarrow> type)"
proof (induction s i type rule: analyze_loop.induct)
  case (1 s i type)
  show ?case
  proof (cases "i < length s")
    case True
    let ?i1 = "skip_ascii s i" and ?stop = "min (skip_ascii s i + 8) (length s)"
    have "byte_loop s (length s) i type =
        (case byte_loop s ?stop ?i1 type of None \<Rightarrow> None | Some (i, type) \<Rightarrow> byte_loop s (length s) i type)"
      using skip_ascii_loop [of s i type] byte_loop_split [of ?stop "length s" s ?i1 type] by simp
    then show ?thesis
      using True 1 [OF True refl refl] analyze_loop.simps [of s i type]
      by (auto simp: Let_def split: option.splits)
  next
    case False
    then show ?thesis using byte_loop.simps [of s "length s" i type] analyze_loop.simps [of s i type] by simp
  qed
qed

text \<open>C32: Skipping ASCII eight bytes at a time gives the answer of looking at every byte.\<close>
theorem Analyze_eq_bytes: "Analyze s = Analyze_bytes s"
  by (simp add: Analyze_def Analyze_bytes_def analyze_loop_bytes)

lemma utf8_step_type: "utf8_step s i type = Some (i', type') \<Longrightarrow> \<not> is_ascii (s ! i) \<Longrightarrow> type' = UTF8"
  by (auto simp: utf8_step_def Let_def split: if_splits)

lemma byte_loop_ASCII:
  "byte_loop s (length s) i type = Some (i', ASCII) \<Longrightarrow>
   type = ASCII \<and> (\<forall>k. i \<le> k \<and> k < length s \<longrightarrow> is_ascii (s ! k))"
proof (induction s "length s" i type rule: byte_loop.induct)
  case (1 s i type)
  show ?case
  proof (cases "i < length s")
    case True
    then obtain j t where j: "utf8_step s i type = Some (j, t)"
      and rest: "byte_loop s (length s) (j + 1) t = Some (i', ASCII)"
      using 1(2) byte_loop.simps [of s "length s" i type] by (auto split: option.splits)
    have t: "t = ASCII" "\<forall>k. j + 1 \<le> k \<and> k < length s \<longrightarrow> is_ascii (s ! k)"
      using 1(1) [OF True j refl rest] by auto
    then have a: "is_ascii (s ! i)" using utf8_step_type [OF j] by auto
    then have "j = i" "type = t" using j by (auto simp: utf8_step_def)
    moreover have "is_ascii (s ! k)" if "i \<le> k" "k < length s" for k
      using that a t(2) \<open>j = i\<close> by (cases "k = i") auto
    ultimately show ?thesis using t(1) by blast
  next
    case False
    then show ?thesis using 1(2) byte_loop.simps [of s "length s" i type] by auto
  qed
qed

text \<open>A string is reported as ASCII exactly when every one of its bytes is.\<close>
theorem Analyze_ASCII: "Analyze s = ASCII \<longleftrightarrow> list_all is_ascii s"
proof
  assume "Analyze s = ASCII"
  then obtain i where "byte_loop s (length s) 0 ASCII = Some (i, ASCII)"
    by (auto simp: Analyze_def analyze_loop_bytes split: option.splits)
  then show "list_all is_ascii s" using byte_loop_ASCII by (fastforce simp: list_all_length)
next
  assume "list_all is_ascii s"
  then have "byte_loop s (length s) 0 ASCII = Some (length s, ASCII)"
    using byte_loop_ascii [of 0 "length s" "length s" s ASCII] byte_loop.simps [of s "length s" "length s"]
    by (simp add: list_all_length)
  then show "Analyze s = ASCII" by (simp add: Analyze_def analyze_loop_bytes)
qed

end
