(* ===== verification/BaseStats.thy ===== *)
theory BaseStats
  imports Values Utf8
begin

text \<open>
  The statistics object of a column (\<open>base_statistics.hpp\<close>, \<open>base_statistics.cpp\<close>) with the
  parts its type selects (\<open>numeric_stats.cpp\<close>, \<open>string_stats.cpp\<close>, \<open>list_stats.cpp\<close>,
  \<open>struct_stats.cpp\<close>, \<open>array_stats.cpp\<close>): a tree with one node per nested type. The additional
  statistic is an address, \<open>0\<close> being the null pointer. A fresh node is numbered \<open>0\<close> instead
  of with the process-wide counter, and its two validity flags, which the code leaves
  indeterminate until a creator sets them, start as \<open>False\<close>.
\<close>

subsection \<open>Data\<close>

datatype StatisticsType =
  NUMERIC_STATS | STRING_STATS | LIST_STATS | STRUCT_STATS | BASE_STATS | ARRAY_STATS

datatype StatsInfo =
    CAN_HAVE_NULL_VALUES | CANNOT_HAVE_NULL_VALUES | CAN_HAVE_VALID_VALUES
  | CANNOT_HAVE_VALID_VALUES | CAN_HAVE_NULL_AND_VALID_VALUES

text \<open>A bound is the 128-bit union \<open>NumericValueUnion\<close>.\<close>

record NumericStatsData =
  has_min :: bool
  has_max :: bool
  min_bound :: "128 word"
  max_bound :: "128 word"

text \<open>The two reserved byte arrays are never read and left out.\<close>

record StringStatsData =
  has_unicode :: bool
  has_max_string_length :: bool
  max_string_length :: "32 word"

text \<open>
  The type of the node says which member of the union is used, so both are kept side by side.
\<close>

record base_data =
  b_type :: LogicalType
  has_null :: bool
  has_no_null :: bool
  distinct_count :: "64 word"
  numeric_data :: NumericStatsData
  string_data :: StringStatsData
  stat_id :: "64 word"
  additional_ptr :: "64 word"

datatype BaseStatistics = Stats (base: base_data) (child_stats: "BaseStatistics list")

abbreviation stats_type :: "BaseStatistics \<Rightarrow> LogicalType" where
  "stats_type s \<equiv> b_type (base s)"

subsection \<open>The kind of a statistic\<close>

definition GetStatsType :: "LogicalType \<Rightarrow> StatisticsType" where
  "GetStatsType type =
     (if type_id type = LT_SQLNULL then BASE_STATS
      else case InternalType type of
        PT_BOOL \<Rightarrow> NUMERIC_STATS | PT_INT8 \<Rightarrow> NUMERIC_STATS | PT_INT16 \<Rightarrow> NUMERIC_STATS
      | PT_INT32 \<Rightarrow> NUMERIC_STATS | PT_INT64 \<Rightarrow> NUMERIC_STATS | PT_UINT8 \<Rightarrow> NUMERIC_STATS
      | PT_UINT16 \<Rightarrow> NUMERIC_STATS | PT_UINT32 \<Rightarrow> NUMERIC_STATS | PT_UINT64 \<Rightarrow> NUMERIC_STATS
      | PT_INT128 \<Rightarrow> NUMERIC_STATS | PT_UINT128 \<Rightarrow> NUMERIC_STATS | PT_FLOAT \<Rightarrow> NUMERIC_STATS
      | PT_DOUBLE \<Rightarrow> NUMERIC_STATS
      | PT_VARCHAR \<Rightarrow> STRING_STATS
      | PT_STRUCT \<Rightarrow> STRUCT_STATS
      | PT_LIST \<Rightarrow> LIST_STATS
      | PT_ARRAY \<Rightarrow> ARRAY_STATS
      | _ \<Rightarrow> BASE_STATS)"

text \<open>
  The types of the child statistics, from the type information of a nested type. A nested
  type without its information is a failed cast in the code and has no children here.
\<close>

definition stat_child_types :: "LogicalType \<Rightarrow> LogicalType list" where
  "stat_child_types type =
     (case GetStatsType type of
        STRUCT_STATS \<Rightarrow> map snd (struct_child_types type)
      | LIST_STATS \<Rightarrow> (if is_ListTypeInfo (type_info type) then [list_child_type type] else [])
      | ARRAY_STATS \<Rightarrow> (if is_ArrayTypeInfo (type_info type) then [array_child_type type] else [])
      | _ \<Rightarrow> [])"

lemma stat_child_size [termination_simp]:
  "t \<in> set (stat_child_types type) \<Longrightarrow> size t < size type"
  using size_struct_child
  by (cases type; cases "type_info type")
    (force simp: stat_child_types_def split: StatisticsType.splits if_splits)+

subsection \<open>Creation and copying\<close>

definition fresh_data :: "LogicalType \<Rightarrow> base_data" where
  "fresh_data type =
     \<lparr>b_type = type, has_null = False, has_no_null = False, distinct_count = 0,
      numeric_data = \<lparr>has_min = False, has_max = False, min_bound = 0, max_bound = 0\<rparr>,
      string_data = \<lparr>has_unicode = False, has_max_string_length = False, max_string_length = 0\<rparr>,
      stat_id = 0, additional_ptr = 0\<rparr>"

fun stats_Construct :: "LogicalType \<Rightarrow> BaseStatistics" where
  "stats_Construct type = Stats (fresh_data type) (map stats_Construct (stat_child_types type))"

declare stats_Construct.simps [simp del]

definition InitializeUnknown :: "base_data \<Rightarrow> base_data" where
  "InitializeUnknown a = a\<lparr>has_null := True, has_no_null := True\<rparr>"

definition InitializeEmpty :: "base_data \<Rightarrow> base_data" where
  "InitializeEmpty a = a\<lparr>has_null := False, has_no_null := True\<rparr>"

definition CopyBase :: "base_data \<Rightarrow> base_data \<Rightarrow> base_data" where
  "CopyBase a other =
     a\<lparr>has_null := has_null other, has_no_null := has_no_null other,
       distinct_count := distinct_count other, stat_id := stat_id other,
       additional_ptr := additional_ptr other\<rparr>"

text \<open>
  \<open>Copy\<close> asserts equal types; the children are copied in place, one by one.
\<close>

fun stats_Copy :: "BaseStatistics \<Rightarrow> BaseStatistics \<Rightarrow> BaseStatistics"
and copy_children :: "BaseStatistics list \<Rightarrow> BaseStatistics list \<Rightarrow> BaseStatistics list" where
  "stats_Copy (Stats a as) (Stats other others) =
     (let a = CopyBase a other;
          a = a\<lparr>numeric_data := numeric_data other, string_data := string_data other\<rparr>
      in case GetStatsType (b_type a) of
           LIST_STATS \<Rightarrow> Stats a (copy_children as others)
         | STRUCT_STATS \<Rightarrow> Stats a (copy_children as others)
         | ARRAY_STATS \<Rightarrow> Stats a (copy_children as others)
         | _ \<Rightarrow> Stats a as)"
| "copy_children (s # as) (other # others) = stats_Copy s other # copy_children as others"
| "copy_children as others = as"

text \<open>\<open>BaseStatistics::Copy()\<close> and \<open>ToUnique\<close> copy into a new object of the same type.\<close>

definition stats_copy :: "BaseStatistics \<Rightarrow> BaseStatistics" where
  "stats_copy s = stats_Copy (stats_Construct (stats_type s)) s"

definition NumericStats_CreateUnknown :: "base_data \<Rightarrow> base_data" where
  "NumericStats_CreateUnknown a =
     (let a = InitializeUnknown a
      in a\<lparr>numeric_data := (numeric_data a)\<lparr>has_min := False, has_max := False\<rparr>\<rparr>)"

definition NumericStats_CreateEmpty :: "base_data \<Rightarrow> base_data" where
  "NumericStats_CreateEmpty a =
     (let a = InitializeEmpty a
      in a\<lparr>numeric_data := (numeric_data a)\<lparr>has_min := False, has_max := False\<rparr>\<rparr>)"

definition StringStats_CreateUnknown :: "base_data \<Rightarrow> base_data" where
  "StringStats_CreateUnknown a =
     (let a = InitializeUnknown a
      in a\<lparr>string_data := \<lparr>has_unicode = True, has_max_string_length = False, max_string_length = 0\<rparr>\<rparr>)"

definition StringStats_CreateEmpty :: "base_data \<Rightarrow> base_data" where
  "StringStats_CreateEmpty a =
     (let a = InitializeEmpty a
      in a\<lparr>string_data := \<lparr>has_unicode = False, has_max_string_length = True, max_string_length = 0\<rparr>\<rparr>)"

text \<open>\<open>CreateUnknown\<close> through the switch of \<open>CreateUnknownType\<close>.\<close>

fun CreateUnknown :: "LogicalType \<Rightarrow> BaseStatistics" where
  "CreateUnknown type =
     (let a = fresh_data type; children = map stats_Construct (stat_child_types type)
      in case GetStatsType type of
           NUMERIC_STATS \<Rightarrow> Stats (InitializeUnknown (NumericStats_CreateUnknown a)) children
         | STRING_STATS \<Rightarrow> Stats (InitializeUnknown (StringStats_CreateUnknown a)) children
         | BASE_STATS \<Rightarrow> Stats (InitializeUnknown a) children
         | _ \<Rightarrow> Stats (InitializeUnknown (InitializeUnknown a))
                (copy_children children (map CreateUnknown (stat_child_types type))))"

declare CreateUnknown.simps [simp del]

text \<open>\<open>CreateEmpty\<close>, with its special case for the validity type.\<close>

fun CreateEmpty :: "LogicalType \<Rightarrow> BaseStatistics" where
  "CreateEmpty type =
     (let a = fresh_data type; children = map stats_Construct (stat_child_types type)
      in if InternalType type = PT_BIT
         then Stats (a\<lparr>has_null := False, has_no_null := False\<rparr>) children
         else case GetStatsType type of
           NUMERIC_STATS \<Rightarrow> Stats (InitializeEmpty (NumericStats_CreateEmpty a)) children
         | STRING_STATS \<Rightarrow> Stats (InitializeEmpty (StringStats_CreateEmpty a)) children
         | BASE_STATS \<Rightarrow> Stats (InitializeEmpty a) children
         | _ \<Rightarrow> Stats (InitializeEmpty (InitializeEmpty a))
                (copy_children children (map CreateEmpty (stat_child_types type))))"

declare CreateEmpty.simps [simp del]

subsection \<open>The string part\<close>

definition HasMaxStringLength :: "base_data \<Rightarrow> bool" where
  "HasMaxStringLength a =
     (if type_id (b_type a) = LT_SQLNULL then False else has_max_string_length (string_data a))"

definition MaxStringLength :: "base_data \<Rightarrow> 32 word result" where
  "MaxStringLength a =
     (if \<not> HasMaxStringLength a then Inl InternalException else Inr (max_string_length (string_data a)))"

definition CanContainUnicode :: "base_data \<Rightarrow> bool" where
  "CanContainUnicode a =
     (if type_id (b_type a) = LT_SQLNULL then True else has_unicode (string_data a))"

definition ResetMaxStringLength :: "base_data \<Rightarrow> base_data" where
  "ResetMaxStringLength a = a\<lparr>string_data := (string_data a)\<lparr>has_max_string_length := False\<rparr>\<rparr>"

definition SetMaxStringLength :: "32 word \<Rightarrow> base_data \<Rightarrow> base_data" where
  "SetMaxStringLength new_length a =
     a\<lparr>string_data := (string_data a)\<lparr>has_max_string_length := True, max_string_length := new_length\<rparr>\<rparr>"

definition SetContainsUnicode :: "base_data \<Rightarrow> base_data" where
  "SetContainsUnicode a = a\<lparr>string_data := (string_data a)\<lparr>has_unicode := True\<rparr>\<rparr>"

definition StringStats_Update :: "bytes \<Rightarrow> base_data \<Rightarrow> base_data result" where
  "StringStats_Update value a =
     (let size = length value; d = string_data a;
          d = (if size > unat (max_string_length d) then d\<lparr>max_string_length := word_of_nat size\<rparr> else d)
      in if type_id (b_type a) = LT_VARCHAR \<and> \<not> has_unicode d
         then (case Analyze value of
                 UTF8 \<Rightarrow> Inr (a\<lparr>string_data := d\<lparr>has_unicode := True\<rparr>\<rparr>)
               | INVALID \<Rightarrow> Inl InvalidUnicodeError
               | ASCII \<Rightarrow> Inr (a\<lparr>string_data := d\<rparr>))
         else Inr (a\<lparr>string_data := d\<rparr>))"

definition StringStats_Merge :: "base_data \<Rightarrow> base_data \<Rightarrow> base_data" where
  "StringStats_Merge a other =
     (if type_id (b_type other) = LT_VALIDITY then a
      else if type_id (b_type other) = LT_SQLNULL then a
      else let d = string_data a; od = string_data other
           in a\<lparr>string_data :=
                \<lparr>has_unicode = has_unicode d \<or> has_unicode od,
                 has_max_string_length = has_max_string_length d \<and> has_max_string_length od,
                 max_string_length = max (max_string_length d) (max_string_length od)\<rparr>\<rparr>)"

subsection \<open>Flags\<close>

fun SetHasNull :: "BaseStatistics \<Rightarrow> BaseStatistics" where
  "SetHasNull (Stats a as) =
     Stats (a\<lparr>has_null := True\<rparr>) (if InternalType (b_type a) = PT_STRUCT then map SetHasNull as else as)"

fun SetHasNoNull :: "BaseStatistics \<Rightarrow> BaseStatistics" where
  "SetHasNoNull (Stats a as) =
     Stats (a\<lparr>has_no_null := True\<rparr>) (if InternalType (b_type a) = PT_STRUCT then map SetHasNoNull as else as)"

definition stats_Set :: "StatsInfo \<Rightarrow> BaseStatistics \<Rightarrow> BaseStatistics" where
  "stats_Set info s =
     (case info of
        CAN_HAVE_NULL_VALUES \<Rightarrow> SetHasNull s
      | CANNOT_HAVE_NULL_VALUES \<Rightarrow> Stats ((base s)\<lparr>has_null := False\<rparr>) (child_stats s)
      | CAN_HAVE_VALID_VALUES \<Rightarrow> SetHasNoNull s
      | CANNOT_HAVE_VALID_VALUES \<Rightarrow> Stats ((base s)\<lparr>has_no_null := False\<rparr>) (child_stats s)
      | CAN_HAVE_NULL_AND_VALID_VALUES \<Rightarrow> SetHasNoNull (SetHasNull s))"

definition CombineValidity :: "base_data \<Rightarrow> base_data \<Rightarrow> base_data \<Rightarrow> base_data" where
  "CombineValidity left right a =
     a\<lparr>has_null := has_null left \<or> has_null right, has_no_null := has_no_null left \<or> has_no_null right\<rparr>"

definition CopyValidity :: "base_data \<Rightarrow> base_data \<Rightarrow> base_data" where
  "CopyValidity other a = a\<lparr>has_null := has_null other, has_no_null := has_no_null other\<rparr>"

definition SetDistinctCount :: "64 word \<Rightarrow> BaseStatistics \<Rightarrow> BaseStatistics" where
  "SetDistinctCount n s = Stats ((base s)\<lparr>distinct_count := n\<rparr>) (child_stats s)"

text \<open>\<open>NumericStats::IsConstant\<close> is always \<open>False\<close>.\<close>

definition IsConstant :: "base_data \<Rightarrow> bool" where
  "IsConstant a =
     (if type_id (b_type a) = LT_VALIDITY
      then (if has_null a \<and> \<not> has_no_null a then True
            else if \<not> has_null a \<and> has_no_null a then True else False)
      else False)"

subsection \<open>Merging\<close>

definition merge_base :: "base_data \<Rightarrow> base_data \<Rightarrow> base_data" where
  "merge_base a other =
     a\<lparr>has_null := has_null a \<or> has_null other, has_no_null := has_no_null a \<or> has_no_null other,
       additional_ptr := (if additional_ptr a = 0 then additional_ptr other else additional_ptr a),
       stat_id := min (stat_id a) (stat_id other)\<rparr>"

text \<open>
  The list and array parts check the kind of the other statistic, the struct part only
  asserts it; a child that is missing there is an access outside an array.
\<close>

fun stats_Merge :: "BaseStatistics \<Rightarrow> BaseStatistics \<Rightarrow> BaseStatistics result"
and merge_children :: "BaseStatistics list \<Rightarrow> BaseStatistics list \<Rightarrow> BaseStatistics list result" where
  "stats_Merge (Stats a as) (Stats other others) =
     (let m = merge_base a other; validity = (type_id (b_type other) = LT_VALIDITY)
      in case GetStatsType (b_type a) of
           STRING_STATS \<Rightarrow> Inr (Stats (StringStats_Merge m other) as)
         | LIST_STATS \<Rightarrow>
             if validity then Inr (Stats m as)
             else if GetStatsType (b_type other) \<noteq> LIST_STATS then Inl InternalException
             else bind_result (merge_children as others) (\<lambda>as. Inr (Stats m as))
         | STRUCT_STATS \<Rightarrow>
             if validity then Inr (Stats m as)
             else bind_result (merge_children as others) (\<lambda>as. Inr (Stats m as))
         | ARRAY_STATS \<Rightarrow>
             if validity then Inr (Stats m as)
             else if GetStatsType (b_type other) \<noteq> ARRAY_STATS then Inl InternalException
             else bind_result (merge_children as others) (\<lambda>as. Inr (Stats m as))
         | _ \<Rightarrow> Inr (Stats m as))"
| "merge_children [] others = Inr []"
| "merge_children (s # as) [] = Inl OutOfBounds"
| "merge_children (s # as) (other # others) =
     bind_result (stats_Merge s other) (\<lambda>s.
     bind_result (merge_children as others) (\<lambda>as. Inr (s # as)))"

subsection \<open>Statistics of a constant\<close>

text \<open>\<open>SetMin\<close> and \<open>SetMax\<close> only check the type of the new bound.\<close>

definition NumericStats_SetBound :: "Value \<Rightarrow> BaseStatistics \<Rightarrow> BaseStatistics result" where
  "NumericStats_SetBound bound s =
     (if \<not> v_is_null bound \<and> InternalType (v_type bound) \<noteq> InternalType (stats_type s)
      then Inl InternalException else Inr s)"

definition Value_null :: "LogicalType \<Rightarrow> Value" where
  "Value_null type = Value type True 0 [] []"

definition string_update :: "bytes \<Rightarrow> BaseStatistics \<Rightarrow> BaseStatistics result" where
  "string_update value s =
     bind_result (StringStats_Update value (base s)) (\<lambda>a. Inr (Stats a (child_stats s)))"

text \<open>The creators of the type switch, before the flags of \<open>CreateEmpty\<close> are set again.\<close>

definition constant_flags :: "bool \<Rightarrow> BaseStatistics \<Rightarrow> BaseStatistics" where
  "constant_flags is_null s =
     (let s = SetDistinctCount 1 s
      in if is_null then stats_Set CANNOT_HAVE_VALID_VALUES (stats_Set CAN_HAVE_NULL_VALUES s)
         else stats_Set CAN_HAVE_VALID_VALUES (stats_Set CANNOT_HAVE_NULL_VALUES s))"

text \<open>\<open>FromConstant(Value(type))\<close>: the statistics of a NULL, down a struct type.\<close>

fun FromNull :: "LogicalType \<Rightarrow> BaseStatistics" where
  "FromNull type =
     constant_flags True
       (case GetStatsType type of
          BASE_STATS \<Rightarrow> stats_Construct type
        | STRUCT_STATS \<Rightarrow>
            Stats (base (CreateEmpty type))
              (copy_children (child_stats (CreateEmpty type)) (map FromNull (stat_child_types type)))
        | _ \<Rightarrow> CreateEmpty type)"

declare FromNull.simps [simp del]

fun FromConstant :: "Value \<Rightarrow> BaseStatistics result"
and merge_constants :: "Value list \<Rightarrow> BaseStatistics \<Rightarrow> BaseStatistics result"
and set_children :: "Value list \<Rightarrow> BaseStatistics list \<Rightarrow> BaseStatistics list result" where
  "FromConstant (Value type is_null w str children) =
     (let input = Value type is_null w str children; result = CreateEmpty type
      in bind_result
        (case GetStatsType type of
           NUMERIC_STATS \<Rightarrow>
             bind_result (NumericStats_SetBound input result) (NumericStats_SetBound input)
         | STRING_STATS \<Rightarrow> if is_null then Inr result else string_update str result
         | STRUCT_STATS \<Rightarrow>
             if is_null then
               Inr (Stats (base result)
                 (copy_children (child_stats result) (map FromNull (stat_child_types type))))
             else
               bind_result (set_children children (child_stats result)) (\<lambda>cs. Inr (Stats (base result) cs))
         | LIST_STATS \<Rightarrow>
             if is_null then Inr result
             else (case child_stats result of
                [] \<Rightarrow> Inl OutOfBounds
              | c # cs \<Rightarrow> bind_result (merge_constants children c) (\<lambda>c. Inr (Stats (base result) (c # cs))))
         | ARRAY_STATS \<Rightarrow>
             if is_null then Inr result
             else (case child_stats result of
                [] \<Rightarrow> Inl OutOfBounds
              | c # cs \<Rightarrow> bind_result (merge_constants children c) (\<lambda>c. Inr (Stats (base result) (c # cs))))
         | BASE_STATS \<Rightarrow> Inr (stats_Construct type))
        (\<lambda>result. Inr (constant_flags is_null result)))"
| "merge_constants [] acc = Inr acc"
| "merge_constants (v # vs) acc =
     bind_result (FromConstant v) (\<lambda>s. bind_result (stats_Merge acc s) (merge_constants vs))"
| "set_children vs [] = Inr []"
| "set_children [] (c # cs) = Inl OutOfBounds"
| "set_children (v # vs) (c # cs) =
     bind_result (FromConstant v) (\<lambda>s.
     bind_result (set_children vs cs) (\<lambda>cs. Inr (stats_Copy c s # cs)))"

declare FromConstant.simps [simp del]

subsection \<open>Verification of a vector\<close>

text \<open>
  A vector is given by its rows in the order of the selection, a row as a value. The child
  rows of a NULL struct are NULL unless they are given. The list and array parts select the
  elements of the valid rows. Every mismatch is an \<open>InternalException\<close>.
\<close>

definition StringStats_Verify_row :: "base_data \<Rightarrow> Value \<Rightarrow> unit \<Rightarrow> unit result" where
  "StringStats_Verify_row a row u =
     (if v_is_null row then Inr ()
      else if has_max_string_length (string_data a) \<and>
              length (v_string row) > unat (max_string_length (string_data a))
      then Inl InternalException
      else if type_id (b_type a) = LT_VARCHAR \<and> \<not> has_unicode (string_data a)
      then (if Analyze (v_string row) = ASCII then Inr () else Inl InternalException)
      else Inr ())"

definition StringStats_Verify :: "base_data \<Rightarrow> Value list \<Rightarrow> unit result" where
  "StringStats_Verify a rows =
     (if \<not> HasMaxStringLength a then Inr () else fold_result (StringStats_Verify_row a) rows ())"

definition verify_validity_row :: "bool \<Rightarrow> base_data \<Rightarrow> Value \<Rightarrow> unit \<Rightarrow> unit result" where
  "verify_validity_row ignore_has_null a row u =
     (if \<not> v_is_null row \<and> \<not> has_no_null a then Inl InternalException
      else if v_is_null row \<and> \<not> has_null a \<and> \<not> ignore_has_null then Inl InternalException
      else Inr ())"

definition nested_rows :: "Value list \<Rightarrow> Value list" where
  "nested_rows rows = concat (map v_children (filter (\<lambda>v. \<not> v_is_null v) rows))"

definition entry_row :: "LogicalType \<Rightarrow> nat \<Rightarrow> Value \<Rightarrow> Value" where
  "entry_row type i row = (if i < length (v_children row) then v_children row ! i else Value_null type)"

fun stats_Verify :: "bool \<Rightarrow> BaseStatistics \<Rightarrow> Value list \<Rightarrow> unit result"
and verify_list :: "BaseStatistics list \<Rightarrow> Value list \<Rightarrow> unit result"
and verify_entries :: "nat \<Rightarrow> BaseStatistics list \<Rightarrow> Value list \<Rightarrow> unit result" where
  "stats_Verify ignore_has_null (Stats a as) rows =
     bind_result
       (case GetStatsType (b_type a) of
          STRING_STATS \<Rightarrow> StringStats_Verify a rows
        | LIST_STATS \<Rightarrow> verify_list as rows
        | ARRAY_STATS \<Rightarrow> verify_list as rows
        | STRUCT_STATS \<Rightarrow> verify_entries 0 as rows
        | _ \<Rightarrow> Inr ())
       (\<lambda>_. if has_null a \<and> has_no_null a then Inr ()
             else fold_result (verify_validity_row ignore_has_null a) rows ())"
| "verify_list [] rows = Inl OutOfBounds"
| "verify_list (c # cs) rows = stats_Verify False c (nested_rows rows)"
| "verify_entries i [] rows = Inr ()"
| "verify_entries i (c # cs) rows =
     bind_result (stats_Verify True c (map (entry_row (stats_type c) i) rows))
       (\<lambda>_. verify_entries (i + 1) cs rows)"

end
