(* ===== verification/StatsAdmit.thy ===== *)
theory StatsAdmit
  imports BaseStats
begin

text \<open>
  What a statistics object says of the values of a column, and that every operation on it
  respects this reading: the abstraction of a statistic is the set of values it admits.
  Creating, merging and describing a constant only ever widen the set as they should, and
  \<open>Verify\<close> decides membership.
\<close>

subsection \<open>Well-formed statistics and values\<close>

text \<open>The children of a statistic are statistics of the child types, all the way down.\<close>

fun stats_ok :: "BaseStatistics \<Rightarrow> bool" where
  "stats_ok (Stats a as) \<longleftrightarrow> map stats_type as = stat_child_types (b_type a) \<and> list_all stats_ok as"

definition stats_of :: "LogicalType \<Rightarrow> BaseStatistics \<Rightarrow> bool" where
  "stats_of t s \<longleftrightarrow> stats_ok s \<and> stats_type s = t"

text \<open>
  The children of a value are values of the child types; a NULL struct has none. A string has
  a 32-bit length.
\<close>

fun value_ok :: "Value \<Rightarrow> bool" where
  "value_ok (Value t n w str cs) \<longleftrightarrow>
     (case GetStatsType t of
        STRUCT_STATS \<Rightarrow> if n then cs = [] else map v_type cs = stat_child_types t
      | LIST_STATS \<Rightarrow> length (stat_child_types t) = 1 \<and> (\<forall>c \<in> set cs. stat_child_types t = [v_type c])
      | ARRAY_STATS \<Rightarrow> length (stat_child_types t) = 1 \<and> (\<forall>c \<in> set cs. stat_child_types t = [v_type c])
      | _ \<Rightarrow> True) \<and> length str < 2 ^ 32 \<and> list_all value_ok cs"

lemma stat_child_types_flat [simp]:
  "GetStatsType t = NUMERIC_STATS \<Longrightarrow> stat_child_types t = []"
  "GetStatsType t = STRING_STATS \<Longrightarrow> stat_child_types t = []"
  "GetStatsType t = BASE_STATS \<Longrightarrow> stat_child_types t = []"
  by (simp_all add: stat_child_types_def)

lemma stats_Construct_of [simp]:
  "stats_type (stats_Construct t) = t" "stats_ok (stats_Construct t)"
proof -
  show t: "stats_type (stats_Construct t) = t" for t
    by (simp add: stats_Construct.simps [of t] fresh_data_def)
  show "stats_ok (stats_Construct t)"
  proof (induction t rule: stats_Construct.induct)
    case (1 type)
    then show ?case
      by (simp add: stats_Construct.simps [of type] fresh_data_def t list_all_iff comp_def)
  qed
qed

text \<open>Copying into a statistic of the same type gives the statistic copied.\<close>

lemma copy_data:
  "b_type a = b_type b \<Longrightarrow>
   (CopyBase a b)\<lparr>numeric_data := numeric_data b, string_data := string_data b\<rparr> = b"
  by (cases a; cases b) (simp add: CopyBase_def)

lemma CopyBase_type [simp]: "b_type (CopyBase a b) = b_type a"
  by (simp add: CopyBase_def)

lemma stats_Copy_same:
  "stats_ok s \<Longrightarrow> stats_ok other \<Longrightarrow> stats_type s = stats_type other \<Longrightarrow> stats_Copy s other = other"
  "list_all stats_ok as \<Longrightarrow> list_all stats_ok others \<Longrightarrow> map stats_type as = map stats_type others \<Longrightarrow>
   copy_children as others = others"
proof (induction s other and as others rule: stats_Copy_copy_children.induct)
  case (1 a as other others)
  then show ?case
    by (cases "GetStatsType (b_type other)") (simp_all add: Let_def copy_data)
qed auto

lemma copy_children_create:
  assumes "\<And>t. t \<in> set ts \<Longrightarrow> stats_ok (f t) \<and> stats_type (f t) = t"
  shows "copy_children (map stats_Construct ts) (map f ts) = map f ts"
  using assms by (intro stats_Copy_same(2)) (auto simp: list_all_iff)

lemma stats_copy_same: "stats_ok s \<Longrightarrow> stats_copy s = s"
  by (simp add: stats_copy_def stats_Copy_same)

lemmas init_defs = InitializeUnknown_def InitializeEmpty_def NumericStats_CreateUnknown_def
  NumericStats_CreateEmpty_def StringStats_CreateUnknown_def StringStats_CreateEmpty_def
  fresh_data_def Let_def

lemma CreateUnknown_of [simp]: "stats_ok (CreateUnknown t)" "stats_type (CreateUnknown t) = t"
proof -
  show t: "stats_type (CreateUnknown t) = t" for t
    by (simp add: CreateUnknown.simps [of t] init_defs split: StatisticsType.splits)
  show "stats_ok (CreateUnknown t)"
  proof (induction t rule: CreateUnknown.induct)
    case (1 type)
    have ok: "stats_ok (CreateUnknown c)" if "c \<in> set (stat_child_types type)" for c
      using 1 that by (cases "GetStatsType type") auto
    then have "copy_children (map stats_Construct (stat_child_types type)) (map CreateUnknown (stat_child_types type))
        = map CreateUnknown (stat_child_types type)"
      by (intro copy_children_create) (simp add: t)
    then show ?case
      using ok by (auto simp: CreateUnknown.simps [of type] init_defs t list_all_iff comp_def
          split: StatisticsType.splits)
  qed
qed

lemma CreateEmpty_of [simp]: "stats_ok (CreateEmpty t)" "stats_type (CreateEmpty t) = t"
proof -
  show t: "stats_type (CreateEmpty t) = t" for t
    by (simp add: CreateEmpty.simps [of t] init_defs split: StatisticsType.splits)
  show "stats_ok (CreateEmpty t)"
  proof (induction t rule: CreateEmpty.induct)
    case (1 type)
    have ok: "stats_ok (CreateEmpty c)" if "c \<in> set (stat_child_types type)" "InternalType type \<noteq> PT_BIT" for c
      using 1 that by (cases "GetStatsType type") auto
    then have "copy_children (map stats_Construct (stat_child_types type)) (map CreateEmpty (stat_child_types type))
        = map CreateEmpty (stat_child_types type)" if "InternalType type \<noteq> PT_BIT"
      using that by (intro copy_children_create) (simp add: t)
    then show ?case
      using ok by (auto simp: CreateEmpty.simps [of type] init_defs t list_all_iff comp_def
          split: StatisticsType.splits)
  qed
qed

text \<open>The children of a created statistic are created the same way.\<close>

lemma CreateUnknown_children:
  "child_stats (CreateUnknown t) = map CreateUnknown (stat_child_types t)"
  using copy_children_create [of "stat_child_types t" CreateUnknown]
  by (auto simp: CreateUnknown.simps [of t] Let_def split: StatisticsType.splits)

lemma CreateEmpty_children:
  "GetStatsType t \<noteq> BASE_STATS \<Longrightarrow> child_stats (CreateEmpty t) = map CreateEmpty (stat_child_types t)"
  using copy_children_create [of "stat_child_types t" CreateEmpty]
  by (auto simp: CreateEmpty.simps [of t] Let_def GetStatsType_def split: StatisticsType.splits if_splits)

subsection \<open>The values a statistic admits\<close>

definition string_admits :: "base_data \<Rightarrow> bytes \<Rightarrow> bool" where
  "string_admits a str \<longleftrightarrow>
     (HasMaxStringLength a \<longrightarrow> length str \<le> unat (max_string_length (string_data a))) \<and>
     (type_id (b_type a) = LT_VARCHAR \<and> \<not> has_unicode (string_data a) \<longrightarrow> Analyze str = ASCII)"

text \<open>
  The flags cover the validity of the value, except that NULL entries of a struct are
  ignored; the elements of a list are admitted by the child statistic.
\<close>

lemma size_zip_entry [termination_simp]:
  "(s, x) \<in> set (zip as xs) \<Longrightarrow> size s < Suc (size_list size as)"
  by (induction as xs rule: list_induct2') auto

fun admits :: "bool \<Rightarrow> BaseStatistics \<Rightarrow> Value \<Rightarrow> bool" where
  "admits ignore_null (Stats a as) v \<longleftrightarrow>
     (if v_is_null v then ignore_null \<or> has_null a else has_no_null a) \<and>
     (case GetStatsType (b_type a) of
        STRING_STATS \<Rightarrow> v_is_null v \<or> string_admits a (v_string v)
      | LIST_STATS \<Rightarrow> v_is_null v \<or> (case as of [] \<Rightarrow> True | s # _ \<Rightarrow> list_all (admits False s) (v_children v))
      | ARRAY_STATS \<Rightarrow> v_is_null v \<or> (case as of [] \<Rightarrow> True | s # _ \<Rightarrow> list_all (admits False s) (v_children v))
      | STRUCT_STATS \<Rightarrow> list_all (\<lambda>(s, x). admits True s x) (zip as (v_children v))
      | _ \<Rightarrow> True)"

definition widens :: "BaseStatistics \<Rightarrow> BaseStatistics \<Rightarrow> bool" where
  "widens s t \<longleftrightarrow> (\<forall>ign v. admits ign s v \<longrightarrow> admits ign t v)"

lemma widensD: "widens s t \<Longrightarrow> admits ign s v \<Longrightarrow> admits ign t v"
  by (simp add: widens_def)

lemma widens_refl [simp]: "widens s s"
  by (simp add: widens_def)

text \<open>A node widens when its own data does and its children do.\<close>

lemma widens_entries:
  "list_all2 widens as bs \<Longrightarrow> list_all (\<lambda>(s, x). admits True s x) (zip as xs) \<Longrightarrow>
   list_all (\<lambda>(s, x). admits True s x) (zip bs xs)"
proof (induction arbitrary: xs rule: list_all2_induct)
  case (Cons s as t bs)
  then show ?case by (cases xs) (auto dest: widensD)
qed simp

lemma widens_elements: "widens s t \<Longrightarrow> list_all (admits False s) xs \<Longrightarrow> list_all (admits False t) xs"
  by (auto simp: list_all_iff widens_def)

text \<open>What a value needs besides the flags of its own node.\<close>

definition admits_body :: "BaseStatistics \<Rightarrow> Value \<Rightarrow> bool" where
  "admits_body s v \<longleftrightarrow> admits False (Stats ((base s)\<lparr>has_null := True, has_no_null := True\<rparr>) (child_stats s)) v"

lemma string_admits_flags [simp]:
  "string_admits (a\<lparr>has_null := m\<rparr>) = string_admits a"
  "string_admits (a\<lparr>has_no_null := n\<rparr>) = string_admits a"
  "string_admits (a\<lparr>distinct_count := d\<rparr>) = string_admits a"
  by (auto simp: string_admits_def HasMaxStringLength_def fun_eq_iff)

lemma admits_split:
  "admits ign s v \<longleftrightarrow>
     (if v_is_null v then ign \<or> has_null (base s) else has_no_null (base s)) \<and> admits_body s v"
  by (cases s) (auto simp: admits_body_def split: StatisticsType.splits)

lemma body_node:
  assumes "b_type b = b_type a"
    and "\<And>str. GetStatsType (b_type a) = STRING_STATS \<Longrightarrow> string_admits a str \<Longrightarrow> string_admits b str"
    and "list_all2 widens as bs" and "admits_body (Stats a as) v"
  shows "admits_body (Stats b bs) v"
  using assms(1,2,4) widens_entries [OF assms(3)] assms(3) widens_elements
  unfolding admits_body_def
  by (cases "GetStatsType (b_type a)"; cases as; cases bs) auto

lemma widens_node:
  assumes "b_type b = b_type a" "has_null a \<Longrightarrow> has_null b" "has_no_null a \<Longrightarrow> has_no_null b"
    and "\<And>str. GetStatsType (b_type a) = STRING_STATS \<Longrightarrow> string_admits a str \<Longrightarrow> string_admits b str"
    and "list_all2 widens as bs"
  shows "widens (Stats a as) (Stats b bs)"
  using body_node [OF assms(1,4,5)] assms(2,3) unfolding widens_def admits_split by auto

subsection \<open>Merging\<close>

lemma merge_base_simps [simp]:
  "b_type (merge_base a b) = b_type a" "string_data (merge_base a b) = string_data a"
  "has_null (merge_base a b) = (has_null a \<or> has_null b)"
  "has_no_null (merge_base a b) = (has_no_null a \<or> has_no_null b)"
  by (simp_all add: merge_base_def)

lemma StringStats_Merge_simps [simp]:
  "b_type (StringStats_Merge a b) = b_type a"
  "has_null (StringStats_Merge a b) = has_null a" "has_no_null (StringStats_Merge a b) = has_no_null a"
  by (simp_all add: StringStats_Merge_def Let_def)

lemma StringStats_Merge_admits:
  assumes "b_type a = b_type b" "GetStatsType (b_type a) = STRING_STATS"
    and "string_admits a str \<or> string_admits b str"
  shows "string_admits (StringStats_Merge (merge_base a b) b) str"
proof -
  have "type_id (b_type b) \<noteq> LT_VALIDITY" "type_id (b_type b) \<noteq> LT_SQLNULL"
    using assms(1,2) by (auto simp: GetStatsType_def InternalType_def GetInternalType_def)
  moreover have "unat (max x y) = max (unat x) (unat y)" for x y :: "32 word"
    by (simp add: max_def word_le_nat_alt)
  ultimately show ?thesis
    using assms(1,3)
    by (auto simp: string_admits_def StringStats_Merge_def HasMaxStringLength_def Let_def)
qed

lemma not_validity:
  "GetStatsType t \<in> {LIST_STATS, STRUCT_STATS, ARRAY_STATS} \<Longrightarrow> type_id t \<noteq> LT_VALIDITY"
  by (auto simp: GetStatsType_def InternalType_def GetInternalType_def)

definition merge_data :: "base_data \<Rightarrow> base_data \<Rightarrow> base_data" where
  "merge_data a b =
     (if GetStatsType (b_type a) = STRING_STATS then StringStats_Merge (merge_base a b) b
      else merge_base a b)"

lemma merge_data_type [simp]: "b_type (merge_data a b) = b_type a"
  by (simp add: merge_data_def)

lemma merge_node:
  assumes "b_type a = b_type b" "list_all2 widens as ms" "list_all2 widens bs ms"
  shows "widens (Stats a as) (Stats (merge_data a b) ms) \<and> widens (Stats b bs) (Stats (merge_data a b) ms)"
  using assms StringStats_Merge_admits [OF assms(1)]
  by (intro conjI; intro widens_node) (auto simp: merge_data_def)

lemma stats_Merge_node:
  assumes "b_type a = b_type b" "stats_ok (Stats a as)" "stats_ok (Stats b bs)"
  shows "stats_Merge (Stats a as) (Stats b bs) =
     bind_result (merge_children as bs) (\<lambda>ms. Inr (Stats (merge_data a b) ms))"
  using assms not_validity [of "b_type b"]
  by (cases "GetStatsType (b_type b)") (simp_all add: Let_def merge_data_def)

definition merge_bound :: "BaseStatistics \<Rightarrow> BaseStatistics \<Rightarrow> BaseStatistics \<Rightarrow> bool" where
  "merge_bound s other m \<longleftrightarrow>
     stats_ok m \<and> stats_type m = stats_type s \<and> widens s m \<and> widens other m"

lemma merge_children_bound:
  assumes "list_all stats_ok others" "map stats_type as = map stats_type others"
    and "\<And>s other. s \<in> set as \<Longrightarrow> stats_ok other \<Longrightarrow> stats_type s = stats_type other \<Longrightarrow>
      \<exists>m. stats_Merge s other = Inr m \<and> merge_bound s other m"
  shows "\<exists>ms. merge_children as others = Inr ms \<and> list_all stats_ok ms \<and>
     map stats_type ms = map stats_type as \<and> list_all2 widens as ms \<and> list_all2 widens others ms"
  using assms
proof (induction as others rule: list_induct2')
  case (4 s as other others)
  then obtain m where "stats_Merge s other = Inr m" "merge_bound s other m" by auto
  moreover obtain ms where "merge_children as others = Inr ms" "list_all stats_ok ms"
    "map stats_type ms = map stats_type as" "list_all2 widens as ms" "list_all2 widens others ms"
    using 4 by auto
  ultimately show ?case by (auto simp: merge_bound_def)
qed auto

lemma stats_Merge_bound:
  "stats_ok s \<Longrightarrow> stats_ok other \<Longrightarrow> stats_type s = stats_type other \<Longrightarrow>
   \<exists>m. stats_Merge s other = Inr m \<and> merge_bound s other m"
proof (induction s arbitrary: other)
  case (Stats a as)
  obtain b bs where o: "other = Stats b bs" by (cases other)
  then have t: "b_type a = b_type b" using Stats.prems by simp
  have "\<exists>m. stats_Merge s other = Inr m \<and> merge_bound s other m"
    if "s \<in> set as" "stats_ok other" "stats_type s = stats_type other" for s other
    using Stats.IH [OF that(1)] that Stats.prems(1) by (auto simp: list_all_iff)
  then obtain ms where ms: "merge_children as bs = Inr ms" "list_all stats_ok ms"
    "map stats_type ms = map stats_type as" "list_all2 widens as ms" "list_all2 widens bs ms"
    using merge_children_bound [of bs as] Stats.prems o t by auto
  then show ?case
    using stats_Merge_node [OF t, of as bs] merge_node [OF t ms(4,5)] Stats.prems o
    by (auto simp: merge_bound_def)
qed

subsection \<open>Flags\<close>

lemma body_data:
  "b_type a = b_type (base s) \<Longrightarrow> string_admits a = string_admits (base s) \<Longrightarrow>
   admits_body (Stats a (child_stats s)) v = admits_body s v"
  by (cases s) (auto simp: admits_body_def split: StatisticsType.splits list.splits)

lemma stats_okD:
  "stats_ok s \<Longrightarrow> map stats_type (child_stats s) = stat_child_types (stats_type s)"
  "stats_ok s \<Longrightarrow> list_all stats_ok (child_stats s)"
  by (cases s; simp)+

lemma stats_ok_data:
  "stats_ok s \<Longrightarrow> b_type a = stats_type s \<Longrightarrow> stats_ok (Stats a (child_stats s))"
  by (cases s) simp

text \<open>Same type and well formed, with a body that loses no value.\<close>

definition grows :: "BaseStatistics \<Rightarrow> BaseStatistics \<Rightarrow> bool" where
  "grows s t \<longleftrightarrow> stats_ok t \<and> stats_type t = stats_type s \<and> (\<forall>v. admits_body s v \<longrightarrow> admits_body t v)"

lemma grows_children:
  assumes "\<And>s. s \<in> set as \<Longrightarrow> stats_ok (f s) \<and> stats_type (f s) = stats_type s \<and> widens s (f s)"
    and "stats_ok (Stats a as)" "b_type b = b_type a" "string_admits b = string_admits a"
  shows "grows (Stats a as) (Stats b (map f as))"
proof -
  have "map stats_type (map f as) = map stats_type as" "list_all2 widens as (map f as)"
    using assms(1) by (auto simp: list_all2_conv_all_nth)
  then show ?thesis
    using assms body_node [of b a as "map f as"]
    by (auto simp: grows_def list_all_iff simp del: map_map)
qed

lemma grows_same: "stats_ok (Stats a as) \<Longrightarrow> b_type b = b_type a \<Longrightarrow> string_admits b = string_admits a \<Longrightarrow>
    grows (Stats a as) (Stats b as)"
  using grows_children [of as "\<lambda>s. s" a b] by (simp add: list_all_iff)

lemma SetHasNull_grows:
  "stats_ok s \<Longrightarrow> grows s (SetHasNull s) \<and> has_null (base (SetHasNull s)) \<and>
     has_no_null (base (SetHasNull s)) = has_no_null (base s)"
proof (induction s)
  case (Stats a as)
  have "stats_ok (SetHasNull s) \<and> stats_type (SetHasNull s) = stats_type s \<and> widens s (SetHasNull s)"
    if "s \<in> set as" for s
    using Stats.IH [OF that] Stats.prems that
    unfolding grows_def widens_def admits_split by (auto simp: list_all_iff)
  then show ?case
    using grows_children [of as SetHasNull a "a\<lparr>has_null := True\<rparr>"]
      grows_same [of a as "a\<lparr>has_null := True\<rparr>"] Stats.prems by auto
qed

lemma SetHasNoNull_grows:
  "stats_ok s \<Longrightarrow> grows s (SetHasNoNull s) \<and> has_no_null (base (SetHasNoNull s)) \<and>
     has_null (base (SetHasNoNull s)) = has_null (base s)"
proof (induction s)
  case (Stats a as)
  have "stats_ok (SetHasNoNull s) \<and> stats_type (SetHasNoNull s) = stats_type s \<and> widens s (SetHasNoNull s)"
    if "s \<in> set as" for s
    using Stats.IH [OF that] Stats.prems that
    unfolding grows_def widens_def admits_split by (auto simp: list_all_iff)
  then show ?case
    using grows_children [of as SetHasNoNull a "a\<lparr>has_no_null := True\<rparr>"]
      grows_same [of a as "a\<lparr>has_no_null := True\<rparr>"] Stats.prems by auto
qed

lemma grows_data:
  "stats_ok s \<Longrightarrow> b_type a = stats_type s \<Longrightarrow> string_admits a = string_admits (base s) \<Longrightarrow>
   grows s (Stats a (child_stats s))"
  by (cases s) (auto intro: grows_same)

lemma grows_trans: "grows s t \<Longrightarrow> grows t u \<Longrightarrow> grows s u"
  by (simp add: grows_def)

lemma growsD: "grows s t \<Longrightarrow> stats_ok t" "grows s t \<Longrightarrow> stats_type t = stats_type s"
  "grows s t \<Longrightarrow> admits_body s v \<Longrightarrow> admits_body t v"
  by (simp_all add: grows_def)

lemma SetDistinctCount_grows: "stats_ok s \<Longrightarrow> grows s (SetDistinctCount n s)"
  unfolding SetDistinctCount_def by (intro grows_data) auto

lemma constant_flags_admits:
  assumes "stats_ok s"
  shows "grows s (constant_flags is_null s) \<and>
     (if is_null then has_null (base (constant_flags is_null s)) else has_no_null (base (constant_flags is_null s)))"
proof -
  define s1 where "s1 = SetDistinctCount 1 s"
  have g1: "grows s s1" using SetDistinctCount_grows [OF assms] by (simp add: s1_def)
  note ok1 = growsD(1) [OF g1]
  show ?thesis
  proof (cases is_null)
    case True
    define t where "t = SetHasNull s1"
    have t: "grows s1 t" "has_null (base t)" using SetHasNull_grows [OF ok1] by (simp_all add: t_def)
    have "grows t (Stats ((base t)\<lparr>has_no_null := False\<rparr>) (child_stats t))"
      using growsD(1) [OF t(1)] by (intro grows_data) auto
    then have "grows s (Stats ((base t)\<lparr>has_no_null := False\<rparr>) (child_stats t))"
      using grows_trans g1 t(1) by blast
    then show ?thesis
      using True t(2) by (simp add: constant_flags_def s1_def [symmetric] t_def [symmetric] stats_Set_def)
  next
    case False
    define t where "t = Stats ((base s1)\<lparr>has_null := False\<rparr>) (child_stats s1)"
    have t: "grows s1 t" unfolding t_def using ok1 by (intro grows_data) auto
    have "grows t (SetHasNoNull t)" "has_no_null (base (SetHasNoNull t))"
      using SetHasNoNull_grows [OF growsD(1) [OF t]] by blast+
    moreover from this have "grows s (SetHasNoNull t)" using grows_trans g1 t by blast
    moreover have "constant_flags is_null s = SetHasNoNull t"
      using False unfolding constant_flags_def Let_def s1_def [symmetric]
      by (simp add: t_def stats_Set_def)
    ultimately show ?thesis using False by simp
  qed
qed

subsection \<open>Statistics of a constant\<close>

lemma CreateEmpty_string:
  "GetStatsType t = STRING_STATS \<Longrightarrow>
   string_data (base (CreateEmpty t)) = \<lparr>has_unicode = False, has_max_string_length = True, max_string_length = 0\<rparr>"
  by (simp add: CreateEmpty.simps [of t] init_defs) (auto simp: GetStatsType_def split: if_splits)

lemma string_update_admits:
  assumes "stats_ok s" "GetStatsType (stats_type s) = STRING_STATS" "length str < 2 ^ 32"
  shows "string_update str s = Inl InvalidUnicodeError \<or>
     (\<exists>u. string_update str s = Inr u \<and> stats_ok u \<and> stats_type u = stats_type s \<and> string_admits (base u) str)"
proof -
  have len: "unat (word_of_nat (length str) :: 32 word) = length str"
    using assms(3) by (simp add: unat_of_nat)
  show ?thesis
    using assms(1)
    by (cases "Analyze str") (auto simp: string_update_def StringStats_Update_def Let_def string_admits_def
        HasMaxStringLength_def len stats_okD)
qed

lemma FromNull_ok: "stats_ok (FromNull t) \<and> stats_type (FromNull t) = t \<and> has_null (base (FromNull t))"
proof (induction t rule: FromNull.induct)
  case (1 type)
  have "stats_ok (CreateEmpty type)" "child_stats (CreateEmpty type) = map CreateEmpty (stat_child_types type)"
    if "GetStatsType type = STRUCT_STATS"
    using that CreateEmpty_children by auto
  moreover have "copy_children (map CreateEmpty (stat_child_types type)) (map FromNull (stat_child_types type))
      = map FromNull (stat_child_types type)" if "GetStatsType type = STRUCT_STATS"
    using 1 that by (intro stats_Copy_same(2)) (simp_all add: list_all_iff comp_def cong: map_cong)
  ultimately have "stats_ok (Stats (base (CreateEmpty type))
      (copy_children (child_stats (CreateEmpty type)) (map FromNull (stat_child_types type))))"
    if "GetStatsType type = STRUCT_STATS"
    using 1 that by (simp add: list_all_iff comp_def cong: map_cong)
  then have "\<exists>s. FromNull type = constant_flags True s \<and> stats_ok s \<and> stats_type s = type"
    by (cases "GetStatsType type") (simp_all add: FromNull.simps [of type], auto)
  then obtain s where s: "FromNull type = constant_flags True s" "stats_ok s" "stats_type s = type"
    by blast
  show ?case using constant_flags_admits [OF s(2), of True] s(1,3) by (simp add: grows_def)
qed

text \<open>The statistics of a constant admit it; only invalid UTF-8 is an error.\<close>

definition constant_ok :: "Value \<Rightarrow> bool" where
  "constant_ok v \<longleftrightarrow>
     (case FromConstant v of
        Inl e \<Rightarrow> e = InvalidUnicodeError
      | Inr s \<Rightarrow> stats_ok s \<and> stats_type s = v_type v \<and> admits False s v)"

lemma merge_constants_ok:
  assumes "\<And>v. v \<in> set vs \<Longrightarrow> constant_ok v \<and> v_type v = stats_type acc" "stats_ok acc"
  shows "case merge_constants vs acc of
      Inl e \<Rightarrow> e = InvalidUnicodeError
    | Inr s \<Rightarrow> stats_ok s \<and> stats_type s = stats_type acc \<and> widens acc s \<and> list_all (admits False s) vs"
  using assms
proof (induction vs arbitrary: acc)
  case (Cons v vs)
  show ?case
  proof (cases "FromConstant v")
    case (Inl e)
    then show ?thesis using Cons.prems(1) [of v] by (simp add: constant_ok_def)
  next
    case (Inr s)
    then have s: "stats_ok s" "stats_type s = stats_type acc" "admits False s v"
      using Cons.prems(1) [of v] by (simp_all add: constant_ok_def)
    then obtain m where m: "stats_Merge acc s = Inr m" "merge_bound acc s m"
      using stats_Merge_bound [of acc s] Cons.prems(2) by auto
    have "case merge_constants vs m of Inl e \<Rightarrow> e = InvalidUnicodeError
      | Inr u \<Rightarrow> stats_ok u \<and> stats_type u = stats_type m \<and> widens m u \<and> list_all (admits False u) vs"
      using Cons.prems(1) m(2) by (intro Cons.IH) (auto simp: merge_bound_def)
    then show ?thesis
      using Inr m s(3) by (auto simp: merge_bound_def widens_def split: sum.splits)
  qed
qed simp

lemma set_children_ok:
  assumes "\<And>v. v \<in> set vs \<Longrightarrow> constant_ok v" "list_all stats_ok cs" "map v_type vs = map stats_type cs"
  shows "case set_children vs cs of
      Inl e \<Rightarrow> e = InvalidUnicodeError
    | Inr ss \<Rightarrow> list_all stats_ok ss \<and> map stats_type ss = map stats_type cs \<and>
        list_all (\<lambda>(s, x). admits True s x) (zip ss vs)"
  using assms
proof (induction vs cs rule: list_induct2')
  case (4 v vs c cs)
  show ?case
  proof (cases "FromConstant v")
    case (Inl e)
    then show ?thesis using 4(2) [of v] by (simp add: constant_ok_def)
  next
    case (Inr s)
    then have "stats_ok s" "stats_type s = stats_type c" "admits False s v"
      using 4(2) [of v] 4(4) by (simp_all add: constant_ok_def)
    moreover from this have "stats_Copy c s = s" "admits True s v"
      using 4(3) by (auto simp: stats_Copy_same admits_split)
    ultimately show ?thesis using Inr 4 by (auto split: sum.splits)
  qed
qed auto

lemma constant_flags_ok:
  assumes "stats_ok s" "admits_body s v"
  shows "stats_ok (constant_flags (v_is_null v) s) \<and> stats_type (constant_flags (v_is_null v) s) = stats_type s \<and>
     admits False (constant_flags (v_is_null v) s) v"
  using constant_flags_admits [OF assms(1), of "v_is_null v"] assms(2)
  by (auto simp: grows_def admits_split split: if_splits)

lemma body_flat:
  "GetStatsType (stats_type s) \<in> {NUMERIC_STATS, BASE_STATS} \<Longrightarrow> admits_body s v"
  by (cases s) (auto simp: admits_body_def)

lemma body_null:
  "GetStatsType (stats_type s) \<in> {STRING_STATS, LIST_STATS, ARRAY_STATS} \<Longrightarrow> v_is_null v \<Longrightarrow> admits_body s v"
  by (cases s) (auto simp: admits_body_def)

lemma body_string:
  "GetStatsType (stats_type s) = STRING_STATS \<Longrightarrow> string_admits (base s) (v_string v) \<Longrightarrow> admits_body s v"
  by (cases s) (simp add: admits_body_def)

lemma body_list:
  "GetStatsType (b_type a) \<in> {LIST_STATS, ARRAY_STATS} \<Longrightarrow> list_all (admits False c) (v_children v) \<Longrightarrow>
   admits_body (Stats a (c # as)) v"
  by (auto simp: admits_body_def)

lemma body_struct:
  "GetStatsType (b_type a) = STRUCT_STATS \<Longrightarrow>
   list_all (\<lambda>(s, x). admits True s x) (zip as (v_children v)) \<Longrightarrow> admits_body (Stats a as) v"
  by (simp add: admits_body_def)

lemma CreateEmpty_stats:
  "Stats (base (CreateEmpty t)) (child_stats (CreateEmpty t)) = CreateEmpty t"
  by simp

lemma FromConstant_list:
  assumes t: "GetStatsType t = LIST_STATS \<or> GetStatsType t = ARRAY_STATS"
    and ct: "stat_child_types t = [ct]" and "\<And>c. c \<in> set cs \<Longrightarrow> constant_ok c \<and> v_type c = ct"
  shows "constant_ok (Value t False w str cs)"
proof -
  have ch: "child_stats (CreateEmpty t) = [CreateEmpty ct]"
    using t ct CreateEmpty_children [of t] by auto
  have fc: "FromConstant (Value t False w str cs) =
      bind_result (merge_constants cs (CreateEmpty ct))
        (\<lambda>c. Inr (constant_flags False (Stats (base (CreateEmpty t)) [c])))"
    using t by (auto simp: FromConstant.simps Let_def ch bind_result_def split: sum.splits)
  have "case merge_constants cs (CreateEmpty ct) of Inl e \<Rightarrow> e = InvalidUnicodeError
      | Inr s \<Rightarrow> stats_ok s \<and> stats_type s = ct \<and> widens (CreateEmpty ct) s \<and> list_all (admits False s) cs"
    using merge_constants_ok [of cs "CreateEmpty ct"] assms(3) by (auto split: sum.splits)
  moreover have "stats_ok (constant_flags False (Stats (base (CreateEmpty t)) [c])) \<and>
      stats_type (constant_flags False (Stats (base (CreateEmpty t)) [c])) = t \<and>
      admits False (constant_flags False (Stats (base (CreateEmpty t)) [c])) (Value t False w str cs)"
    if "stats_ok c" "stats_type c = ct" "list_all (admits False c) cs" for c
    using constant_flags_ok [of "Stats (base (CreateEmpty t)) [c]" "Value t False w str cs"] that t ct
      body_list [of "base (CreateEmpty t)" c "Value t False w str cs" "[]"]
    by auto
  ultimately show ?thesis by (auto simp: constant_ok_def fc split: sum.splits)
qed

lemma FromConstant_struct:
  assumes t: "GetStatsType t = STRUCT_STATS"
    and "\<And>c. c \<in> set cs \<Longrightarrow> constant_ok c" "map v_type cs = stat_child_types t"
  shows "constant_ok (Value t False w str cs)"
proof -
  have ch: "child_stats (CreateEmpty t) = map CreateEmpty (stat_child_types t)"
    using t CreateEmpty_children [of t] by auto
  have fc: "FromConstant (Value t False w str cs) =
      bind_result (set_children cs (child_stats (CreateEmpty t)))
        (\<lambda>ss. Inr (constant_flags False (Stats (base (CreateEmpty t)) ss)))"
    using t by (auto simp: FromConstant.simps Let_def bind_result_def split: sum.splits)
  have "case set_children cs (child_stats (CreateEmpty t)) of Inl e \<Rightarrow> e = InvalidUnicodeError
      | Inr ss \<Rightarrow> list_all stats_ok ss \<and> map stats_type ss = stat_child_types t \<and>
          list_all (\<lambda>(s, x). admits True s x) (zip ss cs)"
    using set_children_ok [of cs "child_stats (CreateEmpty t)"] assms(2,3)
    by (auto simp: ch list_all_iff comp_def split: sum.splits)
  moreover have "stats_ok (constant_flags False (Stats (base (CreateEmpty t)) ss)) \<and>
      stats_type (constant_flags False (Stats (base (CreateEmpty t)) ss)) = t \<and>
      admits False (constant_flags False (Stats (base (CreateEmpty t)) ss)) (Value t False w str cs)"
    if "list_all stats_ok ss" "map stats_type ss = stat_child_types t"
      "list_all (\<lambda>(s, x). admits True s x) (zip ss cs)" for ss
    using constant_flags_ok [of "Stats (base (CreateEmpty t)) ss" "Value t False w str cs"] that t
      body_struct [of "base (CreateEmpty t)" ss "Value t False w str cs"]
    by auto
  ultimately show ?thesis by (auto simp: constant_ok_def fc split: sum.splits)
qed

lemma FromConstant_done:
  assumes "stats_ok s" "stats_type s = v_type v" "admits_body s v"
    "FromConstant v = Inr (constant_flags (v_is_null v) s)"
  shows "constant_ok v"
  using constant_flags_ok [OF assms(1,3)] assms(2,4) by (simp add: constant_ok_def)

lemma FromConstant_null_struct:
  assumes t: "GetStatsType t = STRUCT_STATS"
  shows "constant_ok (Value t True w str [])"
proof -
  let ?ss = "map FromNull (stat_child_types t)"
  have "copy_children (child_stats (CreateEmpty t)) ?ss = ?ss"
    using t CreateEmpty_children [of t] FromNull_ok
    by (intro stats_Copy_same(2)) (simp_all add: list_all_iff comp_def)
  then have "FromConstant (Value t True w str []) =
      Inr (constant_flags True (Stats (base (CreateEmpty t)) ?ss))"
    using t by (simp add: FromConstant.simps Let_def)
  then show ?thesis
    using t FromNull_ok body_struct [of "base (CreateEmpty t)" ?ss "Value t True w str []"]
    by (intro FromConstant_done [of "Stats (base (CreateEmpty t)) ?ss"])
      (simp_all add: list_all_iff comp_def)
qed

lemma FromConstant_ok: "value_ok v \<Longrightarrow> constant_ok v"
proof (induction v)
  case (Value t n w str cs)
  let ?v = "Value t n w str cs"
  have cs: "constant_ok c" if "c \<in> set cs" for c
    using Value.IH [OF that] Value.prems that by (auto simp: list_all_iff)
  show ?case
  proof (cases "GetStatsType t")
    case NUMERIC_STATS
    then have "FromConstant ?v = Inr (constant_flags n (CreateEmpty t))"
      by (simp add: FromConstant.simps Let_def NumericStats_SetBound_def)
    then show ?thesis
      using NUMERIC_STATS by (intro FromConstant_done [of "CreateEmpty t"]) (auto intro!: body_flat)
  next
    case BASE_STATS
    then have "FromConstant ?v = Inr (constant_flags n (stats_Construct t))"
      by (simp add: FromConstant.simps Let_def)
    then show ?thesis
      using BASE_STATS by (intro FromConstant_done [of "stats_Construct t"]) (auto intro!: body_flat)
  next
    case STRING_STATS
    show ?thesis
    proof (cases n)
      case True
      then have "FromConstant ?v = Inr (constant_flags True (CreateEmpty t))"
        using STRING_STATS by (simp add: FromConstant.simps Let_def)
      then show ?thesis
        using STRING_STATS True by (intro FromConstant_done [of "CreateEmpty t"]) (auto intro!: body_null)
    next
      case False
      then have fc: "FromConstant ?v = bind_result (string_update str (CreateEmpty t))
          (\<lambda>s. Inr (constant_flags n s))"
        using STRING_STATS by (simp add: FromConstant.simps Let_def)
      have "string_update str (CreateEmpty t) = Inl InvalidUnicodeError \<or>
          (\<exists>u. string_update str (CreateEmpty t) = Inr u \<and> stats_ok u \<and> stats_type u = t \<and>
               string_admits (base u) str)"
        using string_update_admits [of "CreateEmpty t" str] STRING_STATS Value.prems by simp
      then show ?thesis
      proof (elim disjE exE conjE)
        fix u assume u: "string_update str (CreateEmpty t) = Inr u" "stats_ok u" "stats_type u = t"
          "string_admits (base u) str"
        then show ?thesis
          using fc STRING_STATS by (intro FromConstant_done [of u]) (auto intro!: body_string)
      qed (simp add: constant_ok_def fc)
    qed
  next
    case STRUCT_STATS
    then show ?thesis
      using FromConstant_struct [OF STRUCT_STATS cs] FromConstant_null_struct Value.prems by (cases n) auto
  next
    case LIST_STATS
    then obtain ct where "stat_child_types t = [ct]"
      using Value.prems by (auto simp: length_Suc_conv)
    then show ?thesis
      using LIST_STATS Value.prems FromConstant_list [of t ct cs w str] cs body_null [of "CreateEmpty t" ?v]
        FromConstant_done [of "CreateEmpty t" ?v]
      by (cases n) (auto simp: FromConstant.simps Let_def)
  next
    case ARRAY_STATS
    then obtain ct where "stat_child_types t = [ct]"
      using Value.prems by (auto simp: length_Suc_conv)
    then show ?thesis
      using ARRAY_STATS Value.prems FromConstant_list [of t ct cs w str] cs body_null [of "CreateEmpty t" ?v]
        FromConstant_done [of "CreateEmpty t" ?v]
      by (cases n) (auto simp: FromConstant.simps Let_def)
  qed
qed

end
