(* ===== verification/StatsVerify.thy ===== *)
theory StatsVerify
  imports StatsAdmit
begin

text \<open>
  \<open>Verify\<close> decides membership in the set of admitted values, and the properties of the
  statistics objects that rest on that reading.
\<close>

subsection \<open>Well-formed types\<close>

lemma wf_type_child:
  "wf_type t \<Longrightarrow> c \<in> set (stat_child_types t) \<Longrightarrow> wf_type c"
  by (cases t; cases "type_info t")
    (auto simp: stat_child_types_def split: StatisticsType.splits if_splits)

lemma GetStatsType_list: "GetStatsType t = LIST_STATS \<Longrightarrow> InternalType t = PT_LIST"
  "GetStatsType t = ARRAY_STATS \<Longrightarrow> InternalType t = PT_ARRAY"
  by (simp_all add: GetStatsType_def split: if_splits PhysicalType.splits)

lemma wf_type_single:
  "wf_type t \<Longrightarrow> GetStatsType t = LIST_STATS \<or> GetStatsType t = ARRAY_STATS \<Longrightarrow>
   \<exists>c. stat_child_types t = [c]"
  using GetStatsType_list [of t] by (cases t) (auto simp: stat_child_types_def)

lemma value_ok_null: "wf_type t \<Longrightarrow> value_ok (Value_null t)"
  using wf_type_single [of t] by (auto simp: Value_null_def split: StatisticsType.splits)

lemma admits_null: "admits True s (Value_null t)"
  by (cases s) (auto simp: Value_null_def split: StatisticsType.splits)

subsection \<open>Unknown statistics admit every value\<close>

lemma CreateUnknown_flags:
  "has_null (base (CreateUnknown t))" "has_no_null (base (CreateUnknown t))"
  "GetStatsType t = STRING_STATS \<Longrightarrow>
   string_data (base (CreateUnknown t)) = \<lparr>has_unicode = True, has_max_string_length = False, max_string_length = 0\<rparr>"
  by (simp_all add: CreateUnknown.simps [of t] init_defs split: StatisticsType.splits)

lemma CreateUnknown_admits: "value_ok v \<Longrightarrow> admits ign (CreateUnknown (v_type v)) v"
proof (induction v arbitrary: ign)
  case (Value t n w str cs)
  let ?s = "CreateUnknown t"
  have s: "?s = Stats (base ?s) (map CreateUnknown (stat_child_types t))"
    by (metis BaseStatistics.collapse CreateUnknown_children)
  have c: "admits i (CreateUnknown (v_type c)) c" if "c \<in> set cs" for c i
    using Value.IH [OF that] Value.prems that by (auto simp: list_all_iff)
  have list: "admits_body (Stats (base ?s) (map CreateUnknown (stat_child_types t))) (Value t n w str cs)"
    if t: "GetStatsType t = LIST_STATS \<or> GetStatsType t = ARRAY_STATS"
  proof -
    obtain ct where ct: "stat_child_types t = [ct]" "\<forall>c \<in> set cs. v_type c = ct"
      using t Value.prems by (auto simp: length_Suc_conv)
    then have "list_all (admits False (CreateUnknown ct)) cs" using c by (auto simp: list_all_iff)
    then show ?thesis using t ct(1) by (auto intro!: body_list)
  qed
  have "admits_body (Stats (base ?s) (map CreateUnknown (stat_child_types t))) (Value t n w str cs)"
  proof (cases "GetStatsType t")
    case STRUCT_STATS
    then have "n \<and> cs = [] \<or> map v_type cs = stat_child_types t" using Value.prems by (auto split: if_splits)
    moreover have "list_all (\<lambda>(s, x). admits True s x) (zip (map CreateUnknown (map v_type cs)) cs)"
      using c by (auto simp: list_all_iff zip_map1 set_zip)
    ultimately show ?thesis
      using STRUCT_STATS by (intro body_struct) (auto simp del: map_map)
  next
    case LIST_STATS
    then show ?thesis by (intro list) simp
  next
    case ARRAY_STATS
    then show ?thesis by (intro list) simp
  next
    case STRING_STATS
    then show ?thesis
      using CreateUnknown_flags(3) [of t]
      by (intro body_string) (auto simp: string_admits_def HasMaxStringLength_def)
  qed (auto intro!: body_flat)
  then show ?case unfolding admits_split using CreateUnknown_flags s by auto
qed

subsection \<open>Verify\<close>

text \<open>
  The check for Unicode is skipped when the string length is unknown, so it is complete
  only for statistics that know one or the other.
\<close>

fun unicode_checked :: "BaseStatistics \<Rightarrow> bool" where
  "unicode_checked (Stats a as) \<longleftrightarrow>
     (GetStatsType (b_type a) = STRING_STATS \<longrightarrow>
        has_max_string_length (string_data a) \<or> has_unicode (string_data a)) \<and>
     list_all unicode_checked as"

lemma fold_unit: "fold_result f xs () = Inr () \<longleftrightarrow> (\<forall>x \<in> set xs. f x () = Inr ())"
  by (induction xs) (auto simp: bind_result_Inr_iff)

lemma StringStats_Verify_admits:
  assumes "GetStatsType (b_type a) = STRING_STATS"
    "has_max_string_length (string_data a) \<or> has_unicode (string_data a)"
  shows "StringStats_Verify a rows = Inr () \<longleftrightarrow> (\<forall>v \<in> set rows. v_is_null v \<or> string_admits a (v_string v))"
proof -
  have "type_id (b_type a) \<noteq> LT_SQLNULL" using assms(1) by (auto simp: GetStatsType_def)
  then show ?thesis
    using assms(2)
    by (auto simp: StringStats_Verify_def HasMaxStringLength_def fold_unit StringStats_Verify_row_def
        string_admits_def split: if_splits)
qed

lemma verify_entries_iff:
  "verify_entries i as rows = Inr () \<longleftrightarrow>
   (\<forall>k < length as. stats_Verify True (as ! k) (map (entry_row (stats_type (as ! k)) (i + k)) rows) = Inr ())"
proof (induction as arbitrary: i)
  case (Cons c cs)
  have "(\<forall>k < length (c # cs). P k) \<longleftrightarrow> P 0 \<and> (\<forall>k < length cs. P (Suc k))" for P
    by (auto simp: less_Suc_eq_0_disj)
  then show ?case using Cons by (simp add: bind_result_Inr_iff)
qed simp

lemma nested_rows_set: "c \<in> set (nested_rows rows) \<longleftrightarrow> (\<exists>v \<in> set rows. \<not> v_is_null v \<and> c \<in> set (v_children v))"
  by (auto simp: nested_rows_def)

lemma value_ok_element:
  "value_ok v \<Longrightarrow> GetStatsType (v_type v) = LIST_STATS \<or> GetStatsType (v_type v) = ARRAY_STATS \<Longrightarrow>
   c \<in> set (v_children v) \<Longrightarrow> stat_child_types (v_type v) = [v_type c]"
  by (cases v) auto

definition rows_ok :: "LogicalType \<Rightarrow> Value list \<Rightarrow> bool" where
  "rows_ok t rows \<longleftrightarrow> (\<forall>v \<in> set rows. value_ok v \<and> v_type v = t)"

lemma nested_rows_all:
  "list_all P (nested_rows rows) \<longleftrightarrow> (\<forall>v \<in> set rows. v_is_null v \<or> list_all P (v_children v))"
  by (auto simp: nested_rows_def list_all_iff)

lemma value_ok_children:
  "value_ok v \<Longrightarrow> c \<in> set (v_children v) \<Longrightarrow> value_ok c"
  by (cases v) (auto simp: list_all_iff)

lemma verify_validity:
  "fold_result (verify_validity_row ign a) rows () = Inr () \<longleftrightarrow>
   (\<forall>v \<in> set rows. if v_is_null v then ign \<or> has_null a else has_no_null a)"
  by (auto simp: fold_unit verify_validity_row_def split: if_splits)

lemma stats_Verify_body:
  assumes "stats_Verify ign (Stats a as) rows =
     bind_result r (\<lambda>_. if has_null a \<and> has_no_null a then Inr ()
                        else fold_result (verify_validity_row ign a) rows ())"
    and "r = Inr () \<longleftrightarrow> (\<forall>v \<in> set rows. admits_body (Stats a as) v)"
  shows "stats_Verify ign (Stats a as) rows = Inr () \<longleftrightarrow> list_all (admits ign (Stats a as)) rows"
  unfolding assms(1) list_all_iff admits_split
  using assms(2) verify_validity [of ign a rows] by (auto simp: bind_result_Inr_iff)

lemma struct_rows:
  assumes "GetStatsType (b_type a) = STRUCT_STATS" "stats_ok (Stats a as)" "rows_ok (b_type a) rows"
    and "v \<in> set rows"
  shows "admits_body (Stats a as) v \<longleftrightarrow>
     (\<forall>k < length as. admits True (as ! k) (entry_row (stats_type (as ! k)) k v))"
proof -
  have v: "value_ok v" "v_type v = b_type a" using assms(3,4) by (auto simp: rows_ok_def)
  have b: "admits_body (Stats a as) v \<longleftrightarrow>
      (\<forall>k < min (length as) (length (v_children v)). admits True (as ! k) (v_children v ! k))"
    using assms(1) by (auto simp: admits_body_def list_all_length)
  show ?thesis
  proof (cases "v_is_null v")
    case True
    then have "v_children v = []" using v assms(1) by (cases v) auto
    then show ?thesis using b admits_null by (simp add: entry_row_def)
  next
    case False
    then have "map v_type (v_children v) = map stats_type as" using v assms(1,2) by (cases v) auto
    then have "length (v_children v) = length as" using map_eq_imp_length_eq by fastforce
    then show ?thesis using b by (simp add: entry_row_def)
  qed
qed

lemma struct_entries_ok:
  assumes "GetStatsType (b_type a) = STRUCT_STATS" "stats_ok (Stats a as)" "rows_ok (b_type a) rows"
    and "wf_type (b_type a)" "k < length as"
  shows "rows_ok (stats_type (as ! k)) (map (entry_row (stats_type (as ! k)) k) rows)"
proof -
  have ty: "stats_type (as ! k) = stat_child_types (b_type a) ! k"
    "k < length (stat_child_types (b_type a))"
    using assms(2,5) by (auto simp flip: nth_map [of k as stats_type] length_map [of stats_type as] simp del: length_map)
  then have wf: "wf_type (stats_type (as ! k))" using wf_type_child [OF assms(4)] by simp
  have "value_ok (entry_row (stats_type (as ! k)) k v) \<and> v_type (entry_row (stats_type (as ! k)) k v) = stats_type (as ! k)"
    if "v \<in> set rows" for v
  proof (cases "k < length (v_children v)")
    case True
    have v: "value_ok v" "v_type v = b_type a" using assms(3) that by (auto simp: rows_ok_def)
    then have "map v_type (v_children v) = stat_child_types (b_type a)"
      using assms(1) True by (cases v) (auto split: if_splits)
    then have "v_type (v_children v ! k) = stats_type (as ! k)" using ty True by (metis nth_map)
    then show ?thesis using True value_ok_children [OF v(1)] by (simp add: entry_row_def)
  next
    case False
    then show ?thesis using value_ok_null [OF wf] by (simp add: entry_row_def Value_null_def)
  qed
  then show ?thesis by (auto simp: rows_ok_def)
qed

theorem stats_Verify_admits:
  "stats_ok s \<Longrightarrow> wf_type (stats_type s) \<Longrightarrow> unicode_checked s \<Longrightarrow> rows_ok (stats_type s) rows \<Longrightarrow>
   stats_Verify ign s rows = Inr () \<longleftrightarrow> list_all (admits ign s) rows"
proof (induction s arbitrary: ign rows)
  case (Stats a as)
  have IH: "stats_Verify i c rs = Inr () \<longleftrightarrow> list_all (admits i c) rs"
    if "c \<in> set as" "rows_ok (stats_type c) rs" for c i rs
  proof -
    have "stat_child_types (b_type a) = map stats_type as" using Stats.prems(1) by simp
    then have "stats_type c \<in> set (stat_child_types (b_type a))" using that(1) by simp
    then show ?thesis
      using Stats.IH [OF that(1)] that Stats.prems wf_type_child by (auto simp: list_all_iff)
  qed
  have nested: "\<exists>c. as = [c] \<and> rows_ok (stats_type c) (nested_rows rows)"
    if t: "GetStatsType (b_type a) = LIST_STATS \<or> GetStatsType (b_type a) = ARRAY_STATS"
  proof -
    obtain ct where "stat_child_types (b_type a) = [ct]" using wf_type_single [OF _ t] Stats.prems(2) by auto
    moreover from this obtain c where "as = [c]" "stats_type c = ct" using Stats.prems(1) by auto
    moreover have "value_ok x \<and> [v_type x] = stat_child_types (b_type a)"
      if "v \<in> set rows" "x \<in> set (v_children v)" for v x
      using that Stats.prems(4) t value_ok_children [of v x] value_ok_element [of v x] by (auto simp: rows_ok_def)
    ultimately show ?thesis by (auto simp: rows_ok_def nested_rows_set)
  qed
  have lists: "verify_list as rows = Inr () \<longleftrightarrow> (\<forall>v \<in> set rows. admits_body (Stats a as) v)"
    if t: "GetStatsType (b_type a) = LIST_STATS \<or> GetStatsType (b_type a) = ARRAY_STATS"
  proof -
    obtain c where c: "as = [c]" "rows_ok (stats_type c) (nested_rows rows)" using nested [OF t] by blast
    have "admits_body (Stats a [c]) v \<longleftrightarrow> v_is_null v \<or> list_all (admits False c) (v_children v)" for v
      using t by (auto simp: admits_body_def)
    then show ?thesis using IH [of c "nested_rows rows" False] c by (simp add: nested_rows_all)
  qed
  have structs: "verify_entries 0 as rows = Inr () \<longleftrightarrow> (\<forall>v \<in> set rows. admits_body (Stats a as) v)"
    if t: "GetStatsType (b_type a) = STRUCT_STATS"
  proof -
    have "verify_entries 0 as rows = Inr () \<longleftrightarrow>
        (\<forall>k < length as. \<forall>v \<in> set rows. admits True (as ! k) (entry_row (stats_type (as ! k)) k v))"
      using IH struct_entries_ok [OF t Stats.prems(1), of rows] Stats.prems
      by (simp add: verify_entries_iff list_all_iff)
    then show ?thesis using struct_rows [OF t Stats.prems(1), of rows] Stats.prems by auto
  qed
  have strings: "StringStats_Verify a rows = Inr () \<longleftrightarrow> (\<forall>v \<in> set rows. admits_body (Stats a as) v)"
    if "GetStatsType (b_type a) = STRING_STATS"
    using that Stats.prems(3) StringStats_Verify_admits [of a rows] by (auto simp: admits_body_def)
  show ?case
    by (rule stats_Verify_body [OF stats_Verify.simps(1)])
      (use strings lists structs body_flat [of "Stats a as"] in \<open>auto split: StatisticsType.splits\<close>)
qed

end
