(* ===== verification/StatsSerial.thy ===== *)
theory StatsSerial
  imports StatsVerify
begin

text \<open>
  Serialisation of the statistics objects. A serialiser writes properties with their field
  ids; the reader asks for the next id and type and throws when another one follows. An
  object is a nested sequence that has to be read to its end, a list a sequence of objects.
  The pointer of the additional statistic is written and read back as a plain number.
\<close>

subsection \<open>Properties\<close>

datatype Field =
    FBool bool
  | FNumber PhysicalType "128 word"
  | FBytes bytes
  | FObject "(nat \<times> Field) list"
  | FList "Field list"

type_synonym fields = "(nat \<times> Field) list"

definition read_field :: "nat \<Rightarrow> fields \<Rightarrow> (Field \<times> fields) result" where
  "read_field i st =
     (case st of
        [] \<Rightarrow> Inl SerializationException
      | (j, f) # rest \<Rightarrow> if i = j then Inr (f, rest) else Inl SerializationException)"

definition read_flag :: "nat \<Rightarrow> fields \<Rightarrow> (bool \<times> fields) result" where
  "read_flag i st = bind_result (read_field i st)
     (\<lambda>(f, rest). case f of FBool b \<Rightarrow> Inr (b, rest) | _ \<Rightarrow> Inl SerializationException)"

definition read_number :: "nat \<Rightarrow> PhysicalType \<Rightarrow> fields \<Rightarrow> (128 word \<times> fields) result" where
  "read_number i t st = bind_result (read_field i st)
     (\<lambda>(f, rest). case f of
        FNumber u w \<Rightarrow> if u = t then Inr (w, rest) else Inl SerializationException
      | _ \<Rightarrow> Inl SerializationException)"

definition read_bytes :: "nat \<Rightarrow> nat \<Rightarrow> fields \<Rightarrow> (bytes \<times> fields) result" where
  "read_bytes i n st = bind_result (read_field i st)
     (\<lambda>(f, rest). case f of
        FBytes b \<Rightarrow> if length b = n then Inr (b, rest) else Inl SerializationException
      | _ \<Rightarrow> Inl SerializationException)"

text \<open>A property that may be missing.\<close>

definition read_default :: "nat \<Rightarrow> PhysicalType \<Rightarrow> 128 word \<Rightarrow> fields \<Rightarrow> (128 word \<times> fields) result" where
  "read_default i t d st =
     (case st of (j, f) # rest \<Rightarrow> if i = j then read_number i t st else Inr (d, st) | [] \<Rightarrow> Inr (d, st))"

definition read_all :: "(fields \<Rightarrow> ('a \<times> fields) result) \<Rightarrow> Field \<Rightarrow> 'a result" where
  "read_all f x =
     (case x of
        FObject obj \<Rightarrow>
          bind_result (f obj) (\<lambda>(r, rest). if rest = [] then Inr r else Inl SerializationException)
      | _ \<Rightarrow> Inl SerializationException)"

definition read_object :: "nat \<Rightarrow> (fields \<Rightarrow> ('a \<times> fields) result) \<Rightarrow> fields \<Rightarrow> ('a \<times> fields) result" where
  "read_object i f st =
     bind_result (read_field i st) (\<lambda>(x, rest). bind_result (read_all f x) (\<lambda>r. Inr (r, rest)))"

lemma bind_result_cong [fundef_cong]:
  "m = m' \<Longrightarrow> (\<And>x. m' = Inr x \<Longrightarrow> f x = g x) \<Longrightarrow> bind_result m f = bind_result m' g"
  by (cases m) auto

lemma map_result_cong [fundef_cong]:
  "xs = ys \<Longrightarrow> (\<And>x. x \<in> set ys \<Longrightarrow> f x = g x) \<Longrightarrow> map_result f xs = map_result g ys"
proof (induction ys arbitrary: xs)
  case (Cons y ys)
  then show ?case by (cases xs) auto
qed simp

subsection \<open>The numeric part\<close>

text \<open>The member of the union that a physical type selects, as its own bits.\<close>

definition union_member :: "PhysicalType \<Rightarrow> 128 word \<Rightarrow> 128 word result" where
  "union_member t w =
     (case t of
        PT_BOOL \<Rightarrow> Inr (if (ucast w :: 8 word) \<noteq> 0 then 1 else 0)
      | PT_INT8 \<Rightarrow> Inr (ucast (ucast w :: 8 word))
      | PT_INT16 \<Rightarrow> Inr (ucast (ucast w :: 16 word))
      | PT_INT32 \<Rightarrow> Inr (ucast (ucast w :: 32 word))
      | PT_INT64 \<Rightarrow> Inr (ucast (ucast w :: 64 word))
      | PT_UINT8 \<Rightarrow> Inr (ucast (ucast w :: 8 word))
      | PT_UINT16 \<Rightarrow> Inr (ucast (ucast w :: 16 word))
      | PT_UINT32 \<Rightarrow> Inr (ucast (ucast w :: 32 word))
      | PT_UINT64 \<Rightarrow> Inr (ucast (ucast w :: 64 word))
      | PT_INT128 \<Rightarrow> Inr w
      | PT_UINT128 \<Rightarrow> Inr w
      | PT_FLOAT \<Rightarrow> Inr (ucast (ucast w :: 32 word))
      | PT_DOUBLE \<Rightarrow> Inr (ucast (ucast w :: 64 word))
      | _ \<Rightarrow> Inl InternalException)"

definition SerializeNumericStatsValue :: "LogicalType \<Rightarrow> 128 word \<Rightarrow> bool \<Rightarrow> fields result" where
  "SerializeNumericStatsValue type val has_value =
     (if \<not> has_value then Inr [(100, FBool has_value)]
      else bind_result (union_member (InternalType type) val) (\<lambda>w.
        Inr [(100, FBool has_value), (101, FNumber (InternalType type) w)]))"

text \<open>Reads into a union that starts as zero; the flag tells whether a value was there.\<close>

definition DeserializeNumericStatsValue :: "LogicalType \<Rightarrow> fields \<Rightarrow> ((128 word \<times> bool) \<times> fields) result" where
  "DeserializeNumericStatsValue type st =
     bind_result (read_flag 100 st) (\<lambda>(has_value, st).
       if \<not> has_value then Inr ((0, False), st)
       else bind_result (union_member (InternalType type) 0) (\<lambda>_.
            bind_result (read_number 101 (InternalType type) st) (\<lambda>(w, st). Inr ((w, True), st))))"

definition NumericStats_Serialize :: "base_data \<Rightarrow> fields result" where
  "NumericStats_Serialize a =
     (let n = numeric_data a
      in bind_result (SerializeNumericStatsValue (b_type a) (max_bound n) (has_max n)) (\<lambda>mx.
         bind_result (SerializeNumericStatsValue (b_type a) (min_bound n) (has_min n)) (\<lambda>mn.
           Inr [(200, FObject mx), (201, FObject mn)])))"

definition NumericStats_Deserialize :: "base_data \<Rightarrow> fields \<Rightarrow> (base_data \<times> fields) result" where
  "NumericStats_Deserialize a st =
     bind_result (read_object 200 (DeserializeNumericStatsValue (b_type a)) st) (\<lambda>((mx, hmx), st).
     bind_result (read_object 201 (DeserializeNumericStatsValue (b_type a)) st) (\<lambda>((mn, hmn), st).
       Inr (a\<lparr>numeric_data := \<lparr>has_min = hmn, has_max = hmx, min_bound = mn, max_bound = mx\<rparr>\<rparr>, st)))"

subsection \<open>The string part\<close>

definition StringStats_Serialize :: "base_data \<Rightarrow> fields" where
  "StringStats_Serialize a =
     (let d = string_data a
      in [(200, FBytes (replicate 8 0)), (201, FBytes (replicate 8 0)),
          (202, FBool (has_unicode d)), (203, FBool (has_max_string_length d)),
          (204, FNumber PT_UINT32 (ucast (max_string_length d)))])"

definition StringStats_Deserialize :: "base_data \<Rightarrow> fields \<Rightarrow> (base_data \<times> fields) result" where
  "StringStats_Deserialize a st =
     bind_result (read_bytes 200 8 st) (\<lambda>(_, st).
     bind_result (read_bytes 201 8 st) (\<lambda>(_, st).
     bind_result (read_flag 202 st) (\<lambda>(u, st).
     bind_result (read_flag 203 st) (\<lambda>(h, st).
     bind_result (read_number 204 PT_UINT32 st) (\<lambda>(n, st).
       Inr (a\<lparr>string_data := \<lparr>has_unicode = u, has_max_string_length = h, max_string_length = ucast n\<rparr>\<rparr>, st))))))"

subsection \<open>Statistics\<close>

fun stats_Serialize :: "BaseStatistics \<Rightarrow> fields result" where
  "stats_Serialize (Stats a as) =
     bind_result
       (case GetStatsType (b_type a) of
          NUMERIC_STATS \<Rightarrow> NumericStats_Serialize a
        | STRING_STATS \<Rightarrow> Inr (StringStats_Serialize a)
        | LIST_STATS \<Rightarrow>
            (case as of [] \<Rightarrow> Inl OutOfBounds
             | c # _ \<Rightarrow> bind_result (stats_Serialize c) (\<lambda>f. Inr [(200, FObject f)]))
        | ARRAY_STATS \<Rightarrow>
            (case as of [] \<Rightarrow> Inl OutOfBounds
             | c # _ \<Rightarrow> bind_result (stats_Serialize c) (\<lambda>f. Inr [(200, FObject f)]))
        | STRUCT_STATS \<Rightarrow>
            bind_result (map_result stats_Serialize as) (\<lambda>fs. Inr [(200, FList (map FObject fs))])
        | BASE_STATS \<Rightarrow> Inr [])
       (\<lambda>obj. Inr [(100, FBool (has_null a)), (101, FBool (has_no_null a)),
           (102, FNumber PT_UINT64 (ucast (distinct_count a))), (103, FObject obj),
           (104, FNumber PT_UINT64 (ucast (stat_id a))),
           (105, FNumber PT_UINT64 (ucast (additional_ptr a)))])"

lemma zip_child_size [termination_simp]:
  "(t, f) \<in> set (zip (stat_child_types type) fs) \<Longrightarrow> size t < size type"
  by (auto dest: set_zip_leftD stat_child_size)

lemma head_child_size [termination_simp]: "stat_child_types type = t # ts \<Longrightarrow> size t < size type"
  by (auto intro: stat_child_size)

text \<open>
  The type comes from the context of the reader. \<open>body\<close> reads the object of the type, into a
  statistic whose flags and count have been read.
\<close>

definition read_stats ::
  "LogicalType \<Rightarrow> (base_data \<Rightarrow> fields \<Rightarrow> (BaseStatistics \<times> fields) result) \<Rightarrow> fields \<Rightarrow>
   (BaseStatistics \<times> fields) result" where
  "read_stats type body st =
     bind_result (read_flag 100 st) (\<lambda>(hn, st).
     bind_result (read_flag 101 st) (\<lambda>(hnn, st).
     bind_result (read_number 102 PT_UINT64 st) (\<lambda>(dc, st).
     bind_result (read_object 103 (body
         ((fresh_data type)\<lparr>has_null := hn, has_no_null := hnn, distinct_count := ucast dc\<rparr>)) st) (\<lambda>(s, st).
     bind_result (read_default 104 PT_UINT64 (ucast (stat_id (base s))) st) (\<lambda>(i, st).
     bind_result (read_default 105 PT_UINT64 0 st) (\<lambda>(p, st).
       Inr (Stats ((base s)\<lparr>stat_id := ucast i, additional_ptr := ucast p\<rparr>) (child_stats s), st)))))))"

text \<open>
  The children are read in order and copied into the ones the constructor made; a list with
  too many elements runs over their array.
\<close>

fun stats_Deserialize :: "LogicalType \<Rightarrow> fields \<Rightarrow> (BaseStatistics \<times> fields) result" where
  "stats_Deserialize type st =
     (let cs = map stats_Construct (stat_child_types type)
      in read_stats type (\<lambda>a obj.
           case GetStatsType type of
             NUMERIC_STATS \<Rightarrow>
               bind_result (NumericStats_Deserialize a obj) (\<lambda>(a, rest). Inr (Stats a cs, rest))
           | STRING_STATS \<Rightarrow>
               bind_result (StringStats_Deserialize a obj) (\<lambda>(a, rest). Inr (Stats a cs, rest))
           | LIST_STATS \<Rightarrow>
               (case stat_child_types type of
                  [] \<Rightarrow> Inl OutOfBounds
                | t # _ \<Rightarrow> bind_result (read_object 200 (\<lambda>f. stats_Deserialize t f) obj) (\<lambda>(s, rest).
                    Inr (Stats a (copy_children cs [s]), rest)))
           | ARRAY_STATS \<Rightarrow>
               (case stat_child_types type of
                  [] \<Rightarrow> Inl OutOfBounds
                | t # _ \<Rightarrow> bind_result (read_object 200 (\<lambda>f. stats_Deserialize t f) obj) (\<lambda>(s, rest).
                    Inr (Stats a (copy_children cs [s]), rest)))
           | STRUCT_STATS \<Rightarrow>
               bind_result (read_field 200 obj) (\<lambda>(x, rest).
                 case x of
                   FList fs \<Rightarrow>
                     bind_result (map_result (\<lambda>(t, x). read_all (\<lambda>f. stats_Deserialize t f) x)
                         (zip (stat_child_types type) fs)) (\<lambda>ss.
                       if length fs > length (stat_child_types type) then Inl OutOfBounds
                       else Inr (Stats a (copy_children cs ss), rest))
                 | _ \<Rightarrow> Inl SerializationException)
           | BASE_STATS \<Rightarrow> Inr (Stats a cs, obj)) st)"

declare stats_Deserialize.simps [simp del]

subsection \<open>Round trip\<close>

text \<open>
  What the format can carry: a bound that is not set is zero and a set one fits its type, and
  only the union member of the type is in use. Every creator makes such statistics.
\<close>

definition bound_normal :: "LogicalType \<Rightarrow> bool \<Rightarrow> 128 word \<Rightarrow> bool" where
  "bound_normal t h w = (if h then union_member (InternalType t) w = Inr w else w = 0)"

definition data_normal :: "base_data \<Rightarrow> bool" where
  "data_normal a \<longleftrightarrow>
     (if GetStatsType (b_type a) = NUMERIC_STATS
      then bound_normal (b_type a) (has_max (numeric_data a)) (max_bound (numeric_data a)) \<and>
           bound_normal (b_type a) (has_min (numeric_data a)) (min_bound (numeric_data a))
      else numeric_data a = numeric_data (fresh_data (b_type a))) \<and>
     (GetStatsType (b_type a) = STRING_STATS \<or> string_data a = string_data (fresh_data (b_type a)))"

fun serial_normal :: "BaseStatistics \<Rightarrow> bool" where
  "serial_normal (Stats a as) \<longleftrightarrow> data_normal a \<and> list_all serial_normal as"

lemma read_simps [simp]:
  "read_field i ((i, f) # rest) = Inr (f, rest)"
  "read_flag i ((i, FBool b) # rest) = Inr (b, rest)"
  "read_number i t ((i, FNumber t w) # rest) = Inr (w, rest)"
  "read_default i t d ((i, FNumber t w) # rest) = Inr (w, rest)"
  by (simp_all add: read_field_def read_flag_def read_number_def read_default_def)

lemma read_bytes_simp [simp]: "length b = n \<Longrightarrow> read_bytes i n ((i, FBytes b) # rest) = Inr (b, rest)"
  by (simp add: read_bytes_def)

lemma read_object_simp:
  "f obj = Inr (r, []) \<Longrightarrow> read_object i f ((i, FObject obj) # rest) = Inr (r, rest)"
  by (simp add: read_object_def read_all_def)

lemma ucast_up_down [simp]:
  "(ucast (ucast (w :: 64 word) :: 128 word) :: 64 word) = w"
  "(ucast (ucast (v :: 32 word) :: 128 word) :: 32 word) = v"
  by (intro bit_word_eqI; simp add: bit_simps)+

lemma numeric_value_roundtrip:
  assumes "bound_normal t h w" "SerializeNumericStatsValue t w h = Inr obj"
  shows "DeserializeNumericStatsValue t obj = Inr ((w, h), [])"
proof (cases h)
  case True
  then have "union_member (InternalType t) w = Inr w" using assms(1) by (simp add: bound_normal_def)
  moreover from this obtain z where "union_member (InternalType t) 0 = Inr z"
    by (cases "InternalType t") (auto simp: union_member_def)
  ultimately show ?thesis
    using assms True by (auto simp: SerializeNumericStatsValue_def DeserializeNumericStatsValue_def)
next
  case False
  then show ?thesis
    using assms by (auto simp: SerializeNumericStatsValue_def DeserializeNumericStatsValue_def bound_normal_def)
qed

lemma NumericStats_roundtrip:
  assumes "bound_normal (b_type a) (has_max (numeric_data a)) (max_bound (numeric_data a))"
    "bound_normal (b_type a) (has_min (numeric_data a)) (min_bound (numeric_data a))"
    "NumericStats_Serialize a = Inr obj" "b_type b = b_type a"
  shows "NumericStats_Deserialize b obj = Inr (b\<lparr>numeric_data := numeric_data a\<rparr>, [])"
  using assms numeric_value_roundtrip
  by (auto simp: NumericStats_Serialize_def NumericStats_Deserialize_def Let_def bind_result_Inr_iff
      read_object_simp)

lemma StringStats_roundtrip:
  "StringStats_Deserialize b (StringStats_Serialize a) = Inr (b\<lparr>string_data := string_data a\<rparr>, [])"
  by (simp add: StringStats_Serialize_def StringStats_Deserialize_def Let_def)

lemma NumericStats_Serialize_total:
  assumes "data_normal a" "GetStatsType (b_type a) = NUMERIC_STATS"
  shows "\<exists>obj. NumericStats_Serialize a = Inr obj"
  using assms
  by (auto simp: data_normal_def NumericStats_Serialize_def SerializeNumericStatsValue_def bound_normal_def Let_def
      split: if_splits)

lemma children_roundtrip:
  assumes "list_all stats_ok as" "map_result stats_Serialize as = Inr fs"
    and "\<And>s f. s \<in> set as \<Longrightarrow> stats_Serialize s = Inr f \<Longrightarrow> stats_Deserialize (stats_type s) f = Inr (s, [])"
  shows "length fs = length as \<and>
     map_result (\<lambda>(t, x). read_all (\<lambda>f. stats_Deserialize t f) x) (zip (map stats_type as) (map FObject fs)) = Inr as"
  using assms
proof (induction as arbitrary: fs)
  case (Cons s as)
  then obtain f gs where f: "stats_Serialize s = Inr f" "map_result stats_Serialize as = Inr gs" "fs = f # gs"
    by (auto simp: bind_result_Inr_iff)
  then have "stats_Deserialize (stats_type s) f = Inr (s, [])" using Cons.prems(3) by simp
  then show ?case using Cons f by (simp add: read_all_def)
qed simp

lemma construct_copy:
  assumes "stats_ok (Stats a as)"
  shows "copy_children (map stats_Construct (stat_child_types (b_type a))) as = as"
proof -
  have "copy_children (map stats_Construct (map stats_type as)) as = as"
    using assms by (intro stats_Copy_same(2)) (auto simp: list_all_iff comp_def)
  then show ?thesis using assms by (metis stats_ok.simps)
qed

lemma fresh_data_type [simp]: "b_type (fresh_data t) = t"
  by (simp add: fresh_data_def)

lemma read_stats_simp:
  assumes "body ((fresh_data type)\<lparr>has_null := hn, has_no_null := hnn, distinct_count := dc\<rparr>) obj
      = Inr (s, [])"
  shows "read_stats type body ([(100, FBool hn), (101, FBool hnn), (102, FNumber PT_UINT64 (ucast dc)),
      (103, FObject obj), (104, FNumber PT_UINT64 (ucast i)), (105, FNumber PT_UINT64 (ucast p))] @ rest)
    = Inr (Stats ((base s)\<lparr>stat_id := i, additional_ptr := p\<rparr>) (child_stats s), rest)"
  using assms by (simp add: read_stats_def read_object_simp)

lemma read_back:
  assumes "c\<lparr>stat_id := stat_id a, additional_ptr := additional_ptr a\<rparr> = a"
    and "body ((fresh_data type)\<lparr>has_null := has_null a, has_no_null := has_no_null a,
      distinct_count := distinct_count a\<rparr>) obj = Inr (Stats c as, [])"
  shows "read_stats type body ([(100, FBool (has_null a)), (101, FBool (has_no_null a)),
      (102, FNumber PT_UINT64 (ucast (distinct_count a))), (103, FObject obj),
      (104, FNumber PT_UINT64 (ucast (stat_id a))),
      (105, FNumber PT_UINT64 (ucast (additional_ptr a)))] @ rest) = Inr (Stats a as, rest)"
  using read_stats_simp [where body = body and type = type and obj = obj and s = "Stats c as"] assms by simp

lemma read_data:
  assumes "data_normal a"
  shows "GetStatsType (b_type a) = NUMERIC_STATS \<Longrightarrow>
     (fresh_data (b_type a))\<lparr>has_null := has_null a, has_no_null := has_no_null a,
       distinct_count := distinct_count a, numeric_data := numeric_data a,
       stat_id := stat_id a, additional_ptr := additional_ptr a\<rparr> = a"
    "GetStatsType (b_type a) = STRING_STATS \<Longrightarrow>
     (fresh_data (b_type a))\<lparr>has_null := has_null a, has_no_null := has_no_null a,
       distinct_count := distinct_count a, string_data := string_data a,
       stat_id := stat_id a, additional_ptr := additional_ptr a\<rparr> = a"
    "GetStatsType (b_type a) \<notin> {NUMERIC_STATS, STRING_STATS} \<Longrightarrow>
     (fresh_data (b_type a))\<lparr>has_null := has_null a, has_no_null := has_no_null a,
       distinct_count := distinct_count a, stat_id := stat_id a, additional_ptr := additional_ptr a\<rparr> = a"
  using assms by (cases a; simp add: data_normal_def fresh_data_def)+

lemma stats_roundtrip:
  "stats_ok s \<Longrightarrow> serial_normal s \<Longrightarrow> stats_Serialize s = Inr fs \<Longrightarrow>
   stats_Deserialize (stats_type s) (fs @ rest) = Inr (s, rest)"
proof (induction s arbitrary: fs rest)
  case (Stats a as)
  let ?t = "b_type a"
  have n: "data_normal a" using Stats.prems(2) by simp
  have IH: "stats_Deserialize (stats_type s) f = Inr (s, [])" if "s \<in> set as" "stats_Serialize s = Inr f" for s f
    using Stats.IH [OF that(1) _ _ that(2), of "[]"] Stats.prems that(1) by (auto simp: list_all_iff)
  have types: "stat_child_types ?t = map stats_type as" and ok: "list_all stats_ok as"
    using Stats.prems(1) by simp_all
  note copy = construct_copy [OF Stats.prems(1)]
  have single: "copy_children (map stats_Construct (stat_child_types ?t)) [c] = as"
    if "GetStatsType ?t = LIST_STATS \<or> GetStatsType ?t = ARRAY_STATS" "as = c # cs" for c cs
  proof -
    have "length (stat_child_types ?t) \<le> 1" using that(1) by (auto simp: stat_child_types_def)
    then have "cs = []" using that(2) types by (cases cs) auto
    then show ?thesis using copy that(2) by simp
  qed
  obtain obj where fs: "fs = [(100, FBool (has_null a)), (101, FBool (has_no_null a)),
           (102, FNumber PT_UINT64 (ucast (distinct_count a))), (103, FObject obj),
           (104, FNumber PT_UINT64 (ucast (stat_id a))),
           (105, FNumber PT_UINT64 (ucast (additional_ptr a)))]"
    using Stats.prems(3) by (auto simp: bind_result_Inr_iff)
  have "stats_Deserialize ?t (fs @ rest) = Inr (Stats a as, rest)"
  proof (cases "GetStatsType ?t")
    case NUMERIC_STATS
    then have "NumericStats_Serialize a = Inr obj" using Stats.prems(3) fs by (auto simp: bind_result_Inr_iff)
    then have m: "NumericStats_Deserialize b obj = Inr (b\<lparr>numeric_data := numeric_data a\<rparr>, [])"
      if "b_type b = ?t" for b
      using NUMERIC_STATS n NumericStats_roundtrip [of a obj b] that by (simp add: data_normal_def)
    then show ?thesis
      unfolding fs stats_Deserialize.simps [of ?t] Let_def
      using NUMERIC_STATS types by (intro read_back [OF read_data(1) [OF n]]) simp_all
  next
    case STRING_STATS
    then have "StringStats_Serialize a = obj" using Stats.prems(3) fs by (auto simp: bind_result_Inr_iff)
    then show ?thesis
      unfolding fs stats_Deserialize.simps [of ?t] Let_def
      using STRING_STATS types StringStats_roundtrip [of _ a]
      by (intro read_back [OF read_data(2) [OF n]]) simp_all
  next
    case BASE_STATS
    then have "obj = []" using Stats.prems(3) fs by (auto simp: bind_result_Inr_iff)
    then show ?thesis
      unfolding fs stats_Deserialize.simps [of ?t] Let_def
      using BASE_STATS types by (intro read_back [OF read_data(3) [OF n]]) simp_all
  next
    case LIST_STATS
    then obtain c cs f where c: "as = c # cs" "stats_Serialize c = Inr f" "obj = [(200, FObject f)]"
      using Stats.prems(3) fs by (auto simp: bind_result_Inr_iff split: list.splits)
    then show ?thesis
      unfolding fs stats_Deserialize.simps [of ?t] Let_def
      using LIST_STATS types single [OF _ c(1)] IH [of c f]
      by (intro read_back [OF read_data(3) [OF n]]) (simp_all add: read_object_simp)
  next
    case ARRAY_STATS
    then obtain c cs f where c: "as = c # cs" "stats_Serialize c = Inr f" "obj = [(200, FObject f)]"
      using Stats.prems(3) fs by (auto simp: bind_result_Inr_iff split: list.splits)
    then show ?thesis
      unfolding fs stats_Deserialize.simps [of ?t] Let_def
      using ARRAY_STATS types single [OF _ c(1)] IH [of c f]
      by (intro read_back [OF read_data(3) [OF n]]) (simp_all add: read_object_simp)
  next
    case STRUCT_STATS
    then obtain gs where g: "map_result stats_Serialize as = Inr gs" "obj = [(200, FList (map FObject gs))]"
      using Stats.prems(3) fs by (auto simp: bind_result_Inr_iff)
    have "length gs = length as \<and>
        map_result (\<lambda>(t, x). read_all (\<lambda>f. stats_Deserialize t f) x) (zip (map stats_type as) (map FObject gs)) = Inr as"
      using children_roundtrip [OF ok g(1)] IH by blast
    then show ?thesis
      unfolding fs stats_Deserialize.simps [of ?t] Let_def
      using STRUCT_STATS types copy g
      by (intro read_back [OF read_data(3) [OF n]]) simp_all
  qed
  then show ?case by simp
qed

text \<open>Serialising a well-formed statistic never fails.\<close>

lemma stats_Serialize_total:
  "stats_ok s \<Longrightarrow> serial_normal s \<Longrightarrow> wf_type (stats_type s) \<Longrightarrow> \<exists>fs. stats_Serialize s = Inr fs"
proof (induction s)
  case (Stats a as)
  have c: "\<exists>f. stats_Serialize c = Inr f" if "c \<in> set as" for c
  proof -
    have "stat_child_types (b_type a) = map stats_type as" using Stats.prems(1) by simp
    then have "wf_type (stats_type c)" using wf_type_child [of "b_type a"] Stats.prems(3) that by simp
    then show ?thesis using Stats.IH [OF that] Stats.prems that by (auto simp: list_all_iff)
  qed
  have m: "\<exists>fs. map_result stats_Serialize as = Inr fs"
    using map_result_Inr [of as stats_Serialize "\<lambda>c. projr (stats_Serialize c)"] c by fastforce
  have l: "as \<noteq> []" if "GetStatsType (b_type a) = LIST_STATS \<or> GetStatsType (b_type a) = ARRAY_STATS"
    using wf_type_single [OF _ that] Stats.prems by auto
  show ?case
    using c m l NumericStats_Serialize_total [of a] Stats.prems
    by (cases "GetStatsType (b_type a)"; cases as) fastforce+
qed

end
