(* ===== verification/StatsProps.thy ===== *)
theory StatsProps
  imports StatsSerial
begin

text \<open>
  The properties of the statistics objects, over the set of values a statistic admits.
\<close>

lemmas type_eval = GetStatsType_def InternalType_def GetInternalType_def stat_child_types_def

text \<open>Every creator makes a well-formed statistic of its type, and the unknown one admits
  every value of that type.\<close>
theorem created_statistics_ok:
  assumes "value_ok v"
  shows "stats_of (v_type v) (CreateUnknown (v_type v)) \<and> stats_of (v_type v) (CreateEmpty (v_type v)) \<and>
     admits ign (CreateUnknown (v_type v)) v"
  using CreateUnknown_admits [OF assms] by (simp add: stats_of_def)

text \<open>C35: Merging two statistics of one type always succeeds, and the result admits whatever either
  of them admits.\<close>
theorem merge_is_upper_bound:
  assumes "stats_of t s" "stats_of t other"
  shows "\<exists>m. stats_Merge s other = Inr m \<and> stats_of t m \<and>
     (\<forall>ign v. admits ign s v \<or> admits ign other v \<longrightarrow> admits ign m v)"
proof -
  obtain m where "stats_Merge s other = Inr m" "merge_bound s other m"
    using stats_Merge_bound [of s other] assms by (auto simp: stats_of_def)
  then show ?thesis using assms by (auto simp: merge_bound_def stats_of_def widens_def)
qed

lemma merge_is_upper_bound_witness:
  "\<exists>m. stats_Merge (CreateEmpty (LogicalType LT_VARCHAR NoTypeInfo)) (CreateUnknown (LogicalType LT_VARCHAR NoTypeInfo))
      = Inr m \<and> stats_of (LogicalType LT_VARCHAR NoTypeInfo) m \<and>
     (\<forall>ign v. admits ign (CreateEmpty (LogicalType LT_VARCHAR NoTypeInfo)) v \<or>
        admits ign (CreateUnknown (LogicalType LT_VARCHAR NoTypeInfo)) v \<longrightarrow> admits ign m v)"
  by (rule merge_is_upper_bound) (simp_all add: stats_of_def)

text \<open>The statistics made from a constant are well formed and admit it; the only error is
  a string that is not valid UTF-8.\<close>
theorem constant_statistics_admit:
  assumes "value_ok v"
  shows "case FromConstant v of
      Inl e \<Rightarrow> e = InvalidUnicodeError
    | Inr s \<Rightarrow> stats_of (v_type v) s \<and> admits False s v"
  using FromConstant_ok [OF assms] by (auto simp: constant_ok_def stats_of_def split: sum.splits)



text \<open>C37: Serialising a well-formed statistic succeeds, and reading it back in the context of its
  type gives the same statistic and the rest of the stream.\<close>
theorem statistics_roundtrip:
  assumes "stats_of t s" "wf_type t" "serial_normal s"
  shows "\<exists>fs. stats_Serialize s = Inr fs \<and> stats_Deserialize t (fs @ rest) = Inr (s, rest)"
proof -
  obtain fs where "stats_Serialize s = Inr fs"
    using stats_Serialize_total [of s] assms by (auto simp: stats_of_def)
  then show ?thesis using stats_roundtrip [of s fs rest] assms by (auto simp: stats_of_def)
qed

lemma statistics_roundtrip_witness:
  "\<exists>fs. stats_Serialize (CreateEmpty (LogicalType LT_LIST (ListTypeInfo (LogicalType LT_VARCHAR NoTypeInfo)))) = Inr fs \<and>
     stats_Deserialize (LogicalType LT_LIST (ListTypeInfo (LogicalType LT_VARCHAR NoTypeInfo))) (fs @ [])
       = Inr (CreateEmpty (LogicalType LT_LIST (ListTypeInfo (LogicalType LT_VARCHAR NoTypeInfo))), [])"
proof (rule statistics_roundtrip)
  let ?c = "LogicalType LT_VARCHAR NoTypeInfo"
  let ?t = "LogicalType LT_LIST (ListTypeInfo ?c)"
  have c: "serial_normal (CreateEmpty ?c)"
    by (simp add: CreateEmpty.simps type_eval init_defs data_normal_def)
  have s: "GetStatsType ?t = LIST_STATS" "stat_child_types ?t = [?c]" by (simp_all add: type_eval)
  have "child_stats (CreateEmpty ?t) = [CreateEmpty ?c]" using CreateEmpty_children [of ?t] s by simp
  moreover have "data_normal (base (CreateEmpty ?t))"
    by (simp add: CreateEmpty.simps [of ?t] type_eval init_defs data_normal_def)
  ultimately show "serial_normal (CreateEmpty ?t)"
    using c by (metis BaseStatistics.collapse list.pred_inject serial_normal.simps)
  show "wf_type ?t" by (simp add: type_eval)
  show "stats_of ?t (CreateEmpty ?t)" by (simp add: stats_of_def)
qed

end
