(* ===== verification/MinMaxZonemap.thy ===== *)
theory MinMaxZonemap
  imports BaseStats ClusterString
begin

text \<open>
  The checks of a comparison against a minimum and a maximum, and the numeric bounds of a
  statistic (\<open>numeric_stats.cpp\<close>, \<open>string_stats.cpp\<close>). The bounds are kept for decoding old
  segments only: \<open>HasMin\<close> and \<open>HasMax\<close> say no, so the numeric check answers that nothing can
  be pruned. The check against two strings is used with the bounds of a Parquet file.
\<close>

subsection \<open>Bounds of a statistic\<close>

definition GetNumericValueUnion :: "NumericStatsData \<Rightarrow> (128 word \<Rightarrow> 'v) \<Rightarrow> 'v \<times> 'v" where
  "GetNumericValueUnion d member = (member (min_bound d), member (max_bound d))"

definition HasMin :: "base_data \<Rightarrow> bool" where "HasMin a = False"
definition HasMax :: "base_data \<Rightarrow> bool" where "HasMax a = False"

text \<open>The value of a bound has the type of the statistic.\<close>

definition NumericValueUnionToValue :: "LogicalType \<Rightarrow> 128 word \<Rightarrow> Value result" where
  "NumericValueUnionToValue type w =
     (case InternalType type of
        PT_BOOL \<Rightarrow> Inr (Value type False (if (ucast w :: 8 word) \<noteq> 0 then 1 else 0) [] [])
      | PT_INT8 \<Rightarrow> Inr (Value type False (ucast (ucast w :: 8 word)) [] [])
      | PT_INT16 \<Rightarrow> Inr (Value type False (ucast (ucast w :: 16 word)) [] [])
      | PT_INT32 \<Rightarrow> Inr (Value type False (ucast (ucast w :: 32 word)) [] [])
      | PT_INT64 \<Rightarrow> Inr (Value type False (ucast (ucast w :: 64 word)) [] [])
      | PT_UINT8 \<Rightarrow> Inr (Value type False (ucast (ucast w :: 8 word)) [] [])
      | PT_UINT16 \<Rightarrow> Inr (Value type False (ucast (ucast w :: 16 word)) [] [])
      | PT_UINT32 \<Rightarrow> Inr (Value type False (ucast (ucast w :: 32 word)) [] [])
      | PT_UINT64 \<Rightarrow> Inr (Value type False (ucast (ucast w :: 64 word)) [] [])
      | PT_INT128 \<Rightarrow> Inr (Value type False w [] [])
      | PT_UINT128 \<Rightarrow> Inr (Value type False w [] [])
      | PT_FLOAT \<Rightarrow> Inr (Value type False (ucast (ucast w :: 32 word)) [] [])
      | PT_DOUBLE \<Rightarrow> Inr (Value type False (ucast (ucast w :: 64 word)) [] [])
      | _ \<Rightarrow> Inl InternalException)"

definition NumericStats_Min :: "base_data \<Rightarrow> Value result" where
  "NumericStats_Min a =
     (if \<not> HasMin a then Inl InternalException
      else NumericValueUnionToValue (b_type a) (min_bound (numeric_data a)))"

definition NumericStats_Max :: "base_data \<Rightarrow> Value result" where
  "NumericStats_Max a =
     (if \<not> HasMax a then Inl InternalException
      else NumericValueUnionToValue (b_type a) (max_bound (numeric_data a)))"

definition MinOrNull :: "base_data \<Rightarrow> Value result" where
  "MinOrNull a = (if \<not> HasMin a then Inr (Value_null (b_type a)) else NumericStats_Min a)"

definition MaxOrNull :: "base_data \<Rightarrow> Value result" where
  "MaxOrNull a = (if \<not> HasMax a then Inr (Value_null (b_type a)) else NumericStats_Max a)"

text \<open>The third test compares two values of the column's physical type.\<close>

definition HasMinMax :: "base_data \<Rightarrow> bool result" where
  "HasMinMax a =
     (if HasMin a \<and> HasMax a
      then bind_result (NumericStats_Min a) (\<lambda>mn. bind_result (NumericStats_Max a) (\<lambda>mx.
             Inr (typed_holds (InternalType (b_type a)) COMPARE_LESSTHANOREQUALTO mn mx = Some True)))
      else Inr False)"

text \<open>The value of a constant segment, kept with the segment's statistics.\<close>

definition GetStorageConstant :: "base_data \<Rightarrow> Value result" where
  "GetStorageConstant a =
     (let n = numeric_data a;
          no_bound = (if \<not> has_no_null a then NumericValueUnionToValue (b_type a) 0 else Inl InternalException)
      in if has_min n \<and> has_max n
         then bind_result (NumericValueUnionToValue (b_type a) (min_bound n)) (\<lambda>mn.
              bind_result (NumericValueUnionToValue (b_type a) (max_bound n)) (\<lambda>mx.
                if typed_holds (InternalType (b_type a)) COMPARE_NOT_DISTINCT_FROM mn mx = Some True
                then Inr mn else no_bound))
         else no_bound)"

subsection \<open>A comparison against two bounds\<close>

definition CheckZonemapTemplated ::
  "('v, 'z) value_ops_scheme \<Rightarrow> ExpressionType \<Rightarrow> 'v \<Rightarrow> 'v \<Rightarrow> 'v \<Rightarrow> FilterPropagateResult result" where
  "CheckZonemapTemplated ops comparison_type min_value max_value constant =
     (if comparison_type = COMPARE_EQUAL \<or> comparison_type = COMPARE_NOT_DISTINCT_FROM then
        (if ConstantExactRange ops min_value max_value constant then Inr FILTER_ALWAYS_TRUE
         else if ConstantValueInRange ops min_value max_value constant then Inr NO_PRUNING_POSSIBLE
         else Inr FILTER_ALWAYS_FALSE)
      else if comparison_type = COMPARE_NOTEQUAL \<or> comparison_type = COMPARE_DISTINCT_FROM then
        (if \<not> ConstantValueInRange ops min_value max_value constant then Inr FILTER_ALWAYS_TRUE
         else if ConstantExactRange ops min_value max_value constant then Inr FILTER_ALWAYS_FALSE
         else Inr NO_PRUNING_POSSIBLE)
      else if comparison_type = COMPARE_GREATERTHANOREQUALTO then
        (if op_ge ops min_value constant then Inr FILTER_ALWAYS_TRUE
         else if op_ge ops max_value constant then Inr NO_PRUNING_POSSIBLE
         else Inr FILTER_ALWAYS_FALSE)
      else if comparison_type = COMPARE_GREATERTHAN then
        (if op_gt ops min_value constant then Inr FILTER_ALWAYS_TRUE
         else if op_gt ops max_value constant then Inr NO_PRUNING_POSSIBLE
         else Inr FILTER_ALWAYS_FALSE)
      else if comparison_type = COMPARE_LESSTHANOREQUALTO then
        (if op_le ops max_value constant then Inr FILTER_ALWAYS_TRUE
         else if op_le ops min_value constant then Inr NO_PRUNING_POSSIBLE
         else Inr FILTER_ALWAYS_FALSE)
      else if comparison_type = COMPARE_LESSTHAN then
        (if op_lt ops max_value constant then Inr FILTER_ALWAYS_TRUE
         else if op_lt ops min_value constant then Inr NO_PRUNING_POSSIBLE
         else Inr FILTER_ALWAYS_FALSE)
      else Inl InternalException)"

text \<open>Against several constants: the first one that does not rule the comparison out decides.\<close>

fun CheckZonemapConstants ::
  "('v, 'z) value_ops_scheme \<Rightarrow> ExpressionType \<Rightarrow> 'v \<Rightarrow> 'v \<Rightarrow> 'v list \<Rightarrow> FilterPropagateResult result" where
  "CheckZonemapConstants ops comparison_type min_value max_value [] = Inr FILTER_ALWAYS_FALSE"
| "CheckZonemapConstants ops comparison_type min_value max_value (constant # constants) =
     bind_result (CheckZonemapTemplated ops comparison_type min_value max_value constant) (\<lambda>prune_result.
       if prune_result = NO_PRUNING_POSSIBLE then Inr NO_PRUNING_POSSIBLE
       else if prune_result = FILTER_ALWAYS_TRUE then Inr FILTER_ALWAYS_TRUE
       else CheckZonemapConstants ops comparison_type min_value max_value constants)"

definition check_bounds ::
  "('v, 'z) value_ops_scheme \<Rightarrow> (128 word \<Rightarrow> 'v) \<Rightarrow> base_data \<Rightarrow> ExpressionType \<Rightarrow> Value list \<Rightarrow>
   FilterPropagateResult result" where
  "check_bounds ops member a comparison_type constants =
     (let (min_value, max_value) = GetNumericValueUnion (numeric_data a) member
      in CheckZonemapConstants ops comparison_type min_value max_value (map (\<lambda>c. member (v_bits c)) constants))"

definition NumericStats_CheckZonemap ::
  "base_data \<Rightarrow> ExpressionType \<Rightarrow> Value list \<Rightarrow> FilterPropagateResult result" where
  "NumericStats_CheckZonemap a cmp constants =
     bind_result (HasMinMax a) (\<lambda>h.
       if \<not> h then Inr NO_PRUNING_POSSIBLE
       else case InternalType (b_type a) of
         PT_INT8 \<Rightarrow> check_bounds signed_ops (ucast :: _ \<Rightarrow> 8 word) a cmp constants
       | PT_INT16 \<Rightarrow> check_bounds signed_ops (ucast :: _ \<Rightarrow> 16 word) a cmp constants
       | PT_INT32 \<Rightarrow> check_bounds signed_ops (ucast :: _ \<Rightarrow> 32 word) a cmp constants
       | PT_INT64 \<Rightarrow> check_bounds signed_ops (ucast :: _ \<Rightarrow> 64 word) a cmp constants
       | PT_UINT8 \<Rightarrow> check_bounds unsigned_ops (ucast :: _ \<Rightarrow> 8 word) a cmp constants
       | PT_UINT16 \<Rightarrow> check_bounds unsigned_ops (ucast :: _ \<Rightarrow> 16 word) a cmp constants
       | PT_UINT32 \<Rightarrow> check_bounds unsigned_ops (ucast :: _ \<Rightarrow> 32 word) a cmp constants
       | PT_UINT64 \<Rightarrow> check_bounds unsigned_ops (ucast :: _ \<Rightarrow> 64 word) a cmp constants
       | PT_INT128 \<Rightarrow> check_bounds signed_ops (\<lambda>w. w) a cmp constants
       | PT_UINT128 \<Rightarrow> check_bounds unsigned_ops (\<lambda>w. w) a cmp constants
       | PT_FLOAT \<Rightarrow> check_bounds float_ops ucast a cmp constants
       | PT_DOUBLE \<Rightarrow> check_bounds double_ops ucast a cmp constants
       | _ \<Rightarrow> Inl InternalException)"

lemma NumericStats_CheckZonemap_none: "NumericStats_CheckZonemap a cmp constants = Inr NO_PRUNING_POSSIBLE"
  by (simp add: NumericStats_CheckZonemap_def HasMinMax_def HasMin_def)

subsection \<open>Strings\<close>

text \<open>The string statistic has no bounds of its own.\<close>

definition StringStats_CheckZonemap ::
  "base_data \<Rightarrow> ExpressionType \<Rightarrow> Value list \<Rightarrow> FilterPropagateResult result" where
  "StringStats_CheckZonemap a cmp constants = Inr NO_PRUNING_POSSIBLE"

fun StringStats_ValueComparison :: "bytes \<Rightarrow> nat \<Rightarrow> bytes \<Rightarrow> int" where
  "StringStats_ValueComparison data 0 comparison = 0"
| "StringStats_ValueComparison (d # data) (Suc len) (c # comparison) =
     (if d < c then -1 else if d > c then 1 else StringStats_ValueComparison data len comparison)"
| "StringStats_ValueComparison data len comparison = 0"

definition StringStats_CheckZonemap_bounds ::
  "bytes \<Rightarrow> bytes \<Rightarrow> ExpressionType \<Rightarrow> bytes \<Rightarrow> FilterPropagateResult result" where
  "StringStats_CheckZonemap_bounds min_data max_data comparison_type constant =
     (let size = length constant;
          min_comp = StringStats_ValueComparison constant (min (length min_data) size) min_data;
          max_comp = StringStats_ValueComparison constant (min (length max_data) size) max_data
      in if comparison_type = COMPARE_EQUAL \<or> comparison_type = COMPARE_NOT_DISTINCT_FROM then
           (if min_comp \<ge> 0 \<and> max_comp \<le> 0 then Inr NO_PRUNING_POSSIBLE else Inr FILTER_ALWAYS_FALSE)
         else if comparison_type = COMPARE_NOTEQUAL \<or> comparison_type = COMPARE_DISTINCT_FROM then
           (if min_comp < 0 \<or> max_comp > 0 then Inr FILTER_ALWAYS_TRUE else Inr NO_PRUNING_POSSIBLE)
         else if comparison_type = COMPARE_GREATERTHANOREQUALTO \<or> comparison_type = COMPARE_GREATERTHAN then
           (if max_comp \<le> 0 then Inr NO_PRUNING_POSSIBLE else Inr FILTER_ALWAYS_FALSE)
         else if comparison_type = COMPARE_LESSTHAN \<or> comparison_type = COMPARE_LESSTHANOREQUALTO then
           (if min_comp \<ge> 0 then Inr NO_PRUNING_POSSIBLE else Inr FILTER_ALWAYS_FALSE)
         else Inl InternalException)"

subsection \<open>What an answer means\<close>

text \<open>
  For values between the bounds: \<open>FILTER_ALWAYS_FALSE\<close> rules every value out, and
  \<open>FILTER_ALWAYS_TRUE\<close> promises that each one satisfies the comparison with some constant.
\<close>

definition answer_sound ::
  "('v, 'z) value_ops_scheme \<Rightarrow> ExpressionType \<Rightarrow> 'v list \<Rightarrow> 'v \<Rightarrow> FilterPropagateResult \<Rightarrow> bool" where
  "answer_sound ops cmp constants v r \<longleftrightarrow>
     (r = FILTER_ALWAYS_FALSE \<longrightarrow> (\<forall>c \<in> set constants. \<not> compare_holds ops cmp v c)) \<and>
     (r = FILTER_ALWAYS_TRUE \<longrightarrow> (\<exists>c \<in> set constants. compare_holds ops cmp v c))"

context duck_order
begin

lemma CheckZonemapTemplated_sound:
  assumes "op_le ops mn v" "op_le ops v mx" "CheckZonemapTemplated ops cmp mn mx c = Inr r"
  shows "answer_sound ops cmp [c] v r"
proof -
  have o: "\<not> op_gt ops mn v" "\<not> op_gt ops v mx" using assms(1,2) by (simp_all add: op_le_def)
  have "op_gt ops mn c \<Longrightarrow> op_gt ops v c" "op_gt ops v c \<Longrightarrow> op_gt ops mx c"
    using le_gt_trans [OF o(1)] le_gt_trans [OF o(2)] by blast+
  moreover have "op_gt ops c mx \<Longrightarrow> op_gt ops c v" "op_gt ops c v \<Longrightarrow> op_gt ops c mn"
    using gt_le_trans [OF _ o(2)] gt_le_trans [OF _ o(1)] by blast+
  moreover have "op_gt ops c v \<Longrightarrow> \<not> op_gt ops v c" by (rule gt_asym)
  ultimately show ?thesis
    using assms(3)
    by (cases cmp)
      (auto simp: CheckZonemapTemplated_def ConstantExactRange_def ConstantValueInRange_def answer_sound_def
        op_ne_def op_lt_def op_le_def ge_iff eq_iff split: if_splits)
qed

lemma CheckZonemapConstants_sound:
  assumes "op_le ops mn v" "op_le ops v mx" "CheckZonemapConstants ops cmp mn mx cs = Inr r"
  shows "answer_sound ops cmp cs v r"
  using assms(3)
proof (induction cs)
  case (Cons c cs)
  then obtain p where p: "CheckZonemapTemplated ops cmp mn mx c = Inr p"
    and r: "(if p = NO_PRUNING_POSSIBLE then Inr NO_PRUNING_POSSIBLE
       else if p = FILTER_ALWAYS_TRUE then Inr FILTER_ALWAYS_TRUE
       else CheckZonemapConstants ops cmp mn mx cs) = Inr r"
    by (auto simp: bind_result_Inr_iff)
  have "p \<in> {NO_PRUNING_POSSIBLE, FILTER_ALWAYS_TRUE, FILTER_ALWAYS_FALSE}"
    using p by (auto simp: CheckZonemapTemplated_def split: if_splits)
  then show ?case
    using CheckZonemapTemplated_sound [OF assms(1,2) p] r Cons.IH
    by (auto simp: answer_sound_def split: if_splits)
qed (auto simp: answer_sound_def)

end

text \<open>C33: A min/max check over doubles is sound: for values between the bounds, NaN included, an answer
  of always false rules every constant out and always true promises one that matches.\<close>
theorem zonemap_bounds_sound:
  assumes "op_le double_ops mn v" "op_le double_ops v mx"
    and "CheckZonemapConstants double_ops cmp mn mx cs = Inr r"
  shows "answer_sound double_ops cmp cs v r"
  by (rule double_order.CheckZonemapConstants_sound [OF assms])

lemma zonemap_bounds_sound_witness:
  "answer_sound double_ops COMPARE_EQUAL [8, 9] 2 FILTER_ALWAYS_FALSE \<and>
   op_le double_ops 1 2 \<and> op_le double_ops 2 4"
proof -
  have "CheckZonemapConstants double_ops COMPARE_EQUAL 1 4 [8, 9] = Inr FILTER_ALWAYS_FALSE"
    by (simp add: CheckZonemapTemplated_def ConstantExactRange_def ConstantValueInRange_def fp_eval
        op_lt_def op_le_def)
  moreover have "op_le double_ops 1 2" "op_le double_ops 2 4" by (simp_all add: fp_eval op_le_def)
  ultimately show ?thesis using zonemap_bounds_sound [of 1 2 4 COMPARE_EQUAL "[8, 9]"] by blast
qed

subsection \<open>Prefix bounds\<close>

text \<open>A difference within the common prefix decides the order of the strings.\<close>

lemma ValueComparison_less:
  "StringStats_ValueComparison a (min (length b) (length a)) b < 0 \<Longrightarrow> bytes_less a b"
proof (induction a "min (length b) (length a)" b rule: StringStats_ValueComparison.induct)
  case (2 d data len c comparison)
  then show ?case by (auto simp: min_def split: if_splits)
qed auto

lemma ValueComparison_greater:
  "StringStats_ValueComparison a (min (length b) (length a)) b > 0 \<Longrightarrow> bytes_less b a"
proof (induction a "min (length b) (length a)" b rule: StringStats_ValueComparison.induct)
  case (2 d data len c comparison)
  then show ?case by (auto simp: min_def split: if_splits)
qed auto

text \<open>C34: The check of a string constant against the bounds of a Parquet column is sound for every
  value between them.\<close>
theorem string_bounds_sound:
  assumes "op_le string_ops mn v" "op_le string_ops v mx"
    and "StringStats_CheckZonemap_bounds mn mx cmp c = Inr r"
  shows "answer_sound string_ops cmp [c] v r"
proof -
  let ?lo = "StringStats_ValueComparison c (min (length mn) (length c)) mn"
  let ?hi = "StringStats_ValueComparison c (min (length mx) (length c)) mx"
  have o: "\<not> bytes_less v mn" "\<not> bytes_less mx v" using assms(1,2) by (simp_all add: op_le_def string_ops_def)
  have lo: "?lo < 0 \<Longrightarrow> bytes_less c v"
    using ValueComparison_less [of c mn] o(1) bytes_less_trans [of c mn v] bytes_less_total [of v mn] by blast
  have hi: "?hi > 0 \<Longrightarrow> bytes_less v c"
    using ValueComparison_greater [of c mx] o(2) bytes_less_trans [of v mx c] bytes_less_total [of mx v] by blast
  show ?thesis
    using assms(3) lo hi bytes_less_asym [of c v]
    by (cases cmp)
      (auto simp: StringStats_CheckZonemap_bounds_def Let_def answer_sound_def string_ops_def op_ne_def
        op_lt_def op_le_def not_le dest: bytes_less_asym split: if_splits)
qed

lemma string_bounds_sound_witness:
  "answer_sound string_ops COMPARE_EQUAL [[9, 9]] [5, 7] FILTER_ALWAYS_FALSE"
proof -
  have "StringStats_CheckZonemap_bounds [5] [6, 1] COMPARE_EQUAL [9, 9] = Inr FILTER_ALWAYS_FALSE"
    by (simp add: StringStats_CheckZonemap_bounds_def)
  moreover have "op_le string_ops [5] [5, 7]" "op_le string_ops [5, 7] [6, 1]"
    by (simp_all add: op_le_def string_ops_def)
  ultimately show ?thesis using string_bounds_sound [of "[5]" "[5, 7]" "[6, 1]" COMPARE_EQUAL "[9, 9]"] by blast
qed

end
