(* ===== verification/ValueOps.thy ===== *)
theory ValueOps
  imports StatsAdmit
begin

text \<open>
  Comparison of whole values (\<open>common/value_operations/comparison_operations.cpp\<close>): the
  template \<open>TemplatedBooleanOperation\<close> at \<open>Equals\<close> and \<open>GreaterThan\<close>, the position by
  position comparison of nested values, and the operations derived from the two. Values of
  two types are cast to a common one first, and a variant is converted to a value; both go
  on as \<open>CastRequired\<close>.
\<close>

subsection \<open>Intervals\<close>

text \<open>
  \<open>interval_t\<close> (\<open>common/types/interval.hpp\<close>): months, days and microseconds, in this order in
  memory. \<open>Normalize\<close> works in signed 64-bit integers, whose division truncates; none of the
  sums overflows, so the integers are unbounded here.
\<close>

definition MICROS_PER_DAY :: int where "MICROS_PER_DAY = 86400000000"

definition DAYS_PER_MONTH :: int where "DAYS_PER_MONTH = 30"

definition interval_of :: "Value \<Rightarrow> int \<times> int \<times> int" where
  "interval_of v =
     (sint (ucast (v_bits v) :: 32 word), sint (ucast (drop_bit 32 (v_bits v)) :: 32 word),
      sint (ucast (drop_bit 64 (v_bits v)) :: 64 word))"

definition trunc_div :: "int \<Rightarrow> int \<Rightarrow> int" where
  "trunc_div a b = sgn a * sgn b * (\<bar>a\<bar> div \<bar>b\<bar>)"

definition interval_Normalize :: "int \<times> int \<times> int \<Rightarrow> int \<times> int \<times> int" where
  "interval_Normalize input =
     (let (in_months, in_days, micros) = input;
          carry_days = trunc_div micros MICROS_PER_DAY;
          micros = micros - carry_days * MICROS_PER_DAY;
          days = in_days + carry_days;
          carry_months = trunc_div days DAYS_PER_MONTH;
          days = days - carry_months * DAYS_PER_MONTH
      in (in_months + carry_months, days, micros))"

definition interval_eq :: "int \<times> int \<times> int \<Rightarrow> int \<times> int \<times> int \<Rightarrow> bool" where
  "interval_eq left right = (left = right \<or> interval_Normalize left = interval_Normalize right)"

definition interval_gt :: "int \<times> int \<times> int \<Rightarrow> int \<times> int \<times> int \<Rightarrow> bool" where
  "interval_gt left right =
     (let (lmonths, ldays, lmicros) = interval_Normalize left;
          (rmonths, rdays, rmicros) = interval_Normalize right
      in if lmonths > rmonths then True
         else if lmonths < rmonths then False
         else if ldays > rdays then True
         else if ldays < rdays then False
         else lmicros > rmicros)"

subsection \<open>The template\<close>

text \<open>
  \<open>GreaterThan\<close> is the template at \<open>True\<close>, \<open>Equals\<close> at \<open>False\<close>. The comparisons that treat
  NULL as a value wrap the comparison of two values that are not NULL.
\<close>

definition null_equal :: "Value \<Rightarrow> Value \<Rightarrow> bool result \<Rightarrow> bool result" where
  "null_equal left right e =
     (if v_is_null left \<and> v_is_null right then Inr True
      else if v_is_null left \<noteq> v_is_null right then Inr False
      else e)"

definition null_greater :: "Value \<Rightarrow> Value \<Rightarrow> bool result \<Rightarrow> bool result" where
  "null_greater left right g =
     (if v_is_null left \<and> v_is_null right then Inr False
      else if v_is_null right then Inr False
      else if v_is_null left then Inr True
      else g)"

definition tie_break :: "bool \<Rightarrow> nat \<Rightarrow> nat \<Rightarrow> bool" where
  "tie_break gt lpos rpos = (if gt then lpos > rpos else lpos = rpos)"

definition leaf_op :: "bool \<Rightarrow> Value \<Rightarrow> Value \<Rightarrow> bool result" where
  "leaf_op gt left right =
     (case InternalType (v_type left) of
        PT_INTERVAL \<Rightarrow> Inr (if gt then interval_gt (interval_of left) (interval_of right)
                           else interval_eq (interval_of left) (interval_of right))
      | PT_VARCHAR \<Rightarrow>
          bind_result (StringValue_Get left) (\<lambda>l. bind_result (StringValue_Get right) (\<lambda>r.
            Inr (if gt then op_gt string_ops l r else op_eq string_ops l r)))
      | t \<Rightarrow> (case typed_holds t (if gt then COMPARE_GREATERTHAN else COMPARE_EQUAL) left right of
               Some b \<Rightarrow> Inr b
             | None \<Rightarrow> Inl InternalException))"

text \<open>
  The sizes still to compare at a tie are the sizes less the common position. A struct reads
  its last field without a test, which for a struct without fields is out of bounds.
\<close>

fun value_op :: "bool \<Rightarrow> Value \<Rightarrow> Value \<Rightarrow> bool result"
and struct_loop :: "bool \<Rightarrow> Value list \<Rightarrow> Value list \<Rightarrow> bool result"
and list_loop :: "bool \<Rightarrow> Value list \<Rightarrow> Value list \<Rightarrow> bool result"
and array_loop :: "bool \<Rightarrow> Value list \<Rightarrow> Value list \<Rightarrow> bool result" where
  "value_op gt (Value t n w s ls) right =
     (if t \<noteq> v_type right then Inl CastRequired
      else case InternalType t of
        PT_STRUCT \<Rightarrow>
          if type_id t = LT_VARIANT then Inl CastRequired
          else if n \<or> v_is_null right then Inl InternalException
          else struct_loop gt ls (v_children right)
      | PT_LIST \<Rightarrow> if n \<or> v_is_null right then Inl InternalException
          else list_loop gt ls (v_children right)
      | PT_ARRAY \<Rightarrow> if n \<or> v_is_null right then Inl InternalException
          else array_loop gt ls (v_children right)
      | _ \<Rightarrow> leaf_op gt (Value t n w s ls) right)"
| "struct_loop gt [] rs = Inl OutOfBounds"
| "struct_loop gt (l # ls) [] = Inl OutOfBounds"
| "struct_loop gt (l # ls) (r # rs) =
     (if ls = []
      then (if gt then null_greater l r (value_op True l r) else null_equal l r (value_op False l r))
      else bind_result (if gt then null_greater l r (value_op True l r) else Inr False) (\<lambda>definite.
        if definite then Inr True
        else bind_result (null_equal l r (value_op False l r)) (\<lambda>possible.
          if \<not> possible then Inr False else struct_loop gt ls rs)))"
| "list_loop gt [] rs = Inr (tie_break gt 0 (length rs))"
| "list_loop gt (l # ls) [] = Inr (tie_break gt (length (l # ls)) 0)"
| "list_loop gt (l # ls) (r # rs) =
     bind_result (if gt then null_greater l r (value_op True l r) else Inr False) (\<lambda>definite.
       if definite then Inr True
       else bind_result (null_equal l r (value_op False l r)) (\<lambda>possible.
         if \<not> possible then Inr False else list_loop gt ls rs))"
| "array_loop gt [] rs = Inr True"
| "array_loop gt (l # ls) [] = Inl OutOfBounds"
| "array_loop gt (l # ls) (r # rs) =
     bind_result (if gt then null_greater l r (value_op True l r) else Inr False) (\<lambda>definite.
       if definite then Inr True
       else bind_result (null_equal l r (value_op False l r)) (\<lambda>possible.
         if \<not> possible then Inr False else array_loop gt ls rs))"

declare value_op.simps [simp del]

subsection \<open>The operations\<close>

definition map_ok :: "('a \<Rightarrow> 'b) \<Rightarrow> 'a result \<Rightarrow> 'b result" where
  "map_ok f m = bind_result m (\<lambda>x. Inr (f x))"

definition ValueOperations_Equals :: "Value \<Rightarrow> Value \<Rightarrow> bool result" where
  "ValueOperations_Equals left right =
     (if v_is_null left \<or> v_is_null right then Inl InternalException else value_op False left right)"

definition ValueOperations_NotEquals :: "Value \<Rightarrow> Value \<Rightarrow> bool result" where
  "ValueOperations_NotEquals left right = map_ok Not (ValueOperations_Equals left right)"

definition ValueOperations_GreaterThan :: "Value \<Rightarrow> Value \<Rightarrow> bool result" where
  "ValueOperations_GreaterThan left right =
     (if v_is_null left \<or> v_is_null right then Inl InternalException else value_op True left right)"

definition ValueOperations_GreaterThanEquals :: "Value \<Rightarrow> Value \<Rightarrow> bool result" where
  "ValueOperations_GreaterThanEquals left right = map_ok Not (ValueOperations_GreaterThan right left)"

definition ValueOperations_LessThan :: "Value \<Rightarrow> Value \<Rightarrow> bool result" where
  "ValueOperations_LessThan left right = ValueOperations_GreaterThan right left"

definition ValueOperations_LessThanEquals :: "Value \<Rightarrow> Value \<Rightarrow> bool result" where
  "ValueOperations_LessThanEquals left right = map_ok Not (ValueOperations_GreaterThan left right)"

definition NotDistinctFrom_value :: "Value \<Rightarrow> Value \<Rightarrow> bool result" where
  "NotDistinctFrom_value left right = null_equal left right (value_op False left right)"

definition DistinctFrom_value :: "Value \<Rightarrow> Value \<Rightarrow> bool result" where
  "DistinctFrom_value left right = map_ok Not (NotDistinctFrom_value left right)"

definition DistinctGreaterThan_value :: "Value \<Rightarrow> Value \<Rightarrow> bool result" where
  "DistinctGreaterThan_value left right = null_greater left right (value_op True left right)"

definition DistinctGreaterThanEquals_value :: "Value \<Rightarrow> Value \<Rightarrow> bool result" where
  "DistinctGreaterThanEquals_value left right = map_ok Not (DistinctGreaterThan_value right left)"

definition DistinctLessThan_value :: "Value \<Rightarrow> Value \<Rightarrow> bool result" where
  "DistinctLessThan_value left right = DistinctGreaterThan_value right left"

definition DistinctLessThanEquals_value :: "Value \<Rightarrow> Value \<Rightarrow> bool result" where
  "DistinctLessThanEquals_value left right = map_ok Not (DistinctGreaterThan_value left right)"


subsection \<open>Comparable types\<close>

text \<open>
  The types whose values compare without a cast and without an error, all the way down:
  everything but variants, arrays, structs without fields and the physical types without a
  comparison.
\<close>

fun comparable_type :: "LogicalType \<Rightarrow> bool" where
  "comparable_type t \<longleftrightarrow>
     (case InternalType t of
        PT_STRUCT \<Rightarrow> type_id t \<noteq> LT_VARIANT \<and> GetStatsType t = STRUCT_STATS \<and>
          stat_child_types t \<noteq> [] \<and> (\<forall>c \<in> set (stat_child_types t). comparable_type c)
      | PT_LIST \<Rightarrow> GetStatsType t = LIST_STATS \<and> (\<forall>c \<in> set (stat_child_types t). comparable_type c)
      | p \<Rightarrow> p = PT_INTERVAL \<or> p \<in> {PT_BOOL, PT_INT8, PT_INT16, PT_INT32, PT_INT64, PT_INT128, PT_UINT8,
          PT_UINT16, PT_UINT32, PT_UINT64, PT_UINT128, PT_FLOAT, PT_DOUBLE, PT_VARCHAR})"

declare comparable_type.simps [simp del]

text \<open>Exactly one of the three holds, with both equality tests agreeing.\<close>

definition one_of_three :: "bool result \<Rightarrow> bool result \<Rightarrow> bool result \<Rightarrow> bool result \<Rightarrow> bool" where
  "one_of_three eq eq' gt gt' \<longleftrightarrow>
     (eq = Inr True \<and> eq' = Inr True \<and> gt = Inr False \<and> gt' = Inr False) \<or>
     (eq = Inr False \<and> eq' = Inr False \<and> gt = Inr True \<and> gt' = Inr False) \<or>
     (eq = Inr False \<and> eq' = Inr False \<and> gt = Inr False \<and> gt' = Inr True)"

definition ordered_pair :: "Value \<Rightarrow> Value \<Rightarrow> bool" where
  "ordered_pair l r \<longleftrightarrow>
     one_of_three (NotDistinctFrom_value l r) (NotDistinctFrom_value r l)
       (DistinctGreaterThan_value l r) (DistinctGreaterThan_value r l)"

lemma interval_trichotomy:
  "one_of_three (Inr (interval_eq a b)) (Inr (interval_eq b a)) (Inr (interval_gt a b)) (Inr (interval_gt b a))"
proof -
  have eq: "interval_eq x y \<longleftrightarrow> interval_Normalize x = interval_Normalize y" for x y
    by (auto simp: interval_eq_def)
  obtain am ad au where a: "interval_Normalize a = (am, ad, au)" by (metis prod_cases3)
  obtain bm bd bu where b: "interval_Normalize b = (bm, bd, bu)" by (metis prod_cases3)
  have gt: "interval_gt a b \<longleftrightarrow> am > bm \<or> am = bm \<and> (ad > bd \<or> ad = bd \<and> au > bu)"
    "interval_gt b a \<longleftrightarrow> bm > am \<or> bm = am \<and> (bd > ad \<or> bd = ad \<and> bu > au)"
    by (simp_all add: interval_gt_def a b)
  show ?thesis by (simp add: eq gt a b one_of_three_def) linarith
qed

context duck_order
begin

lemma compare_trichotomy:
  "one_of_three (Inr (compare_holds ops COMPARE_EQUAL a b)) (Inr (compare_holds ops COMPARE_EQUAL b a))
     (Inr (compare_holds ops COMPARE_GREATERTHAN a b)) (Inr (compare_holds ops COMPARE_GREATERTHAN b a))"
proof -
  have e: "compare_holds ops COMPARE_EQUAL x y = (\<not> op_gt ops x y \<and> \<not> op_gt ops y x)"
    "compare_holds ops COMPARE_GREATERTHAN x y = op_gt ops x y" for x y
    by (simp_all only: compare_holds.simps eq_iff)
  show ?thesis
    using gt_asym [of a b] unfolding e one_of_three_def by simp blast
qed

end

lemma null_ordered:
  "(\<not> v_is_null l \<Longrightarrow> \<not> v_is_null r \<Longrightarrow>
     one_of_three (value_op False l r) (value_op False r l) (value_op True l r) (value_op True r l)) \<Longrightarrow>
   ordered_pair l r"
  by (auto simp: ordered_pair_def NotDistinctFrom_value_def DistinctGreaterThan_value_def null_equal_def
      null_greater_def one_of_three_def)

lemma ordered_pair_iff:
  "ordered_pair l r \<longleftrightarrow>
     one_of_three (null_equal l r (value_op False l r)) (null_equal r l (value_op False r l))
       (null_greater l r (value_op True l r)) (null_greater r l (value_op True r l))"
  by (simp add: ordered_pair_def NotDistinctFrom_value_def DistinctGreaterThan_value_def)

lemma list_loop_trichotomy:
  assumes "\<And>l r. l \<in> set ls \<Longrightarrow> r \<in> set rs \<Longrightarrow> ordered_pair l r"
  shows "one_of_three (list_loop False ls rs) (list_loop False rs ls) (list_loop True ls rs) (list_loop True rs ls)"
  using assms
proof (induction ls rs rule: list_induct2')
  case (4 l ls r rs)
  have "ordered_pair l r" using 4 by simp
  then show ?case
    using 4 unfolding ordered_pair_iff one_of_three_def by (elim disjE conjE) simp_all
qed (simp_all add: one_of_three_def tie_break_def)

lemma struct_loop_trichotomy:
  assumes "length ls = length rs" "ls \<noteq> []" "\<And>l r. (l, r) \<in> set (zip ls rs) \<Longrightarrow> ordered_pair l r"
  shows "one_of_three (struct_loop False ls rs) (struct_loop False rs ls) (struct_loop True ls rs) (struct_loop True rs ls)"
  using assms
proof (induction ls rs rule: list_induct2)
  case (Cons l ls r rs)
  have o: "ordered_pair l r" using Cons.prems(2) [of l r] by simp
  show ?case
  proof (cases "ls = []")
    case True
    then show ?thesis using Cons.hyps o by (simp add: ordered_pair_iff)
  next
    case False
    moreover have "rs \<noteq> []" using False Cons.hyps by auto
    ultimately show ?thesis
      using o Cons.IH Cons.prems(2) unfolding ordered_pair_iff one_of_three_def
      by (elim disjE conjE) simp_all
  qed
qed simp

text \<open>A leaf comparison is one of the comparisons of its physical type.\<close>

lemmas leaf_orders = bool_order.compare_trichotomy unsigned_order.compare_trichotomy
  signed_order.compare_trichotomy float_order.compare_trichotomy double_order.compare_trichotomy

lemma leaf_trichotomy:
  assumes "v_type l = v_type r" "comparable_type (v_type l)" "\<not> v_is_null l" "\<not> v_is_null r"
    and "InternalType (v_type l) \<notin> {PT_STRUCT, PT_LIST, PT_ARRAY}"
  shows "one_of_three (leaf_op False l r) (leaf_op False r l) (leaf_op True l r) (leaf_op True r l)"
proof (cases "InternalType (v_type l) = PT_VARCHAR")
  case True
  then show ?thesis
    using assms string_order.compare_trichotomy [of "v_string l" "v_string r"]
    by (simp add: leaf_op_def StringValue_Get_def)
next
  case False
  have [simp]: "InternalType (v_type r) = InternalType (v_type l)" using assms(1) by simp
  show ?thesis
    using False assms(2,5)
    by (cases "InternalType (v_type l)")
      (simp_all add: leaf_op_def comparable_type.simps [of "v_type l"] typed_holds_def interval_trichotomy
        leaf_orders [simplified compare_holds.simps])
qed

lemma value_op_leaf:
  "v_type l = v_type r \<Longrightarrow> InternalType (v_type l) \<notin> {PT_STRUCT, PT_LIST, PT_ARRAY} \<Longrightarrow>
   value_op gt l r = leaf_op gt l r"
  by (cases l) (auto simp: value_op.simps split: PhysicalType.splits)


lemma zip_children_types:
  assumes "map v_type ls = ts" "map v_type rs = ts" "(l, r) \<in> set (zip ls rs)"
  shows "l \<in> set ls \<and> r \<in> set rs \<and> v_type l = v_type r \<and> v_type l \<in> set ts"
proof -
  have "v_type l = v_type r" using assms(3) assms(2) unfolding assms(1) [symmetric]
    by (induction ls rs rule: list_induct2') auto
  moreover have "v_type l \<in> set ts" using set_zip_leftD [OF assms(3)] assms(1) by force
  ultimately show ?thesis using set_zip_leftD [OF assms(3)] set_zip_rightD [OF assms(3)] by simp
qed

lemma comparable_ordered:
  "comparable_type t \<Longrightarrow> v_type l = t \<Longrightarrow> v_type r = t \<Longrightarrow> value_ok l \<Longrightarrow> value_ok r \<Longrightarrow> ordered_pair l r"
proof (induction t arbitrary: l r rule: comparable_type.induct)
  case (1 t)
  obtain nl wl sl ls where l: "l = Value t nl wl sl ls" using "1.prems"(2) by (cases l) auto
  obtain nr wr sr rs where r: "r = Value t nr wr sr rs" using "1.prems"(3) by (cases r) auto
  note ok = "1.prems"(4,5) [unfolded l r value_ok.simps list_all_iff]
  show ?case
  proof (rule null_ordered)
    assume nn: "\<not> v_is_null l" "\<not> v_is_null r"
    consider (struct) "InternalType t = PT_STRUCT" | (list) "InternalType t = PT_LIST"
      | (array) "InternalType t = PT_ARRAY" | (leaf) "InternalType t \<notin> {PT_STRUCT, PT_LIST, PT_ARRAY}"
      by blast
    then show "one_of_three (value_op False l r) (value_op False r l) (value_op True l r) (value_op True r l)"
    proof cases
      case struct
      then have c: "type_id t \<noteq> LT_VARIANT" "GetStatsType t = STRUCT_STATS" "stat_child_types t \<noteq> []"
        "\<forall>c \<in> set (stat_child_types t). comparable_type c"
        using "1.prems"(1) by (simp_all add: comparable_type.simps [of t])
      then have ty: "map v_type ls = stat_child_types t" "map v_type rs = stat_child_types t"
        using ok nn by (simp_all add: l r)
      have "one_of_three (struct_loop False ls rs) (struct_loop False rs ls) (struct_loop True ls rs) (struct_loop True rs ls)"
      proof (rule struct_loop_trichotomy)
        show "length ls = length rs" using ty by (metis length_map)
        show "ls \<noteq> []" using ty c(3) by auto
        show "ordered_pair x y" if "(x, y) \<in> set (zip ls rs)" for x y
          using that zip_children_types [OF ty] "1.IH"(2) [OF struct] c ok by metis
      qed
      then show ?thesis using struct nn c(1) by (simp add: l r value_op.simps)
    next
      case list
      then have c: "GetStatsType t = LIST_STATS" "\<forall>c \<in> set (stat_child_types t). comparable_type c"
        using "1.prems"(1) by (simp_all add: comparable_type.simps [of t])
      have "one_of_three (list_loop False ls rs) (list_loop False rs ls) (list_loop True ls rs) (list_loop True rs ls)"
      proof (rule list_loop_trichotomy)
        show "ordered_pair x y" if "x \<in> set ls" "y \<in> set rs" for x y
          using that "1.IH"(1) [OF list] c ok by (auto simp: l r)
      qed
      then show ?thesis using list nn by (simp add: l r value_op.simps)
    next
      case array
      then show ?thesis using "1.prems"(1) by (simp add: comparable_type.simps [of t])
    next
      case leaf
      then show ?thesis
        using leaf_trichotomy [of l r] "1.prems"(1-3) nn by (simp add: value_op_leaf)
    qed
  qed
qed


subsection \<open>Properties\<close>

text \<open>Values of one comparable type are totally ordered, NULL last: the comparison returns, exactly
  one of less, equal and greater holds, and the derived operations agree with it.\<close>
theorem value_order_trichotomy:
  assumes "comparable_type t" "v_type l = t" "v_type r = t" "value_ok l" "value_ok r"
  shows "\<exists>e g. NotDistinctFrom_value l r = Inr e \<and> DistinctGreaterThan_value l r = Inr g \<and> \<not> (e \<and> g) \<and>
     DistinctLessThan_value l r = Inr (\<not> e \<and> \<not> g) \<and> DistinctFrom_value l r = Inr (\<not> e) \<and>
     DistinctGreaterThanEquals_value l r = Inr (g \<or> e) \<and> DistinctLessThanEquals_value l r = Inr (\<not> g)"
  using comparable_ordered [OF assms]
  unfolding ordered_pair_def one_of_three_def DistinctLessThan_value_def DistinctFrom_value_def
    DistinctGreaterThanEquals_value_def DistinctLessThanEquals_value_def map_ok_def
  by (elim disjE conjE) (simp_all, blast+)

definition int_value :: "32 word \<Rightarrow> Value" where
  "int_value w = Value (LogicalType LT_INTEGER NoTypeInfo) False (ucast w) [] []"

definition int_list :: "32 word list \<Rightarrow> Value" where
  "int_list ws = Value (LogicalType LT_LIST (ListTypeInfo (LogicalType LT_INTEGER NoTypeInfo))) False 0 []
     (map int_value ws)"

lemmas type_eval = InternalType_def GetInternalType_def GetStatsType_def stat_child_types_def

text \<open>An array is greater than itself: the loop over its elements ends in true for every
  template, so an array also fails to be less than or equal to itself.\<close>
theorem array_greater_than_itself:
  "\<exists>v. v_type v = LogicalType LT_ARRAY (ArrayTypeInfo (LogicalType LT_INTEGER NoTypeInfo) 2) \<and> value_ok v \<and>
     \<not> v_is_null v \<and> ValueOperations_Equals v v = Inr True \<and> ValueOperations_GreaterThan v v = Inr True \<and>
     ValueOperations_LessThanEquals v v = Inr False"
proof -
  let ?v = "Value (LogicalType LT_ARRAY (ArrayTypeInfo (LogicalType LT_INTEGER NoTypeInfo) 2)) False 0 []
    [int_value 1, int_value 2]"
  have "value_op False (int_value w) (int_value w) = Inr True" "value_op True (int_value w) (int_value w) = Inr False" for w
    by (simp_all add: int_value_def value_op.simps type_eval leaf_op_def typed_holds_def ops_eval)
  then have "value_op gt ?v ?v = Inr True" for gt
    by (cases gt)
      (simp_all add: value_op.simps(1) [of _ "LogicalType LT_ARRAY i" for i] value_op.simps type_eval
        null_greater_def null_equal_def int_value_def leaf_op_def typed_holds_def ops_eval)
  then show ?thesis
    by (intro exI [of _ ?v])
      (simp add: ValueOperations_Equals_def ValueOperations_GreaterThan_def ValueOperations_LessThanEquals_def
        map_ok_def type_eval int_value_def)
qed

end
