(* ===== verification/Filters.thy ===== *)
theory Filters
  imports ValueOps TypedStats MinMaxZonemap
begin

text \<open>
  Filters pushed into a table scan (\<open>planner/filter/*.cpp\<close>, \<open>planner/table_filter.cpp\<close>): the
  filter tree, the check of a filter against the statistics of a column, and the execution of
  a filter on a vector (\<open>ColumnSegment::FilterSelection\<close> in \<open>storage/table/column_segment.cpp\<close>).
  The expression of an \<open>ExpressionFilter\<close> is a number, and its evaluation on a row a parameter.
\<close>

subsection \<open>Filters\<close>

text \<open>
  The data of a dynamic filter is shared; its address identifies it.
\<close>

datatype TableFilter =
    ConstantFilter ExpressionType Value
  | IsNullFilter
  | IsNotNullFilter
  | is_or: ConjunctionOrFilter "TableFilter list"
  | is_and: ConjunctionAndFilter "TableFilter list"
  | StructFilter nat string TableFilter
  | is_optional: OptionalFilter TableFilter
  | InFilter "Value list"
  | DynamicFilter "DynamicFilterData option"
  | ExpressionFilter nat
and DynamicFilterData = DynamicFilterData (data_address: nat) (data_initialized: bool) (data_filter: TableFilter)

text \<open>The constructors that throw.\<close>

definition make_ConstantFilter :: "ExpressionType \<Rightarrow> Value \<Rightarrow> TableFilter result" where
  "make_ConstantFilter comparison_type constant =
     (if v_is_null constant then Inl InternalException else Inr (ConstantFilter comparison_type constant))"

definition make_InFilter :: "Value list \<Rightarrow> TableFilter result" where
  "make_InFilter values =
     (if \<exists>val \<in> set values. v_is_null val then Inl InternalException
      else if \<exists>val \<in> set (tl values). v_type (hd values) \<noteq> v_type val then Inl InternalException
      else if values = [] then Inl InternalException
      else Inr (InFilter values))"

definition ConstantFilter_Compare :: "ExpressionType \<Rightarrow> Value \<Rightarrow> Value \<Rightarrow> bool result" where
  "ConstantFilter_Compare comparison_type constant value =
     (case comparison_type of
        COMPARE_EQUAL \<Rightarrow> ValueOperations_Equals value constant
      | COMPARE_NOTEQUAL \<Rightarrow> ValueOperations_NotEquals value constant
      | COMPARE_GREATERTHAN \<Rightarrow> ValueOperations_GreaterThan value constant
      | COMPARE_GREATERTHANOREQUALTO \<Rightarrow> ValueOperations_GreaterThanEquals value constant
      | COMPARE_LESSTHAN \<Rightarrow> ValueOperations_LessThan value constant
      | COMPARE_LESSTHANOREQUALTO \<Rightarrow> ValueOperations_LessThanEquals value constant
      | _ \<Rightarrow> Inl InternalException)"

text \<open>\<open>SetValue\<close> casts the filter to a constant filter, which throws for another one.\<close>

definition DynamicFilterData_SetValue :: "Value \<Rightarrow> DynamicFilterData \<Rightarrow> DynamicFilterData result" where
  "DynamicFilterData_SetValue val data =
     (if v_is_null val then Inr data
      else case data_filter data of
        ConstantFilter cmp c \<Rightarrow> Inr (DynamicFilterData (data_address data) True (ConstantFilter cmp val))
      | _ \<Rightarrow> Inl InternalException)"

definition DynamicFilterData_Reset :: "DynamicFilterData \<Rightarrow> DynamicFilterData" where
  "DynamicFilterData_Reset data = DynamicFilterData (data_address data) False (data_filter data)"

subsection \<open>Checking a filter against statistics\<close>

text \<open>
  Memory: an address holds a statistic, or nothing valid. The pointer of a statistics object
  is null or read from memory.
\<close>

type_synonym stats_heap = "64 word \<Rightarrow> stats_ptr option"

definition deref :: "stats_heap \<Rightarrow> 64 word \<Rightarrow> stats_ptr option result" where
  "deref hp p = (if p = 0 then Inr None else case hp p of None \<Rightarrow> Inl OutOfBounds | Some s \<Rightarrow> Inr (Some s))"

definition ConstantFilter_CheckStatistics ::
  "hashes \<Rightarrow> stats_heap \<Rightarrow> ExpressionType \<Rightarrow> Value \<Rightarrow> base_data \<Rightarrow> FilterPropagateResult result" where
  "ConstantFilter_CheckStatistics hs hp comparison_type constant stats =
     (if \<not> has_no_null stats
      then (if comparison_type = COMPARE_DISTINCT_FROM then Inr FILTER_ALWAYS_TRUE else Inr FILTER_FALSE_OR_NULL)
      else if comparison_type = COMPARE_DISTINCT_FROM \<and> has_null stats then Inr NO_PRUNING_POSSIBLE
      else if InternalType (v_type constant) \<notin> {PT_UINT8, PT_UINT16, PT_UINT32, PT_UINT64, PT_UINT128, PT_INT8,
          PT_INT16, PT_INT32, PT_INT64, PT_INT128, PT_FLOAT, PT_DOUBLE, PT_VARCHAR}
      then Inr NO_PRUNING_POSSIBLE
      else bind_result (deref hp (additional_ptr stats)) (\<lambda>ptr.
           bind_result (QueryAdditionalStats hs ptr comparison_type (InternalType (v_type constant)) constant) (\<lambda>result.
             if result = FILTER_ALWAYS_FALSE \<and> has_null stats then Inr FILTER_FALSE_OR_NULL else Inr result)))"

definition IsNull_CheckStatistics :: "base_data \<Rightarrow> FilterPropagateResult" where
  "IsNull_CheckStatistics stats =
     (if \<not> has_null stats then FILTER_ALWAYS_FALSE
      else if \<not> has_no_null stats then FILTER_ALWAYS_TRUE
      else NO_PRUNING_POSSIBLE)"

definition IsNotNull_CheckStatistics :: "base_data \<Rightarrow> FilterPropagateResult" where
  "IsNotNull_CheckStatistics stats =
     (if \<not> has_no_null stats then FILTER_ALWAYS_FALSE
      else if \<not> has_null stats then FILTER_ALWAYS_TRUE
      else NO_PRUNING_POSSIBLE)"

definition In_CheckStatistics :: "Value list \<Rightarrow> base_data \<Rightarrow> FilterPropagateResult result" where
  "In_CheckStatistics values stats =
     (if values = [] then Inl OutOfBounds
      else if InternalType (v_type (hd values)) \<in> {PT_UINT8, PT_UINT16, PT_UINT32, PT_UINT64, PT_UINT128, PT_INT8,
          PT_INT16, PT_INT32, PT_INT64, PT_INT128, PT_FLOAT, PT_DOUBLE}
      then NumericStats_CheckZonemap stats COMPARE_EQUAL values
      else if InternalType (v_type (hd values)) = PT_VARCHAR
      then StringStats_CheckZonemap stats COMPARE_EQUAL values
      else Inr NO_PRUNING_POSSIBLE)"

text \<open>\<open>StructStats::GetChildStats\<close> checks the index against the type, then reads the array of children.\<close>

definition StructStats_GetChildStats :: "BaseStatistics \<Rightarrow> nat \<Rightarrow> BaseStatistics result" where
  "StructStats_GetChildStats s i =
     (if i \<ge> length (struct_child_types (stats_type s)) then Inl InternalException
      else if i < length (child_stats s) then Inr (child_stats s ! i) else Inl OutOfBounds)"

fun CheckStatistics :: "hashes \<Rightarrow> stats_heap \<Rightarrow> TableFilter \<Rightarrow> BaseStatistics \<Rightarrow> FilterPropagateResult result"
and Or_CheckStatistics :: "hashes \<Rightarrow> stats_heap \<Rightarrow> TableFilter list \<Rightarrow> BaseStatistics \<Rightarrow> FilterPropagateResult result"
and And_CheckStatistics :: "hashes \<Rightarrow> stats_heap \<Rightarrow> TableFilter list \<Rightarrow> BaseStatistics \<Rightarrow>
  FilterPropagateResult \<Rightarrow> FilterPropagateResult result" where
  "CheckStatistics hs hp (ConstantFilter cmp c) s = ConstantFilter_CheckStatistics hs hp cmp c (base s)"
| "CheckStatistics hs hp IsNullFilter s = Inr (IsNull_CheckStatistics (base s))"
| "CheckStatistics hs hp IsNotNullFilter s = Inr (IsNotNull_CheckStatistics (base s))"
| "CheckStatistics hs hp (ConjunctionOrFilter fs) s = Or_CheckStatistics hs hp fs s"
| "CheckStatistics hs hp (ConjunctionAndFilter fs) s = And_CheckStatistics hs hp fs s FILTER_ALWAYS_TRUE"
| "CheckStatistics hs hp (StructFilter i name f) s =
     bind_result (StructStats_GetChildStats s i) (\<lambda>c. CheckStatistics hs hp f c)"
| "CheckStatistics hs hp (OptionalFilter f) s = CheckStatistics hs hp f s"
| "CheckStatistics hs hp (InFilter values) s = In_CheckStatistics values (base s)"
| "CheckStatistics hs hp (DynamicFilter None) s = Inr NO_PRUNING_POSSIBLE"
| "CheckStatistics hs hp (DynamicFilter (Some (DynamicFilterData a initialized f))) s =
     (if \<not> initialized then Inr NO_PRUNING_POSSIBLE else CheckStatistics hs hp f s)"
| "CheckStatistics hs hp (ExpressionFilter e) s = Inr NO_PRUNING_POSSIBLE"
| "Or_CheckStatistics hs hp [] s = Inr FILTER_ALWAYS_FALSE"
| "Or_CheckStatistics hs hp (f # fs) s =
     bind_result (CheckStatistics hs hp f s) (\<lambda>r.
       if r = NO_PRUNING_POSSIBLE then Inr NO_PRUNING_POSSIBLE
       else if r = FILTER_ALWAYS_TRUE then Inr FILTER_ALWAYS_TRUE
       else Or_CheckStatistics hs hp fs s)"
| "And_CheckStatistics hs hp [] s result = Inr result"
| "And_CheckStatistics hs hp (f # fs) s result =
     bind_result (CheckStatistics hs hp f s) (\<lambda>r.
       if r = FILTER_ALWAYS_FALSE then Inr FILTER_ALWAYS_FALSE
       else And_CheckStatistics hs hp fs s (if r \<noteq> result then NO_PRUNING_POSSIBLE else result))"

end
