(* ===== verification/FilterCheck.thy ===== *)
theory FilterCheck
  imports Filters
begin

text \<open>
  What a filter means for a row, when a statistics object summarises a set of rows, and the
  soundness of the check of a filter against statistics.
\<close>

subsection \<open>The meaning of a filter\<close>

text \<open>
  A row of a column is a value. A comparison with NULL passes only for \<open>IS DISTINCT FROM\<close>.
  The entries of a NULL struct are NULL. A dynamic filter without a value yet passes every row.
\<close>

definition constant_holds :: "ExpressionType \<Rightarrow> Value \<Rightarrow> Value \<Rightarrow> bool" where
  "constant_holds cmp c row =
     (if v_is_null row then cmp = COMPARE_DISTINCT_FROM
      else typed_holds (InternalType (v_type c)) cmp row c = Some True)"

definition struct_entry :: "nat \<Rightarrow> Value \<Rightarrow> Value" where
  "struct_entry i row =
     (if i < length (v_children row) then v_children row ! i
      else Value_null (snd (struct_child_types (v_type row) ! i)))"

fun filter_holds :: "(nat \<Rightarrow> Value \<Rightarrow> bool) \<Rightarrow> TableFilter \<Rightarrow> Value \<Rightarrow> bool" where
  "filter_holds ex (ConstantFilter cmp c) row = constant_holds cmp c row"
| "filter_holds ex IsNullFilter row = v_is_null row"
| "filter_holds ex IsNotNullFilter row = (\<not> v_is_null row)"
| "filter_holds ex (ConjunctionOrFilter fs) row = list_ex (\<lambda>f. filter_holds ex f row) fs"
| "filter_holds ex (ConjunctionAndFilter fs) row = list_all (\<lambda>f. filter_holds ex f row) fs"
| "filter_holds ex (StructFilter i name f) row = filter_holds ex f (struct_entry i row)"
| "filter_holds ex (OptionalFilter f) row = filter_holds ex f row"
| "filter_holds ex (InFilter values) row = (\<exists>c \<in> set values. constant_holds COMPARE_EQUAL c row)"
| "filter_holds ex (DynamicFilter None) row = True"
| "filter_holds ex (DynamicFilter (Some (DynamicFilterData a initialized f))) row =
     (initialized \<longrightarrow> filter_holds ex f row)"
| "filter_holds ex (ExpressionFilter e) row = ex e row"

subsection \<open>Statistics that summarise rows\<close>

lemma size_nth_child [termination_simp]:
  "i < length as \<Longrightarrow> size (as ! i) < Suc (size_list size as)"
  by (simp add: le_imp_less_Suc size_list_estimation' [OF nth_mem order_refl])

definition ptr_summarises :: "hashes \<Rightarrow> stats_heap \<Rightarrow> LogicalType \<Rightarrow> 64 word \<Rightarrow> Value list \<Rightarrow> bool" where
  "ptr_summarises hs hp t p rows \<longleftrightarrow>
     p = 0 \<or> (\<exists>ptr vals. hp p = Some ptr \<and> (\<forall>v \<in> set rows. \<not> v_is_null v \<longrightarrow> v \<in> set vals) \<and>
       ptr_describes hs (InternalType t) ptr vals)"

definition flags_cover :: "base_data \<Rightarrow> Value list \<Rightarrow> bool" where
  "flags_cover a rows \<longleftrightarrow> (\<forall>v \<in> set rows. if v_is_null v then has_null a else has_no_null a)"

fun summarises :: "hashes \<Rightarrow> stats_heap \<Rightarrow> BaseStatistics \<Rightarrow> Value list \<Rightarrow> bool" where
  "summarises hs hp (Stats a as) rows \<longleftrightarrow>
     flags_cover a rows \<and> ptr_summarises hs hp (b_type a) (additional_ptr a) rows \<and>
     (GetStatsType (b_type a) = STRUCT_STATS \<longrightarrow>
        (\<forall>i < length as. summarises hs hp (as ! i) (map (struct_entry i) rows)))"

declare summarises.simps [simp del]

text \<open>Fewer rows are summarised as well.\<close>

lemma ptr_summarises_subset:
  "ptr_summarises hs hp t p rows \<Longrightarrow> set rows' \<subseteq> set rows \<Longrightarrow> ptr_summarises hs hp t p rows'"
  unfolding ptr_summarises_def by (meson subsetD)

lemma flags_cover_subset: "flags_cover a rows \<Longrightarrow> set rows' \<subseteq> set rows \<Longrightarrow> flags_cover a rows'"
  by (auto simp: flags_cover_def)

lemma summarises_subset:
  "summarises hs hp s rows \<Longrightarrow> set rows' \<subseteq> set rows \<Longrightarrow> summarises hs hp s rows'"
proof (induction hs hp s rows arbitrary: rows' rule: summarises.induct)
  case (1 hs hp a as rows)
  note s = "1.prems"(1) [unfolded summarises.simps [of hs hp a as rows]]
  have "summarises hs hp (as ! i) (map (struct_entry i) rows')"
    if "GetStatsType (b_type a) = STRUCT_STATS" "i < length as" for i
    by (rule "1.IH") (use that s "1.prems"(2) in auto)
  then show ?case
    unfolding summarises.simps [of hs hp a as rows']
    using s ptr_summarises_subset [OF _ "1.prems"(2)] flags_cover_subset [OF _ "1.prems"(2)] by simp
qed

text \<open>The type of a filter: its constants have the physical type of the column they filter.\<close>

fun filter_typed :: "LogicalType \<Rightarrow> TableFilter \<Rightarrow> bool" where
  "filter_typed t (ConstantFilter cmp c) = (\<not> v_is_null c \<and> InternalType (v_type c) = InternalType t)"
| "filter_typed t IsNullFilter = True"
| "filter_typed t IsNotNullFilter = True"
| "filter_typed t (ConjunctionOrFilter fs) = list_all (filter_typed t) fs"
| "filter_typed t (ConjunctionAndFilter fs) = list_all (filter_typed t) fs"
| "filter_typed t (StructFilter i name f) =
     (GetStatsType t = STRUCT_STATS \<and> i < length (struct_child_types t) \<and>
      filter_typed (snd (struct_child_types t ! i)) f)"
| "filter_typed t (OptionalFilter f) = filter_typed t f"
| "filter_typed t (InFilter values) = (values \<noteq> [])"
| "filter_typed t (DynamicFilter None) = True"
| "filter_typed t (DynamicFilter (Some (DynamicFilterData a initialized f))) = filter_typed t f"
| "filter_typed t (ExpressionFilter e) = True"

subsection \<open>Soundness\<close>

text \<open>
  No answer may be wrong for any of the rows: the two that skip rows only when none passes,
  the one that skips the filter only when all pass. \<open>FILTER_TRUE_OR_NULL\<close> is never given.
\<close>

definition answer_ok :: "FilterPropagateResult \<Rightarrow> (Value \<Rightarrow> bool) \<Rightarrow> Value list \<Rightarrow> bool" where
  "answer_ok r holds rows \<longleftrightarrow>
     (r = FILTER_ALWAYS_FALSE \<or> r = FILTER_FALSE_OR_NULL \<longrightarrow> (\<forall>v \<in> set rows. \<not> holds v)) \<and>
     (r = FILTER_ALWAYS_TRUE \<longrightarrow> (\<forall>v \<in> set rows. holds v)) \<and> r \<noteq> FILTER_TRUE_OR_NULL"

lemma answer_ok_simps [simp]:
  "answer_ok NO_PRUNING_POSSIBLE holds rows"
  "answer_ok FILTER_ALWAYS_FALSE holds rows \<longleftrightarrow> (\<forall>v \<in> set rows. \<not> holds v)"
  "answer_ok FILTER_FALSE_OR_NULL holds rows \<longleftrightarrow> (\<forall>v \<in> set rows. \<not> holds v)"
  "answer_ok FILTER_ALWAYS_TRUE holds rows \<longleftrightarrow> (\<forall>v \<in> set rows. holds v)"
  "\<not> answer_ok FILTER_TRUE_OR_NULL holds rows"
  by (simp_all add: answer_ok_def)

lemmas stats_answers = bool_stats.dispatch_answer uint_stats.dispatch_answer int8_stats.dispatch_answer
  int16_stats.dispatch_answer int32_stats.dispatch_answer int64_stats.dispatch_answer
  int128_stats.dispatch_answer float_stats.dispatch_answer double_stats.dispatch_answer
  string_stats.dispatch_answer

lemma typed_query_answer:
  assumes "QueryAdditionalStats hs ptr cmp type c = Inr r"
  shows "r = NO_PRUNING_POSSIBLE \<or> r = FILTER_ALWAYS_FALSE"
proof (cases ptr)
  case None
  then show ?thesis using assms null_ptr_query(1) by blast
next
  case (Some p)
  then show ?thesis
    using assms
    by (cases p; cases type) (simp_all add: QueryAdditionalStats_def bind_result_Inr_iff stats_answers, (blast dest: stats_answers)+)
qed

lemma ConstantFilter_sound:
  assumes "flags_cover a rows" "ptr_summarises hs hp (b_type a) (additional_ptr a) rows"
    and ty: "InternalType (v_type c) = InternalType (b_type a)"
    and ans: "ConstantFilter_CheckStatistics hs hp cmp c a = Inr r"
  shows "answer_ok r (constant_holds cmp c) rows"
proof -
  have nulls: "v_is_null v" if "\<not> has_no_null a" "v \<in> set rows" for v
    using assms(1) that by (auto simp: flags_cover_def split: if_splits)
  have no_nulls: "\<not> v_is_null v" if "\<not> has_null a" "v \<in> set rows" for v
    using assms(1) that by (auto simp: flags_cover_def split: if_splits)
  have query: "\<not> constant_holds cmp c v"
    if ptr: "deref hp (additional_ptr a) = Inr ptr"
      and q: "QueryAdditionalStats hs ptr cmp (InternalType (v_type c)) c = Inr FILTER_ALWAYS_FALSE"
      and v: "v \<in> set rows" and d: "\<not> (cmp = COMPARE_DISTINCT_FROM \<and> has_null a)" for ptr v
  proof (cases "v_is_null v")
    case True
    then show ?thesis using no_nulls v d by (auto simp: constant_holds_def)
  next
    case False
    obtain p vals where p: "ptr = Some p" "v \<in> set vals" "ptr_describes hs (InternalType (b_type a)) p vals"
    proof (cases "additional_ptr a = 0")
      case True
      then have "ptr = None" using ptr by (simp add: deref_def)
      then have False using q null_ptr_query(1) by blast
      then show ?thesis ..
    next
      case nz: False
      then show ?thesis
        using assms(2) ptr v False that unfolding ptr_summarises_def deref_def
        by (metis (no_types, lifting) Inr_inject option.simps(5))
    qed
    then show ?thesis
      using typed_query_false [of hs _ p vals v cmp c] q False by (simp add: constant_holds_def ty)
  qed
  consider (no_values) "\<not> has_no_null a" | (none) "r = NO_PRUNING_POSSIBLE"
    | (asked) ptr q where "\<not> (cmp = COMPARE_DISTINCT_FROM \<and> has_null a)" "deref hp (additional_ptr a) = Inr ptr"
      "QueryAdditionalStats hs ptr cmp (InternalType (v_type c)) c = Inr q"
      "r = (if q = FILTER_ALWAYS_FALSE \<and> has_null a then FILTER_FALSE_OR_NULL else q)"
  proof (cases "\<not> has_no_null a \<or> (cmp = COMPARE_DISTINCT_FROM \<and> has_null a) \<or> r = NO_PRUNING_POSSIBLE")
    case True
    then show ?thesis using ans that(1,2) by (auto simp: ConstantFilter_CheckStatistics_def split: if_splits)
  next
    case False
    then have "bind_result (deref hp (additional_ptr a)) (\<lambda>ptr.
        bind_result (QueryAdditionalStats hs ptr cmp (InternalType (v_type c)) c) (\<lambda>result.
          if result = FILTER_ALWAYS_FALSE \<and> has_null a then Inr FILTER_FALSE_OR_NULL else Inr result)) = Inr r"
      using ans unfolding ConstantFilter_CheckStatistics_def by (simp split: if_split_asm)
    then show ?thesis using False that(3) by (fastforce simp: bind_result_Inr_iff split: if_split_asm)
  qed
  then show ?thesis
  proof cases
    case no_values
    then show ?thesis
      using ans nulls by (auto simp: ConstantFilter_CheckStatistics_def constant_holds_def split: if_splits)
  next
    case (asked ptr q)
    then show ?thesis using typed_query_answer [OF asked(3)] query [OF asked(2) _ _ asked(1)] by auto
  qed simp
qed

lemma In_sound:
  "In_CheckStatistics values a = Inr r \<Longrightarrow> r = NO_PRUNING_POSSIBLE"
  by (auto simp: In_CheckStatistics_def NumericStats_CheckZonemap_none StringStats_CheckZonemap_def split: if_splits)

lemma stats_ok_struct_child:
  assumes "stats_ok s" "GetStatsType (stats_type s) = STRUCT_STATS" "i < length (child_stats s)"
  shows "stats_ok (child_stats s ! i)" "stats_type (child_stats s ! i) = snd (struct_child_types (stats_type s) ! i)"
proof -
  show "stats_ok (child_stats s ! i)" using assms by (cases s) (simp add: list_all_length)
  have "map stats_type (child_stats s) = map snd (struct_child_types (stats_type s))"
    using assms(1,2) by (cases s) (simp add: stat_child_types_def)
  then show "stats_type (child_stats s ! i) = snd (struct_child_types (stats_type s) ! i)"
    using assms(3) by (metis length_map nth_map)
qed

lemma filter_holds_eqs:
  "filter_holds ex (ConjunctionOrFilter fs) = (\<lambda>v. list_ex (\<lambda>f. filter_holds ex f v) fs)"
  "filter_holds ex (ConjunctionAndFilter fs) = (\<lambda>v. list_all (\<lambda>f. filter_holds ex f v) fs)"
  "filter_holds ex (OptionalFilter f) = filter_holds ex f"
  "filter_holds ex (DynamicFilter (Some (DynamicFilterData a True f))) = filter_holds ex f"
  by (rule ext, simp)+

lemma CheckStatistics_sound:
  "CheckStatistics hs hp f s = Inr r \<Longrightarrow> summarises hs hp s rows \<Longrightarrow> stats_ok s \<Longrightarrow>
     filter_typed (stats_type s) f \<Longrightarrow> answer_ok r (filter_holds ex f) rows"
  "Or_CheckStatistics hs hp fs s = Inr r \<Longrightarrow> summarises hs hp s rows \<Longrightarrow> stats_ok s \<Longrightarrow>
     list_all (filter_typed (stats_type s)) fs \<Longrightarrow>
     answer_ok r (\<lambda>v. list_ex (\<lambda>f. filter_holds ex f v) fs) rows"
  "And_CheckStatistics hs hp fs s result = Inr r \<Longrightarrow> summarises hs hp s rows \<Longrightarrow> stats_ok s \<Longrightarrow>
     list_all (filter_typed (stats_type s)) fs \<Longrightarrow> result = FILTER_ALWAYS_TRUE \<or> result = NO_PRUNING_POSSIBLE \<Longrightarrow>
     answer_ok r (\<lambda>v. list_all (\<lambda>f. filter_holds ex f v) fs) rows \<and> r \<noteq> FILTER_FALSE_OR_NULL \<and>
     (r = FILTER_ALWAYS_TRUE \<longrightarrow> result = FILTER_ALWAYS_TRUE)"
proof (induction hs hp f s and hs hp fs s and hs hp fs s result arbitrary: r rows and r rows and r rows
    rule: CheckStatistics_Or_CheckStatistics_And_CheckStatistics.induct)
  case (1 hs hp cmp c s)
  then show ?case
    using ConstantFilter_sound [of "base s" rows hs hp c cmp r] by (cases s) (simp add: summarises.simps)
next
  case (2 hs hp s)
  then show ?case
    by (cases s) (auto simp: summarises.simps flags_cover_def IsNull_CheckStatistics_def split: if_splits)
next
  case (3 hs hp s)
  then show ?case
    by (cases s) (auto simp: summarises.simps flags_cover_def IsNotNull_CheckStatistics_def split: if_splits)
next
  case (6 hs hp i name f s)
  then obtain c where c: "StructStats_GetChildStats s i = Inr c" "CheckStatistics hs hp f c = Inr r"
    by (auto simp: bind_result_Inr_iff)
  then have i: "GetStatsType (stats_type s) = STRUCT_STATS" "i < length (child_stats s)" "c = child_stats s ! i"
    using "6.prems"(4) by (auto simp: StructStats_GetChildStats_def split: if_splits)
  have "answer_ok r (filter_holds ex f) (map (struct_entry i) rows)"
  proof (rule "6.IH" [OF c(2)])
    show "summarises hs hp c (map (struct_entry i) rows)"
      using "6.prems"(2) i by (cases s) (simp add: summarises.simps)
    show "stats_ok c" "filter_typed (stats_type c) f"
      using stats_ok_struct_child [OF "6.prems"(3) i(1,2)] "6.prems"(4) i(3) by simp_all
  qed
  then show ?case by (auto simp: answer_ok_def)
next
  case (8 hs hp cs s)
  then show ?case by (auto dest: In_sound)
next
  case (13 hs hp f fs s)
  obtain p where p: "CheckStatistics hs hp f s = Inr p"
    "(if p = NO_PRUNING_POSSIBLE then Inr NO_PRUNING_POSSIBLE
      else if p = FILTER_ALWAYS_TRUE then Inr FILTER_ALWAYS_TRUE
      else Or_CheckStatistics hs hp fs s) = Inr r"
    using "13.prems"(1) by (auto simp: bind_result_Inr_iff)
  have f: "answer_ok p (filter_holds ex f) rows"
    using "13.IH"(1) p(1) "13.prems" by simp
  show ?case
  proof (cases "p = NO_PRUNING_POSSIBLE \<or> p = FILTER_ALWAYS_TRUE")
    case True
    then show ?thesis using p(2) f by (auto split: if_splits)
  next
    case False
    then have "answer_ok r (\<lambda>v. list_ex (\<lambda>f. filter_holds ex f v) fs) rows"
      using "13.IH"(2) [of p r rows] p(2) "13.prems" by simp
    then show ?thesis using f False by (cases p) (auto simp: answer_ok_def)
  qed
next
  case (15 hs hp f fs s result)
  obtain p where p: "CheckStatistics hs hp f s = Inr p"
    "(if p = FILTER_ALWAYS_FALSE then Inr FILTER_ALWAYS_FALSE
      else And_CheckStatistics hs hp fs s (if p \<noteq> result then NO_PRUNING_POSSIBLE else result)) = Inr r"
    using "15.prems"(1) by (auto simp: bind_result_Inr_iff)
  have f: "answer_ok p (filter_holds ex f) rows"
    using "15.IH"(1) p(1) "15.prems" by simp
  show ?case
  proof (cases "p = FILTER_ALWAYS_FALSE")
    case True
    then show ?thesis using p(2) f by auto
  next
    case False
    then show ?thesis
      using "15.IH"(2) [OF False, of r rows] p(2) "15.prems" f by (cases "p = result") (auto simp: answer_ok_def)
  qed
qed (auto simp: bind_result_Inr_iff filter_holds_eqs split: if_splits)


subsection \<open>Pushing filters\<close>

text \<open>
  \<open>TableFilterSet::PushFilter\<close>: the filters of a table by column; a second filter of a column
  is ANDed to the first.
\<close>

type_synonym filter_set = "nat \<rightharpoonup> TableFilter"

definition PushFilter :: "nat \<Rightarrow> TableFilter \<Rightarrow> filter_set \<Rightarrow> filter_set" where
  "PushFilter column_index new_filter filters =
     (case filters column_index of
        None \<Rightarrow> filters(column_index \<mapsto> new_filter)
      | Some (ConjunctionAndFilter fs) \<Rightarrow> filters(column_index \<mapsto> ConjunctionAndFilter (fs @ [new_filter]))
      | Some entry \<Rightarrow> filters(column_index \<mapsto> ConjunctionAndFilter [entry, new_filter]))"

text \<open>A row of the table satisfies a set when every column satisfies its filter.\<close>

definition set_holds :: "(nat \<Rightarrow> Value \<Rightarrow> bool) \<Rightarrow> filter_set \<Rightarrow> (nat \<Rightarrow> Value) \<Rightarrow> bool" where
  "set_holds ex filters row \<longleftrightarrow> (\<forall>i \<in> dom filters. filter_holds ex (the (filters i)) (row i))"

text \<open>
  \<open>GetFinalTableFilters\<close> pushes copies of the filters of every operator onto copies of the
  existing ones, in the order of the map. The filters of one operator are a list of pairs.
\<close>

definition push_all :: "(nat \<times> TableFilter) list \<Rightarrow> filter_set \<Rightarrow> filter_set" where
  "push_all fs filters = fold (\<lambda>(i, f). PushFilter i f) fs filters"

definition GetFinalTableFilters ::
  "(nat \<times> TableFilter) list list \<Rightarrow> (nat \<times> TableFilter) list option \<Rightarrow> filter_set option" where
  "GetFinalTableFilters filters existing_filters =
     (let result = (case existing_filters of None \<Rightarrow> Map.empty | Some fs \<Rightarrow> push_all fs Map.empty);
          result = fold push_all filters result
      in if result = Map.empty then None else Some result)"

lemma set_holds_empty [simp]: "set_holds ex Map.empty row"
  by (simp add: set_holds_def)

lemma PushFilter_holds:
  "set_holds ex (PushFilter i f filters) row \<longleftrightarrow> filter_holds ex f (row i) \<and> set_holds ex filters row"
proof -
  have other: "set_holds ex (filters(i \<mapsto> g)) row \<longleftrightarrow>
      filter_holds ex g (row i) \<and> (\<forall>j \<in> dom filters - {i}. filter_holds ex (the (filters j)) (row j))" for g
    by (auto simp: set_holds_def)
  show ?thesis
  proof (cases "filters i")
    case None
    then have "dom filters - {i} = dom filters" by auto
    then show ?thesis using None other by (simp add: PushFilter_def set_holds_def)
  next
    case (Some g)
    then have "set_holds ex filters row \<longleftrightarrow> set_holds ex (filters(i \<mapsto> g)) row" by (simp add: map_upd_triv)
    then show ?thesis using Some other by (cases g) (auto simp: PushFilter_def)
  qed
qed

lemma push_all_holds:
  "set_holds ex (push_all fs filters) row \<longleftrightarrow>
     (\<forall>(i, f) \<in> set fs. filter_holds ex f (row i)) \<and> set_holds ex filters row"
  by (induction fs arbitrary: filters) (auto simp: push_all_def PushFilter_holds)

lemma fold_push_all_holds:
  "set_holds ex (fold push_all filters result) row \<longleftrightarrow>
     (\<forall>fs \<in> set filters. \<forall>(i, f) \<in> set fs. filter_holds ex f (row i)) \<and> set_holds ex result row"
  by (induction filters arbitrary: result) (auto simp: push_all_holds)

text \<open>No set means no filter.\<close>

definition final_holds :: "(nat \<Rightarrow> Value \<Rightarrow> bool) \<Rightarrow> filter_set option \<Rightarrow> (nat \<Rightarrow> Value) \<Rightarrow> bool" where
  "final_holds ex final row = (case final of None \<Rightarrow> True | Some filters \<Rightarrow> set_holds ex filters row)"

lemma final_filters_hold:
  "final_holds ex (GetFinalTableFilters filters existing) row \<longleftrightarrow>
     (\<forall>fs \<in> set filters. \<forall>(i, f) \<in> set fs. filter_holds ex f (row i)) \<and>
     (case existing of None \<Rightarrow> True | Some fs \<Rightarrow> \<forall>(i, f) \<in> set fs. filter_holds ex f (row i))"
proof -
  let ?r = "fold push_all filters (case existing of None \<Rightarrow> Map.empty | Some fs \<Rightarrow> push_all fs Map.empty)"
  have "final_holds ex (GetFinalTableFilters filters existing) row \<longleftrightarrow> set_holds ex ?r row"
    by (auto simp: GetFinalTableFilters_def final_holds_def Let_def set_holds_def)
  then show ?thesis
    by (auto simp: fold_push_all_holds push_all_holds split: option.splits)
qed

end
