(* ===== verification/FilterExec.thy ===== *)
theory FilterExec
  imports FilterCheck
begin

text \<open>
  Running a filter on a vector: \<open>ColumnSegment::FilterSelection\<close> of
  \<open>storage/table/column_segment.cpp\<close>. A vector is its rows; the selection is the list of the
  approved row numbers, all below the number of rows.
\<close>

subsection \<open>Leaf filters\<close>

definition AllValid :: "Value list \<Rightarrow> bool" where
  "AllValid rows = list_all (\<lambda>v. \<not> v_is_null v) rows"

definition TemplatedFilterSelection ::
  "bool \<Rightarrow> (Value \<Rightarrow> bool) \<Rightarrow> Value list \<Rightarrow> nat list \<Rightarrow> nat list" where
  "TemplatedFilterSelection HAS_NULL op rows sel =
     filter (\<lambda>idx. (\<not> HAS_NULL \<or> \<not> v_is_null (rows ! idx)) \<and> op (rows ! idx)) sel"

definition FilterSelectionSwitch ::
  "PhysicalType \<Rightarrow> Value list \<Rightarrow> Value \<Rightarrow> nat list \<Rightarrow> ExpressionType \<Rightarrow> nat list result" where
  "FilterSelectionSwitch t rows predicate sel comparison_type =
     (if comparison_type \<in> {COMPARE_EQUAL, COMPARE_NOTEQUAL, COMPARE_LESSTHAN, COMPARE_GREATERTHAN,
          COMPARE_LESSTHANOREQUALTO, COMPARE_GREATERTHANOREQUALTO}
      then Inr (TemplatedFilterSelection (\<not> AllValid rows)
                  (\<lambda>v. typed_holds t comparison_type v predicate = Some True) rows sel)
      else Inl NotImplementedException)"

definition TemplatedNullSelection :: "bool \<Rightarrow> Value list \<Rightarrow> nat list \<Rightarrow> nat list" where
  "TemplatedNullSelection IS_NULL rows sel =
     (if AllValid rows then (if IS_NULL then [] else sel)
      else filter (\<lambda>idx. (\<not> v_is_null (rows ! idx)) \<noteq> IS_NULL) sel)"

definition STANDARD_VECTOR_SIZE :: nat where "STANDARD_VECTOR_SIZE = 2048"

text \<open>An expression over more rows than a vector has is run chunk by chunk.\<close>

function expression_chunks ::
  "(Value \<Rightarrow> bool) \<Rightarrow> Value list \<Rightarrow> nat \<Rightarrow> nat list \<Rightarrow> nat list result" where
  "expression_chunks ex rows offset sel =
     (if offset < length rows
      then let chunk_end = offset + min STANDARD_VECTOR_SIZE (length rows - offset);
               current_sel = takeWhile (\<lambda>i. i < chunk_end) sel
           in if \<exists>i \<in> set current_sel. i < offset then Inl InternalException
              else bind_result (expression_chunks ex rows chunk_end (drop (length current_sel) sel))
                     (\<lambda>rest. Inr (filter (\<lambda>i. ex (rows ! i)) current_sel @ rest))
      else Inr [])"
  by pat_completeness auto
termination
  by (relation "measure (\<lambda>(ex, rows, offset, sel). length rows - offset)")
    (auto simp: STANDARD_VECTOR_SIZE_def)

declare expression_chunks.simps [simp del]

definition ExpressionSelection :: "(Value \<Rightarrow> bool) \<Rightarrow> Value list \<Rightarrow> nat list \<Rightarrow> nat list result" where
  "ExpressionSelection ex rows sel =
     (if length rows > STANDARD_VECTOR_SIZE then expression_chunks ex rows 0 sel
      else Inr (filter (\<lambda>i. ex (rows ! i)) sel))"

definition ConstantSelection ::
  "PhysicalType \<Rightarrow> ExpressionType \<Rightarrow> Value \<Rightarrow> Value list \<Rightarrow> nat list \<Rightarrow> nat list result" where
  "ConstantSelection t comparison_type constant rows sel =
     (if t \<in> {PT_UINT8, PT_UINT16, PT_UINT32, PT_UINT64, PT_INT8, PT_INT16, PT_INT32, PT_INT64, PT_INT128,
          PT_UINT128, PT_FLOAT, PT_DOUBLE, PT_BOOL}
      then FilterSelectionSwitch t rows constant sel comparison_type
      else if t = PT_VARCHAR
      then bind_result (StringValue_Get constant) (\<lambda>_. FilterSelectionSwitch t rows constant sel comparison_type)
      else Inl InvalidTypeException)"

subsection \<open>The filter tree\<close>

text \<open>
  The result is the new selection and the count that is returned. For an optional filter the
  count is the number of rows of the vector, whatever the selection holds; an OR reads that
  many entries of the selection of its child, past its end if it is shorter. New row numbers
  are added at the end of the result unless they are there already.
\<close>

definition or_merge :: "nat list \<Rightarrow> nat list \<Rightarrow> nat list" where
  "or_merge new result_sel = fold (\<lambda>i res. if i \<in> set res then res else res @ [i]) new result_sel"

fun FilterSelection ::
  "(nat \<Rightarrow> Value \<Rightarrow> bool) \<Rightarrow> LogicalType \<Rightarrow> Value list \<Rightarrow> TableFilter \<Rightarrow> nat list \<Rightarrow> (nat list \<times> nat) result"
and Or_FilterSelection ::
  "(nat \<Rightarrow> Value \<Rightarrow> bool) \<Rightarrow> LogicalType \<Rightarrow> Value list \<Rightarrow> TableFilter list \<Rightarrow> nat list \<Rightarrow> nat list \<Rightarrow> nat list result"
and And_FilterSelection ::
  "(nat \<Rightarrow> Value \<Rightarrow> bool) \<Rightarrow> LogicalType \<Rightarrow> Value list \<Rightarrow> TableFilter list \<Rightarrow> nat list \<Rightarrow> nat list result" where
  "FilterSelection ex t rows (OptionalFilter f) sel = Inr (sel, length rows)"
| "FilterSelection ex t rows (ConjunctionOrFilter fs) sel =
     bind_result (Or_FilterSelection ex t rows fs sel []) (\<lambda>s. Inr (s, length s))"
| "FilterSelection ex t rows (ConjunctionAndFilter fs) sel =
     bind_result (And_FilterSelection ex t rows fs sel) (\<lambda>s. Inr (s, length s))"
| "FilterSelection ex t rows (ConstantFilter cmp c) sel =
     bind_result (ConstantSelection (InternalType t) cmp c rows sel) (\<lambda>s. Inr (s, length s))"
| "FilterSelection ex t rows IsNullFilter sel =
     (let s = TemplatedNullSelection True rows sel in Inr (s, length s))"
| "FilterSelection ex t rows IsNotNullFilter sel =
     (let s = TemplatedNullSelection False rows sel in Inr (s, length s))"
| "FilterSelection ex t rows (StructFilter i name f) sel =
     (if i < length (struct_child_types t)
      then FilterSelection ex (snd (struct_child_types t ! i)) (map (struct_entry i) rows) f sel
      else Inl InternalException)"
| "FilterSelection ex t rows (ExpressionFilter e) sel =
     bind_result (ExpressionSelection (ex e) rows sel) (\<lambda>s. Inr (s, length s))"
| "FilterSelection ex t rows (InFilter values) sel = Inl InternalException"
| "FilterSelection ex t rows (DynamicFilter data) sel = Inl InternalException"
| "Or_FilterSelection ex t rows [] sel result_sel = Inr result_sel"
| "Or_FilterSelection ex t rows (f # fs) sel result_sel =
     bind_result (FilterSelection ex t rows f sel) (\<lambda>(temp_sel, temp_count).
       if temp_count \<le> length temp_sel
       then Or_FilterSelection ex t rows fs sel (or_merge (take temp_count temp_sel) result_sel)
       else Inl OutOfBounds)"
| "And_FilterSelection ex t rows [] sel = Inr sel"
| "And_FilterSelection ex t rows (f # fs) sel =
     bind_result (FilterSelection ex t rows f sel) (\<lambda>(s, n). And_FilterSelection ex t rows fs s)"

subsection \<open>What can run\<close>

text \<open>
  The filters the scan can execute: constants of the column's type with one of the six
  comparisons, no \<open>IN\<close> or dynamic filter outside an optional one, and no optional filter
  as the child of an OR.
\<close>

fun no_optional_result :: "TableFilter \<Rightarrow> bool" where
  "no_optional_result (OptionalFilter f) = False"
| "no_optional_result (StructFilter i name f) = no_optional_result f"
| "no_optional_result f = True"

fun runnable :: "LogicalType \<Rightarrow> TableFilter \<Rightarrow> bool" where
  "runnable t (OptionalFilter f) = True"
| "runnable t (ConjunctionOrFilter fs) = list_all (\<lambda>f. runnable t f \<and> no_optional_result f) fs"
| "runnable t (ConjunctionAndFilter fs) = list_all (runnable t) fs"
| "runnable t (ConstantFilter cmp c) =
     (\<not> v_is_null c \<and> InternalType (v_type c) = InternalType t \<and> supports_stats (InternalType t) \<and>
      cmp \<in> {COMPARE_EQUAL, COMPARE_NOTEQUAL, COMPARE_LESSTHAN, COMPARE_GREATERTHAN,
        COMPARE_LESSTHANOREQUALTO, COMPARE_GREATERTHANOREQUALTO})"
| "runnable t (StructFilter i name f) =
     (i < length (struct_child_types t) \<and> runnable (snd (struct_child_types t ! i)) f)"
| "runnable t (InFilter values) = False"
| "runnable t (DynamicFilter data) = False"
| "runnable t f = True"

text \<open>A row is selected when it satisfies the filter without its optional parts.\<close>

fun selects :: "(nat \<Rightarrow> Value \<Rightarrow> bool) \<Rightarrow> TableFilter \<Rightarrow> Value \<Rightarrow> bool" where
  "selects ex (OptionalFilter f) row = True"
| "selects ex (ConjunctionOrFilter fs) row = list_ex (\<lambda>f. selects ex f row) fs"
| "selects ex (ConjunctionAndFilter fs) row = list_all (\<lambda>f. selects ex f row) fs"
| "selects ex (StructFilter i name f) row = selects ex f (struct_entry i row)"
| "selects ex f row = filter_holds ex f row"

lemma holds_selects: "filter_holds ex f row \<Longrightarrow> selects ex f row"
proof (induction ex f row rule: selects.induct)
  case (2 ex fs row)
  then show ?case by (auto simp: list_ex_iff)
next
  case (3 ex fs row)
  then show ?case by (auto simp: list_all_iff)
qed auto

text \<open>A new selection holds exactly the approved rows that satisfy a predicate.\<close>

definition narrows :: "nat list \<Rightarrow> (nat \<Rightarrow> bool) \<Rightarrow> nat list \<Rightarrow> bool" where
  "narrows sel P sel' \<longleftrightarrow> distinct sel' \<and> set sel' = {i \<in> set sel. P i}"

lemma narrows_filter [simp]: "distinct sel \<Longrightarrow> narrows sel P (filter P sel)"
  by (auto simp: narrows_def)

lemma or_merge_props:
  "distinct res \<Longrightarrow> distinct (or_merge new res) \<and> set (or_merge new res) = set res \<union> set new"
  by (induction new arbitrary: res) (auto simp: or_merge_def)


subsection \<open>A run filter selects what it says\<close>

lemma AllValid_nth: "AllValid rows \<Longrightarrow> i < length rows \<Longrightarrow> \<not> v_is_null (rows ! i)"
  by (simp add: AllValid_def list_all_length)

lemma ConstantSelection_narrows:
  assumes "runnable t (ConstantFilter cmp c)" "distinct sel" "\<forall>i \<in> set sel. i < length rows"
  shows "\<exists>s. ConstantSelection (InternalType t) cmp c rows sel = Inr s \<and>
     narrows sel (\<lambda>i. selects ex (ConstantFilter cmp c) (rows ! i)) s"
proof -
  let ?s = "TemplatedFilterSelection (\<not> AllValid rows)
    (\<lambda>v. typed_holds (InternalType t) cmp v c = Some True) rows sel"
  have "ConstantSelection (InternalType t) cmp c rows sel = Inr ?s"
    using assms(1) by (auto simp: ConstantSelection_def FilterSelectionSwitch_def StringValue_Get_def supports_stats_def)
  moreover have "narrows sel (\<lambda>i. selects ex (ConstantFilter cmp c) (rows ! i)) ?s"
    using assms AllValid_nth [of rows]
    by (auto simp: narrows_def TemplatedFilterSelection_def constant_holds_def)
  ultimately show ?thesis by blast
qed

lemma TemplatedNullSelection_narrows:
  assumes "distinct sel" "\<forall>i \<in> set sel. i < length rows"
  shows "narrows sel (\<lambda>i. v_is_null (rows ! i)) (TemplatedNullSelection True rows sel)"
    "narrows sel (\<lambda>i. \<not> v_is_null (rows ! i)) (TemplatedNullSelection False rows sel)"
  using assms AllValid_nth [of rows] by (auto simp: narrows_def TemplatedNullSelection_def)

lemma narrows_trans:
  "narrows sel P s \<Longrightarrow> narrows s Q s' \<Longrightarrow> narrows sel (\<lambda>i. P i \<and> Q i) s'"
  by (auto simp: narrows_def)

lemma narrows_bounded: "narrows sel P s \<Longrightarrow> \<forall>i \<in> set sel. i < n \<Longrightarrow> \<forall>i \<in> set s. i < n"
  by (auto simp: narrows_def)

lemma narrows_distinct: "narrows sel P s \<Longrightarrow> distinct s"
  by (simp add: narrows_def)

lemma narrows_cong: "(\<And>i. i \<in> set sel \<Longrightarrow> P i = Q i) \<Longrightarrow> narrows sel P s \<longleftrightarrow> narrows sel Q s"
  by (auto simp: narrows_def)

text \<open>The main induction, over vectors of at most \<open>STANDARD_VECTOR_SIZE\<close> rows.\<close>

lemma FilterSelection_narrows:
  "runnable t f \<Longrightarrow> distinct sel \<Longrightarrow> \<forall>i \<in> set sel. i < length rows \<Longrightarrow> length rows \<le> STANDARD_VECTOR_SIZE \<Longrightarrow>
     \<exists>s n. FilterSelection ex t rows f sel = Inr (s, n) \<and> narrows sel (\<lambda>i. selects ex f (rows ! i)) s \<and>
       (no_optional_result f \<longrightarrow> n = length s)"
  "list_all (\<lambda>f. runnable t f \<and> no_optional_result f) fs \<Longrightarrow> distinct sel \<Longrightarrow> \<forall>i \<in> set sel. i < length rows \<Longrightarrow>
     length rows \<le> STANDARD_VECTOR_SIZE \<Longrightarrow> narrows sel P res \<Longrightarrow>
     \<exists>s. Or_FilterSelection ex t rows fs sel res = Inr s \<and>
       narrows sel (\<lambda>i. P i \<or> list_ex (\<lambda>f. selects ex f (rows ! i)) fs) s"
  "list_all (runnable t) fs \<Longrightarrow> distinct sel \<Longrightarrow> \<forall>i \<in> set sel. i < length rows \<Longrightarrow>
     length rows \<le> STANDARD_VECTOR_SIZE \<Longrightarrow>
     \<exists>s. And_FilterSelection ex t rows fs sel = Inr s \<and>
       narrows sel (\<lambda>i. list_all (\<lambda>f. selects ex f (rows ! i)) fs) s"
proof (induction ex t rows f sel and ex t rows fs sel res and ex t rows fs sel arbitrary: and P and
    rule: FilterSelection_Or_FilterSelection_And_FilterSelection.induct)
  case (1 ex t rows f sel)
  then show ?case by (auto simp: narrows_def)
next
  case (2 ex t rows fs sel)
  then have "\<exists>s. Or_FilterSelection ex t rows fs sel [] = Inr s \<and>
       narrows sel (\<lambda>i. False \<or> list_ex (\<lambda>f. selects ex f (rows ! i)) fs) s"
    by (intro "2.IH") (auto simp: narrows_def)
  then show ?case by auto
next
  case (3 ex t rows fs sel)
  then have "\<exists>s. And_FilterSelection ex t rows fs sel = Inr s \<and>
       narrows sel (\<lambda>i. list_all (\<lambda>f. selects ex f (rows ! i)) fs) s"
    by (intro "3.IH") auto
  then show ?case by auto
next
  case (4 ex t rows cmp c sel)
  then show ?case using ConstantSelection_narrows [of t cmp c sel rows ex] by auto
next
  case (5 ex t rows sel)
  then show ?case using TemplatedNullSelection_narrows by (simp add: Let_def)
next
  case (6 ex t rows sel)
  then show ?case using TemplatedNullSelection_narrows by (simp add: Let_def)
next
  case (7 ex t rows i name f sel)
  then obtain s n where s: "FilterSelection ex (snd (struct_child_types t ! i)) (map (struct_entry i) rows) f sel = Inr (s, n)"
    "narrows sel (\<lambda>j. selects ex f (map (struct_entry i) rows ! j)) s" "no_optional_result f \<longrightarrow> n = length s"
    by auto
  have "narrows sel (\<lambda>j. selects ex (StructFilter i name f) (rows ! j)) s"
    using s(2) "7.prems"(3) by (subst (asm) narrows_cong [where Q = "\<lambda>j. selects ex (StructFilter i name f) (rows ! j)"]) auto
  then show ?case using s "7.prems"(1) by auto
next
  case (8 ex t rows e sel)
  then show ?case by (simp add: ExpressionSelection_def)
next
  case (12 ex t rows f fs sel res)
  obtain s n where s: "FilterSelection ex t rows f sel = Inr (s, n)"
    "narrows sel (\<lambda>i. selects ex f (rows ! i)) s" "n = length s"
    using "12.IH"(1) "12.prems" by auto
  have "narrows sel (\<lambda>i. P i \<or> selects ex f (rows ! i)) (or_merge (take n s) res)"
    using s(2,3) "12.prems"(5) or_merge_props [of res s] by (auto simp: narrows_def)
  then obtain r where r: "Or_FilterSelection ex t rows fs sel (or_merge (take n s) res) = Inr r"
    "narrows sel (\<lambda>i. (P i \<or> selects ex f (rows ! i)) \<or> list_ex (\<lambda>f. selects ex f (rows ! i)) fs) r"
    using "12.IH"(2) [of n s "\<lambda>i. P i \<or> selects ex f (rows ! i)"] s(3) "12.prems" by auto
  then show ?case using s by (auto simp: disj_assoc)
next
  case (14 ex t rows f fs sel)
  obtain s n where s: "FilterSelection ex t rows f sel = Inr (s, n)"
    "narrows sel (\<lambda>i. selects ex f (rows ! i)) s"
    using "14.IH"(1) "14.prems" by auto
  obtain r where r: "And_FilterSelection ex t rows fs s = Inr r"
    "narrows s (\<lambda>i. list_all (\<lambda>f. selects ex f (rows ! i)) fs) r"
    using "14.IH"(2) [of s] "14.prems" narrows_bounded [OF s(2)] narrows_distinct [OF s(2)] by auto
  then show ?case using s narrows_trans [OF s(2) r(2)] by auto
qed (auto simp: narrows_def)


lemma drop_takeWhile: "drop (length (takeWhile P xs)) xs = dropWhile P xs"
  by (simp add: dropWhile_eq_drop)

lemma takeWhile_below: "sorted xs \<Longrightarrow> \<forall>i \<in> set xs. i < (n::nat) \<Longrightarrow> takeWhile (\<lambda>i. i < n) xs = xs"
  by (simp add: takeWhile_eq_all_conv)

lemma dropWhile_above: "sorted xs \<Longrightarrow> i \<in> set (dropWhile (\<lambda>i. i < n) xs) \<Longrightarrow> (n::nat) \<le> i"
  by (induction xs) (auto split: if_splits)

lemma expression_chunks_whole:
  "sorted sel \<Longrightarrow> \<forall>i \<in> set sel. offset \<le> i \<and> i < length rows \<Longrightarrow>
   expression_chunks ex rows offset sel = Inr (filter (\<lambda>i. ex (rows ! i)) sel)"
proof (induction ex rows offset sel rule: expression_chunks.induct)
  case (1 ex rows offset sel)
  show ?case
  proof (cases "offset < length rows")
    case False
    then have "sel = []" using "1.prems"(2) by (cases sel) auto
    then show ?thesis using False by (simp add: expression_chunks.simps)
  next
    case True
    define chunk_end where "chunk_end = offset + min STANDARD_VECTOR_SIZE (length rows - offset)"
    let ?now = "takeWhile (\<lambda>i. i < chunk_end) sel" and ?later = "dropWhile (\<lambda>i. i < chunk_end) sel"
    have now: "\<not> (\<exists>i \<in> set ?now. i < offset)"
      using "1.prems"(2) by (meson in_set_takeWhile_prefix not_less)
    have "expression_chunks ex rows chunk_end ?later = Inr (filter (\<lambda>i. ex (rows ! i)) ?later)"
      using "1.IH" [OF True chunk_end_def refl] now "1.prems" dropWhile_above [of sel]
      by (auto simp: drop_takeWhile sorted_dropWhile dest: set_dropWhileD)
    then show ?thesis
      using True now
      by (simp add: expression_chunks.simps [of ex rows offset] Let_def drop_takeWhile
          flip: chunk_end_def filter_append)
  qed
qed

subsection \<open>Properties\<close>

text \<open>C10: Checking a filter against statistics is sound for every filter tree: when the statistics
  summarise the rows, an answer that skips them is given only if no row passes, and an answer
  that skips the filter only if all of them do.\<close>
theorem check_statistics_sound:
  assumes "summarises hs hp s rows" "stats_of t s" "filter_typed t f" "CheckStatistics hs hp f s = Inr r"
  shows "(r = FILTER_ALWAYS_FALSE \<or> r = FILTER_FALSE_OR_NULL \<longrightarrow> filter (filter_holds ex f) rows = []) \<and>
     (r = FILTER_ALWAYS_TRUE \<longrightarrow> filter (filter_holds ex f) rows = rows) \<and> r \<noteq> FILTER_TRUE_OR_NULL"
  using CheckStatistics_sound(1) [of hs hp f s r rows ex] assms
  by (auto simp: stats_of_def answer_ok_def filter_empty_conv filter_id_conv)

lemma check_statistics_sound_witness:
  "\<exists>hs hp s. summarises hs hp s [int_value 5, int_value 7] \<and>
     CheckStatistics hs hp (ConjunctionOrFilter [IsNullFilter, OptionalFilter IsNullFilter]) s = Inr FILTER_ALWAYS_FALSE \<and>
     filter (filter_holds (\<lambda>_ _. True) (ConjunctionOrFilter [IsNullFilter, OptionalFilter IsNullFilter]))
       [int_value 5, int_value 7] = []"
proof -
  let ?t = "LogicalType LT_INTEGER NoTypeInfo"
  let ?f = "ConjunctionOrFilter [IsNullFilter, OptionalFilter IsNullFilter]"
  let ?s = "CreateEmpty ?t"
  let ?hp = "\<lambda>_. None :: stats_ptr option"
  have flags: "has_null (base ?s) = False" "has_no_null (base ?s)" "additional_ptr (base ?s) = 0" "b_type (base ?s) = ?t"
    by (simp_all add: CreateEmpty.simps [of ?t] init_defs type_eval)
  have sum: "summarises hs ?hp ?s [int_value 5, int_value 7]" for hs
    using flags by (cases ?s) (simp add: summarises.simps flags_cover_def ptr_summarises_def int_value_def type_eval)
  have ans: "CheckStatistics hs ?hp ?f ?s = Inr FILTER_ALWAYS_FALSE" for hs
    using flags by (simp add: IsNull_CheckStatistics_def)
  have "stats_of ?t ?s" "filter_typed ?t ?f" by (simp_all add: stats_of_def)
  then show ?thesis using check_statistics_sound [OF sum _ _ ans] sum ans by blast
qed

text \<open>C40: Running a filter that the scan can execute never throws, and keeps exactly the rows that
  satisfy it, the optional parts aside; every row that satisfies the whole filter is kept.\<close>
theorem filter_selection_exact:
  assumes "runnable t f" "length rows \<le> STANDARD_VECTOR_SIZE"
  shows "\<exists>s n. FilterSelection ex t rows f [0..<length rows] = Inr (s, n) \<and> distinct s \<and>
     set s = {i. i < length rows \<and> selects ex f (rows ! i)} \<and>
     (\<forall>i < length rows. filter_holds ex f (rows ! i) \<longrightarrow> i \<in> set s)"
proof -
  obtain s n where "FilterSelection ex t rows f [0..<length rows] = Inr (s, n)"
    "narrows [0..<length rows] (\<lambda>i. selects ex f (rows ! i)) s"
    using FilterSelection_narrows(1) [OF assms(1), of "[0..<length rows]" rows ex] assms(2) by auto
  then show ?thesis using holds_selects by (auto simp: narrows_def)
qed

lemma filter_selection_exact_witness:
  "\<exists>s n. FilterSelection (\<lambda>_ _. True) (LogicalType LT_INTEGER NoTypeInfo)
      [int_value 5, Value_null (LogicalType LT_INTEGER NoTypeInfo), int_value 7]
      (ConjunctionOrFilter [ConstantFilter COMPARE_GREATERTHAN (int_value 6), IsNullFilter]) [0, 1, 2] = Inr (s, n) \<and>
     set s = {1, 2}"
proof -
  let ?t = "LogicalType LT_INTEGER NoTypeInfo"
  let ?rows = "[int_value 5, Value_null ?t, int_value 7]"
  let ?f = "ConjunctionOrFilter [ConstantFilter COMPARE_GREATERTHAN (int_value 6), IsNullFilter]"
  have "runnable ?t ?f" by (simp add: int_value_def type_eval supports_stats_def)
  then obtain s n where s: "FilterSelection (\<lambda>_ _. True) ?t ?rows ?f [0..<length ?rows] = Inr (s, n)"
    "set s = {i. i < length ?rows \<and> selects (\<lambda>_ _. True) ?f (?rows ! i)}"
    using filter_selection_exact [of ?t ?f ?rows "\<lambda>_ _. True"] by (auto simp: STANDARD_VECTOR_SIZE_def)
  have "{i. i < length ?rows \<and> selects (\<lambda>_ _. True) ?f (?rows ! i)} = {1, 2}"
    by (auto simp: less_Suc_eq numeral_3_eq_3 constant_holds_def int_value_def Value_null_def type_eval
        typed_holds_def GetValue_int32_def ops_eval)
  then have "set s = {1, 2}" using s(2) by simp
  moreover have "[0..<length ?rows] = [0, 1, 2]" by (simp add: upt_rec numeral_2_eq_2)
  ultimately show ?thesis using s(1) by metis
qed

text \<open>An expression run chunk by chunk over a long vector selects the rows it selects over the whole
  vector, when the selection is in order.\<close>
theorem expression_chunks_equal:
  assumes "sorted sel" "\<forall>i \<in> set sel. i < length rows"
  shows "ExpressionSelection ex rows sel = Inr (filter (\<lambda>i. ex (rows ! i)) sel)"
  using expression_chunks_whole [of sel 0 rows ex] assms by (simp add: ExpressionSelection_def)

text \<open>The filters a scan ends up with hold for a row exactly when every pushed filter and every
  existing one does.\<close>
theorem final_filters_conjunction:
  "final_holds ex (GetFinalTableFilters filters existing) row \<longleftrightarrow>
     list_all (list_all (\<lambda>(i, f). filter_holds ex f (row i))) filters \<and>
     (case existing of None \<Rightarrow> True | Some fs \<Rightarrow> list_all (\<lambda>(i, f). filter_holds ex f (row i)) fs)"
  by (simp add: final_filters_hold list_all_iff split: option.splits)

end
