(* ===== verification/SegmentTree.thy ===== *)
theory SegmentTree
  imports Prelude
begin

text \<open>
  The segment tree (\<open>include/duckdb/storage/table/segment_tree.hpp\<close>): the segments of a column
  or the row groups of a table, in row order, with a binary search by row number. A node is its
  first row and its number of rows. Lazy loading is not modelled: all nodes are loaded.
\<close>

subsection \<open>Nodes\<close>

record segment_node =
  row_start :: nat
  node_count :: nat

definition node_end :: "segment_node \<Rightarrow> nat" where
  "node_end nd = row_start nd + node_count nd"

definition GetLastSegment :: "'a list \<Rightarrow> 'a option" where
  "GetLastSegment nodes = (if nodes = [] then None else Some (last nodes))"

definition GetSegmentByIndex :: "int \<Rightarrow> 'a list \<Rightarrow> 'a option" where
  "GetSegmentByIndex index nodes =
     (if index < 0
      then (let index = index + int (length nodes) in if index < 0 then None else Some (nodes ! nat index))
      else if nat index \<ge> length nodes then None
      else Some (nodes ! nat index))"

definition EraseSegments :: "nat \<Rightarrow> 'a list \<Rightarrow> 'a list" where
  "EraseSegments segment_start nodes =
     (if segment_start \<ge> length nodes then nodes else take segment_start nodes)"

subsection \<open>Searching by row number\<close>

text \<open>
  The bounds of the search are unsigned 64-bit numbers: below the first node the upper bound wraps
  around, and the next index is past the end of the nodes, which throws.
\<close>

partial_function (option) search_nodes ::
  "nat \<Rightarrow> segment_node list \<Rightarrow> nat \<Rightarrow> nat \<Rightarrow> nat option result option" where
  "search_nodes row_number nodes lower upper =
     (if lower \<le> upper
      then let index = (lower + upper) mod 2 ^ 64 div 2
           in if index \<ge> length nodes then Some (Inl InternalException)
              else if row_number < row_start (nodes ! index)
              then search_nodes row_number nodes lower ((index + 2 ^ 64 - 1) mod 2 ^ 64)
              else if row_number \<ge> row_start (nodes ! index) + node_count (nodes ! index)
              then search_nodes row_number nodes ((index + 1) mod 2 ^ 64) upper
              else Some (Inr (Some index))
      else Some (Inr None))"

declare search_nodes.simps [code]

definition TryGetSegmentIndex :: "nat \<Rightarrow> segment_node list \<Rightarrow> nat option result option" where
  "TryGetSegmentIndex row_number nodes =
     (if nodes = [] then Some (Inr None) else search_nodes row_number nodes 0 (length nodes - 1))"

definition GetSegmentIndex :: "nat \<Rightarrow> segment_node list \<Rightarrow> nat result option" where
  "GetSegmentIndex row_number nodes =
     map_option (\<lambda>r. bind_result r (\<lambda>i. case i of Some i \<Rightarrow> Inr i | None \<Rightarrow> Inl InternalException))
       (TryGetSegmentIndex row_number nodes)"

text \<open>\<open>Reinitialize\<close> sets the first rows after the starts of the segments changed.\<close>

fun reinitialize_from :: "nat \<Rightarrow> segment_node list \<Rightarrow> segment_node list result" where
  "reinitialize_from offset [] = Inr []"
| "reinitialize_from offset (nd # nodes) =
     (if row_start nd \<noteq> offset then Inl InternalException
      else bind_result (reinitialize_from (offset + node_count nd) nodes)
             (\<lambda>rest. Inr (nd\<lparr>row_start := offset\<rparr> # rest)))"

definition Reinitialize :: "segment_node list \<Rightarrow> segment_node list result" where
  "Reinitialize nodes = (case nodes of [] \<Rightarrow> Inr [] | nd # _ \<Rightarrow> reinitialize_from (row_start nd) nodes)"

subsection \<open>Trees without gaps\<close>

fun contiguous_from :: "nat \<Rightarrow> segment_node list \<Rightarrow> bool" where
  "contiguous_from offset [] = True"
| "contiguous_from offset (nd # nodes) = (row_start nd = offset \<and> contiguous_from (offset + node_count nd) nodes)"

definition contiguous :: "segment_node list \<Rightarrow> bool" where
  "contiguous nodes \<longleftrightarrow> nodes = [] \<or> contiguous_from (row_start (hd nodes)) nodes"

definition holds_row :: "segment_node \<Rightarrow> nat \<Rightarrow> bool" where
  "holds_row nd r \<longleftrightarrow> row_start nd \<le> r \<and> r < row_start nd + node_count nd"

lemma contiguous_from_bounds:
  "contiguous_from offset nodes \<Longrightarrow> i < length nodes \<Longrightarrow>
   offset \<le> row_start (nodes ! i) \<and> (\<forall>j < i. node_end (nodes ! j) \<le> row_start (nodes ! i))"
proof (induction nodes arbitrary: offset i)
  case (Cons nd nodes)
  show ?case
  proof (cases i)
    case 0
    then show ?thesis using Cons.prems by simp
  next
    case (Suc k)
    then have k: "offset + node_count nd \<le> row_start (nodes ! k)"
      "\<forall>j < k. node_end (nodes ! j) \<le> row_start (nodes ! k)"
      using Cons.IH [of "offset + node_count nd" k] Cons.prems by auto
    then show ?thesis
      using Cons.prems(1) Suc by (auto simp: nth_Cons node_end_def split: nat.split)
  qed
qed simp

lemma contiguous_order:
  assumes "contiguous nodes" "j < i" "i < length nodes"
  shows "row_start (nodes ! j) + node_count (nodes ! j) \<le> row_start (nodes ! i)"
  using assms contiguous_from_bounds [of "row_start (hd nodes)" nodes i] by (auto simp: contiguous_def node_end_def)

lemma holds_row_unique:
  assumes "contiguous nodes" "i < length nodes" "j < length nodes" "holds_row (nodes ! i) r" "holds_row (nodes ! j) r"
  shows "i = j"
  using contiguous_order [OF assms(1), of i j] contiguous_order [OF assms(1), of j i] assms
  by (fastforce simp: holds_row_def intro: linorder_cases [of i j])

lemma contiguous_from_next:
  "contiguous_from offset nodes \<Longrightarrow> Suc i < length nodes \<Longrightarrow> row_start (nodes ! Suc i) = node_end (nodes ! i)"
proof (induction nodes arbitrary: offset i)
  case (Cons nd nodes)
  then show ?case by (cases i; cases nodes) (auto simp: node_end_def)
qed simp

lemma contiguous_next:
  "contiguous nodes \<Longrightarrow> Suc i < length nodes \<Longrightarrow>
   row_start (nodes ! Suc i) = row_start (nodes ! i) + node_count (nodes ! i)"
  using contiguous_from_next by (auto simp: contiguous_def node_end_def)

text \<open>The search keeps every node that can hold the row within its bounds.\<close>

definition search_answer :: "nat \<Rightarrow> segment_node list \<Rightarrow> nat option result option \<Rightarrow> bool" where
  "search_answer r nodes a \<longleftrightarrow>
     (case a of
        Some (Inr (Some i)) \<Rightarrow> i < length nodes \<and> holds_row (nodes ! i) r
      | Some (Inr None) \<Rightarrow> (\<forall>i < length nodes. row_start (nodes ! i) + node_count (nodes ! i) \<le> r)
      | Some (Inl e) \<Rightarrow> e = InternalException \<and> r < row_start (hd nodes)
      | None \<Rightarrow> False)"

lemma search_wrapped:
  "length nodes < 2 ^ 62 \<Longrightarrow> search_nodes r nodes 0 (2 ^ 64 - 1) = Some (Inl InternalException)"
  by (subst search_nodes.simps) simp

lemma search_nodes_answer:
  assumes "contiguous nodes" "length nodes < 2 ^ 62"
    and "upper < length nodes" "lower \<le> upper + 1"
    and "\<forall>i < lower. row_start (nodes ! i) + node_count (nodes ! i) \<le> r"
    and "\<forall>i > upper. i < length nodes \<longrightarrow> r < row_start (nodes ! i)"
  shows "search_answer r nodes (search_nodes r nodes lower upper)"
  using assms(3-)
proof (induction "upper + 1 - lower" arbitrary: lower upper rule: less_induct)
  case less
  show ?case
  proof (cases "lower \<le> upper")
    case False
    then have lower: "lower = upper + 1" using less.prems by simp
    have "upper + 1 = length nodes"
    proof (rule ccontr)
      assume "upper + 1 \<noteq> length nodes"
      then have u: "Suc upper < length nodes" using less.prems(1) by simp
      then have "r < row_start (nodes ! Suc upper)" using less.prems(4) by simp
      moreover have "row_start (nodes ! upper) + node_count (nodes ! upper) \<le> r"
        using less.prems(3) lower by simp
      ultimately show False using contiguous_next [OF assms(1) u] by simp
    qed
    moreover have "search_nodes r nodes lower upper = Some (Inr None)"
      using False by (subst search_nodes.simps) simp
    ultimately show ?thesis using less.prems lower by (simp add: search_answer_def)
  next
    case True
    let ?i = "(lower + upper) div 2"
    have i: "lower \<le> ?i" "?i \<le> upper" "?i < length nodes" using True less.prems(1) by auto
    have no_wrap: "(lower + upper) mod 2 ^ 64 = lower + upper" "(?i + 1) mod 2 ^ 64 = ?i + 1"
      using i less.prems(1) assms(2) by auto
    have step: "search_nodes r nodes lower upper =
        (if r < row_start (nodes ! ?i) then search_nodes r nodes lower ((?i + 2 ^ 64 - 1) mod 2 ^ 64)
         else if r \<ge> row_start (nodes ! ?i) + node_count (nodes ! ?i) then search_nodes r nodes (?i + 1) upper
         else Some (Inr (Some ?i)))"
      using True i by (subst search_nodes.simps) (simp only: no_wrap Let_def, simp)
    consider (below) "r < row_start (nodes ! ?i)"
      | (above) "r \<ge> row_start (nodes ! ?i) + node_count (nodes ! ?i)" "\<not> r < row_start (nodes ! ?i)"
      | (here) "holds_row (nodes ! ?i) r" by (fastforce simp: holds_row_def)
    then show ?thesis
    proof cases
      case below
      show ?thesis
      proof (cases "?i = 0")
        case True
        then have "lower = 0" "hd nodes = nodes ! 0" using i by (auto simp: hd_conv_nth)
        then show ?thesis
          using below True step search_wrapped [OF assms(2), of r] by (simp add: search_answer_def)
      next
        case False
        have "(?i + 2 ^ 64 - 1) mod 2 ^ 64 = ?i - 1"
          using False i less.prems(1) assms(2) by (simp add: mod_if)
        moreover have "search_answer r nodes (search_nodes r nodes lower (?i - 1))"
        proof (rule less.hyps)
          show "\<forall>j > ?i - 1. j < length nodes \<longrightarrow> r < row_start (nodes ! j)"
          proof (intro allI impI)
            fix j assume j: "?i - 1 < j" "j < length nodes"
            show "r < row_start (nodes ! j)"
            proof (cases "j = ?i")
              case False
              then have "?i < j" using j(1) by simp
              then show ?thesis using contiguous_order [OF assms(1) _ j(2), of ?i] below by simp
            qed (simp add: below)
          qed
        qed (use i False less.prems in auto)
        ultimately show ?thesis using step below by simp
      qed
    next
      case above
      have "search_answer r nodes (search_nodes r nodes (?i + 1) upper)"
      proof (rule less.hyps)
        show "\<forall>j < ?i + 1. row_start (nodes ! j) + node_count (nodes ! j) \<le> r"
        proof (intro allI impI)
          fix j assume j: "j < ?i + 1"
          show "row_start (nodes ! j) + node_count (nodes ! j) \<le> r"
          proof (cases "j = ?i")
            case False
            then have "j < ?i" using j by simp
            then show ?thesis using contiguous_order [OF assms(1) _ i(3), of j] above(1) by simp
          qed (simp add: above(1))
        qed
      qed (use i less.prems in auto)
      then show ?thesis using step above by simp
    next
      case here
      then show ?thesis using step i(3) by (simp add: search_answer_def holds_row_def)
    qed
  qed
qed

lemma TryGetSegmentIndex_answer:
  assumes "contiguous nodes" "length nodes < 2 ^ 62"
    and "nodes \<noteq> []"
  shows "search_answer r nodes (TryGetSegmentIndex r nodes)"
proof -
  have "search_answer r nodes (search_nodes r nodes 0 (length nodes - 1))"
    by (rule search_nodes_answer [OF assms(1,2)]) (use assms(3) in auto)
  then show ?thesis using assms(3) by (simp add: TryGetSegmentIndex_def)
qed

text \<open>Contiguity under the operations.\<close>

lemma contiguous_from_append:
  "contiguous_from offset (xs @ ys) \<longleftrightarrow>
     contiguous_from offset xs \<and> contiguous_from (offset + sum_list (map node_count xs)) ys"
  by (induction xs arbitrary: offset) (auto simp: add.assoc)

lemma contiguous_snoc:
  "contiguous (xs @ [nd]) \<longleftrightarrow> contiguous xs \<and> (xs \<noteq> [] \<longrightarrow> row_start nd = node_end (last xs))"
proof (cases xs rule: rev_cases)
  case (snoc ys y)
  have "row_start (hd (ys @ [y])) + sum_list (map node_count ys) = row_start y"
    if "contiguous_from (row_start (hd (ys @ [y]))) (ys @ [y])"
    using that by (simp add: contiguous_from_append)
  then show ?thesis
    using snoc by (cases ys) (auto simp: contiguous_def contiguous_from_append node_end_def)
qed (simp add: contiguous_def)

lemma contiguous_take: "contiguous nodes \<Longrightarrow> contiguous (take n nodes)"
  using contiguous_from_append [of _ "take n nodes" "drop n nodes"]
  by (cases nodes; cases n) (auto simp: contiguous_def)

lemma Reinitialize_contiguous: "contiguous nodes \<Longrightarrow> Reinitialize nodes = Inr nodes"
proof -
  have "contiguous_from offset nodes \<Longrightarrow> reinitialize_from offset nodes = Inr nodes" for offset
    by (induction nodes arbitrary: offset) auto
  then show "contiguous nodes \<Longrightarrow> Reinitialize nodes = Inr nodes"
    by (cases nodes) (auto simp: Reinitialize_def contiguous_def)
qed

lemma search_finds:
  assumes "contiguous nodes" "nodes \<noteq> []" "length nodes < 2 ^ 62"
    and "row_start (hd nodes) \<le> r" "r < node_end (last nodes)"
  shows "\<exists>i < length nodes. TryGetSegmentIndex r nodes = Some (Inr (Some i)) \<and> holds_row (nodes ! i) r"
proof -
  have l: "length nodes - 1 < length nodes" "nodes ! (length nodes - 1) = last nodes" "nodes ! 0 = hd nodes"
    using assms(2) by (simp_all add: last_conv_nth hd_conv_nth)
  note a = TryGetSegmentIndex_answer [OF assms(1,3,2), of r]
  from a l assms(4,5) obtain i where "TryGetSegmentIndex r nodes = Some (Inr (Some i))"
    unfolding search_answer_def node_end_def by (fastforce split: option.splits sum.splits)
  then show ?thesis using a by (auto simp: search_answer_def)
qed

subsection \<open>Properties\<close>

text \<open>C26: The search by row number always ends, and finds a node exactly when one holds the row;
  then it is the only one. Past the end it finds none, and below the first node it throws.\<close>
theorem segment_search_exact:
  assumes "contiguous nodes" "nodes \<noteq> []" "length nodes < 2 ^ 62"
  shows "(row_number < row_start (hd nodes) \<longrightarrow> TryGetSegmentIndex row_number nodes = Some (Inl InternalException)) \<and>
    (row_number \<ge> node_end (last nodes) \<longrightarrow> row_start (hd nodes) \<le> row_number \<longrightarrow>
       TryGetSegmentIndex row_number nodes = Some (Inr None)) \<and>
    (row_start (hd nodes) \<le> row_number \<longrightarrow> row_number < node_end (last nodes) \<longrightarrow>
       (\<exists>i < length nodes. TryGetSegmentIndex row_number nodes = Some (Inr (Some i)) \<and> holds_row (nodes ! i) row_number \<and>
         (\<forall>j < length nodes. holds_row (nodes ! j) row_number \<longrightarrow> j = i)))"
proof -
  have last_end: "node_end (nodes ! i) \<le> node_end (last nodes)" if "i < length nodes" for i
  proof (cases "i = length nodes - 1")
    case False
    then have "i < length nodes - 1" using that by simp
    then show ?thesis
      using contiguous_order [OF assms(1), of i "length nodes - 1"] assms(2) by (simp add: node_end_def last_conv_nth)
  qed (simp add: node_end_def last_conv_nth assms(2))
  have first: "row_start (hd nodes) \<le> row_start (nodes ! i)" if "i < length nodes" for i
    using contiguous_order [OF assms(1), of 0 i] that assms(2)
    by (cases "i = 0") (auto simp: hd_conv_nth)
  have l: "length nodes - 1 < length nodes" "nodes ! (length nodes - 1) = last nodes" "nodes ! 0 = hd nodes"
    using assms(2) by (simp_all add: last_conv_nth hd_conv_nth)
  note a = TryGetSegmentIndex_answer [OF assms(1,3,2), of row_number]
  show ?thesis
  proof (intro conjI impI)
    assume "row_number < row_start (hd nodes)"
    then show "TryGetSegmentIndex row_number nodes = Some (Inl InternalException)"
      using a first l unfolding search_answer_def holds_row_def
      by (fastforce split: option.splits sum.splits)
  next
    assume "row_number \<ge> node_end (last nodes)" "row_start (hd nodes) \<le> row_number"
    then show "TryGetSegmentIndex row_number nodes = Some (Inr None)"
      using a last_end unfolding search_answer_def holds_row_def node_end_def
      by (fastforce split: option.splits sum.splits)
  next
    assume "row_start (hd nodes) \<le> row_number" "row_number < node_end (last nodes)"
    then show "\<exists>i < length nodes. TryGetSegmentIndex row_number nodes = Some (Inr (Some i)) \<and>
        holds_row (nodes ! i) row_number \<and> (\<forall>j < length nodes. holds_row (nodes ! j) row_number \<longrightarrow> j = i)"
      using search_finds [OF assms] holds_row_unique [OF assms(1)] by blast
  qed
qed

lemma segment_search_exact_witness:
  "TryGetSegmentIndex 6 [\<lparr>row_start = 0, node_count = 5\<rparr>, \<lparr>row_start = 5, node_count = 3\<rparr>] = Some (Inr (Some 1))"
proof -
  let ?nodes = "[\<lparr>row_start = 0, node_count = 5\<rparr>, \<lparr>row_start = 5, node_count = 3\<rparr>]"
  have "contiguous ?nodes" by (simp add: contiguous_def)
  then obtain i where "i < length ?nodes" "TryGetSegmentIndex 6 ?nodes = Some (Inr (Some i))" "holds_row (?nodes ! i) 6"
    using segment_search_exact [of ?nodes 6] by (auto simp: node_end_def)
  then show ?thesis by (cases i) (auto simp: holds_row_def)
qed

end
