(* ===== verification/SegmentAppend.thy ===== *)
theory SegmentAppend
  imports StatsVerify TypedStats SegmentTree
begin

text \<open>
  The transient segments of a column and appending to them: the uncompressed fixed-size,
  string and validity segments (\<open>storage/compression/fixed_size_uncompressed.cpp\<close>,
  \<open>include/duckdb/storage/string_uncompressed.hpp\<close>,
  \<open>storage/compression/validity_uncompressed.cpp\<close>), and the loop over segments
  (\<open>AppendDataWriteTemp\<close> and \<open>AppendData\<close> of \<open>storage/table/column_data.cpp\<close>). The bytes of a
  block are not modelled: a segment holds the values of its slots, and for strings the size of
  its dictionary. The slot of a NULL is never read.
\<close>

subsection \<open>Segments\<close>

record data_segment =
  seg_start :: nat
  seg_persistent :: bool
  seg_rows :: "Value list"
  seg_size :: nat
  seg_dictionary :: nat
  seg_stats :: BaseStatistics

record validity_segment =
  val_start :: nat
  val_persistent :: bool
  val_count :: nat
  val_size :: nat
  val_mask :: "nat \<Rightarrow> bool"
  val_stats :: BaseStatistics

definition GetTypeIdSize :: "PhysicalType \<Rightarrow> nat result" where
  "GetTypeIdSize t =
     (case t of
        PT_BIT \<Rightarrow> Inr 1 | PT_BOOL \<Rightarrow> Inr 1 | PT_INT8 \<Rightarrow> Inr 1 | PT_INT16 \<Rightarrow> Inr 2 | PT_INT32 \<Rightarrow> Inr 4
      | PT_INT64 \<Rightarrow> Inr 8 | PT_UINT8 \<Rightarrow> Inr 1 | PT_UINT16 \<Rightarrow> Inr 2 | PT_UINT32 \<Rightarrow> Inr 4
      | PT_UINT64 \<Rightarrow> Inr 8 | PT_INT128 \<Rightarrow> Inr 16 | PT_UINT128 \<Rightarrow> Inr 16 | PT_FLOAT \<Rightarrow> Inr 4
      | PT_DOUBLE \<Rightarrow> Inr 8 | PT_VARCHAR \<Rightarrow> Inr 16 | PT_INTERVAL \<Rightarrow> Inr 16 | PT_STRUCT \<Rightarrow> Inr 0
      | PT_UNKNOWN \<Rightarrow> Inr 0 | PT_ARRAY \<Rightarrow> Inr 0 | PT_LIST \<Rightarrow> Inr 16
      | _ \<Rightarrow> Inl InternalException)"

definition type_size :: "PhysicalType \<Rightarrow> nat" where
  "type_size t = (case GetTypeIdSize t of Inr n \<Rightarrow> n | Inl _ \<Rightarrow> 0)"

text \<open>\<open>AppendTransientSegment\<close>: the segments of transaction-local storage are smaller.\<close>

definition MAX_ROW_ID :: nat where "MAX_ROW_ID = 36028797018960000"

definition transient_size :: "nat \<Rightarrow> PhysicalType \<Rightarrow> nat \<Rightarrow> nat" where
  "transient_size block_size t start_row =
     (let vector_segment_size = (if start_row = MAX_ROW_ID then 2048 * type_size t else block_size)
      in min block_size vector_segment_size)"

definition new_data_segment :: "nat \<Rightarrow> LogicalType \<Rightarrow> nat \<Rightarrow> data_segment" where
  "new_data_segment block_size t start_row =
     \<lparr>seg_start = start_row, seg_persistent = False, seg_rows = [], seg_size = transient_size block_size (InternalType t) start_row,
      seg_dictionary = 0, seg_stats = CreateEmpty t\<rparr>"

definition validity_type :: LogicalType where "validity_type = LogicalType LT_VALIDITY NoTypeInfo"

definition new_validity_segment :: "nat \<Rightarrow> nat \<Rightarrow> validity_segment" where
  "new_validity_segment block_size start_row =
     \<lparr>val_start = start_row, val_persistent = False, val_count = 0, val_size = transient_size block_size PT_BIT start_row,
      val_mask = (\<lambda>_. True), val_stats = CreateEmpty validity_type\<rparr>"

text \<open>The nodes of the segment trees.\<close>

definition data_node :: "data_segment \<Rightarrow> segment_node" where
  "data_node seg = \<lparr>row_start = seg_start seg, node_count = length (seg_rows seg)\<rparr>"

definition validity_node :: "validity_segment \<Rightarrow> segment_node" where
  "validity_node seg = \<lparr>row_start = val_start seg, node_count = val_count seg\<rparr>"

subsection \<open>Appending to a segment\<close>

definition row_valid :: "unified_format \<Rightarrow> nat \<Rightarrow> bool" where
  "row_valid data idx = (u_all_valid data \<or> u_valid data idx)"

text \<open>The row \<open>i\<close> of the vector that is appended: its value, or NULL.\<close>

definition source_row :: "LogicalType \<Rightarrow> unified_format \<Rightarrow> nat \<Rightarrow> Value" where
  "source_row t data i =
     (let source_idx = u_sel data i
      in if row_valid data source_idx then u_data data ! source_idx else Value_null t)"

definition FixedSizeAppend ::
  "LogicalType \<Rightarrow> unified_format \<Rightarrow> nat \<Rightarrow> nat \<Rightarrow> data_segment \<Rightarrow> (nat \<times> data_segment) result" where
  "FixedSizeAppend t data offset n_rows seg =
     (let max_tuple_count = seg_size seg div type_size (InternalType t);
          copy_count = min n_rows (max_tuple_count - length (seg_rows seg))
      in Inr (copy_count, seg\<lparr>seg_rows := seg_rows seg @ map (source_row t data) [offset..<offset + copy_count]\<rparr>))"

definition GetStringBlockLimit :: "nat \<Rightarrow> nat" where
  "GetStringBlockLimit block_size = min (block_size div 4 div 8 * 8) 4096"

definition BIG_STRING_MARKER_SIZE :: nat where "BIG_STRING_MARKER_SIZE = 12"

definition DICTIONARY_HEADER_SIZE :: nat where "DICTIONARY_HEADER_SIZE = 8"

definition RemainingSpace :: "data_segment \<Rightarrow> nat" where
  "RemainingSpace seg =
     seg_size seg - (seg_dictionary seg + length (seg_rows seg) * 4 + DICTIONARY_HEADER_SIZE)"

text \<open>
  The loop appends row \<open>offset + i\<close> with \<open>n\<close> rows to go; a long string is written to an
  overflow block and takes the room of a marker.
\<close>

fun string_append_loop ::
  "nat \<Rightarrow> LogicalType \<Rightarrow> unified_format \<Rightarrow> nat \<Rightarrow> nat \<Rightarrow> nat \<Rightarrow> nat \<Rightarrow> data_segment \<Rightarrow> (nat \<times> data_segment) result" where
  "string_append_loop block_size t data offset i 0 remaining_space seg = Inr (i, seg)"
| "string_append_loop block_size t data offset i (Suc n) remaining_space seg =
     (let source_idx = u_sel data (offset + i)
      in if remaining_space < 4 then Inr (i, seg)
         else if \<not> row_valid data source_idx
         then string_append_loop block_size t data offset (i + 1) n (remaining_space - 4)
                (seg\<lparr>seg_rows := seg_rows seg @ [Value_null t]\<rparr>)
         else let value = u_data data ! source_idx;
                  string_length = length (v_string value);
                  required_space = (if string_length \<ge> GetStringBlockLimit block_size then BIG_STRING_MARKER_SIZE
                                    else string_length)
              in if required_space > remaining_space - 4 then Inr (i, seg)
                 else bind_result (string_update (v_string value) (seg_stats seg)) (\<lambda>stats.
                   string_append_loop block_size t data offset (i + 1) n (remaining_space - 4 - required_space)
                     (seg\<lparr>seg_rows := seg_rows seg @ [value], seg_stats := stats,
                          seg_dictionary := seg_dictionary seg + required_space\<rparr>)))"

definition StringAppend ::
  "nat \<Rightarrow> LogicalType \<Rightarrow> unified_format \<Rightarrow> nat \<Rightarrow> nat \<Rightarrow> data_segment \<Rightarrow> (nat \<times> data_segment) result" where
  "StringAppend block_size t data offset n_rows seg =
     string_append_loop block_size t data offset 0 n_rows (RemainingSpace seg) seg"

text \<open>The append function the uncompressed compression has for a physical type.\<close>

definition segment_Append ::
  "nat \<Rightarrow> LogicalType \<Rightarrow> unified_format \<Rightarrow> nat \<Rightarrow> nat \<Rightarrow> data_segment \<Rightarrow> (nat \<times> data_segment) result" where
  "segment_Append block_size t data offset n_rows seg =
     (if InternalType t = PT_VARCHAR then StringAppend block_size t data offset n_rows seg
      else if supports_stats (InternalType t) \<or> InternalType t = PT_INTERVAL then FixedSizeAppend t data offset n_rows seg
      else Inl InternalException)"

definition set_flags :: "bool \<Rightarrow> bool \<Rightarrow> BaseStatistics \<Rightarrow> BaseStatistics" where
  "set_flags some_null some_valid s =
     Stats ((base s)\<lparr>has_null := has_null (base s) \<or> some_null, has_no_null := has_no_null (base s) \<or> some_valid\<rparr>)
       (child_stats s)"

definition ValidityAppend ::
  "unified_format \<Rightarrow> nat \<Rightarrow> nat \<Rightarrow> validity_segment \<Rightarrow> (nat \<times> validity_segment) result" where
  "ValidityAppend data offset vcount seg =
     (let max_tuples = val_size seg div 256 * 2048;
          append_count = min vcount (max_tuples - val_count seg);
          valid = (\<lambda>i. u_valid data (u_sel data (offset + i)))
      in if u_all_valid data
         then Inr (append_count, seg\<lparr>val_count := val_count seg + append_count,
                     val_stats := set_flags False True (val_stats seg)\<rparr>)
         else Inr (append_count,
                seg\<lparr>val_mask := (\<lambda>j. if val_count seg \<le> j \<and> j < val_count seg + append_count \<and> \<not> valid (j - val_count seg)
                                    then False else val_mask seg j),
                    val_count := val_count seg + append_count,
                    val_stats := set_flags (\<exists>i \<in> set [0..<append_count]. \<not> valid i) (\<exists>i \<in> set [0..<append_count]. valid i)
                      (val_stats seg)\<rparr>))"

text \<open>
  Truncating a segment to the rows before \<open>start_row\<close>. The mask is reset bit by bit to the end
  of its byte, and byte by byte from there.
\<close>

definition data_RevertAppend :: "nat \<Rightarrow> data_segment \<Rightarrow> data_segment" where
  "data_RevertAppend start_row seg = seg\<lparr>seg_rows := take (start_row - seg_start seg) (seg_rows seg)\<rparr>"

definition ValidityRevertAppend :: "nat \<Rightarrow> validity_segment \<Rightarrow> validity_segment" where
  "ValidityRevertAppend start_row seg =
     (let start_bit = start_row - val_start seg;
          bit_end = (start_bit div 8 + 1) * 8;
          (mask, revert_start) =
            (if start_bit mod 8 \<noteq> 0
             then (\<lambda>i. if start_bit \<le> i \<and> i < bit_end then True else val_mask seg i, bit_end div 8)
             else (val_mask seg, start_bit div 8))
      in seg\<lparr>val_mask := (\<lambda>i. if revert_start \<le> i div 8 \<and> i div 8 < val_size seg then True else mask i),
             val_count := start_row - val_start seg\<rparr>)"

subsection \<open>The loop over segments\<close>

text \<open>
  The parts of the state the loop changes: the segments (the last one is the current one), the
  row count of the column, the statistics the segments are merged into, and what \<open>write_temp\<close>
  collects. A segment that is full is followed by a new one; nothing makes a new segment take a
  row, so the loop may not end and its result is an option.
\<close>

partial_function (option) append_loop ::
  "(nat \<Rightarrow> nat \<Rightarrow> 's \<Rightarrow> (nat \<times> 's) result) \<Rightarrow> (nat \<Rightarrow> 's) \<Rightarrow> ('s \<Rightarrow> BaseStatistics) \<Rightarrow> ('s \<Rightarrow> nat) \<Rightarrow>
   (nat \<Rightarrow> nat \<Rightarrow> 't \<Rightarrow> 't) \<Rightarrow> nat \<Rightarrow> nat \<Rightarrow> 's list \<Rightarrow> nat \<Rightarrow> BaseStatistics \<Rightarrow> 't \<Rightarrow>
   ('s list \<times> nat \<times> BaseStatistics \<times> 't) result option" where
  "append_loop append_rows fresh stats_of_segment next_start write_temp offset append_count segments row_total stats temp =
     (if segments = [] then Some (Inl InternalException)
      else case append_rows offset append_count (last segments) of
        Inl e \<Rightarrow> Some (Inl e)
      | Inr (copied_elements, current) \<Rightarrow>
          (case stats_Merge stats (stats_of_segment current) of
             Inl e \<Rightarrow> Some (Inl e)
           | Inr merged \<Rightarrow>
               if copied_elements = append_count
               then Some (Inr (butlast segments @ [current], row_total + copied_elements, merged,
                               write_temp offset copied_elements temp))
               else append_loop append_rows fresh stats_of_segment next_start write_temp
                      (offset + copied_elements) (append_count - copied_elements)
                      (butlast segments @ [current, fresh (next_start current)])
                      (row_total + copied_elements) merged (write_temp offset copied_elements temp)))"


declare append_loop.simps [code]

subsection \<open>The contract of a segment\<close>

text \<open>
  What the loop relies on: an append takes the first rows that are left and changes nothing
  else of the contents, it keeps the segment in order, the statistics of the segment cover the
  rows it took, a new segment takes at least one row, and the statistics can be merged.
\<close>

locale segment_store =
  fixes app :: "nat \<Rightarrow> nat \<Rightarrow> nat \<Rightarrow> 's \<Rightarrow> (nat \<times> 's) result"
    and fresh :: "nat \<Rightarrow> nat \<Rightarrow> 's"
    and stats_of_segment :: "'s \<Rightarrow> BaseStatistics"
    and node_of :: "'s \<Rightarrow> segment_node"
    and rows_of :: "'s \<Rightarrow> 'r list"
    and src :: "nat \<Rightarrow> 'r"
    and limit :: nat
    and ok :: "'s \<Rightarrow> bool"
    and large :: "nat \<Rightarrow> bool"
    and covered :: "BaseStatistics \<Rightarrow> 'r \<Rightarrow> bool"
    and target :: "BaseStatistics \<Rightarrow> bool"
  assumes append_takes: "ok s \<Longrightarrow> off + n \<le> limit \<Longrightarrow> app b off n s = Inr (k, s') \<Longrightarrow> k \<le> n \<and> ok s' \<and>
      row_start (node_of s') = row_start (node_of s) \<and> rows_of s' = rows_of s @ map src [off..<off + k] \<and> (\<forall>i < k. covered (stats_of_segment s') (src (off + i)))"
    and fresh_empty: "ok s \<Longrightarrow> ok (fresh b p)" "rows_of (fresh b p) = []" "row_start (node_of (fresh b p)) = p"
    and node_rows: "node_count (node_of s) = length (rows_of s)"
    and fresh_takes: "large b \<Longrightarrow> 0 < n \<Longrightarrow> app b off n (fresh b p) = Inr (k, s') \<Longrightarrow> 0 < k"
    and merge_covers: "target a \<Longrightarrow> ok s \<Longrightarrow> \<exists>m. stats_Merge a (stats_of_segment s) = Inr m \<and> target m \<and>
      additional_ptr (base m) = additional_ptr (base a) \<and>
      (\<forall>r. covered a r \<or> covered (stats_of_segment s) r \<longrightarrow> covered m r)"
begin

abbreviation loop where
  "loop b write off n \<equiv> append_loop (app b) (fresh b) stats_of_segment (\<lambda>s. node_end (node_of s)) write off n"

text \<open>The loop ends: a segment that takes nothing is full, and the next one is new.\<close>

lemma loop_step:
  assumes "segs \<noteq> []" "ok (last segs)" "off + n \<le> limit"
    and "\<And>k off segs t a temp. k < n \<Longrightarrow> segs \<noteq> [] \<Longrightarrow> ok (last segs) \<Longrightarrow> off + k \<le> limit \<Longrightarrow>
      \<exists>r. loop b write off k segs t a temp = Some r"
    and "\<And>s. 0 < n \<Longrightarrow> app b off n (last segs) = Inr (0, s) \<Longrightarrow>
      \<forall>m. \<exists>r. loop b write off n (butlast segs @ [s, fresh b (node_end (node_of s))]) t m (write off 0 temp) = Some r"
  shows "\<exists>r. loop b write off n segs t a temp = Some r"
proof (cases "app b off n (last segs)")
  case (Inl e)
  then show ?thesis using assms(1) by (subst append_loop.simps) simp
next
  case (Inr p)
  obtain k s where p: "app b off n (last segs) = Inr (k, s)" using Inr by (cases p) simp
  have le: "k \<le> n" using append_takes [OF assms(2,3) p] by simp
  have next_loop: "\<exists>r. loop b write (off + k) (n - k) (butlast segs @ [s, fresh b (node_end (node_of s))]) (t + k) m
      (write off k temp) = Some r" if "k \<noteq> n" for m
  proof (cases "k = 0")
    case True
    then show ?thesis using assms(5) [of s] p that by simp
  next
    case False
    then show ?thesis using that le fresh_empty(1) [OF assms(2)] assms(3) by (intro assms(4)) simp_all
  qed
  show ?thesis
    using assms(1) p next_loop
    by (subst append_loop.simps) (auto split: sum.split)
qed

lemma loop_total:
  assumes "large b" "segs \<noteq> []" "ok (last segs)" "off + n \<le> limit"
  shows "\<exists>r. loop b write off n segs t a temp = Some r"
  using assms(2-)
proof (induction n arbitrary: off segs t a temp rule: less_induct)
  case (less n)
  have new: "\<exists>r. loop b write off n (segs @ [fresh b p]) t m temp = Some r" for segs p t m temp
  proof (rule loop_step)
    show "\<forall>m. \<exists>r. loop b write off n (butlast (segs @ [fresh b p]) @ [s, fresh b (node_end (node_of s))]) t m
        (write off 0 temp) = Some r" if "0 < n" "app b off n (last (segs @ [fresh b p])) = Inr (0, s)" for s
      using fresh_takes [OF assms(1) that(1), of off p 0 s] that(2) by simp
  qed (use less.IH less.prems fresh_empty(1) [OF less.prems(2)] in auto)
  have "butlast segs @ [s, fresh b p] = (butlast segs @ [s]) @ [fresh b p]" for s p by simp
  then have full: "\<forall>m. \<exists>r. loop b write off n (butlast segs @ [s, fresh b p]) t m temp = Some r" for s p t temp
    using new by metis
  show ?case
  proof (rule loop_step [OF less.prems])
    show "\<exists>r. loop b write off k segs t a temp = Some r" if "k < n" "segs \<noteq> []" "ok (last segs)" "off + k \<le> limit"
      for k off segs t a temp
      by (rule less.IH [OF that])
  next
    fix s
    show "\<forall>m. \<exists>r. loop b write off n (butlast segs @ [s, fresh b (node_end (node_of s))]) t m (write off 0 temp) = Some r"
      by (rule full)
  qed
qed

text \<open>What the loop has done when it returns.\<close>

definition appended :: "nat \<Rightarrow> nat \<Rightarrow> 's list \<Rightarrow> nat \<Rightarrow> BaseStatistics \<Rightarrow> 's list \<Rightarrow> nat \<Rightarrow> BaseStatistics \<Rightarrow> bool" where
  "appended off n segs t a segs' t' m \<longleftrightarrow>
     segs' \<noteq> [] \<and> list_all ok segs' \<and> row_start (node_of (hd segs')) = row_start (node_of (hd segs)) \<and>
     (contiguous (map node_of segs) \<longrightarrow> contiguous (map node_of segs')) \<and>
     concat (map rows_of segs') = concat (map rows_of segs) @ map src [off..<off + n] \<and> t' = t + n \<and>
     target m \<and> additional_ptr (base m) = additional_ptr (base a) \<and>
     (\<forall>i < n. covered m (src (off + i))) \<and> (\<forall>r. covered a r \<longrightarrow> covered m r)"

lemma split_last: "segs \<noteq> [] \<Longrightarrow> list_all P segs \<longleftrightarrow> list_all P (butlast segs) \<and> P (last segs)"
  by (cases segs rule: rev_cases) auto

lemma rows_last: "segs \<noteq> [] \<Longrightarrow>
  concat (map rows_of segs) = concat (map rows_of (butlast segs)) @ rows_of (last segs)"
  by (cases segs rule: rev_cases) auto

lemma appended_segment:
  assumes "segs \<noteq> []" "list_all ok segs" "target a" "off + n \<le> limit" "app b off n (last segs) = Inr (k, s)"
    and "stats_Merge a (stats_of_segment s) = Inr m"
  shows "k \<le> n \<and> appended off k segs t a (butlast segs @ [s]) (t + k) m"
proof -
  obtain xs x where segs: "segs = xs @ [x]" using assms(1) by (cases segs rule: rev_cases) auto
  then have x: "ok x" "app b off n x = Inr (k, s)" using assms by simp_all
  note takes = append_takes [OF x(1) assms(4) x(2)]
  have "contiguous (map node_of segs) \<longrightarrow> contiguous (map node_of (xs @ [s]))"
    using takes by (simp add: segs contiguous_snoc)
  moreover have "row_start (node_of (hd (xs @ [s]))) = row_start (node_of (hd segs))"
    using takes segs by (cases xs) simp_all
  ultimately show ?thesis
    using takes merge_covers [of a s] assms(2,3,6) by (auto simp: appended_def segs)
qed

lemma appended_fresh:
  "appended off k segs t a segs' t' m \<Longrightarrow>
   appended off k segs t a (segs' @ [fresh b (node_end (node_of (last segs')))]) t' m"
  using fresh_empty(1) [of "last segs'"] fresh_empty(2,3)
    contiguous_snoc [of "map node_of segs'" "node_of (fresh b (node_end (node_of (last segs'))))"]
  by (auto simp: appended_def last_map list_all_iff)

lemma appended_trans:
  assumes "appended off k segs t a segs1 t1 m1" "appended (off + k) j segs1 t1 m1 segs2 t2 m2"
  shows "appended off (k + j) segs t a segs2 t2 m2"
proof -
  have "\<forall>i < k + j. covered m2 (src (off + i))"
  proof (intro allI impI)
    fix i assume i: "i < k + j"
    show "covered m2 (src (off + i))"
    proof (cases "i < k")
      case True
      then show ?thesis using assms by (simp add: appended_def)
    next
      case False
      then have "i - k < j" "off + k + (i - k) = off + i" using i by auto
      then show ?thesis using assms(2) unfolding appended_def by metis
    qed
  qed
  moreover have "[off..<off + (k + j)] = [off..<off + k] @ [off + k..<off + k + j]"
    by (metis add.assoc le_add1 upt_add_eq_append)
  ultimately show ?thesis using assms by (auto simp: appended_def)
qed

definition loop_ok where
  "loop_ok b write segs' t' m temp' ap fr st ns wr off n segs t a temp r \<longleftrightarrow>
     (ap = app b \<and> fr = fresh b \<and> st = stats_of_segment \<and> ns = (\<lambda>s. node_end (node_of s)) \<and> wr = write \<and>
      segs \<noteq> [] \<and> list_all ok segs \<and> target a \<and> off + n \<le> limit \<and> r = (Inr (segs', t', m, temp') :: _ result) \<longrightarrow>
      appended off n segs t a segs' t' m \<and> temp' = write off n temp)"

lemma loop_appended:
  assumes "loop b write off n segs t a temp = Some (Inr (segs', t', m, temp'))"
    and "segs \<noteq> []" "list_all ok segs" "target a" "off + n \<le> limit"
    and temp_splits: "\<And>off k j temp. write (off + k) j (write off k temp) = write off (k + j) temp"
  shows "appended off n segs t a segs' t' m \<and> temp' = write off n temp"
proof -
  let ?P = "loop_ok b write segs' t' m temp'"
  have "?P (app b) (fresh b) stats_of_segment (\<lambda>s. node_end (node_of s)) write off n segs t a temp (Inr (segs', t', m, temp'))"
  proof (rule append_loop.raw_induct [where P = ?P, OF _ assms(1)])
    fix self ap fr st ns wr off n segs t a temp r
    assume IH: "\<And>ap fr st ns wr off n segs t a temp r. self ap fr st ns wr off n segs t a temp = Some r \<Longrightarrow>
        ?P ap fr st ns wr off n segs t a temp r"
      and body: "(if segs = [] then Some (Inl InternalException)
        else case ap off n (last segs) of Inl e \<Rightarrow> Some (Inl e)
        | Inr (k, s) \<Rightarrow> (case stats_Merge a (st s) of Inl e \<Rightarrow> Some (Inl e)
          | Inr m \<Rightarrow> if k = n then Some (Inr (butlast segs @ [s], t + k, m, wr off k temp))
              else self ap fr st ns wr (off + k) (n - k) (butlast segs @ [s, fr (ns s)]) (t + k) m (wr off k temp))) = Some r"
    show "?P ap fr st ns wr off n segs t a temp r"
      unfolding loop_ok_def
    proof (intro impI)
      assume p: "ap = app b \<and> fr = fresh b \<and> st = stats_of_segment \<and> ns = (\<lambda>s. node_end (node_of s)) \<and> wr = write \<and>
        segs \<noteq> [] \<and> list_all ok segs \<and> target a \<and> off + n \<le> limit \<and> r = Inr (segs', t', m, temp')"
      then have segs: "segs \<noteq> []" "list_all ok segs" and a: "target a" "off + n \<le> limit" and r: "r = Inr (segs', t', m, temp')"
        by simp_all
      from p obtain k s a1 where step: "app b off n (last segs) = Inr (k, s)" "stats_Merge a (stats_of_segment s) = Inr a1"
        and rest: "(if k = n then Some (Inr (butlast segs @ [s], t + k, a1, write off k temp))
          else self (app b) (fresh b) stats_of_segment (\<lambda>s. node_end (node_of s)) write (off + k) (n - k)
            (butlast segs @ [s, fresh b (node_end (node_of s))]) (t + k) a1 (write off k temp)) = Some r"
        using body by (auto split: sum.splits)
      have k: "k \<le> n" "appended off k segs t a (butlast segs @ [s]) (t + k) a1"
        using appended_segment [OF segs a step] by blast+
      show "appended off n segs t a segs' t' m \<and> temp' = write off n temp"
      proof (cases "k = n")
        case True
        then show ?thesis using k rest r by simp
      next
        case False
        have new: "appended off k segs t a (butlast segs @ [s, fresh b (node_end (node_of s))]) (t + k) a1"
          using appended_fresh [OF k(2)] by simp
        then have "appended (off + k) (n - k) (butlast segs @ [s, fresh b (node_end (node_of s))]) (t + k) a1 segs' t' m \<and>
            temp' = write (off + k) (n - k) (write off k temp)"
          using IH rest False r a(2) k(1) by (auto simp: appended_def loop_ok_def)
        then show ?thesis using appended_trans [OF new, of "n - k"] k(1) temp_splits [of off k "n - k" temp] by simp
      qed
    qed
  qed
  then show ?thesis using assms(2-5) by (simp add: loop_ok_def)
qed

end

subsection \<open>The segments of the values\<close>

text \<open>A vector in its format: a valid row is a value of the type.\<close>

definition format_ok :: "LogicalType \<Rightarrow> unified_format \<Rightarrow> nat \<Rightarrow> bool" where
  "format_ok t data n \<longleftrightarrow>
     (\<forall>i < n. row_valid data (u_sel data i) \<longrightarrow>
        (let v = u_data data ! u_sel data i in \<not> v_is_null v \<and> v_type v = t \<and> length (v_string v) < 2 ^ 32))"

lemma format_ok_less: "format_ok t data n \<Longrightarrow> m \<le> n \<Longrightarrow> format_ok t data m"
  by (simp add: format_ok_def)

text \<open>The rows fit the segment, which for strings includes the dictionary and its header.\<close>

definition within_capacity :: "LogicalType \<Rightarrow> data_segment \<Rightarrow> bool" where
  "within_capacity t seg \<longleftrightarrow>
     (if InternalType t = PT_VARCHAR
      then seg_dictionary seg + 4 * length (seg_rows seg) \<le> seg_size seg - DICTIONARY_HEADER_SIZE
      else length (seg_rows seg) * type_size (InternalType t) \<le> seg_size seg)"

definition segment_ok :: "LogicalType \<Rightarrow> data_segment \<Rightarrow> bool" where
  "segment_ok t seg \<longleftrightarrow>
     stats_of t (seg_stats seg) \<and> additional_ptr (base (seg_stats seg)) = 0 \<and> within_capacity t seg"

definition string_covered :: "BaseStatistics \<Rightarrow> Value \<Rightarrow> bool" where
  "string_covered s v \<longleftrightarrow>
     v_is_null v \<or> GetStatsType (stats_type s) \<noteq> STRING_STATS \<or> string_admits (base s) (v_string v)"

lemma stats_Merge_ptr:
  "stats_Merge s o' = Inr m \<Longrightarrow> additional_ptr (base o') = 0 \<Longrightarrow> additional_ptr (base m) = additional_ptr (base s)"
  by (cases s; cases o')
    (auto simp: Let_def merge_base_def StringStats_Merge_def bind_result_Inr_iff split: StatisticsType.splits if_splits)

text \<open>What the statistics of a column keep while segments are merged into them.\<close>

definition column_target :: "LogicalType \<Rightarrow> bool \<Rightarrow> Value set \<Rightarrow> BaseStatistics \<Rightarrow> bool" where
  "column_target t some_null S s \<longleftrightarrow>
     stats_of t s \<and> has_no_null (base s) \<and> (some_null \<longrightarrow> has_null (base s)) \<and> (\<forall>v \<in> S. string_covered s v)"

lemma merge_string_covered:
  assumes "stats_of t a" "stats_of t b"
  shows "\<exists>m. stats_Merge a b = Inr m \<and> stats_of t m \<and> has_null (base m) = (has_null (base a) \<or> has_null (base b)) \<and>
    has_no_null (base m) = (has_no_null (base a) \<or> has_no_null (base b)) \<and>
    (\<forall>v. string_covered a v \<or> string_covered b v \<longrightarrow> string_covered m v)"
proof -
  obtain m where m: "stats_Merge a b = Inr m" "merge_bound a b m"
    using stats_Merge_bound [of a b] assms by (auto simp: stats_of_def)
  obtain x xs y ys where s: "a = Stats x xs" "b = Stats y ys" by (metis BaseStatistics.exhaust)
  then have "stats_Merge a b = bind_result (merge_children xs ys) (\<lambda>ms. Inr (Stats (merge_data x y) ms))"
    using stats_Merge_node [of x y xs ys] assms(1,2) by (simp only: stats_of_def BaseStatistics.sel)
  then have "bind_result (merge_children xs ys) (\<lambda>ms. Inr (Stats (merge_data x y) ms)) = Inr m"
    using m(1) by simp
  then have base: "base m = merge_data x y" by (auto simp: bind_result_Inr_iff)
  then have "string_covered m v" if "string_covered a v \<or> string_covered b v" for v
    using that StringStats_Merge_admits [of x y "v_string v"] assms(1,2) s base
    by (auto simp: string_covered_def merge_data_def stats_of_def)
  moreover have "has_null (base m) = (has_null x \<or> has_null y)" "has_no_null (base m) = (has_no_null x \<or> has_no_null y)"
    using base by (simp_all add: merge_data_def)
  ultimately show ?thesis
    using m assms(1) s by (auto simp: stats_of_def merge_bound_def)
qed

lemma merge_segment:
  assumes "column_target t some_null S a" "stats_of t b" "additional_ptr (base b) = 0"
  shows "\<exists>m. stats_Merge a b = Inr m \<and> column_target t some_null S m \<and> additional_ptr (base m) = additional_ptr (base a) \<and>
    (\<forall>v. string_covered a v \<or> string_covered b v \<longrightarrow> string_covered m v)"
proof -
  obtain m where m: "stats_Merge a b = Inr m" "stats_of t m" "has_null (base m) = (has_null (base a) \<or> has_null (base b))"
    "has_no_null (base m) = (has_no_null (base a) \<or> has_no_null (base b))"
    "\<forall>v. string_covered a v \<or> string_covered b v \<longrightarrow> string_covered m v"
    using merge_string_covered [of t a b] assms by (auto simp: column_target_def)
  then show ?thesis
    using stats_Merge_ptr [OF m(1) assms(3)] assms(1) by (auto simp: column_target_def)
qed

lemma string_update_keeps:
  assumes "string_update str s = Inr u" "stats_of t s" "length str < 2 ^ 32"
  shows "stats_of t u" "additional_ptr (base u) = additional_ptr (base s)"
    "GetStatsType t = STRING_STATS \<Longrightarrow> string_admits (base u) str"
    "string_admits (base s) x \<Longrightarrow> string_admits (base u) x"
proof -
  have len: "unat (word_of_nat (length str) :: 32 word) = length str"
    using assms(3) by (simp add: unat_of_nat)
  show "stats_of t u" "additional_ptr (base u) = additional_ptr (base s)"
    "GetStatsType t = STRING_STATS \<Longrightarrow> string_admits (base u) str"
    "string_admits (base s) x \<Longrightarrow> string_admits (base u) x"
    using assms(1,2) len
    by (auto simp: string_update_def StringStats_Update_def Let_def string_admits_def stats_of_def stats_okD
        HasMaxStringLength_def bind_result_Inr_iff split: if_splits UnicodeType.splits)
qed

text \<open>What appending a run of rows does to a segment.\<close>

definition took :: "LogicalType \<Rightarrow> unified_format \<Rightarrow> nat \<Rightarrow> nat \<Rightarrow> data_segment \<Rightarrow> data_segment \<Rightarrow> bool" where
  "took t data off k seg seg' \<longleftrightarrow>
     segment_ok t seg' \<and> seg_start seg' = seg_start seg \<and> seg_rows seg' = seg_rows seg @ map (source_row t data) [off..<off + k] \<and>
     (\<forall>i < k. string_covered (seg_stats seg') (source_row t data (off + i))) \<and>
     (\<forall>v. string_covered (seg_stats seg) v \<longrightarrow> string_covered (seg_stats seg') v)"

lemma took_0: "segment_ok t seg \<Longrightarrow> took t data off 0 seg seg"
  by (simp add: took_def)

lemma took_Suc:
  assumes "seg_rows seg1 = seg_rows seg @ [source_row t data off]" "seg_start seg1 = seg_start seg"
    and "string_covered (seg_stats seg1) (source_row t data off)"
    and "\<And>v. string_covered (seg_stats seg) v \<Longrightarrow> string_covered (seg_stats seg1) v"
    and "took t data (Suc off) k seg1 seg'"
  shows "took t data off (Suc k) seg seg'"
proof -
  have "[off..<off + Suc k] = off # [Suc off..<Suc off + k]" by (simp add: upt_conv_Cons)
  then show ?thesis
    using assms by (auto simp: took_def less_Suc_eq_0_disj)
qed

lemma string_append_loop_took:
  assumes "string_append_loop b t data off i n remaining seg = Inr (k, seg')"
    and "InternalType t = PT_VARCHAR" "segment_ok t seg" "format_ok t data (off + i + n)"
    and "remaining = seg_size seg - (seg_dictionary seg + length (seg_rows seg) * 4 + DICTIONARY_HEADER_SIZE)"
  shows "\<exists>j. k = i + j \<and> j \<le> n \<and> took t data (off + i) j seg seg'"
  using assms
proof (induction b t data off i n remaining seg rule: string_append_loop.induct)
  case (1 b t data off i remaining seg)
  then show ?case by (simp add: took_0)
next
  case (2 b t data off i n remaining seg)
  let ?idx = "u_sel data (off + i)" and ?v = "u_data data ! u_sel data (off + i)"
  let ?len = "length (v_string ?v)"
  let ?req = "if ?len \<ge> GetStringBlockLimit b then BIG_STRING_MARKER_SIZE else ?len"
  have stop: ?case if "k = i" "seg' = seg" using that took_0 [OF "2.prems"(3)] by auto
  have conclude: ?case
    if seg1: "\<exists>j. k = i + 1 + j \<and> j \<le> n \<and> took t data (Suc (off + i)) j seg1 seg'"
      "seg_rows seg1 = seg_rows seg @ [source_row t data (off + i)]" "seg_start seg1 = seg_start seg"
      "string_covered (seg_stats seg1) (source_row t data (off + i))"
      "\<And>v. string_covered (seg_stats seg) v \<Longrightarrow> string_covered (seg_stats seg1) v" for seg1
  proof -
    obtain j where "k = i + Suc j" "Suc j \<le> Suc n" "took t data (Suc (off + i)) j seg1 seg'" using seg1(1) by auto
    then show ?thesis using took_Suc [OF seg1(2-5)] by blast
  qed
  have format: "format_ok t data (off + (i + 1) + n)" using "2.prems"(4) by simp
  consider (full) "remaining < 4" | (null) "\<not> remaining < 4" "\<not> row_valid data ?idx"
    | (stored) "\<not> remaining < 4" "row_valid data ?idx" by blast
  then show ?case
  proof cases
    case full
    then show ?thesis using "2.prems"(1) stop by simp
  next
    case null
    let ?seg1 = "seg\<lparr>seg_rows := seg_rows seg @ [Value_null t]\<rparr>"
    have "segment_ok t ?seg1"
      using "2.prems"(2,3,5) null by (auto simp: segment_ok_def within_capacity_def)
    moreover have "remaining - 4 = seg_size ?seg1 - (seg_dictionary ?seg1 + length (seg_rows ?seg1) * 4 + DICTIONARY_HEADER_SIZE)"
      using "2.prems"(5) by simp
    moreover have "string_append_loop b t data off (i + 1) n (remaining - 4) ?seg1 = Inr (k, seg')"
      using "2.prems"(1) null by simp
    ultimately have "\<exists>j. k = i + 1 + j \<and> j \<le> n \<and> took t data (off + (i + 1)) j ?seg1 seg'"
      using "2.IH"(1) [OF refl null] "2.prems"(2) format by simp
    then show ?thesis
      using null by (intro conclude [of ?seg1]) (simp_all add: source_row_def Let_def string_covered_def Value_null_def)
  next
    case stored
    show ?thesis
    proof (cases "?req > remaining - 4")
      case True
      then show ?thesis using "2.prems"(1) stored stop by (simp add: Let_def)
    next
      case False
      then obtain u where u: "string_update (v_string ?v) (seg_stats seg) = Inr u"
        "string_append_loop b t data off (i + 1) n (remaining - 4 - ?req)
          (seg\<lparr>seg_rows := seg_rows seg @ [?v], seg_stats := u, seg_dictionary := seg_dictionary seg + ?req\<rparr>) = Inr (k, seg')"
        using "2.prems"(1) stored by (auto simp: Let_def bind_result_Inr_iff)
      let ?seg1 = "seg\<lparr>seg_rows := seg_rows seg @ [?v], seg_stats := u, seg_dictionary := seg_dictionary seg + ?req\<rparr>"
      have v: "\<not> v_is_null ?v" "v_type ?v = t" "length (v_string ?v) < 2 ^ 32"
        using "2.prems"(4) stored by (simp_all add: format_ok_def Let_def)
      note keeps = string_update_keeps [OF u(1) _ v(3), of t]
      have "segment_ok t ?seg1"
        using "2.prems"(2,3,5) stored False keeps(1,2) by (auto simp: segment_ok_def within_capacity_def)
      moreover have "remaining - 4 - ?req = seg_size ?seg1 - (seg_dictionary ?seg1 + length (seg_rows ?seg1) * 4 + DICTIONARY_HEADER_SIZE)"
        using "2.prems"(5) by simp
      ultimately have "\<exists>j. k = i + 1 + j \<and> j \<le> n \<and> took t data (off + (i + 1)) j ?seg1 seg'"
        using "2.IH"(2) [OF refl stored(1) _ refl refl refl False, of u] stored u "2.prems"(2) format by simp
      then show ?thesis
        using stored v keeps "2.prems"(3)
        by (intro conclude [of ?seg1]) (auto simp: source_row_def Let_def string_covered_def segment_ok_def stats_of_def)
    qed
  qed
qed

lemma StringAppend_took:
  assumes "StringAppend b t data off n seg = Inr (k, seg')" "InternalType t = PT_VARCHAR" "segment_ok t seg"
    and "format_ok t data (off + n)"
  shows "k \<le> n \<and> took t data off k seg seg'"
  using string_append_loop_took [of b t data off 0 n "RemainingSpace seg" seg k seg'] assms
  by (auto simp: StringAppend_def RemainingSpace_def)

lemma not_string_type: "InternalType t \<noteq> PT_VARCHAR \<Longrightarrow> GetStatsType t \<noteq> STRING_STATS"
  by (auto simp: GetStatsType_def split: PhysicalType.splits if_splits)

lemma FixedSizeAppend_took:
  assumes "FixedSizeAppend t data off n seg = Inr (k, seg')" "InternalType t \<noteq> PT_VARCHAR" "segment_ok t seg"
  shows "k \<le> n \<and> took t data off k seg seg'"
proof -
  let ?size = "type_size (InternalType t)"
  have k: "k = min n (seg_size seg div ?size - length (seg_rows seg))"
    and seg': "seg' = seg\<lparr>seg_rows := seg_rows seg @ map (source_row t data) [off..<off + k]\<rparr>"
    using assms(1) by (auto simp: FixedSizeAppend_def Let_def)
  have "length (seg_rows seg) * ?size \<le> seg_size seg"
    using assms(2,3) by (simp add: segment_ok_def within_capacity_def)
  then have "(length (seg_rows seg) + k) * ?size \<le> seg_size seg"
    by (cases "?size = 0") (simp_all add: k less_eq_div_iff_mult_less_eq [symmetric])
  then show ?thesis
    using assms(2,3) not_string_type [OF assms(2)]
    by (simp add: k seg' took_def segment_ok_def within_capacity_def string_covered_def stats_of_def)
qed

lemma segment_Append_took:
  assumes "segment_Append b t data off n seg = Inr (k, seg')" "segment_ok t seg" "format_ok t data (off + n)"
  shows "k \<le> n \<and> took t data off k seg seg'"
  using assms StringAppend_took FixedSizeAppend_took
  by (auto simp: segment_Append_def split: if_splits)

lemma CreateEmpty_ptr: "additional_ptr (base (CreateEmpty t)) = 0"
  by (simp add: CreateEmpty.simps [of t] init_defs fresh_data_def stats_Construct.simps
      split: StatisticsType.splits)

lemma new_segment_ok: "segment_ok t (new_data_segment b t p)"
  by (simp add: segment_ok_def new_data_segment_def stats_of_def CreateEmpty_ptr within_capacity_def)

lemma type_size_range:
  "supports_stats p \<or> p = PT_INTERVAL \<Longrightarrow> 0 < type_size p \<and> type_size p \<le> 16"
  by (auto simp: supports_stats_def type_size_def GetTypeIdSize_def)

lemma transient_size_bounds:
  "transient_size b p q \<le> b" "p = PT_VARCHAR \<Longrightarrow> min b 32768 \<le> transient_size b p q"
  "supports_stats p \<or> p = PT_INTERVAL \<Longrightarrow> 16 \<le> b \<Longrightarrow> type_size p \<le> transient_size b p q"
  using type_size_range [of p] by (auto simp: transient_size_def type_size_def GetTypeIdSize_def Let_def)

lemma string_append_loop_ge:
  "string_append_loop b t data off i n remaining seg = Inr (k, seg') \<Longrightarrow> i \<le> k"
proof (induction b t data off i n remaining seg rule: string_append_loop.induct)
  case (2 b t data off i n remaining seg)
  show ?case
    using "2.prems" "2.IH"(1) [OF refl] "2.IH"(2) [OF refl _ _ refl refl refl]
    by (fastforce simp: Let_def bind_result_Inr_iff split: if_splits)
qed simp

text \<open>A block of the size the storage uses has room for a row; the smallest allocation is 16 kB.\<close>

definition large_block :: "nat \<Rightarrow> bool" where "large_block b \<longleftrightarrow> 4096 \<le> b"

lemma StringAppend_fresh:
  assumes "large_block b" "0 < n" "StringAppend b t data off n (new_data_segment b t p) = Inr (k, seg')"
    and "InternalType t = PT_VARCHAR"
  shows "0 < k"
proof -
  let ?seg = "new_data_segment b t p"
  let ?len = "length (v_string (u_data data ! u_sel data off))"
  have size: "min b 32768 \<le> seg_size ?seg"
    using assms(4) transient_size_bounds(2) [of "InternalType t" b p] by (simp add: new_data_segment_def)
  have limit: "GetStringBlockLimit b \<le> b div 4" "GetStringBlockLimit b \<le> 4096"
    by (auto simp: GetStringBlockLimit_def)
  have "RemainingSpace ?seg = seg_size ?seg - 8"
    by (simp add: RemainingSpace_def new_data_segment_def DICTIONARY_HEADER_SIZE_def)
  then have "\<not> RemainingSpace ?seg < 4"
    "\<not> (if ?len \<ge> GetStringBlockLimit b then BIG_STRING_MARKER_SIZE else ?len) > RemainingSpace ?seg - 4"
    using size limit assms(1) by (auto simp: large_block_def BIG_STRING_MARKER_SIZE_def)
  then show ?thesis
    using assms(2,3) string_append_loop_ge
    by (cases n) (fastforce simp: StringAppend_def Let_def bind_result_Inr_iff split: if_splits)+
qed

lemma FixedSizeAppend_fresh:
  assumes "large_block b" "0 < n" "FixedSizeAppend t data off n (new_data_segment b t p) = Inr (k, seg')"
    and "supports_stats (InternalType t) \<or> InternalType t = PT_INTERVAL"
  shows "0 < k"
proof -
  have "type_size (InternalType t) \<le> transient_size b (InternalType t) p" "0 < type_size (InternalType t)"
    using transient_size_bounds(3) [OF assms(4)] type_size_range [OF assms(4)] assms(1) by (simp_all add: large_block_def)
  then show ?thesis
    using assms(2,3) by (auto simp: FixedSizeAppend_def Let_def new_data_segment_def div_greater_zero_iff)
qed

lemma segment_Append_fresh:
  assumes "large_block b" "0 < n" "segment_Append b t data off n (new_data_segment b t p) = Inr (k, seg')"
  shows "0 < k"
proof (cases "InternalType t = PT_VARCHAR")
  case True
  then show ?thesis using StringAppend_fresh [OF assms(1,2)] assms(3) by (simp add: segment_Append_def)
next
  case False
  then show ?thesis
    using FixedSizeAppend_fresh [OF assms(1,2)] assms(3) by (simp add: segment_Append_def split: if_splits)
qed

interpretation data_segs: segment_store "\<lambda>b. segment_Append b t data" "\<lambda>b. new_data_segment b t" seg_stats
    data_node seg_rows "source_row t data" n
    "\<lambda>seg. segment_ok t seg \<and> format_ok t data n" large_block string_covered
    "column_target t some_null S" for t data n some_null S
proof
  show "k \<le> m \<and> (segment_ok t s' \<and> format_ok t data n) \<and>
      row_start (data_node s') = row_start (data_node s) \<and> seg_rows s' = seg_rows s @ map (source_row t data) [off..<off + k] \<and>
      (\<forall>i < k. string_covered (seg_stats s') (source_row t data (off + i)))"
    if s: "segment_ok t s \<and> format_ok t data n" "off + m \<le> n" "segment_Append b t data off m s = Inr (k, s')"
    for s off m b k s'
  proof -
    have "segment_ok t s" "format_ok t data (off + m)" using s(1) format_ok_less [OF _ s(2)] by blast+
    then have "k \<le> m \<and> took t data off k s s'" by (rule segment_Append_took [OF s(3)])
    then show ?thesis using s(1) unfolding took_def data_node_def by simp
  qed
  show "0 < k" if "large_block b" "0 < m" "segment_Append b t data off m (new_data_segment b t p) = Inr (k, s')"
    for b m off p k s'
    by (rule segment_Append_fresh [OF that])
qed (use new_segment_ok merge_segment in \<open>auto simp: segment_ok_def new_data_segment_def data_node_def\<close>)

subsection \<open>The segments of the validity mask\<close>

text \<open>
  No bit past the rows of the segment is cleared: an append that finds no NULL writes nothing
  and relies on it.
\<close>

definition validity_ok :: "validity_segment \<Rightarrow> bool" where
  "validity_ok seg \<longleftrightarrow>
     stats_of validity_type (val_stats seg) \<and> additional_ptr (base (val_stats seg)) = 0 \<and>
     val_count seg \<le> val_size seg div 256 * 2048 \<and> (\<forall>j \<ge> val_count seg. val_mask seg j)"

definition validity_rows :: "validity_segment \<Rightarrow> bool list" where
  "validity_rows seg = map (val_mask seg) [0..<val_count seg]"

definition validity_covered :: "BaseStatistics \<Rightarrow> bool \<Rightarrow> bool" where
  "validity_covered s is_valid \<longleftrightarrow> (if is_valid then has_no_null (base s) else has_null (base s))"

definition source_valid :: "unified_format \<Rightarrow> nat \<Rightarrow> bool" where
  "source_valid data i = row_valid data (u_sel data i)"

lemma stats_Merge_validity:
  "stats_of validity_type (Stats y ys) \<Longrightarrow> stats_Merge (Stats x xs) (Stats y ys) = Inr (Stats (merge_base x y) xs)"
  by (auto simp: stats_of_def validity_type_def StringStats_Merge_def Let_def split: StatisticsType.splits)

lemma merge_validity:
  assumes "column_target t some_null S a" "stats_of validity_type b" "additional_ptr (base b) = 0"
  shows "\<exists>m. stats_Merge a b = Inr m \<and> column_target t some_null S m \<and> additional_ptr (base m) = additional_ptr (base a) \<and>
    (\<forall>v. validity_covered a v \<or> validity_covered b v \<longrightarrow> validity_covered m v)"
proof -
  obtain x xs y ys where s: "a = Stats x xs" "b = Stats y ys" by (metis BaseStatistics.exhaust)
  then have m: "stats_Merge a b = Inr (Stats (merge_base x y) xs)"
    using assms(2) stats_Merge_validity by simp
  have "string_covered (Stats (merge_base x y) xs) v = string_covered a v" for v
    by (simp add: s string_covered_def string_admits_def HasMaxStringLength_def)
  then show ?thesis
    using assms s m by (auto simp: column_target_def stats_of_def validity_covered_def merge_base_def)
qed

lemma set_flags_simps [simp]:
  "stats_of t (set_flags x y s) = stats_of t s" "additional_ptr (base (set_flags x y s)) = additional_ptr (base s)"
  "has_null (base (set_flags x y s)) = (has_null (base s) \<or> x)"
  "has_no_null (base (set_flags x y s)) = (has_no_null (base s) \<or> y)"
  by (cases s; simp add: set_flags_def stats_of_def)+

lemma ValidityAppend_all_valid:
  assumes "ValidityAppend data off n s = Inr (k, s')" "u_all_valid data"
  shows "s' = s\<lparr>val_count := val_count s + k, val_stats := set_flags False True (val_stats s)\<rparr>"
    "k = min n (val_size s div 256 * 2048 - val_count s)" "source_valid data i"
  using assms by (auto simp: ValidityAppend_def Let_def source_valid_def row_valid_def)

lemma ValidityAppend_some_null:
  assumes "ValidityAppend data off n s = Inr (k, s')" "\<not> u_all_valid data"
  shows "s' = s\<lparr>val_mask := (\<lambda>j. if val_count s \<le> j \<and> j < val_count s + k \<and> \<not> source_valid data (off + (j - val_count s))
                then False else val_mask s j),
              val_count := val_count s + k,
              val_stats := set_flags (\<exists>i \<in> set [0..<k]. \<not> source_valid data (off + i))
                (\<exists>i \<in> set [0..<k]. source_valid data (off + i)) (val_stats s)\<rparr>"
    "k = min n (val_size s div 256 * 2048 - val_count s)"
  using assms by (auto simp: ValidityAppend_def Let_def source_valid_def row_valid_def)

lemma ValidityAppend_takes:
  assumes "validity_ok s" "ValidityAppend data off n s = Inr (k, s')"
  shows "k \<le> n \<and> validity_ok s' \<and> row_start (validity_node s') = row_start (validity_node s) \<and> validity_rows s' = validity_rows s @ map (source_valid data) [off..<off + k] \<and>
    (\<forall>i < k. validity_covered (val_stats s') (source_valid data (off + i)))"
proof -
  let ?mask = "\<lambda>j. if val_count s \<le> j \<and> j < val_count s + k then source_valid data (off + (j - val_count s)) else val_mask s j"
  note all = ValidityAppend_all_valid [OF assms(2)] and some = ValidityAppend_some_null [OF assms(2)]
  have k: "k = min n (val_size s div 256 * 2048 - val_count s)"
    using all some by blast
  have clean: "val_count s \<le> j \<Longrightarrow> val_mask s j" for j
    using assms(1) by (simp add: validity_ok_def)
  have size: "val_count s' = val_count s + k" "val_size s' = val_size s" "val_start s' = val_start s"
    using all(1) some(1) by (cases "u_all_valid data"; simp)+
  have mask: "val_mask s' = ?mask"
  proof (cases "u_all_valid data")
    case True
    then show ?thesis using all clean by (simp add: fun_eq_iff)
  next
    case False
    then show ?thesis using some(1) clean by (simp add: fun_eq_iff)
  qed
  have stats: "stats_of validity_type (val_stats s')" "additional_ptr (base (val_stats s')) = 0"
    using assms(1) all(1) some(1) by (cases "u_all_valid data"; simp add: validity_ok_def)+
  have flags: "\<forall>i < k. validity_covered (val_stats s') (source_valid data (off + i))"
  proof (cases "u_all_valid data")
    case True
    then show ?thesis using all by (simp add: validity_covered_def)
  next
    case False
    then show ?thesis using some(1) by (auto simp: validity_covered_def)
  qed
  have "validity_rows s' = map ?mask ([0..<val_count s] @ [val_count s..<val_count s + k])"
    by (simp add: validity_rows_def size mask upt_add_eq_append [of 0 "val_count s" k, simplified])
  also have "\<dots> = validity_rows s @ map (source_valid data) [off..<off + k]"
    by (simp add: validity_rows_def) (rule nth_equalityI; simp)
  finally have rows: "validity_rows s' = validity_rows s @ map (source_valid data) [off..<off + k]" .
  have "k \<le> n" "val_count s + k \<le> val_size s div 256 * 2048"
    using k assms(1) by (auto simp: validity_ok_def min_def)
  then show ?thesis
    using assms(1) stats flags size mask rows by (simp add: validity_ok_def validity_node_def)
qed

lemma ValidityAppend_fresh:
  "large_block b \<Longrightarrow> 0 < n \<Longrightarrow> ValidityAppend data off n (new_validity_segment b p) = Inr (k, s') \<Longrightarrow> 0 < k"
  by (auto simp: ValidityAppend_def Let_def new_validity_segment_def transient_size_def type_size_def GetTypeIdSize_def
      large_block_def div_greater_zero_iff split: if_splits)

lemma new_validity_ok: "validity_ok (new_validity_segment b p)"
  by (simp add: validity_ok_def new_validity_segment_def stats_of_def CreateEmpty_ptr)

interpretation validity_segs: segment_store "\<lambda>b. ValidityAppend data" new_validity_segment val_stats
    validity_node validity_rows "source_valid data" n validity_ok large_block
    validity_covered "column_target t some_null S" for t data n some_null S
proof
  show "0 < k" if "large_block b" "0 < m" "ValidityAppend data off m (new_validity_segment b p) = Inr (k, s')"
    for b m off p k s'
    by (rule ValidityAppend_fresh [OF that])
  show "k \<le> m \<and> validity_ok s' \<and> row_start (validity_node s') = row_start (validity_node s) \<and> validity_rows s' = validity_rows s @ map (source_valid data) [off..<off + k] \<and>
      (\<forall>i < k. validity_covered (val_stats s') (source_valid data (off + i)))"
    if "validity_ok s" "ValidityAppend data off m s = Inr (k, s')" for s off m b k s'
    by (rule ValidityAppend_takes [OF that])
qed (use new_validity_ok merge_validity in \<open>auto simp: validity_ok_def validity_rows_def new_validity_segment_def validity_node_def\<close>)

end
