(* ===== verification/SegmentRevert.thy ===== *)
theory SegmentRevert
  imports SegmentAppend
begin

text \<open>
  Reverting an append (\<open>RevertAppend\<close> of \<open>storage/table/column_data.cpp\<close>): the segments past a row
  are erased, and the segment that holds it is truncated.
\<close>

subsection \<open>Truncating a tree of segments\<close>

text \<open>The flag says whether the row count of the column is set.\<close>

definition tree_RevertAppend ::
  "('s \<Rightarrow> segment_node) \<Rightarrow> (nat \<Rightarrow> 's \<Rightarrow> 's) \<Rightarrow> nat \<Rightarrow> 's list \<Rightarrow> ('s list \<times> bool) result option" where
  "tree_RevertAppend node_of revert start_row segments =
     (case GetLastSegment segments of
        None \<Rightarrow> Some (Inr (segments, False))
      | Some last_segment \<Rightarrow>
          if start_row \<ge> node_end (node_of last_segment) then Some (Inr (segments, False))
          else map_option (\<lambda>r. bind_result r (\<lambda>segment_index.
                 let segment = segments ! segment_index
                 in if row_start (node_of segment) = start_row
                    then Inr (EraseSegments segment_index segments, True)
                    else let kept = EraseSegments (segment_index + 1) segments
                         in Inr (kept[segment_index := revert start_row segment], True)))
               (GetSegmentIndex start_row (map node_of segments)))"

text \<open>A segment that can be truncated.\<close>

locale revertible_store = segment_store +
  fixes revert :: "nat \<Rightarrow> 'a \<Rightarrow> 'a"
  assumes revert_truncates: "ok s \<Longrightarrow> row_start (node_of s) < r \<Longrightarrow> r < node_end (node_of s) \<Longrightarrow>
    ok (revert r s) \<and> row_start (node_of (revert r s)) = row_start (node_of s) \<and>
    rows_of (revert r s) = take (r - row_start (node_of s)) (rows_of s)"
begin

lemma rows_sum: "sum_list (map node_count (map node_of segs)) = length (concat (map rows_of segs))"
  by (simp add: length_concat node_rows comp_def)

lemma start_before:
  assumes "contiguous (map node_of segs)" "segs = xs @ x # ys"
  shows "row_start (node_of x) = row_start (node_of (hd segs)) + length (concat (map rows_of xs))"
proof -
  have "contiguous (map node_of (xs @ [x]))"
    using contiguous_take [OF assms(1), of "length xs + 1"] assms(2) by simp
  then have "contiguous_from (row_start (node_of (hd segs))) (map node_of xs @ [node_of x])"
    using assms(2) by (cases xs) (auto simp: contiguous_def)
  then show ?thesis using rows_sum [of xs] by (simp add: contiguous_from_append)
qed

lemma tree_RevertAppend_rows:
  assumes "tree_RevertAppend node_of revert r segs = Some (Inr (segs', reverted))"
    and "list_all ok segs" "contiguous (map node_of segs)" "length segs < 2 ^ 62"
  shows "list_all ok segs' \<and> contiguous (map node_of segs') \<and>
    (segs \<noteq> [] \<longrightarrow> segs' \<noteq> [] \<longrightarrow> row_start (node_of (hd segs')) = row_start (node_of (hd segs))) \<and>
    (segs \<noteq> [] \<longrightarrow> concat (map rows_of segs') = take (r - row_start (node_of (hd segs))) (concat (map rows_of segs))) \<and>
    length segs' \<le> length segs \<and> (reverted \<longrightarrow> row_start (node_of (hd segs)) \<le> r \<and> segs \<noteq> [])"
proof (cases "segs = []")
  case True
  then show ?thesis using assms(1) by (simp add: tree_RevertAppend_def GetLastSegment_def contiguous_def)
next
  case False
  let ?start = "row_start (node_of (hd segs))"
  have last_start: "row_start (node_of (last segs)) = ?start + length (concat (map rows_of (butlast segs)))"
    using start_before [OF assms(3), of "butlast segs" "last segs" "[]"] False by simp
  show ?thesis
  proof (cases "r \<ge> node_end (node_of (last segs))")
    case True
    have "concat (map rows_of segs) = concat (map rows_of (butlast segs)) @ rows_of (last segs)"
      using rows_last [OF False] .
    then have "length (concat (map rows_of segs)) \<le> r - ?start"
      using True last_start by (simp add: node_end_def node_rows)
    then show ?thesis
      using assms False True by (simp add: tree_RevertAppend_def GetLastSegment_def)
  next
    case before: False
    obtain i where idx: "GetSegmentIndex r (map node_of segs) = Some (Inr i)"
      using assms(1) False before
      by (auto simp: tree_RevertAppend_def GetLastSegment_def bind_result_Inr_iff)
    then have "TryGetSegmentIndex r (map node_of segs) = Some (Inr (Some i))"
      by (auto simp: GetSegmentIndex_def bind_result_Inr_iff split: option.splits)
    then have i: "i < length segs" "holds_row (node_of (segs ! i)) r"
      using TryGetSegmentIndex_answer [OF assms(3) _ , of r] assms(4) False by (auto simp: search_answer_def)
    let ?xs = "take i segs" and ?x = "segs ! i"
    have segs: "segs = ?xs @ ?x # drop (Suc i) segs" using i(1) by (rule id_take_nth_drop)
    have x_start: "row_start (node_of ?x) = ?start + length (concat (map rows_of ?xs))"
      by (rule start_before [OF assms(3) segs])
    have rows: "concat (map rows_of segs) = concat (map rows_of ?xs) @ rows_of ?x @ concat (map rows_of (drop (Suc i) segs))"
      by (subst segs) simp
    have ok: "list_all ok ?xs" "ok ?x"
      using assms(2) i(1) by (auto simp: list_all_iff dest: in_set_takeD)
    have cont: "contiguous (map node_of ?xs)" using contiguous_take [OF assms(3), of i] by (simp add: take_map)
    have hd_take: "?xs \<noteq> [] \<Longrightarrow> hd ?xs = hd segs" by (cases i; cases segs) auto
    show ?thesis
    proof (cases "row_start (node_of ?x) = r")
      case True
      then have "segs' = ?xs" "reverted"
        using assms(1) False before idx i(1) by (auto simp: tree_RevertAppend_def GetLastSegment_def EraseSegments_def)
      then show ?thesis
        using ok cont hd_take rows x_start True \<open>segs \<noteq> []\<close> by auto
    next
      case inside: False
      have "(EraseSegments (i + 1) segs)[i := revert r ?x] = ?xs @ [revert r ?x]"
        using i(1) by (simp add: EraseSegments_def list_eq_iff_nth_eq nth_append min_def) (auto simp: nth_list_update)
      then have segs': "segs' = ?xs @ [revert r ?x]" "reverted"
        using assms(1) False before idx inside by (auto simp: tree_RevertAppend_def GetLastSegment_def)
      have r: "row_start (node_of ?x) < r" "r < node_end (node_of ?x)"
        using i(2) inside by (auto simp: holds_row_def node_end_def)
      note cut = revert_truncates [OF ok(2) r]
      have "contiguous (map node_of ?xs @ [node_of ?x])"
        using contiguous_take [OF assms(3), of "Suc i"] i(1) by (simp add: take_Suc_conv_app_nth take_map)
      then have "contiguous (map node_of segs')" using cut by (simp add: segs' contiguous_snoc)
      moreover have "row_start (node_of (hd segs')) = ?start"
        using cut hd_take x_start by (cases ?xs) (auto simp: segs')
      moreover have "concat (map rows_of segs') = take (r - ?start) (concat (map rows_of segs))"
        using cut r x_start rows node_rows [of ?x] by (simp add: segs' node_end_def)
      moreover have "length segs' \<le> length segs" using i(1) by (simp add: segs')
      ultimately show ?thesis using ok cut r x_start segs' False by simp
    qed
  qed
qed

text \<open>Reverting to a row at or after the first never fails.\<close>

lemma tree_RevertAppend_ok:
  assumes "contiguous (map node_of segs)" "length segs < 2 ^ 62" "segs \<noteq> [] \<Longrightarrow> row_start (node_of (hd segs)) \<le> r"
  shows "\<exists>segs' reverted. tree_RevertAppend node_of revert r segs = Some (Inr (segs', reverted))"
proof (cases "segs = [] \<or> r \<ge> node_end (node_of (last segs))")
  case True
  then show ?thesis by (auto simp: tree_RevertAppend_def GetLastSegment_def)
next
  case False
  then obtain i where "TryGetSegmentIndex r (map node_of segs) = Some (Inr (Some i))"
    using search_finds [OF assms(1), of r] assms(2,3) by (auto simp: hd_map last_map)
  then have "GetSegmentIndex r (map node_of segs) = Some (Inr i)" by (simp add: GetSegmentIndex_def)
  then show ?thesis
    using False by (auto simp: tree_RevertAppend_def GetLastSegment_def Let_def)
qed

end

subsection \<open>Truncating the segments\<close>

lemma ValidityRevertAppend_mask:
  assumes "validity_ok seg" "val_start seg < r" "r < val_start seg + val_count seg"
  shows "val_mask (ValidityRevertAppend r seg) j = (if r - val_start seg \<le> j then True else val_mask seg j)"
proof -
  let ?s = "r - val_start seg"
  have size: "val_count seg \<le> 8 * val_size seg" using assms(1) by (auto simp: validity_ok_def)
  have clean: "8 * val_size seg \<le> j \<Longrightarrow> val_mask seg j" using assms(1) size by (simp add: validity_ok_def)
  have bytes: "?s \<le> j \<Longrightarrow> ?s div 8 \<le> j div 8" "\<not> j div 8 < val_size seg \<Longrightarrow> 8 * val_size seg \<le> j" by auto
  show ?thesis
  proof (cases "?s mod 8 = 0")
    case True
    then have "?s div 8 \<le> j div 8 \<longleftrightarrow> ?s \<le> j" by auto
    then show ?thesis using True clean bytes by (auto simp: ValidityRevertAppend_def Let_def)
  next
    case False
    have "?s div 8 + 1 \<le> j div 8 \<longleftrightarrow> (?s div 8 + 1) * 8 \<le> j" by auto
    moreover have "?s < (?s div 8 + 1) * 8" by auto
    ultimately show ?thesis using False clean bytes by (auto simp: ValidityRevertAppend_def Let_def)
  qed
qed

lemma ValidityRevertAppend_ok:
  assumes "validity_ok seg" "val_start seg < r" "r < val_start seg + val_count seg"
  shows "validity_ok (ValidityRevertAppend r seg)"
    "validity_rows (ValidityRevertAppend r seg) = take (r - val_start seg) (validity_rows seg)"
proof -
  have fields: "val_count (ValidityRevertAppend r seg) = r - val_start seg"
    "val_size (ValidityRevertAppend r seg) = val_size seg" "val_stats (ValidityRevertAppend r seg) = val_stats seg"
    by (simp_all add: ValidityRevertAppend_def Let_def split: prod.splits)
  show "validity_ok (ValidityRevertAppend r seg)"
    using assms fields ValidityRevertAppend_mask [OF assms] by (auto simp: validity_ok_def)
  show "validity_rows (ValidityRevertAppend r seg) = take (r - val_start seg) (validity_rows seg)"
    using assms fields by (intro nth_equalityI) (auto simp: validity_rows_def ValidityRevertAppend_mask [OF assms])
qed

interpretation data_tree: revertible_store "\<lambda>b. segment_Append b t data" "\<lambda>b. new_data_segment b t" seg_stats
    data_node seg_rows "source_row t data" n "\<lambda>seg. segment_ok t seg \<and> format_ok t data n" large_block
    string_covered "column_target t some_null S" data_RevertAppend for t data n some_null S
proof unfold_locales
  show "(segment_ok t (data_RevertAppend r s) \<and> format_ok t data n) \<and>
      row_start (data_node (data_RevertAppend r s)) = row_start (data_node s) \<and>
      seg_rows (data_RevertAppend r s) = take (r - row_start (data_node s)) (seg_rows s)"
    if "segment_ok t s \<and> format_ok t data n" for s r
  proof -
    have "min x y * k \<le> z" if "x * k \<le> z" for k x y z :: nat
      using that by (meson le_trans min.cobounded1 mult_le_mono1)
    then show ?thesis
      using that by (auto simp: data_RevertAppend_def data_node_def segment_ok_def within_capacity_def min.commute)
  qed
qed

interpretation validity_tree: revertible_store "\<lambda>b. ValidityAppend data" new_validity_segment val_stats
    validity_node validity_rows "source_valid data" n validity_ok large_block
    validity_covered "column_target t some_null S" ValidityRevertAppend for t data n some_null S
proof unfold_locales
  show "validity_ok (ValidityRevertAppend r s) \<and>
      row_start (validity_node (ValidityRevertAppend r s)) = row_start (validity_node s) \<and>
      validity_rows (ValidityRevertAppend r s) = take (r - row_start (validity_node s)) (validity_rows s)"
    if "validity_ok s" "row_start (validity_node s) < r" "r < node_end (validity_node s)" for s r
    using that ValidityRevertAppend_ok [of s r]
    by (auto simp: validity_node_def node_end_def ValidityRevertAppend_def Let_def split: prod.splits)
qed

end
