(* ===== verification/ColumnLifecycle.thy ===== *)
theory ColumnLifecycle
  imports SegmentRevert FilterCheck
begin

text \<open>
  A column of a row group (\<open>storage/table/column_data.cpp\<close>,
  \<open>storage/table/standard_column_data.cpp\<close>): its segments and those of its validity mask, its
  statistics with the pointer to the additional statistic, the values collected for it, and the
  statistics of its updates (\<open>storage/table/update_segment.cpp\<close>). The version chains of the
  updates are not modelled; a log keeps every value an update wrote, and a scan may see the
  stored value of a row or one that was written.
\<close>

subsection \<open>The column\<close>

record column_data =
  cd_type :: LogicalType
  cd_start :: nat
  cd_count :: nat
  cd_segments :: "data_segment list"
  cd_validity_count :: nat
  cd_validity :: "validity_segment list"
  cd_stats :: BaseStatistics
  cd_invalidated :: bool
  cd_temp :: temp_vectors
  cd_updates :: "BaseStatistics option"
  cd_validity_updates :: "BaseStatistics option"
  cd_update_log :: "Value list"

definition new_column :: "LogicalType \<Rightarrow> nat \<Rightarrow> column_data" where
  "new_column t start_row =
     \<lparr>cd_type = t, cd_start = start_row, cd_count = 0, cd_segments = [], cd_validity_count = 0, cd_validity = [],
      cd_stats = CreateEmpty t, cd_invalidated = False, cd_temp = no_temp_vectors, cd_updates = None,
      cd_validity_updates = None, cd_update_log = []\<rparr>"

abbreviation cd_ptr :: "column_data \<Rightarrow> 64 word" where
  "cd_ptr col \<equiv> additional_ptr (base (cd_stats col))"

definition clear_ptr :: "BaseStatistics \<Rightarrow> BaseStatistics" where
  "clear_ptr s = Stats ((base s)\<lparr>additional_ptr := 0\<rparr>) (child_stats s)"

definition set_ptr :: "64 word \<Rightarrow> BaseStatistics \<Rightarrow> BaseStatistics" where
  "set_ptr p s = Stats ((base s)\<lparr>additional_ptr := p\<rparr>) (child_stats s)"

text \<open>The rows that are stored: the values where the mask is set.\<close>

definition stored_rows :: "column_data \<Rightarrow> Value list" where
  "stored_rows col =
     map2 (\<lambda>v is_valid. if is_valid then v else Value_null (cd_type col))
       (concat (map seg_rows (cd_segments col))) (concat (map validity_rows (cd_validity col)))"

definition visible_rows :: "column_data \<Rightarrow> Value list" where
  "visible_rows col = stored_rows col @ cd_update_log col"

subsection \<open>Appending\<close>

text \<open>
  A column without segments gets an empty one; after a persistent segment comes a transient one.
\<close>

definition segments_InitializeAppend ::
  "('s \<Rightarrow> bool) \<Rightarrow> ('s \<Rightarrow> nat) \<Rightarrow> (nat \<Rightarrow> 's) \<Rightarrow> nat \<Rightarrow> 's list \<Rightarrow> 's list" where
  "segments_InitializeAppend persistent next_start fresh start_row segments =
     (let segments = (if segments = [] then [fresh start_row] else segments);
          segment = last segments
      in if persistent segment then segments @ [fresh (next_start segment)] else segments)"

definition column_InitializeAppend :: "nat \<Rightarrow> column_data \<Rightarrow> column_data" where
  "column_InitializeAppend block_size col =
     col\<lparr>cd_segments := segments_InitializeAppend seg_persistent (\<lambda>s. node_end (data_node s))
           (new_data_segment block_size (cd_type col)) (cd_start col) (cd_segments col),
         cd_validity := segments_InitializeAppend val_persistent (\<lambda>s. node_end (validity_node s))
           (new_validity_segment block_size) (cd_start col) (cd_validity col)\<rparr>"

text \<open>\<open>AppendDataWriteTemp\<close> for the values, then \<open>AppendData\<close> for the mask.\<close>

definition AppendDataWriteTemp ::
  "nat \<Rightarrow> unified_format \<Rightarrow> nat \<Rightarrow> column_data \<Rightarrow>
   (data_segment list \<times> nat \<times> BaseStatistics \<times> temp_vectors) result option" where
  "AppendDataWriteTemp block_size vdata append_count col =
     append_loop (segment_Append block_size (cd_type col) vdata) (new_data_segment block_size (cd_type col)) seg_stats
       (\<lambda>s. node_end (data_node s)) (AppendTemp (InternalType (cd_type col)) vdata) 0 append_count
       (cd_segments col) (cd_count col) (cd_stats col) (cd_temp col)"

definition validity_AppendData ::
  "nat \<Rightarrow> unified_format \<Rightarrow> nat \<Rightarrow> BaseStatistics \<Rightarrow> column_data \<Rightarrow>
   (validity_segment list \<times> nat \<times> BaseStatistics \<times> unit) result option" where
  "validity_AppendData block_size vdata append_count append_stats col =
     append_loop (ValidityAppend vdata) (new_validity_segment block_size) val_stats
       (\<lambda>s. node_end (validity_node s)) (\<lambda>_ _ u. u) 0 append_count
       (cd_validity col) (cd_validity_count col) append_stats ()"

definition column_AppendData :: "nat \<Rightarrow> unified_format \<Rightarrow> nat \<Rightarrow> column_data \<Rightarrow> column_data result option" where
  "column_AppendData block_size vdata append_count col =
     bind_loop (AppendDataWriteTemp block_size vdata append_count col) (\<lambda>(segments, n, stats, temp).
     bind_loop (validity_AppendData block_size vdata append_count stats col) (\<lambda>(masks, m, stats, _).
       Some (Inr (col\<lparr>cd_segments := segments, cd_count := n, cd_temp := temp, cd_validity := masks,
                      cd_validity_count := m, cd_stats := stats\<rparr>))))"

text \<open>Appending to a column whose statistic was built invalidates the statistic for good.\<close>

definition column_Append :: "nat \<Rightarrow> unified_format \<Rightarrow> nat \<Rightarrow> column_data \<Rightarrow> column_data result option" where
  "column_Append block_size vdata append_count col =
     column_AppendData block_size vdata append_count
       (if cd_ptr col \<noteq> 0 then col\<lparr>cd_invalidated := True, cd_stats := clear_ptr (cd_stats col)\<rparr> else col)"

subsection \<open>Building the statistic\<close>

text \<open>
  \<open>InitStats\<close> puts the new object at a free address, which the memory chooses. An invalidated
  column keeps its pointer, and the collected values are dropped in any case.
\<close>

definition column_InitStats ::
  "hashes \<Rightarrow> stats_config \<Rightarrow> string \<Rightarrow> nat \<Rightarrow> nat \<Rightarrow> 64 word \<Rightarrow> stats_heap \<Rightarrow> column_data \<Rightarrow>
   (stats_heap \<times> column_data) result" where
  "column_InitStats hs conf table_name index column address hp col =
     (let t = InternalType (cd_type col); cleared = col\<lparr>cd_temp := clear_temp t (cd_temp col)\<rparr>
      in if cd_invalidated col \<or> \<not> supports_stats t then Inr (hp, cleared)
         else bind_result (InitStats_ptr hs conf False (cd_temp col) t table_name index column None) (\<lambda>ptr.
           case ptr of
             None \<Rightarrow> Inr (hp, cleared\<lparr>cd_stats := set_ptr 0 (cd_stats col)\<rparr>)
           | Some s \<Rightarrow> Inr (hp(address \<mapsto> s), cleared\<lparr>cd_stats := set_ptr address (cd_stats col)\<rparr>)))"

subsection \<open>Updating\<close>

text \<open>The statistics functions of an update segment also select the rows that are updated.\<close>

definition UpdateValidityStatistics :: "unified_format \<Rightarrow> nat \<Rightarrow> BaseStatistics \<Rightarrow> BaseStatistics" where
  "UpdateValidityStatistics update n s =
     (if \<not> u_all_valid update \<and> \<not> has_null (base s) \<and> (\<exists>i \<in> set [0..<n]. \<not> u_valid update (u_sel update i))
      then Stats ((base s)\<lparr>has_null := True\<rparr>) (child_stats s) else s)"

definition updated_rows :: "unified_format \<Rightarrow> nat \<Rightarrow> nat list" where
  "updated_rows update n = filter (\<lambda>i. row_valid update (u_sel update i)) [0..<n]"

definition UpdateStringStatistics :: "unified_format \<Rightarrow> nat \<Rightarrow> BaseStatistics \<Rightarrow> BaseStatistics result" where
  "UpdateStringStatistics update n s =
     fold_result (\<lambda>i. string_update (v_string (u_data update ! u_sel update i))) (updated_rows update n) s"

definition statistics_update_function ::
  "PhysicalType \<Rightarrow> unified_format \<Rightarrow> nat \<Rightarrow> BaseStatistics \<Rightarrow> (nat list \<times> BaseStatistics) result" where
  "statistics_update_function t update n s =
     (if t = PT_BIT then Inr ([0..<n], UpdateValidityStatistics update n s)
      else if t \<in> {PT_BOOL, PT_INT8, PT_INT16, PT_INT32, PT_INT64, PT_UINT8, PT_UINT16, PT_UINT32, PT_UINT64,
        PT_INT128, PT_UINT128, PT_FLOAT, PT_DOUBLE, PT_INTERVAL}
      then Inr (updated_rows update n, s)
      else if t = PT_VARCHAR then bind_result (UpdateStringStatistics update n s) (\<lambda>s. Inr (updated_rows update n, s))
      else Inl NotImplementedException)"

text \<open>The values of an update, NULL where the mask is not set.\<close>

definition update_values :: "LogicalType \<Rightarrow> unified_format \<Rightarrow> nat \<Rightarrow> Value list" where
  "update_values t update n = map (source_row t update) [0..<n]"

definition UpdateInternal_stats ::
  "LogicalType \<Rightarrow> unified_format \<Rightarrow> nat \<Rightarrow> BaseStatistics option \<Rightarrow> BaseStatistics result" where
  "UpdateInternal_stats t update n updates =
     (let stats = (case updates of None \<Rightarrow> CreateEmpty t | Some s \<Rightarrow> s)
      in bind_result (statistics_update_function (InternalType t) update n stats) (\<lambda>(rows, s). Inr s))"

definition column_Update :: "unified_format \<Rightarrow> nat \<Rightarrow> column_data \<Rightarrow> column_data result" where
  "column_Update update n col =
     bind_result (UpdateInternal_stats (cd_type col) update n (cd_updates col)) (\<lambda>updates.
     bind_result (UpdateInternal_stats validity_type update n (cd_validity_updates col)) (\<lambda>masks.
       Inr (col\<lparr>cd_updates := Some updates, cd_validity_updates := Some masks, cd_invalidated := True,
                cd_stats := clear_ptr (cd_stats col),
                cd_update_log := cd_update_log col @ update_values (cd_type col) update n\<rparr>)))"

definition GetUpdateStatistics :: "column_data \<Rightarrow> BaseStatistics option result" where
  "GetUpdateStatistics col =
     (case (cd_updates col, cd_validity_updates col) of
        (None, None) \<Rightarrow> Inr None
      | (stats, masks) \<Rightarrow>
          let stats = (case stats of None \<Rightarrow> CreateEmpty (cd_type col) | Some s \<Rightarrow> stats_copy s)
          in (case masks of
                None \<Rightarrow> Inr (Some stats)
              | Some m \<Rightarrow> bind_result (stats_Merge stats (stats_copy m)) (\<lambda>s. Inr (Some s))))"

text \<open>\<open>RowGroup::Update\<close> for a column: the statistics of the updates go into those of the column.\<close>

definition column_MergeStatistics :: "BaseStatistics \<Rightarrow> column_data \<Rightarrow> column_data result" where
  "column_MergeStatistics other col =
     bind_result (stats_Merge (cd_stats col) other) (\<lambda>s. Inr (col\<lparr>cd_stats := s\<rparr>))"

definition row_group_Update :: "unified_format \<Rightarrow> nat \<Rightarrow> column_data \<Rightarrow> column_data result" where
  "row_group_Update update n col =
     bind_result (column_Update update n col) (\<lambda>col.
     bind_result (GetUpdateStatistics col) (\<lambda>stats.
       case stats of None \<Rightarrow> Inl OutOfBounds | Some s \<Rightarrow> column_MergeStatistics s col))"

subsection \<open>Reverting an append\<close>

definition column_RevertAppend :: "nat \<Rightarrow> column_data \<Rightarrow> column_data result option" where
  "column_RevertAppend start_row col =
     bind_loop (tree_RevertAppend data_node data_RevertAppend start_row (cd_segments col)) (\<lambda>(segments, data_reverted).
     bind_loop (tree_RevertAppend validity_node ValidityRevertAppend start_row (cd_validity col)) (\<lambda>(masks, masks_reverted).
       Some (Inr (col\<lparr>cd_segments := segments, cd_validity := masks,
                    cd_count := (if data_reverted then start_row - cd_start col else cd_count col),
                    cd_validity_count := (if masks_reverted then start_row - cd_start col else cd_validity_count col)\<rparr>))))"

subsection \<open>Checking a filter against the column\<close>

definition column_CheckZonemap :: "hashes \<Rightarrow> stats_heap \<Rightarrow> TableFilter \<Rightarrow> column_data \<Rightarrow> FilterPropagateResult result" where
  "column_CheckZonemap hs hp f col =
     bind_result (CheckStatistics hs hp f (cd_stats col)) (\<lambda>prune_result.
       if prune_result = NO_PRUNING_POSSIBLE then Inr prune_result
       else case cd_updates col of
         None \<Rightarrow> Inr prune_result
       | Some update_stats \<Rightarrow>
           bind_result (CheckStatistics hs hp f (stats_copy update_stats)) (\<lambda>update_result.
             Inr (if prune_result = update_result then prune_result else NO_PRUNING_POSSIBLE)))"

text \<open>The check of a segment, of a column whose segment was not checked yet.\<close>

definition segment_CheckZonemap ::
  "hashes \<Rightarrow> stats_heap \<Rightarrow> TableFilter \<Rightarrow> data_segment option \<Rightarrow> bool \<Rightarrow> column_data \<Rightarrow>
   (FilterPropagateResult \<times> bool) result" where
  "segment_CheckZonemap hs hp f current segment_checked col =
     (if segment_checked then Inr (NO_PRUNING_POSSIBLE, segment_checked)
      else case current of
        None \<Rightarrow> Inr (NO_PRUNING_POSSIBLE, segment_checked)
      | Some seg \<Rightarrow>
          let segment_checked = (case f of DynamicFilter _ \<Rightarrow> False | _ \<Rightarrow> True)
          in bind_result (CheckStatistics hs hp f (seg_stats seg)) (\<lambda>prune_result.
            if prune_result = NO_PRUNING_POSSIBLE then Inr (NO_PRUNING_POSSIBLE, segment_checked)
            else case cd_updates col of
              None \<Rightarrow> Inr (prune_result, segment_checked)
            | Some update_stats \<Rightarrow>
                bind_result (CheckStatistics hs hp f (stats_copy update_stats)) (\<lambda>update_result.
                  Inr (if prune_result = update_result then prune_result else NO_PRUNING_POSSIBLE, segment_checked))))"

text \<open>
  A column read back from disk: its segments are persistent, their statistics are merged, and
  nothing is collected for them.
\<close>

definition column_InitializeColumn ::
  "(Value list \<times> BaseStatistics) list \<Rightarrow> (bool list \<times> BaseStatistics) list \<Rightarrow> column_data \<Rightarrow> column_data result" where
  "column_InitializeColumn data_pointers mask_pointers col =
     bind_result (fold_result (\<lambda>(rows, stats) c.
         bind_result (stats_Merge (cd_stats c) stats) (\<lambda>s.
           Inr (c\<lparr>cd_stats := s, cd_count := cd_count c + length rows,
                  cd_segments := cd_segments c @ [\<lparr>seg_start = cd_start c + cd_count c, seg_persistent = True, seg_rows = rows,
                    seg_size = 0, seg_dictionary = 0, seg_stats = stats\<rparr>]\<rparr>)))
       data_pointers (col\<lparr>cd_count := 0\<rparr>)) (\<lambda>col.
     fold_result (\<lambda>(mask, stats) c.
         bind_result (stats_Merge (cd_stats c) stats) (\<lambda>s.
           Inr (c\<lparr>cd_stats := s, cd_validity_count := cd_validity_count c + length mask,
                  cd_validity := cd_validity c @ [\<lparr>val_start = cd_start c + cd_validity_count c, val_persistent = True,
                    val_count = length mask, val_size = 0, val_mask = (\<lambda>j. j < length mask \<longrightarrow> mask ! j), val_stats = stats\<rparr>]\<rparr>)))
       mask_pointers (col\<lparr>cd_validity_count := 0\<rparr>))"

subsection \<open>The invariant of a column\<close>

text \<open>
  A column can be given an additional statistic when its type has one and the configured kind
  builds one. \<open>collected\<close> says that the collected values include all visible ones.
\<close>

definition builds_stats :: "stats_config \<Rightarrow> string \<Rightarrow> nat \<Rightarrow> nat \<Rightarrow> LogicalType \<Rightarrow> bool" where
  "builds_stats conf table_name index column t \<longleftrightarrow>
     supports_stats (InternalType t) \<and> (\<nexists>n. configured_type conf table_name index column = ST_OTHER n)"

definition collected :: "column_data \<Rightarrow> bool" where
  "collected col \<longleftrightarrow>
     (\<exists>vals. tmp_holds (InternalType (cd_type col)) (cd_temp col) vals \<and>
        (\<forall>v \<in> set (visible_rows col). \<not> v_is_null v \<longrightarrow> v \<in> set vals))"

definition plain_stats :: "LogicalType \<Rightarrow> BaseStatistics option \<Rightarrow> bool" where
  "plain_stats t s \<longleftrightarrow> (case s of None \<Rightarrow> True | Some s \<Rightarrow> stats_of t s \<and> additional_ptr (base s) = 0)"

definition segments_ok :: "column_data \<Rightarrow> bool" where
  "segments_ok col \<longleftrightarrow>
     list_all (segment_ok (cd_type col)) (cd_segments col) \<and> list_all validity_ok (cd_validity col) \<and>
     contiguous (map data_node (cd_segments col)) \<and> contiguous (map validity_node (cd_validity col)) \<and>
     (cd_segments col \<noteq> [] \<longrightarrow> seg_start (hd (cd_segments col)) = cd_start col) \<and>
     (cd_validity col \<noteq> [] \<longrightarrow> val_start (hd (cd_validity col)) = cd_start col) \<and>
     length (concat (map seg_rows (cd_segments col))) = length (concat (map validity_rows (cd_validity col)))"

definition stats_describe :: "hashes \<Rightarrow> stats_heap \<Rightarrow> column_data \<Rightarrow> bool" where
  "stats_describe hs hp col \<longleftrightarrow>
     (\<forall>v \<in> set (visible_rows col). v_is_null v \<longrightarrow> has_null (base (cd_stats col))) \<and>
     (\<forall>v \<in> set (visible_rows col). string_covered (cd_stats col) v) \<and>
     ptr_summarises hs hp (cd_type col) (cd_ptr col) (visible_rows col)"

definition column_ok :: "hashes \<Rightarrow> stats_config \<Rightarrow> string \<Rightarrow> nat \<Rightarrow> nat \<Rightarrow> stats_heap \<Rightarrow> column_data \<Rightarrow> bool" where
  "column_ok hs conf table_name index column hp col \<longleftrightarrow>
     (supports_stats (InternalType (cd_type col)) \<or> InternalType (cd_type col) = PT_INTERVAL) \<and>
     stats_of (cd_type col) (cd_stats col) \<and> has_no_null (base (cd_stats col)) \<and>
     plain_stats (cd_type col) (cd_updates col) \<and> plain_stats validity_type (cd_validity_updates col) \<and>
     segments_ok col \<and> stats_describe hs hp col \<and>
     (builds_stats conf table_name index column (cd_type col) \<longrightarrow>
        \<not> cd_invalidated col \<longrightarrow> cd_ptr col = 0 \<longrightarrow> collected col) \<and>
     (\<not> builds_stats conf table_name index column (cd_type col) \<longrightarrow> cd_ptr col = 0)"

lemma flat_type:
  "supports_stats (InternalType t) \<or> InternalType t = PT_INTERVAL \<Longrightarrow> GetStatsType t \<noteq> STRUCT_STATS"
  by (auto simp: GetStatsType_def supports_stats_def)

lemma column_summarised:
  assumes "column_ok hs conf table_name index column hp col"
  shows "summarises hs hp (cd_stats col) (visible_rows col)"
proof (cases "cd_stats col")
  case (Stats a as)
  then have "GetStatsType (b_type a) \<noteq> STRUCT_STATS" "b_type a = cd_type col"
    using assms flat_type by (auto simp: column_ok_def stats_of_def)
  then show ?thesis
    using assms Stats by (auto simp: summarises.simps flags_cover_def column_ok_def stats_describe_def)
qed

subsection \<open>A new column\<close>

lemma new_column_ok:
  assumes "supports_stats (InternalType t) \<or> InternalType t = PT_INTERVAL" "tmp_holds (InternalType t) tmp vals"
  shows "column_ok hs conf table_name index column hp ((new_column t start)\<lparr>cd_temp := tmp\<rparr>)"
proof -
  have "has_no_null (base (CreateEmpty t))"
    using assms(1) by (auto simp: CreateEmpty.simps [of t] init_defs supports_stats_def split: StatisticsType.splits)
  then show ?thesis
    using assms
    by (auto simp: column_ok_def new_column_def plain_stats_def segments_ok_def stats_describe_def visible_rows_def
        stored_rows_def collected_def stats_of_def CreateEmpty_ptr ptr_summarises_def contiguous_def)
qed

lemma set_ptr_simps [simp]:
  "base (set_ptr p s) = (base s)\<lparr>additional_ptr := p\<rparr>" "child_stats (set_ptr p s) = child_stats s"
  "base (clear_ptr s) = (base s)\<lparr>additional_ptr := 0\<rparr>" "child_stats (clear_ptr s) = child_stats s"
  "stats_of t (set_ptr p s) = stats_of t s" "stats_of t (clear_ptr s) = stats_of t s"
  by (cases s; simp add: set_ptr_def clear_ptr_def stats_of_def)+

lemma string_covered_ptr [simp]:
  "string_covered (set_ptr p s) v = string_covered s v" "string_covered (clear_ptr s) v = string_covered s v"
  by (simp_all add: string_covered_def string_admits_def HasMaxStringLength_def)

subsection \<open>Appending keeps the invariant\<close>

lemma AppendTemp_values_split:
  "AppendTemp_values vdata off (k + j) = AppendTemp_values vdata off k @ AppendTemp_values vdata (off + k) j"
proof -
  have "[0..<k + j] = [0..<k] @ map (\<lambda>i. i + k) [0..<j]"
    using upt_add_eq_append [of 0 k j] by (simp add: map_add_upt add.commute [of j k])
  then show ?thesis by (simp add: AppendTemp_values_def comp_def filter_map ac_simps)
qed

lemma AppendTemp_split:
  "AppendTemp type vdata (off + k) j (AppendTemp type vdata off k tmp) = AppendTemp type vdata off (k + j) tmp"
  by (cases type) (simp_all add: AppendTemp_def Let_def AppendTemp_values_split)

lemma AppendTemp_values_valid:
  "i < n \<Longrightarrow> row_valid vdata (u_sel vdata i) \<Longrightarrow> u_data vdata ! u_sel vdata i \<in> set (AppendTemp_values vdata 0 n)"
  by (auto simp: AppendTemp_values_def row_valid_def)

lemma source_row_cases:
  "source_valid vdata i \<Longrightarrow> source_row t vdata i = u_data vdata ! u_sel vdata i"
  "\<not> source_valid vdata i \<Longrightarrow> source_row t vdata i = Value_null t"
  by (simp_all add: source_row_def source_valid_def Let_def)

text \<open>What the two loops do to the column.\<close>

lemma column_AppendData_result:
  assumes "column_AppendData b vdata n col = Some (Inr col')"
    and "column_ok hs conf table_name index column hp col" "format_ok (cd_type col) vdata n"
    and "cd_segments col \<noteq> []" "cd_validity col \<noteq> []"
  shows "stored_rows col' = stored_rows col @ map (source_row (cd_type col) vdata) [0..<n]"
    and "column_target (cd_type col) (has_null (base (cd_stats col))) (set (stored_rows col' @ cd_update_log col)) (cd_stats col')"
    and "segments_ok col'" "cd_segments col' \<noteq> []" "cd_validity col' \<noteq> []"
    and "cd_ptr col' = cd_ptr col"
    and "cd_temp col' = AppendTemp (InternalType (cd_type col)) vdata 0 n (cd_temp col)"
    and "\<forall>i < n. validity_covered (cd_stats col') (source_valid vdata i)"
    and "cd_count col' = cd_count col + n" "cd_validity_count col' = cd_validity_count col + n"
    and "col' = col\<lparr>cd_segments := cd_segments col', cd_count := cd_count col', cd_temp := cd_temp col',
           cd_validity := cd_validity col', cd_validity_count := cd_validity_count col', cd_stats := cd_stats col'\<rparr>"
proof -
  let ?t = "cd_type col" and ?S = "set (visible_rows col)" and ?null = "has_null (base (cd_stats col))"
  obtain segs count1 m1 temp masks count2 m2 u where
    main: "AppendDataWriteTemp b vdata n col = Some (Inr (segs, count1, m1, temp))"
    and mask: "validity_AppendData b vdata n m1 col = Some (Inr (masks, count2, m2, u))"
    and col': "col' = col\<lparr>cd_segments := segs, cd_count := count1, cd_temp := temp, cd_validity := masks,
        cd_validity_count := count2, cd_stats := m2\<rparr>"
    using assms(1) by (auto simp: column_AppendData_def bind_loop_Inr_iff)
  have ok: "list_all (\<lambda>seg. segment_ok ?t seg \<and> format_ok ?t vdata n) (cd_segments col)"
    "list_all validity_ok (cd_validity col)" "contiguous (map data_node (cd_segments col))"
    "contiguous (map validity_node (cd_validity col))"
    using assms(2,3) by (auto simp: column_ok_def segments_ok_def list_all_iff)
  have t1: "column_target ?t ?null ?S (cd_stats col)"
    using assms(2) by (auto simp: column_ok_def column_target_def stats_describe_def)
  have r1: "data_segs.appended ?t vdata n ?null ?S 0 n (cd_segments col) (cd_count col) (cd_stats col) segs count1 m1 \<and>
      temp = AppendTemp (InternalType ?t) vdata 0 n (cd_temp col)"
    using main assms(4) ok(1) t1 AppendTemp_split
    unfolding AppendDataWriteTemp_def by (intro data_segs.loop_appended) simp_all
  let ?S2 = "?S \<union> set (map (source_row ?t vdata) [0..<n])"
  have t2: "column_target ?t ?null ?S2 m1"
    using r1 by (auto simp: data_segs.appended_def column_target_def)
  have r2: "validity_segs.appended vdata ?t ?null ?S2 0 n (cd_validity col) (cd_validity_count col) m1 masks count2 m2"
    by (rule conjunct1 [OF validity_segs.loop_appended [OF mask [unfolded validity_AppendData_def] assms(5) ok(2) t2, of n]])
      simp_all
  note a1 = r1 [unfolded data_segs.appended_def] and a2 = r2 [unfolded validity_segs.appended_def]
  have len: "length (concat (map seg_rows (cd_segments col))) = length (concat (map validity_rows (cd_validity col)))"
    using assms(2) by (simp add: column_ok_def segments_ok_def)
  have new: "map2 (\<lambda>v is_valid. if is_valid then v else Value_null ?t) (map (source_row ?t vdata) [0..<n])
      (map (source_valid vdata) [0..<n]) = map (source_row ?t vdata) [0..<n]"
    using source_row_cases by (auto simp: map2_map_map intro!: map_cong)
  show stored: "stored_rows col' = stored_rows col @ map (source_row ?t vdata) [0..<n]"
  proof -
    have eqs: "cd_type col' = ?t" "cd_segments col' = segs" "cd_validity col' = masks" by (simp_all add: col')
    have rows: "concat (map seg_rows segs) = concat (map seg_rows (cd_segments col)) @ map (source_row ?t vdata) [0..<n]"
      "concat (map validity_rows masks) = concat (map validity_rows (cd_validity col)) @ map (source_valid vdata) [0..<n]"
      using a1 a2 by simp_all
    show ?thesis
      unfolding stored_rows_def eqs rows zip_append [OF len] map_append new ..
  qed
  show "column_target ?t ?null (set (stored_rows col' @ cd_update_log col)) (cd_stats col')"
    using a2 stored by (auto simp: col' column_target_def visible_rows_def)
  show "segments_ok col'"
    using a1 a2 ok len assms(2,4,5) by (auto simp: segments_ok_def col' list_all_iff column_ok_def data_node_def validity_node_def)
  show "cd_ptr col' = cd_ptr col" "cd_segments col' \<noteq> []" "cd_validity col' \<noteq> []"
    "cd_temp col' = AppendTemp (InternalType ?t) vdata 0 n (cd_temp col)"
    "\<forall>i < n. validity_covered (cd_stats col') (source_valid vdata i)"
    "cd_count col' = cd_count col + n" "cd_validity_count col' = cd_validity_count col + n"
    using a1 a2 r1 by (simp_all add: col')
  show "col' = col\<lparr>cd_segments := cd_segments col', cd_count := cd_count col', cd_temp := cd_temp col',
      cd_validity := cd_validity col', cd_validity_count := cd_validity_count col', cd_stats := cd_stats col'\<rparr>"
    by (simp add: col')
qed

end
