(* ===== verification/ColumnInvariant.thy ===== *)
theory ColumnInvariant
  imports ColumnLifecycle
begin

text \<open>
  The invariant of a column under its operations: preparing an append and appending, building the
  statistic, updating, and reverting an append.
\<close>

subsection \<open>Preparing an append\<close>

lemma segments_InitializeAppend_keeps:
  assumes "\<And>p. row_start (node_of (fresh p)) = p" "\<And>p. P (fresh p)" "\<And>p. rows (fresh p) = []"
    and "contiguous (map node_of segs)" "list_all P segs" "segs \<noteq> [] \<longrightarrow> row_start (node_of (hd segs)) = start"
    and "segs' = segments_InitializeAppend persistent (\<lambda>s. node_end (node_of s)) fresh start segs"
  shows "segs' \<noteq> [] \<and> contiguous (map node_of segs') \<and> list_all P segs' \<and> row_start (node_of (hd segs')) = start \<and>
    concat (map rows segs') = concat (map rows segs)"
proof -
  let ?segs = "if segs = [] then [fresh start] else segs"
  have "?segs \<noteq> [] \<and> contiguous (map node_of ?segs) \<and> list_all P ?segs \<and> row_start (node_of (hd ?segs)) = start \<and>
      concat (map rows ?segs) = concat (map rows segs)"
    using assms(1-6) by (cases "segs = []") (simp_all add: contiguous_def)
  then show ?thesis
    using assms(1-3) unfolding assms(7) segments_InitializeAppend_def Let_def
    by (simp add: contiguous_snoc last_map)
qed

lemma new_segment_fields [simp]:
  "seg_start (new_data_segment b t p) = p" "val_start (new_validity_segment b p) = p"
  "row_start (data_node (new_data_segment b t p)) = p" "seg_rows (new_data_segment b t p) = []"
  "row_start (validity_node (new_validity_segment b p)) = p" "validity_rows (new_validity_segment b p) = []"
  by (simp_all add: data_node_def new_data_segment_def validity_node_def new_validity_segment_def validity_rows_def)

lemma stored_rows_cong:
  assumes "cd_type col' = cd_type col" "concat (map seg_rows (cd_segments col')) = concat (map seg_rows (cd_segments col))"
    and "concat (map validity_rows (cd_validity col')) = concat (map validity_rows (cd_validity col))"
  shows "stored_rows col' = stored_rows col"
  unfolding stored_rows_def assms ..

lemma column_InitializeAppend_keeps:
  assumes "segments_ok col"
  shows "segments_ok (column_InitializeAppend b col)" "cd_segments (column_InitializeAppend b col) \<noteq> []"
    "cd_validity (column_InitializeAppend b col) \<noteq> []"
    "stored_rows (column_InitializeAppend b col) = stored_rows col"
proof -
  let ?col = "column_InitializeAppend b col"
  have col: "cd_type ?col = cd_type col" "cd_start ?col = cd_start col" by (simp_all add: column_InitializeAppend_def)
  have segs: "cd_segments ?col \<noteq> [] \<and> contiguous (map data_node (cd_segments ?col)) \<and>
    list_all (segment_ok (cd_type col)) (cd_segments ?col) \<and>
    row_start (data_node (hd (cd_segments ?col))) = cd_start col \<and>
    concat (map seg_rows (cd_segments ?col)) = concat (map seg_rows (cd_segments col))"
    by (rule segments_InitializeAppend_keeps [where fresh = "new_data_segment b (cd_type col)" and persistent = seg_persistent])
      (use assms in \<open>simp_all add: column_InitializeAppend_def new_segment_ok segments_ok_def data_node_def\<close>)
  have masks: "cd_validity ?col \<noteq> [] \<and> contiguous (map validity_node (cd_validity ?col)) \<and>
    list_all validity_ok (cd_validity ?col) \<and>
    row_start (validity_node (hd (cd_validity ?col))) = cd_start col \<and>
    concat (map validity_rows (cd_validity ?col)) = concat (map validity_rows (cd_validity col))"
    by (rule segments_InitializeAppend_keeps [where fresh = "new_validity_segment b" and persistent = val_persistent])
      (use assms in \<open>simp_all add: column_InitializeAppend_def new_validity_ok segments_ok_def validity_node_def\<close>)
  show "cd_segments ?col \<noteq> []" "cd_validity ?col \<noteq> []" using segs masks by simp_all
  show "stored_rows ?col = stored_rows col" using segs masks col by (intro stored_rows_cong) simp_all
  show "segments_ok ?col"
    using segs masks col assms by (simp add: segments_ok_def data_node_def validity_node_def)
qed

text \<open>The invariant reads the statistics, the rows and the flags only.\<close>

lemma column_ok_describes:
  assumes "column_ok hs conf n i c hp col" "cd_ptr col' = 0" "\<not> builds_stats conf n i c (cd_type col) \<or> cd_invalidated col' \<or> collected col'"
    and "cd_type col' = cd_type col" "column_target (cd_type col) (has_null (base (cd_stats col))) (set (visible_rows col')) (cd_stats col')"
    and "\<forall>v \<in> set (visible_rows col'). v_is_null v \<longrightarrow> has_null (base (cd_stats col'))"
    and "plain_stats (cd_type col) (cd_updates col')" "plain_stats validity_type (cd_validity_updates col')" "segments_ok col'"
  shows "column_ok hs conf n i c hp col'"
  using assms by (auto simp: column_ok_def stats_describe_def column_target_def ptr_summarises_def)

definition invalidated :: "column_data \<Rightarrow> column_data" where
  "invalidated col = (if cd_ptr col \<noteq> 0 then col\<lparr>cd_invalidated := True, cd_stats := clear_ptr (cd_stats col)\<rparr> else col)"

lemma invalidated_fields [simp]:
  "cd_segments (invalidated col) = cd_segments col" "cd_validity (invalidated col) = cd_validity col"
  "cd_type (invalidated col) = cd_type col" "cd_start (invalidated col) = cd_start col"
  "cd_count (invalidated col) = cd_count col" "cd_validity_count (invalidated col) = cd_validity_count col"
  "cd_temp (invalidated col) = cd_temp col" "cd_update_log (invalidated col) = cd_update_log col"
  "cd_updates (invalidated col) = cd_updates col" "cd_validity_updates (invalidated col) = cd_validity_updates col"
  "cd_ptr (invalidated col) = 0" "has_null (base (cd_stats (invalidated col))) = has_null (base (cd_stats col))"
  "has_no_null (base (cd_stats (invalidated col))) = has_no_null (base (cd_stats col))"
  "stats_of t (cd_stats (invalidated col)) = stats_of t (cd_stats col)"
  "string_covered (cd_stats (invalidated col)) v = string_covered (cd_stats col) v"
  by (simp_all add: invalidated_def)

lemma invalidated_rows [simp]:
  "stored_rows (invalidated col) = stored_rows col" "visible_rows (invalidated col) = visible_rows col"
  "segments_ok (invalidated col) = segments_ok col"
proof -
  show rows: "stored_rows (invalidated col) = stored_rows col" by (rule stored_rows_cong) simp_all
  show "visible_rows (invalidated col) = visible_rows col" "segments_ok (invalidated col) = segments_ok col"
    using rows by (simp_all add: visible_rows_def segments_ok_def)
qed

lemma column_okD:
  assumes "column_ok hs conf n i c hp col"
  shows "stats_of (cd_type col) (cd_stats col)" "has_no_null (base (cd_stats col))"
    "plain_stats (cd_type col) (cd_updates col)" "plain_stats validity_type (cd_validity_updates col)" "segments_ok col"
    "v \<in> set (visible_rows col) \<Longrightarrow> v_is_null v \<Longrightarrow> has_null (base (cd_stats col))"
    "v \<in> set (visible_rows col) \<Longrightarrow> string_covered (cd_stats col) v"
    "ptr_summarises hs hp (cd_type col) (cd_ptr col) (visible_rows col)"
    "column_target (cd_type col) (has_null (base (cd_stats col))) (set (visible_rows col)) (cd_stats col)"
    "\<not> builds_stats conf n i c (cd_type col) \<or> cd_invalidated col \<or> cd_ptr col \<noteq> 0 \<or> collected col"
  using assms by (auto simp: column_ok_def stats_describe_def column_target_def)

lemma invalidated_ok:
  assumes "column_ok hs conf n i c hp col"
  shows "column_ok hs conf n i c hp (invalidated col)"
proof (rule column_ok_describes [OF assms])
  show "\<not> builds_stats conf n i c (cd_type col) \<or> cd_invalidated (invalidated col) \<or> collected (invalidated col)"
    using column_okD(10) [OF assms] by (auto simp: invalidated_def)
  show "column_target (cd_type col) (has_null (base (cd_stats col))) (set (visible_rows (invalidated col))) (cd_stats (invalidated col))"
    using column_okD(9) [OF assms] by (simp add: column_target_def)
qed (use column_okD [OF assms] in simp_all)

lemma InitializeAppend_ok:
  assumes "column_ok hs conf n i c hp col"
  shows "column_ok hs conf n i c hp (column_InitializeAppend b col)"
proof -
  let ?col = "column_InitializeAppend b col"
  note keeps = column_InitializeAppend_keeps [OF column_okD(5) [OF assms], of b]
  have fields: "cd_type ?col = cd_type col" "cd_stats ?col = cd_stats col" "cd_temp ?col = cd_temp col"
    "cd_updates ?col = cd_updates col" "cd_validity_updates ?col = cd_validity_updates col"
    "cd_invalidated ?col = cd_invalidated col" "cd_update_log ?col = cd_update_log col"
    by (simp_all add: column_InitializeAppend_def)
  then have "visible_rows ?col = visible_rows col" using keeps by (simp add: visible_rows_def)
  then show ?thesis
    using assms keeps fields by (simp add: column_ok_def stats_describe_def collected_def)
qed

lemma column_Append_alt:
  "column_Append b vdata n col = column_AppendData b vdata n (invalidated col)"
  by (simp add: column_Append_def invalidated_def)

lemma column_Append_ready:
  assumes "column_Append b vdata m col = Some (Inr col')"
    and "column_ok hs conf n i c hp col" "format_ok (cd_type col) vdata m" "cd_segments col \<noteq> []" "cd_validity col \<noteq> []"
  shows "column_ok hs conf n i c hp col'"
    and "stored_rows col' = stored_rows col @ map (source_row (cd_type col) vdata) [0..<m]"
    and "cd_update_log col' = cd_update_log col" "cd_ptr col' = 0" "cd_type col' = cd_type col" "cd_start col' = cd_start col"
    and "cd_count col' = cd_count col + m" "cd_validity_count col' = cd_validity_count col + m"
    and "cd_segments col' \<noteq> []" "cd_validity col' \<noteq> []"
proof -
  let ?col = "invalidated col"
  have ok: "column_ok hs conf n i c hp ?col" using invalidated_ok assms(2) by blast
  have type: "cd_type ?col = cd_type col" by simp
  note res = column_AppendData_result [OF assms(1) [unfolded column_Append_alt] ok]
  have ready: "cd_segments ?col \<noteq> []" "cd_validity ?col \<noteq> []" using assms(4,5) by simp_all
  note r = res [OF _ ready, unfolded type, OF assms(3)]
  have rows: "stored_rows ?col = stored_rows col" "cd_update_log ?col = cd_update_log col"
    by simp_all
  show "cd_segments col' \<noteq> []" "cd_validity col' \<noteq> []" using r(4,5) by simp_all
  show "stored_rows col' = stored_rows col @ map (source_row (cd_type col) vdata) [0..<m]"
    using r(1) rows by simp
  show "cd_update_log col' = cd_update_log col" "cd_type col' = cd_type col" "cd_start col' = cd_start col"
    "cd_count col' = cd_count col + m" "cd_validity_count col' = cd_validity_count col + m" "cd_ptr col' = 0"
    using r(6,9,10) by (subst r(11), simp)+
  have type': "cd_type col' = cd_type ?col" using type \<open>cd_type col' = cd_type col\<close> by simp
  have log: "set (visible_rows col') = set (visible_rows ?col) \<union> source_row (cd_type col) vdata ` {0..<m}"
    using r(1) rows \<open>cd_update_log col' = cd_update_log col\<close> by (auto simp: visible_rows_def)
  have valid: "source_valid vdata k" if "\<not> v_is_null (source_row (cd_type col) vdata k)" for k
    using that source_row_cases(2) [of vdata k "cd_type col"] by (cases "source_valid vdata k") (auto simp: Value_null_def)
  have null: "\<not> source_valid vdata k" if "k < m" "v_is_null (source_row (cd_type col) vdata k)" for k
    using that assms(3) by (auto simp: format_ok_def source_row_def source_valid_def Let_def split: if_splits)
  have fields: "cd_invalidated col' = cd_invalidated ?col" "cd_updates col' = cd_updates ?col"
    "cd_validity_updates col' = cd_validity_updates ?col"
    by (subst r(11), simp)+
  show "column_ok hs conf n i c hp col'"
  proof (rule column_ok_describes [OF ok \<open>cd_ptr col' = 0\<close> _ type' _ _ _ _ r(3)])
    show "column_target (cd_type ?col) (has_null (base (cd_stats ?col))) (set (visible_rows col')) (cd_stats col')"
      using r(2) type rows \<open>cd_update_log col' = cd_update_log col\<close> by (simp add: visible_rows_def)
    then have keeps_null: "has_null (base (cd_stats ?col)) \<Longrightarrow> has_null (base (cd_stats col'))"
      by (simp add: column_target_def)
    show "\<forall>v \<in> set (visible_rows col'). v_is_null v \<longrightarrow> has_null (base (cd_stats col'))"
    proof (intro ballI impI)
      fix v assume v: "v \<in> set (visible_rows col')" "v_is_null v"
      then consider "v \<in> set (visible_rows ?col)" | k where "k < m" "v = source_row (cd_type col) vdata k"
        unfolding log by auto
      then show "has_null (base (cd_stats col'))"
        using v(2) column_okD(6) [OF ok] keeps_null null r(8) by cases (auto simp: validity_covered_def)
    qed
    have "collected col'" if collected: "collected ?col"
    proof -
      obtain vals where vals: "tmp_holds (InternalType (cd_type col)) (cd_temp ?col) vals"
        "\<forall>v \<in> set (visible_rows ?col). \<not> v_is_null v \<longrightarrow> v \<in> set vals"
        using collected type unfolding collected_def by auto
      have "v \<in> set (vals @ AppendTemp_values vdata 0 m)" if v: "v \<in> set (visible_rows col')" "\<not> v_is_null v" for v
      proof (cases "v \<in> set (visible_rows ?col)")
        case True
        then show ?thesis using vals(2) that by simp
      next
        case False
        then obtain k where k: "k < m" "v = source_row (cd_type col) vdata k" using v(1) log by auto
        then show ?thesis
          using valid [of k] v(2) AppendTemp_values_valid [of k m vdata] source_row_cases(1) [of vdata k]
          by (simp add: source_valid_def)
      qed
      moreover have "tmp_holds (InternalType (cd_type col)) (cd_temp col') (vals @ AppendTemp_values vdata 0 m)"
        using AppendTemp_holds [OF vals(1)] r(7) by simp
      ultimately show ?thesis using type' type unfolding collected_def by auto
    qed
    then show "\<not> builds_stats conf n i c (cd_type ?col) \<or> cd_invalidated col' \<or> collected col'"
      using column_okD(10) [OF ok] fields by auto
  qed (use column_okD(3,4) [OF ok] fields in simp_all)
qed

text \<open>A column prepared for an append and appended to.\<close>

lemma column_Append_result:
  assumes "column_Append b vdata m (column_InitializeAppend b col) = Some (Inr col')"
    and "column_ok hs conf n i c hp col" "format_ok (cd_type col) vdata m"
  shows "column_ok hs conf n i c hp col'"
    and "stored_rows col' = stored_rows col @ map (source_row (cd_type col) vdata) [0..<m]"
    and "cd_update_log col' = cd_update_log col" "cd_ptr col' = 0" "cd_type col' = cd_type col" "cd_start col' = cd_start col"
    and "cd_count col' = cd_count col + m" "cd_validity_count col' = cd_validity_count col + m"
proof -
  note keeps = column_InitializeAppend_keeps [OF column_okD(5) [OF assms(2)], of b]
  have fields: "cd_type (column_InitializeAppend b col) = cd_type col" "cd_start (column_InitializeAppend b col) = cd_start col"
    "cd_update_log (column_InitializeAppend b col) = cd_update_log col" "cd_count (column_InitializeAppend b col) = cd_count col"
    "cd_validity_count (column_InitializeAppend b col) = cd_validity_count col"
    by (simp_all add: column_InitializeAppend_def)
  note ready = column_Append_ready [OF assms(1) InitializeAppend_ok [OF assms(2)], unfolded fields, OF assms(3) keeps(2,3)]
  show "column_ok hs conf n i c hp col'"
    "stored_rows col' = stored_rows col @ map (source_row (cd_type col) vdata) [0..<m]"
    "cd_update_log col' = cd_update_log col" "cd_ptr col' = 0" "cd_type col' = cd_type col" "cd_start col' = cd_start col"
    "cd_count col' = cd_count col + m" "cd_validity_count col' = cd_validity_count col + m"
    using ready keeps(4) by simp_all
qed

subsection \<open>Building the statistic keeps the invariant\<close>

lemma new_body_None: "new_body env data type = Inr None \<Longrightarrow> \<exists>n. type = ST_OTHER n"
  by (cases type) (auto simp: new_body_def new_cluster_def new_bloom_def bind_result_Inr_iff)

lemma InitAdditionalStats_None:
  "InitAdditionalStats env conf False data n i c wrap ptr = Inr None \<Longrightarrow> \<exists>k. configured_type conf n i c = ST_OTHER k"
  by (auto simp: InitAdditionalStats_run StatisticsSet_construct_type_def bind_result_Inr_iff dest!: new_body_None)

lemma InitStats_ptr_None:
  "InitStats_ptr hs conf False tmp t n i c None = Inr None \<Longrightarrow> supports_stats t \<Longrightarrow>
   \<exists>k. configured_type conf n i c = ST_OTHER k"
  by (auto simp: InitStats_ptr_def supports_stats_def dest!: InitAdditionalStats_None)

lemma InitStats_ptr_OTHER:
  "configured_type conf n i c = ST_OTHER k \<Longrightarrow> supports_stats t \<Longrightarrow> InitStats_ptr hs conf False tmp t n i c None = Inr None"
  by (auto simp: InitStats_ptr_def supports_stats_def InitAdditionalStats_run StatisticsSet_construct_type_def new_body_def)

text \<open>
  What the statistics rely on: fewer than \<open>2 ^ 31\<close> values, and equal floats hash equally.
\<close>

definition temp_fits :: "hashes \<Rightarrow> column_data \<Rightarrow> bool" where
  "temp_fits hs col \<longleftrightarrow> (supports_stats (InternalType (cd_type col)) \<longrightarrow>
     (\<forall>vals. tmp_holds (InternalType (cd_type col)) (cd_temp col) vals \<longrightarrow>
        length vals < 2 ^ 31 \<and> hashes_respect hs (InternalType (cd_type col)) vals))"

lemma column_ok_replace:
  assumes "column_ok hs conf n i c hp col" "cd_type col' = cd_type col" "cd_segments col' = cd_segments col"
    and "cd_validity col' = cd_validity col" "cd_update_log col' = cd_update_log col" "cd_start col' = cd_start col"
    and "cd_updates col' = cd_updates col" "cd_validity_updates col' = cd_validity_updates col"
    and "cd_stats col' = set_ptr p (cd_stats col)"
    and "ptr_summarises hs hp' (cd_type col) p (visible_rows col)"
    and "\<not> builds_stats conf n i c (cd_type col) \<or> cd_invalidated col' \<or> p \<noteq> 0 \<or> collected col'"
    and "\<not> builds_stats conf n i c (cd_type col) \<Longrightarrow> p = 0"
  shows "column_ok hs conf n i c hp' col'"
proof -
  have "stored_rows col' = stored_rows col" using assms by (intro stored_rows_cong) simp_all
  then have "visible_rows col' = visible_rows col" "segments_ok col' = segments_ok col"
    using assms by (simp_all add: visible_rows_def segments_ok_def)
  then show ?thesis
    using assms by (auto simp: column_ok_def stats_describe_def)
qed

lemma set_ptr_same: "set_ptr (additional_ptr (base s)) s = s"
  by (cases s) (simp add: set_ptr_def)

lemma column_InitStats_ok:
  assumes "column_InitStats hs conf n i c address hp col = Inr (hp', col')" "column_ok hs conf n i c hp col"
    and "cd_ptr col = 0 \<or> cd_invalidated col" "address \<noteq> 0" "hp address = None" "temp_fits hs col"
  shows "column_ok hs conf n i c hp' col'" "stored_rows col' = stored_rows col" "visible_rows col' = visible_rows col"
proof -
  let ?t = "InternalType (cd_type col)"
  let ?cleared = "col\<lparr>cd_temp := clear_temp ?t (cd_temp col)\<rparr>"
  have col': "\<exists>s. col' = ?cleared\<lparr>cd_stats := s\<rparr>"
    using assms(1) by (cases col) (auto simp: column_InitStats_def Let_def bind_result_Inr_iff split: if_splits option.splits)
  then show rows: "stored_rows col' = stored_rows col" by (intro stored_rows_cong) auto
  then show "visible_rows col' = visible_rows col" using col' by (auto simp: visible_rows_def)
  show "column_ok hs conf n i c hp' col'"
  proof (cases "cd_invalidated col \<or> \<not> supports_stats ?t")
    case True
    then have new: "hp' = hp" "col' = ?cleared" using assms(1) by (auto simp: column_InitStats_def Let_def)
    show ?thesis
      unfolding new
      by (rule column_ok_replace [OF assms(2), where p = "cd_ptr col"])
        (use True assms(2) column_okD(8) [OF assms(2)] in \<open>auto simp: set_ptr_same builds_stats_def column_ok_def\<close>)
  next
    case False
    then obtain ptr where ptr: "InitStats_ptr hs conf False (cd_temp col) ?t n i c None = Inr ptr"
      "(hp', col') = (case ptr of None \<Rightarrow> (hp, ?cleared\<lparr>cd_stats := set_ptr 0 (cd_stats col)\<rparr>)
        | Some s \<Rightarrow> (hp(address \<mapsto> s), ?cleared\<lparr>cd_stats := set_ptr address (cd_stats col)\<rparr>))"
      using assms(1) by (auto simp: column_InitStats_def Let_def bind_result_Inr_iff split: option.splits)
    show ?thesis
    proof (cases ptr)
      case None
      then have "\<not> builds_stats conf n i c (cd_type col)"
        using InitStats_ptr_None [of hs conf "cd_temp col" ?t n i c] ptr(1) False by (auto simp: builds_stats_def)
      then show ?thesis
        using ptr(2) None
        by (intro column_ok_replace [OF assms(2), where p = 0]) (simp_all add: ptr_summarises_def)
    next
      case (Some s)
      then have "builds_stats conf n i c (cd_type col)"
        using InitStats_ptr_OTHER [of conf n i c _ ?t hs "cd_temp col"] ptr(1) False by (auto simp: builds_stats_def)
      then have "collected col" using column_okD(10) [OF assms(2)] assms(3) False by auto
      then obtain vals where vals: "tmp_holds ?t (cd_temp col) vals"
        "\<forall>v \<in> set (visible_rows col). \<not> v_is_null v \<longrightarrow> v \<in> set vals"
        unfolding collected_def by auto
      have "ptr_describes hs ?t s vals"
        by (rule InitStats_ptr_describes [OF vals(1) _ _ ptr(1) [unfolded Some]])
          (use assms(6) vals(1) False in \<open>auto simp: temp_fits_def\<close>)
      then have "ptr_summarises hs (hp(address \<mapsto> s)) (cd_type col) address (visible_rows col)"
        using vals(2) unfolding ptr_summarises_def by auto
      then show ?thesis
        using ptr(2) Some \<open>builds_stats conf n i c (cd_type col)\<close> assms(4)
        by (intro column_ok_replace [OF assms(2), where p = address]) simp_all
    qed
  qed
qed

subsection \<open>Updates keep the invariant\<close>

lemma string_updates_cover:
  assumes "fold_result (\<lambda>i. string_update (str i)) xs s = Inr u" "stats_of t s" "\<forall>i \<in> set xs. length (str i) < 2 ^ 32"
  shows "stats_of t u \<and> additional_ptr (base u) = additional_ptr (base s) \<and>
    (\<forall>x. string_admits (base s) x \<longrightarrow> string_admits (base u) x) \<and>
    (GetStatsType t = STRING_STATS \<longrightarrow> (\<forall>i \<in> set xs. string_admits (base u) (str i)))"
  using assms
proof (induction xs arbitrary: s)
  case (Cons x xs)
  then obtain s1 where s1: "string_update (str x) s = Inr s1" "fold_result (\<lambda>i. string_update (str i)) xs s1 = Inr u"
    by (auto simp: bind_result_Inr_iff)
  note keeps = string_update_keeps [OF s1(1) Cons.prems(2)]
  then show ?case using Cons.IH [OF s1(2)] Cons.prems(3) by simp
qed simp

lemma UpdateInternal_stats_plain:
  assumes "UpdateInternal_stats t update m updates = Inr u" "plain_stats t updates" "format_ok t update m"
    and "supports_stats (InternalType t) \<or> InternalType t = PT_INTERVAL"
  shows "plain_stats t (Some u)" "\<forall>v \<in> set (update_values t update m). string_covered u v"
proof -
  let ?s = "case updates of None \<Rightarrow> CreateEmpty t | Some s \<Rightarrow> s"
  have s: "stats_of t ?s" "additional_ptr (base ?s) = 0"
    using assms(2) by (auto simp: plain_stats_def stats_of_def CreateEmpty_ptr split: option.splits)
  have "plain_stats t (Some u) \<and> (\<forall>v \<in> set (update_values t update m). string_covered u v)"
  proof (cases "InternalType t = PT_VARCHAR")
    case True
    then have fold: "fold_result (\<lambda>i. string_update (v_string (u_data update ! u_sel update i))) (updated_rows update m) ?s = Inr u"
      using assms(1) by (auto simp: UpdateInternal_stats_def Let_def statistics_update_function_def UpdateStringStatistics_def
        bind_result_Inr_iff)
    have "\<forall>i \<in> set (updated_rows update m). length (v_string (u_data update ! u_sel update i)) < 2 ^ 32"
      using assms(3) by (auto simp: updated_rows_def format_ok_def Let_def)
    note cover = string_updates_cover [OF fold s(1) this]
    have "string_covered u (source_row t update i)" if "i < m" for i
    proof (cases "source_valid update i")
      case True
      then have "i \<in> set (updated_rows update m)" using that by (simp add: updated_rows_def source_valid_def)
      then show ?thesis using cover True by (auto simp: string_covered_def source_row_cases stats_of_def)
    qed (simp add: string_covered_def source_row_cases Value_null_def)
    then show ?thesis using cover s(2) by (auto simp: plain_stats_def update_values_def)
  next
    case False
    then have "u = ?s" using assms(1,4)
      by (auto simp: UpdateInternal_stats_def Let_def statistics_update_function_def bind_result_Inr_iff supports_stats_def
        split: if_splits)
    then show ?thesis
      using s not_string_type [OF False] by (simp add: plain_stats_def string_covered_def stats_of_def)
  qed
  then show "plain_stats t (Some u)" "\<forall>v \<in> set (update_values t update m). string_covered u v" by simp_all
qed

lemma UpdateInternal_validity:
  assumes "UpdateInternal_stats validity_type update m updates = Inr u" "plain_stats validity_type updates"
  shows "plain_stats validity_type (Some u)" "\<exists>i < m. \<not> source_valid update i \<Longrightarrow> has_null (base u)"
proof -
  let ?s = "case updates of None \<Rightarrow> CreateEmpty validity_type | Some s \<Rightarrow> s"
  have s: "stats_of validity_type ?s" "additional_ptr (base ?s) = 0"
    using assms(2) by (auto simp: plain_stats_def stats_of_def CreateEmpty_ptr split: option.splits)
  have "InternalType validity_type = PT_BIT" by (simp add: validity_type_def type_eval)
  then have u: "u = UpdateValidityStatistics update m ?s"
    using assms(1) by (simp add: UpdateInternal_stats_def Let_def statistics_update_function_def)
  show "plain_stats validity_type (Some u)"
    using s by (cases ?s) (auto simp: u plain_stats_def UpdateValidityStatistics_def stats_of_def)
  show "has_null (base u)" if "\<exists>i < m. \<not> source_valid update i"
    using that by (cases ?s) (auto simp: u UpdateValidityStatistics_def source_valid_def row_valid_def)
qed

lemma row_group_Update_ok:
  assumes "row_group_Update update m col = Inr col'" "column_ok hs conf n i c hp col" "format_ok (cd_type col) update m"
  shows "column_ok hs conf n i c hp col'" "stored_rows col' = stored_rows col"
    "cd_update_log col' = cd_update_log col @ update_values (cd_type col) update m"
proof -
  let ?t = "cd_type col" and ?new = "update_values (cd_type col) update m"
  note ok = column_okD [OF assms(2)]
  have t: "supports_stats (InternalType ?t) \<or> InternalType ?t = PT_INTERVAL" using assms(2) by (simp add: column_ok_def)
  obtain u w where u: "UpdateInternal_stats ?t update m (cd_updates col) = Inr u"
    and w: "UpdateInternal_stats validity_type update m (cd_validity_updates col) = Inr w"
    and "bind_result (stats_Merge (stats_copy u) (stats_copy w)) (\<lambda>s. column_MergeStatistics s (col\<lparr>cd_updates := Some u,
        cd_validity_updates := Some w, cd_invalidated := True, cd_stats := clear_ptr (cd_stats col),
        cd_update_log := cd_update_log col @ ?new\<rparr>)) = Inr col'"
    using assms(1) by (auto simp: row_group_Update_def column_Update_def GetUpdateStatistics_def bind_result_Inr_iff)
  moreover note us = UpdateInternal_stats_plain [OF u ok(3) assms(3) t] and ws = UpdateInternal_validity [OF w ok(4)]
  moreover from us ws have "stats_copy u = u" "stats_copy w = w"
    by (simp_all add: plain_stats_def stats_of_def stats_copy_same)
  ultimately obtain x y where x: "stats_Merge u w = Inr x" and y: "stats_Merge (clear_ptr (cd_stats col)) x = Inr y"
    and col': "col' = col\<lparr>cd_updates := Some u, cd_validity_updates := Some w, cd_invalidated := True, cd_stats := y,
        cd_update_log := cd_update_log col @ ?new\<rparr>"
    by (auto simp: bind_result_Inr_iff column_MergeStatistics_def)
  show rows: "stored_rows col' = stored_rows col" by (rule stored_rows_cong) (simp_all add: col')
  show log: "cd_update_log col' = cd_update_log col @ update_values (cd_type col) update m" by (simp add: col')
  obtain a as b bs where uw: "u = Stats a as" "w = Stats b bs" by (metis BaseStatistics.exhaust)
  then have x_base: "x = Stats (merge_base a b) as"
    using x ws(1) stats_Merge_validity [of b bs a as] by (simp add: plain_stats_def)
  then have x_ok: "stats_of ?t x" "additional_ptr (base x) = 0"
    using us(1) ws(1) uw by (auto simp: plain_stats_def stats_of_def merge_base_def)
  have x_cover: "string_covered x v" if "string_covered u v" for v
    using that by (auto simp: x_base uw string_covered_def string_admits_def HasMaxStringLength_def merge_base_def)
  have x_null: "has_null (base w) \<Longrightarrow> has_null (base x)" by (simp add: x_base uw merge_base_def)
  have target: "column_target ?t (has_null (base (cd_stats col))) (set (visible_rows col)) (clear_ptr (cd_stats col))"
    using ok(9) by (simp add: column_target_def)
  from merge_segment [OF this x_ok] y
  have y_ok: "column_target ?t (has_null (base (cd_stats col))) (set (visible_rows col)) y" "additional_ptr (base y) = 0"
    "\<And>v. string_covered x v \<Longrightarrow> string_covered y v"
    by auto
  have y_null: "has_null (base x) \<or> has_null (base (cd_stats col)) \<Longrightarrow> has_null (base y)"
    using merge_string_covered [of ?t "clear_ptr (cd_stats col)" x] y x_ok(1) target by (auto simp: column_target_def)
  have new_null: "has_null (base y)" if v: "v \<in> set ?new" "v_is_null v" for v
  proof -
    obtain k where "k < m" "v = source_row ?t update k" using v(1) by (auto simp: update_values_def)
    then have "k < m" "\<not> source_valid update k"
      using v(2) assms(3) by (auto simp: format_ok_def source_row_def source_valid_def Let_def split: if_splits)
    then show ?thesis using ws(2) x_null y_null by blast
  qed
  have stats': "cd_stats col' = y" by (simp add: col')
  have visible: "set (visible_rows col') = set (visible_rows col) \<union> set ?new"
    using rows log by (auto simp: visible_rows_def)
  show "column_ok hs conf n i c hp col'"
  proof (rule column_ok_describes [OF assms(2)])
    show "column_target ?t (has_null (base (cd_stats col))) (set (visible_rows col')) (cd_stats col')"
      using y_ok us(2) x_cover stats' unfolding visible column_target_def by auto
    show "\<forall>v \<in> set (visible_rows col'). v_is_null v \<longrightarrow> has_null (base (cd_stats col'))"
      using new_null y_null ok(6) stats' unfolding visible by auto
    show "segments_ok col'" using ok(5) by (simp add: segments_ok_def col')
  qed (use us(1) ws(1) y_ok(2) in \<open>simp_all add: col'\<close>)
qed

subsection \<open>Reverting an append keeps the invariant\<close>

lemma stored_rows_take:
  assumes "concat (map seg_rows segs) = take k (concat (map seg_rows (cd_segments col)))"
    and "concat (map validity_rows masks) = take k (concat (map validity_rows (cd_validity col)))"
    and "cd_segments col' = segs" "cd_validity col' = masks" "cd_type col' = cd_type col"
  shows "stored_rows col' = take k (stored_rows col)"
  unfolding stored_rows_def assms(3-5) assms(1,2) by (simp only: take_zip take_map)

lemma column_RevertAppend_ok:
  assumes "column_RevertAppend r col = Some (Inr col')" "column_ok hs conf n i c hp col"
    and "length (cd_segments col) < 2 ^ 62" "length (cd_validity col) < 2 ^ 62"
  shows "column_ok hs conf n i c hp col'" "stored_rows col' = take (r - cd_start col) (stored_rows col)"
    "cd_update_log col' = cd_update_log col"
proof -
  let ?k = "r - cd_start col"
  note ok = column_okD [OF assms(2)]
  obtain segs d masks e where s: "tree_RevertAppend data_node data_RevertAppend r (cd_segments col) = Some (Inr (segs, d))"
    and m: "tree_RevertAppend validity_node ValidityRevertAppend r (cd_validity col) = Some (Inr (masks, e))"
    and col': "col' = col\<lparr>cd_segments := segs, cd_validity := masks, cd_count := (if d then ?k else cd_count col),
        cd_validity_count := (if e then ?k else cd_validity_count col)\<rparr>"
    using assms(1) by (auto simp: column_RevertAppend_def bind_loop_Inr_iff)
  have seg: "list_all (\<lambda>s. segment_ok (cd_type col) s \<and> format_ok (cd_type col) undefined 0) (cd_segments col)"
    "contiguous (map data_node (cd_segments col))" "list_all validity_ok (cd_validity col)"
    "contiguous (map validity_node (cd_validity col))"
    "cd_segments col \<noteq> [] \<longrightarrow> row_start (data_node (hd (cd_segments col))) = cd_start col"
    "cd_validity col \<noteq> [] \<longrightarrow> row_start (validity_node (hd (cd_validity col))) = cd_start col"
    using ok(5) by (auto simp: segments_ok_def format_ok_def list_all_iff data_node_def validity_node_def)
  note S = data_tree.tree_RevertAppend_rows [OF s seg(1,2) assms(3)]
    and M = validity_tree.tree_RevertAppend_rows [OF m seg(3,4) assms(4)]
  have nil: "cd_segments col = [] \<longrightarrow> segs = []" "cd_validity col = [] \<longrightarrow> masks = []"
    using S M by auto
  have rows: "concat (map seg_rows segs) = take ?k (concat (map seg_rows (cd_segments col)))"
    "concat (map validity_rows masks) = take ?k (concat (map validity_rows (cd_validity col)))"
    using S M nil seg(5,6) by (cases "cd_segments col = []"; cases "cd_validity col = []"; simp)+
  show stored: "stored_rows col' = take ?k (stored_rows col)" by (rule stored_rows_take [OF rows]) (simp_all add: col')
  show "cd_update_log col' = cd_update_log col" by (simp add: col')
  then have visible: "set (visible_rows col') \<subseteq> set (visible_rows col)"
    using stored set_take_subset [of ?k "stored_rows col"] by (auto simp: visible_rows_def)
  have "segments_ok col'"
    using S M seg ok(5) rows nil by (auto simp: segments_ok_def col' list_all_iff data_node_def validity_node_def)
  moreover have same: "cd_type col' = cd_type col" "cd_temp col' = cd_temp col" "cd_stats col' = cd_stats col"
    "cd_updates col' = cd_updates col" "cd_validity_updates col' = cd_validity_updates col" "cd_invalidated col' = cd_invalidated col"
    by (simp_all add: col')
  moreover have "collected col'" if "collected col"
    using that subsetD [OF visible] unfolding collected_def same by blast
  ultimately show "column_ok hs conf n i c hp col'"
    using assms(2) subsetD [OF visible] ptr_summarises_subset [OF ok(8) visible] unfolding column_ok_def stats_describe_def same
    by blast
qed

end
