(* ===== verification/ColumnExample.thy ===== *)
theory ColumnExample
  imports ColumnInvariant
begin

text \<open>
  A column of integers, for the examples: the vector \<open>[5, 7]\<close> is appended to a new column,
  whose statistic is a dictionary.
\<close>

definition int_type :: LogicalType where "int_type = LogicalType LT_INTEGER NoTypeInfo"

definition int_vector :: unified_format where
  "int_vector = \<lparr>u_data = [int_value 5, int_value 7], u_sel = id, u_all_valid = True, u_valid = (\<lambda>_. True)\<rparr>"

definition dictionary_conf :: stats_config where
  "dictionary_conf = \<lparr>c_mapping = (\<lambda>_. None), c_default_type = ST_DICTIONARY\<rparr>"

lemma example_types:
  "InternalType int_type = PT_INT32" "InternalType validity_type = PT_BIT" "GetStatsType int_type = NUMERIC_STATS"
  "GetStatsType validity_type = BASE_STATS" "type_id int_type = LT_INTEGER" "type_id validity_type = LT_VALIDITY"
  "supports_stats (InternalType int_type)"
  by (simp_all add: type_eval validity_type_def int_type_def supports_stats_def)

lemma int_type_ok: "supports_stats (InternalType int_type) \<or> InternalType int_type = PT_INTERVAL"
  by (rule disjI1 [OF example_types(7)])

lemma example_CreateEmpty:
  "CreateEmpty int_type = Stats ((fresh_data int_type)\<lparr>has_no_null := True\<rparr>) []"
  "CreateEmpty validity_type = Stats (fresh_data validity_type) []"
  by (simp_all add: CreateEmpty.simps [of int_type] CreateEmpty.simps [of validity_type] init_defs example_types)

lemma int_vector_ok: "format_ok int_type int_vector 2"
  by (auto simp: format_ok_def int_vector_def row_valid_def int_type_def int_value_def less_2_cases_iff Let_def)

text \<open>The column, its temporary values and its statistics as a function of the pointer.\<close>

definition int_column :: "64 word \<Rightarrow> temp_vectors \<Rightarrow> column_data" where
  "int_column p tmp =
     \<lparr>cd_type = int_type, cd_start = 0, cd_count = 2,
      cd_segments = [\<lparr>seg_start = 0, seg_persistent = False, seg_rows = [int_value 5, int_value 7],
        seg_size = 262144, seg_dictionary = 0, seg_stats = CreateEmpty int_type\<rparr>],
      cd_validity_count = 2,
      cd_validity = [\<lparr>val_start = 0, val_persistent = False, val_count = 2, val_size = 262144,
        val_mask = (\<lambda>_. True), val_stats = set_flags False True (CreateEmpty validity_type)\<rparr>],
      cd_stats = set_ptr p (set_flags False True (CreateEmpty int_type)), cd_invalidated = False, cd_temp = tmp,
      cd_updates = None, cd_validity_updates = None, cd_update_log = []\<rparr>"

lemma InitializeAppend_int:
  assumes "start < 1000"
  shows "column_InitializeAppend 262144 (new_column int_type start) =
     (new_column int_type start)\<lparr>cd_segments := [\<lparr>seg_start = start, seg_persistent = False, seg_rows = [], seg_size = 262144,
        seg_dictionary = 0, seg_stats = CreateEmpty int_type\<rparr>],
      cd_validity := [\<lparr>val_start = start, val_persistent = False, val_count = 0, val_size = 262144, val_mask = \<lambda>_. True,
        val_stats = CreateEmpty validity_type\<rparr>]\<rparr>"
  using assms by (simp add: column_InitializeAppend_def segments_InitializeAppend_def new_column_def new_data_segment_def
      new_validity_segment_def transient_size_def type_size_def GetTypeIdSize_def MAX_ROW_ID_def example_types)

lemmas append_eval = column_Append_def column_AppendData_def AppendDataWriteTemp_def validity_AppendData_def
  append_loop.simps example_CreateEmpty example_types fresh_data_def segment_Append_def FixedSizeAppend_def
  ValidityAppend_def type_size_def GetTypeIdSize_def int_vector_def source_row_def row_valid_def AppendTemp_def
  AppendTemp_values_def no_temp_vectors_def merge_base_def set_flags_def set_ptr_def GetValue_int32_def int_value_def
  supports_stats_def Let_def

text \<open>The same column at another start row.\<close>

definition int_column_at :: "nat \<Rightarrow> 64 word \<Rightarrow> temp_vectors \<Rightarrow> column_data" where
  "int_column_at start p tmp =
     (int_column p tmp)\<lparr>cd_start := start,
       cd_segments := map (\<lambda>s. s\<lparr>seg_start := start\<rparr>) (cd_segments (int_column p tmp)),
       cd_validity := map (\<lambda>m. m\<lparr>val_start := start\<rparr>) (cd_validity (int_column p tmp))\<rparr>"

lemma int_column_at_0 [simp]: "int_column_at 0 p tmp = int_column p tmp"
  by (simp add: int_column_at_def int_column_def)

lemma Append_int_at:
  assumes "start < 1000"
  shows "column_Append 262144 int_vector 2 (column_InitializeAppend 262144 (new_column int_type start)) =
   Some (Inr (int_column_at start 0 (no_temp_vectors\<lparr>tmp_int32 := [5, 7]\<rparr>)))"
proof -
  have upt: "[0..<2] = [0, 1::nat]" by (simp add: upt_rec)
  show ?thesis
    unfolding InitializeAppend_int [OF assms] unfolding new_column_def
    by (simp add: append_eval upt int_column_def int_column_at_def)
qed

lemma Append_int:
  "column_Append 262144 int_vector 2 (column_InitializeAppend 262144 (new_column int_type 0)) =
   Some (Inr (int_column 0 (no_temp_vectors\<lparr>tmp_int32 := [5, 7]\<rparr>)))"
  using Append_int_at [of 0] by simp

lemma int_column_rows: "stored_rows (int_column p tmp) = [int_value 5, int_value 7]"
  by (simp add: stored_rows_def int_column_def validity_rows_def upt_rec)

definition int_statistic :: "32 word list \<Rightarrow> stats_ptr" where
  "int_statistic xs =
     Int32Stats \<lparr>stat_type = ST_DICTIONARY, stat_body = DictionaryBody (dictionary_construct (value_ops.truncate signed_ops) 300 xs)\<rparr>"

lemma InitStats_int_column:
  assumes "cd_type col = int_type" "\<not> cd_invalidated col" "cd_temp col = no_temp_vectors\<lparr>tmp_int32 := xs\<rparr>"
  shows "column_InitStats hs dictionary_conf n i c address hp col =
    Inr (hp(address \<mapsto> int_statistic xs), col\<lparr>cd_temp := no_temp_vectors, cd_stats := set_ptr address (cd_stats col)\<rparr>)"
proof -
  have "InitStats_ptr hs dictionary_conf False (no_temp_vectors\<lparr>tmp_int32 := xs\<rparr>) PT_INT32 n i c None = Inr (Some (int_statistic xs))"
    by (simp add: InitStats_ptr_def InitAdditionalStats_run StatisticsSet_construct_type_def new_body_def configured_type_def
        dictionary_conf_def no_temp_vectors_def numeric_env_def int_statistic_def)
  moreover have "clear_temp PT_INT32 (no_temp_vectors\<lparr>tmp_int32 := xs\<rparr>) = no_temp_vectors"
    by (simp add: clear_temp_def no_temp_vectors_def)
  moreover have "supports_stats PT_INT32" by (simp add: supports_stats_def)
  ultimately show ?thesis
    using assms by (simp add: column_InitStats_def Let_def example_types)
qed

lemma InitStats_int:
  "column_InitStats hs dictionary_conf n i c address hp (int_column p (no_temp_vectors\<lparr>tmp_int32 := xs\<rparr>)) =
   Inr (hp(address \<mapsto> int_statistic xs), int_column address no_temp_vectors)"
proof -
  have "set_ptr a (set_ptr b s) = set_ptr a s" for a b s by (simp add: set_ptr_def)
  then show ?thesis
    by (subst InitStats_int_column) (simp_all add: int_column_def)
qed

text \<open>What the zone map answers to an equality.\<close>

lemma CheckZonemap_int_column:
  assumes "hp p = Some (int_statistic xs)" "p \<noteq> 0" "cd_updates col = None"
    and "base (cd_stats col) = (fresh_data int_type)\<lparr>has_no_null := True, additional_ptr := p\<rparr>"
    and "dictionary_Query (value_ops.truncate signed_ops) (dictionary_construct (value_ops.truncate signed_ops) 300 xs) COMPARE_EQUAL w = Inr r"
  shows "column_CheckZonemap hs hp (ConstantFilter COMPARE_EQUAL (int_value w)) col = Inr r"
proof -
  have "GetValue_int32 (int_value w) = w"
    by (rule bit_word_eqI) (simp add: GetValue_int32_def int_value_def bit_simps)
  moreover have "\<not> v_is_null (int_value w)" "v_type (int_value w) = int_type" by (simp_all add: int_value_def int_type_def)
  ultimately have "CheckStatistics hs hp (ConstantFilter COMPARE_EQUAL (int_value w)) (cd_stats col) = Inr r"
    using assms
    by (simp add: deref_def ConstantFilter_CheckStatistics_def example_types fresh_data_def QueryAdditionalStats_def
        int_statistic_def StatisticsSet_Query_def numeric_env_def as_dictionary_def)
  then show ?thesis using assms(3) by (simp add: column_CheckZonemap_def)
qed

lemma CheckZonemap_int:
  assumes "hp p = Some (int_statistic xs)" "p \<noteq> 0"
    and "dictionary_Query (value_ops.truncate signed_ops) (dictionary_construct (value_ops.truncate signed_ops) 300 xs) COMPARE_EQUAL w = Inr r"
  shows "column_CheckZonemap hs hp (ConstantFilter COMPARE_EQUAL (int_value w)) (int_column p tmp) = Inr r"
  using assms
  by (intro CheckZonemap_int_column)
    (simp_all add: int_column_def set_ptr_def set_flags_def example_CreateEmpty fresh_data_def)

lemma dictionary_answers:
  "dictionary_Query (value_ops.truncate signed_ops) (dictionary_construct (value_ops.truncate signed_ops) 300 [5, 7 :: 32 word])
     COMPARE_EQUAL 6 = Inr FILTER_ALWAYS_FALSE"
  "dictionary_Query (value_ops.truncate signed_ops) (dictionary_construct (value_ops.truncate signed_ops) 300 ([] :: 32 word list))
     COMPARE_EQUAL 5 = Inr FILTER_ALWAYS_FALSE"
  "dictionary_Query (value_ops.truncate signed_ops) (dictionary_construct (value_ops.truncate signed_ops) 300 [5, 7 :: 32 word])
     COMPARE_EQUAL 5 = Inr NO_PRUNING_POSSIBLE"
  by code_simp+

lemma equality_holds:
  "filter_holds ex (ConstantFilter COMPARE_EQUAL (int_value 5)) (int_value 5)"
  "filter_holds ex (ConstantFilter COMPARE_EQUAL (int_value 6)) (int_value 6)"
  by code_simp+

text \<open>A column read back from disk with the value 6, to which the vector is appended.\<close>

definition loaded_column :: "64 word \<Rightarrow> temp_vectors \<Rightarrow> column_data" where
  "loaded_column p tmp =
     \<lparr>cd_type = int_type, cd_start = 0, cd_count = 3,
      cd_segments = [\<lparr>seg_start = 0, seg_persistent = True, seg_rows = [int_value 6], seg_size = 0, seg_dictionary = 0,
          seg_stats = CreateEmpty int_type\<rparr>,
        \<lparr>seg_start = 1, seg_persistent = False, seg_rows = [int_value 5, int_value 7],
          seg_size = 262144, seg_dictionary = 0, seg_stats = CreateEmpty int_type\<rparr>],
      cd_validity_count = 3,
      cd_validity = [\<lparr>val_start = 0, val_persistent = True, val_count = 1, val_size = 0, val_mask = (\<lambda>_. True),
          val_stats = set_flags False True (CreateEmpty validity_type)\<rparr>,
        \<lparr>val_start = 1, val_persistent = False, val_count = 2, val_size = 262144, val_mask = (\<lambda>_. True),
          val_stats = set_flags False True (CreateEmpty validity_type)\<rparr>],
      cd_stats = set_ptr p (set_flags False True (CreateEmpty int_type)), cd_invalidated = False, cd_temp = tmp,
      cd_updates = None, cd_validity_updates = None, cd_update_log = []\<rparr>"

lemma InitializeColumn_int:
  "column_InitializeColumn [([int_value 6], CreateEmpty int_type)] [([True], set_flags False True (CreateEmpty validity_type))]
     (new_column int_type 0) =
   Inr ((loaded_column 0 no_temp_vectors)\<lparr>cd_count := 1, cd_segments := take 1 (cd_segments (loaded_column 0 no_temp_vectors)),
     cd_validity_count := 1, cd_validity := take 1 (cd_validity (loaded_column 0 no_temp_vectors))\<rparr>)"
  by (simp add: column_InitializeColumn_def new_column_def loaded_column_def example_CreateEmpty example_types fresh_data_def
      merge_base_def set_flags_def set_ptr_def Let_def)

lemma Append_loaded:
  "column_Append 262144 int_vector 2 (column_InitializeAppend 262144
     ((loaded_column 0 no_temp_vectors)\<lparr>cd_count := 1, cd_segments := take 1 (cd_segments (loaded_column 0 no_temp_vectors)),
     cd_validity_count := 1, cd_validity := take 1 (cd_validity (loaded_column 0 no_temp_vectors))\<rparr>)) =
   Some (Inr (loaded_column 0 (no_temp_vectors\<lparr>tmp_int32 := [5, 7]\<rparr>)))"
proof -
  have upt: "[0..<2] = [0, 1::nat]" by (simp add: upt_rec)
  show ?thesis
    unfolding loaded_column_def column_InitializeAppend_def segments_InitializeAppend_def
    by (simp add: new_data_segment_def new_validity_segment_def transient_size_def MAX_ROW_ID_def node_end_def
        data_node_def validity_node_def append_eval upt)
qed

end
