(* ===== verification/ColumnProps.thy ===== *)
theory ColumnProps
  imports ColumnExample
begin

text \<open>
  The life of a column as a step relation, and what holds of every column that can be reached:
  the answers of its zone map are sound for the rows a scan may see.
\<close>

subsection \<open>The steps\<close>

text \<open>
  The state is the heap of additional statistics and the column. A statistic is built once, or
  again after an invalidation, and statistics are never freed.
\<close>

inductive column_step ::
  "hashes \<Rightarrow> stats_config \<Rightarrow> string \<Rightarrow> nat \<Rightarrow> nat \<Rightarrow> nat \<Rightarrow> stats_heap \<times> column_data \<Rightarrow> stats_heap \<times> column_data \<Rightarrow> bool"
  for hs conf table_name index column block_size where
  step_append:
    "format_ok (cd_type col) vdata n \<Longrightarrow>
     column_Append block_size vdata n (column_InitializeAppend block_size col) = Some (Inr col') \<Longrightarrow>
     column_step hs conf table_name index column block_size (hp, col) (hp, col')"
| step_update:
    "format_ok (cd_type col) update n \<Longrightarrow> row_group_Update update n col = Inr col' \<Longrightarrow>
     column_step hs conf table_name index column block_size (hp, col) (hp, col')"
| step_revert:
    "length (cd_segments col) < 2 ^ 62 \<Longrightarrow> length (cd_validity col) < 2 ^ 62 \<Longrightarrow>
     column_RevertAppend start_row col = Some (Inr col') \<Longrightarrow>
     column_step hs conf table_name index column block_size (hp, col) (hp, col')"
| step_init:
    "cd_ptr col = 0 \<or> cd_invalidated col \<Longrightarrow> temp_fits hs col \<Longrightarrow> address \<noteq> 0 \<Longrightarrow> hp address = None \<Longrightarrow>
     column_InitStats hs conf table_name index column address hp col = Inr (hp', col') \<Longrightarrow>
     column_step hs conf table_name index column block_size (hp, col) (hp', col')"
| step_heap:
    "hp \<subseteq>\<^sub>m hp' \<Longrightarrow> column_step hs conf table_name index column block_size (hp, col) (hp', col)"

text \<open>
  The values collected for a column are kept under its address and stay there when the column is
  destroyed, so a new column may start with values of an older one.
\<close>

inductive column_reachable ::
  "hashes \<Rightarrow> stats_config \<Rightarrow> string \<Rightarrow> nat \<Rightarrow> nat \<Rightarrow> nat \<Rightarrow> LogicalType \<Rightarrow> nat \<Rightarrow> stats_heap \<times> column_data \<Rightarrow> bool"
  for hs conf table_name index column block_size t start_row where
  reach_new:
    "tmp_holds (InternalType t) tmp vals \<Longrightarrow>
     column_reachable hs conf table_name index column block_size t start_row (hp, (new_column t start_row)\<lparr>cd_temp := tmp\<rparr>)"
| reach_step:
    "column_reachable hs conf table_name index column block_size t start_row s \<Longrightarrow>
     column_step hs conf table_name index column block_size s s' \<Longrightarrow>
     column_reachable hs conf table_name index column block_size t start_row s'"

lemma reach_fresh:
  "column_reachable hs conf table_name index column block_size t start_row (hp, new_column t start_row)"
proof -
  have "(new_column t start_row)\<lparr>cd_temp := no_temp_vectors\<rparr> = new_column t start_row" by (simp add: new_column_def)
  then show ?thesis using reach_new [OF tmp_holds_empty, of hs conf table_name index column block_size t start_row hp] by simp
qed

lemma column_ok_heap:
  assumes "column_ok hs conf n i c hp col" "hp \<subseteq>\<^sub>m hp'"
  shows "column_ok hs conf n i c hp' col"
proof -
  have "hp p = Some s \<Longrightarrow> hp' p = Some s" for p s using assms(2) by (metis domI map_le_def)
  then have "ptr_summarises hs hp' (cd_type col) (cd_ptr col) (visible_rows col)"
    using column_okD(8) [OF assms(1)] unfolding ptr_summarises_def by blast
  then show ?thesis using assms(1) by (simp add: column_ok_def stats_describe_def)
qed

lemma column_step_ok:
  assumes "column_step hs conf n i c b (hp, col) (hp', col')" "column_ok hs conf n i c hp col"
  shows "column_ok hs conf n i c hp' col'"
  using assms(1)
proof (cases rule: column_step.cases)
  case step_append
  then show ?thesis using column_Append_result(1) [OF _ assms(2)] by simp
next
  case step_update
  then show ?thesis using row_group_Update_ok(1) [OF _ assms(2)] by simp
next
  case step_revert
  then show ?thesis using column_RevertAppend_ok(1) [OF _ assms(2)] by simp
next
  case step_init
  then show ?thesis using column_InitStats_ok(1) [OF _ assms(2)] by simp
next
  case step_heap
  then show ?thesis using column_ok_heap [OF assms(2)] by simp
qed

lemma column_reachable_column_ok:
  assumes "column_reachable hs conf n i c b t start s" "supports_stats (InternalType t) \<or> InternalType t = PT_INTERVAL"
  shows "column_ok hs conf n i c (fst s) (snd s) \<and> cd_type (snd s) = t \<and> cd_start (snd s) = start"
  using assms(1)
proof (induction rule: column_reachable.induct)
  case (reach_new tmp vals hp)
  then show ?case using new_column_ok [OF assms(2)] by (auto simp: new_column_def)
next
  case (reach_step s s')
  obtain hp col hp' col' where s: "s = (hp, col)" "s' = (hp', col')" by (cases s; cases s') auto
  then have ok: "column_ok hs conf n i c hp col" "cd_type col = t" "cd_start col = start" using reach_step by simp_all
  have "column_ok hs conf n i c hp' col'" using column_step_ok reach_step(2) ok(1) by (simp add: s)
  moreover have "cd_type col' = cd_type col \<and> cd_start col' = cd_start col"
    using reach_step(2) unfolding s
  proof (cases rule: column_step.cases)
    case step_append
    then show ?thesis using column_Append_result(5,6) [OF _ ok(1)] by simp
  next
    case step_update
    then show ?thesis
      by (auto simp: row_group_Update_def column_Update_def column_MergeStatistics_def bind_result_Inr_iff split: option.splits)
  next
    case step_revert
    then show ?thesis by (auto simp: column_RevertAppend_def bind_loop_Inr_iff)
  next
    case step_init
    then show ?thesis
      by (auto simp: column_InitStats_def Let_def bind_result_Inr_iff split: if_splits option.splits)
  qed simp
  ultimately show ?case using ok by (simp add: s)
qed

lemma column_CheckZonemap_answer:
  assumes "column_CheckZonemap hs hp f col = Inr r"
  shows "r = NO_PRUNING_POSSIBLE \<or> CheckStatistics hs hp f (cd_stats col) = Inr r"
  using assms by (auto simp: column_CheckZonemap_def bind_result_Inr_iff split: if_splits option.splits)


text \<open>The example column: appended to, then given its statistic.\<close>

lemma int_column_reachable:
  "column_reachable hs dictionary_conf n i c 262144 int_type 0
     ((\<lambda>_. None)(1 \<mapsto> int_statistic [5, 7]), int_column 1 no_temp_vectors)"
proof -
  let ?tmp = "no_temp_vectors\<lparr>tmp_int32 := [5, 7]\<rparr>" and ?hp = "\<lambda>_. None :: stats_ptr option"
  have type: "format_ok (cd_type (new_column int_type 0)) int_vector 2"
    using int_vector_ok by (simp add: new_column_def)
  have "tmp_holds PT_INT32 ?tmp vals \<Longrightarrow> length vals = 2" for vals
    by (auto simp: tmp_holds_def dest: arg_cong [of _ _ length])
  then have "temp_fits hs (int_column 0 ?tmp)"
    by (simp add: temp_fits_def int_column_def example_types hashes_respect_def)
  then have "column_step hs dictionary_conf n i c 262144 (?hp, int_column 0 ?tmp)
      (?hp(1 \<mapsto> int_statistic [5, 7]), int_column 1 no_temp_vectors)"
    by (intro step_init [OF _ _ _ _ InitStats_int]) (simp_all add: int_column_def)
  then show ?thesis
    by (rule reach_step [OF reach_step [OF reach_fresh step_append [OF type Append_int]]])
qed


text \<open>C25: Every column that can be reached is well formed: its statistics are statistics of its type,
  its segments and the segments of its validity mask follow one another from the first row of the
  column, and they hold equally many rows.\<close>
theorem reachable_column_typed:
  assumes "column_reachable hs conf n i c b t start (hp, col)" "supports_stats (InternalType t) \<or> InternalType t = PT_INTERVAL"
  shows "cd_type col = t \<and> stats_of t (cd_stats col) \<and>
    contiguous (map data_node (cd_segments col)) \<and> contiguous (map validity_node (cd_validity col)) \<and>
    (cd_segments col \<noteq> [] \<longrightarrow> seg_start (hd (cd_segments col)) = start) \<and>
    length (concat (map seg_rows (cd_segments col))) = length (concat (map validity_rows (cd_validity col)))"
  using column_reachable_column_ok [OF assms] by (auto simp: column_ok_def segments_ok_def)

lemma reachable_column_typed_witness:
  "contiguous (map data_node (cd_segments (int_column 1 no_temp_vectors))) \<and> cd_type (int_column 1 no_temp_vectors) = int_type"
  using reachable_column_typed [OF int_column_reachable int_type_ok] by simp

text \<open>C13: No segment is filled beyond its capacity: the rows of a segment fit its block, with the
  dictionary and its header for strings, the validity bits fit the mask, and the bits behind the
  last row are set, whatever was appended and reverted.\<close>
theorem segments_within_capacity:
  assumes "column_reachable hs conf n i c b t start (hp, col)" "supports_stats (InternalType t) \<or> InternalType t = PT_INTERVAL"
  shows "list_all (within_capacity t) (cd_segments col) \<and>
    list_all (\<lambda>m. val_count m \<le> 8 * val_size m \<and> (\<forall>j \<ge> val_count m. val_mask m j)) (cd_validity col)"
proof -
  have ok: "segments_ok col" "cd_type col = t" using column_reachable_column_ok [OF assms] by (auto simp: column_ok_def)
  have "k div 256 * 2048 \<le> 8 * k" for k :: nat by simp
  then have "x \<le> k div 256 * 2048 \<Longrightarrow> x \<le> 8 * k" for x k :: nat using le_trans by blast
  then show ?thesis
    using ok by (auto simp: segments_ok_def list_all_iff segment_ok_def validity_ok_def)
qed

lemma segments_within_capacity_witness: "list_all (within_capacity int_type) (cd_segments (int_column 1 no_temp_vectors))"
  using segments_within_capacity [OF int_column_reachable int_type_ok] by simp

text \<open>Appending stores exactly the rows of the vector, in order and behind the rows the column
  has, over as many segments as it takes.\<close>
lemma append_stores_rows:
  assumes "column_reachable hs conf n i c b t start (hp, col)" "supports_stats (InternalType t) \<or> InternalType t = PT_INTERVAL"
    and "format_ok t vdata k" "column_Append b vdata k (column_InitializeAppend b col) = Some (Inr col')"
  shows "stored_rows col' = stored_rows col @ map (source_row t vdata) [0..<k] \<and>
    cd_count col' = cd_count col + k \<and> cd_validity_count col' = cd_validity_count col + k \<and> cd_ptr col' = 0"
proof -
  have ok: "column_ok hs conf n i c hp col" "cd_type col = t" using column_reachable_column_ok [OF assms(1,2)] by simp_all
  show ?thesis using column_Append_result [OF assms(4) ok(1)] assms(3) ok(2) by simp
qed

lemma append_stores_rows_witness:
  "stored_rows (int_column 0 (no_temp_vectors\<lparr>tmp_int32 := [5, 7]\<rparr>)) = map (source_row int_type int_vector) [0..<2]"
  using append_stores_rows [OF reach_fresh int_type_ok int_vector_ok Append_int]
  by (simp add: stored_rows_def new_column_def)

lemma column_Append_returns:
  assumes "segments_ok col" "format_ok (cd_type col) vdata k" "4096 \<le> b"
    and "cd_segments col \<noteq> []" "cd_validity col \<noteq> []"
  shows "\<exists>r. column_Append b vdata k col = Some r"
proof -
  let ?col = "invalidated col"
  have segs: "segment_ok (cd_type col) (last (cd_segments ?col)) \<and> format_ok (cd_type col) vdata k" "validity_ok (last (cd_validity ?col))"
    "cd_segments ?col \<noteq> []" "cd_validity ?col \<noteq> []" "large_block b" "cd_type ?col = cd_type col"
    using assms by (auto simp: segments_ok_def list_all_iff large_block_def)
  have "\<exists>r. AppendDataWriteTemp b vdata k ?col = Some r"
    unfolding AppendDataWriteTemp_def segs(6) by (rule data_segs.loop_total [OF segs(5,3,1)]) simp
  moreover have "\<exists>r. validity_AppendData b vdata k stats ?col = Some r" for stats
    unfolding validity_AppendData_def by (rule validity_segs.loop_total [OF segs(5,4,2)]) (rule order_refl)
  ultimately show ?thesis
    unfolding column_Append_alt column_AppendData_def
    by (intro bind_loop_total) (auto intro!: bind_loop_total)
qed

text \<open>Appending returns: with blocks of at least 4096 bytes a new segment always takes a row, so the
  loop over segments ends.\<close>
lemma append_terminates:
  assumes "column_reachable hs conf n i c b t start (hp, col)" "supports_stats (InternalType t) \<or> InternalType t = PT_INTERVAL"
    and "format_ok t vdata k" "4096 \<le> b"
  shows "\<exists>r. column_Append b vdata k (column_InitializeAppend b col) = Some r"
proof -
  have ok: "column_ok hs conf n i c hp col" "cd_type col = t" using column_reachable_column_ok [OF assms(1,2)] by simp_all
  note keeps = column_InitializeAppend_keeps [OF column_okD(5) [OF ok(1)], of b]
  have "cd_type (column_InitializeAppend b col) = t" using ok(2) by (simp add: column_InitializeAppend_def)
  then show ?thesis
    using column_Append_returns [OF keeps(1) _ assms(4) keeps(2,3)] assms(3) by simp
qed

lemma append_terminates_witness:
  "\<exists>r. column_Append 262144 int_vector 2 (column_InitializeAppend 262144 (int_column 1 no_temp_vectors)) = Some r"
  by (rule append_terminates [OF int_column_reachable int_type_ok int_vector_ok]) simp

text \<open>Reverting to a row of the column never fails.\<close>

lemma column_RevertAppend_returns:
  assumes "column_ok hs conf n i c hp col" "cd_start col \<le> r"
    and "length (cd_segments col) < 2 ^ 62" "length (cd_validity col) < 2 ^ 62"
  shows "\<exists>col'. column_RevertAppend r col = Some (Inr col')"
proof -
  have seg: "contiguous (map data_node (cd_segments col))" "contiguous (map validity_node (cd_validity col))"
    "cd_segments col \<noteq> [] \<Longrightarrow> row_start (data_node (hd (cd_segments col))) \<le> r"
    "cd_validity col \<noteq> [] \<Longrightarrow> row_start (validity_node (hd (cd_validity col))) \<le> r"
    using column_okD(5) [OF assms(1)] assms(2) by (auto simp: segments_ok_def data_node_def validity_node_def)
  obtain x y u v where "tree_RevertAppend data_node data_RevertAppend r (cd_segments col) = Some (Inr (x, y))"
    "tree_RevertAppend validity_node ValidityRevertAppend r (cd_validity col) = Some (Inr (u, v))"
    using data_tree.tree_RevertAppend_ok [OF seg(1) assms(3) seg(3)]
      validity_tree.tree_RevertAppend_ok [OF seg(2) assms(4) seg(4)] by blast
  then show ?thesis by (simp add: column_RevertAppend_def)
qed

text \<open>Reverting an append restores the rows the column had, whatever segments the append filled
  or added, and never fails.\<close>
theorem append_revert_roundtrip:
  assumes "column_reachable hs conf n i c b t start (hp, col)" "supports_stats (InternalType t) \<or> InternalType t = PT_INTERVAL"
    and "format_ok t vdata k" "column_Append b vdata k (column_InitializeAppend b col) = Some (Inr col1)"
    and "length (cd_segments col1) < 2 ^ 62" "length (cd_validity col1) < 2 ^ 62"
  shows "\<exists>col2. column_RevertAppend (start + length (stored_rows col)) col1 = Some (Inr col2) \<and>
    stored_rows col2 = stored_rows col"
proof -
  have ok: "column_ok hs conf n i c hp col" "cd_type col = t" "cd_start col = start"
    using column_reachable_column_ok [OF assms(1,2)] by simp_all
  note app = column_Append_result [OF assms(4) ok(1) assms(3) [folded ok(2)]]
  obtain col2 where col2: "column_RevertAppend (start + length (stored_rows col)) col1 = Some (Inr col2)"
    using column_RevertAppend_returns [OF app(1) _ assms(5,6), of "start + length (stored_rows col)"] app(6) ok(3) by auto
  then show ?thesis
    using column_RevertAppend_ok(2) [OF col2 app(1) assms(5,6)] app(2,6) ok(3) by simp
qed

text \<open>Building the statistic of a column a second time, with nothing appended in between, makes
  the zone map lie: the statistic now describes no value, and an equality that a stored row
  satisfies is answered with "always false".\<close>
lemma second_InitStats_prunes_rows:
  "\<exists>hp col. bind_result (column_InitStats hs dictionary_conf table_name index column 1 (\<lambda>_. None)
        (int_column 0 (no_temp_vectors\<lparr>tmp_int32 := [5, 7]\<rparr>))) (\<lambda>(hp, col).
      column_InitStats hs dictionary_conf table_name index column 2 hp col) = Inr (hp, col) \<and>
    column_CheckZonemap hs hp (ConstantFilter COMPARE_EQUAL (int_value 5)) col = Inr FILTER_ALWAYS_FALSE \<and>
    int_value 5 \<in> set (stored_rows col) \<and> filter_holds ex (ConstantFilter COMPARE_EQUAL (int_value 5)) (int_value 5)"
proof -
  let ?hp = "(\<lambda>_. None)(1 \<mapsto> int_statistic [5, 7], 2 \<mapsto> int_statistic [])"
  have "no_temp_vectors = no_temp_vectors\<lparr>tmp_int32 := []\<rparr>" by (simp add: no_temp_vectors_def)
  then have "column_InitStats hs dictionary_conf table_name index column 2 ((\<lambda>_. None)(1 \<mapsto> int_statistic [5, 7]))
      (int_column 1 no_temp_vectors) = Inr (?hp, int_column 2 no_temp_vectors)"
    using InitStats_int [of hs table_name index column 2 _ 1 "[]"] by metis
  moreover have "column_CheckZonemap hs ?hp (ConstantFilter COMPARE_EQUAL (int_value 5)) (int_column 2 no_temp_vectors) =
      Inr FILTER_ALWAYS_FALSE"
    by (rule CheckZonemap_int [OF _ _ dictionary_answers(2)]) simp_all
  moreover have "filter_holds ex (ConstantFilter COMPARE_EQUAL (int_value 5)) (int_value 5)"
    by (rule equality_holds)
  ultimately show ?thesis
    by (simp add: InitStats_int int_column_rows)
qed

text \<open>A column read back from disk that is appended to and then given a statistic has a zone map
  that lies: nothing was collected for the rows from disk and nothing invalidates the column, so
  the statistic describes the new rows only and an equality with an old row is "always false".\<close>
theorem loaded_column_prunes_rows:
  "\<exists>col0 col1 hp col.
    column_InitializeColumn [([int_value 6], CreateEmpty int_type)] [([True], set_flags False True (CreateEmpty validity_type))]
      (new_column int_type 0) = Inr col0 \<and>
    column_Append 262144 int_vector 2 (column_InitializeAppend 262144 col0) = Some (Inr col1) \<and>
    column_InitStats hs dictionary_conf table_name index column 1 (\<lambda>_. None) col1 = Inr (hp, col) \<and>
    column_CheckZonemap hs hp (ConstantFilter COMPARE_EQUAL (int_value 6)) col = Inr FILTER_ALWAYS_FALSE \<and>
    int_value 6 \<in> set (stored_rows col) \<and> filter_holds ex (ConstantFilter COMPARE_EQUAL (int_value 6)) (int_value 6)"
proof -
  let ?tmp = "no_temp_vectors\<lparr>tmp_int32 := [5, 7]\<rparr>" and ?hp = "(\<lambda>_. None)(1 \<mapsto> int_statistic [5, 7])"
  let ?col = "(loaded_column 0 ?tmp)\<lparr>cd_temp := no_temp_vectors, cd_stats := set_ptr 1 (cd_stats (loaded_column 0 ?tmp))\<rparr>"
  have "column_InitStats hs dictionary_conf table_name index column 1 (\<lambda>_. None) (loaded_column 0 ?tmp) = Inr (?hp, ?col)"
    by (rule InitStats_int_column) (simp_all add: loaded_column_def)
  moreover have "column_CheckZonemap hs ?hp (ConstantFilter COMPARE_EQUAL (int_value 6)) ?col = Inr FILTER_ALWAYS_FALSE"
    by (rule CheckZonemap_int_column [where p = 1 and xs = "[5, 7]"])
      (simp_all add: dictionary_answers loaded_column_def set_ptr_def set_flags_def example_CreateEmpty fresh_data_def)
  moreover have "int_value 6 \<in> set (stored_rows ?col)"
    by (simp add: stored_rows_def loaded_column_def validity_rows_def)
  ultimately show ?thesis
    using InitializeColumn_int Append_loaded equality_holds(2) by blast
qed

end
