(* ===== verification/RowGroupScan.thy ===== *)
theory RowGroupScan
  imports ColumnProps FilterExec
begin

text \<open>
  Scanning a row group under filters (\<open>storage/table/row_group.cpp\<close>,
  \<open>storage/table/scan_state.cpp\<close>): the list of filters with their flags, the check of the row
  group against its zone maps with the range check of the additional statistics, and the
  filtering of a vector.
\<close>

subsection \<open>The filters of a scan\<close>

record scan_filter =
  scan_column_index :: nat
  table_column_index :: nat
  table_filter :: TableFilter
  always_true :: bool

record scan_filter_info =
  table_filters_set :: bool
  filter_list :: "scan_filter list"
  column_has_filter :: "bool list"
  base_column_has_filter :: "bool list"
  always_true_filters :: nat

text \<open>The filters come in the order of their column; a column of the scan is a column of the table.\<close>

definition ScanFilterInfo_Initialize ::
  "(nat \<times> TableFilter) list \<Rightarrow> nat list \<Rightarrow> scan_filter_info result" where
  "ScanFilterInfo_Initialize filters column_ids =
     bind_result (map_result (\<lambda>(index, f).
         if index < length column_ids
         then Inr \<lparr>scan_column_index = index, table_column_index = column_ids ! index, table_filter = f, always_true = False\<rparr>
         else Inl OutOfBounds) filters) (\<lambda>entries.
       let has_filter = map (\<lambda>col_idx. \<exists>f \<in> set filters. fst f = col_idx) [0..<length column_ids]
       in Inr \<lparr>table_filters_set = True, filter_list = entries, column_has_filter = has_filter,
               base_column_has_filter = has_filter, always_true_filters = 0\<rparr>)"

definition ColumnHasFilters :: "nat \<Rightarrow> scan_filter_info \<Rightarrow> bool" where
  "ColumnHasFilters column_idx info =
     (if column_idx < length (column_has_filter info) then column_has_filter info ! column_idx else False)"

definition HasFilters :: "scan_filter_info \<Rightarrow> bool" where
  "HasFilters info = (if \<not> table_filters_set info then False else always_true_filters info < length (filter_list info))"

definition CheckAllFilters :: "scan_filter_info \<Rightarrow> scan_filter_info" where
  "CheckAllFilters info =
     info\<lparr>always_true_filters := 0,
          column_has_filter := map (\<lambda>col_idx. base_column_has_filter info ! col_idx) [0..<length (column_has_filter info)],
          filter_list := map (\<lambda>f. f\<lparr>always_true := False\<rparr>) (filter_list info)\<rparr>"

definition SetFilterAlwaysTrue :: "nat \<Rightarrow> scan_filter_info \<Rightarrow> scan_filter_info result" where
  "SetFilterAlwaysTrue filter_idx info =
     (if filter_idx \<ge> length (filter_list info) then Inl OutOfBounds
      else let f = filter_list info ! filter_idx
           in if always_true f then Inr info
              else if scan_column_index f \<ge> length (column_has_filter info) then Inl OutOfBounds
              else Inr (info\<lparr>filter_list := (filter_list info)[filter_idx := f\<lparr>always_true := True\<rparr>],
                             column_has_filter := (column_has_filter info)[scan_column_index f := False],
                             always_true_filters := always_true_filters info + 1\<rparr>))"

subsection \<open>The check of a row group\<close>

lemma size_list_sum: "size_list size fs = sum_list (map size fs) + length fs"
  by (induction fs) auto

text \<open>
  The lower and the upper bound of a conjunction. The pending filters are a stack whose top is
  the head of the list, so the children are taken from the last to the first, and a later bound
  replaces an earlier one.
\<close>

function pending_bounds :: "TableFilter list \<Rightarrow> Value option \<Rightarrow> Value option \<Rightarrow> Value option \<times> Value option" where
  "pending_bounds [] lower upper = (lower, upper)"
| "pending_bounds (ConjunctionAndFilter fs # pending) lower upper = pending_bounds (rev fs @ pending) lower upper"
| "pending_bounds (ConstantFilter cmp c # pending) lower upper =
     (if cmp \<in> {COMPARE_GREATERTHAN, COMPARE_GREATERTHANOREQUALTO} then pending_bounds pending (Some c) upper
      else if cmp \<in> {COMPARE_LESSTHAN, COMPARE_LESSTHANOREQUALTO} then pending_bounds pending lower (Some c)
      else pending_bounds pending lower upper)"
| "pending_bounds (IsNullFilter # pending) lower upper = pending_bounds pending lower upper"
| "pending_bounds (IsNotNullFilter # pending) lower upper = pending_bounds pending lower upper"
| "pending_bounds (ConjunctionOrFilter fs # pending) lower upper = pending_bounds pending lower upper"
| "pending_bounds (StructFilter i name f # pending) lower upper = pending_bounds pending lower upper"
| "pending_bounds (OptionalFilter f # pending) lower upper = pending_bounds pending lower upper"
| "pending_bounds (InFilter values # pending) lower upper = pending_bounds pending lower upper"
| "pending_bounds (DynamicFilter data # pending) lower upper = pending_bounds pending lower upper"
| "pending_bounds (ExpressionFilter e # pending) lower upper = pending_bounds pending lower upper"
  by pat_completeness auto

termination
  by (relation "measure (\<lambda>(fs, _). sum_list (map size fs) + length fs)") (auto simp: size_list_sum rev_map [symmetric])

text \<open>The range check replaces the answer of the filters before it.\<close>

definition range_skip :: "hashes \<Rightarrow> stats_heap \<Rightarrow> TableFilter \<Rightarrow> BaseStatistics \<Rightarrow> bool \<Rightarrow> bool result" where
  "range_skip hs hp f s between_case_skip =
     (case pending_bounds [f] None None of
        (Some lower_value, Some upper_value) \<Rightarrow>
          let t = stats_type s; range_type = InternalType t
          in if type_id (v_type lower_value) = type_id t \<and> type_id (v_type upper_value) = type_id t \<and> supports_stats range_type
             then bind_result (deref hp (additional_ptr (base s))) (\<lambda>ptr.
                  bind_result (RangeQueryAdditionalStats hs ptr range_type lower_value upper_value) (\<lambda>r.
                    Inr (r = FILTER_ALWAYS_FALSE)))
             else Inr between_case_skip
      | _ \<Rightarrow> Inr between_case_skip)"

definition GetColumn :: "column_data list \<Rightarrow> nat \<Rightarrow> column_data result" where
  "GetColumn columns i = (if i < length columns then Inr (columns ! i) else Inl OutOfBounds)"

text \<open>The answer says whether the row group is scanned; the flags of the filters change on the way.\<close>

fun check_entries ::
  "hashes \<Rightarrow> stats_heap \<Rightarrow> column_data list \<Rightarrow> nat list \<Rightarrow> scan_filter_info \<Rightarrow> bool \<Rightarrow> (bool \<times> scan_filter_info) result" where
  "check_entries hs hp columns [] info between_case_skip = Inr (\<not> between_case_skip, info)"
| "check_entries hs hp columns (i # is) info between_case_skip =
     (let entry = filter_list info ! i; f = table_filter entry
      in bind_result (GetColumn columns (table_column_index entry)) (\<lambda>col.
         bind_result (column_CheckZonemap hs hp f col) (\<lambda>prune_result.
           if prune_result = FILTER_ALWAYS_FALSE then Inr (False, info)
           else bind_result (if is_optional f then SetFilterAlwaysTrue i info
                             else if prune_result = FILTER_ALWAYS_TRUE then SetFilterAlwaysTrue i info
                             else Inr info) (\<lambda>info.
                bind_result (range_skip hs hp f (cd_stats col) between_case_skip)
                  (check_entries hs hp columns is info)))))"

definition RowGroup_CheckZonemap ::
  "hashes \<Rightarrow> stats_heap \<Rightarrow> column_data list \<Rightarrow> scan_filter_info \<Rightarrow> (bool \<times> scan_filter_info) result" where
  "RowGroup_CheckZonemap hs hp columns filters =
     (let filters = CheckAllFilters filters
      in check_entries hs hp columns [0..<length (filter_list filters)] filters False)"

subsection \<open>The range check is sound\<close>

context duck_order
begin

lemma strict_bound:
  "compare_holds ops COMPARE_GREATERTHAN v c \<Longrightarrow> compare_holds ops COMPARE_GREATERTHANOREQUALTO v c"
  "compare_holds ops COMPARE_LESSTHAN v c \<Longrightarrow> compare_holds ops COMPARE_LESSTHANOREQUALTO v c"
  using gt_asym by (auto simp: ge_iff op_lt_def op_le_def)

end

lemmas strict_bounds = bool_order.strict_bound signed_order.strict_bound unsigned_order.strict_bound
  float_order.strict_bound double_order.strict_bound string_order.strict_bound

lemma typed_strict_bound:
  "typed_holds t COMPARE_GREATERTHAN v c = Some True \<Longrightarrow> typed_holds t COMPARE_GREATERTHANOREQUALTO v c = Some True"
  "typed_holds t COMPARE_LESSTHAN v c = Some True \<Longrightarrow> typed_holds t COMPARE_LESSTHANOREQUALTO v c = Some True"
  by (cases t; simp add: typed_holds_def strict_bounds del: compare_holds.simps)+

definition bounds_hold :: "LogicalType \<Rightarrow> Value \<Rightarrow> Value option \<times> Value option \<Rightarrow> bool" where
  "bounds_hold t v bounds \<longleftrightarrow>
     (\<forall>c. fst bounds = Some c \<longrightarrow> \<not> v_is_null v \<and> typed_holds (InternalType t) COMPARE_GREATERTHANOREQUALTO v c = Some True) \<and>
     (\<forall>c. snd bounds = Some c \<longrightarrow> \<not> v_is_null v \<and> typed_holds (InternalType t) COMPARE_LESSTHANOREQUALTO v c = Some True)"

lemma pending_bounds_hold:
  "list_all (\<lambda>f. filter_typed t f \<and> filter_holds ex f v) pending \<Longrightarrow> bounds_hold t v (lower, upper) \<Longrightarrow>
     bounds_hold t v (pending_bounds pending lower upper)"
proof (induction pending lower upper rule: pending_bounds.induct)
  case (2 fs pending lower upper)
  then show ?case by (auto simp: list_all_iff)
next
  case (3 cmp c pending lower upper)
  have c: "\<not> v_is_null v" if "cmp \<noteq> COMPARE_DISTINCT_FROM"
    using "3.prems"(1) that by (simp add: constant_holds_def split: if_split_asm)
  have holds: "typed_holds (InternalType t) cmp v c = Some True" if "cmp \<noteq> COMPARE_DISTINCT_FROM"
    using "3.prems"(1) c [OF that] by (auto simp: constant_holds_def)
  have lower: "bounds_hold t v (Some c, upper)" if "cmp \<in> {COMPARE_GREATERTHAN, COMPARE_GREATERTHANOREQUALTO}"
    using that c holds "3.prems"(2) typed_strict_bound(1) by (auto simp: bounds_hold_def)
  have upper: "bounds_hold t v (lower, Some c)" if "cmp \<in> {COMPARE_LESSTHAN, COMPARE_LESSTHANOREQUALTO}"
    using that c holds "3.prems"(2) typed_strict_bound(2) by (auto simp: bounds_hold_def)
  have rest: "list_all (\<lambda>f. filter_typed t f \<and> filter_holds ex f v) pending" using "3.prems"(1) by simp
  show ?case
    unfolding pending_bounds.simps using "3.IH" lower upper rest "3.prems"(2) by (simp del: insert_iff split: if_split)
qed simp_all

lemma range_skip_sound:
  assumes "range_skip hs hp f s skip = Inr True" "ptr_summarises hs hp (stats_type s) (additional_ptr (base s)) rows"
    and "filter_typed (stats_type s) f" "v \<in> set rows" "filter_holds ex f v"
  shows skip
proof (rule ccontr)
  assume "\<not> skip"
  then obtain lo hi ptr where r: "pending_bounds [f] None None = (Some lo, Some hi)" "deref hp (additional_ptr (base s)) = Inr ptr"
    "RangeQueryAdditionalStats hs ptr (InternalType (stats_type s)) lo hi = Inr FILTER_ALWAYS_FALSE"
    using assms(1) by (auto simp: range_skip_def Let_def bind_result_Inr_iff split: prod.splits option.splits if_splits)
  have "bounds_hold (stats_type s) v (Some lo, Some hi)"
    using pending_bounds_hold [of "stats_type s" ex v "[f]" None None] assms(3,5) r(1) by (simp add: bounds_hold_def)
  then have v: "\<not> v_is_null v" "typed_holds (InternalType (stats_type s)) COMPARE_GREATERTHANOREQUALTO v lo = Some True"
    "typed_holds (InternalType (stats_type s)) COMPARE_LESSTHANOREQUALTO v hi = Some True"
    by (simp_all add: bounds_hold_def)
  show False
  proof (cases "additional_ptr (base s) = 0")
    case True
    then show ?thesis using r(2,3) by (auto simp: deref_def dest: null_ptr_query(2))
  next
    case False
    then obtain p vals where "hp (additional_ptr (base s)) = Some p" "\<forall>v \<in> set rows. \<not> v_is_null v \<longrightarrow> v \<in> set vals"
      "ptr_describes hs (InternalType (stats_type s)) p vals"
      using assms(2) unfolding ptr_summarises_def by blast
    then have "ptr = Some p" "v \<in> set vals" "ptr_describes hs (InternalType (stats_type s)) p vals"
      using assms(4) r(2) v(1) False by (auto simp: deref_def)
    then have "ptr_describes hs (InternalType (stats_type s)) p vals" "v \<in> set vals"
      "RangeQueryAdditionalStats hs (Some p) (InternalType (stats_type s)) lo hi = Inr FILTER_ALWAYS_FALSE"
      using r(3) by simp_all
    from typed_range_false [OF this] show ?thesis using v by simp
  qed
qed

subsection \<open>The check of a row group is sound\<close>

text \<open>The columns of a row group, with what is needed of them, and the filters on them.\<close>

definition columns_ok :: "hashes \<Rightarrow> stats_heap \<Rightarrow> column_data list \<Rightarrow> bool" where
  "columns_ok hs hp columns \<longleftrightarrow>
     (\<forall>col \<in> set columns. stats_of (cd_type col) (cd_stats col) \<and> summarises hs hp (cd_stats col) (visible_rows col))"

definition entry_column :: "column_data list \<Rightarrow> scan_filter \<Rightarrow> column_data" where
  "entry_column columns e = columns ! table_column_index e"

definition entry_typed :: "column_data list \<Rightarrow> scan_filter \<Rightarrow> bool" where
  "entry_typed columns e \<longleftrightarrow> filter_typed (cd_type (entry_column columns e)) (table_filter e)"

text \<open>Two lists of filters that differ in the flags only.\<close>

definition same_filters :: "scan_filter list \<Rightarrow> scan_filter list \<Rightarrow> bool" where
  "same_filters es es' \<longleftrightarrow> map (always_true_update (\<lambda>_. False)) es' = map (always_true_update (\<lambda>_. False)) es"

text \<open>The flags agree: a column has one filter, is filtered when the filter is not always true,
  and the number of always true filters is kept.\<close>

definition flags_agree :: "scan_filter_info \<Rightarrow> bool" where
  "flags_agree info \<longleftrightarrow>
     table_filters_set info \<and> distinct (map scan_column_index (filter_list info)) \<and>
     length (base_column_has_filter info) = length (column_has_filter info) \<and>
     (\<forall>e \<in> set (filter_list info). scan_column_index e < length (column_has_filter info)) \<and>
     always_true_filters info = length (filter always_true (filter_list info)) \<and>
     (\<forall>c < length (column_has_filter info).
        (base_column_has_filter info ! c \<longleftrightarrow> c \<in> set (map scan_column_index (filter_list info))) \<and>
        (column_has_filter info ! c \<longleftrightarrow> c \<in> set (map scan_column_index (filter (\<lambda>e. \<not> always_true e) (filter_list info)))))"

lemma same_filters_refl [simp]: "same_filters es es"
  by (simp add: same_filters_def)

lemma same_filters_trans: "same_filters a b \<Longrightarrow> same_filters b c \<Longrightarrow> same_filters a c"
  by (auto simp: same_filters_def)

lemma same_filters_reset [simp]: "same_filters es (map (\<lambda>f. f\<lparr>always_true := False\<rparr>) es)"
  by (simp add: same_filters_def)

lemma same_filters_fields:
  assumes "same_filters es es'"
  shows "map scan_column_index es' = map scan_column_index es" "map table_column_index es' = map table_column_index es"
    "map table_filter es' = map table_filter es" "length es' = length es"
proof -
  have fields: "map f es' = map f es" if "\<And>e. f (e\<lparr>always_true := False\<rparr>) = f e" for f :: "scan_filter \<Rightarrow> 'c"
  proof -
    have "map f xs = map f (map (always_true_update (\<lambda>_. False)) xs)" for xs using that by simp
    then show ?thesis using assms unfolding same_filters_def by metis
  qed
  show "map scan_column_index es' = map scan_column_index es" "map table_column_index es' = map table_column_index es"
    "map table_filter es' = map table_filter es"
    by (rule fields, simp)+
  then show "length es' = length es" by (metis length_map)
qed

lemma CheckAllFilters_flags:
  assumes "flags_agree info"
  shows "flags_agree (CheckAllFilters info)" "same_filters (filter_list info) (filter_list (CheckAllFilters info))"
    "\<forall>e \<in> set (filter_list (CheckAllFilters info)). \<not> always_true e"
proof -
  let ?es = "filter_list (CheckAllFilters info)"
  show "same_filters (filter_list info) ?es" and all: "\<forall>e \<in> set ?es. \<not> always_true e" by (simp_all add: CheckAllFilters_def)
  have "filter (\<lambda>e. \<not> always_true e) ?es = ?es" "filter always_true ?es = []" using all by (auto simp: filter_empty_conv filter_id_conv)
  moreover have "scan_column_index ` set ?es = scan_column_index ` set (filter_list info)"
    "map scan_column_index ?es = map scan_column_index (filter_list info)"
    by (simp_all add: CheckAllFilters_def image_image)
  moreover have "column_has_filter (CheckAllFilters info) = base_column_has_filter info"
    "base_column_has_filter (CheckAllFilters info) = base_column_has_filter info"
    "always_true_filters (CheckAllFilters info) = 0" "table_filters_set (CheckAllFilters info) = table_filters_set info"
    using assms by (auto simp: CheckAllFilters_def flags_agree_def intro: nth_equalityI)
  moreover have "scan_column_index e < length (base_column_has_filter info)" if "e \<in> set ?es" for e
    using that assms by (auto simp: CheckAllFilters_def flags_agree_def)
  ultimately show "flags_agree (CheckAllFilters info)"
    using assms by (simp add: flags_agree_def)
qed

lemma SetFilterAlwaysTrue_flags:
  assumes "SetFilterAlwaysTrue i info = Inr info'" "flags_agree info"
  shows "flags_agree info' \<and> same_filters (filter_list info) (filter_list info') \<and>
    (\<forall>e \<in> set (filter_list info'). always_true e \<longrightarrow>
       e = (filter_list info ! i)\<lparr>always_true := True\<rparr> \<or> e \<in> set (filter_list info)) \<and>
    (\<forall>j. always_true (filter_list info ! j) \<longrightarrow> always_true (filter_list info' ! j)) \<and>
    always_true (filter_list info' ! i)"
proof (cases "always_true (filter_list info ! i)")
  case True
  then show ?thesis using assms by (auto simp: SetFilterAlwaysTrue_def split: if_splits)
next
  case False
  define es where "es = filter_list info"
  define e where "e = es ! i"
  have i: "i < length es" using assms(1) by (simp add: SetFilterAlwaysTrue_def es_def split: if_splits)
  then obtain pre post where split: "es = pre @ e # post" "length pre = i"
    using id_take_nth_drop [OF i] unfolding e_def by (metis length_take min.absorb2 less_imp_le)
  have info': "info' = info\<lparr>filter_list := pre @ e\<lparr>always_true := True\<rparr> # post,
      column_has_filter := (column_has_filter info)[scan_column_index e := False],
      always_true_filters := always_true_filters info + 1\<rparr>"
    using assms(1) False i split by (auto simp: SetFilterAlwaysTrue_def Let_def es_def [symmetric] e_def [symmetric] split: if_splits)
  have e: "\<not> always_true e" using False by (simp add: e_def es_def)
  have old: "flags_agree info" "filter_list info = pre @ e # post" using assms(2) split by (simp_all add: es_def)
  have others: "scan_column_index e \<notin> set (map scan_column_index (filter (\<lambda>e. \<not> always_true e) (pre @ post)))"
    using old by (auto simp: flags_agree_def)
  have "flags_agree info'"
    using old(1) others e unfolding flags_agree_def old(2) info' by (auto simp: nth_list_update)
  moreover have "same_filters es (filter_list info')" by (simp add: same_filters_def info' split(1))
  moreover have "filter_list info ! i = e" by (simp add: e_def es_def)
  moreover have "filter_list info' = es[i := e\<lparr>always_true := True\<rparr>]"
    unfolding info' split(1) using split(2) by (simp add: list_update_append)
  moreover have "set (filter_list info') \<subseteq> insert (e\<lparr>always_true := True\<rparr>) (set es)" by (auto simp: info' split(1))
  moreover have "always_true (es[i := e\<lparr>always_true := True\<rparr>] ! j)" if "always_true (es ! j)" for j
    using that i by (cases "j = i") (simp_all add: nth_list_update)
  ultimately show ?thesis using i by (auto simp: es_def [symmetric])
qed

lemma same_filters_nth:
  assumes "same_filters es es'" "i < length es"
  shows "scan_column_index (es' ! i) = scan_column_index (es ! i)" "table_column_index (es' ! i) = table_column_index (es ! i)"
    "table_filter (es' ! i) = table_filter (es ! i)"
  using same_filters_fields [OF assms(1)] assms(2) by (metis nth_map)+

definition entry_refuted :: "(nat \<Rightarrow> Value \<Rightarrow> bool) \<Rightarrow> column_data list \<Rightarrow> scan_filter \<Rightarrow> bool" where
  "entry_refuted ex columns e \<longleftrightarrow> (\<forall>v \<in> set (visible_rows (entry_column columns e)). \<not> filter_holds ex (table_filter e) v)"

definition entry_implied :: "(nat \<Rightarrow> Value \<Rightarrow> bool) \<Rightarrow> column_data list \<Rightarrow> scan_filter \<Rightarrow> bool" where
  "entry_implied ex columns e \<longleftrightarrow>
     is_optional (table_filter e) \<or> (\<forall>v \<in> set (visible_rows (entry_column columns e)). filter_holds ex (table_filter e) v)"

lemma entry_fields:
  assumes "table_column_index e' = table_column_index e" "table_filter e' = table_filter e"
  shows "entry_column columns e' = entry_column columns e" "entry_typed columns e' = entry_typed columns e"
    "entry_refuted ex columns e' = entry_refuted ex columns e" "entry_implied ex columns e' = entry_implied ex columns e"
  using assms by (simp_all add: entry_column_def entry_typed_def entry_refuted_def entry_implied_def)

lemma column_answer_entry:
  assumes "columns_ok hs hp columns" "table_column_index e < length columns" "entry_typed columns e"
    and "column_CheckZonemap hs hp (table_filter e) (entry_column columns e) = Inr r"
  shows "r = FILTER_ALWAYS_FALSE \<Longrightarrow> entry_refuted ex columns e" "r = FILTER_ALWAYS_TRUE \<Longrightarrow> entry_implied ex columns e"
proof -
  let ?col = "entry_column columns e"
  have col: "stats_of (cd_type ?col) (cd_stats ?col)" "summarises hs hp (cd_stats ?col) (visible_rows ?col)"
    using assms(1,2) by (simp_all add: columns_ok_def entry_column_def)
  have "answer_ok r (filter_holds ex (table_filter e)) (visible_rows ?col)" if "r \<noteq> NO_PRUNING_POSSIBLE"
    using column_CheckZonemap_answer [OF assms(4)] that col assms(3)
      CheckStatistics_sound(1) [of hs hp "table_filter e" "cd_stats ?col" r "visible_rows ?col" ex]
    by (simp add: stats_of_def entry_typed_def)
  then show "r = FILTER_ALWAYS_FALSE \<Longrightarrow> entry_refuted ex columns e" "r = FILTER_ALWAYS_TRUE \<Longrightarrow> entry_implied ex columns e"
    by (simp_all add: answer_ok_def entry_refuted_def entry_implied_def)
qed

lemma range_skip_entry:
  assumes "columns_ok hs hp columns" "table_column_index e < length columns" "entry_typed columns e"
    and "range_skip hs hp (table_filter e) (cd_stats (entry_column columns e)) skip = Inr True" "\<not> skip"
  shows "entry_refuted ex columns e"
proof -
  let ?col = "entry_column columns e"
  have "stats_of (cd_type ?col) (cd_stats ?col)" "summarises hs hp (cd_stats ?col) (visible_rows ?col)"
    using assms(1,2) by (simp_all add: columns_ok_def entry_column_def)
  then have "ptr_summarises hs hp (stats_type (cd_stats ?col)) (additional_ptr (base (cd_stats ?col))) (visible_rows ?col)"
    "filter_typed (stats_type (cd_stats ?col)) (table_filter e)"
    using assms(3) by (cases "cd_stats ?col"; simp add: summarises.simps stats_of_def entry_typed_def)+
  then show ?thesis using range_skip_sound [OF assms(4)] assms(5) by (auto simp: entry_refuted_def)
qed

lemma check_entries_sound:
  assumes cols: "columns_ok hs hp columns" and typed: "list_all (entry_typed columns) es"
  shows "check_entries hs hp columns is info skip = Inr (scan, info') \<Longrightarrow> set is \<subseteq> {..<length es} \<Longrightarrow>
     flags_agree info \<Longrightarrow> same_filters es (filter_list info) \<Longrightarrow>
     list_all (\<lambda>e. always_true e \<longrightarrow> entry_implied ex columns e) (filter_list info) \<Longrightarrow>
     (skip \<longrightarrow> (\<exists>e \<in> set es. entry_refuted ex columns e)) \<Longrightarrow>
     flags_agree info' \<and> same_filters es (filter_list info') \<and>
     list_all (\<lambda>e. always_true e \<longrightarrow> entry_implied ex columns e) (filter_list info') \<and>
     (\<not> scan \<longrightarrow> (\<exists>e \<in> set es. entry_refuted ex columns e)) \<and>
     (\<forall>j. always_true (filter_list info ! j) \<longrightarrow> always_true (filter_list info' ! j)) \<and>
     (scan \<longrightarrow> (\<forall>i \<in> set is. is_optional (table_filter (es ! i)) \<longrightarrow> always_true (filter_list info' ! i)))"
proof (induction "is" arbitrary: info skip)
  case Nil
  then show ?case by auto
next
  case (Cons i "is")
  let ?e = "filter_list info ! i"
  have i: "i < length es" "i < length (filter_list info)"
    using Cons.prems(2) same_filters_fields(4) [OF Cons.prems(4)] by auto
  note fields = entry_fields [OF same_filters_nth(2,3) [OF Cons.prems(4) i(1)]]
  have e: "entry_typed columns ?e" using typed i(1) fields(2) by (auto simp: list_all_length)
  have refuted: "\<exists>e \<in> set es. entry_refuted ex columns e" if "entry_refuted ex columns ?e"
    using that i(1) fields(3) nth_mem by metis
  obtain prune_result where len: "table_column_index ?e < length columns"
    and prune: "column_CheckZonemap hs hp (table_filter ?e) (entry_column columns ?e) = Inr prune_result"
    and rest: "(if prune_result = FILTER_ALWAYS_FALSE then Inr (False, info)
       else bind_result (if is_optional (table_filter ?e) then SetFilterAlwaysTrue i info
                         else if prune_result = FILTER_ALWAYS_TRUE then SetFilterAlwaysTrue i info else Inr info) (\<lambda>info.
            bind_result (range_skip hs hp (table_filter ?e) (cd_stats (entry_column columns ?e)) skip)
              (check_entries hs hp columns is info))) = Inr (scan, info')"
    using Cons.prems(1) by (auto simp: Let_def bind_result_Inr_iff GetColumn_def entry_column_def split: if_splits)
  note answer = column_answer_entry [OF cols len e prune, of ex]
  show ?case
  proof (cases "prune_result = FILTER_ALWAYS_FALSE")
    case True
    then show ?thesis using rest Cons.prems answer(1) refuted by auto
  next
    case False
    then obtain info1 skip1 where
      info1: "(if is_optional (table_filter ?e) \<or> prune_result = FILTER_ALWAYS_TRUE then SetFilterAlwaysTrue i info else Inr info) = Inr info1"
      and skip1: "range_skip hs hp (table_filter ?e) (cd_stats (entry_column columns ?e)) skip = Inr skip1"
      and entries: "check_entries hs hp columns is info1 skip1 = Inr (scan, info')"
      using rest by (auto simp: bind_result_Inr_iff split: if_splits)
    have step: "flags_agree info1 \<and> same_filters es (filter_list info1) \<and>
        list_all (\<lambda>e. always_true e \<longrightarrow> entry_implied ex columns e) (filter_list info1) \<and>
        (\<forall>j. always_true (filter_list info ! j) \<longrightarrow> always_true (filter_list info1 ! j)) \<and>
        (is_optional (table_filter ?e) \<longrightarrow> always_true (filter_list info1 ! i))"
    proof (cases "is_optional (table_filter ?e) \<or> prune_result = FILTER_ALWAYS_TRUE")
      case True
      then have "entry_implied ex columns ?e" using answer(2) by (auto simp: entry_implied_def)
      then have "entry_implied ex columns (?e\<lparr>always_true := True\<rparr>)" by (simp add: entry_implied_def entry_column_def)
      moreover have "SetFilterAlwaysTrue i info = Inr info1" using info1 True by simp
      note flags = SetFilterAlwaysTrue_flags [OF this Cons.prems(3)]
      ultimately show ?thesis
        using flags same_filters_trans [OF Cons.prems(4)] Cons.prems(5) by (auto simp: list_all_iff)
    next
      case False
      then show ?thesis using info1 Cons.prems by auto
    qed
    have "skip1 \<longrightarrow> (\<exists>e \<in> set es. entry_refuted ex columns e)"
      using range_skip_entry [OF cols len e, of skip ex] skip1 refuted Cons.prems(6) by (cases skip) auto
    then show ?thesis
      using Cons.IH [OF entries] Cons.prems(2) step fields same_filters_nth(3) [OF Cons.prems(4) i(1)] by auto
  qed
qed

lemma ScanFilterInfo_Initialize_flags:
  assumes "distinct (map fst filters)" "\<forall>f \<in> set filters. fst f < length column_ids"
  shows "\<exists>info. ScanFilterInfo_Initialize filters column_ids = Inr info \<and> flags_agree info \<and>
    filter_list info = map (\<lambda>(index, f). \<lparr>scan_column_index = index, table_column_index = column_ids ! index,
      table_filter = f, always_true = False\<rparr>) filters \<and> length (column_has_filter info) = length column_ids"
proof -
  let ?entry = "\<lambda>(index, f). \<lparr>scan_column_index = index, table_column_index = column_ids ! index,
      table_filter = f, always_true = False\<rparr>"
  let ?has = "map (\<lambda>col_idx. \<exists>f \<in> set filters. fst f = col_idx) [0..<length column_ids]"
  let ?info = "\<lparr>table_filters_set = True, filter_list = map ?entry filters, column_has_filter = ?has,
      base_column_has_filter = ?has, always_true_filters = 0\<rparr>"
  have "ScanFilterInfo_Initialize filters column_ids = Inr ?info"
    unfolding ScanFilterInfo_Initialize_def
    by (subst map_result_Inr [where g = ?entry]) (use assms(2) in \<open>auto simp: Let_def split: prod.splits\<close>)
  moreover have "map scan_column_index (map ?entry filters) = map fst filters" by auto
  moreover have "filter (\<lambda>e. \<not> always_true e) (map ?entry filters) = map ?entry filters" "filter always_true (map ?entry filters) = []"
    by (auto simp: filter_id_conv filter_empty_conv)
  moreover have "(\<exists>f \<in> set filters. fst f = c) \<longleftrightarrow> c \<in> set (map scan_column_index (map ?entry filters))" for c
    unfolding \<open>map scan_column_index (map ?entry filters) = map fst filters\<close> by force
  moreover have "scan_column_index e < length column_ids" if "e \<in> set (map ?entry filters)" for e
    using that assms(2) by auto
  ultimately have "flags_agree ?info"
    using assms(1) by (simp add: flags_agree_def del: map_map set_map list.set_map)
  then show ?thesis using \<open>ScanFilterInfo_Initialize filters column_ids = Inr ?info\<close> by simp
qed

lemma RowGroup_CheckZonemap_sound:
  assumes "columns_ok hs hp columns" "list_all (entry_typed columns) (filter_list info)" "flags_agree info"
    and "RowGroup_CheckZonemap hs hp columns info = Inr (scan, info')"
  shows "flags_agree info'" "same_filters (filter_list info) (filter_list info')"
    "list_all (\<lambda>e. always_true e \<longrightarrow> entry_implied ex columns e) (filter_list info')"
    "\<not> scan \<Longrightarrow> \<exists>e \<in> set (filter_list info). entry_refuted ex columns e"
    "scan \<Longrightarrow> list_all (\<lambda>e. is_optional (table_filter e) \<longrightarrow> always_true e) (filter_list info')"
proof -
  note flags = CheckAllFilters_flags [OF assms(3)]
  have entries: "check_entries hs hp columns [0..<length (filter_list info)] (CheckAllFilters info) False = Inr (scan, info')"
    using assms(4) same_filters_fields(4) [OF flags(2)] by (simp add: RowGroup_CheckZonemap_def Let_def)
  have "set [0..<length (filter_list info)] \<subseteq> {..<length (filter_list info)}" by auto
  note sound = check_entries_sound [OF assms(1,2) entries this flags(1,2), of ex]
  have all: "list_all (\<lambda>e. always_true e \<longrightarrow> entry_implied ex columns e) (filter_list (CheckAllFilters info))"
    using flags(3) by (simp add: list_all_iff)
  note s = sound [OF all, simplified]
  show "flags_agree info'" and same: "same_filters (filter_list info) (filter_list info')"
    and "list_all (\<lambda>e. always_true e \<longrightarrow> entry_implied ex columns e) (filter_list info')"
    using s by simp_all
  show "\<not> scan \<Longrightarrow> \<exists>e \<in> set (filter_list info). entry_refuted ex columns e" using s by simp
  show "list_all (\<lambda>e. is_optional (table_filter e) \<longrightarrow> always_true e) (filter_list info')" if scan
    using s that same_filters_nth(3) [OF same] same_filters_fields(4) [OF same]
    by (auto simp: list_all_length)
qed

subsection \<open>Filtering a vector\<close>

text \<open>
  One round of \<open>TemplatedScan\<close> for a vector that is not skipped: the filters in the order of
  the permutation narrow the selection, the columns they scan are kept in the result and sliced
  at the end, the other columns are scanned and sliced. The vector of a column is what its scan
  returns; a vector without rows to show gives no chunk.
\<close>

fun filter_loop ::
  "(nat \<Rightarrow> Value \<Rightarrow> bool) \<Rightarrow> (nat \<Rightarrow> LogicalType) \<Rightarrow> (nat \<Rightarrow> Value list) \<Rightarrow> scan_filter list \<Rightarrow> nat list \<Rightarrow>
   nat list \<Rightarrow> Value list list \<Rightarrow> (nat list \<times> Value list list) result" where
  "filter_loop ex types vectors entries [] sel data = Inr (sel, data)"
| "filter_loop ex types vectors entries (i # permutation) sel data =
     (let entry = entries ! i; column_idx = table_column_index entry
      in if always_true entry then filter_loop ex types vectors entries permutation sel data
         else if sel = [] then filter_loop ex types vectors entries permutation sel data
         else bind_result (FilterSelection ex (types column_idx) (vectors column_idx) (table_filter entry) sel) (\<lambda>(s, n).
           if n \<le> length s
           then filter_loop ex types vectors entries permutation (take n s) (data[scan_column_index entry := vectors column_idx])
           else Inl OutOfBounds))"

definition slice_column :: "nat list \<Rightarrow> Value list \<Rightarrow> Value list" where
  "slice_column sel v = map (\<lambda>i. v ! i) sel"

definition slice_filtered :: "scan_filter list \<Rightarrow> nat list \<Rightarrow> Value list list \<Rightarrow> Value list list" where
  "slice_filtered entries sel data =
     fold (\<lambda>entry data. if always_true entry then data
                        else data[scan_column_index entry := slice_column sel (data ! scan_column_index entry)]) entries data"

definition scan_vector ::
  "(nat \<Rightarrow> Value \<Rightarrow> bool) \<Rightarrow> (nat \<Rightarrow> LogicalType) \<Rightarrow> (nat \<Rightarrow> Value list) \<Rightarrow> nat list \<Rightarrow> nat list \<Rightarrow> scan_filter_info \<Rightarrow>
   nat list \<Rightarrow> nat \<Rightarrow> Value list list option result" where
  "scan_vector ex types vectors column_ids permutation filter_info valid_sel max_count =
     (if valid_sel = [] then Inr None
      else let has_filters = HasFilters filter_info
      in if length valid_sel = max_count \<and> \<not> has_filters then Inr (Some (map vectors column_ids))
      else let sel = (if length valid_sel \<noteq> max_count then valid_sel else [0..<max_count]);
               data = replicate (length column_ids) []
      in bind_result (if has_filters then filter_loop ex types vectors (filter_list filter_info) permutation sel data
                      else Inr (sel, data)) (\<lambda>(sel, data).
           let data = (if has_filters then slice_filtered (filter_list filter_info) sel data else data)
           in if sel = [] then Inr None
              else Inr (Some (map (\<lambda>i. if has_filters \<and> ColumnHasFilters i filter_info then data ! i
                                       else slice_column sel (vectors (column_ids ! i))) [0..<length column_ids]))))"

subsection \<open>A filtered vector holds the rows that pass\<close>

definition entry_selects :: "(nat \<Rightarrow> Value \<Rightarrow> bool) \<Rightarrow> (nat \<Rightarrow> Value list) \<Rightarrow> scan_filter \<Rightarrow> nat \<Rightarrow> bool" where
  "entry_selects ex vectors e i = selects ex (table_filter e) (vectors (table_column_index e) ! i)"

definition entry_runnable :: "(nat \<Rightarrow> LogicalType) \<Rightarrow> (nat \<Rightarrow> Value list) \<Rightarrow> nat \<Rightarrow> scan_filter \<Rightarrow> bool" where
  "entry_runnable types vectors n e \<longleftrightarrow>
     runnable (types (table_column_index e)) (table_filter e) \<and> no_optional_result (table_filter e) \<and>
     length (vectors (table_column_index e)) = n"

lemma filter_loop_narrows:
  "\<forall>i \<in> set permutation. \<not> always_true (es ! i) \<longrightarrow> entry_runnable types vectors n (es ! i) \<Longrightarrow> n \<le> STANDARD_VECTOR_SIZE \<Longrightarrow>
   distinct (map (\<lambda>i. scan_column_index (es ! i)) permutation) \<Longrightarrow>
   \<forall>i \<in> set permutation. scan_column_index (es ! i) < length data \<Longrightarrow>
   distinct sel \<Longrightarrow> set sel \<subseteq> {..<n} \<Longrightarrow>
   \<exists>sel' data'. filter_loop ex types vectors es permutation sel data = Inr (sel', data') \<and>
     narrows sel (\<lambda>j. \<forall>i \<in> set permutation. \<not> always_true (es ! i) \<longrightarrow> entry_selects ex vectors (es ! i) j) sel' \<and>
     length data' = length data \<and>
     (sel' \<noteq> [] \<longrightarrow> (\<forall>i \<in> set permutation. \<not> always_true (es ! i) \<longrightarrow>
        data' ! scan_column_index (es ! i) = vectors (table_column_index (es ! i)))) \<and>
     (\<forall>c. (\<forall>i \<in> set permutation. c \<noteq> scan_column_index (es ! i)) \<longrightarrow> data' ! c = data ! c)"
proof (induction permutation arbitrary: sel data)
  case Nil
  then show ?case by (auto simp: narrows_def)
next
  case (Cons i permutation)
  let ?e = "es ! i"
  consider (skip) "always_true ?e" | (empty) "\<not> always_true ?e" "sel = []" | (run) "\<not> always_true ?e" "sel \<noteq> []" by blast
  then show ?case
  proof cases
    case skip
    then show ?thesis using Cons.IH [of data sel] Cons.prems by auto
  next
    case empty
    then show ?thesis using Cons.IH [of data sel] Cons.prems by (auto simp: narrows_def)
  next
    case run
    have e: "runnable (types (table_column_index ?e)) (table_filter ?e)" "no_optional_result (table_filter ?e)"
      "length (vectors (table_column_index ?e)) = n"
      using Cons.prems(1) run(1) by (simp_all add: entry_runnable_def)
    obtain s where s: "FilterSelection ex (types (table_column_index ?e)) (vectors (table_column_index ?e)) (table_filter ?e) sel = Inr (s, length s)"
      "narrows sel (\<lambda>j. entry_selects ex vectors ?e j) s"
      using FilterSelection_narrows(1) [OF e(1) Cons.prems(5), of "vectors (table_column_index ?e)" ex] e Cons.prems(2,6)
      by (auto simp: entry_selects_def)
    have "distinct s" "set s \<subseteq> {..<n}" using s(2) Cons.prems(6) by (auto simp: narrows_def)
    then obtain sel' data' where
      rest: "filter_loop ex types vectors es permutation s (data[scan_column_index ?e := vectors (table_column_index ?e)]) = Inr (sel', data')"
      and n: "narrows s (\<lambda>j. \<forall>i \<in> set permutation. \<not> always_true (es ! i) \<longrightarrow> entry_selects ex vectors (es ! i) j) sel'"
      and d: "length data' = length data" "sel' \<noteq> [] \<longrightarrow> (\<forall>i \<in> set permutation. \<not> always_true (es ! i) \<longrightarrow>
        data' ! scan_column_index (es ! i) = vectors (table_column_index (es ! i)))"
        "\<forall>c. (\<forall>i \<in> set permutation. c \<noteq> scan_column_index (es ! i)) \<longrightarrow>
           data' ! c = data[scan_column_index ?e := vectors (table_column_index ?e)] ! c"
      using Cons.IH [of "data[scan_column_index ?e := vectors (table_column_index ?e)]" s] Cons.prems by auto
    have "data' ! scan_column_index ?e = vectors (table_column_index ?e)"
      using d(3) Cons.prems(3,4) by (force simp: image_iff)
    moreover have "narrows sel (\<lambda>j. \<forall>i \<in> set (i # permutation). \<not> always_true (es ! i) \<longrightarrow> entry_selects ex vectors (es ! i) j) sel'"
      using narrows_trans [OF s(2) n] run(1) by simp
    ultimately show ?thesis using s(1) rest run d by (auto simp: Let_def)
  qed
qed

lemma slice_filtered_nth:
  "distinct (map scan_column_index es) \<Longrightarrow> \<forall>e \<in> set es. scan_column_index e < length data \<Longrightarrow>
     length (slice_filtered es sel data) = length data \<and>
     (\<forall>c < length data. slice_filtered es sel data ! c =
       (if c \<in> set (map scan_column_index (filter (\<lambda>e. \<not> always_true e) es)) then slice_column sel (data ! c) else data ! c))"
proof (induction es arbitrary: data)
  case Nil
  then show ?case by (simp add: slice_filtered_def)
next
  case (Cons e es)
  let ?data = "if always_true e then data else data[scan_column_index e := slice_column sel (data ! scan_column_index e)]"
  have "slice_filtered (e # es) sel data = slice_filtered es sel ?data" by (simp add: slice_filtered_def)
  then show ?case
    using Cons.IH [of ?data] Cons.prems by (auto simp: nth_list_update)
qed

lemma scan_vector_narrows:
  assumes info: "flags_agree info" "length (column_has_filter info) = length column_ids"
    and table: "\<forall>e \<in> set (filter_list info). table_column_index e = column_ids ! scan_column_index e"
    and run: "\<forall>e \<in> set (filter_list info). \<not> always_true e \<longrightarrow> entry_runnable types vectors n e" "n \<le> STANDARD_VECTOR_SIZE"
    and lengths: "\<forall>c \<in> set column_ids. length (vectors c) = n"
    and perm: "distinct permutation" "set permutation = {..<length (filter_list info)}"
    and sel: "distinct valid_sel" "set valid_sel \<subseteq> {..<n}"
  shows "\<exists>sel. narrows valid_sel (\<lambda>j. \<forall>e \<in> set (filter_list info). \<not> always_true e \<longrightarrow> entry_selects ex vectors e j) sel \<and>
    scan_vector ex types vectors column_ids permutation info valid_sel n =
      Inr (if sel = [] then None else Some (map (\<lambda>c. slice_column sel (vectors c)) column_ids))"
proof -
  let ?es = "filter_list info"
  let ?passes = "\<lambda>j. \<forall>e \<in> set ?es. \<not> always_true e \<longrightarrow> entry_selects ex vectors e j"
  have has: "HasFilters info \<longleftrightarrow> (\<exists>e \<in> set ?es. \<not> always_true e)"
  proof -
    have "HasFilters info \<longleftrightarrow> length (filter always_true ?es) < length ?es"
      using info(1) by (simp add: HasFilters_def flags_agree_def)
    then show ?thesis by (metis length_filter_less less_irrefl filter_True)
  qed
  define sel where "sel = (if length valid_sel \<noteq> n then valid_sel else [0..<n])"
  have full: "set valid_sel = {..<n}" if "length valid_sel = n"
    by (rule card_subset_eq [OF finite_lessThan sel(2)]) (simp add: distinct_card [OF sel(1)] that)
  have sel': "distinct sel" "set sel = set valid_sel" "sel = [] \<longleftrightarrow> valid_sel = []"
  proof -
    have "[0..<n] = [] \<longleftrightarrow> valid_sel = []" if "length valid_sel = n" using that by auto
    moreover have "set valid_sel = set [0..<n]" if "length valid_sel = n"
      using full [OF that] by (simp add: atLeast0LessThan)
    ultimately show "distinct sel" "set sel = set valid_sel" "sel = [] \<longleftrightarrow> valid_sel = []"
      using sel(1) unfolding sel_def by (simp_all split: if_split)
  qed
  consider (none) "valid_sel = []" | (all) "valid_sel \<noteq> []" "length valid_sel = n" "\<not> HasFilters info"
    | (part) "valid_sel \<noteq> []" "\<not> HasFilters info" "length valid_sel \<noteq> n" | (filters) "valid_sel \<noteq> []" "HasFilters info"
    by blast
  then show ?thesis
  proof cases
    case none
    then show ?thesis by (intro exI [of _ "[]"]) (simp add: scan_vector_def narrows_def)
  next
    case all
    have "slice_column [0..<n] (vectors c) = vectors c" if "c \<in> set column_ids" for c
      using lengths that map_nth [of "vectors c"] by (simp add: slice_column_def)
    then have "map vectors column_ids = map (\<lambda>c. slice_column sel (vectors c)) column_ids" "sel = [0..<n]"
      using all(2) by (simp_all add: sel_def)
    moreover have "narrows valid_sel ?passes sel" using all(3) has sel' by (auto simp: narrows_def)
    moreover have "scan_vector ex types vectors column_ids permutation info valid_sel n = Inr (Some (map vectors column_ids))"
      using all by (simp add: scan_vector_def)
    ultimately show ?thesis using all(1) sel'(3) by (intro exI [of _ sel]) simp
  next
    case part
    then have "scan_vector ex types vectors column_ids permutation info valid_sel n =
        Inr (Some (map (\<lambda>i. slice_column valid_sel (vectors (column_ids ! i))) [0..<length column_ids]))"
      by (simp add: scan_vector_def Let_def)
    moreover have "map (\<lambda>i. slice_column valid_sel (vectors (column_ids ! i))) [0..<length column_ids] =
        map (\<lambda>c. slice_column valid_sel (vectors c)) column_ids"
      by (rule nth_equalityI) simp_all
    moreover have "narrows valid_sel ?passes valid_sel" using part(2) has sel(1) by (auto simp: narrows_def)
    ultimately show ?thesis using part(1) by (intro exI [of _ valid_sel]) simp
  next
    case filters
    let ?data = "replicate (length column_ids) ([] :: Value list)"
    have idx: "distinct (map scan_column_index ?es)" "\<forall>e \<in> set ?es. scan_column_index e < length column_ids"
      using info by (auto simp: flags_agree_def)
    have dist: "distinct (map (\<lambda>i. scan_column_index (?es ! i)) permutation)"
    proof -
      have "inj_on (\<lambda>i. scan_column_index (?es ! i)) {..<length ?es}"
        using nth_eq_iff_index_eq [OF idx(1)] by (auto simp: inj_on_def)
      then show ?thesis using perm by (simp add: distinct_map)
    qed
    obtain s data where loop: "filter_loop ex types vectors ?es permutation sel ?data = Inr (s, data)"
      and n: "narrows sel (\<lambda>j. \<forall>i \<in> set permutation. \<not> always_true (?es ! i) \<longrightarrow> entry_selects ex vectors (?es ! i) j) s"
      and d: "length data = length column_ids" "s \<noteq> [] \<longrightarrow> (\<forall>i \<in> set permutation. \<not> always_true (?es ! i) \<longrightarrow>
        data ! scan_column_index (?es ! i) = vectors (table_column_index (?es ! i)))"
      using filter_loop_narrows [of permutation ?es types vectors n ?data sel ex] dist idx(2) perm(2) run sel(2) sel' by auto
    have "narrows valid_sel ?passes s"
      using n perm(2) sel'(2) by (auto simp: narrows_def in_set_conv_nth all_set_conv_all_nth)
    moreover have "map (\<lambda>i. if HasFilters info \<and> ColumnHasFilters i info then slice_filtered ?es s data ! i
        else slice_column s (vectors (column_ids ! i))) [0..<length column_ids] = map (\<lambda>c. slice_column s (vectors c)) column_ids"
      if "s \<noteq> []"
    proof (rule nth_equalityI, simp, simp, intro impI)
      fix c assume c: "c < length column_ids" and has: "HasFilters info \<and> ColumnHasFilters c info"
      then have active: "c \<in> set (map scan_column_index (filter (\<lambda>e. \<not> always_true e) ?es))"
        using info by (simp add: ColumnHasFilters_def flags_agree_def)
      then obtain i where "i < length ?es" "\<not> always_true (?es ! i)" "c = scan_column_index (?es ! i)"
        by (auto simp: in_set_conv_nth)
      then have "data ! c = vectors (column_ids ! c)" using d(2) that perm(2) table by auto
      then show "slice_filtered ?es s data ! c = slice_column s (vectors (column_ids ! c))"
        using slice_filtered_nth [OF idx(1), of data s] idx(2) d(1) c active by simp
    qed
    ultimately show ?thesis
      using filters loop by (intro exI [of _ s]) (auto simp: scan_vector_def Let_def sel_def [symmetric])
  qed
qed

lemma SetFilterAlwaysTrue_length:
  "SetFilterAlwaysTrue i info = Inr info' \<Longrightarrow> length (column_has_filter info') = length (column_has_filter info)"
  by (auto simp: SetFilterAlwaysTrue_def Let_def split: if_splits)

lemma check_entries_length:
  "check_entries hs hp columns is info skip = Inr (scan, info') \<Longrightarrow> length (column_has_filter info') = length (column_has_filter info)"
proof (induction "is" arbitrary: info skip)
  case (Cons i "is")
  then show ?case by (auto simp: Let_def bind_result_Inr_iff dest: SetFilterAlwaysTrue_length split: if_splits)
qed simp

lemma RowGroup_CheckZonemap_length:
  "RowGroup_CheckZonemap hs hp columns info = Inr (scan, info') \<Longrightarrow> length (column_has_filter info') = length (column_has_filter info)"
  by (auto simp: RowGroup_CheckZonemap_def Let_def CheckAllFilters_def dest: check_entries_length)

subsection \<open>Properties\<close>

text \<open>The filters of a scan of columns whose life the step relation describes.\<close>

definition reachable_column :: "hashes \<Rightarrow> stats_heap \<Rightarrow> column_data \<Rightarrow> bool" where
  "reachable_column hs hp col \<longleftrightarrow>
     (\<exists>conf n i c b t start. column_reachable hs conf n i c b t start (hp, col) \<and>
        (supports_stats (InternalType t) \<or> InternalType t = PT_INTERVAL))"

lemma int_reachable_column:
  "reachable_column hs ((\<lambda>_. None)(1 \<mapsto> int_statistic [5, 7])) (int_column 1 no_temp_vectors)"
  unfolding reachable_column_def using int_column_reachable int_type_ok by blast

lemma reachable_columns_ok:
  assumes "list_all (reachable_column hs hp) columns"
  shows "columns_ok hs hp columns"
  unfolding columns_ok_def
proof (rule ballI)
  fix col assume "col \<in> set columns"
  then obtain conf n i c b t start where "column_reachable hs conf n i c b t start (hp, col)"
    "supports_stats (InternalType t) \<or> InternalType t = PT_INTERVAL"
    using assms by (auto simp: list_all_iff reachable_column_def)
  then have "column_ok hs conf n i c hp col" using column_reachable_column_ok by fastforce
  then show "stats_of (cd_type col) (cd_stats col) \<and> summarises hs hp (cd_stats col) (visible_rows col)"
    using column_okD(1) column_summarised by blast
qed

definition scan_typed :: "column_data list \<Rightarrow> nat list \<Rightarrow> (nat \<times> TableFilter) list \<Rightarrow> bool" where
  "scan_typed columns column_ids filters \<longleftrightarrow>
     distinct (map fst filters) \<and>
     list_all (\<lambda>(index, f). index < length column_ids \<and> filter_typed (cd_type (columns ! (column_ids ! index))) f) filters"

lemma scan_checked:
  assumes "list_all (reachable_column hs hp) columns" "scan_typed columns column_ids filters"
    and "ScanFilterInfo_Initialize filters column_ids = Inr info" "RowGroup_CheckZonemap hs hp columns info = Inr (scan, info')"
  shows "flags_agree info'" "length (column_has_filter info') = length column_ids"
    "map (\<lambda>e. (scan_column_index e, table_column_index e, table_filter e)) (filter_list info') =
       map (\<lambda>(index, f). (index, column_ids ! index, f)) filters"
    "list_all (\<lambda>e. always_true e \<longrightarrow> entry_implied ex columns e) (filter_list info')"
    "\<not> scan \<Longrightarrow> \<exists>(index, f) \<in> set filters. \<forall>v \<in> set (visible_rows (columns ! (column_ids ! index))). \<not> filter_holds ex f v"
    "scan \<Longrightarrow> list_all (\<lambda>e. is_optional (table_filter e) \<longrightarrow> always_true e) (filter_list info')"
proof -
  have dist: "distinct (map fst filters)" "\<forall>f \<in> set filters. fst f < length column_ids"
    using assms(2) by (auto simp: scan_typed_def list_all_iff)
  note init = ScanFilterInfo_Initialize_flags [OF dist]
  have flags: "flags_agree info"
    and list: "filter_list info = map (\<lambda>(index, f). \<lparr>scan_column_index = index, table_column_index = column_ids ! index,
      table_filter = f, always_true = False\<rparr>) filters"
    and len: "length (column_has_filter info) = length column_ids"
    using init assms(3) by auto
  have typed: "list_all (entry_typed columns) (filter_list info)"
    using assms(2) by (auto simp: list scan_typed_def list_all_iff entry_typed_def entry_column_def)
  note sound = RowGroup_CheckZonemap_sound [OF reachable_columns_ok [OF assms(1)] typed flags assms(4)]
  note fields = same_filters_fields [OF sound(2)]
  have "map (\<lambda>e. (scan_column_index e, table_column_index e, table_filter e)) (filter_list info') =
      map (\<lambda>e. (scan_column_index e, table_column_index e, table_filter e)) (filter_list info)"
    using fields by (auto simp: list_eq_iff_nth_eq)
  then show "map (\<lambda>e. (scan_column_index e, table_column_index e, table_filter e)) (filter_list info') =
       map (\<lambda>(index, f). (index, column_ids ! index, f)) filters"
    by (simp add: list comp_def case_prod_unfold)
  show "flags_agree info'" "list_all (\<lambda>e. always_true e \<longrightarrow> entry_implied ex columns e) (filter_list info')"
    "scan \<Longrightarrow> list_all (\<lambda>e. is_optional (table_filter e) \<longrightarrow> always_true e) (filter_list info')"
    using sound by simp_all
  show "length (column_has_filter info') = length column_ids"
    using len RowGroup_CheckZonemap_length [OF assms(4)] by simp
  show "\<exists>(index, f) \<in> set filters. \<forall>v \<in> set (visible_rows (columns ! (column_ids ! index))). \<not> filter_holds ex f v" if "\<not> scan"
    using sound(4) [OF that, of ex] by (fastforce simp: list entry_refuted_def entry_column_def)
qed



text \<open>The entries of a scan stand for its filters.\<close>

lemma scan_entries:
  assumes "map (\<lambda>e. (scan_column_index e, table_column_index e, table_filter e)) (filter_list info) =
      map (\<lambda>(index, f). (index, column_ids ! index, f)) filters" "scan_typed columns column_ids filters"
  shows "e \<in> set (filter_list info) \<Longrightarrow> \<exists>(index, f) \<in> set filters.
      scan_column_index e = index \<and> table_column_index e = column_ids ! index \<and> table_filter e = f \<and> index < length column_ids"
    "(index, f) \<in> set filters \<Longrightarrow> \<exists>e \<in> set (filter_list info).
      scan_column_index e = index \<and> table_column_index e = column_ids ! index \<and> table_filter e = f"
proof -
  let ?es = "filter_list info" and ?fields = "\<lambda>e. (scan_column_index e, table_column_index e, table_filter e)"
  have es: "?fields ` set ?es = (\<lambda>(index, f). (index, column_ids ! index, f)) ` set filters"
    using arg_cong [OF assms(1), of set] by simp
  show "\<exists>(index, f) \<in> set filters. scan_column_index e = index \<and> table_column_index e = column_ids ! index \<and> table_filter e = f \<and> index < length column_ids"
    if "e \<in> set ?es"
  proof -
    have "?fields e \<in> (\<lambda>(index, f). (index, column_ids ! index, f)) ` set filters"
      using imageI [OF that, of ?fields] unfolding es(1) .
    then show ?thesis using assms(2) by (auto simp: scan_typed_def list_all_iff)
  qed
  show "\<exists>e \<in> set ?es. scan_column_index e = index \<and> table_column_index e = column_ids ! index \<and> table_filter e = f"
    if "(index, f) \<in> set filters"
  proof -
    have "(index, column_ids ! index, f) \<in> ?fields ` set ?es" unfolding es(1) using that by force
    then show ?thesis by auto
  qed
qed

text \<open>The rows a scanned vector holds.\<close>

lemma scan_rows:
  assumes "list_all (reachable_column hs hp) columns" "scan_typed columns column_ids filters"
    and "ScanFilterInfo_Initialize filters column_ids = Inr info" "RowGroup_CheckZonemap hs hp columns info = Inr (True, info')"
    and "\<forall>(index, f) \<in> set filters. is_optional f \<or> (runnable (types (column_ids ! index)) f \<and> no_optional_result f)"
    and "n \<le> STANDARD_VECTOR_SIZE" "\<forall>c \<in> set column_ids. length (vectors c) = n \<and> set (vectors c) \<subseteq> set (visible_rows (columns ! c))"
    and "distinct permutation" "set permutation = {..<length filters}" "distinct valid_sel" "set valid_sel \<subseteq> {..<n}"
  shows "\<exists>sel. scan_vector ex types vectors column_ids permutation info' valid_sel n =
      Inr (if sel = [] then None else Some (map (\<lambda>c. slice_column sel (vectors c)) column_ids)) \<and>
    distinct sel \<and>
    set sel = {j \<in> set valid_sel. \<forall>(index, f) \<in> set filters. is_optional f \<or> selects ex f (vectors (column_ids ! index) ! j)} \<and>
    {j \<in> set valid_sel. \<forall>(index, f) \<in> set filters. filter_holds ex f (vectors (column_ids ! index) ! j)} \<subseteq> set sel"
proof -
  note checked = scan_checked [OF assms(1-4)]
  let ?es = "filter_list info'"
  note entry = scan_entries(1) [OF checked(3) assms(2)] and filter_entry = scan_entries(2) [OF checked(3) assms(2)]
  have es: "length ?es = length filters" using arg_cong [OF checked(3), of length] by simp
  have "\<forall>e \<in> set ?es. \<not> always_true e \<longrightarrow> entry_runnable types vectors n e"
    using entry checked(6) assms(5,7) by (fastforce simp: entry_runnable_def list_all_iff)
  then obtain sel where sel: "narrows valid_sel (\<lambda>j. \<forall>e \<in> set ?es. \<not> always_true e \<longrightarrow> entry_selects ex vectors e j) sel"
    and scan: "scan_vector ex types vectors column_ids permutation info' valid_sel n =
      Inr (if sel = [] then None else Some (map (\<lambda>c. slice_column sel (vectors c)) column_ids))"
    using scan_vector_narrows [OF checked(1,2), of types vectors n permutation valid_sel ex] assms(6-11) es entry by fastforce
  have implied: "selects ex f (vectors (column_ids ! index) ! j)"
    if "(index, f) \<in> set filters" "e \<in> set ?es" "always_true e" "table_column_index e = column_ids ! index" "table_filter e = f"
      "\<not> is_optional f" "j < n" for index f e j
  proof -
    have index: "index < length column_ids" using that(1) assms(2) by (auto simp: scan_typed_def list_all_iff)
    then have "vectors (column_ids ! index) ! j \<in> set (visible_rows (columns ! (column_ids ! index)))"
      using assms(7) that(7) by (metis nth_mem subsetD)
    then show ?thesis
      using checked(4) [of ex] that holds_selects by (auto simp: list_all_iff entry_implied_def entry_column_def)
  qed
  have "(\<forall>e \<in> set ?es. \<not> always_true e \<longrightarrow> entry_selects ex vectors e j) \<longleftrightarrow>
      (\<forall>(index, f) \<in> set filters. is_optional f \<or> selects ex f (vectors (column_ids ! index) ! j))" if j: "j \<in> set valid_sel" for j
  proof (intro iffI ballI impI; clarify?)
    fix index f assume all: "\<forall>e \<in> set ?es. \<not> always_true e \<longrightarrow> entry_selects ex vectors e j"
      and f: "(index, f) \<in> set filters" "\<not> selects ex f (vectors (column_ids ! index) ! j)"
    obtain e where e: "e \<in> set ?es" "table_column_index e = column_ids ! index" "table_filter e = f"
      using filter_entry [OF f(1)] by blast
    then have true: "always_true e" using all f(2) unfolding entry_selects_def by metis
    have "j < n" using assms(11) j by auto
    then show "is_optional f" using implied [OF f(1) e(1) true e(2,3)] f(2) by blast
  next
    fix e assume a: "\<forall>(index, f) \<in> set filters. is_optional f \<or> selects ex f (vectors (column_ids ! index) ! j)"
      and e: "e \<in> set ?es" "\<not> always_true e"
    then have "\<not> is_optional (table_filter e)" using checked(6) by (auto simp: list_all_iff)
    then show "entry_selects ex vectors e j" using a entry [OF e(1)] by (auto simp: entry_selects_def)
  qed
  then have "set sel = {j \<in> set valid_sel. \<forall>(index, f) \<in> set filters. is_optional f \<or> selects ex f (vectors (column_ids ! index) ! j)}"
    and "distinct sel"
    using sel by (auto simp: narrows_def)
  moreover from this have "{j \<in> set valid_sel. \<forall>(index, f) \<in> set filters. filter_holds ex f (vectors (column_ids ! index) ! j)} \<subseteq> set sel"
    using holds_selects by fastforce
  ultimately show ?thesis using scan by blast
qed

text \<open>C3: A row group that is scanned gives exactly the rows that pass: for every order of the filters
  and every selection of rows of a vector, the chunk holds, for every column, the rows that satisfy
  every filter that is not optional, although filters known to be always true are not run; a row
  that satisfies all filters is in it.\<close>
theorem row_group_scan_exact:
  assumes "list_all (reachable_column hs hp) columns" "scan_typed columns column_ids filters"
    and "ScanFilterInfo_Initialize filters column_ids = Inr info" "RowGroup_CheckZonemap hs hp columns info = Inr (True, info')"
    and "\<forall>(index, f) \<in> set filters. is_optional f \<or> (runnable (types (column_ids ! index)) f \<and> no_optional_result f)"
    and "n \<le> STANDARD_VECTOR_SIZE" "\<forall>c \<in> set column_ids. length (vectors c) = n \<and> set (vectors c) \<subseteq> set (visible_rows (columns ! c))"
    and "distinct permutation" "set permutation = {..<length filters}" "distinct valid_sel" "set valid_sel \<subseteq> {..<n}"
  shows "\<exists>sel. scan_vector ex types vectors column_ids permutation info' valid_sel n =
      Inr (if sel = [] then None else Some (map (\<lambda>c. slice_column sel (vectors c)) column_ids)) \<and>
    distinct sel \<and>
    set sel = {j \<in> set valid_sel. \<forall>(index, f) \<in> set filters. is_optional f \<or> selects ex f (vectors (column_ids ! index) ! j)} \<and>
    {j \<in> set valid_sel. \<forall>(index, f) \<in> set filters. filter_holds ex f (vectors (column_ids ! index) ! j)} \<subseteq> set sel"
  by (rule scan_rows [OF assms])

text \<open>The premises of a scan, for one column with the rows 5 and 7 and a filter that wants 5.\<close>

lemma example_scan:
  fixes hs :: hashes
  defines "f \<equiv> ConstantFilter COMPARE_EQUAL (int_value 5)" and "hp \<equiv> (\<lambda>_. None)(1 \<mapsto> int_statistic [5, 7])"
  shows "list_all (reachable_column hs hp) [int_column 1 no_temp_vectors]" "scan_typed [int_column 1 no_temp_vectors] [0] [(0, f)]"
    "\<exists>info info'. ScanFilterInfo_Initialize [(0, f)] [0] = Inr info \<and> RowGroup_CheckZonemap hs hp [int_column 1 no_temp_vectors] info = Inr (True, info')"
    "\<forall>(index, f) \<in> set [(0 :: nat, f)]. is_optional f \<or> (runnable int_type f \<and> no_optional_result f)"
    "\<forall>c \<in> set [0]. length [int_value 5, int_value 7] = 2 \<and> set [int_value 5, int_value 7] \<subseteq> set (visible_rows ([int_column 1 no_temp_vectors] ! c))"
    "distinct [0 :: nat]" "set [0] = {..<length [(0, f)]}" "2 \<le> STANDARD_VECTOR_SIZE"
    "{j. j < 2 \<and> (\<forall>(index, f) \<in> set [(0 :: nat, f)]. is_optional f \<or> selects ex f ([int_value 5, int_value 7] ! j))} = {0 :: nat}"
proof -
  show "list_all (reachable_column hs hp) [int_column 1 no_temp_vectors]" using int_reachable_column by (simp add: hp_def)
  show "scan_typed [int_column 1 no_temp_vectors] [0] [(0, f)]" by (simp add: f_def scan_typed_def int_column_def int_value_def int_type_def)
  have check: "column_CheckZonemap hs hp f (int_column 1 no_temp_vectors) = Inr NO_PRUNING_POSSIBLE"
    unfolding f_def hp_def by (rule CheckZonemap_int [OF _ _ dictionary_answers(3)]) simp_all
  obtain info where info: "ScanFilterInfo_Initialize [(0, f)] [0] = Inr info"
    "filter_list info = [\<lparr>scan_column_index = 0, table_column_index = 0, table_filter = f, always_true = False\<rparr>]"
    using ScanFilterInfo_Initialize_flags [of "[(0, f)]" "[0]"] by auto
  then have "RowGroup_CheckZonemap hs hp [int_column 1 no_temp_vectors] info = Inr (True, CheckAllFilters info)"
    using check by (simp add: RowGroup_CheckZonemap_def CheckAllFilters_def GetColumn_def range_skip_def f_def)
  then show "\<exists>info info'. ScanFilterInfo_Initialize [(0, f)] [0] = Inr info \<and> RowGroup_CheckZonemap hs hp [int_column 1 no_temp_vectors] info = Inr (True, info')"
    using info(1) by blast
  show "\<forall>(index, f) \<in> set [(0 :: nat, f)]. is_optional f \<or> (runnable int_type f \<and> no_optional_result f)"
    by (simp add: f_def example_types int_value_def int_type_def [symmetric] supports_stats_def)
  show "\<forall>c \<in> set [0]. length [int_value 5, int_value 7] = 2 \<and> set [int_value 5, int_value 7] \<subseteq> set (visible_rows ([int_column 1 no_temp_vectors] ! c))"
    by (simp add: visible_rows_def int_column_rows)
  show "distinct [0 :: nat]" "set [0] = {..<length [(0, f)]}" "2 \<le> STANDARD_VECTOR_SIZE"
    by (auto simp: STANDARD_VECTOR_SIZE_def)
  have "filter_holds ex f (int_value 5)" "\<not> filter_holds ex f (int_value 7)" unfolding f_def by code_simp+
  then show "{j. j < 2 \<and> (\<forall>(index, f) \<in> set [(0 :: nat, f)]. is_optional f \<or> selects ex f ([int_value 5, int_value 7] ! j))} = {0 :: nat}"
    by (auto simp: f_def less_2_cases_iff)
qed

lemma row_group_scan_exact_witness:
  "\<forall>hs ex. \<exists>info info'. ScanFilterInfo_Initialize [(0, ConstantFilter COMPARE_EQUAL (int_value 5))] [0] = Inr info \<and>
     RowGroup_CheckZonemap hs ((\<lambda>_. None)(1 \<mapsto> int_statistic [5, 7])) [int_column 1 no_temp_vectors] info = Inr (True, info') \<and>
     scan_vector ex (\<lambda>_. int_type) (\<lambda>_. [int_value 5, int_value 7]) [0] [0] info' [0, 1] 2 = Inr (Some [[int_value 5]])"
proof (intro allI)
  fix hs :: hashes and ex :: "nat \<Rightarrow> Value \<Rightarrow> bool"
  let ?f = "ConstantFilter COMPARE_EQUAL (int_value 5)" and ?hp = "(\<lambda>_. None)(1 \<mapsto> int_statistic [5, 7])" and ?rows = "[int_value 5, int_value 7]"
  note e = example_scan
  obtain info info' where info: "ScanFilterInfo_Initialize [(0, ?f)] [0] = Inr info"
    "RowGroup_CheckZonemap hs ?hp [int_column 1 no_temp_vectors] info = Inr (True, info')" using e(3) by blast
  have valid: "distinct [0, 1 :: nat]" "set [0, 1] \<subseteq> {..<2 :: nat}" by auto
  have types: "\<forall>(index, f) \<in> set [(0, ?f)]. is_optional f \<or> (runnable ((\<lambda>_. int_type) ([0] ! index)) f \<and> no_optional_result f)"
    and rows: "\<forall>c \<in> set [0]. length ((\<lambda>_. ?rows) c) = 2 \<and> set ((\<lambda>_. ?rows) c) \<subseteq> set (visible_rows ([int_column 1 no_temp_vectors] ! c))"
    using e(4,5) by auto
  obtain sel where sel: "scan_vector ex (\<lambda>_. int_type) (\<lambda>_. ?rows) [0] [0] info' [0, 1] 2 =
      Inr (if sel = [] then None else Some (map (\<lambda>c. slice_column sel ?rows) [0 :: nat]))" "distinct sel"
    "set sel = {j \<in> set [0, 1]. \<forall>(index, f) \<in> set [(0 :: nat, ?f)]. is_optional f \<or> selects ex f (?rows ! j)}"
    using row_group_scan_exact [where types = "\<lambda>_. int_type" and vectors = "\<lambda>_. ?rows" and ex = ex,
        OF e(1,2) info types e(8) rows e(6,7) valid] by (elim exE conjE) (rule that, assumption+)
  have "set sel = {0}" using e(9) unfolding sel(3) by (auto simp: less_2_cases_iff)
  then have "sel = [0]" using sel(2) by (cases sel; cases "tl sel") auto
  then show "\<exists>info info'. ScanFilterInfo_Initialize [(0, ?f)] [0] = Inr info \<and>
     RowGroup_CheckZonemap hs ?hp [int_column 1 no_temp_vectors] info = Inr (True, info') \<and>
     scan_vector ex (\<lambda>_. int_type) (\<lambda>_. ?rows) [0] [0] info' [0, 1] 2 = Inr (Some [[int_value 5]])"
    using info sel(1) by (auto simp: slice_column_def)
qed

end
