(* ===== verification/RowGroupAppend.thy ===== *)
theory RowGroupAppend
  imports ColumnProps
begin

text \<open>
  Appending to a table (\<open>storage/table/row_group_collection.cpp\<close>, \<open>storage/table/row_group.cpp\<close>):
  a chunk goes into the last row group and, where that is full, into new ones, whose predecessors
  are given their statistics; an append is made final by counting its rows, and reverted by
  truncating. The versions of rows and the distinct statistics are not modelled.
\<close>

subsection \<open>Row groups\<close>

record row_group =
  rg_start :: nat
  rg_count :: nat
  rg_columns :: "column_data list"

definition RowGroup_InitializeEmpty :: "LogicalType list \<Rightarrow> nat \<Rightarrow> row_group" where
  "RowGroup_InitializeEmpty types start_row =
     \<lparr>rg_start = start_row, rg_count = 0, rg_columns = map (\<lambda>t. new_column t start_row) types\<rparr>"

definition RowGroup_InitializeAppend :: "nat \<Rightarrow> row_group \<Rightarrow> row_group" where
  "RowGroup_InitializeAppend block_size g = g\<lparr>rg_columns := map (column_InitializeAppend block_size) (rg_columns g)\<rparr>"

fun append_columns ::
  "nat \<Rightarrow> unified_format list \<Rightarrow> nat \<Rightarrow> column_data list \<Rightarrow> column_data list result option" where
  "append_columns block_size [] n [] = Some (Inr [])"
| "append_columns block_size (v # vs) n (col # cols) =
     bind_loop (column_Append block_size v n col) (\<lambda>col.
     bind_loop (append_columns block_size vs n cols) (\<lambda>cols. Some (Inr (col # cols))))"
| "append_columns block_size _ n _ = Some (Inl OutOfBounds)"

definition RowGroup_Append :: "nat \<Rightarrow> unified_format list \<Rightarrow> nat \<Rightarrow> row_group \<Rightarrow> row_group result option" where
  "RowGroup_Append block_size chunk append_count g =
     bind_loop (append_columns block_size chunk append_count (rg_columns g)) (\<lambda>cols. Some (Inr (g\<lparr>rg_columns := cols\<rparr>)))"

text \<open>The statistic of a column is put at a free address of the heap, which \<open>alloc\<close> chooses.\<close>

fun init_columns ::
  "hashes \<Rightarrow> stats_config \<Rightarrow> string \<Rightarrow> (stats_heap \<Rightarrow> 64 word) \<Rightarrow> nat \<Rightarrow> nat \<Rightarrow> stats_heap \<Rightarrow> column_data list \<Rightarrow>
   (stats_heap \<times> column_data list) result" where
  "init_columns hs conf table_name alloc index i hp [] = Inr (hp, [])"
| "init_columns hs conf table_name alloc index i hp (col # cols) =
     bind_result (column_InitStats hs conf table_name index i (alloc hp) hp col) (\<lambda>(hp, col).
     bind_result (init_columns hs conf table_name alloc index (i + 1) hp cols) (\<lambda>(hp, cols). Inr (hp, col # cols)))"

definition RowGroup_InitStats ::
  "hashes \<Rightarrow> stats_config \<Rightarrow> string \<Rightarrow> (stats_heap \<Rightarrow> 64 word) \<Rightarrow> nat \<Rightarrow> stats_heap \<Rightarrow> row_group \<Rightarrow>
   (stats_heap \<times> row_group) result" where
  "RowGroup_InitStats hs conf table_name alloc index hp g =
     bind_result (init_columns hs conf table_name alloc index 0 hp (rg_columns g)) (\<lambda>(hp, cols). Inr (hp, g\<lparr>rg_columns := cols\<rparr>))"

fun revert_columns :: "nat \<Rightarrow> column_data list \<Rightarrow> column_data list result option" where
  "revert_columns start_row [] = Some (Inr [])"
| "revert_columns start_row (col # cols) =
     bind_loop (column_RevertAppend start_row col) (\<lambda>col.
     bind_loop (revert_columns start_row cols) (\<lambda>cols. Some (Inr (col # cols))))"

definition RowGroup_RevertAppend :: "nat \<Rightarrow> row_group \<Rightarrow> row_group result option" where
  "RowGroup_RevertAppend start_row g =
     bind_loop (revert_columns start_row (rg_columns g)) (\<lambda>cols.
       Some (Inr (g\<lparr>rg_columns := cols, rg_count := min (start_row - rg_start g) (rg_count g)\<rparr>)))"

definition AppendVersionInfo :: "nat \<Rightarrow> nat \<Rightarrow> row_group \<Rightarrow> row_group" where
  "AppendVersionInfo row_group_size n g =
     (let row_group_end = rg_count g + n
      in g\<lparr>rg_count := (if row_group_end > row_group_size then row_group_size else row_group_end)\<rparr>)"

fun MergeIntoStatistics :: "column_data list \<Rightarrow> BaseStatistics list \<Rightarrow> BaseStatistics list result" where
  "MergeIntoStatistics [] [] = Inr []"
| "MergeIntoStatistics (col # cols) (s # stats) =
     bind_result (stats_Merge s (cd_stats col)) (\<lambda>s. bind_result (MergeIntoStatistics cols stats) (\<lambda>stats. Inr (s # stats)))"
| "MergeIntoStatistics _ _ = Inl OutOfBounds"

subsection \<open>The collection\<close>

record row_group_collection =
  rc_types :: "LogicalType list"
  rc_row_start :: nat
  rc_total_rows :: nat
  rc_groups :: "row_group list"
  rc_requires_new :: bool
  rc_stats :: "BaseStatistics list"

record table_append_state =
  offset_in_row_group :: nat
  total_append_count :: nat
  start_row_group :: nat

definition collection_InitializeEmpty :: "LogicalType list \<Rightarrow> nat \<Rightarrow> row_group_collection" where
  "collection_InitializeEmpty types row_start_p =
     \<lparr>rc_types = types, rc_row_start = row_start_p, rc_total_rows = 0, rc_groups = [], rc_requires_new = False,
      rc_stats = map CreateEmpty types\<rparr>"

definition AppendRowGroup :: "nat \<Rightarrow> row_group_collection \<Rightarrow> row_group_collection" where
  "AppendRowGroup start_row coll =
     coll\<lparr>rc_groups := rc_groups coll @ [RowGroup_InitializeEmpty (rc_types coll) start_row], rc_requires_new := False\<rparr>"

definition collection_InitializeAppend ::
  "nat \<Rightarrow> row_group_collection \<Rightarrow> table_append_state \<times> row_group_collection" where
  "collection_InitializeAppend block_size coll =
     (let coll = (if rc_groups coll = [] \<or> rc_requires_new coll
                  then AppendRowGroup (rc_row_start coll + rc_total_rows coll) coll else coll);
          g = last (rc_groups coll)
      in (\<lparr>offset_in_row_group = rg_count g, total_append_count = 0, start_row_group = length (rc_groups coll) - 1\<rparr>,
          coll\<lparr>rc_groups := butlast (rc_groups coll) @ [RowGroup_InitializeAppend block_size g]\<rparr>))"

definition chunk_Slice :: "nat \<Rightarrow> unified_format list \<Rightarrow> unified_format list" where
  "chunk_Slice offset chunk = map (\<lambda>v. v\<lparr>u_sel := \<lambda>i. u_sel v (offset + i)\<rparr>) chunk"

text \<open>Appending to the last row group and merging its statistics into those of the table.\<close>

definition append_to_last ::
  "nat \<Rightarrow> unified_format list \<Rightarrow> nat \<Rightarrow> row_group_collection \<Rightarrow> row_group_collection result option" where
  "append_to_last block_size chunk append_count coll =
     (if append_count > 0
      then bind_loop (RowGroup_Append block_size chunk append_count (last (rc_groups coll))) (\<lambda>g.
           Some (bind_result (MergeIntoStatistics (rg_columns g) (rc_stats coll)) (\<lambda>stats.
             Inr (coll\<lparr>rc_groups := butlast (rc_groups coll) @ [g], rc_stats := stats\<rparr>))))
      else Some (Inr coll))"

text \<open>The last row group is full: it is given its statistics, and a new one is added and prepared.\<close>

definition next_row_group ::
  "hashes \<Rightarrow> stats_config \<Rightarrow> string \<Rightarrow> (stats_heap \<Rightarrow> 64 word) \<Rightarrow> nat \<Rightarrow> nat \<Rightarrow> stats_heap \<Rightarrow> row_group_collection \<Rightarrow>
   (stats_heap \<times> row_group_collection) result" where
  "next_row_group hs conf table_name alloc block_size off hp coll =
     bind_result (RowGroup_InitStats hs conf table_name alloc (length (rc_groups coll) - 1) hp (last (rc_groups coll))) (\<lambda>(hp, g).
       let coll = AppendRowGroup (rg_start g + off) (coll\<lparr>rc_groups := butlast (rc_groups coll) @ [g]\<rparr>);
           last_row_group = last (rc_groups coll)
       in Inr (hp, coll\<lparr>rc_groups := butlast (rc_groups coll) @ [RowGroup_InitializeAppend block_size last_row_group]\<rparr>))"

text \<open>
  The loop over row groups. \<open>remaining\<close> is the size of the chunk, and the offset is that of the
  last row group, to which the append state points.
\<close>

partial_function (option) append_row_groups ::
  "hashes \<Rightarrow> stats_config \<Rightarrow> string \<Rightarrow> (stats_heap \<Rightarrow> 64 word) \<Rightarrow> nat \<Rightarrow> nat \<Rightarrow> unified_format list \<Rightarrow> nat \<Rightarrow>
   stats_heap \<Rightarrow> row_group_collection \<Rightarrow> nat \<Rightarrow> bool \<Rightarrow> (stats_heap \<times> row_group_collection \<times> nat \<times> bool) result option" where
  "append_row_groups hs conf table_name alloc block_size row_group_size chunk remaining hp coll off new_row_group =
     (let append_count = min remaining (row_group_size - off)
      in case append_to_last block_size chunk append_count coll of
           None \<Rightarrow> None
         | Some (Inl e) \<Rightarrow> Some (Inl e)
         | Some (Inr coll) \<Rightarrow>
             if remaining - append_count > 0
             then (case next_row_group hs conf table_name alloc block_size (off + append_count) hp coll of
                     Inl e \<Rightarrow> Some (Inl e)
                   | Inr (hp, coll) \<Rightarrow>
                       append_row_groups hs conf table_name alloc block_size row_group_size
                         (if remaining - append_count < remaining then chunk_Slice append_count chunk else chunk)
                         (remaining - append_count) hp coll (rg_count (last (rc_groups coll))) True)
             else Some (Inr (hp, coll, off + append_count, new_row_group)))"

declare append_row_groups.simps [code]

definition collection_Append ::
  "hashes \<Rightarrow> stats_config \<Rightarrow> string \<Rightarrow> (stats_heap \<Rightarrow> 64 word) \<Rightarrow> nat \<Rightarrow> nat \<Rightarrow> unified_format list \<Rightarrow> nat \<Rightarrow>
   stats_heap \<Rightarrow> row_group_collection \<Rightarrow> table_append_state \<Rightarrow>
   (stats_heap \<times> row_group_collection \<times> table_append_state \<times> bool) result option" where
  "collection_Append hs conf table_name alloc block_size row_group_size chunk n hp coll state =
     bind_loop (append_row_groups hs conf table_name alloc block_size row_group_size chunk n hp coll (offset_in_row_group state) False)
       (\<lambda>(hp, coll, off, new_row_group).
         Some (Inr (hp, coll, state\<lparr>offset_in_row_group := off, total_append_count := total_append_count state + n\<rparr>, new_row_group)))"

fun finalize_row_groups :: "nat \<Rightarrow> nat \<Rightarrow> row_group list \<Rightarrow> row_group list result" where
  "finalize_row_groups row_group_size 0 gs = Inr gs"
| "finalize_row_groups row_group_size remaining [] = Inl OutOfBounds"
| "finalize_row_groups row_group_size remaining (g # gs) =
     (let append_count = min remaining (row_group_size - rg_count g)
      in bind_result (finalize_row_groups row_group_size (remaining - append_count) gs)
           (\<lambda>gs. Inr (AppendVersionInfo row_group_size append_count g # gs)))"

definition collection_FinalizeAppend ::
  "nat \<Rightarrow> row_group_collection \<Rightarrow> table_append_state \<Rightarrow> row_group_collection result" where
  "collection_FinalizeAppend row_group_size coll state =
     bind_result (finalize_row_groups row_group_size (total_append_count state) (drop (start_row_group state) (rc_groups coll)))
       (\<lambda>gs. Inr (coll\<lparr>rc_groups := take (start_row_group state) (rc_groups coll) @ gs,
                      rc_total_rows := rc_total_rows coll + total_append_count state\<rparr>))"

definition group_node :: "row_group \<Rightarrow> segment_node" where
  "group_node g = \<lparr>row_start = rg_start g, node_count = rg_count g\<rparr>"

definition RevertAppendInternal :: "nat \<Rightarrow> row_group_collection \<Rightarrow> row_group_collection result option" where
  "RevertAppendInternal start_row coll =
     (let coll = coll\<lparr>rc_total_rows := start_row\<rparr>; gs = rc_groups coll
      in if gs = [] then Some (Inr coll)
         else bind_loop (TryGetSegmentIndex start_row (map group_node gs)) (\<lambda>found.
           let segment_index = (case found of Some i \<Rightarrow> i | None \<Rightarrow> length gs - 1);
               segment = gs ! segment_index
           in if rg_start segment = start_row
              then Some (Inr (coll\<lparr>rc_groups := EraseSegments segment_index gs\<rparr>))
              else bind_loop (RowGroup_RevertAppend start_row segment) (\<lambda>segment.
                Some (Inr (coll\<lparr>rc_groups := (EraseSegments (segment_index + 1) gs)[segment_index := segment]\<rparr>)))))"

subsection \<open>Columns that can be appended to\<close>

text \<open>
  What appending needs of a column does not depend on its statistic: the column is well formed
  once the statistic is forgotten.
\<close>

definition forget :: "column_data \<Rightarrow> column_data" where
  "forget col = col\<lparr>cd_invalidated := True, cd_stats := clear_ptr (cd_stats col)\<rparr>"

definition column_fit :: "column_data \<Rightarrow> bool" where
  "column_fit col \<longleftrightarrow> (\<exists>hs conf n i c hp. column_ok hs conf n i c hp (forget col))"

lemma stored_rows_unchanged [simp]:
  "stored_rows (col\<lparr>cd_invalidated := x\<rparr>) = stored_rows col" "stored_rows (col\<lparr>cd_temp := tmp\<rparr>) = stored_rows col"
  "stored_rows (col\<lparr>cd_stats := s\<rparr>) = stored_rows col" "stored_rows (forget col) = stored_rows col"
  by (rule stored_rows_cong, simp_all add: forget_def)+

lemma forget_fields [simp]:
  "cd_type (forget col) = cd_type col" "cd_start (forget col) = cd_start col" "cd_segments (forget col) = cd_segments col"
  "cd_validity (forget col) = cd_validity col" "cd_ptr (forget col) = 0" "cd_temp (forget col) = cd_temp col"
  "cd_update_log (forget col) = cd_update_log col" "cd_updates (forget col) = cd_updates col"
  "cd_validity_updates (forget col) = cd_validity_updates col" "cd_invalidated (forget col)"
  "cd_stats (forget col) = clear_ptr (cd_stats col)" "visible_rows (forget col) = visible_rows col"
  "segments_ok (forget col) = segments_ok col"
  by (simp_all add: visible_rows_def segments_ok_def) (simp_all add: forget_def)

lemma clear_ptr_null: "additional_ptr (base s) = 0 \<Longrightarrow> clear_ptr s = s"
  by (cases s) (simp add: clear_ptr_def)

lemma column_ok_fit:
  assumes "column_ok hs conf n i c hp col"
  shows "column_fit col"
proof -
  have "column_ok hs conf n i c hp (forget col)"
    using assms by (simp add: column_ok_def stats_describe_def ptr_summarises_def)
  then show ?thesis unfolding column_fit_def by blast
qed

lemma column_Append_forget:
  assumes "column_Append b v n col = Some (Inr col')"
  shows "column_Append b v n (forget col) = Some (Inr (col'\<lparr>cd_invalidated := True\<rparr>))"
proof -
  have "forget col = (invalidated col)\<lparr>cd_invalidated := True\<rparr>"
    by (cases col) (simp add: forget_def invalidated_def clear_ptr_null)
  moreover have "invalidated (forget col) = forget col" by (simp add: invalidated_def)
  moreover have "column_AppendData b v n (x\<lparr>cd_invalidated := True\<rparr>) = Some (Inr (y\<lparr>cd_invalidated := True\<rparr>))"
    if "column_AppendData b v n x = Some (Inr y)" for x y
    using that by (auto simp: column_AppendData_def AppendDataWriteTemp_def validity_AppendData_def bind_loop_Inr_iff)
  ultimately show ?thesis using assms unfolding column_Append_alt by simp
qed

definition column_ready :: "column_data \<Rightarrow> bool" where
  "column_ready col \<longleftrightarrow> column_fit col \<and> cd_segments col \<noteq> [] \<and> cd_validity col \<noteq> []"

lemma column_ready_Append:
  assumes "column_Append b v m col = Some (Inr col')" "column_ready col" "format_ok (cd_type col) v m"
  shows "column_ready col'" "stored_rows col' = stored_rows col @ map (source_row (cd_type col) v) [0..<m]"
    "cd_type col' = cd_type col" "cd_start col' = cd_start col"
proof -
  obtain hs conf n i c hp where ok: "column_ok hs conf n i c hp (forget col)" using assms(2) by (auto simp: column_ready_def column_fit_def)
  have ready: "cd_segments (forget col) \<noteq> []" "cd_validity (forget col) \<noteq> []" using assms(2) by (simp_all add: column_ready_def)
  note r = column_Append_ready [OF column_Append_forget [OF assms(1)] ok _ ready, unfolded forget_fields, OF assms(3)]
  have "clear_ptr (cd_stats col') = cd_stats col'" using r(4) by (intro clear_ptr_null) simp
  then have "forget col' = col'\<lparr>cd_invalidated := True\<rparr>" by (simp add: forget_def)
  then have "column_fit col'" using r(1) unfolding column_fit_def by metis
  then show "column_ready col'" using r(9,10) by (simp add: column_ready_def)
  show "stored_rows col' = stored_rows col @ map (source_row (cd_type col) v) [0..<m]"
    using r(2) by simp
  show "cd_type col' = cd_type col" "cd_start col' = cd_start col" using r(5,6) by simp_all
qed

lemma column_ready_returns:
  assumes "column_ready col" "format_ok (cd_type col) v m" "4096 \<le> b"
  shows "\<exists>r. column_Append b v m col = Some r"
proof -
  obtain hs conf n i c hp where ok: "column_ok hs conf n i c hp (forget col)" using assms(1) by (auto simp: column_ready_def column_fit_def)
  have "segments_ok col" using column_okD(5) [OF ok] by (simp add: segments_ok_def)
  then show ?thesis using column_Append_returns assms by (simp add: column_ready_def)
qed

lemma column_fit_InitializeAppend:
  assumes "column_fit col"
  shows "column_ready (column_InitializeAppend b col)" "stored_rows (column_InitializeAppend b col) = stored_rows col"
    "cd_type (column_InitializeAppend b col) = cd_type col" "cd_start (column_InitializeAppend b col) = cd_start col"
proof -
  obtain hs conf n i c hp where ok: "column_ok hs conf n i c hp (forget col)" using assms by (auto simp: column_fit_def)
  have seg: "segments_ok col" using column_okD(5) [OF ok] by (simp add: segments_ok_def)
  note keeps = column_InitializeAppend_keeps [OF seg, of b]
  have "forget (column_InitializeAppend b col) = column_InitializeAppend b (forget col)"
    by (simp add: forget_def column_InitializeAppend_def)
  then have "column_fit (column_InitializeAppend b col)" using InitializeAppend_ok [OF ok] unfolding column_fit_def by metis
  then show "column_ready (column_InitializeAppend b col)" "stored_rows (column_InitializeAppend b col) = stored_rows col"
    using keeps by (simp_all add: column_ready_def)
  show "cd_type (column_InitializeAppend b col) = cd_type col" "cd_start (column_InitializeAppend b col) = cd_start col"
    by (simp_all add: column_InitializeAppend_def)
qed

lemma column_fit_InitStats:
  assumes "column_InitStats hs conf n i c address hp col = Inr (hp', col')" "column_fit col"
  shows "column_fit col'" "stored_rows col' = stored_rows col" "cd_type col' = cd_type col" "cd_start col' = cd_start col"
proof -
  obtain tmp p where col': "col' = col\<lparr>cd_temp := tmp\<rparr> \<or> col' = col\<lparr>cd_temp := tmp, cd_stats := set_ptr p (cd_stats col)\<rparr>"
    using assms(1) by (auto simp: column_InitStats_def Let_def bind_result_Inr_iff split: if_splits option.splits)
  then show "stored_rows col' = stored_rows col" "cd_type col' = cd_type col" "cd_start col' = cd_start col"
    by auto
  have "clear_ptr (set_ptr p (cd_stats col)) = clear_ptr (cd_stats col)" by (simp add: clear_ptr_def)
  then have "forget col' = (forget col)\<lparr>cd_temp := tmp\<rparr>" using col' by (auto simp: forget_def)
  moreover have "column_ok hs conf n i c hp ((forget col)\<lparr>cd_temp := tmp\<rparr>)" if "column_ok hs conf n i c hp (forget col)" for hs conf n i c hp
  proof -
    have "visible_rows ((forget col)\<lparr>cd_temp := tmp\<rparr>) = visible_rows (forget col)"
      "segments_ok ((forget col)\<lparr>cd_temp := tmp\<rparr>) = segments_ok (forget col)"
      by (simp_all add: visible_rows_def segments_ok_def)
    then show ?thesis using that by (simp add: column_ok_def stats_describe_def)
  qed
  ultimately show "column_fit col'" using assms(2) unfolding column_fit_def by metis
qed

lemma column_fit_new:
  "supports_stats (InternalType t) \<or> InternalType t = PT_INTERVAL \<Longrightarrow> column_fit (new_column t start)"
proof -
  have "(new_column t start)\<lparr>cd_temp := no_temp_vectors\<rparr> = new_column t start" by (simp add: new_column_def)
  then show "supports_stats (InternalType t) \<or> InternalType t = PT_INTERVAL \<Longrightarrow> column_fit (new_column t start)"
    using new_column_ok [OF _ tmp_holds_empty, of t, where start = start] column_ok_fit by metis
qed

subsection \<open>Row groups that can be appended to\<close>

definition group_holds :: "LogicalType list \<Rightarrow> nat \<Rightarrow> row_group \<Rightarrow> bool" where
  "group_holds types k g \<longleftrightarrow>
     list_all2 (\<lambda>t col. column_fit col \<and> cd_type col = t \<and> cd_start col = rg_start g \<and> length (stored_rows col) = k)
       types (rg_columns g)"

definition group_ready :: "LogicalType list \<Rightarrow> nat \<Rightarrow> row_group \<Rightarrow> bool" where
  "group_ready types k g \<longleftrightarrow>
     list_all2 (\<lambda>t col. column_ready col \<and> cd_type col = t \<and> cd_start col = rg_start g \<and> length (stored_rows col) = k)
       types (rg_columns g)"

definition chunk_ok :: "LogicalType list \<Rightarrow> unified_format list \<Rightarrow> nat \<Rightarrow> bool" where
  "chunk_ok types chunk n \<longleftrightarrow> list_all2 (\<lambda>t v. format_ok t v n) types chunk"

definition flat_types :: "LogicalType list \<Rightarrow> bool" where
  "flat_types types \<longleftrightarrow> list_all (\<lambda>t. supports_stats (InternalType t) \<or> InternalType t = PT_INTERVAL) types"

text \<open>The values of a column over a list of row groups, and those a chunk brings.\<close>

definition groups_rows :: "row_group list \<Rightarrow> nat \<Rightarrow> Value list" where
  "groups_rows gs i = concat (map (\<lambda>g. stored_rows (rg_columns g ! i)) gs)"

definition chunk_rows :: "LogicalType list \<Rightarrow> unified_format list \<Rightarrow> nat \<Rightarrow> nat \<Rightarrow> Value list" where
  "chunk_rows types chunk n i = map (source_row (types ! i) (chunk ! i)) [0..<n]"

lemma group_ready_holds: "group_ready types k g \<Longrightarrow> group_holds types k g"
  by (auto simp: group_ready_def group_holds_def column_ready_def elim!: list_all2_mono)

lemma groups_rows_simps [simp]:
  "groups_rows [] i = []" "groups_rows (g # gs) i = stored_rows (rg_columns g ! i) @ groups_rows gs i"
  "groups_rows (gs @ hs) i = groups_rows gs i @ groups_rows hs i"
  by (simp_all add: groups_rows_def)

lemma append_columns_ready:
  "append_columns b chunk n cols = Some (Inr cols') \<Longrightarrow> chunk_ok types chunk n \<Longrightarrow>
   list_all2 (\<lambda>t col. column_ready col \<and> cd_type col = t \<and> cd_start col = start \<and> length (stored_rows col) = k) types cols \<Longrightarrow>
   list_all2 (\<lambda>t col. column_ready col \<and> cd_type col = t \<and> cd_start col = start \<and> length (stored_rows col) = k + n) types cols' \<and>
   (\<forall>i < length types. stored_rows (cols' ! i) = stored_rows (cols ! i) @ chunk_rows types chunk n i)"
proof (induction b chunk n cols arbitrary: types cols' rule: append_columns.induct)
  case (2 b v vs n col cols)
  then obtain t ts where types: "types = t # ts" by (cases types) (auto simp: chunk_ok_def)
  obtain col1 cols1 where app: "column_Append b v n col = Some (Inr col1)" "append_columns b vs n cols = Some (Inr cols1)"
    "cols' = col1 # cols1"
    using "2.prems"(1) by (auto simp: bind_loop_Inr_iff)
  have col: "column_ready col" "format_ok (cd_type col) v n" "cd_type col = t" "cd_start col = start" "length (stored_rows col) = k"
    using "2.prems"(2,3) by (auto simp: types chunk_ok_def)
  note c = column_ready_Append [OF app(1) col(1,2)]
  have rest: "list_all2 (\<lambda>t col. column_ready col \<and> cd_type col = t \<and> cd_start col = start \<and> length (stored_rows col) = k + n) ts cols1 \<and>
    (\<forall>i < length ts. stored_rows (cols1 ! i) = stored_rows (cols ! i) @ chunk_rows ts vs n i)"
    using "2.IH" [OF app(2), of ts] "2.prems"(2,3) by (auto simp: types chunk_ok_def)
  have "stored_rows (cols' ! i) = stored_rows ((col # cols) ! i) @ chunk_rows types (v # vs) n i" if "i < length types" for i
    using that rest c(2) col(3) by (cases i) (auto simp: app(3) types chunk_rows_def)
  then show ?case using rest c col by (simp add: app(3) types)
qed (auto simp: chunk_ok_def)

lemma append_columns_returns:
  "chunk_ok types chunk n \<Longrightarrow> list_all2 (\<lambda>t col. column_ready col \<and> cd_type col = t \<and> P col) types cols \<Longrightarrow> 4096 \<le> b \<Longrightarrow>
   \<exists>r. append_columns b chunk n cols = Some r"
proof (induction b chunk n cols arbitrary: types rule: append_columns.induct)
  case (2 b v vs n col cols)
  then obtain t ts where types: "types = t # ts" by (cases types) (auto simp: chunk_ok_def)
  have "\<exists>r. column_Append b v n col = Some r"
    using "2.prems" by (intro column_ready_returns) (auto simp: types chunk_ok_def)
  moreover have "\<exists>r. append_columns b vs n cols = Some r"
    using "2.IH" [of ts] "2.prems" by (auto simp: types chunk_ok_def)
  ultimately show ?case by (auto intro!: bind_loop_total)
qed simp_all

lemma init_columns_keeps:
  "init_columns hs conf tn alloc index i hp cols = Inr (hp', cols') \<Longrightarrow> list_all column_fit cols \<Longrightarrow>
   list_all2 (\<lambda>c c'. column_fit c' \<and> stored_rows c' = stored_rows c \<and> cd_type c' = cd_type c \<and> cd_start c' = cd_start c) cols cols'"
proof (induction cols arbitrary: i hp hp' cols')
  case (Cons col cols)
  then obtain hp1 col1 cols1 where "column_InitStats hs conf tn index i (alloc hp) hp col = Inr (hp1, col1)"
    "init_columns hs conf tn alloc index (i + 1) hp1 cols = Inr (hp', cols1)" "cols' = col1 # cols1"
    by (auto simp: bind_result_Inr_iff)
  then show ?case using Cons.IH Cons.prems(2) column_fit_InitStats by simp
qed simp

lemma RowGroup_InitStats_keeps:
  assumes "RowGroup_InitStats hs conf tn alloc index hp g = Inr (hp', g')" "group_holds types k g"
  shows "group_holds types k g'" "i < length types \<Longrightarrow> stored_rows (rg_columns g' ! i) = stored_rows (rg_columns g ! i)"
    "rg_start g' = rg_start g" "rg_count g' = rg_count g"
proof -
  obtain cols where cols: "init_columns hs conf tn alloc index 0 hp (rg_columns g) = Inr (hp', cols)" "g' = g\<lparr>rg_columns := cols\<rparr>"
    using assms(1) by (auto simp: RowGroup_InitStats_def bind_result_Inr_iff)
  have "list_all column_fit (rg_columns g)" using assms(2) by (auto simp: group_holds_def list_all2_conv_all_nth list_all_length)
  note keeps = init_columns_keeps [OF cols(1) this]
  show "group_holds types k g'" "i < length types \<Longrightarrow> stored_rows (rg_columns g' ! i) = stored_rows (rg_columns g ! i)"
    "rg_start g' = rg_start g" "rg_count g' = rg_count g"
    using keeps assms(2) by (auto simp: cols(2) group_holds_def list_all2_conv_all_nth)
qed

lemma RowGroup_InitializeAppend_ready:
  assumes "group_holds types k g"
  shows "group_ready types k (RowGroup_InitializeAppend b g)"
    "i < length types \<Longrightarrow> stored_rows (rg_columns (RowGroup_InitializeAppend b g) ! i) = stored_rows (rg_columns g ! i)"
    "rg_start (RowGroup_InitializeAppend b g) = rg_start g" "rg_count (RowGroup_InitializeAppend b g) = rg_count g"
  using assms column_fit_InitializeAppend
  by (auto simp: group_ready_def group_holds_def RowGroup_InitializeAppend_def list_all2_conv_all_nth)

lemma new_group_holds:
  "flat_types types \<Longrightarrow> group_holds types 0 (RowGroup_InitializeEmpty types start)"
  using column_fit_new
  by (auto simp: group_holds_def RowGroup_InitializeEmpty_def list_all2_conv_all_nth flat_types_def list_all_length
      stored_rows_def new_column_def)

subsection \<open>The loop over row groups\<close>

lemma chunk_Slice_ok:
  assumes "chunk_ok types chunk n" "k \<le> n"
  shows "chunk_ok types (chunk_Slice k chunk) (n - k)"
    "i < length types \<Longrightarrow> chunk_rows types chunk k i @ chunk_rows types (chunk_Slice k chunk) (n - k) i = chunk_rows types chunk n i"
proof -
  have len: "length chunk = length types" using assms(1) by (simp add: chunk_ok_def list_all2_lengthD)
  have slice: "chunk_Slice k chunk ! j = (chunk ! j)\<lparr>u_sel := \<lambda>i. u_sel (chunk ! j) (k + i)\<rparr>" if "j < length types" for j
    using that len by (simp add: chunk_Slice_def)
  show "chunk_ok types (chunk_Slice k chunk) (n - k)"
    using assms slice by (auto simp: chunk_ok_def list_all2_conv_all_nth format_ok_def row_valid_def chunk_Slice_def Let_def)
  have "source_row t (v\<lparr>u_sel := \<lambda>i. u_sel v (k + i)\<rparr>) j = source_row t v (k + j)" for t v j
    by (simp add: source_row_def row_valid_def Let_def)
  moreover have "[0..<n] = [0..<k] @ map (\<lambda>j. k + j) [0..<n - k]"
    using assms(2) upt_add_eq_append [of 0 k "n - k"] by (simp add: map_add_upt add.commute [of k])
  ultimately show "i < length types \<Longrightarrow> chunk_rows types chunk k i @ chunk_rows types (chunk_Slice k chunk) (n - k) i = chunk_rows types chunk n i"
    using slice by (simp add: chunk_rows_def)
qed

lemma append_to_last_result:
  assumes "append_to_last b chunk n coll = Some (Inr coll')" "rc_groups coll = gs @ [g]"
    and "group_ready types off g" "chunk_ok types chunk n"
  shows "\<exists>g'. rc_groups coll' = gs @ [g'] \<and> group_ready types (off + n) g' \<and> rg_start g' = rg_start g \<and> rg_count g' = rg_count g \<and>
    (\<forall>i < length types. stored_rows (rg_columns g' ! i) = stored_rows (rg_columns g ! i) @ chunk_rows types chunk n i) \<and>
    rc_types coll' = rc_types coll \<and> rc_row_start coll' = rc_row_start coll \<and> rc_total_rows coll' = rc_total_rows coll"
proof (cases "n > 0")
  case False
  then show ?thesis using assms by (auto simp: append_to_last_def chunk_rows_def)
next
  case True
  then obtain cols stats where cols: "append_columns b chunk n (rg_columns g) = Some (Inr cols)"
    "coll' = coll\<lparr>rc_groups := gs @ [g\<lparr>rg_columns := cols\<rparr>], rc_stats := stats\<rparr>"
    using assms(1,2) by (auto simp: append_to_last_def RowGroup_Append_def bind_loop_Inr_iff bind_result_Inr_iff)
  then show ?thesis
    using append_columns_ready [OF cols(1) assms(4)] assms(3) by (auto simp: group_ready_def)
qed

lemma append_to_last_returns:
  assumes "rc_groups coll = gs @ [g]" "group_ready types off g" "chunk_ok types chunk n" "4096 \<le> b"
  shows "\<exists>r. append_to_last b chunk n coll = Some r"
proof -
  have "\<exists>r. append_columns b chunk n (rg_columns g) = Some r"
    using append_columns_returns [OF assms(3) assms(2) [unfolded group_ready_def] assms(4)] .
  then show ?thesis
    using assms(1) by (auto simp: append_to_last_def RowGroup_Append_def intro!: bind_loop_total)
qed

lemma next_row_group_result:
  assumes "next_row_group hs conf tn alloc b k hp coll = Inr (hp', coll')" "rc_groups coll = gs @ [g]"
    and "group_holds types n g" "rc_types coll = types" "flat_types types"
  shows "\<exists>g' fresh. rc_groups coll' = gs @ [g', fresh] \<and> group_holds types n g' \<and> rg_start g' = rg_start g \<and> rg_count g' = rg_count g \<and>
    (\<forall>i < length types. stored_rows (rg_columns g' ! i) = stored_rows (rg_columns g ! i) \<and> stored_rows (rg_columns fresh ! i) = []) \<and>
    group_ready types 0 fresh \<and> rg_start fresh = rg_start g + k \<and> rg_count fresh = 0 \<and>
    rc_types coll' = types \<and> rc_row_start coll' = rc_row_start coll \<and> rc_total_rows coll' = rc_total_rows coll"
proof -
  let ?new = "RowGroup_InitializeEmpty types (rg_start g + k)"
  obtain g' where g': "RowGroup_InitStats hs conf tn alloc (length gs) hp g = Inr (hp', g')"
    and coll': "coll' = coll\<lparr>rc_groups := gs @ [g', RowGroup_InitializeAppend b (RowGroup_InitializeEmpty types (rg_start g' + k))], rc_requires_new := False\<rparr>"
    using assms(1,2,4) by (auto simp: next_row_group_def bind_result_Inr_iff AppendRowGroup_def Let_def butlast_append)
  note keeps = RowGroup_InitStats_keeps [OF g' assms(3)]
  note new = new_group_holds [OF assms(5), of "rg_start g + k"]
  note ready = RowGroup_InitializeAppend_ready [OF new, where b = b]
  have "rg_start ?new = rg_start g + k" "rg_count ?new = 0" "i < length types \<Longrightarrow> stored_rows (rg_columns ?new ! i) = []" for i
    by (simp_all add: RowGroup_InitializeEmpty_def new_column_def stored_rows_def)
  then show ?thesis
    using keeps ready assms(4) by (auto simp: coll')
qed

definition appended_groups ::
  "LogicalType list \<Rightarrow> nat \<Rightarrow> nat \<Rightarrow> nat \<Rightarrow> unified_format list \<Rightarrow> row_group \<Rightarrow> row_group list \<Rightarrow> nat \<Rightarrow> bool" where
  "appended_groups types capacity off n chunk g out off' \<longleftrightarrow>
     out \<noteq> [] \<and> list_all (group_holds types capacity) (butlast out) \<and> group_ready types off' (last out) \<and> off' \<le> capacity \<and>
     (0 < n \<longrightarrow> 0 < off') \<and> (n = 0 \<longrightarrow> length out = 1) \<and> off + n = capacity * (length out - 1) + off' \<and>
     rg_count (hd out) = rg_count g \<and> list_all (\<lambda>g. rg_count g = 0) (tl out) \<and>
     contiguous_from (rg_start g) (map (\<lambda>g. \<lparr>row_start = rg_start g, node_count = capacity\<rparr>) out) \<and>
     (\<forall>i < length types. groups_rows out i = stored_rows (rg_columns g ! i) @ chunk_rows types chunk n i)"

lemma append_row_groups_result:
  assumes "0 < capacity" "flat_types types"
  shows "append_row_groups hs conf tn alloc b capacity chunk n hp coll off new = Some (Inr (hp', coll', off', new')) \<Longrightarrow>
    rc_groups coll = gs @ [g] \<Longrightarrow> group_ready types off g \<Longrightarrow> off \<le> capacity \<Longrightarrow> chunk_ok types chunk n \<Longrightarrow> rc_types coll = types \<Longrightarrow>
    \<exists>out. rc_groups coll' = gs @ out \<and> appended_groups types capacity off n chunk g out off' \<and>
      rc_types coll' = types \<and> rc_row_start coll' = rc_row_start coll \<and> rc_total_rows coll' = rc_total_rows coll"
proof (induction "2 * n + (if off = capacity then 1 else 0)" arbitrary: chunk n hp coll off new gs g rule: less_induct)
  case less
  let ?k = "min n (capacity - off)"
  obtain coll1 where c1: "append_to_last b chunk ?k coll = Some (Inr coll1)"
    and rest: "(if n - ?k > 0
       then (case next_row_group hs conf tn alloc b (off + ?k) hp coll1 of
               Inl e \<Rightarrow> Some (Inl e)
             | Inr (hp, coll) \<Rightarrow>
                 append_row_groups hs conf tn alloc b capacity (if n - ?k < n then chunk_Slice ?k chunk else chunk)
                   (n - ?k) hp coll (rg_count (last (rc_groups coll))) True)
       else Some (Inr (hp, coll1, off + ?k, new))) = Some (Inr (hp', coll', off', new'))"
    using less.prems(1) by (subst (asm) append_row_groups.simps) (auto simp: Let_def split: option.splits sum.splits)
  have "chunk_ok types chunk ?k" using less.prems(5) by (auto simp: chunk_ok_def intro: format_ok_less elim!: list_all2_mono)
  from append_to_last_result [OF c1 less.prems(2,3) this]
  obtain g1 where g1: "rc_groups coll1 = gs @ [g1]" "group_ready types (off + ?k) g1" "rg_start g1 = rg_start g" "rg_count g1 = rg_count g"
    "\<forall>i < length types. stored_rows (rg_columns g1 ! i) = stored_rows (rg_columns g ! i) @ chunk_rows types chunk ?k i"
    "rc_types coll1 = types" "rc_row_start coll1 = rc_row_start coll" "rc_total_rows coll1 = rc_total_rows coll"
    using less.prems(6) by auto
  show ?case
  proof (cases "n - ?k > 0")
    case False
    then have k: "?k = n" and stop: "coll' = coll1" "off' = off + ?k" using rest by auto
    then show ?thesis
      using g1 less.prems(4) assms(1)
      by (intro exI [of _ "[g1]"]) (auto simp: appended_groups_def min_def split: if_splits)
  next
    case True
    then have full: "off + ?k = capacity" "?k < n" using less.prems(4) by auto
    obtain hp2 coll2 where nxt: "next_row_group hs conf tn alloc b capacity hp coll1 = Inr (hp2, coll2)"
      and loop: "append_row_groups hs conf tn alloc b capacity (if n - ?k < n then chunk_Slice ?k chunk else chunk)
        (n - ?k) hp2 coll2 (rg_count (last (rc_groups coll2))) True = Some (Inr (hp', coll', off', new'))"
      using rest True full(1) by (auto split: sum.splits prod.splits)
    obtain g2 fresh where g2: "rc_groups coll2 = gs @ [g2, fresh]" "group_holds types capacity g2" "rg_start g2 = rg_start g1" "rg_count g2 = rg_count g1"
      "\<forall>i < length types. stored_rows (rg_columns g2 ! i) = stored_rows (rg_columns g1 ! i) \<and> stored_rows (rg_columns fresh ! i) = []"
      "group_ready types 0 fresh" "rg_start fresh = rg_start g1 + capacity" "rg_count fresh = 0"
      "rc_types coll2 = types" "rc_row_start coll2 = rc_row_start coll" "rc_total_rows coll2 = rc_total_rows coll"
      using next_row_group_result [OF nxt g1(1) _ g1(6) assms(2), of capacity] group_ready_holds g1(2,7,8) full(1) by auto
    let ?chunk = "chunk_Slice ?k chunk"
    have chunk: "(if n - ?k < n then ?chunk else chunk) = ?chunk"
    proof (cases "?k = 0")
      case True
      then show ?thesis by (simp add: chunk_Slice_def)
    qed (use full in auto)
    note slice = chunk_Slice_ok [OF less.prems(5) less_imp_le [OF full(2)]]
    have smaller: "2 * (n - ?k) + (if 0 = capacity then 1 else 0) < 2 * n + (if off = capacity then 1 else 0)"
      using assms(1) full less.prems(4) by (cases "off = capacity") auto
    obtain out where out: "rc_groups coll' = (gs @ [g2]) @ out" "appended_groups types capacity 0 (n - ?k) ?chunk fresh out off'"
      "rc_types coll' = types" "rc_row_start coll' = rc_row_start coll2" "rc_total_rows coll' = rc_total_rows coll2"
      using less.hyps [OF smaller loop [unfolded chunk g2(1), simplified, unfolded g2(8)], of "gs @ [g2]" fresh] g2(1,6,9) slice(1) assms(1) by auto
    have "groups_rows (g2 # out) i = stored_rows (rg_columns g ! i) @ chunk_rows types chunk n i" if "i < length types" for i
      using that out(2) g2(5) g1(5) slice(2) [OF that] by (simp add: appended_groups_def)
    moreover have "off + n = capacity * (length (g2 # out) - 1) + off'"
      using out(2) full by (cases out) (auto simp: appended_groups_def)
    moreover have "list_all (\<lambda>g. rg_count g = 0) out" using out(2) g2(8) by (cases out) (auto simp: appended_groups_def)
    ultimately have "appended_groups types capacity off n chunk g (g2 # out) off'"
      using out(2) g2 g1 full by (auto simp: appended_groups_def)
    then show ?thesis using out g2 by (intro exI [of _ "g2 # out"]) simp
  qed
qed

subsection \<open>Making an append final\<close>

text \<open>The counts of the row groups an append filled, once they are set.\<close>

definition counted_groups :: "nat \<Rightarrow> nat \<Rightarrow> row_group list \<Rightarrow> row_group list \<Rightarrow> bool" where
  "counted_groups capacity off gs gs' \<longleftrightarrow>
     length gs' = length gs \<and>
     (\<forall>j < length gs. gs' ! j = (gs ! j)\<lparr>rg_count := (if Suc j = length gs then off else capacity)\<rparr>)"

lemma finalize_row_groups_counts:
  "rg_count (hd gs) \<le> capacity \<Longrightarrow> gs \<noteq> [] \<Longrightarrow> list_all (\<lambda>g. rg_count g = 0) (tl gs) \<Longrightarrow> off \<le> capacity \<Longrightarrow>
   (0 < n \<longrightarrow> 0 < off) \<Longrightarrow> (n = 0 \<longrightarrow> length gs = 1) \<Longrightarrow> rg_count (hd gs) + n = capacity * (length gs - 1) + off \<Longrightarrow>
   \<exists>gs'. finalize_row_groups capacity n gs = Inr gs' \<and> counted_groups capacity off gs gs'"
proof (induction gs arbitrary: n)
  case Nil
  then show ?case by simp
next
  case (Cons g gs)
  show ?case
  proof (cases n)
    case 0
    then show ?thesis using Cons.prems by (cases gs) (auto simp: counted_groups_def)
  next
    case (Suc m)
    let ?k = "min n (capacity - rg_count g)"
    have step: "finalize_row_groups capacity n (g # gs) =
        bind_result (finalize_row_groups capacity (n - ?k) gs) (\<lambda>gs. Inr (AppendVersionInfo capacity ?k g # gs))"
      by (simp add: Suc Let_def)
    show ?thesis
    proof (cases gs)
      case Nil
      then have "n - ?k = 0" "AppendVersionInfo capacity ?k g = g\<lparr>rg_count := off\<rparr>"
        using Cons.prems by (auto simp: AppendVersionInfo_def Let_def min_def)
      then show ?thesis using step Nil by (simp add: counted_groups_def)
    next
      case (Cons h hs)
      have n: "rg_count g + n = capacity + capacity * length hs + off" "0 < off" "rg_count h = 0" "rg_count g \<le> capacity"
        using Cons.prems Suc Cons by auto
      then have k: "?k = capacity - rg_count g" "n - ?k = capacity * length hs + off"
        "AppendVersionInfo capacity ?k g = g\<lparr>rg_count := capacity\<rparr>"
        by (auto simp: AppendVersionInfo_def Let_def min_def)
      obtain gs' where gs': "finalize_row_groups capacity (n - ?k) gs = Inr gs'" "counted_groups capacity off gs gs'"
        using Cons.IH [of "n - ?k"] Cons.prems n k(2) Cons by auto
      have "counted_groups capacity off (g # gs) (g\<lparr>rg_count := capacity\<rparr> # gs')"
        using gs'(2) Cons by (auto simp: counted_groups_def nth_Cons split: nat.split)
      then show ?thesis using step gs'(1) k(3) by auto
    qed
  qed
qed

subsection \<open>The invariant of a collection\<close>

definition collection_ok :: "nat \<Rightarrow> row_group_collection \<Rightarrow> bool" where
  "collection_ok capacity coll \<longleftrightarrow>
     flat_types (rc_types coll) \<and>
     list_all (\<lambda>g. rg_count g \<le> capacity \<and> group_holds (rc_types coll) (rg_count g) g) (rc_groups coll) \<and>
     contiguous (map group_node (rc_groups coll)) \<and>
     (rc_groups coll \<noteq> [] \<longrightarrow> rg_start (hd (rc_groups coll)) = rc_row_start coll) \<and>
     rc_total_rows coll = sum_list (map rg_count (rc_groups coll))"

lemma group_holds_count [simp]: "group_holds types k (g\<lparr>rg_count := c\<rparr>) = group_holds types k g"
  by (simp add: group_holds_def)

lemma contiguous_from_counts:
  "contiguous_from p (map (\<lambda>g. \<lparr>row_start = rg_start g, node_count = capacity\<rparr>) gs) \<Longrightarrow>
   counted_groups capacity off gs gs' \<Longrightarrow> contiguous_from p (map group_node gs')"
proof (induction gs arbitrary: p gs')
  case (Cons g gs)
  then obtain h hs where gs': "gs' = h # hs" by (cases gs') (auto simp: counted_groups_def)
  have h: "h = g\<lparr>rg_count := (if gs = [] then off else capacity)\<rparr>"
    using Cons.prems(2) by (auto simp: counted_groups_def gs' dest: spec [of _ 0])
  have "counted_groups capacity off gs hs"
  proof -
    have "hs ! j = (gs ! j)\<lparr>rg_count := (if Suc j = length gs then off else capacity)\<rparr>" if "j < length gs" for j
    proof -
      have "gs' ! Suc j = ((g # gs) ! Suc j)\<lparr>rg_count := (if Suc (Suc j) = length (g # gs) then off else capacity)\<rparr>"
        using Cons.prems(2) that unfolding counted_groups_def by simp
      then show ?thesis by (simp add: gs')
    qed
    then show ?thesis using Cons.prems(2) by (simp add: counted_groups_def gs')
  qed
  then show ?case
    using Cons.IH [of "p + capacity" hs] Cons.prems(1) h by (auto simp: gs' group_node_def counted_groups_def)
qed (simp add: counted_groups_def)

lemma counted_groups_rows:
  assumes "counted_groups capacity off gs gs'"
  shows "groups_rows gs' i = groups_rows gs i"
proof -
  have "map (\<lambda>g. stored_rows (rg_columns g ! i)) gs' = map (\<lambda>g. stored_rows (rg_columns g ! i)) gs"
    using assms by (auto simp: counted_groups_def intro!: nth_equalityI)
  then show ?thesis by (simp add: groups_rows_def)
qed

lemma counted_groups_sum:
  assumes "counted_groups capacity off gs gs'" "gs \<noteq> []"
  shows "sum_list (map rg_count gs') = capacity * (length gs - 1) + off"
proof -
  have "map rg_count gs' = replicate (length gs - 1) capacity @ [off]"
    using assms by (intro nth_equalityI) (auto simp: counted_groups_def nth_append)
  then show ?thesis by (simp add: sum_list_replicate)
qed

lemma groups_end:
  assumes "contiguous (map group_node gs)" "gs \<noteq> []"
  shows "node_end (group_node (last gs)) = rg_start (hd gs) + sum_list (map rg_count gs)"
proof -
  have "contiguous_from p (map group_node gs) \<Longrightarrow> gs \<noteq> [] \<Longrightarrow> node_end (group_node (last gs)) = p + sum_list (map rg_count gs)" for p
    by (induction gs arbitrary: p) (auto simp: group_node_def node_end_def)
  then show ?thesis using assms by (cases gs) (auto simp: contiguous_def group_node_def)
qed

lemma collection_InitializeAppend_result:
  assumes "collection_ok capacity coll" "collection_InitializeAppend b coll = (state, coll')"
  shows "\<exists>gs g. rc_groups coll' = gs @ [g] \<and> state = \<lparr>offset_in_row_group = rg_count g, total_append_count = 0, start_row_group = length gs\<rparr> \<and>
    group_ready (rc_types coll) (rg_count g) g \<and> rg_count g \<le> capacity \<and>
    list_all (\<lambda>g. rg_count g \<le> capacity \<and> group_holds (rc_types coll) (rg_count g) g) gs \<and>
    contiguous (map group_node (gs @ [g])) \<and> rg_start (hd (gs @ [g])) = rc_row_start coll \<and>
    sum_list (map rg_count (gs @ [g])) = rc_total_rows coll \<and>
    (\<forall>i < length (rc_types coll). groups_rows (gs @ [g]) i = groups_rows (rc_groups coll) i) \<and>
    rc_types coll' = rc_types coll \<and> rc_row_start coll' = rc_row_start coll \<and> rc_total_rows coll' = rc_total_rows coll"
proof -
  note ok = assms(1) [unfolded collection_ok_def]
  define coll1 where "coll1 = (if rc_groups coll = [] \<or> rc_requires_new coll
      then AppendRowGroup (rc_row_start coll + rc_total_rows coll) coll else coll)"
  define gs where "gs = butlast (rc_groups coll1)"
  define g where "g = last (rc_groups coll1)"
  let ?new = "RowGroup_InitializeEmpty (rc_types coll) (rc_row_start coll + rc_total_rows coll)"
  have new: "group_holds (rc_types coll) 0 ?new" "rg_count ?new = 0" "rg_start ?new = rc_row_start coll + rc_total_rows coll"
    "i < length (rc_types coll) \<Longrightarrow> stored_rows (rg_columns ?new ! i) = []" for i
    using new_group_holds ok by (simp_all add: RowGroup_InitializeEmpty_def new_column_def stored_rows_def)
  have start: "rg_start ?new = node_end (last (map group_node (rc_groups coll)))" if "rc_groups coll \<noteq> []"
    unfolding new(3) using ok that groups_end [of "rc_groups coll"] by (simp add: last_map)
  have "rc_groups coll1 = gs @ [g]" "list_all (\<lambda>g. rg_count g \<le> capacity \<and> group_holds (rc_types coll) (rg_count g) g) (gs @ [g])"
    "contiguous (map group_node (gs @ [g]))" "rg_start (hd (gs @ [g])) = rc_row_start coll"
    "sum_list (map rg_count (gs @ [g])) = rc_total_rows coll"
    "\<forall>i < length (rc_types coll). groups_rows (gs @ [g]) i = groups_rows (rc_groups coll) i"
  proof -
    have ne: "rc_groups coll1 \<noteq> []" by (simp add: coll1_def AppendRowGroup_def)
    then show split: "rc_groups coll1 = gs @ [g]" by (simp add: gs_def g_def)
    show "list_all (\<lambda>g. rg_count g \<le> capacity \<and> group_holds (rc_types coll) (rg_count g) g) (gs @ [g])"
      "contiguous (map group_node (gs @ [g]))" "rg_start (hd (gs @ [g])) = rc_row_start coll"
      "sum_list (map rg_count (gs @ [g])) = rc_total_rows coll"
      "\<forall>i < length (rc_types coll). groups_rows (gs @ [g]) i = groups_rows (rc_groups coll) i"
      unfolding split [symmetric] coll1_def AppendRowGroup_def using ok new start
      by (auto simp: contiguous_snoc group_node_def hd_append)
  qed
  moreover have "state = \<lparr>offset_in_row_group = rg_count g, total_append_count = 0, start_row_group = length gs\<rparr>"
    "coll' = coll1\<lparr>rc_groups := gs @ [RowGroup_InitializeAppend b g]\<rparr>"
    using assms(2) \<open>rc_groups coll1 = gs @ [g]\<close>
    by (auto simp: collection_InitializeAppend_def Let_def coll1_def [symmetric])
  moreover have "rc_types coll1 = rc_types coll" "rc_row_start coll1 = rc_row_start coll" "rc_total_rows coll1 = rc_total_rows coll"
    by (simp_all add: coll1_def AppendRowGroup_def)
  ultimately show ?thesis
    using RowGroup_InitializeAppend_ready [of "rc_types coll" "rg_count g" g, where b = b]
    by (intro exI [of _ gs] exI [of _ "RowGroup_InitializeAppend b g"]) (auto simp: group_node_def contiguous_snoc hd_append)
qed

lemma list_all_butlast_last: "xs \<noteq> [] \<Longrightarrow> list_all P xs \<longleftrightarrow> list_all P (butlast xs) \<and> P (last xs)"
  by (cases xs rule: rev_cases) auto

lemma counted_groups_hold:
  assumes "counted_groups capacity off gs gs'" "gs \<noteq> []" "list_all (group_holds types capacity) (butlast gs)"
    and "group_holds types off (last gs)" "off \<le> capacity"
  shows "list_all (\<lambda>g. rg_count g \<le> capacity \<and> group_holds types (rg_count g) g) gs'"
proof -
  have "rg_count (gs' ! j) \<le> capacity \<and> group_holds types (rg_count (gs' ! j)) (gs' ! j)" if "j < length gs" for j
  proof (cases "Suc j = length gs")
    case True
    then have "gs ! j = last gs" using assms(2) by (metis diff_Suc_1 last_conv_nth)
    then show ?thesis using assms(1,4,5) that True by (simp add: counted_groups_def)
  next
    case False
    then have "group_holds types capacity (gs ! j)"
      using assms(3) that by (auto simp: list_all_length nth_butlast)
    then show ?thesis using assms(1) that False by (simp add: counted_groups_def)
  qed
  then show ?thesis using assms(1) by (auto simp: list_all_length counted_groups_def)
qed

lemma collection_append_ok:
  assumes "collection_ok capacity coll" "0 < capacity" "chunk_ok (rc_types coll) chunk n"
    and "collection_InitializeAppend b coll = (state, coll1)"
    and "collection_Append hs conf tn alloc b capacity chunk n hp coll1 state = Some (Inr (hp', coll2, state', new))"
  shows "\<exists>coll3. collection_FinalizeAppend capacity coll2 state' = Inr coll3 \<and> collection_ok capacity coll3 \<and>
    (\<forall>i < length (rc_types coll). groups_rows (rc_groups coll3) i = groups_rows (rc_groups coll) i @ chunk_rows (rc_types coll) chunk n i) \<and>
    rc_total_rows coll3 = rc_total_rows coll + n \<and> rc_types coll3 = rc_types coll \<and> rc_row_start coll3 = rc_row_start coll"
proof -
  let ?types = "rc_types coll"
  have flat: "flat_types ?types" using assms(1) by (simp add: collection_ok_def)
  obtain gs g where g: "rc_groups coll1 = gs @ [g]"
    and state: "state = \<lparr>offset_in_row_group = rg_count g, total_append_count = 0, start_row_group = length gs\<rparr>"
    and ready: "group_ready ?types (rg_count g) g" "rg_count g \<le> capacity"
    and gs: "list_all (\<lambda>g. rg_count g \<le> capacity \<and> group_holds ?types (rg_count g) g) gs" "contiguous (map group_node (gs @ [g]))"
      "rg_start (hd (gs @ [g])) = rc_row_start coll" "sum_list (map rg_count (gs @ [g])) = rc_total_rows coll"
    and rows: "\<forall>i < length ?types. groups_rows (gs @ [g]) i = groups_rows (rc_groups coll) i"
    and same: "rc_types coll1 = ?types" "rc_row_start coll1 = rc_row_start coll" "rc_total_rows coll1 = rc_total_rows coll"
    using collection_InitializeAppend_result [OF assms(1,4)] by blast
  obtain off where loop: "append_row_groups hs conf tn alloc b capacity chunk n hp coll1 (rg_count g) False = Some (Inr (hp', coll2, off, new))"
    and state': "state' = \<lparr>offset_in_row_group = off, total_append_count = n, start_row_group = length gs\<rparr>"
    using assms(5) by (auto simp: collection_Append_def bind_loop_Inr_iff state)
  obtain out where out: "rc_groups coll2 = gs @ out" "appended_groups ?types capacity (rg_count g) n chunk g out off"
    and same2: "rc_types coll2 = ?types" "rc_row_start coll2 = rc_row_start coll1" "rc_total_rows coll2 = rc_total_rows coll1"
    using append_row_groups_result [OF assms(2) flat loop g ready assms(3) same(1)] by blast
  note o = out(2) [unfolded appended_groups_def]
  obtain fin where fin: "finalize_row_groups capacity n out = Inr fin" "counted_groups capacity off out fin"
    using finalize_row_groups_counts [of out capacity off n] o ready(2) by auto
  define coll3 where "coll3 = coll2\<lparr>rc_groups := gs @ fin, rc_total_rows := rc_total_rows coll2 + n\<rparr>"
  have final: "collection_FinalizeAppend capacity coll2 state' = Inr coll3"
    using fin(1) by (simp add: collection_FinalizeAppend_def state' out(1) coll3_def)
  have counts: "sum_list (map rg_count fin) = rg_count g + n" using counted_groups_sum [OF fin(2)] o by simp
  have hold: "list_all (\<lambda>g. rg_count g \<le> capacity \<and> group_holds ?types (rg_count g) g) fin"
    by (rule counted_groups_hold [OF fin(2)]) (use o group_ready_holds in auto)
  have cont: "contiguous_from (rg_start g) (map group_node fin)"
    using contiguous_from_counts [OF _ fin(2)] o by blast
  then have fin_ne: "fin \<noteq> []" "rg_start (hd fin) = rg_start g"
    using fin(2) o by (cases fin; simp add: counted_groups_def group_node_def)+
  have "contiguous (map group_node (gs @ fin))"
  proof (cases "gs = []")
    case True
    then show ?thesis using cont fin_ne by (simp add: contiguous_def hd_map group_node_def)
  next
    case False
    have "contiguous_from (rg_start (hd gs)) (map group_node (gs @ [g]))"
      using gs(2) False by (simp add: contiguous_def hd_map group_node_def)
    then show ?thesis
      using cont False by (simp add: contiguous_def contiguous_from_append hd_map hd_append group_node_def)
  qed
  moreover have "rg_start (hd (gs @ fin)) = rc_row_start coll" using gs(3) fin_ne by (cases gs) auto
  ultimately have "collection_ok capacity coll3"
    using flat gs(1,4) hold counts same same2 by (simp add: collection_ok_def coll3_def)
  moreover have "groups_rows (gs @ fin) i = groups_rows (rc_groups coll) i @ chunk_rows ?types chunk n i" if "i < length ?types" for i
    using that rows [rule_format, OF that] o counted_groups_rows [OF fin(2)] by simp
  ultimately show ?thesis using final same same2 by (intro exI [of _ coll3]) (simp add: coll3_def)
qed

subsection \<open>The loop ends\<close>

lemma append_row_groups_returns:
  assumes "0 < capacity" "flat_types types" "4096 \<le> b"
  shows "rc_groups coll = gs @ [g] \<Longrightarrow> group_ready types off g \<Longrightarrow> off \<le> capacity \<Longrightarrow> chunk_ok types chunk n \<Longrightarrow> rc_types coll = types \<Longrightarrow>
    \<exists>r. append_row_groups hs conf tn alloc b capacity chunk n hp coll off new = Some r"
proof (induction "2 * n + (if off = capacity then 1 else 0)" arbitrary: chunk n hp coll off new gs g rule: less_induct)
  case less
  let ?k = "min n (capacity - off)"
  have chunk: "chunk_ok types chunk ?k" using less.prems(4) by (auto simp: chunk_ok_def intro: format_ok_less elim!: list_all2_mono)
  obtain r where r: "append_to_last b chunk ?k coll = Some r"
    using append_to_last_returns [OF less.prems(1,2) chunk assms(3)] by blast
  have loop: "\<exists>r. append_row_groups hs conf tn alloc b capacity (if n - ?k < n then chunk_Slice ?k chunk else chunk)
      (n - ?k) hp2 coll2 (rg_count (last (rc_groups coll2))) True = Some r"
    if coll1: "r = Inr coll1" and more: "n - ?k > 0" and nxt: "next_row_group hs conf tn alloc b (off + ?k) hp coll1 = Inr (hp2, coll2)"
    for coll1 hp2 coll2
  proof -
    have full: "off + ?k = capacity" "?k < n" using less.prems(3) more by auto
    obtain g1 where g1: "rc_groups coll1 = gs @ [g1]" "group_ready types (off + ?k) g1" "rc_types coll1 = types"
      using append_to_last_result [OF r [unfolded coll1] less.prems(1,2) chunk] less.prems(5) by auto
    obtain g2 fresh where g2: "rc_groups coll2 = gs @ [g2, fresh]" "group_ready types 0 fresh" "rg_count fresh = 0" "rc_types coll2 = types"
      using next_row_group_result [OF nxt g1(1) group_ready_holds [OF g1(2)] g1(3) assms(2)] by blast
    have smaller: "2 * (n - ?k) + (if 0 = capacity then 1 else 0) < 2 * n + (if off = capacity then 1 else 0)"
      using assms(1) full less.prems(3) by (cases "off = capacity") auto
    have "chunk_ok types (if n - ?k < n then chunk_Slice ?k chunk else chunk) (n - ?k)"
      using chunk_Slice_ok(1) [OF less.prems(4) less_imp_le [OF full(2)]] less.prems(4) by (cases "?k = 0") auto
    then show ?thesis
      using less.hyps [OF smaller, of coll2 "gs @ [g2]" fresh _ hp2 True] g2 by simp
  qed
  define k where "k = ?k"
  note loop = loop [folded k_def] and r = r [folded k_def]
  show ?case
    unfolding append_row_groups.simps [of hs conf tn alloc b capacity chunk n hp coll off new] Let_def k_def [symmetric] r
  proof (cases r)
    case (Inr coll1)
    show "\<exists>x. (case Some r of None \<Rightarrow> None | Some (Inl e) \<Rightarrow> Some (Inl e)
        | Some (Inr coll) \<Rightarrow>
            if 0 < n - k
            then (case next_row_group hs conf tn alloc b (off + k) hp coll of Inl e \<Rightarrow> Some (Inl e)
                  | Inr (hp, coll) \<Rightarrow>
                      append_row_groups hs conf tn alloc b capacity (if n - k < n then chunk_Slice k chunk else chunk)
                        (n - k) hp coll (rg_count (last (rc_groups coll))) True)
            else Some (Inr (hp, coll, off + k, new))) = Some x"
      using loop [OF Inr] Inr
      by (cases "next_row_group hs conf tn alloc b (off + k) hp coll1"; cases "0 < n - k"; cases "n - k < n") (auto split: prod.split)
  qed simp
qed

subsection \<open>Reverting\<close>

lemma column_fit_RevertAppend:
  assumes "column_fit col" "cd_start col \<le> r" "length (cd_segments col) < 2 ^ 62" "length (cd_validity col) < 2 ^ 62"
  shows "\<exists>col'. column_RevertAppend r col = Some (Inr col') \<and> column_fit col' \<and>
    stored_rows col' = take (r - cd_start col) (stored_rows col) \<and> cd_type col' = cd_type col \<and> cd_start col' = cd_start col"
proof -
  obtain hs conf n i c hp where ok: "column_ok hs conf n i c hp (forget col)" using assms(1) by (auto simp: column_fit_def)
  obtain col0 where col0: "column_RevertAppend r (forget col) = Some (Inr col0)"
    using column_RevertAppend_returns [OF ok] assms(2-4) by auto
  then obtain col' where col': "column_RevertAppend r col = Some (Inr col')" "forget col' = col0"
    by (fastforce simp: column_RevertAppend_def bind_loop_Inr_iff forget_def)
  note r = column_RevertAppend_ok [OF col0 ok]
  have "cd_type col' = cd_type col" "cd_start col' = cd_start col"
    using col'(1) by (auto simp: column_RevertAppend_def bind_loop_Inr_iff)
  moreover have "stored_rows col' = stored_rows col0" using col'(2) by auto
  moreover have "column_ok hs conf n i c hp (forget col')" using r(1) assms(3,4) col'(2) by simp
  then have "column_fit col'" unfolding column_fit_def by blast
  ultimately show ?thesis using col'(1) r(2) assms(3,4) by auto
qed

definition trees_small :: "row_group \<Rightarrow> bool" where
  "trees_small g \<longleftrightarrow> list_all (\<lambda>col. length (cd_segments col) < 2 ^ 62 \<and> length (cd_validity col) < 2 ^ 62) (rg_columns g)"

lemma revert_columns_result:
  "list_all2 (\<lambda>t col. column_fit col \<and> cd_type col = t \<and> cd_start col = start \<and> length (stored_rows col) = k) types cols \<Longrightarrow>
   list_all (\<lambda>col. length (cd_segments col) < 2 ^ 62 \<and> length (cd_validity col) < 2 ^ 62) cols \<Longrightarrow> start \<le> r \<Longrightarrow>
   \<exists>cols'. revert_columns r cols = Some (Inr cols') \<and>
     list_all2 (\<lambda>t col. column_fit col \<and> cd_type col = t \<and> cd_start col = start \<and> length (stored_rows col) = min (r - start) k) types cols' \<and>
     (\<forall>i < length types. stored_rows (cols' ! i) = take (r - start) (stored_rows (cols ! i)))"
proof (induction cols arbitrary: types)
  case (Cons col cols)
  then obtain t ts where types: "types = t # ts" by (cases types) auto
  have col: "column_fit col" "cd_type col = t" "cd_start col = start" "length (stored_rows col) = k"
    "length (cd_segments col) < 2 ^ 62" "length (cd_validity col) < 2 ^ 62"
    using Cons.prems by (auto simp: types)
  obtain col' where c: "column_RevertAppend r col = Some (Inr col')" "column_fit col'"
    "stored_rows col' = take (r - start) (stored_rows col)" "cd_type col' = t" "cd_start col' = start"
    using column_fit_RevertAppend [OF col(1) _ col(5,6)] col(2,3) Cons.prems(3) by auto
  obtain cols' where cs: "revert_columns r cols = Some (Inr cols')"
    "list_all2 (\<lambda>t col. column_fit col \<and> cd_type col = t \<and> cd_start col = start \<and> length (stored_rows col) = min (r - start) k) ts cols'"
    "\<forall>i < length ts. stored_rows (cols' ! i) = take (r - start) (stored_rows (cols ! i))"
    using Cons.IH [of ts] Cons.prems by (auto simp: types)
  show ?case
    using c cs col(4) by (intro exI [of _ "col' # cols'"]) (auto simp: types nth_Cons min.commute split: nat.split)
qed simp

lemma RowGroup_RevertAppend_result:
  assumes "group_holds types (rg_count g) g" "trees_small g" "rg_start g \<le> r"
  shows "\<exists>g'. RowGroup_RevertAppend r g = Some (Inr g') \<and> group_holds types (rg_count g') g' \<and> rg_start g' = rg_start g \<and>
    rg_count g' = min (r - rg_start g) (rg_count g) \<and>
    (\<forall>i < length types. stored_rows (rg_columns g' ! i) = take (r - rg_start g) (stored_rows (rg_columns g ! i)))"
proof -
  obtain cols where "revert_columns r (rg_columns g) = Some (Inr cols)"
    "list_all2 (\<lambda>t col. column_fit col \<and> cd_type col = t \<and> cd_start col = rg_start g \<and>
       length (stored_rows col) = min (r - rg_start g) (rg_count g)) types cols"
    "\<forall>i < length types. stored_rows (cols ! i) = take (r - rg_start g) (stored_rows (rg_columns g ! i))"
    using revert_columns_result [OF assms(1) [unfolded group_holds_def] assms(2) [unfolded trees_small_def] assms(3)] by auto
  then show ?thesis by (simp add: RowGroup_RevertAppend_def group_holds_def)
qed

lemma groups_rows_length:
  "list_all (\<lambda>g. group_holds types (rg_count g) g) gs \<Longrightarrow> i < length types \<Longrightarrow> length (groups_rows gs i) = sum_list (map rg_count gs)"
  by (induction gs) (auto simp: group_holds_def list_all2_conv_all_nth)

lemma RevertAppendInternal_ok:
  assumes "collection_ok capacity coll" "rc_row_start coll = 0" "r \<le> rc_total_rows coll"
    and "length (rc_groups coll) < 2 ^ 62" "list_all trees_small (rc_groups coll)"
  shows "\<exists>coll'. RevertAppendInternal r coll = Some (Inr coll') \<and> collection_ok capacity coll' \<and> rc_total_rows coll' = r \<and>
    rc_types coll' = rc_types coll \<and> rc_row_start coll' = 0 \<and>
    (\<forall>i < length (rc_types coll). groups_rows (rc_groups coll') i = take r (groups_rows (rc_groups coll) i))"
proof (cases "rc_groups coll = []")
  case True
  then show ?thesis using assms by (simp add: RevertAppendInternal_def Let_def collection_ok_def contiguous_def)
next
  case False
  let ?gs = "rc_groups coll" and ?types = "rc_types coll"
  note ok = assms(1) [unfolded collection_ok_def]
  let ?found = "TryGetSegmentIndex r (map group_node ?gs)"
  have answer: "search_answer r (map group_node ?gs) ?found"
    using TryGetSegmentIndex_answer [of "map group_node ?gs" r] ok assms(4) False by simp
  have hd: "rg_start (hd ?gs) = 0" using ok False assms(2) by simp
  have total: "node_end (group_node (last ?gs)) = rc_total_rows coll" using groups_end [of ?gs] ok False hd by simp
  define k where "k = (case ?found of Some (Inr (Some i)) \<Rightarrow> i | _ \<Rightarrow> length ?gs - 1)"
  have k: "k < length ?gs" and inside: "rg_start (?gs ! k) \<le> r" "r \<le> rg_start (?gs ! k) + rg_count (?gs ! k)"
    and found: "\<exists>found. ?found = Some (Inr found) \<and> k = (case found of Some i \<Rightarrow> i | None \<Rightarrow> length ?gs - 1)"
  proof -
    have hd_node: "row_start (hd (map group_node ?gs)) = 0" using hd False by (simp add: hd_map group_node_def)
    consider i where "?found = Some (Inr (Some i))" "i < length ?gs" "holds_row (group_node (?gs ! i)) r"
      | "?found = Some (Inr None)" "\<forall>i < length ?gs. rg_start (?gs ! i) + rg_count (?gs ! i) \<le> r"
      using answer hd_node by (auto simp: search_answer_def group_node_def split: option.splits sum.splits)
    then have "k < length ?gs \<and> rg_start (?gs ! k) \<le> r \<and> r \<le> rg_start (?gs ! k) + rg_count (?gs ! k) \<and>
      (\<exists>found. ?found = Some (Inr found) \<and> k = (case found of Some i \<Rightarrow> i | None \<Rightarrow> length ?gs - 1))"
    proof cases
      case 1
      then show ?thesis by (auto simp: k_def holds_row_def group_node_def)
    next
      case 2
      then have "rg_start (?gs ! k) + rg_count (?gs ! k) \<le> r" "k = length ?gs - 1" using False by (auto simp: k_def)
      then have "rg_start (?gs ! k) \<le> r" by linarith
      then show ?thesis using 2 \<open>k = length ?gs - 1\<close> False total assms(3) by (auto simp: last_conv_nth group_node_def node_end_def)
    qed
    then show "k < length ?gs" "rg_start (?gs ! k) \<le> r" "r \<le> rg_start (?gs ! k) + rg_count (?gs ! k)"
      "\<exists>found. ?found = Some (Inr found) \<and> k = (case found of Some i \<Rightarrow> i | None \<Rightarrow> length ?gs - 1)" by auto
  qed
  let ?xs = "take k ?gs" and ?g = "?gs ! k" and ?ys = "drop (Suc k) ?gs"
  have gs: "?gs = ?xs @ ?g # ?ys" using k by (rule id_take_nth_drop)
  have hold: "list_all (\<lambda>g. rg_count g \<le> capacity \<and> group_holds ?types (rg_count g) g) (?xs @ [?g])"
    using ok k by (auto simp: list_all_iff dest: in_set_takeD)
  have cont: "contiguous (map group_node (?xs @ [?g]))"
    using contiguous_take [of "map group_node ?gs" "Suc k"] ok k by (simp add: take_map [symmetric] take_Suc_conv_app_nth)
  have "?xs @ [?g] = take (Suc k) ?gs" using k by (simp add: take_Suc_conv_app_nth)
  then have first: "rg_start (hd (?xs @ [?g])) = 0" using hd by simp
  then have start: "rg_start ?g = sum_list (map rg_count ?xs)"
    using groups_end [OF cont] by (simp add: group_node_def node_end_def)
  have rows: "take r (groups_rows ?gs i) = groups_rows ?xs i @ take (r - rg_start ?g) (stored_rows (rg_columns ?g ! i))"
    if "i < length ?types" for i
  proof -
    have "length (groups_rows ?xs i) = rg_start ?g" "length (stored_rows (rg_columns ?g ! i)) = rg_count ?g"
      using groups_rows_length [of ?types ?xs i] hold that start by (auto simp: list_all_iff group_holds_def list_all2_conv_all_nth)
    then show ?thesis using inside by (subst gs) simp
  qed
  have select: "RevertAppendInternal r coll =
      (if rg_start ?g = r then Some (Inr (coll\<lparr>rc_total_rows := r, rc_groups := EraseSegments k ?gs\<rparr>))
       else bind_loop (RowGroup_RevertAppend r ?g) (\<lambda>segment.
         Some (Inr (coll\<lparr>rc_total_rows := r, rc_groups := (EraseSegments (k + 1) ?gs)[k := segment]\<rparr>))))"
  proof -
    obtain found where "?found = Some (Inr found)" "k = (case found of Some i \<Rightarrow> i | None \<Rightarrow> length ?gs - 1)" using found by blast
    then show ?thesis using False by (cases found) (simp_all add: RevertAppendInternal_def Let_def)
  qed
  show ?thesis
  proof (cases "rg_start ?g = r")
    case True
    have "RevertAppendInternal r coll = Some (Inr (coll\<lparr>rc_total_rows := r, rc_groups := ?xs\<rparr>))"
      unfolding select using True k by (simp add: EraseSegments_def)
    moreover have "collection_ok capacity (coll\<lparr>rc_total_rows := r, rc_groups := ?xs\<rparr>)"
      using ok hold cont start True by (auto simp: collection_ok_def contiguous_snoc)
    ultimately show ?thesis using rows True assms(2) by auto
  next
    case inner: False
    have "group_holds ?types (rg_count ?g) ?g" "trees_small ?g" using hold assms(5) k by (simp_all add: list_all_length [of trees_small])
    then obtain g' where g': "RowGroup_RevertAppend r ?g = Some (Inr g')" "group_holds ?types (rg_count g') g'" "rg_start g' = rg_start ?g"
      "rg_count g' = min (r - rg_start ?g) (rg_count ?g)"
      "\<forall>i < length ?types. stored_rows (rg_columns g' ! i) = take (r - rg_start ?g) (stored_rows (rg_columns ?g ! i))"
      using RowGroup_RevertAppend_result inside(1) by blast
    have "(EraseSegments (Suc k) ?gs)[k := g'] = ?xs @ [g']"
    proof -
      have "EraseSegments (Suc k) ?gs = take (Suc k) ?gs" by (simp add: EraseSegments_def)
      then show ?thesis using k by (simp add: take_Suc_conv_app_nth list_update_append)
    qed
    then have "RevertAppendInternal r coll = Some (Inr (coll\<lparr>rc_total_rows := r, rc_groups := ?xs @ [g']\<rparr>))"
      unfolding select using inner g'(1) by simp
    moreover have "collection_ok capacity (coll\<lparr>rc_total_rows := r, rc_groups := ?xs @ [g']\<rparr>)"
    proof -
      have "list_all (\<lambda>g. rg_count g \<le> capacity \<and> group_holds ?types (rg_count g) g) (?xs @ [g'])"
        using hold g'(2,4) by (simp add: min_le_iff_disj)
      moreover have "contiguous (map group_node (?xs @ [g']))"
        using cont by (simp add: contiguous_snoc group_node_def g'(3))
      moreover have "rg_start (hd (?xs @ [g'])) = 0" using first g'(3)
        by (cases "?xs = []") (simp_all only: append_Nil list.sel(1) hd_append2 [of ?xs] not_False_eq_True)
      moreover have "sum_list (map rg_count (?xs @ [g'])) = r" using start g'(4) inside by simp
      moreover have "flat_types ?types" using ok by simp
      ultimately show ?thesis unfolding collection_ok_def using assms(2) by simp
    qed
    ultimately show ?thesis using rows g'(5) assms(2) by auto
  qed
qed

end
