(* ===== verification/TableAppend.thy ===== *)
theory TableAppend
  imports RowGroupAppend
begin

text \<open>
  The life of a table's row groups as a reachability relation, and what holds of every table that
  can be reached.
\<close>

subsection \<open>The life of a collection\<close>

text \<open>
  \<open>PhysicalInsert::FinishInitialiseStats\<close> at the end of an insertion: the last row group is
  prepared for an append, and its statistics are built.
\<close>

definition FinishInitialiseStats ::
  "hashes \<Rightarrow> stats_config \<Rightarrow> string \<Rightarrow> (stats_heap \<Rightarrow> 64 word) \<Rightarrow> nat \<Rightarrow> stats_heap \<Rightarrow> row_group_collection \<Rightarrow>
   (stats_heap \<times> row_group_collection) result" where
  "FinishInitialiseStats hs conf table_name alloc block_size hp coll =
     (if rc_total_rows coll = 0 then Inr (hp, coll)
      else let coll = snd (collection_InitializeAppend block_size coll)
      in bind_result (RowGroup_InitStats hs conf table_name alloc (length (rc_groups coll) - 1) hp (last (rc_groups coll)))
           (\<lambda>(hp, g). Inr (hp, coll\<lparr>rc_groups := butlast (rc_groups coll) @ [g]\<rparr>)))"

inductive collection_reachable ::
  "hashes \<Rightarrow> stats_config \<Rightarrow> string \<Rightarrow> (stats_heap \<Rightarrow> 64 word) \<Rightarrow> nat \<Rightarrow> nat \<Rightarrow> LogicalType list \<Rightarrow> nat \<Rightarrow>
   stats_heap \<times> row_group_collection \<Rightarrow> bool"
  for hs conf table_name alloc block_size capacity types row_start_p where
  collection_new:
    "collection_reachable hs conf table_name alloc block_size capacity types row_start_p
       (hp, collection_InitializeEmpty types row_start_p)"
| collection_append:
    "collection_reachable hs conf table_name alloc block_size capacity types row_start_p (hp, coll) \<Longrightarrow> chunk_ok types chunk n \<Longrightarrow>
     collection_InitializeAppend block_size coll = (state, coll1) \<Longrightarrow>
     collection_Append hs conf table_name alloc block_size capacity chunk n hp coll1 state = Some (Inr (hp', coll2, state', b)) \<Longrightarrow>
     collection_FinalizeAppend capacity coll2 state' = Inr coll3 \<Longrightarrow>
     collection_reachable hs conf table_name alloc block_size capacity types row_start_p (hp', coll3)"
| collection_finish:
    "collection_reachable hs conf table_name alloc block_size capacity types row_start_p (hp, coll) \<Longrightarrow>
     FinishInitialiseStats hs conf table_name alloc block_size hp coll = Inr (hp', coll') \<Longrightarrow>
     collection_reachable hs conf table_name alloc block_size capacity types row_start_p (hp', coll')"
| collection_require_new:
    "collection_reachable hs conf table_name alloc block_size capacity types row_start_p (hp, coll) \<Longrightarrow>
     collection_reachable hs conf table_name alloc block_size capacity types row_start_p (hp, coll\<lparr>rc_requires_new := True\<rparr>)"
| collection_revert:
    "collection_reachable hs conf table_name alloc block_size capacity types row_start_p (hp, coll) \<Longrightarrow> row_start_p = 0 \<Longrightarrow>
     r \<le> rc_total_rows coll \<Longrightarrow> length (rc_groups coll) < 2 ^ 62 \<Longrightarrow> list_all trees_small (rc_groups coll) \<Longrightarrow>
     RevertAppendInternal r coll = Some (Inr coll') \<Longrightarrow>
     collection_reachable hs conf table_name alloc block_size capacity types row_start_p (hp, coll')"

lemma FinishInitialiseStats_ok:
  assumes "FinishInitialiseStats hs conf tn alloc b hp coll = Inr (hp', coll')" "collection_ok capacity coll"
  shows "collection_ok capacity coll'" "rc_types coll' = rc_types coll" "rc_row_start coll' = rc_row_start coll"
proof -
  have "collection_ok capacity coll' \<and> rc_types coll' = rc_types coll \<and> rc_row_start coll' = rc_row_start coll"
  proof (cases "rc_total_rows coll = 0")
    case True
    then show ?thesis using assms by (simp add: FinishInitialiseStats_def)
  next
    case False
    obtain state coll1 where init: "collection_InitializeAppend b coll = (state, coll1)" by (cases "collection_InitializeAppend b coll")
    obtain gs g where g: "rc_groups coll1 = gs @ [g]" "group_ready (rc_types coll) (rg_count g) g" "rg_count g \<le> capacity"
      "list_all (\<lambda>g. rg_count g \<le> capacity \<and> group_holds (rc_types coll) (rg_count g) g) gs"
      "contiguous (map group_node (gs @ [g]))" "rg_start (hd (gs @ [g])) = rc_row_start coll"
      "sum_list (map rg_count (gs @ [g])) = rc_total_rows coll"
      "rc_types coll1 = rc_types coll" "rc_row_start coll1 = rc_row_start coll" "rc_total_rows coll1 = rc_total_rows coll"
      using collection_InitializeAppend_result [OF assms(2) init] by blast
    obtain g' where g': "RowGroup_InitStats hs conf tn alloc (length gs) hp g = Inr (hp', g')" "coll' = coll1\<lparr>rc_groups := gs @ [g']\<rparr>"
      using assms(1) False by (auto simp: FinishInitialiseStats_def init g(1) bind_result_Inr_iff Let_def)
    note keeps = RowGroup_InitStats_keeps [OF g'(1) group_ready_holds [OF g(2)]]
    have "group_node g' = group_node g" using keeps by (simp add: group_node_def)
    moreover have "rg_start (hd (gs @ [g'])) = rc_row_start coll" using g(6) keeps(3) by (cases gs) auto
    ultimately show ?thesis
      using g keeps g'(2) assms(2) by (auto simp: collection_ok_def)
  qed
  then show "collection_ok capacity coll'" "rc_types coll' = rc_types coll" "rc_row_start coll' = rc_row_start coll" by simp_all
qed

lemma collection_reachable_ok:
  assumes "collection_reachable hs conf tn alloc b capacity types start s" "flat_types types" "0 < capacity"
  shows "collection_ok capacity (snd s) \<and> rc_types (snd s) = types \<and> rc_row_start (snd s) = start"
  using assms(1)
proof (induction rule: collection_reachable.induct)
  case (collection_new hp)
  then show ?case using assms(2) by (simp add: collection_ok_def collection_InitializeEmpty_def contiguous_def)
next
  case (collection_append hp coll chunk n state coll1 hp' coll2 state' new coll3)
  then show ?case
    using collection_append_ok [of capacity coll chunk n b state coll1 hs conf tn alloc hp hp' coll2 state' new] assms(3) by auto
next
  case (collection_finish hp coll hp' coll')
  then show ?case using FinishInitialiseStats_ok by auto
next
  case (collection_require_new hp coll)
  then show ?case by (auto simp: collection_ok_def)
next
  case (collection_revert hp coll r coll')
  then show ?case using RevertAppendInternal_ok [of capacity coll r] by auto
qed

subsection \<open>An example\<close>

text \<open>
  A table of one integer column whose row groups have two rows: the vector \<open>[5, 7]\<close> is
  appended, the insertion ends, and it is appended again.
\<close>

definition first_free :: "stats_heap \<Rightarrow> 64 word" where
  "first_free hp = (if hp 1 = None then 1 else 2)"

definition int_group :: "nat \<Rightarrow> nat \<Rightarrow> column_data \<Rightarrow> row_group" where
  "int_group start n col = \<lparr>rg_start = start, rg_count = n, rg_columns = [col]\<rparr>"

definition int_table :: "nat \<Rightarrow> row_group list \<Rightarrow> BaseStatistics \<Rightarrow> row_group_collection" where
  "int_table total_rows groups stats =
     \<lparr>rc_types = [int_type], rc_row_start = 0, rc_total_rows = total_rows, rc_groups = groups, rc_requires_new = False, rc_stats = [stats]\<rparr>"

definition pending :: temp_vectors where "pending = no_temp_vectors\<lparr>tmp_int32 := [5, 7]\<rparr>"

abbreviation int_stats :: BaseStatistics where "int_stats \<equiv> set_flags False True (CreateEmpty int_type)"

lemma int_stats_Merge:
  "stats_Merge (CreateEmpty int_type) (cd_stats (int_column_at start 0 tmp)) = Inr int_stats"
  "stats_Merge int_stats (cd_stats (int_column_at start 0 tmp)) = Inr int_stats"
  by (simp_all add: int_column_at_def int_column_def append_eval)

lemma example_InitializeAppend:
  "collection_InitializeAppend 262144 (collection_InitializeEmpty [int_type] 0) =
     (\<lparr>offset_in_row_group = 0, total_append_count = 0, start_row_group = 0\<rparr>,
      int_table 0 [int_group 0 0 (column_InitializeAppend 262144 (new_column int_type 0))] (CreateEmpty int_type))"
  by (simp add: collection_InitializeAppend_def collection_InitializeEmpty_def AppendRowGroup_def Let_def
      RowGroup_InitializeEmpty_def RowGroup_InitializeAppend_def int_table_def int_group_def)

lemma example_chunk: "chunk_ok [int_type] [int_vector] 2"
  using int_vector_ok by (simp add: chunk_ok_def)

lemma example_append_to_last:
  assumes "start < 1000" "stats = CreateEmpty int_type \<or> stats = int_stats"
  shows "append_to_last 262144 [int_vector] 2
      (int_table total_rows (gs @ [int_group start 0 (column_InitializeAppend 262144 (new_column int_type start))]) stats) =
    Some (Inr (int_table total_rows (gs @ [int_group start 0 (int_column_at start 0 pending)]) int_stats))"
  using assms(2) int_stats_Merge
  by (auto simp: append_to_last_def RowGroup_Append_def int_table_def int_group_def Append_int_at [OF assms(1)] pending_def)

lemma example_Append:
  "collection_Append hs conf tn alloc 262144 2 [int_vector] 2 hp
     (int_table 0 [int_group 0 0 (column_InitializeAppend 262144 (new_column int_type 0))] (CreateEmpty int_type))
     \<lparr>offset_in_row_group = 0, total_append_count = 0, start_row_group = 0\<rparr> =
   Some (Inr (hp, int_table 0 [int_group 0 0 (int_column 0 pending)] int_stats,
     \<lparr>offset_in_row_group = 2, total_append_count = 2, start_row_group = 0\<rparr>, False))"
  using example_append_to_last [of 0 "CreateEmpty int_type" 0 "[]"]
  by (simp add: collection_Append_def append_row_groups.simps)

lemma example_FinalizeAppend:
  "collection_FinalizeAppend 2 (int_table 0 [int_group 0 0 col] stats)
     \<lparr>offset_in_row_group = 2, total_append_count = 2, start_row_group = 0\<rparr> = Inr (int_table 2 [int_group 0 2 col] stats)"
  by (simp add: collection_FinalizeAppend_def int_table_def int_group_def AppendVersionInfo_def Let_def numeral_2_eq_2)

lemma InitializeAppend_int_column: "column_InitializeAppend b (int_column p tmp) = int_column p tmp"
  by (simp add: column_InitializeAppend_def segments_InitializeAppend_def int_column_def)

lemma InitStats_int_group:
  "RowGroup_InitStats hs dictionary_conf tn first_free index hp (int_group start n (int_column p (no_temp_vectors\<lparr>tmp_int32 := xs\<rparr>))) =
   Inr (hp(first_free hp \<mapsto> int_statistic xs), int_group start n (int_column (first_free hp) no_temp_vectors))"
  by (simp add: RowGroup_InitStats_def int_group_def InitStats_int)

lemma example_InitializeAppend_full:
  "collection_InitializeAppend b (int_table 2 [int_group 0 2 (int_column p tmp)] stats) =
     (\<lparr>offset_in_row_group = 2, total_append_count = 0, start_row_group = 0\<rparr>, int_table 2 [int_group 0 2 (int_column p tmp)] stats)"
  by (simp add: collection_InitializeAppend_def Let_def RowGroup_InitializeAppend_def int_table_def int_group_def
      InitializeAppend_int_column)

lemma example_Finish:
  "FinishInitialiseStats hs dictionary_conf tn first_free b (\<lambda>_. None) (int_table 2 [int_group 0 2 (int_column 0 pending)] stats) =
   Inr ((\<lambda>_. None)(1 \<mapsto> int_statistic [5, 7]), int_table 2 [int_group 0 2 (int_column 1 no_temp_vectors)] stats)"
proof -
  let ?coll = "int_table 2 [int_group 0 2 (int_column 0 pending)] stats"
  have "snd (collection_InitializeAppend b ?coll) = ?coll" "rc_total_rows ?coll \<noteq> 0" "rc_groups ?coll = [int_group 0 2 (int_column 0 pending)]"
    by (simp_all add: example_InitializeAppend_full) (simp_all add: int_table_def)
  moreover have "RowGroup_InitStats hs dictionary_conf tn first_free 0 (\<lambda>_. None) (int_group 0 2 (int_column 0 pending)) =
      Inr ((\<lambda>_. None)(1 \<mapsto> int_statistic [5, 7]), int_group 0 2 (int_column 1 no_temp_vectors))"
    unfolding pending_def InitStats_int_group by (simp add: first_free_def)
  moreover have "?coll\<lparr>rc_groups := [g]\<rparr> = int_table 2 [g] stats" for g by (simp add: int_table_def)
  ultimately show ?thesis by (simp add: FinishInitialiseStats_def)
qed

lemma example_Append_full:
  "collection_Append hs dictionary_conf tn first_free 262144 2 [int_vector] 2 ((\<lambda>_. None)(1 \<mapsto> int_statistic [5, 7]))
     (int_table 2 [int_group 0 2 (int_column 1 no_temp_vectors)] int_stats)
     \<lparr>offset_in_row_group = 2, total_append_count = 0, start_row_group = 0\<rparr> =
   Some (Inr ((\<lambda>_. None)(1 \<mapsto> int_statistic [5, 7], 2 \<mapsto> int_statistic []),
     int_table 2 [int_group 0 2 (int_column 2 no_temp_vectors), int_group 2 0 (int_column_at 2 0 pending)] int_stats,
     \<lparr>offset_in_row_group = 2, total_append_count = 2, start_row_group = 0\<rparr>, True))"
proof -
  let ?hp = "(\<lambda>_. None)(1 \<mapsto> int_statistic [5, 7])"
  let ?full = "int_table 2 [int_group 0 2 (int_column 1 no_temp_vectors)] int_stats"
  let ?next = "int_table 2 [int_group 0 2 (int_column 2 no_temp_vectors),
    int_group 2 0 (column_InitializeAppend 262144 (new_column int_type 2))] int_stats"
  have "no_temp_vectors = no_temp_vectors\<lparr>tmp_int32 := []\<rparr>" by (simp add: no_temp_vectors_def)
  then have "RowGroup_InitStats hs dictionary_conf tn first_free 0 ?hp (int_group 0 2 (int_column 1 no_temp_vectors)) =
      Inr (?hp(2 \<mapsto> int_statistic []), int_group 0 2 (int_column 2 no_temp_vectors))"
    using InitStats_int_group [of hs tn 0 ?hp 0 2 1 "[]"] by (simp add: first_free_def)
  then have "next_row_group hs dictionary_conf tn first_free 262144 2 ?hp ?full = Inr (?hp(2 \<mapsto> int_statistic []), ?next)"
    by (simp add: next_row_group_def Let_def AppendRowGroup_def int_table_def int_group_def RowGroup_InitializeEmpty_def
        RowGroup_InitializeAppend_def numeral_2_eq_2)
  moreover have "append_to_last 262144 [int_vector] 0 ?full = Some (Inr ?full)" by (simp add: append_to_last_def)
  moreover have "append_to_last 262144 [int_vector] 2 ?next =
      Some (Inr (int_table 2 [int_group 0 2 (int_column 2 no_temp_vectors), int_group 2 0 (int_column_at 2 0 pending)] int_stats))"
    using example_append_to_last [of 2 int_stats 2 "[int_group 0 2 (int_column 2 no_temp_vectors)]"] by simp
  moreover have "rg_count (last (rc_groups ?next)) = 0" by (simp add: int_table_def int_group_def)
  ultimately show ?thesis
    by (simp add: collection_Append_def append_row_groups.simps)
qed

text \<open>The states of the example can be reached.\<close>

lemma example_reachable:
  "collection_reachable hs dictionary_conf tn first_free 262144 2 [int_type] 0 (\<lambda>_. None, int_table 2 [int_group 0 2 (int_column 0 pending)] int_stats)"
  "collection_reachable hs dictionary_conf tn first_free 262144 2 [int_type] 0
     ((\<lambda>_. None)(1 \<mapsto> int_statistic [5, 7]), int_table 2 [int_group 0 2 (int_column 1 no_temp_vectors)] int_stats)"
proof -
  show first: "collection_reachable hs dictionary_conf tn first_free 262144 2 [int_type] 0
      (\<lambda>_. None, int_table 2 [int_group 0 2 (int_column 0 pending)] int_stats)"
    by (rule collection_append [OF collection_new example_chunk example_InitializeAppend example_Append example_FinalizeAppend])
  show "collection_reachable hs dictionary_conf tn first_free 262144 2 [int_type] 0
      ((\<lambda>_. None)(1 \<mapsto> int_statistic [5, 7]), int_table 2 [int_group 0 2 (int_column 1 no_temp_vectors)] int_stats)"
    by (rule collection_finish [OF first example_Finish])
qed

lemma example_types_flat: "flat_types [int_type]"
  using int_type_ok by (simp add: flat_types_def)

subsection \<open>Properties\<close>

text \<open>C8: Every table that can be reached by appends, reverts and the ends of insertions is well formed:
  its row groups follow one another from the first row of the table, none holds more rows than a row
  group may, each has one column of every type that holds as many rows as the row group counts, and
  the table counts their sum.\<close>
theorem reachable_table_ok:
  assumes "collection_reachable hs conf tn alloc b capacity types start (hp, coll)" "flat_types types" "0 < capacity"
  shows "contiguous (map group_node (rc_groups coll)) \<and> (rc_groups coll \<noteq> [] \<longrightarrow> rg_start (hd (rc_groups coll)) = start) \<and>
    list_all (\<lambda>g. rg_count g \<le> capacity) (rc_groups coll) \<and>
    list_all (\<lambda>g. list_all2 (\<lambda>t col. cd_type col = t \<and> segments_ok col \<and> length (stored_rows col) = rg_count g) types (rg_columns g))
      (rc_groups coll) \<and>
    rc_total_rows coll = sum_list (map rg_count (rc_groups coll))"
proof -
  have ok: "collection_ok capacity coll" "rc_types coll = types" "rc_row_start coll = start"
    using collection_reachable_ok [OF assms] by simp_all
  have "segments_ok col" if "column_fit col" for col
  proof -
    obtain hs conf n i c hp where "column_ok hs conf n i c hp (forget col)" using \<open>column_fit col\<close> by (auto simp: column_fit_def)
    from column_okD(5) [OF this] show ?thesis by simp
  qed
  then have "list_all2 (\<lambda>t col. cd_type col = t \<and> segments_ok col \<and> length (stored_rows col) = rg_count g) types (rg_columns g)"
    if "group_holds types (rg_count g) g" for g
    using that by (auto simp: group_holds_def elim!: list_all2_mono)
  then show ?thesis using ok by (auto simp: collection_ok_def list_all_iff)
qed

lemma reachable_table_ok_witness:
  "contiguous (map group_node (rc_groups (int_table 2 [int_group 0 2 (int_column 1 no_temp_vectors)] int_stats))) \<and>
     length (stored_rows (int_column 1 no_temp_vectors)) = 2"
  using reachable_table_ok [OF example_reachable(2) example_types_flat] by (simp add: int_table_def int_group_def)

text \<open>C7: Appending a chunk to a table stores exactly its rows, in order and behind the rows the table
  has, whichever row groups they go to; making the append final never fails, and no row group gets
  more rows than it may.\<close>
theorem table_append_exact:
  assumes "collection_reachable hs conf tn alloc b capacity types start (hp, coll)" "flat_types types" "0 < capacity"
    and "chunk_ok types chunk n" "collection_InitializeAppend b coll = (state, coll1)"
    and "collection_Append hs conf tn alloc b capacity chunk n hp coll1 state = Some (Inr (hp', coll2, state', new))"
  shows "\<exists>coll3. collection_FinalizeAppend capacity coll2 state' = Inr coll3 \<and>
    (\<forall>i < length types. groups_rows (rc_groups coll3) i = groups_rows (rc_groups coll) i @ chunk_rows types chunk n i) \<and>
    rc_total_rows coll3 = rc_total_rows coll + n \<and> list_all (\<lambda>g. rg_count g \<le> capacity) (rc_groups coll3)"
proof -
  have ok: "collection_ok capacity coll" "rc_types coll = types" using collection_reachable_ok [OF assms(1-3)] by simp_all
  obtain coll3 where "collection_FinalizeAppend capacity coll2 state' = Inr coll3" "collection_ok capacity coll3"
    "\<forall>i < length types. groups_rows (rc_groups coll3) i = groups_rows (rc_groups coll) i @ chunk_rows types chunk n i"
    "rc_total_rows coll3 = rc_total_rows coll + n"
    using collection_append_ok [OF ok(1) assms(3) _ assms(5,6)] assms(4) ok(2) by auto
  then show ?thesis by (auto simp: collection_ok_def list_all_iff)
qed

lemma table_append_exact_witness:
  "\<exists>coll3. collection_FinalizeAppend 2 (int_table 2 [int_group 0 2 (int_column 2 no_temp_vectors), int_group 2 0 (int_column_at 2 0 pending)] int_stats)
     \<lparr>offset_in_row_group = 2, total_append_count = 2, start_row_group = 0\<rparr> = Inr coll3 \<and>
     groups_rows (rc_groups coll3) 0 = stored_rows (int_column 1 no_temp_vectors) @ chunk_rows [int_type] [int_vector] 2 0 \<and> rc_total_rows coll3 = 4"
  using table_append_exact [OF example_reachable(2) example_types_flat _ example_chunk example_InitializeAppend_full example_Append_full]
  by (auto simp: int_table_def int_group_def)

text \<open>C14: Appending a chunk to a table returns, with row groups of at least one row and blocks of at
  least 4096 bytes: a new row group always takes rows.\<close>
theorem table_append_terminates:
  assumes "collection_reachable hs conf tn alloc b capacity types start (hp, coll)" "flat_types types" "0 < capacity"
    and "chunk_ok types chunk n" "collection_InitializeAppend b coll = (state, coll1)" "4096 \<le> b"
  shows "\<exists>r. collection_Append hs conf tn alloc b capacity chunk n hp coll1 state = Some r"
proof -
  have ok: "collection_ok capacity coll" "rc_types coll = types" using collection_reachable_ok [OF assms(1-3)] by simp_all
  obtain gs g where g: "rc_groups coll1 = gs @ [g]" "offset_in_row_group state = rg_count g" "group_ready types (rg_count g) g"
    "rg_count g \<le> capacity" "rc_types coll1 = types"
    using collection_InitializeAppend_result [OF ok(1) assms(5)] ok(2) by auto
  have "\<exists>r. append_row_groups hs conf tn alloc b capacity chunk n hp coll1 (rg_count g) False = Some r"
    by (rule append_row_groups_returns [OF assms(3,2,6) g(1,3,4) assms(4) g(5)])
  then show ?thesis by (auto simp: collection_Append_def g(2) intro!: bind_loop_total)
qed

lemma table_append_terminates_witness:
  "\<forall>hs tn. \<exists>r. collection_Append hs dictionary_conf tn first_free 262144 2 [int_vector] 2 ((\<lambda>_. None)(1 \<mapsto> int_statistic [5, 7]))
     (int_table 2 [int_group 0 2 (int_column 1 no_temp_vectors)] int_stats)
     \<lparr>offset_in_row_group = 2, total_append_count = 0, start_row_group = 0\<rparr> = Some r"
  by (intro allI, rule table_append_terminates [OF example_reachable(2) example_types_flat _ example_chunk example_InitializeAppend_full]) simp_all

text \<open>C9: Reverting an append to a table restores the rows and the count the table had, whatever row
  groups the append filled or added, and never fails.\<close>
theorem table_revert_restores:
  assumes "collection_reachable hs conf tn alloc b capacity types 0 (hp, coll)" "flat_types types" "0 < capacity"
    and "chunk_ok types chunk n" "collection_InitializeAppend b coll = (state, coll1)"
    and "collection_Append hs conf tn alloc b capacity chunk n hp coll1 state = Some (Inr (hp', coll2, state', new))"
    and "collection_FinalizeAppend capacity coll2 state' = Inr coll3"
    and "length (rc_groups coll3) < 2 ^ 62" "list_all trees_small (rc_groups coll3)"
  shows "\<exists>coll4. RevertAppendInternal (rc_total_rows coll) coll3 = Some (Inr coll4) \<and> rc_total_rows coll4 = rc_total_rows coll \<and>
    (\<forall>i < length types. groups_rows (rc_groups coll4) i = groups_rows (rc_groups coll) i)"
proof -
  have ok: "collection_ok capacity coll" "rc_types coll = types" "rc_row_start coll = 0"
    using collection_reachable_ok [OF assms(1-3)] by simp_all
  have coll3: "collection_ok capacity coll3" "rc_types coll3 = types" "rc_row_start coll3 = 0" "rc_total_rows coll3 = rc_total_rows coll + n"
    "\<forall>i < length types. groups_rows (rc_groups coll3) i = groups_rows (rc_groups coll) i @ chunk_rows types chunk n i"
    using collection_append_ok [OF ok(1) assms(3) _ assms(5,6)] assms(4,7) ok(2,3) by auto
  obtain coll4 where "RevertAppendInternal (rc_total_rows coll) coll3 = Some (Inr coll4)" "rc_total_rows coll4 = rc_total_rows coll"
    "\<forall>i < length types. groups_rows (rc_groups coll4) i = take (rc_total_rows coll) (groups_rows (rc_groups coll3) i)"
    using RevertAppendInternal_ok [OF coll3(1,3) _ assms(8,9), of "rc_total_rows coll"] coll3(2,4) by auto
  moreover have "length (groups_rows (rc_groups coll) i) = rc_total_rows coll" if "i < length types" for i
    using groups_rows_length [of types "rc_groups coll" i] ok that by (auto simp: collection_ok_def list_all_iff)
  ultimately show ?thesis using coll3(5) by auto
qed

lemma table_revert_restores_witness:
  "\<exists>coll4. RevertAppendInternal 0 (int_table 2 [int_group 0 2 (int_column 0 pending)] int_stats) = Some (Inr coll4) \<and>
     rc_total_rows coll4 = 0 \<and> groups_rows (rc_groups coll4) 0 = []"
proof -
  have "list_all trees_small (rc_groups (int_table 2 [int_group 0 2 (int_column 0 pending)] int_stats))"
    "length (rc_groups (int_table 2 [int_group 0 2 (int_column 0 pending)] int_stats)) < 2 ^ 62"
    by (simp_all add: int_table_def int_group_def trees_small_def int_column_def)
  then show ?thesis
    using table_revert_restores [OF collection_new example_types_flat _ example_chunk example_InitializeAppend
        example_Append [where hs = undefined and conf = undefined and tn = undefined and alloc = undefined and hp = "\<lambda>_. None"] example_FinalizeAppend]
    by (simp add: collection_InitializeEmpty_def)
qed

text \<open>C24: Appending to a table whose last row group is full builds the statistics of that row group
  a second time, although nothing was added to it, and its zone map then lies. Shown for row groups of
  two rows: after an insertion of 5 and 7 that ends, a second insertion of two rows leaves the first
  row group with a statistic of no value, and an equality with the stored 5 is answered with
  "always false".\<close>
theorem full_row_group_prunes_rows:
  "\<exists>hp1 table1 hp2 table2 table3 state0 state2 state3.
    collection_InitializeAppend 262144 (collection_InitializeEmpty [int_type] 0) = (state0, table1) \<and>
    bind_loop (collection_Append hs dictionary_conf tn first_free 262144 2 [int_vector] 2 (\<lambda>_. None) table1 state0) (\<lambda>(hp, t, state, _).
      Some (bind_result (collection_FinalizeAppend 2 t state) (\<lambda>t. FinishInitialiseStats hs dictionary_conf tn first_free 262144 hp t))) =
      Some (Inr (hp1, table2)) \<and>
    collection_InitializeAppend 262144 table2 = (state2, table3) \<and>
    (\<exists>t. collection_Append hs dictionary_conf tn first_free 262144 2 [int_vector] 2 hp1 table3 state2 = Some (Inr (hp2, t, state3, True)) \<and>
      (let col = hd (rg_columns (hd (rc_groups t)))
       in column_CheckZonemap hs hp2 (ConstantFilter COMPARE_EQUAL (int_value 5)) col = Inr FILTER_ALWAYS_FALSE \<and>
          int_value 5 \<in> set (stored_rows col) \<and> filter_holds ex (ConstantFilter COMPARE_EQUAL (int_value 5)) (int_value 5)))"
proof -
  let ?hp = "(\<lambda>_. None)(1 \<mapsto> int_statistic [5, 7], 2 \<mapsto> int_statistic [])"
  have "column_CheckZonemap hs ?hp (ConstantFilter COMPARE_EQUAL (int_value 5)) (int_column 2 no_temp_vectors) = Inr FILTER_ALWAYS_FALSE"
    by (rule CheckZonemap_int [OF _ _ dictionary_answers(2)]) simp_all
  then have "let col = hd (rg_columns (hd (rc_groups (int_table 2 [int_group 0 2 (int_column 2 no_temp_vectors), g] s))))
       in column_CheckZonemap hs ?hp (ConstantFilter COMPARE_EQUAL (int_value 5)) col = Inr FILTER_ALWAYS_FALSE \<and>
          int_value 5 \<in> set (stored_rows col) \<and> filter_holds ex (ConstantFilter COMPARE_EQUAL (int_value 5)) (int_value 5)" for g s
    by (simp add: int_table_def int_group_def int_column_rows equality_holds del: filter_holds.simps)
  moreover have "bind_loop (collection_Append hs dictionary_conf tn first_free 262144 2 [int_vector] 2 (\<lambda>_. None)
        (int_table 0 [int_group 0 0 (column_InitializeAppend 262144 (new_column int_type 0))] (CreateEmpty int_type))
        \<lparr>offset_in_row_group = 0, total_append_count = 0, start_row_group = 0\<rparr>) (\<lambda>(hp, t, state, _).
      Some (bind_result (collection_FinalizeAppend 2 t state) (\<lambda>t. FinishInitialiseStats hs dictionary_conf tn first_free 262144 hp t))) =
      Some (Inr ((\<lambda>_. None)(1 \<mapsto> int_statistic [5, 7]), int_table 2 [int_group 0 2 (int_column 1 no_temp_vectors)] int_stats))"
    by (simp add: example_Append example_FinalizeAppend example_Finish)
  ultimately show ?thesis
    using example_InitializeAppend example_InitializeAppend_full example_Append_full by blast
qed

end
