(* ===== verification/RowVersions.thy ===== *)
theory RowVersions
  imports FilterExec
begin

text \<open>
  The versions of the rows of one vector (\<open>storage/table/chunk_info.cpp\<close>): who inserted and who
  deleted a row, as one pair of ids for a whole vector or as a pair for each row, and which rows a
  transaction sees. The locale \<open>versioned_chunk\<close> states the contract of both kinds: the selection
  of a scan holds exactly the rows a fetch finds.
\<close>

subsection \<open>Transaction ids\<close>

text \<open>
  Start times and commit ids count from 2 upwards, the ids of running transactions from
  \<open>TRANSACTION_ID_START\<close>; so an uncommitted id is above every start time.
\<close>

type_synonym transaction_t = "64 word"

definition TRANSACTION_ID_START :: transaction_t where "TRANSACTION_ID_START = 4611686018427388000"
definition MAX_TRANSACTION_ID :: transaction_t where "MAX_TRANSACTION_ID = - 1"
definition NOT_DELETED_ID :: transaction_t where "NOT_DELETED_ID = - 1 - 1"

record TransactionData =
  td_transaction_id :: transaction_t
  td_start_time :: transaction_t

record version_operator =
  UseInsertedVersion :: "transaction_t \<Rightarrow> transaction_t \<Rightarrow> transaction_t \<Rightarrow> bool"
  UseDeletedVersion :: "transaction_t \<Rightarrow> transaction_t \<Rightarrow> transaction_t \<Rightarrow> bool"

definition TransactionVersionOperator :: version_operator where
  "TransactionVersionOperator =
     \<lparr>UseInsertedVersion = (\<lambda>start_time transaction_id id. id < start_time \<or> id = transaction_id),
      UseDeletedVersion = (\<lambda>start_time transaction_id id. \<not> (id < start_time \<or> id = transaction_id))\<rparr>"

definition CommittedVersionOperator :: version_operator where
  "CommittedVersionOperator =
     \<lparr>UseInsertedVersion = (\<lambda>start_time transaction_id id. True),
      UseDeletedVersion = (\<lambda>min_start_time min_transaction_id id.
        (id \<ge> min_start_time \<and> id < TRANSACTION_ID_START) \<or> id = NOT_DELETED_ID)\<rparr>"

definition UseVersion :: "TransactionData \<Rightarrow> transaction_t \<Rightarrow> bool" where
  "UseVersion transaction version_id =
     UseInsertedVersion TransactionVersionOperator (td_start_time transaction) (td_transaction_id transaction) version_id"

subsection \<open>The two kinds of version information\<close>

record ChunkConstantInfo =
  ci_start :: nat
  ci_insert_id :: transaction_t
  ci_delete_id :: transaction_t

record ChunkVectorInfo =
  vi_start :: nat
  vi_inserted :: "transaction_t list"
  vi_insert_id :: transaction_t
  vi_same_inserted_id :: bool
  vi_deleted :: "transaction_t list"
  vi_any_deleted :: bool

datatype ChunkInfo = ConstantInfo ChunkConstantInfo | VectorInfo ChunkVectorInfo

definition new_constant_info :: "nat \<Rightarrow> ChunkConstantInfo" where
  "new_constant_info start = \<lparr>ci_start = start, ci_insert_id = 0, ci_delete_id = NOT_DELETED_ID\<rparr>"

definition new_vector_info :: "nat \<Rightarrow> ChunkVectorInfo" where
  "new_vector_info start =
     \<lparr>vi_start = start, vi_inserted = replicate STANDARD_VECTOR_SIZE 0, vi_insert_id = 0, vi_same_inserted_id = True,
      vi_deleted = replicate STANDARD_VECTOR_SIZE NOT_DELETED_ID, vi_any_deleted = False\<rparr>"

text \<open>
  A selection is the count that is returned and the indexes that were written to the selection
  vector; a caller that gets back the maximum does not look at the vector.
\<close>

type_synonym selection = "nat \<times> nat list"

definition selected_rows :: "selection \<Rightarrow> nat \<Rightarrow> nat list" where
  "selected_rows s max_count = (if fst s = max_count then [0..<max_count] else take (fst s) (snd s))"

definition constant_TemplatedGetSelVector ::
  "version_operator \<Rightarrow> transaction_t \<Rightarrow> transaction_t \<Rightarrow> ChunkConstantInfo \<Rightarrow> nat \<Rightarrow> selection result" where
  "constant_TemplatedGetSelVector OP start_time transaction_id info max_count =
     Inr (if UseInsertedVersion OP start_time transaction_id (ci_insert_id info) \<and>
             UseDeletedVersion OP start_time transaction_id (ci_delete_id info)
          then (max_count, []) else (0, []))"

definition constant_Fetch :: "TransactionData \<Rightarrow> ChunkConstantInfo \<Rightarrow> nat \<Rightarrow> bool result" where
  "constant_Fetch transaction info row =
     Inr (UseVersion transaction (ci_insert_id info) \<and> \<not> UseVersion transaction (ci_delete_id info))"

definition constant_CommitAppend :: "transaction_t \<Rightarrow> ChunkConstantInfo \<Rightarrow> ChunkConstantInfo" where
  "constant_CommitAppend commit_id info = info\<lparr>ci_insert_id := commit_id\<rparr>"

definition constant_HasDeletes :: "ChunkConstantInfo \<Rightarrow> bool" where
  "constant_HasDeletes info \<longleftrightarrow> ci_insert_id info \<ge> TRANSACTION_ID_START \<or> ci_delete_id info < TRANSACTION_ID_START"

definition constant_GetCommittedDeletedCount :: "ChunkConstantInfo \<Rightarrow> nat \<Rightarrow> nat" where
  "constant_GetCommittedDeletedCount info max_count = (if ci_delete_id info < TRANSACTION_ID_START then max_count else 0)"

definition constant_Cleanup :: "transaction_t \<Rightarrow> ChunkConstantInfo \<Rightarrow> bool" where
  "constant_Cleanup lowest_transaction info \<longleftrightarrow>
     \<not> (ci_delete_id info \<noteq> NOT_DELETED_ID) \<and> \<not> (ci_insert_id info > lowest_transaction)"

text \<open>A loop over the rows of a vector that writes the indexes of some of them.\<close>

definition select_rows :: "(nat \<Rightarrow> bool) \<Rightarrow> nat \<Rightarrow> selection result" where
  "select_rows P max_count =
     (if max_count > STANDARD_VECTOR_SIZE then Inl OutOfBounds
      else let rows = filter P [0..<max_count] in Inr (length rows, rows))"

definition vector_TemplatedGetSelVector ::
  "version_operator \<Rightarrow> transaction_t \<Rightarrow> transaction_t \<Rightarrow> ChunkVectorInfo \<Rightarrow> nat \<Rightarrow> selection result" where
  "vector_TemplatedGetSelVector OP start_time transaction_id info max_count =
     (if vi_same_inserted_id info \<and> \<not> vi_any_deleted info
      then Inr (if UseInsertedVersion OP start_time transaction_id (vi_insert_id info) then (max_count, []) else (0, []))
      else if vi_same_inserted_id info
      then (if \<not> UseInsertedVersion OP start_time transaction_id (vi_insert_id info) then Inr (0, [])
            else select_rows (\<lambda>i. UseDeletedVersion OP start_time transaction_id (vi_deleted info ! i)) max_count)
      else if \<not> vi_any_deleted info
      then select_rows (\<lambda>i. UseInsertedVersion OP start_time transaction_id (vi_inserted info ! i)) max_count
      else select_rows (\<lambda>i. UseInsertedVersion OP start_time transaction_id (vi_inserted info ! i) \<and>
                            UseDeletedVersion OP start_time transaction_id (vi_deleted info ! i)) max_count)"

definition vector_Fetch :: "TransactionData \<Rightarrow> ChunkVectorInfo \<Rightarrow> nat \<Rightarrow> bool result" where
  "vector_Fetch transaction info row =
     (if row \<ge> STANDARD_VECTOR_SIZE then Inl OutOfBounds
      else Inr (UseVersion transaction (vi_inserted info ! row) \<and> \<not> UseVersion transaction (vi_deleted info ! row)))"

text \<open>A loop that stores an id at the given rows of an array.\<close>

definition store_rows :: "nat list \<Rightarrow> transaction_t \<Rightarrow> transaction_t list \<Rightarrow> transaction_t list result" where
  "store_rows rows v ids =
     (if list_all (\<lambda>row. row < length ids) rows then Inr (foldl (\<lambda>ids row. ids[row := v]) ids rows) else Inl OutOfBounds)"

text \<open>
  The loop of a delete, at row \<open>i\<close> with \<open>remaining\<close> rows to go. The rows that are deleted are
  moved to the front of \<open>rows\<close>; on a conflict the marks of the rows before \<open>i\<close> are taken back.
\<close>

fun delete_loop ::
  "transaction_t \<Rightarrow> nat \<Rightarrow> nat \<Rightarrow> nat \<Rightarrow> nat list \<Rightarrow> transaction_t list \<Rightarrow> transaction_t list \<times> nat list \<times> nat result" where
  "delete_loop transaction_id 0 i deleted_tuples rows deleted = (deleted, rows, Inr deleted_tuples)"
| "delete_loop transaction_id (Suc remaining) i deleted_tuples rows deleted =
     (if i \<ge> length rows \<or> rows ! i \<ge> length deleted then (deleted, rows, Inl OutOfBounds)
      else if deleted ! (rows ! i) = transaction_id
      then delete_loop transaction_id remaining (i + 1) deleted_tuples rows deleted
      else if deleted ! (rows ! i) \<noteq> NOT_DELETED_ID
      then (foldl (\<lambda>deleted k. deleted[rows ! k := NOT_DELETED_ID]) deleted [0..<i], rows, Inl TransactionException)
      else delete_loop transaction_id remaining (i + 1) (deleted_tuples + 1)
             (rows[deleted_tuples := rows ! i]) (deleted[rows ! i := transaction_id]))"

definition vector_Delete ::
  "transaction_t \<Rightarrow> nat list \<Rightarrow> nat \<Rightarrow> ChunkVectorInfo \<Rightarrow> ChunkVectorInfo \<times> nat list \<times> nat result" where
  "vector_Delete transaction_id rows n info =
     (let (deleted, rows, r) = delete_loop transaction_id n 0 0 rows (vi_deleted info)
      in (info\<lparr>vi_any_deleted := True, vi_deleted := deleted\<rparr>, rows, r))"

text \<open>The rows a transaction deleted, as its undo buffer keeps them: as 16-bit numbers, or not at
  all where they are the first rows of the vector.\<close>

record DeleteInfo =
  di_vector_idx :: nat
  di_count :: nat
  di_base_row :: nat
  di_is_consecutive :: bool
  di_rows :: "16 word list"

definition GetRows :: "DeleteInfo \<Rightarrow> 16 word list result" where
  "GetRows info = (if di_is_consecutive info then Inl InternalException else Inr (di_rows info))"

definition vector_CommitDelete :: "transaction_t \<Rightarrow> DeleteInfo \<Rightarrow> ChunkVectorInfo \<Rightarrow> ChunkVectorInfo result" where
  "vector_CommitDelete commit_id del info =
     bind_result (if di_is_consecutive del then Inr [0..<di_count del]
                  else bind_result (GetRows del) (\<lambda>rows.
                    if di_count del > length rows then Inl OutOfBounds else Inr (map unat (take (di_count del) rows)))) (\<lambda>rows.
     bind_result (store_rows rows commit_id (vi_deleted info)) (\<lambda>deleted. Inr (info\<lparr>vi_deleted := deleted\<rparr>)))"

definition vector_Append :: "nat \<Rightarrow> nat \<Rightarrow> transaction_t \<Rightarrow> ChunkVectorInfo \<Rightarrow> ChunkVectorInfo result" where
  "vector_Append start end_row commit_id info =
     (let info = (if start = 0 then info\<lparr>vi_insert_id := commit_id\<rparr>
                  else if vi_insert_id info \<noteq> commit_id
                  then info\<lparr>vi_same_inserted_id := False, vi_insert_id := NOT_DELETED_ID\<rparr>
                  else info)
      in bind_result (store_rows [start..<end_row] commit_id (vi_inserted info)) (\<lambda>inserted. Inr (info\<lparr>vi_inserted := inserted\<rparr>)))"

definition vector_CommitAppend :: "transaction_t \<Rightarrow> nat \<Rightarrow> nat \<Rightarrow> ChunkVectorInfo \<Rightarrow> ChunkVectorInfo result" where
  "vector_CommitAppend commit_id start end_row info =
     (let info = (if vi_same_inserted_id info then info\<lparr>vi_insert_id := commit_id\<rparr> else info)
      in bind_result (store_rows [start..<end_row] commit_id (vi_inserted info)) (\<lambda>inserted. Inr (info\<lparr>vi_inserted := inserted\<rparr>)))"

definition vector_Cleanup :: "transaction_t \<Rightarrow> ChunkVectorInfo \<Rightarrow> bool" where
  "vector_Cleanup lowest_transaction info \<longleftrightarrow>
     \<not> vi_any_deleted info \<and>
     (if \<not> vi_same_inserted_id info
      then list_all (\<lambda>idx. \<not> (vi_inserted info ! idx > lowest_transaction)) [1..<STANDARD_VECTOR_SIZE]
      else \<not> (vi_insert_id info > lowest_transaction))"

definition vector_HasDeletes :: "ChunkVectorInfo \<Rightarrow> bool" where "vector_HasDeletes = vi_any_deleted"

definition vector_GetCommittedDeletedCount :: "ChunkVectorInfo \<Rightarrow> nat \<Rightarrow> nat result" where
  "vector_GetCommittedDeletedCount info max_count =
     (if \<not> vi_any_deleted info then Inr 0
      else if max_count > STANDARD_VECTOR_SIZE then Inl OutOfBounds
      else Inr (length (filter (\<lambda>i. vi_deleted info ! i < TRANSACTION_ID_START) [0..<max_count])))"

subsection \<open>The virtual members\<close>

fun chunk_TemplatedGetSelVector ::
  "version_operator \<Rightarrow> transaction_t \<Rightarrow> transaction_t \<Rightarrow> ChunkInfo \<Rightarrow> nat \<Rightarrow> selection result" where
  "chunk_TemplatedGetSelVector OP start_time transaction_id (ConstantInfo info) max_count =
     constant_TemplatedGetSelVector OP start_time transaction_id info max_count"
| "chunk_TemplatedGetSelVector OP start_time transaction_id (VectorInfo info) max_count =
     vector_TemplatedGetSelVector OP start_time transaction_id info max_count"

definition chunk_GetSelVector :: "TransactionData \<Rightarrow> ChunkInfo \<Rightarrow> nat \<Rightarrow> selection result" where
  "chunk_GetSelVector transaction info max_count =
     chunk_TemplatedGetSelVector TransactionVersionOperator (td_start_time transaction) (td_transaction_id transaction) info max_count"

definition chunk_GetCommittedSelVector :: "transaction_t \<Rightarrow> transaction_t \<Rightarrow> ChunkInfo \<Rightarrow> nat \<Rightarrow> selection result" where
  "chunk_GetCommittedSelVector min_start_id min_transaction_id info max_count =
     chunk_TemplatedGetSelVector CommittedVersionOperator min_start_id min_transaction_id info max_count"

fun chunk_Fetch :: "TransactionData \<Rightarrow> ChunkInfo \<Rightarrow> nat \<Rightarrow> bool result" where
  "chunk_Fetch transaction (ConstantInfo info) row = constant_Fetch transaction info row"
| "chunk_Fetch transaction (VectorInfo info) row = vector_Fetch transaction info row"

fun chunk_CommitAppend :: "transaction_t \<Rightarrow> nat \<Rightarrow> nat \<Rightarrow> ChunkInfo \<Rightarrow> ChunkInfo result" where
  "chunk_CommitAppend commit_id start end_row (ConstantInfo info) = Inr (ConstantInfo (constant_CommitAppend commit_id info))"
| "chunk_CommitAppend commit_id start end_row (VectorInfo info) =
     bind_result (vector_CommitAppend commit_id start end_row info) (\<lambda>info. Inr (VectorInfo info))"

fun chunk_HasDeletes :: "ChunkInfo \<Rightarrow> bool" where
  "chunk_HasDeletes (ConstantInfo info) = constant_HasDeletes info"
| "chunk_HasDeletes (VectorInfo info) = vector_HasDeletes info"

fun chunk_GetCommittedDeletedCount :: "ChunkInfo \<Rightarrow> nat \<Rightarrow> nat result" where
  "chunk_GetCommittedDeletedCount (ConstantInfo info) max_count = Inr (constant_GetCommittedDeletedCount info max_count)"
| "chunk_GetCommittedDeletedCount (VectorInfo info) max_count = vector_GetCommittedDeletedCount info max_count"

fun chunk_Cleanup :: "transaction_t \<Rightarrow> ChunkInfo \<Rightarrow> bool" where
  "chunk_Cleanup lowest_transaction (ConstantInfo info) = constant_Cleanup lowest_transaction info"
| "chunk_Cleanup lowest_transaction (VectorInfo info) = vector_Cleanup lowest_transaction info"

fun chunk_SetStart :: "nat \<Rightarrow> ChunkInfo \<Rightarrow> ChunkInfo" where
  "chunk_SetStart start (ConstantInfo info) = ConstantInfo (info\<lparr>ci_start := start\<rparr>)"
| "chunk_SetStart start (VectorInfo info) = VectorInfo (info\<lparr>vi_start := start\<rparr>)"

subsection \<open>Facts about ids and loops\<close>

lemma selected_rows_simps [simp]:
  "selected_rows (m, sel) m = [0..<m]" "selected_rows (0, sel) m = []"
  by (simp_all add: selected_rows_def)

lemma select_rows_selected:
  assumes "m \<le> STANDARD_VECTOR_SIZE"
  shows "\<exists>s. select_rows P m = Inr s \<and> selected_rows s m = filter P [0..<m]"
proof -
  have "filter P [0..<m] = [0..<m]" if "length (filter P [0..<m]) = m"
    using that length_filter_less [of _ "[0..<m]" P] by (fastforce simp: filter_id_conv)
  then show ?thesis using assms by (auto simp: select_rows_def selected_rows_def Let_def)
qed

lemma store_rows_loop:
  "length (foldl (\<lambda>ids row. ids[row := v]) ids rows) = length ids"
  "r < length ids \<Longrightarrow> foldl (\<lambda>ids row. ids[row := v]) ids rows ! r = (if r \<in> set rows then v else ids ! r)"
  by (induction rows arbitrary: ids) (auto simp: nth_list_update)

lemma store_rows_result:
  "store_rows rows v ids = Inr ids' \<Longrightarrow>
     length ids' = length ids \<and> (\<forall>r < length ids. ids' ! r = (if r \<in> set rows then v else ids ! r))"
  "\<forall>r \<in> set rows. r < length ids \<Longrightarrow> \<exists>ids'. store_rows rows v ids = Inr ids'"
  by (auto simp: store_rows_def store_rows_loop list_all_iff split: if_split_asm)

lemma UseVersion_iff:
  "UseVersion t v \<longleftrightarrow> v < td_start_time t \<or> v = td_transaction_id t"
  by (simp add: UseVersion_def TransactionVersionOperator_def)

lemma operator_simps [simp]:
  "UseInsertedVersion TransactionVersionOperator s t v \<longleftrightarrow> v < s \<or> v = t"
  "UseDeletedVersion TransactionVersionOperator s t v \<longleftrightarrow> \<not> (v < s \<or> v = t)"
  "UseInsertedVersion CommittedVersionOperator s t v"
  "UseDeletedVersion CommittedVersionOperator s t v \<longleftrightarrow> (v \<ge> s \<and> v < TRANSACTION_ID_START) \<or> v = NOT_DELETED_ID"
  by (simp_all add: TransactionVersionOperator_def CommittedVersionOperator_def)

lemma id_bounds: "0 < TRANSACTION_ID_START" "TRANSACTION_ID_START < NOT_DELETED_ID" "NOT_DELETED_ID < MAX_TRANSACTION_ID"
  by (simp_all add: TRANSACTION_ID_START_def NOT_DELETED_ID_def MAX_TRANSACTION_ID_def)

text \<open>The data of a running transaction: it has started, and its id is above every start time.\<close>

definition running :: "TransactionData \<Rightarrow> bool" where
  "running t \<longleftrightarrow> 0 < td_start_time t \<and> td_start_time t \<le> TRANSACTION_ID_START \<and>
     TRANSACTION_ID_START \<le> td_transaction_id t \<and> td_transaction_id t < NOT_DELETED_ID"

lemma running_UseVersion:
  assumes "running t"
  shows "UseVersion t 0" "\<not> UseVersion t NOT_DELETED_ID" "TRANSACTION_ID_START \<le> v \<Longrightarrow> UseVersion t v \<longleftrightarrow> v = td_transaction_id t"
    "v < TRANSACTION_ID_START \<Longrightarrow> UseVersion t v \<longleftrightarrow> v < td_start_time t"
  using assms id_bounds by (auto simp: running_def UseVersion_iff)

subsection \<open>What both kinds promise\<close>

text \<open>
  A vector has an inserting and a deleting id for each of its \<open>n\<close> rows. A scan selects the rows
  the operator keeps, whatever summary of the ids the code takes a short cut through.
\<close>

locale versioned_chunk =
  fixes invar :: "nat \<Rightarrow> 'c \<Rightarrow> bool"
    and ins :: "'c \<Rightarrow> nat \<Rightarrow> transaction_t"
    and del :: "'c \<Rightarrow> nat \<Rightarrow> transaction_t"
    and get_sel :: "version_operator \<Rightarrow> transaction_t \<Rightarrow> transaction_t \<Rightarrow> 'c \<Rightarrow> nat \<Rightarrow> selection result"
    and fetch :: "TransactionData \<Rightarrow> 'c \<Rightarrow> nat \<Rightarrow> bool result"
  assumes get_sel_exact: "invar n c \<Longrightarrow> m \<le> n \<Longrightarrow> UseDeletedVersion OP s t NOT_DELETED_ID \<Longrightarrow>
      \<exists>sel. get_sel OP s t c m = Inr sel \<and>
        selected_rows sel m = filter (\<lambda>r. UseInsertedVersion OP s t (ins c r) \<and> UseDeletedVersion OP s t (del c r)) [0..<m]"
    and fetch_exact: "invar n c \<Longrightarrow> r < n \<Longrightarrow> fetch x c r = Inr (UseVersion x (ins c r) \<and> \<not> UseVersion x (del c r))"
begin

lemma sel_is_fetch:
  assumes "invar n c" "m \<le> n" "running t"
  shows "\<exists>sel. get_sel TransactionVersionOperator (td_start_time t) (td_transaction_id t) c m = Inr sel \<and>
    selected_rows sel m = filter (\<lambda>r. fetch t c r = Inr True) [0..<m]"
proof -
  have "UseDeletedVersion TransactionVersionOperator (td_start_time t) (td_transaction_id t) NOT_DELETED_ID"
    using running_UseVersion(2) [OF assms(3)] by (simp add: UseVersion_iff)
  from get_sel_exact [OF assms(1,2) this] show ?thesis
    using fetch_exact [OF assms(1)] assms(2) by (auto simp: UseVersion_iff intro!: filter_cong)
qed

end

definition vector_ok :: "nat \<Rightarrow> ChunkVectorInfo \<Rightarrow> bool" where
  "vector_ok n info \<longleftrightarrow>
     n \<le> STANDARD_VECTOR_SIZE \<and> length (vi_inserted info) = STANDARD_VECTOR_SIZE \<and> length (vi_deleted info) = STANDARD_VECTOR_SIZE \<and>
     (vi_same_inserted_id info \<longrightarrow> (\<forall>r < n. vi_inserted info ! r = vi_insert_id info)) \<and>
     (\<not> vi_any_deleted info \<longrightarrow> (\<forall>r < STANDARD_VECTOR_SIZE. vi_deleted info ! r = NOT_DELETED_ID)) \<and>
     (\<forall>r < STANDARD_VECTOR_SIZE. n \<le> r \<longrightarrow> vi_deleted info ! r = NOT_DELETED_ID)"

interpretation constant_version: versioned_chunk "\<lambda>n c. True" "\<lambda>c r. ci_insert_id c" "\<lambda>c r. ci_delete_id c"
  constant_TemplatedGetSelVector constant_Fetch
  by unfold_locales (auto simp: constant_TemplatedGetSelVector_def constant_Fetch_def filter_False)

interpretation vector_version: versioned_chunk vector_ok "\<lambda>c r. vi_inserted c ! r" "\<lambda>c r. vi_deleted c ! r"
  vector_TemplatedGetSelVector vector_Fetch
proof
  fix n c m and OP :: version_operator and s t
  assume c: "vector_ok n c" "m \<le> n" and keeps: "UseDeletedVersion OP s t NOT_DELETED_ID"
  let ?all = "\<lambda>r. UseInsertedVersion OP s t (vi_inserted c ! r) \<and> UseDeletedVersion OP s t (vi_deleted c ! r)"
  have m: "m \<le> STANDARD_VECTOR_SIZE" and
    same: "vi_same_inserted_id c \<Longrightarrow> r < m \<Longrightarrow> vi_inserted c ! r = vi_insert_id c" and
    none: "\<not> vi_any_deleted c \<Longrightarrow> r < m \<Longrightarrow> vi_deleted c ! r = NOT_DELETED_ID" for r
    using c by (auto simp: vector_ok_def)
  obtain sel where sel: "select_rows P m = Inr (sel P)" "selected_rows (sel P) m = filter P [0..<m]" for P
    using select_rows_selected [OF m] by metis
  show "\<exists>sel. vector_TemplatedGetSelVector OP s t c m = Inr sel \<and> selected_rows sel m = filter ?all [0..<m]"
  proof (cases "vi_same_inserted_id c"; cases "vi_any_deleted c")
    assume "vi_same_inserted_id c" "\<not> vi_any_deleted c"
    then show ?thesis using same none keeps
      by (cases "UseInsertedVersion OP s t (vi_insert_id c)") (auto simp: vector_TemplatedGetSelVector_def filter_True filter_False)
  next
    assume "vi_same_inserted_id c" "vi_any_deleted c"
    then show ?thesis using same
      by (cases "UseInsertedVersion OP s t (vi_insert_id c)")
        (auto simp: vector_TemplatedGetSelVector_def sel filter_False simp del: split_paired_Ex intro!: filter_cong)
  qed (auto simp: vector_TemplatedGetSelVector_def sel none keeps simp del: split_paired_Ex intro!: filter_cong)
qed (auto simp: vector_Fetch_def vector_ok_def)

fun chunk_ok :: "nat \<Rightarrow> ChunkInfo \<Rightarrow> bool" where
  "chunk_ok n (ConstantInfo info) \<longleftrightarrow> n = STANDARD_VECTOR_SIZE \<and> ci_delete_id info = NOT_DELETED_ID"
| "chunk_ok n (VectorInfo info) \<longleftrightarrow> vector_ok n info"

fun inserted_id :: "ChunkInfo \<Rightarrow> nat \<Rightarrow> transaction_t" where
  "inserted_id (ConstantInfo info) r = ci_insert_id info"
| "inserted_id (VectorInfo info) r = vi_inserted info ! r"

fun deleted_id :: "ChunkInfo \<Rightarrow> nat \<Rightarrow> transaction_t" where
  "deleted_id (ConstantInfo info) r = ci_delete_id info"
| "deleted_id (VectorInfo info) r = vi_deleted info ! r"

interpretation chunk_version: versioned_chunk chunk_ok inserted_id deleted_id chunk_TemplatedGetSelVector chunk_Fetch
proof
  fix n c m and OP :: version_operator and s t
  assume c: "chunk_ok n c" "m \<le> n" "UseDeletedVersion OP s t NOT_DELETED_ID"
  show "\<exists>sel. chunk_TemplatedGetSelVector OP s t c m = Inr sel \<and>
      selected_rows sel m = filter (\<lambda>r. UseInsertedVersion OP s t (inserted_id c r) \<and> UseDeletedVersion OP s t (deleted_id c r)) [0..<m]"
  proof (cases c)
    case (ConstantInfo d)
    then show ?thesis using constant_version.get_sel_exact [OF TrueI c(2,3), of d] by (simp del: split_paired_Ex)
  next
    case (VectorInfo w)
    then show ?thesis using vector_version.get_sel_exact [OF _ c(2,3), of w] c(1) by (simp del: split_paired_Ex)
  qed
next
  fix n c r t
  assume "chunk_ok n c" "r < n"
  then show "chunk_Fetch t c r = Inr (UseVersion t (inserted_id c r) \<and> \<not> UseVersion t (deleted_id c r))"
    by (cases c) (simp_all add: constant_version.fetch_exact vector_version.fetch_exact)
qed

subsection \<open>The operations on a vector\<close>

lemma vector_Append_result:
  assumes "vector_ok m info" "m < e" "e \<le> STANDARD_VECTOR_SIZE"
  shows "\<exists>info'. vector_Append m e v info = Inr info' \<and> vector_ok e info' \<and> vi_deleted info' = vi_deleted info \<and>
    (\<forall>r < e. vi_inserted info' ! r = (if m \<le> r then v else vi_inserted info ! r))"
proof -
  have len: "length (vi_inserted info) = STANDARD_VECTOR_SIZE" using assms(1) by (simp add: vector_ok_def)
  then obtain ids where ids: "store_rows [m..<e] v (vi_inserted info) = Inr ids"
    using store_rows_result(2) [of "[m..<e]" "vi_inserted info"] assms(3) by auto
  have ids': "length ids = STANDARD_VECTOR_SIZE" "r < STANDARD_VECTOR_SIZE \<Longrightarrow> ids ! r = (if r \<in> {m..<e} then v else vi_inserted info ! r)" for r
    using store_rows_result(1) [OF ids] len by auto
  have "vector_ok e (info\<lparr>vi_insert_id := i, vi_same_inserted_id := same, vi_inserted := ids\<rparr>)"
    if "same \<longrightarrow> (\<forall>r < e. ids ! r = i)" for i same
    using assms that ids'(1) by (auto simp: vector_ok_def)
  from this [of True v] this [of False v] this [of "vi_same_inserted_id info" "vi_insert_id info"] this [of False NOT_DELETED_ID]
  show ?thesis using assms ids ids'
    by (cases "vi_same_inserted_id info"; cases info) (auto simp: vector_Append_def Let_def vector_ok_def)
qed

lemma vector_CommitAppend_result:
  assumes "vector_ok n info" "s < e" "e \<le> n" "\<forall>r < n. vi_inserted info ! r = t \<longleftrightarrow> s \<le> r \<and> r < e"
  shows "\<exists>info'. vector_CommitAppend v s e info = Inr info' \<and> vector_ok n info' \<and> vi_deleted info' = vi_deleted info \<and>
    (\<forall>r < n. vi_inserted info' ! r = (if s \<le> r \<and> r < e then v else vi_inserted info ! r))"
proof -
  have len: "length (vi_inserted info) = STANDARD_VECTOR_SIZE" "n \<le> STANDARD_VECTOR_SIZE" using assms(1) by (simp_all add: vector_ok_def)
  then obtain ids where ids: "store_rows [s..<e] v (vi_inserted info) = Inr ids"
    using store_rows_result(2) [of "[s..<e]" "vi_inserted info"] assms(3) by auto
  have ids': "length ids = STANDARD_VECTOR_SIZE" "r < STANDARD_VECTOR_SIZE \<Longrightarrow> ids ! r = (if r \<in> {s..<e} then v else vi_inserted info ! r)" for r
    using store_rows_result(1) [OF ids] len by auto
  have whole: "s = 0 \<and> e = n" if "vi_same_inserted_id info"
  proof -
    have same: "vi_inserted info ! r = vi_insert_id info" if "r < n" for r
      using assms(1) \<open>vi_same_inserted_id info\<close> that by (simp add: vector_ok_def)
    have "vi_insert_id info = t" using same [of s] assms(2,3) spec [OF assms(4), of s] by auto
    then show ?thesis using same [of 0] same [of "n - 1"] assms(2-4) by force
  qed
  show ?thesis using assms ids ids' whole len
    by (auto simp: vector_CommitAppend_def Let_def vector_ok_def)
qed

lemma vector_CommitDelete_result:
  assumes "vector_ok n info" "\<forall>r \<in> set rows. r < n" "rows \<noteq> [] \<longrightarrow> vi_any_deleted info"
  shows "\<exists>ids. store_rows rows v (vi_deleted info) = Inr ids \<and> vector_ok n (info\<lparr>vi_deleted := ids\<rparr>) \<and>
    (\<forall>r < n. ids ! r = (if r \<in> set rows then v else vi_deleted info ! r))"
proof -
  have len: "length (vi_deleted info) = STANDARD_VECTOR_SIZE" "n \<le> STANDARD_VECTOR_SIZE" using assms(1) by (simp_all add: vector_ok_def)
  then obtain ids where ids: "store_rows rows v (vi_deleted info) = Inr ids"
    using store_rows_result(2) [of rows "vi_deleted info"] assms(2) by fastforce
  have "length ids = STANDARD_VECTOR_SIZE" "\<forall>r < STANDARD_VECTOR_SIZE. ids ! r = (if r \<in> set rows then v else vi_deleted info ! r)"
    using store_rows_result(1) [OF ids] len by auto
  then show ?thesis using assms ids len by (cases "rows = []") (auto simp: vector_ok_def)
qed

lemma vector_Cleanup_result:
  assumes "vector_ok STANDARD_VECTOR_SIZE info" "vector_Cleanup lowest info" "r < STANDARD_VECTOR_SIZE"
  shows "vi_deleted info ! r = NOT_DELETED_ID" "0 < r \<Longrightarrow> vi_inserted info ! r \<le> lowest"
  using assms by (auto simp: vector_ok_def vector_Cleanup_def list_all_iff STANDARD_VECTOR_SIZE_def not_less split: if_split_asm)

subsection \<open>Deleting rows of a vector\<close>

text \<open>
  What holds before row \<open>i\<close>: the first \<open>d\<close> rows are those deleted by this call, without
  repetitions, and no row so far is deleted by another transaction.
\<close>

definition delete_inv :: "transaction_t \<Rightarrow> transaction_t list \<Rightarrow> nat list \<Rightarrow> nat \<Rightarrow> nat \<Rightarrow> nat list \<Rightarrow> transaction_t list \<Rightarrow> bool" where
  "delete_inv t deleted0 rows0 i d rows deleted \<longleftrightarrow>
     d \<le> i \<and> i \<le> length rows0 \<and> length rows = length rows0 \<and> length deleted = length deleted0 \<and> drop i rows = drop i rows0 \<and>
     set (take i rows) \<subseteq> set (take i rows0) \<and> distinct (take d rows) \<and>
     set (take d rows) = {r \<in> set (take i rows0). deleted0 ! r = NOT_DELETED_ID} \<and>
     (\<forall>r \<in> set (take i rows0). deleted0 ! r = NOT_DELETED_ID \<or> deleted0 ! r = t) \<and>
     (\<forall>r < length deleted0. deleted ! r = (if r \<in> set (take d rows) then t else deleted0 ! r))"

lemma delete_inv_skip:
  assumes "delete_inv t deleted0 rows0 i d rows deleted" "i < length rows0" "rows0 ! i < length deleted0" "deleted ! (rows0 ! i) = t" "t \<noteq> NOT_DELETED_ID"
  shows "delete_inv t deleted0 rows0 (i + 1) d rows deleted"
proof -
  have i: "rows ! i = rows0 ! i" "drop (Suc i) rows = drop (Suc i) rows0"
    using assms(1,2) unfolding delete_inv_def by (metis nth_via_drop Cons_nth_drop_Suc, metis drop_Suc tl_drop)
  have "deleted0 ! (rows0 ! i) = t \<or> rows0 ! i \<in> set (take d rows)"
    using assms(1,3,4) by (auto simp: delete_inv_def split: if_split_asm)
  then show ?thesis using assms i by (auto simp: delete_inv_def take_Suc_conv_app_nth)
qed

lemma delete_inv_mark:
  assumes "delete_inv t deleted0 rows0 i d rows deleted" "i < length rows0" "rows0 ! i < length deleted0"
    and "deleted ! (rows0 ! i) = NOT_DELETED_ID" "t \<noteq> NOT_DELETED_ID"
  shows "delete_inv t deleted0 rows0 (i + 1) (d + 1) (rows[d := rows0 ! i]) (deleted[rows0 ! i := t])"
proof -
  have inv: "d \<le> i" "length rows = length rows0" "length deleted = length deleted0"
    using assms(1) by (simp_all add: delete_inv_def)
  have i: "rows ! i = rows0 ! i" "drop (Suc i) rows = drop (Suc i) rows0"
    using assms(1,2) unfolding delete_inv_def by (metis nth_via_drop Cons_nth_drop_Suc, metis drop_Suc tl_drop)
  have fresh: "rows0 ! i \<notin> set (take d rows)" "deleted0 ! (rows0 ! i) = NOT_DELETED_ID"
    using assms by (auto simp: delete_inv_def split: if_split_asm)
  have "set (take (Suc i) (rows[d := rows0 ! i])) \<subseteq> insert (rows0 ! i) (set (take (Suc i) rows))"
    by (metis set_update_subset_insert take_update_swap)
  then have "set (take (Suc i) (rows[d := rows0 ! i])) \<subseteq> set (take (Suc i) rows0)"
    using assms(1,2) inv i by (auto simp: delete_inv_def take_Suc_conv_app_nth)
  then show ?thesis using assms inv i fresh
    by (auto simp: delete_inv_def take_Suc_update take_Suc_conv_app_nth [of i rows0] nth_list_update)
qed

text \<open>On a conflict every mark of this call is taken back, and possibly marks of earlier calls.\<close>

lemma foldl_unmark:
  "length (foldl (\<lambda>deleted k. deleted[f k := v]) ds ks) = length ds"
  "r < length ds \<Longrightarrow> foldl (\<lambda>deleted k. deleted[f k := v]) ds ks ! r = (if r \<in> f ` set ks then v else ds ! r)"
  by (induction ks arbitrary: ds) (auto simp: nth_list_update)

lemma delete_loop_result:
  assumes "delete_loop t remaining i d rows deleted = (deleted', rows', r)"
    and "delete_inv t deleted0 rows0 i d rows deleted" "i + remaining \<le> length rows0"
    and "\<forall>x \<in> set (take (i + remaining) rows0). x < length deleted0" "t \<noteq> NOT_DELETED_ID"
  shows "(\<exists>d'. r = Inr d' \<and> delete_inv t deleted0 rows0 (i + remaining) d' rows' deleted') \<or>
    (r = Inl TransactionException \<and> length deleted' = length deleted0 \<and>
     (\<exists>x \<in> set (take (i + remaining) rows0). deleted0 ! x \<noteq> NOT_DELETED_ID \<and> deleted0 ! x \<noteq> t) \<and>
     (\<forall>x < length deleted0. deleted' ! x = deleted0 ! x \<or>
        (x \<in> set (take (i + remaining) rows0) \<and> deleted0 ! x = t \<and> deleted' ! x = NOT_DELETED_ID)))"
  using assms
proof (induction t remaining i d rows deleted rule: delete_loop.induct)
  case (2 t remaining i d rows deleted)
  note inv = "2.prems"(2)
  have i: "i < length rows0" "rows ! i = rows0 ! i" "length rows = length rows0" "length deleted = length deleted0"
    using "2.prems"(3) inv unfolding delete_inv_def by (auto dest: arg_cong [of _ _ hd] simp: hd_drop_conv_nth)
  have row: "rows0 ! i \<in> set (take (i + Suc remaining) rows0)"
    using i(1) by (force simp: in_set_conv_nth intro: exI [of _ i])
  then have bound: "rows0 ! i < length deleted0" using "2.prems"(4) by blast
  have reads: "\<not> (i \<ge> length rows \<or> rows ! i \<ge> length deleted)" using i bound by simp
  consider (own) "deleted ! (rows ! i) = t" | (fresh) "deleted ! (rows ! i) = NOT_DELETED_ID"
    | (conflict) "deleted ! (rows ! i) \<noteq> t" "deleted ! (rows ! i) \<noteq> NOT_DELETED_ID" by blast
  then show ?case
  proof cases
    case own
    have "delete_inv t deleted0 rows0 (i + 1) d rows deleted"
      using delete_inv_skip [OF inv i(1) bound] own i(2) "2.prems"(5) by simp
    then show ?thesis using "2.IH"(1) [OF reads own] "2.prems"(1,3-5) reads own by simp
  next
    case fresh
    then have ne: "deleted ! (rows ! i) \<noteq> t" using "2.prems"(5) by simp
    have "delete_inv t deleted0 rows0 (i + 1) (d + 1) (rows[d := rows ! i]) (deleted[rows ! i := t])"
      using delete_inv_mark [OF inv i(1) bound] fresh i(2) "2.prems"(5) by simp
    moreover have "\<not> deleted ! (rows ! i) \<noteq> NOT_DELETED_ID" using fresh by simp
    moreover note IH = "2.IH"(2) [OF reads ne this]
    ultimately show ?thesis using "2.prems"(1,3-5) reads ne by simp
  next
    case conflict
    have d: "d \<le> i" "set (take d rows) \<subseteq> set (take i rows)"
      using inv by (auto simp: delete_inv_def intro: set_take_subset_set_take [THEN subsetD])
    have other: "deleted0 ! (rows0 ! i) \<noteq> NOT_DELETED_ID" "deleted0 ! (rows0 ! i) \<noteq> t"
      using conflict inv bound i(2) by (auto simp: delete_inv_def split: if_split_asm)
    have marks: "(!) rows ` {0..<i} = set (take i rows)" using i(1,3) by (simp add: nth_image)
    have "deleted' ! x = (if x \<in> set (take i rows) then NOT_DELETED_ID else deleted ! x)" if "x < length deleted0" for x
      using "2.prems"(1) reads conflict that i(4) marks by (auto simp: foldl_unmark)
    moreover have "set (take i rows) \<subseteq> set (take (i + Suc remaining) rows0)"
      using inv set_take_subset_set_take [of i "i + Suc remaining" rows0] by (auto simp: delete_inv_def)
    moreover have "r = Inl TransactionException" "length deleted' = length deleted0"
      using "2.prems"(1) reads conflict i(4) by (auto simp: foldl_unmark)
    ultimately show ?thesis using inv other row d(2) unfolding delete_inv_def by (auto split: if_split_asm)
  qed
qed auto

lemma delete_loop_length: "delete_loop t remaining i d rows deleted = (deleted', rows', r) \<Longrightarrow> length rows' = length rows"
  by (induction t remaining i d rows deleted rule: delete_loop.induct) (auto split: if_split_asm)

lemma vector_Delete_length: "vector_Delete t rows n info = (info', rows', r) \<Longrightarrow> length rows' = length rows"
  by (auto simp: vector_Delete_def dest!: delete_loop_length split: prod.split_asm)

text \<open>
  What a delete of the rows \<open>R\<close> of \<open>m\<close> rows does to their deleting ids: without a conflict every row of \<open>R\<close>
  is marked, and the answer counts those that were not; with one nothing is marked, but marks the
  transaction had may be lost.
\<close>

definition delete_outcome ::
  "transaction_t \<Rightarrow> nat set \<Rightarrow> nat \<Rightarrow> (nat \<Rightarrow> transaction_t) \<Rightarrow> (nat \<Rightarrow> transaction_t) \<Rightarrow> nat list \<Rightarrow> nat result \<Rightarrow> bool" where
  "delete_outcome t R m old new rows r \<longleftrightarrow>
     (case r of
        Inr d \<Rightarrow> d \<le> length rows \<and> distinct (take d rows) \<and> set (take d rows) = {x \<in> R. old x = NOT_DELETED_ID} \<and>
          (\<forall>x \<in> R. old x = NOT_DELETED_ID \<or> old x = t) \<and> (\<forall>x < m. new x = (if x \<in> R then t else old x))
      | Inl e \<Rightarrow> e = TransactionException \<and> (\<exists>x \<in> R. old x \<noteq> NOT_DELETED_ID \<and> old x \<noteq> t) \<and>
          (\<forall>x < m. new x = old x \<or> (x \<in> R \<and> old x = t \<and> new x = NOT_DELETED_ID)))"

lemma vector_Delete_result:
  assumes "vector_Delete t rows n info = (info', rows', r)" "vector_ok m info" "n \<le> length rows"
    and "\<forall>x \<in> set (take n rows). x < m" "t \<noteq> NOT_DELETED_ID"
  shows "vector_ok m info'" "vi_inserted info' = vi_inserted info" "vi_any_deleted info'"
    "delete_outcome t (set (take n rows)) m ((!) (vi_deleted info)) ((!) (vi_deleted info')) rows' r"
proof -
  obtain deleted where loop: "delete_loop t n 0 0 rows (vi_deleted info) = (deleted, rows', r)"
    and info': "info' = info\<lparr>vi_any_deleted := True, vi_deleted := deleted\<rparr>"
    using assms(1) by (auto simp: vector_Delete_def split: prod.split_asm)
  have len: "m \<le> STANDARD_VECTOR_SIZE" "length (vi_deleted info) = STANDARD_VECTOR_SIZE" using assms(2) by (simp_all add: vector_ok_def)
  have "delete_inv t (vi_deleted info) rows 0 0 rows (vi_deleted info)" by (simp add: delete_inv_def)
  note result = delete_loop_result [OF loop this, simplified, OF assms(3) _ assms(5)]
  have bound: "\<forall>x \<in> set (take n rows). x < length (vi_deleted info)" using assms(4) len by auto
  have unchanged: "vi_deleted info ! x = NOT_DELETED_ID" if "m \<le> x" "x < STANDARD_VECTOR_SIZE" for x
    using that assms(2) by (auto simp: vector_ok_def)
  have outside: "x \<notin> set (take n rows)" if "m \<le> x" for x using that assms(4) by auto
  have "length deleted = STANDARD_VECTOR_SIZE \<and> (\<forall>x < STANDARD_VECTOR_SIZE. m \<le> x \<longrightarrow> deleted ! x = NOT_DELETED_ID)"
    using result [OF bound] len unchanged outside by (auto simp: delete_inv_def)
  then show "vector_ok m info'" using assms(2) by (auto simp: vector_ok_def info')
  show "vi_inserted info' = vi_inserted info" "vi_any_deleted info'" by (simp_all add: info')
  show "delete_outcome t (set (take n rows)) m ((!) (vi_deleted info)) ((!) (vi_deleted info')) rows' r"
    using result [OF bound]
  proof (elim disjE exE conjE)
    fix d assume d: "r = Inr d" and inv: "delete_inv t (vi_deleted info) rows n d rows' deleted"
    have "vi_deleted info' ! x = (if x \<in> set (take n rows) then t else vi_deleted info ! x)" if "x < m" for x
      using inv that len by (auto simp: delete_inv_def info')
    then show ?thesis using d inv assms(3) by (auto simp: delete_inv_def delete_outcome_def)
  next
    assume "r = Inl TransactionException"
      "\<exists>x\<in>set (take n rows). vi_deleted info ! x \<noteq> NOT_DELETED_ID \<and> vi_deleted info ! x \<noteq> t"
      "\<forall>x<length (vi_deleted info). deleted ! x = vi_deleted info ! x \<or>
         x \<in> set (take n rows) \<and> vi_deleted info ! x = t \<and> deleted ! x = NOT_DELETED_ID"
    then show ?thesis using len by (auto simp: delete_outcome_def info')
  qed
qed

end
