(* ===== verification/VersionManager.thy ===== *)
theory VersionManager
  imports RowVersions
begin

text \<open>
  The versions of the rows of a row group (\<open>storage/table/row_version_manager.cpp\<close>): a list of
  version infos, one for each vector, where no info means that every transaction sees every row.
  Each operation is shown to change the inserting and deleting ids of exactly the rows it is for.
\<close>

subsection \<open>The manager\<close>

record RowVersionManager =
  vm_start :: nat
  vm_vector_info :: "ChunkInfo option list"
  vm_unserialized :: bool

definition new_version_manager :: "nat \<Rightarrow> RowVersionManager" where
  "new_version_manager start = \<lparr>vm_start = start, vm_vector_info = [], vm_unserialized = False\<rparr>"

definition SetStart :: "nat \<Rightarrow> RowVersionManager \<Rightarrow> RowVersionManager" where
  "SetStart new_start mgr =
     mgr\<lparr>vm_start := new_start,
         vm_vector_info := map (\<lambda>i. map_option (chunk_SetStart (new_start + i * STANDARD_VECTOR_SIZE)) (vm_vector_info mgr ! i))
           [0..<length (vm_vector_info mgr)]\<rparr>"

definition GetChunkInfo :: "nat \<Rightarrow> RowVersionManager \<Rightarrow> ChunkInfo option" where
  "GetChunkInfo vector_idx mgr =
     (if vector_idx \<ge> length (vm_vector_info mgr) then None else vm_vector_info mgr ! vector_idx)"

text \<open>The loop over the vectors that have rows before \<open>count\<close>.\<close>

definition GetCommittedDeletedCount :: "nat \<Rightarrow> RowVersionManager \<Rightarrow> nat result" where
  "GetCommittedDeletedCount row_count mgr =
     fold_result (\<lambda>i deleted_count.
         case GetChunkInfo i mgr of
           None \<Rightarrow> Inr deleted_count
         | Some info \<Rightarrow>
             let max_count = min STANDARD_VECTOR_SIZE (row_count - i * STANDARD_VECTOR_SIZE)
             in bind_result (chunk_GetCommittedDeletedCount info max_count) (\<lambda>n. Inr (deleted_count + n)))
       [0..<(row_count + STANDARD_VECTOR_SIZE - 1) div STANDARD_VECTOR_SIZE] 0"

definition GetSelVector :: "TransactionData \<Rightarrow> nat \<Rightarrow> RowVersionManager \<Rightarrow> nat \<Rightarrow> selection result" where
  "GetSelVector transaction vector_idx mgr max_count =
     (case GetChunkInfo vector_idx mgr of
        None \<Rightarrow> Inr (max_count, [])
      | Some info \<Rightarrow> chunk_GetSelVector transaction info max_count)"

definition GetCommittedSelVector :: "transaction_t \<Rightarrow> transaction_t \<Rightarrow> nat \<Rightarrow> RowVersionManager \<Rightarrow> nat \<Rightarrow> selection result" where
  "GetCommittedSelVector start_time transaction_id vector_idx mgr max_count =
     (case GetChunkInfo vector_idx mgr of
        None \<Rightarrow> Inr (max_count, [])
      | Some info \<Rightarrow> chunk_GetCommittedSelVector start_time transaction_id info max_count)"

definition Fetch :: "TransactionData \<Rightarrow> nat \<Rightarrow> RowVersionManager \<Rightarrow> bool result" where
  "Fetch transaction row mgr =
     (let vector_index = row div STANDARD_VECTOR_SIZE
      in case GetChunkInfo vector_index mgr of
           None \<Rightarrow> Inr True
         | Some info \<Rightarrow> chunk_Fetch transaction info (row - vector_index * STANDARD_VECTOR_SIZE))"

definition FillVectorInfo :: "nat \<Rightarrow> ChunkInfo option list \<Rightarrow> ChunkInfo option list" where
  "FillVectorInfo vector_idx infos =
     (if vector_idx < length infos then infos else infos @ replicate (vector_idx + 1 - length infos) None)"

subsection \<open>Appending\<close>

text \<open>The last vector of a range of rows; the subtraction is one of 64-bit numbers.\<close>

definition end_vector :: "nat \<Rightarrow> nat" where
  "end_vector row_group_end = ((row_group_end + (2 ^ 64 - 1)) mod 2 ^ 64) div STANDARD_VECTOR_SIZE"

definition range_start :: "nat \<Rightarrow> nat \<Rightarrow> nat" where
  "range_start row_group_start vector_idx =
     (let start_vector_idx = row_group_start div STANDARD_VECTOR_SIZE
      in if vector_idx = start_vector_idx then row_group_start - start_vector_idx * STANDARD_VECTOR_SIZE else 0)"

definition range_end :: "nat \<Rightarrow> nat \<Rightarrow> nat" where
  "range_end row_group_end vector_idx =
     (let end_vector_idx = end_vector row_group_end
      in if vector_idx = end_vector_idx then row_group_end - end_vector_idx * STANDARD_VECTOR_SIZE else STANDARD_VECTOR_SIZE)"

definition append_vector ::
  "nat \<Rightarrow> transaction_t \<Rightarrow> nat \<Rightarrow> nat \<Rightarrow> nat \<Rightarrow> ChunkInfo option list \<Rightarrow> ChunkInfo option list result" where
  "append_vector start transaction_id row_group_start row_group_end vector_idx infos =
     (let vector_start = range_start row_group_start vector_idx; vector_end = range_end row_group_end vector_idx;
          first_row = start + vector_idx * STANDARD_VECTOR_SIZE
      in if vector_start = 0 \<and> vector_end = STANDARD_VECTOR_SIZE
         then Inr (infos[vector_idx := Some (ConstantInfo
                (new_constant_info first_row\<lparr>ci_insert_id := transaction_id, ci_delete_id := NOT_DELETED_ID\<rparr>))])
         else bind_result (case infos ! vector_idx of
                None \<Rightarrow> Inr (new_vector_info first_row)
              | Some (VectorInfo info) \<Rightarrow> Inr info
              | Some (ConstantInfo info) \<Rightarrow> Inl InternalException) (\<lambda>info.
              bind_result (vector_Append vector_start vector_end transaction_id info) (\<lambda>info.
                Inr (infos[vector_idx := Some (VectorInfo info)]))))"

definition AppendVersions :: "TransactionData \<Rightarrow> nat \<Rightarrow> nat \<Rightarrow> RowVersionManager \<Rightarrow> RowVersionManager result" where
  "AppendVersions transaction row_group_start row_group_end mgr =
     bind_result (fold_result (append_vector (vm_start mgr) (td_transaction_id transaction) row_group_start row_group_end)
         [row_group_start div STANDARD_VECTOR_SIZE..<end_vector row_group_end + 1]
         (FillVectorInfo (end_vector row_group_end) (vm_vector_info mgr)))
       (\<lambda>infos. Inr (mgr\<lparr>vm_unserialized := True, vm_vector_info := infos\<rparr>))"

text \<open>Where there must be an info and there is none, the checked pointer throws.\<close>

definition CommitAppend :: "transaction_t \<Rightarrow> nat \<Rightarrow> nat \<Rightarrow> RowVersionManager \<Rightarrow> RowVersionManager result" where
  "CommitAppend commit_id row_group_start row_count mgr =
     (if row_count = 0 then Inr mgr
      else let row_group_end = row_group_start + row_count
           in bind_result (fold_result (\<lambda>vector_idx infos.
                  if vector_idx \<ge> length infos then Inl InternalException
                  else case infos ! vector_idx of
                         None \<Rightarrow> Inl InternalException
                       | Some info \<Rightarrow>
                           bind_result (chunk_CommitAppend commit_id (range_start row_group_start vector_idx) (range_end row_group_end vector_idx) info)
                             (\<lambda>info. Inr (infos[vector_idx := Some info])))
                [row_group_start div STANDARD_VECTOR_SIZE..<end_vector row_group_end + 1] (vm_vector_info mgr))
              (\<lambda>infos. Inr (mgr\<lparr>vm_vector_info := infos\<rparr>)))"

definition cleanup_vector :: "transaction_t \<Rightarrow> nat \<Rightarrow> nat \<Rightarrow> RowVersionManager \<Rightarrow> RowVersionManager" where
  "cleanup_vector lowest_active_transaction row_group_end vector_idx mgr =
     (if range_end row_group_end vector_idx \<noteq> STANDARD_VECTOR_SIZE then mgr
      else case GetChunkInfo vector_idx mgr of
             None \<Rightarrow> mgr
           | Some info \<Rightarrow>
               if chunk_Cleanup lowest_active_transaction info
               then mgr\<lparr>vm_unserialized := (vm_unserialized mgr \<or> chunk_HasDeletes info),
                        vm_vector_info := (vm_vector_info mgr)[vector_idx := None]\<rparr>
               else mgr)"

definition CleanupAppend :: "transaction_t \<Rightarrow> nat \<Rightarrow> nat \<Rightarrow> RowVersionManager \<Rightarrow> RowVersionManager" where
  "CleanupAppend lowest_active_transaction row_group_start row_count mgr =
     (if row_count = 0 then mgr
      else let row_group_end = row_group_start + row_count
           in fold (cleanup_vector lowest_active_transaction row_group_end)
                [row_group_start div STANDARD_VECTOR_SIZE..<end_vector row_group_end + 1] mgr)"

definition VersionRevertAppend :: "nat \<Rightarrow> RowVersionManager \<Rightarrow> RowVersionManager" where
  "VersionRevertAppend start_row mgr =
     (let start_vector_idx = (start_row + (STANDARD_VECTOR_SIZE - 1)) div STANDARD_VECTOR_SIZE
      in mgr\<lparr>vm_vector_info := fold (\<lambda>vector_idx infos. infos[vector_idx := None])
               [start_vector_idx..<length (vm_vector_info mgr)] (vm_vector_info mgr)\<rparr>)"

subsection \<open>Deleting\<close>

definition GetVectorInfo :: "nat \<Rightarrow> RowVersionManager \<Rightarrow> ChunkVectorInfo \<times> RowVersionManager" where
  "GetVectorInfo vector_idx mgr =
     (let infos = FillVectorInfo vector_idx (vm_vector_info mgr);
          fresh = new_vector_info (vm_start mgr + vector_idx * STANDARD_VECTOR_SIZE);
          info = (case infos ! vector_idx of
                    None \<Rightarrow> fresh
                  | Some (ConstantInfo constant) \<Rightarrow>
                      fresh\<lparr>vi_insert_id := ci_insert_id constant, vi_inserted := replicate STANDARD_VECTOR_SIZE (ci_insert_id constant)\<rparr>
                  | Some (VectorInfo info) \<Rightarrow> info)
      in (info, mgr\<lparr>vm_vector_info := infos[vector_idx := Some (VectorInfo info)]\<rparr>))"

text \<open>The delete changes the info also when it fails, so the new state is given beside the answer.\<close>

definition DeleteRows ::
  "nat \<Rightarrow> transaction_t \<Rightarrow> nat list \<Rightarrow> nat \<Rightarrow> RowVersionManager \<Rightarrow> RowVersionManager \<times> nat list \<times> nat result" where
  "DeleteRows vector_idx transaction_id rows row_count mgr =
     (let (info, mgr) = GetVectorInfo vector_idx (mgr\<lparr>vm_unserialized := True\<rparr>);
          (info, rows, r) = vector_Delete transaction_id rows row_count info
      in (mgr\<lparr>vm_vector_info := (vm_vector_info mgr)[vector_idx := Some (VectorInfo info)]\<rparr>, rows, r))"

definition CommitDelete :: "nat \<Rightarrow> transaction_t \<Rightarrow> DeleteInfo \<Rightarrow> RowVersionManager \<Rightarrow> RowVersionManager result" where
  "CommitDelete vector_idx commit_id del mgr =
     (let (info, mgr) = GetVectorInfo vector_idx (mgr\<lparr>vm_unserialized := True\<rparr>)
      in bind_result (vector_CommitDelete commit_id del info) (\<lambda>info.
           Inr (mgr\<lparr>vm_vector_info := (vm_vector_info mgr)[vector_idx := Some (VectorInfo info)]\<rparr>)))"

subsection \<open>The ids of a row\<close>

lemma vector_size_pos [simp]: "0 < STANDARD_VECTOR_SIZE"
  by (simp add: STANDARD_VECTOR_SIZE_def)

definition info_at :: "ChunkInfo option list \<Rightarrow> nat \<Rightarrow> ChunkInfo option" where
  "info_at infos i = (if i < length infos then infos ! i else None)"

definition ins_at :: "ChunkInfo option list \<Rightarrow> nat \<Rightarrow> transaction_t" where
  "ins_at infos r = (case info_at infos (r div STANDARD_VECTOR_SIZE) of
     None \<Rightarrow> 0 | Some info \<Rightarrow> inserted_id info (r mod STANDARD_VECTOR_SIZE))"

definition del_at :: "ChunkInfo option list \<Rightarrow> nat \<Rightarrow> transaction_t" where
  "del_at infos r = (case info_at infos (r div STANDARD_VECTOR_SIZE) of
     None \<Rightarrow> NOT_DELETED_ID | Some info \<Rightarrow> deleted_id info (r mod STANDARD_VECTOR_SIZE))"

definition rows_in :: "nat \<Rightarrow> nat \<Rightarrow> nat" where
  "rows_in n i = min STANDARD_VECTOR_SIZE (n - i * STANDARD_VECTOR_SIZE)"

definition infos_ok :: "nat \<Rightarrow> ChunkInfo option list \<Rightarrow> bool" where
  "infos_ok n infos \<longleftrightarrow> (\<forall>i info. info_at infos i = Some info \<longrightarrow> i * STANDARD_VECTOR_SIZE < n \<and> chunk_ok (rows_in n i) info)"

definition manager_ok :: "nat \<Rightarrow> RowVersionManager \<Rightarrow> bool" where
  "manager_ok n mgr \<longleftrightarrow> infos_ok n (vm_vector_info mgr)"

definition row_ins :: "RowVersionManager \<Rightarrow> nat \<Rightarrow> transaction_t" where "row_ins mgr = ins_at (vm_vector_info mgr)"
definition row_del :: "RowVersionManager \<Rightarrow> nat \<Rightarrow> transaction_t" where "row_del mgr = del_at (vm_vector_info mgr)"

definition sees :: "TransactionData \<Rightarrow> RowVersionManager \<Rightarrow> nat \<Rightarrow> bool" where
  "sees t mgr r \<longleftrightarrow> UseVersion t (row_ins mgr r) \<and> \<not> UseVersion t (row_del mgr r)"

lemma unserialized_ids [simp]:
  "row_ins (mgr\<lparr>vm_unserialized := x\<rparr>) = row_ins mgr" "row_del (mgr\<lparr>vm_unserialized := x\<rparr>) = row_del mgr"
  by (simp_all add: row_ins_def row_del_def)

lemma GetChunkInfo_at: "GetChunkInfo i mgr = info_at (vm_vector_info mgr) i"
  by (simp add: GetChunkInfo_def info_at_def)

lemma info_at_update: "i < length infos \<Longrightarrow> info_at (infos[i := x]) j = (if j = i then x else info_at infos j)"
  by (auto simp: info_at_def)

lemma ins_at_update:
  "i < length infos \<Longrightarrow> ins_at (infos[i := Some info]) r =
     (if r div STANDARD_VECTOR_SIZE = i then inserted_id info (r mod STANDARD_VECTOR_SIZE) else ins_at infos r)"
  "i < length infos \<Longrightarrow> ins_at (infos[i := None]) r = (if r div STANDARD_VECTOR_SIZE = i then 0 else ins_at infos r)"
  by (simp_all add: ins_at_def info_at_update)

lemma del_at_update:
  "i < length infos \<Longrightarrow> del_at (infos[i := Some info]) r =
     (if r div STANDARD_VECTOR_SIZE = i then deleted_id info (r mod STANDARD_VECTOR_SIZE) else del_at infos r)"
  "i < length infos \<Longrightarrow> del_at (infos[i := None]) r = (if r div STANDARD_VECTOR_SIZE = i then NOT_DELETED_ID else del_at infos r)"
  by (simp_all add: del_at_def info_at_update)

lemmas at_update = ins_at_update del_at_update

lemma FillVectorInfo_at [simp]:
  "info_at (FillVectorInfo i infos) j = info_at infos j" "i < length (FillVectorInfo i infos)"
  by (auto simp: FillVectorInfo_def info_at_def nth_append)

lemma FillVectorInfo_ids [simp]:
  "ins_at (FillVectorInfo i infos) = ins_at infos" "del_at (FillVectorInfo i infos) = del_at infos"
  "infos_ok n (FillVectorInfo i infos) = infos_ok n infos"
  by (simp_all add: ins_at_def del_at_def infos_ok_def fun_eq_iff)

text \<open>A row and its place in a vector.\<close>

lemma row_place:
  "r < STANDARD_VECTOR_SIZE \<Longrightarrow> (i * STANDARD_VECTOR_SIZE + r) div STANDARD_VECTOR_SIZE = i"
  "r < STANDARD_VECTOR_SIZE \<Longrightarrow> (i * STANDARD_VECTOR_SIZE + r) mod STANDARD_VECTOR_SIZE = r"
  by simp_all

lemma row_bounds:
  "r < n \<Longrightarrow> r mod STANDARD_VECTOR_SIZE < rows_in n (r div STANDARD_VECTOR_SIZE)"
  "n \<le> r \<Longrightarrow> rows_in n (r div STANDARD_VECTOR_SIZE) \<le> r mod STANDARD_VECTOR_SIZE"
  "r < rows_in n i \<longleftrightarrow> r < STANDARD_VECTOR_SIZE \<and> i * STANDARD_VECTOR_SIZE + r < n"
proof -
  have "r mod STANDARD_VECTOR_SIZE = r - r div STANDARD_VECTOR_SIZE * STANDARD_VECTOR_SIZE" "r mod STANDARD_VECTOR_SIZE < STANDARD_VECTOR_SIZE"
    "r div STANDARD_VECTOR_SIZE * STANDARD_VECTOR_SIZE \<le> r"
    by (simp_all add: minus_div_mult_eq_mod)
  then show "r < n \<Longrightarrow> r mod STANDARD_VECTOR_SIZE < rows_in n (r div STANDARD_VECTOR_SIZE)"
    "n \<le> r \<Longrightarrow> rows_in n (r div STANDARD_VECTOR_SIZE) \<le> r mod STANDARD_VECTOR_SIZE"
    unfolding rows_in_def by linarith+
  show "r < rows_in n i \<longleftrightarrow> r < STANDARD_VECTOR_SIZE \<and> i * STANDARD_VECTOR_SIZE + r < n" by (auto simp: rows_in_def)
qed

lemma at_place:
  assumes "r < STANDARD_VECTOR_SIZE" "info_at infos i = Some info"
  shows "ins_at infos (i * STANDARD_VECTOR_SIZE + r) = inserted_id info r" "del_at infos (i * STANDARD_VECTOR_SIZE + r) = deleted_id info r"
  using assms by (simp_all add: ins_at_def del_at_def row_place)

lemma at_place_None:
  assumes "info_at infos (r div STANDARD_VECTOR_SIZE) = None"
  shows "ins_at infos r = 0" "del_at infos r = NOT_DELETED_ID"
  using assms by (simp_all add: ins_at_def del_at_def)

lemma del_at_beyond:
  assumes "infos_ok n infos" "n \<le> r"
  shows "del_at infos r = NOT_DELETED_ID"
proof (cases "info_at infos (r div STANDARD_VECTOR_SIZE)")
  case (Some info)
  have chunk: "chunk_ok (rows_in n (r div STANDARD_VECTOR_SIZE)) info" using assms(1) Some by (simp add: infos_ok_def)
  note row_bounds(2) [OF assms(2)]
  moreover have "r mod STANDARD_VECTOR_SIZE < STANDARD_VECTOR_SIZE" "\<not> STANDARD_VECTOR_SIZE \<le> r mod STANDARD_VECTOR_SIZE"
    by (simp_all add: not_le)
  ultimately show ?thesis using chunk Some by (cases info) (auto simp: del_at_def vector_ok_def)
qed (simp add: at_place_None)

subsection \<open>Reading\<close>

lemma sees_no_info: "running t \<Longrightarrow> info_at (vm_vector_info mgr) (r div STANDARD_VECTOR_SIZE) = None \<Longrightarrow> sees t mgr r"
  by (simp add: sees_def row_ins_def row_del_def at_place_None running_UseVersion)

lemma Fetch_sees:
  assumes "manager_ok n mgr" "r < n" "running t"
  shows "Fetch t r mgr = Inr (sees t mgr r)"
proof (cases "GetChunkInfo (r div STANDARD_VECTOR_SIZE) mgr")
  case (Some info)
  then have "chunk_ok (rows_in n (r div STANDARD_VECTOR_SIZE)) info"
    using assms(1) by (simp add: manager_ok_def infos_ok_def GetChunkInfo_at)
  from chunk_version.fetch_exact [OF this row_bounds(1) [OF assms(2)]] show ?thesis using Some
    by (simp add: Fetch_def Let_def sees_def row_ins_def row_del_def ins_at_def del_at_def GetChunkInfo_at minus_div_mult_eq_mod)
qed (use assms in \<open>simp add: Fetch_def GetChunkInfo_at sees_no_info\<close>)

lemma GetSelVector_sees:
  assumes "manager_ok n mgr" "m \<le> rows_in n i" "running t"
  shows "\<exists>sel. GetSelVector t i mgr m = Inr sel \<and>
    selected_rows sel m = filter (\<lambda>r. sees t mgr (i * STANDARD_VECTOR_SIZE + r)) [0..<m]"
proof -
  have m: "r < STANDARD_VECTOR_SIZE" if "r < m" for r using that assms(2) by (simp add: rows_in_def)
  show ?thesis
  proof (cases "GetChunkInfo i mgr")
    case None
    then have "sees t mgr (i * STANDARD_VECTOR_SIZE + r)" if "r < m" for r
      using sees_no_info [OF assms(3)] m [OF that] by (simp add: row_place GetChunkInfo_at)
    then show ?thesis using None by (simp add: GetSelVector_def filter_True)
  next
    case (Some info)
    then have "chunk_ok (rows_in n i) info" using assms(1) by (simp add: manager_ok_def infos_ok_def GetChunkInfo_at)
    from chunk_version.get_sel_exact [OF this assms(2), of TransactionVersionOperator "td_start_time t" "td_transaction_id t"]
    show ?thesis using Some m running_UseVersion(2) [OF assms(3)]
      by (auto simp: GetSelVector_def chunk_GetSelVector_def sees_def row_ins_def row_del_def GetChunkInfo_at at_place UseVersion_iff
          simp del: split_paired_Ex intro!: filter_cong)
  qed
qed

lemma GetCommittedSelVector_rows:
  assumes "manager_ok n mgr" "m \<le> rows_in n i"
  shows "\<exists>sel. GetCommittedSelVector s t i mgr m = Inr sel \<and>
    selected_rows sel m = filter (\<lambda>r. UseDeletedVersion CommittedVersionOperator s t (row_del mgr (i * STANDARD_VECTOR_SIZE + r))) [0..<m]"
proof -
  have m: "r < STANDARD_VECTOR_SIZE" if "r < m" for r using that assms(2) by (simp add: rows_in_def)
  show ?thesis
  proof (cases "GetChunkInfo i mgr")
    case None
    then have "row_del mgr (i * STANDARD_VECTOR_SIZE + r) = NOT_DELETED_ID" if "r < m" for r
      using m [OF that] by (simp add: row_del_def row_place GetChunkInfo_at at_place_None)
    then show ?thesis using None by (simp add: GetCommittedSelVector_def filter_True)
  next
    case (Some info)
    then have "chunk_ok (rows_in n i) info" using assms(1) by (simp add: manager_ok_def infos_ok_def GetChunkInfo_at)
    from chunk_version.get_sel_exact [OF this assms(2), of CommittedVersionOperator s t]
    show ?thesis using Some m
      by (auto simp: GetCommittedSelVector_def chunk_GetCommittedSelVector_def row_del_def GetChunkInfo_at at_place
          simp del: split_paired_Ex intro!: filter_cong)
  qed
qed

subsection \<open>Appending rows\<close>

lemma infos_ok_grow:
  assumes "infos_ok n infos" "i < length infos" "i * STANDARD_VECTOR_SIZE \<le> n" "n \<le> n'" "n' \<le> (i + 1) * STANDARD_VECTOR_SIZE"
    and "i * STANDARD_VECTOR_SIZE < n'" "chunk_ok (rows_in n' i) info"
  shows "infos_ok n' (infos[i := Some info])"
proof -
  have "j * STANDARD_VECTOR_SIZE < n' \<and> rows_in n' j = rows_in n j" if "j \<noteq> i" "j * STANDARD_VECTOR_SIZE < n" for j
  proof (cases "j < i")
    case True
    then have "(j + 1) * STANDARD_VECTOR_SIZE \<le> i * STANDARD_VECTOR_SIZE" by (metis Suc_eq_plus1 Suc_leI mult_le_mono1)
    then show ?thesis using assms(3,4) that by (auto simp: rows_in_def)
  next
    case False
    then have "(i + 1) * STANDARD_VECTOR_SIZE \<le> j * STANDARD_VECTOR_SIZE" using that(1) by (metis Suc_eq_plus1 Suc_leI linorder_neqE_nat mult_le_mono1)
    then show ?thesis using assms(4,5) that by auto
  qed
  moreover have "j * STANDARD_VECTOR_SIZE < n'" if "info_at infos j = Some x" for j x
    using assms(1,4) that by (fastforce simp: infos_ok_def)
  ultimately show ?thesis using assms by (auto simp: infos_ok_def info_at_update)
qed

lemma infos_ok_update:
  assumes "infos_ok n infos" "i < length infos" "i * STANDARD_VECTOR_SIZE < n" "chunk_ok (rows_in n i) info"
  shows "infos_ok n (infos[i := Some info])"
  using assms by (auto simp: infos_ok_def info_at_update)

lemma end_vector_eq: "0 < e \<Longrightarrow> e \<le> 2 ^ 64 \<Longrightarrow> end_vector e = (e - 1) div STANDARD_VECTOR_SIZE"
  by (simp add: end_vector_def mod_if)

lemma range_end_eq:
  assumes "0 < e" "e \<le> 2 ^ 64" "i \<le> end_vector e"
  shows "i * STANDARD_VECTOR_SIZE < e" "range_end e i = min e ((i + 1) * STANDARD_VECTOR_SIZE) - i * STANDARD_VECTOR_SIZE"
proof -
  have e: "end_vector e * STANDARD_VECTOR_SIZE \<le> e - 1" "e - 1 < (end_vector e + 1) * STANDARD_VECTOR_SIZE"
    unfolding end_vector_eq [OF assms(1,2)]
    using div_times_less_eq_dividend [of "e - 1" STANDARD_VECTOR_SIZE] dividend_less_div_times [of STANDARD_VECTOR_SIZE "e - 1"] by auto
  have le: "i * STANDARD_VECTOR_SIZE \<le> end_vector e * STANDARD_VECTOR_SIZE" using assms(3) by simp
  then show "i * STANDARD_VECTOR_SIZE < e" using e(1) assms(1) by linarith
  show "range_end e i = min e ((i + 1) * STANDARD_VECTOR_SIZE) - i * STANDARD_VECTOR_SIZE"
  proof (cases "i = end_vector e")
    case True
    then show ?thesis using e assms(1) by (simp add: range_end_def)
  next
    case False
    then have "(i + 1) * STANDARD_VECTOR_SIZE \<le> end_vector e * STANDARD_VECTOR_SIZE" using assms(3) by (metis Suc_eq_plus1 Suc_leI le_neq_implies_less mult_le_mono1)
    then show ?thesis using False e(1) by (simp add: range_end_def)
  qed
qed

lemma range_start_eq:
  assumes "s div STANDARD_VECTOR_SIZE \<le> i"
  shows "range_start s i = max s (i * STANDARD_VECTOR_SIZE) - i * STANDARD_VECTOR_SIZE" "s < (i + 1) * STANDARD_VECTOR_SIZE"
proof -
  have s: "s div STANDARD_VECTOR_SIZE * STANDARD_VECTOR_SIZE \<le> s" "s < (s div STANDARD_VECTOR_SIZE + 1) * STANDARD_VECTOR_SIZE"
    using dividend_less_div_times [of STANDARD_VECTOR_SIZE s] by auto
  have "(s div STANDARD_VECTOR_SIZE + 1) * STANDARD_VECTOR_SIZE \<le> (i + 1) * STANDARD_VECTOR_SIZE" using assms by (intro mult_le_mono1) simp
  then show "s < (i + 1) * STANDARD_VECTOR_SIZE" using s(2) by linarith
  have "s \<le> i * STANDARD_VECTOR_SIZE" if "i \<noteq> s div STANDARD_VECTOR_SIZE"
  proof -
    have "(s div STANDARD_VECTOR_SIZE + 1) * STANDARD_VECTOR_SIZE \<le> i * STANDARD_VECTOR_SIZE"
      using that assms by (intro mult_le_mono1) simp
    then show ?thesis using s(2) by linarith
  qed
  then show "range_start s i = max s (i * STANDARD_VECTOR_SIZE) - i * STANDARD_VECTOR_SIZE"
    using s(1) by (cases "i = s div STANDARD_VECTOR_SIZE") (auto simp: range_start_def)
qed

text \<open>What an append has done once the rows before \<open>n\<close> are there.\<close>

definition appended :: "nat \<Rightarrow> transaction_t \<Rightarrow> ChunkInfo option list \<Rightarrow> nat \<Rightarrow> ChunkInfo option list \<Rightarrow> bool" where
  "appended s t infos n infos' \<longleftrightarrow>
     infos_ok n infos' \<and> length infos' = length infos \<and>
     (\<forall>r < n. ins_at infos' r = (if s \<le> r then t else ins_at infos r) \<and> del_at infos' r = del_at infos r)"

lemma new_vector_ok: "m \<le> STANDARD_VECTOR_SIZE \<Longrightarrow> vector_ok m (new_vector_info start)"
  by (simp add: vector_ok_def new_vector_info_def)

lemma new_vector_ids:
  "r < STANDARD_VECTOR_SIZE \<Longrightarrow> vi_inserted (new_vector_info start) ! r = 0"
  "r < STANDARD_VECTOR_SIZE \<Longrightarrow> vi_deleted (new_vector_info start) ! r = NOT_DELETED_ID"
  by (simp_all add: new_vector_info_def)

lemma rows_in_le: "rows_in n i \<le> STANDARD_VECTOR_SIZE"
  by (simp add: rows_in_def)

lemma vector_step:
  assumes "infos_ok n infos" "i < length infos" "i * STANDARD_VECTOR_SIZE \<le> n" "n \<le> n'" "n' \<le> (i + 1) * STANDARD_VECTOR_SIZE" "i * STANDARD_VECTOR_SIZE < n'"
    and "chunk_ok (rows_in n' i) info" "\<forall>r. i * STANDARD_VECTOR_SIZE + r < n' \<and> r < STANDARD_VECTOR_SIZE \<longrightarrow>
      inserted_id info r = (if n \<le> i * STANDARD_VECTOR_SIZE + r then t else ins_at infos (i * STANDARD_VECTOR_SIZE + r)) \<and>
      deleted_id info r = del_at infos (i * STANDARD_VECTOR_SIZE + r)"
  shows "appended n t infos n' (infos[i := Some info])"
proof -
  have "ins_at (infos[i := Some info]) r = (if n \<le> r then t else ins_at infos r) \<and> del_at (infos[i := Some info]) r = del_at infos r"
    if r: "r < n'" for r
  proof (cases "r div STANDARD_VECTOR_SIZE = i")
    case True
    have "i * STANDARD_VECTOR_SIZE + r mod STANDARD_VECTOR_SIZE = r" using True div_mult_mod_eq by blast
    then show ?thesis using assms(8) r True assms(2) by (metis at_update(1,3) mod_less_divisor vector_size_pos)
  next
    case False
    have "r < n" using False r assms(3,5)
      by (metis Suc_eq_plus1 div_less_iff_less_mult dividend_less_div_times le_less_Suc_eq less_le_trans linorder_not_less not_less_eq_eq order_less_le_trans vector_size_pos)
    then show ?thesis using False assms(2) by (simp add: at_update)
  qed
  then show ?thesis using infos_ok_grow [OF assms(1-7)] by (simp add: appended_def)
qed

lemma append_vector_step:
  assumes "infos_ok n infos" "i < length infos" "n = max s (i * STANDARD_VECTOR_SIZE)" "s < e" "e \<le> 2 ^ 64"
    and "s div STANDARD_VECTOR_SIZE \<le> i" "i \<le> end_vector e"
  shows "\<exists>infos'. append_vector start t s e i infos = Inr infos' \<and> appended n t infos (min e ((i + 1) * STANDARD_VECTOR_SIZE)) infos'"
proof -
  define n' where "n' = min e ((i + 1) * STANDARD_VECTOR_SIZE)"
  define k where "k = n - i * STANDARD_VECTOR_SIZE"
  define k' where "k' = n' - i * STANDARD_VECTOR_SIZE"
  have range: "range_start s i = k" "range_end e i = k'" "s < (i + 1) * STANDARD_VECTOR_SIZE" "i * STANDARD_VECTOR_SIZE < e"
    using range_start_eq [OF assms(6)] range_end_eq [OF _ assms(5,7)] assms(3,4) by (simp_all add: k_def k'_def n'_def)
  have n: "i * STANDARD_VECTOR_SIZE \<le> n" "n < n'" "n' \<le> (i + 1) * STANDARD_VECTOR_SIZE" "i * STANDARD_VECTOR_SIZE < n'"
    using range(3,4) assms(3,4) by (auto simp: n'_def)
  have k: "k < k'" "k' \<le> STANDARD_VECTOR_SIZE" "rows_in n i = k" "rows_in n' i = k'" "n = i * STANDARD_VECTOR_SIZE + k" "n' = i * STANDARD_VECTOR_SIZE + k'"
    using n by (auto simp: k_def k'_def rows_in_def)
  note step = vector_step [OF assms(1,2) n(1) less_imp_le [OF n(2)] n(3,4)]
  show ?thesis
  proof (cases "k = 0 \<and> k' = STANDARD_VECTOR_SIZE")
    case True
    have "del_at infos (i * STANDARD_VECTOR_SIZE + r) = NOT_DELETED_ID" for r using del_at_beyond [OF assms(1)] True k(5) by simp
    then have "appended n t infos n' (infos[i := Some (ConstantInfo
        (new_constant_info (start + i * STANDARD_VECTOR_SIZE)\<lparr>ci_insert_id := t, ci_delete_id := NOT_DELETED_ID\<rparr>))])"
      using True k by (intro step) auto
    then show ?thesis using True range by (simp add: append_vector_def n'_def)
  next
    case False
    have "\<exists>info. (case infos ! i of None \<Rightarrow> Inr (new_vector_info (start + i * STANDARD_VECTOR_SIZE)) | Some (VectorInfo info) \<Rightarrow> Inr info
         | Some (ConstantInfo info) \<Rightarrow> Inl InternalException) = Inr info \<and> vector_ok k info \<and>
        (\<forall>r < STANDARD_VECTOR_SIZE. vi_inserted info ! r = ins_at infos (i * STANDARD_VECTOR_SIZE + r) \<and>
           vi_deleted info ! r = del_at infos (i * STANDARD_VECTOR_SIZE + r))"
    proof (cases "info_at infos i")
      case None
      then show ?thesis using assms(2) k(1,2) new_vector_ok [of k "start + i * STANDARD_VECTOR_SIZE"]
        by (auto simp: info_at_def at_place_None new_vector_info_def)
    next
      case (Some info)
      then have "chunk_ok k info" using assms(1) k(3) by (auto simp: infos_ok_def)
      then show ?thesis using Some assms(2) k(1,2) at_place [of _ infos i info] by (cases info) (auto simp: info_at_def)
    qed
    then obtain info where info: "(case infos ! i of None \<Rightarrow> Inr (new_vector_info (start + i * STANDARD_VECTOR_SIZE)) | Some (VectorInfo info) \<Rightarrow> Inr info
         | Some (ConstantInfo info) \<Rightarrow> Inl InternalException) = Inr info" "vector_ok k info"
      "\<forall>r < STANDARD_VECTOR_SIZE. vi_inserted info ! r = ins_at infos (i * STANDARD_VECTOR_SIZE + r) \<and>
         vi_deleted info ! r = del_at infos (i * STANDARD_VECTOR_SIZE + r)" by blast
    obtain info' where info': "vector_Append k k' t info = Inr info'" "vector_ok k' info'" "vi_deleted info' = vi_deleted info"
      "\<forall>r < k'. vi_inserted info' ! r = (if k \<le> r then t else vi_inserted info ! r)"
      using vector_Append_result [OF info(2) k(1,2)] by blast
    have "appended n t infos n' (infos[i := Some (VectorInfo info')])"
      using info(3) info'(2-4) k by (intro step) auto
    then show ?thesis using False range info(1) info'(1) by (auto simp: append_vector_def Let_def n'_def)
  qed
qed

lemma infos_appended_trans:
  assumes "appended s t infos n infos1" "appended n t infos1 n' infos2" "n \<le> n'" "s \<le> n" "infos_ok s infos"
  shows "appended s t infos n' infos2"
proof -
  have "del_at infos1 r = del_at infos r" for r
    using assms(1,4) del_at_beyond [of n infos1 r] del_at_beyond [OF assms(5), of r] by (cases "r < n") (auto simp: appended_def)
  then show ?thesis using assms by (auto simp: appended_def)
qed

lemma append_vectors:
  assumes "infos_ok s infos" "end_vector e < length infos" "s < e" "e \<le> 2 ^ 64" "s div STANDARD_VECTOR_SIZE \<le> k" "k \<le> end_vector e + 1"
  shows "\<exists>infos'. fold_result (append_vector start t s e) [s div STANDARD_VECTOR_SIZE..<k] infos = Inr infos' \<and>
    appended s t infos (max s (min e (k * STANDARD_VECTOR_SIZE))) infos'"
  using assms(5,6)
proof (induction k rule: dec_induct)
  case base
  have "s div STANDARD_VECTOR_SIZE * STANDARD_VECTOR_SIZE \<le> s" by simp
  then have "max s (min e (s div STANDARD_VECTOR_SIZE * STANDARD_VECTOR_SIZE)) = s" by linarith
  then show ?case using assms(1) by (simp add: appended_def)
next
  case (step k)
  then obtain infos1 where infos1: "fold_result (append_vector start t s e) [s div STANDARD_VECTOR_SIZE..<k] infos = Inr infos1"
    "appended s t infos (max s (min e (k * STANDARD_VECTOR_SIZE))) infos1" by auto
  have k: "k \<le> end_vector e" using step.prems by simp
  have lt: "k * STANDARD_VECTOR_SIZE < e" "s < (k + 1) * STANDARD_VECTOR_SIZE"
    using range_end_eq(1) [OF _ assms(4) k] assms(3) range_start_eq(2) [OF step.hyps(1)] by simp_all
  then have eqs: "max s (min e (k * STANDARD_VECTOR_SIZE)) = max s (k * STANDARD_VECTOR_SIZE)"
    "max s (min e (Suc k * STANDARD_VECTOR_SIZE)) = min e ((k + 1) * STANDARD_VECTOR_SIZE)" using assms(3) by auto
  have ok: "infos_ok (max s (k * STANDARD_VECTOR_SIZE)) infos1" "k < length infos1"
    using infos1(2) k assms(2) by (simp_all add: eqs appended_def)
  obtain infos2 where infos2: "append_vector start t s e k infos1 = Inr infos2"
    "appended (max s (k * STANDARD_VECTOR_SIZE)) t infos1 (min e ((k + 1) * STANDARD_VECTOR_SIZE)) infos2"
    using append_vector_step [OF ok refl assms(3,4) step.hyps(1) k] by blast
  have "appended s t infos (min e ((k + 1) * STANDARD_VECTOR_SIZE)) infos2"
    using infos_appended_trans [OF infos1(2) [unfolded eqs] infos2(2) _ _ assms(1)] lt assms(3) by auto
  then show ?case using infos1(1) infos2(1) step.hyps(1) by (simp add: fold_result_append eqs del: mult_Suc)
qed

lemma AppendVersions_result:
  assumes "manager_ok n mgr" "n < e" "e \<le> 2 ^ 64"
  shows "\<exists>mgr'. AppendVersions t n e mgr = Inr mgr' \<and> manager_ok e mgr' \<and>
    (\<forall>r < e. row_ins mgr' r = (if n \<le> r then td_transaction_id t else row_ins mgr r) \<and> row_del mgr' r = row_del mgr r)"
proof -
  let ?infos = "FillVectorInfo (end_vector e) (vm_vector_info mgr)"
  have "e \<le> (end_vector e + 1) * STANDARD_VECTOR_SIZE" "n div STANDARD_VECTOR_SIZE \<le> end_vector e"
    using assms(2,3) dividend_less_div_times [of STANDARD_VECTOR_SIZE "e - 1"] by (auto simp: end_vector_eq intro!: div_le_mono)
  then have e: "max n (min e ((end_vector e + 1) * STANDARD_VECTOR_SIZE)) = e" "n div STANDARD_VECTOR_SIZE \<le> end_vector e + 1"
    using assms(2) by auto
  show ?thesis
    using append_vectors [of n ?infos e, OF _ FillVectorInfo_at(2) assms(2,3) e(2) order_refl, of "vm_start mgr" "td_transaction_id t"] assms(1)
    unfolding e by (auto simp: AppendVersions_def manager_ok_def appended_def row_ins_def row_del_def)
qed

subsection \<open>Making an append final, and taking it back\<close>

lemma CommitAppend_step:
  assumes "infos_ok n infos" "i < length infos" "info_at infos i = Some info" "i * STANDARD_VECTOR_SIZE < n"
    and "a < b" "b \<le> rows_in n i" "\<forall>r < rows_in n i. inserted_id info r = t \<longleftrightarrow> a \<le> r \<and> r < b"
  shows "\<exists>info'. chunk_CommitAppend v a b info = Inr info' \<and> infos_ok n (infos[i := Some info']) \<and>
    (\<forall>r < rows_in n i. inserted_id info' r = (if a \<le> r \<and> r < b then v else inserted_id info r) \<and> deleted_id info' r = deleted_id info r)"
proof -
  have ok: "chunk_ok (rows_in n i) info" using assms(1,3) by (simp add: infos_ok_def)
  show ?thesis
  proof (cases info)
    case (ConstantInfo c)
    have "a < rows_in n i" using assms(5,6) by simp
    then have "ci_insert_id c = t" using assms(5,7) ConstantInfo by auto
    then have "\<forall>r < rows_in n i. a \<le> r \<and> r < b" using assms(7) ConstantInfo by auto
    then show ?thesis using ConstantInfo ok infos_ok_update [OF assms(1,2,4)] by (simp add: constant_CommitAppend_def)
  next
    case (VectorInfo w)
    then obtain w' where w': "vector_CommitAppend v a b w = Inr w'" "vector_ok (rows_in n i) w'" "vi_deleted w' = vi_deleted w"
      "\<forall>r < rows_in n i. vi_inserted w' ! r = (if a \<le> r \<and> r < b then v else vi_inserted w ! r)"
      using vector_CommitAppend_result [of "rows_in n i" w a b t v] ok assms(5-7) by auto
    then show ?thesis using VectorInfo infos_ok_update [OF assms(1,2,4), of "VectorInfo w'"] by auto
  qed
qed

text \<open>What a commit has done once the rows before \<open>m\<close> have their commit id.\<close>

definition committed :: "nat \<Rightarrow> transaction_t \<Rightarrow> nat \<Rightarrow> ChunkInfo option list \<Rightarrow> nat \<Rightarrow> ChunkInfo option list \<Rightarrow> bool" where
  "committed s v n infos m infos' \<longleftrightarrow>
     infos_ok n infos' \<and> length infos' = length infos \<and>
     (\<forall>r < n. ins_at infos' r = (if s \<le> r \<and> r < m then v else ins_at infos r) \<and> del_at infos' r = del_at infos r)"

abbreviation commit_vector :: "transaction_t \<Rightarrow> nat \<Rightarrow> nat \<Rightarrow> nat \<Rightarrow> ChunkInfo option list \<Rightarrow> ChunkInfo option list result" where
  "commit_vector v s e \<equiv> \<lambda>vector_idx infos.
     if vector_idx \<ge> length infos then Inl InternalException
     else case infos ! vector_idx of
            None \<Rightarrow> Inl InternalException
          | Some info \<Rightarrow> bind_result (chunk_CommitAppend v (range_start s vector_idx) (range_end e vector_idx) info)
                           (\<lambda>info. Inr (infos[vector_idx := Some info]))"

lemma commit_vector_step:
  assumes "committed s v n infos (min e (i * STANDARD_VECTOR_SIZE)) infos1" "s < e" "e \<le> n" "n \<le> 2 ^ 64"
    and "s div STANDARD_VECTOR_SIZE \<le> i" "i \<le> end_vector e" "\<forall>r < n. ins_at infos r = t \<longleftrightarrow> s \<le> r \<and> r < e" "t \<noteq> 0"
  shows "\<exists>infos2. commit_vector v s e i infos1 = Inr infos2 \<and> committed s v n infos (min e ((i + 1) * STANDARD_VECTOR_SIZE)) infos2"
proof -
  let ?S = STANDARD_VECTOR_SIZE
  have e: "0 < e" "e \<le> 2 ^ 64" using assms(2-4) by simp_all
  define a where "a = range_start s i"
  define b where "b = range_end e i"
  have a: "a = max s (i * ?S) - i * ?S" "s < (i + 1) * ?S" using range_start_eq [OF assms(5)] by (simp_all add: a_def)
  have b: "b = min e ((i + 1) * ?S) - i * ?S" "i * ?S < e" using range_end_eq [OF e assms(6)] by (simp_all add: b_def)
  have range: "s \<le> i * ?S + r \<and> i * ?S + r < e \<longleftrightarrow> a \<le> r \<and> r < b" if "r < ?S" for r
    using a b assms(2,3) that by (auto simp: rows_in_def)
  have ab: "a < b" "b \<le> rows_in n i" using a(2) b(2) assms(2,3) by (auto simp: rows_in_def a(1) b(1) min_def max_def)
  have old: "ins_at infos1 (i * ?S + r) = ins_at infos (i * ?S + r)" if "i * ?S + r < n" for r
    using assms(1) that by (auto simp: committed_def)
  have "a < ?S" "i * ?S + a < n" using ab row_bounds(3) [of a n i] by simp_all
  then have "ins_at infos1 (i * ?S + a) \<noteq> 0" using old [of a] spec [OF assms(7), of "i * ?S + a"] assms(8) range [of a] ab(1) by simp
  then obtain info where info: "info_at infos1 i = Some info"
    using at_place_None(1) [of infos1 "i * ?S + a"] row_place(1) [OF \<open>a < ?S\<close>] by fastforce
  have i: "i < length infos1" "infos1 ! i = Some info" using info by (auto simp: info_at_def split: if_split_asm)
  have ids: "inserted_id info r = ins_at infos (i * ?S + r)" "deleted_id info r = del_at infos (i * ?S + r)" if "r < rows_in n i" for r
    using at_place [of r infos1 i info] info old [of r] that assms(1) by (auto simp: row_bounds(3) committed_def)
  have "\<forall>r < rows_in n i. inserted_id info r = t \<longleftrightarrow> a \<le> r \<and> r < b"
    using ids(1) assms(7) range by (auto simp: row_bounds(3))
  then obtain info' where info': "chunk_CommitAppend v a b info = Inr info'" "infos_ok n (infos1[i := Some info'])"
    "\<forall>r < rows_in n i. inserted_id info' r = (if a \<le> r \<and> r < b then v else inserted_id info r) \<and> deleted_id info' r = deleted_id info r"
    using CommitAppend_step [of n infos1 i info a b t v] assms(1,3) b(2) i(1) info ab by (auto simp: committed_def)
  have "ins_at (infos1[i := Some info']) r = (if s \<le> r \<and> r < min e ((i + 1) * ?S) then v else ins_at infos r) \<and>
      del_at (infos1[i := Some info']) r = del_at infos r" if r: "r < n" for r
  proof (cases "r div ?S = i")
    case True
    have r': "i * ?S + r mod ?S = r" "r mod ?S < ?S" "r mod ?S < rows_in n i" using True row_bounds(1) [OF r] div_mult_mod_eq [of r ?S] by auto
    have "r < (i + 1) * ?S" by (metis Suc_eq_plus1 True dividend_less_div_times mult_Suc vector_size_pos)
    then have "s \<le> r \<and> r < min e ((i + 1) * ?S) \<longleftrightarrow> a \<le> r mod ?S \<and> r mod ?S < b" using range [OF r'(2)] r'(1) by auto
    then show ?thesis using info'(3) r' ids [OF r'(3)] True i(1) by (simp add: at_update del: min_less_iff_conj)
  next
    case False
    have "r < min e ((i + 1) * ?S) \<longleftrightarrow> r < min e (i * ?S)"
      using False div_less_iff_less_mult [of ?S r i] div_less_iff_less_mult [of ?S r "i + 1"] by auto
    then show ?thesis using False assms(1) r i(1) by (auto simp: at_update committed_def)
  qed
  then show ?thesis using i info'(1,2) assms(1) by (auto simp: a_def b_def committed_def)
qed

lemma CommitAppend_result:
  assumes "manager_ok n mgr" "0 < k" "s + k \<le> n" "n \<le> 2 ^ 64" "\<forall>r < n. row_ins mgr r = t \<longleftrightarrow> s \<le> r \<and> r < s + k" "t \<noteq> 0"
  shows "\<exists>mgr'. CommitAppend v s k mgr = Inr mgr' \<and> manager_ok n mgr' \<and>
    (\<forall>r < n. row_ins mgr' r = (if s \<le> r \<and> r < s + k then v else row_ins mgr r) \<and> row_del mgr' r = row_del mgr r)"
proof -
  let ?S = STANDARD_VECTOR_SIZE and ?infos = "vm_vector_info mgr" and ?e = "s + k"
  have e: "0 < ?e" "?e \<le> 2 ^ 64" using assms(2-4) by simp_all
  have loop: "\<exists>infos'. fold_result (commit_vector v s ?e) [s div ?S..<j] ?infos = Inr infos' \<and> committed s v n ?infos (min ?e (j * ?S)) infos'"
    if "s div ?S \<le> j" "j \<le> end_vector ?e + 1" for j
    using that
  proof (induction j rule: dec_induct)
    case base
    have "s div ?S * ?S \<le> s" by simp
    then have "\<not> (s \<le> r \<and> r < s div ?S * ?S)" for r by linarith
    then show ?case using assms(1) by (auto simp: committed_def manager_ok_def)
  next
    case (step j)
    then obtain infos1 where infos1: "fold_result (commit_vector v s ?e) [s div ?S..<j] ?infos = Inr infos1"
      "committed s v n ?infos (min ?e (j * ?S)) infos1" by auto
    have j: "j \<le> end_vector ?e" using step.prems by simp
    have "\<forall>r < n. ins_at ?infos r = t \<longleftrightarrow> s \<le> r \<and> r < ?e" using assms(5) by (simp add: row_ins_def)
    then obtain infos2 where "commit_vector v s ?e j infos1 = Inr infos2" "committed s v n ?infos (min ?e ((j + 1) * ?S)) infos2"
      using commit_vector_step [OF infos1(2) _ assms(3,4) step.hyps(1) j _ assms(6)] assms(2) by auto
    then show ?case using infos1(1) step.hyps(1) by (simp add: fold_result_append)
  qed
  have "?e \<le> (end_vector ?e + 1) * ?S" "s div ?S \<le> end_vector ?e + 1"
    using dividend_less_div_times [of ?S "?e - 1"] assms(2) e by (auto simp: end_vector_eq intro!: div_le_mono le_SucI)
  then show ?thesis using loop [of "end_vector ?e + 1"] assms(2)
    by (auto simp: CommitAppend_def Let_def committed_def manager_ok_def row_ins_def row_del_def min_absorb1)
qed

text \<open>What a cleanup does: the rows of some vectors lose their versions, which no transaction needs.\<close>

definition unneeded :: "transaction_t \<Rightarrow> nat \<Rightarrow> RowVersionManager \<Rightarrow> nat \<Rightarrow> bool" where
  "unneeded lowest e mgr r \<longleftrightarrow>
     row_del mgr r = NOT_DELETED_ID \<and> r < e \<and>
     (row_ins mgr r \<le> lowest \<or> (r mod STANDARD_VECTOR_SIZE = 0 \<and> r + 1 < e \<and> row_ins mgr (r + 1) \<le> lowest))"

definition cleaned_vectors :: "nat set \<Rightarrow> transaction_t \<Rightarrow> nat \<Rightarrow> nat \<Rightarrow> RowVersionManager \<Rightarrow> RowVersionManager \<Rightarrow> bool" where
  "cleaned_vectors V lowest e n mgr mgr' \<longleftrightarrow>
     manager_ok n mgr' \<and>
     (\<forall>r < n. if r div STANDARD_VECTOR_SIZE \<in> V then row_ins mgr' r = 0 \<and> row_del mgr' r = NOT_DELETED_ID \<and> unneeded lowest e mgr r
              else row_ins mgr' r = row_ins mgr r \<and> row_del mgr' r = row_del mgr r)"

lemma cleaned_vectors_trans:
  assumes "cleaned_vectors V lowest e n mgr mgr1" "cleaned_vectors W lowest e n mgr1 mgr2" "e \<le> n"
  shows "cleaned_vectors (V \<union> W) lowest e n mgr mgr2"
proof -
  have "unneeded lowest e mgr r" if "unneeded lowest e mgr1 r" "r < n" "r div STANDARD_VECTOR_SIZE \<notin> V" for r
  proof -
    have "(r + 1) div STANDARD_VECTOR_SIZE = r div STANDARD_VECTOR_SIZE" if "r mod STANDARD_VECTOR_SIZE = 0"
      using that by (simp add: STANDARD_VECTOR_SIZE_def div_Suc mod_Suc)
    then show ?thesis using assms(1,3) that by (auto simp: unneeded_def cleaned_vectors_def)
  qed
  then show ?thesis using assms(1,2) unfolding cleaned_vectors_def by (auto split: if_split_asm)
qed

lemma cleanup_vector_cleaned:
  assumes "manager_ok n mgr" "0 < e" "e \<le> n" "n \<le> 2 ^ 64" "i \<le> end_vector e"
  shows "\<exists>V. cleaned_vectors V lowest e n mgr (cleanup_vector lowest e i mgr)"
proof (cases "range_end e i = STANDARD_VECTOR_SIZE \<and> (\<exists>info. GetChunkInfo i mgr = Some info \<and> chunk_Cleanup lowest info)")
  case True
  let ?S = STANDARD_VECTOR_SIZE
  obtain info where info: "info_at (vm_vector_info mgr) i = Some info" "chunk_Cleanup lowest info" "range_end e i = ?S"
    using True by (auto simp: GetChunkInfo_at)
  have i: "i < length (vm_vector_info mgr)" using info(1) by (simp add: info_at_def split: if_split_asm)
  have end_row: "(i + 1) * ?S \<le> e"
    using range_end_eq [OF assms(2) _ assms(5)] info(3) assms(3,4) by (auto simp: min_def split: if_split_asm)
  then have full: "rows_in n i = ?S" using assms(3) by (simp add: rows_in_def)
  have ok: "chunk_ok ?S info" using assms(1) info(1) full by (metis infos_ok_def manager_ok_def)
  have "deleted_id info r = NOT_DELETED_ID \<and> (inserted_id info r \<le> lowest \<or> (r = 0 \<and> inserted_id info 1 \<le> lowest))" if "r < ?S" for r
  proof (cases info)
    case (ConstantInfo c)
    then show ?thesis using info(2) by (auto simp: constant_Cleanup_def not_less)
  next
    case (VectorInfo w)
    then show ?thesis using vector_Cleanup_result [of w lowest r] vector_Cleanup_result [of w lowest 1] ok info(2) that
      by (auto simp: STANDARD_VECTOR_SIZE_def)
  qed
  note ids = this
  define mgr' where "mgr' = mgr\<lparr>vm_unserialized := (vm_unserialized mgr \<or> chunk_HasDeletes info), vm_vector_info := (vm_vector_info mgr)[i := None]\<rparr>"
  have "manager_ok n mgr'" using assms(1) i by (auto simp: mgr'_def manager_ok_def infos_ok_def info_at_update)
  moreover have "if r div ?S \<in> {i} then row_ins mgr' r = 0 \<and> row_del mgr' r = NOT_DELETED_ID \<and> unneeded lowest e mgr r
      else row_ins mgr' r = row_ins mgr r \<and> row_del mgr' r = row_del mgr r" for r
  proof (cases "r div ?S = i")
    case True
    have r: "r = i * ?S + r mod ?S" "r mod ?S < ?S" using True div_mult_mod_eq [of r ?S] by auto
    have "row_ins mgr r = inserted_id info (r mod ?S)" "row_del mgr r = deleted_id info (r mod ?S)"
      using at_place [OF r(2) info(1)] r(1) by (simp_all add: row_ins_def row_del_def)
    moreover have "row_ins mgr (r + 1) = inserted_id info 1" if "r mod ?S = 0"
      using at_place(1) [of 1 "vm_vector_info mgr" i info] info(1) r(1) that by (simp add: row_ins_def STANDARD_VECTOR_SIZE_def)
    moreover have "r < e" using r end_row add_mult_distrib [of i 1 ?S] by linarith
    moreover have "r + 1 < e" if "r mod ?S = 0" using r(1) that end_row by (simp add: STANDARD_VECTOR_SIZE_def del: div_mult_mod_eq)
    ultimately show ?thesis using ids [OF r(2)] True i by (auto simp: mgr'_def row_ins_def row_del_def at_update unneeded_def)
  next
    case False
    then show ?thesis using i by (simp add: mgr'_def row_ins_def row_del_def at_update)
  qed
  moreover have "cleanup_vector lowest e i mgr = mgr'" using info by (simp add: cleanup_vector_def GetChunkInfo_at mgr'_def)
  ultimately have "cleaned_vectors {i} lowest e n mgr (cleanup_vector lowest e i mgr)" by (simp add: cleaned_vectors_def)
  then show ?thesis by blast
next
  case False
  then have "cleanup_vector lowest e i mgr = mgr" by (auto simp: cleanup_vector_def split: option.split)
  then have "cleaned_vectors {} lowest e n mgr (cleanup_vector lowest e i mgr)" using assms(1) by (simp add: cleaned_vectors_def)
  then show ?thesis by blast
qed

lemma CleanupAppend_cleaned:
  assumes "manager_ok n mgr" "s + k \<le> n" "n \<le> 2 ^ 64"
  shows "\<exists>V. cleaned_vectors V lowest (s + k) n mgr (CleanupAppend lowest s k mgr)"
proof (cases "k = 0")
  case True
  then have "cleaned_vectors {} lowest (s + k) n mgr (CleanupAppend lowest s k mgr)"
    using assms(1) by (simp add: CleanupAppend_def cleaned_vectors_def)
  then show ?thesis by blast
next
  case False
  have "\<exists>V. cleaned_vectors V lowest (s + k) n mgr (fold (cleanup_vector lowest (s + k)) is mgr)" if "\<forall>i \<in> set is. i \<le> end_vector (s + k)" for "is"
    using that assms(1)
  proof (induction "is" arbitrary: mgr)
    case Nil
    then have "cleaned_vectors {} lowest (s + k) n mgr (fold (cleanup_vector lowest (s + k)) [] mgr)" by (simp add: cleaned_vectors_def)
    then show ?case by blast
  next
    case (Cons i "is")
    obtain V where step: "cleaned_vectors V lowest (s + k) n mgr (cleanup_vector lowest (s + k) i mgr)"
      using cleanup_vector_cleaned [OF Cons.prems(2) _ assms(2,3), of i lowest] Cons.prems(1) False by auto
    then have ok: "manager_ok n (cleanup_vector lowest (s + k) i mgr)" by (simp add: cleaned_vectors_def)
    obtain W where "cleaned_vectors W lowest (s + k) n (cleanup_vector lowest (s + k) i mgr)
        (fold (cleanup_vector lowest (s + k)) is (cleanup_vector lowest (s + k) i mgr))"
      using Cons.IH [OF _ ok] Cons.prems(1) by auto
    from cleaned_vectors_trans [OF step this assms(2)] show ?case by auto
  qed
  then show ?thesis using False by (simp add: CleanupAppend_def Let_def del: upt_Suc)
qed

text \<open>
  Reverting to row \<open>s\<close> forgets the infos of the vectors from \<open>s\<close> on. The vector that is cut keeps its
  info, so it must not be one for a whole vector, and no row that goes may be deleted.
\<close>

lemma info_at_reset: "info_at (infos[i := None]) j = (if j = i then None else info_at infos j)"
  by (auto simp: info_at_def nth_list_update)

lemma reset_infos: "info_at (fold (\<lambda>i infos. infos[i := None]) is infos) j = (if j \<in> set is then None else info_at infos j)"
  by (induction "is" arbitrary: infos) (auto simp: info_at_reset)

lemma info_at_beyond: "length infos \<le> j \<Longrightarrow> info_at infos j = None"
  by (simp add: info_at_def)

lemma VersionRevertAppend_result:
  assumes "manager_ok n mgr" "s \<le> n" "\<forall>r. s \<le> r \<and> r < n \<longrightarrow> row_del mgr r = NOT_DELETED_ID"
    and "\<forall>c. info_at (vm_vector_info mgr) (s div STANDARD_VECTOR_SIZE) = Some (ConstantInfo c) \<longrightarrow> s mod STANDARD_VECTOR_SIZE = 0"
  shows "manager_ok s (VersionRevertAppend s mgr)"
    "\<forall>r < s. row_ins (VersionRevertAppend s mgr) r = row_ins mgr r \<and> row_del (VersionRevertAppend s mgr) r = row_del mgr r"
proof -
  let ?S = STANDARD_VECTOR_SIZE and ?infos = "vm_vector_info mgr"
  define first where "first = (s + (?S - 1)) div ?S"
  define infos where "infos = vm_vector_info (VersionRevertAppend s mgr)"
  have at: "info_at infos j = (if first \<le> j then None else info_at ?infos j)" for j
    by (cases "j < length ?infos") (simp_all add: infos_def VersionRevertAppend_def Let_def first_def reset_infos info_at_beyond del: One_nat_def)
  have first: "first \<le> j \<longleftrightarrow> s \<le> j * ?S" for j
  proof -
    have "first \<le> j \<longleftrightarrow> s + (?S - 1) < (j + 1) * ?S" unfolding first_def
      by (metis Suc_eq_plus1 div_less_iff_less_mult less_Suc_eq_le vector_size_pos)
    then show ?thesis by (auto simp: STANDARD_VECTOR_SIZE_def)
  qed
  have keep: "chunk_ok (rows_in s j) info" if "info_at ?infos j = Some info" "j * ?S < s" for j info
  proof -
    have ok: "chunk_ok (rows_in n j) info" using assms(1) that(1) by (simp add: manager_ok_def infos_ok_def)
    note at_info = that(1)
    show ?thesis
    proof (cases "(j + 1) * ?S \<le> s")
      case True
      then show ?thesis using ok assms(2) by (simp add: rows_in_def)
    next
      case False
      then have j: "s div ?S = j" using that(2) by (intro div_nat_eqI) (simp_all add: mult.commute)
      have "s mod ?S \<noteq> 0" using that(2) div_mult_mod_eq [of s ?S] j by auto
      then obtain w where w: "info = VectorInfo w" using assms(4) at_info j by (cases info) auto
      have "vi_deleted w ! r = NOT_DELETED_ID" if "rows_in s j \<le> r" "r < ?S" for r
      proof (cases "j * ?S + r < n")
        case True
        moreover have "s \<le> j * ?S + r" using that row_bounds(3) [of r s j] by auto
        ultimately show ?thesis using spec [OF assms(3), of "j * ?S + r"] at_place(2) [OF that(2) at_info] w by (simp add: row_del_def)
      next
        case False
        then show ?thesis using ok w that(2) row_bounds(3) [of r n j] by (auto simp: vector_ok_def not_less)
      qed
      moreover have "rows_in s j \<le> rows_in n j" using assms(2) by (auto simp: rows_in_def)
      ultimately show ?thesis using ok w by (auto simp: vector_ok_def)
    qed
  qed
  show "manager_ok s (VersionRevertAppend s mgr)"
    unfolding manager_ok_def infos_def [symmetric] using keep by (auto simp: infos_ok_def at first not_le split: if_split_asm)
  have "info_at infos (r div ?S) = info_at ?infos (r div ?S)" if "r < s" for r
  proof -
    have "\<not> s \<le> r div ?S * ?S" using that div_times_less_eq_dividend [of r ?S] by linarith
    then show ?thesis by (simp add: at first)
  qed
  then show "\<forall>r < s. row_ins (VersionRevertAppend s mgr) r = row_ins mgr r \<and> row_del (VersionRevertAppend s mgr) r = row_del mgr r"
    by (simp add: row_ins_def row_del_def ins_at_def del_at_def infos_def)
qed

subsection \<open>Deleting rows\<close>

text \<open>
  An info for a whole vector becomes one for its rows. Its deleting id is dropped on the way, so
  that holds only where no row is deleted yet.
\<close>

definition not_all_deleted :: "nat \<Rightarrow> RowVersionManager \<Rightarrow> bool" where
  "not_all_deleted i mgr \<longleftrightarrow> (\<forall>c. GetChunkInfo i mgr = Some (ConstantInfo c) \<longrightarrow> ci_delete_id c = NOT_DELETED_ID)"

lemma manager_ok_not_all_deleted: "manager_ok n mgr \<Longrightarrow> not_all_deleted i mgr"
  by (fastforce simp: manager_ok_def infos_ok_def not_all_deleted_def GetChunkInfo_at)

lemma GetVectorInfo_result:
  assumes "manager_ok n mgr" "i * STANDARD_VECTOR_SIZE < n" "not_all_deleted i mgr" "GetVectorInfo i mgr = (info, mgr')"
  shows "vector_ok (rows_in n i) info" "manager_ok n mgr'" "i < length (vm_vector_info mgr')" "vm_unserialized mgr' = vm_unserialized mgr"
    "vm_vector_info mgr' = (FillVectorInfo i (vm_vector_info mgr))[i := Some (VectorInfo info)]"
    "\<forall>r < STANDARD_VECTOR_SIZE. vi_inserted info ! r = row_ins mgr (i * STANDARD_VECTOR_SIZE + r) \<and>
       vi_deleted info ! r = row_del mgr (i * STANDARD_VECTOR_SIZE + r)"
    "\<forall>r. row_ins mgr' r = row_ins mgr r \<and> row_del mgr' r = row_del mgr r"
proof -
  let ?S = STANDARD_VECTOR_SIZE and ?infos = "FillVectorInfo i (vm_vector_info mgr)"
  have at: "info_at ?infos i = ?infos ! i" by (simp add: info_at_def)
  show infos: "vm_vector_info mgr' = ?infos[i := Some (VectorInfo info)]" and len: "i < length (vm_vector_info mgr')"
    and "vm_unserialized mgr' = vm_unserialized mgr"
    using assms(4) by (auto simp: GetVectorInfo_def Let_def)
  have ok: "infos_ok n ?infos" using assms(1) by (simp add: manager_ok_def)
  have "vector_ok (rows_in n i) info \<and> (\<forall>r < ?S. vi_inserted info ! r = ins_at ?infos (i * ?S + r) \<and> vi_deleted info ! r = del_at ?infos (i * ?S + r))"
  proof (cases "?infos ! i")
    case None
    have "info = new_vector_info (vm_start mgr + i * ?S)" using assms(4) None by (auto simp: GetVectorInfo_def Let_def)
    moreover have "ins_at ?infos (i * ?S + r) = 0 \<and> del_at ?infos (i * ?S + r) = NOT_DELETED_ID" if "r < ?S" for r
      using that None at by (simp add: at_place_None row_place del: FillVectorInfo_ids FillVectorInfo_at)
    ultimately show ?thesis by (simp add: new_vector_ids new_vector_ok [OF rows_in_le] del: FillVectorInfo_ids)
  next
    case (Some c)
    note ids = at_place [OF _ at [unfolded Some]]
    have chunk: "chunk_ok (rows_in n i) c" using ok at Some unfolding infos_ok_def by metis
    show ?thesis
    proof (cases c)
      case (VectorInfo w)
      then show ?thesis using assms(4) Some ids chunk by (auto simp: GetVectorInfo_def Let_def)
    next
      case (ConstantInfo d)
      then have "ci_delete_id d = NOT_DELETED_ID" using assms(3) at Some by (auto simp: not_all_deleted_def GetChunkInfo_at)
      moreover have "info = new_vector_info (vm_start mgr + i * ?S)\<lparr>vi_insert_id := ci_insert_id d, vi_inserted := replicate ?S (ci_insert_id d)\<rparr>"
        using assms(4) Some ConstantInfo by (auto simp: GetVectorInfo_def Let_def)
      ultimately show ?thesis using ids ConstantInfo by (auto simp: vector_ok_def new_vector_info_def rows_in_def)
    qed
  qed
  then show vector: "vector_ok (rows_in n i) info"
    and ids: "\<forall>r < ?S. vi_inserted info ! r = row_ins mgr (i * ?S + r) \<and> vi_deleted info ! r = row_del mgr (i * ?S + r)"
    by (simp_all add: row_ins_def row_del_def)
  show "manager_ok n mgr'" using infos_ok_update [OF ok _ assms(2), of "VectorInfo info"] vector by (simp add: manager_ok_def infos)
  have "r div ?S = i \<Longrightarrow> vi_inserted info ! (r mod ?S) = row_ins mgr r \<and> vi_deleted info ! (r mod ?S) = row_del mgr r" for r
    using spec [OF ids, of "r mod ?S"] by (metis div_mult_mod_eq mod_less_divisor vector_size_pos)
  then show "\<forall>r. row_ins mgr' r = row_ins mgr r \<and> row_del mgr' r = row_del mgr r"
    by (auto simp: row_ins_def row_del_def infos at_update)
qed

lemma DeleteRows_result:
  assumes "DeleteRows i t rows k mgr = (mgr', rows', r)" "manager_ok n mgr" "i * STANDARD_VECTOR_SIZE < n" "not_all_deleted i mgr"
    and "k \<le> length rows" "\<forall>x \<in> set (take k rows). x < rows_in n i" "t \<noteq> NOT_DELETED_ID"
  shows "manager_ok n mgr'" "\<forall>x < n. row_ins mgr' x = row_ins mgr x" "vm_unserialized mgr'"
    "\<forall>x < n. x div STANDARD_VECTOR_SIZE \<noteq> i \<longrightarrow> row_del mgr' x = row_del mgr x"
    "delete_outcome t (set (take k rows)) (rows_in n i) (\<lambda>x. row_del mgr (i * STANDARD_VECTOR_SIZE + x))
       (\<lambda>x. row_del mgr' (i * STANDARD_VECTOR_SIZE + x)) rows' r" "length rows' = length rows"
proof -
  let ?S = STANDARD_VECTOR_SIZE
  obtain info mgr1 info' where get: "GetVectorInfo i (mgr\<lparr>vm_unserialized := True\<rparr>) = (info, mgr1)"
    and del: "vector_Delete t rows k info = (info', rows', r)"
    and mgr': "mgr' = mgr1\<lparr>vm_vector_info := (vm_vector_info mgr1)[i := Some (VectorInfo info')]\<rparr>"
    using assms(1) by (auto simp: DeleteRows_def split: prod.split_asm)
  have pre: "manager_ok n (mgr\<lparr>vm_unserialized := True\<rparr>)" "not_all_deleted i (mgr\<lparr>vm_unserialized := True\<rparr>)"
    using assms(2,4) by (simp_all add: manager_ok_def not_all_deleted_def GetChunkInfo_at)
  note g = GetVectorInfo_result [OF pre(1) assms(3) pre(2) get]
  note d = vector_Delete_result [OF del g(1) assms(5-7)]
  show "length rows' = length rows" using vector_Delete_length [OF del] .
  show "manager_ok n mgr'"
    using infos_ok_update [of n "vm_vector_info mgr1" i "VectorInfo info'"] g(2,3) assms(3) d(1) by (simp add: manager_ok_def mgr')
  show "vm_unserialized mgr'" using g(4) by (simp add: mgr')
  have ids: "row_ins mgr' x = (if x div ?S = i then vi_inserted info' ! (x mod ?S) else row_ins mgr x)"
    "row_del mgr' x = (if x div ?S = i then vi_deleted info' ! (x mod ?S) else row_del mgr x)" for x
    using g(3,7) by (simp_all add: row_ins_def row_del_def mgr' at_update)
  then show "\<forall>x < n. x div ?S \<noteq> i \<longrightarrow> row_del mgr' x = row_del mgr x" by simp
  have "x div ?S = i \<Longrightarrow> vi_inserted info ! (x mod ?S) = row_ins mgr x" for x
    using spec [OF g(6), of "x mod ?S"] by auto
  then show "\<forall>x < n. row_ins mgr' x = row_ins mgr x" by (simp add: ids d(2))
  have "row_del mgr (i * ?S + x) = vi_deleted info ! x \<and> row_del mgr' (i * ?S + x) = vi_deleted info' ! x" if "x < ?S" for x
    using g(6) that by (simp add: ids row_place)
  then have "vi_deleted info ! x = row_del mgr (i * ?S + x) \<and> vi_deleted info' ! x = row_del mgr' (i * ?S + x)" if "x < rows_in n i" for x
    using that rows_in_le [of n i] by simp
  then show "delete_outcome t (set (take k rows)) (rows_in n i) (\<lambda>x. row_del mgr (i * ?S + x)) (\<lambda>x. row_del mgr' (i * ?S + x)) rows' r"
    using d(4) assms(6) unfolding delete_outcome_def by (auto split: sum.split)
qed

text \<open>The rows an undo entry names.\<close>

definition deleted_rows :: "DeleteInfo \<Rightarrow> nat list" where
  "deleted_rows del = (if di_is_consecutive del then [0..<di_count del] else map unat (take (di_count del) (di_rows del)))"

lemma CommitDelete_result:
  assumes "manager_ok n mgr" "i * STANDARD_VECTOR_SIZE < n" "not_all_deleted i mgr"
    and "di_is_consecutive del \<or> di_count del \<le> length (di_rows del)" "\<forall>x \<in> set (deleted_rows del). x < rows_in n i"
    and "\<forall>x \<in> set (deleted_rows del). row_del mgr (i * STANDARD_VECTOR_SIZE + x) \<noteq> NOT_DELETED_ID"
  shows "\<exists>mgr'. CommitDelete i v del mgr = Inr mgr' \<and> manager_ok n mgr' \<and>
    (\<forall>x < n. row_ins mgr' x = row_ins mgr x \<and>
       row_del mgr' x = (if x div STANDARD_VECTOR_SIZE = i \<and> x mod STANDARD_VECTOR_SIZE \<in> set (deleted_rows del) then v else row_del mgr x))"
proof -
  let ?S = STANDARD_VECTOR_SIZE
  obtain info mgr1 where get: "GetVectorInfo i (mgr\<lparr>vm_unserialized := True\<rparr>) = (info, mgr1)" by fastforce
  have pre: "manager_ok n (mgr\<lparr>vm_unserialized := True\<rparr>)" "not_all_deleted i (mgr\<lparr>vm_unserialized := True\<rparr>)"
    using assms(1,3) by (simp_all add: manager_ok_def not_all_deleted_def GetChunkInfo_at)
  note g = GetVectorInfo_result [OF pre(1) assms(2) pre(2) get]
  have ids: "vi_inserted info ! r = row_ins mgr (i * ?S + r)" "vi_deleted info ! r = row_del mgr (i * ?S + r)" if "r < ?S" for r
    using g(6) that by simp_all
  have any: "deleted_rows del \<noteq> [] \<longrightarrow> vi_any_deleted info"
  proof (intro impI, rule ccontr)
    assume "deleted_rows del \<noteq> []" "\<not> vi_any_deleted info"
    then have x: "hd (deleted_rows del) \<in> set (deleted_rows del)" by simp
    then have "hd (deleted_rows del) < ?S" using assms(5) rows_in_le [of n i] by fastforce
    then show False using g(1) \<open>\<not> vi_any_deleted info\<close> assms(6) x ids(2) by (auto simp: vector_ok_def)
  qed
  obtain deleted where store: "store_rows (deleted_rows del) v (vi_deleted info) = Inr deleted" "vector_ok (rows_in n i) (info\<lparr>vi_deleted := deleted\<rparr>)"
    "\<forall>r < rows_in n i. deleted ! r = (if r \<in> set (deleted_rows del) then v else vi_deleted info ! r)"
    using vector_CommitDelete_result [OF g(1) assms(5) any] by blast
  define mgr' where "mgr' = mgr1\<lparr>vm_vector_info := (vm_vector_info mgr1)[i := Some (VectorInfo (info\<lparr>vi_deleted := deleted\<rparr>))]\<rparr>"
  have "CommitDelete i v del mgr = Inr mgr'"
    using get store(1) assms(4) by (auto simp: CommitDelete_def vector_CommitDelete_def GetRows_def deleted_rows_def mgr'_def not_less)
  moreover have "manager_ok n mgr'"
    using infos_ok_update [of n "vm_vector_info mgr1" i] g(2,3) assms(2) store(2) by (simp add: manager_ok_def mgr'_def)
  moreover have "row_ins mgr' x = row_ins mgr x \<and>
       row_del mgr' x = (if x div ?S = i \<and> x mod ?S \<in> set (deleted_rows del) then v else row_del mgr x)" if "x < n" for x
  proof (cases "x div ?S = i")
    case True
    then have "i * ?S + x mod ?S = x" "x mod ?S < rows_in n i" using row_bounds(1) [OF that] div_mult_mod_eq [of x ?S] by auto
    moreover have "x mod ?S < ?S" by simp
    ultimately show ?thesis using True ids [of "x mod ?S"] store(3) g(3) by (simp add: mgr'_def row_ins_def row_del_def at_update)
  next
    case False
    then show ?thesis using g(3,7) by (simp add: mgr'_def row_ins_def row_del_def at_update)
  qed
  ultimately show ?thesis by blast
qed

end
