(* ===== verification/Transactions.thy ===== *)
theory Transactions
  imports VersionManager
begin

text \<open>
  Transactions on the rows of one row group, which is the whole table: the timestamps and the lists
  of \<open>transaction/duck_transaction_manager.cpp\<close>, the undo buffer with its commit, rollback and
  cleanup (\<open>transaction/undo_buffer.cpp\<close>, \<open>commit_state.cpp\<close>, \<open>rollback_state.cpp\<close>,
  \<open>cleanup_state.cpp\<close>), and the delete of \<open>storage/table/row_group.cpp\<close>. A step relation
  interleaves them as the locks of the code do.
\<close>

subsection \<open>Undo buffers\<close>

text \<open>The entries that concern row versions; row numbers are those of the row group.\<close>

datatype undo_entry = INSERT_TUPLE nat nat | DELETE_TUPLE DeleteInfo

definition PushDelete :: "nat \<Rightarrow> nat list \<Rightarrow> nat \<Rightarrow> nat \<Rightarrow> undo_entry list \<Rightarrow> undo_entry list result" where
  "PushDelete vector_idx rows row_count base_row undo =
     (let is_consecutive = list_all (\<lambda>i. rows ! i = i) [0..<row_count]
      in bind_result (if is_consecutive then Inr []
                      else map_result (\<lambda>row. if row < 2 ^ 16 then Inr (word_of_nat row) else Inl InternalException) (take row_count rows))
           (\<lambda>delete_rows. Inr (undo @ [DELETE_TUPLE
              \<lparr>di_vector_idx = vector_idx, di_count = row_count, di_base_row = base_row, di_is_consecutive = is_consecutive,
               di_rows = delete_rows\<rparr>])))"

definition CommitEntry :: "transaction_t \<Rightarrow> undo_entry \<Rightarrow> RowVersionManager \<Rightarrow> RowVersionManager result" where
  "CommitEntry commit_id entry mgr =
     (case entry of
        INSERT_TUPLE start_row row_count \<Rightarrow> CommitAppend commit_id start_row row_count mgr
      | DELETE_TUPLE info \<Rightarrow> CommitDelete (di_vector_idx info) commit_id info mgr)"

text \<open>Taking back an append also cuts the row group, whose number of rows is the second component.\<close>

definition RollbackEntry :: "undo_entry \<Rightarrow> RowVersionManager \<times> nat \<Rightarrow> (RowVersionManager \<times> nat) result" where
  "RollbackEntry entry s =
     (case entry of
        INSERT_TUPLE start_row row_count \<Rightarrow> Inr (VersionRevertAppend start_row (fst s), min start_row (snd s))
      | DELETE_TUPLE info \<Rightarrow>
          bind_result (CommitDelete (di_vector_idx info) NOT_DELETED_ID info (fst s)) (\<lambda>mgr. Inr (mgr, snd s)))"

text \<open>A cleanup of deletes is one of indexes only.\<close>

definition CleanupEntry :: "transaction_t \<Rightarrow> undo_entry \<Rightarrow> RowVersionManager \<Rightarrow> RowVersionManager" where
  "CleanupEntry lowest_active_transaction entry mgr =
     (case entry of
        INSERT_TUPLE start_row row_count \<Rightarrow> CleanupAppend lowest_active_transaction start_row row_count mgr
      | DELETE_TUPLE info \<Rightarrow> mgr)"

subsection \<open>Transactions and their manager\<close>

record DuckTransaction =
  tx_start_time :: transaction_t
  tx_transaction_id :: transaction_t
  tx_commit_id :: transaction_t
  tx_highest_active_query :: transaction_t
  tx_active_query :: transaction_t
  tx_awaiting_cleanup :: bool
  tx_undo :: "undo_entry list"

definition tx_data :: "DuckTransaction \<Rightarrow> TransactionData" where
  "tx_data t = \<lparr>td_transaction_id = tx_transaction_id t, td_start_time = tx_start_time t\<rparr>"

definition MAXIMUM_QUERY_ID :: transaction_t where "MAXIMUM_QUERY_ID = - 1"

definition ChangesMade :: "DuckTransaction \<Rightarrow> bool" where "ChangesMade t \<longleftrightarrow> tx_undo t \<noteq> []"

record DuckCleanupInfo =
  cl_lowest_start_time :: transaction_t
  cl_transactions :: "DuckTransaction list"

record DuckTransactionManager =
  current_start_timestamp :: transaction_t
  current_transaction_id :: transaction_t
  lowest_active_id :: transaction_t
  lowest_active_start :: transaction_t
  last_commit :: transaction_t
  active_transactions :: "DuckTransaction list"
  recently_committed_transactions :: "DuckTransaction list"
  old_transactions :: "DuckTransaction list"
  cleanup_queue :: "DuckCleanupInfo list"

definition new_transaction_manager :: DuckTransactionManager where
  "new_transaction_manager =
     \<lparr>current_start_timestamp = 2, current_transaction_id = TRANSACTION_ID_START, lowest_active_id = TRANSACTION_ID_START,
      lowest_active_start = MAX_TRANSACTION_ID, last_commit = 0, active_transactions = [], recently_committed_transactions = [],
      old_transactions = [], cleanup_queue = []\<rparr>"

definition StartTransaction :: "DuckTransactionManager \<Rightarrow> (DuckTransaction \<times> DuckTransactionManager) result" where
  "StartTransaction m =
     (if current_start_timestamp m \<ge> TRANSACTION_ID_START then Inl InternalException
      else let start_time = current_start_timestamp m; transaction_id = current_transaction_id m;
               m = m\<lparr>current_start_timestamp := start_time + 1, current_transaction_id := transaction_id + 1\<rparr>;
               m = (if active_transactions m = [] then m\<lparr>lowest_active_start := start_time, lowest_active_id := transaction_id\<rparr> else m);
               t = \<lparr>tx_start_time = start_time, tx_transaction_id = transaction_id, tx_commit_id = 0, tx_highest_active_query = 0,
                    tx_active_query = MAXIMUM_QUERY_ID, tx_awaiting_cleanup = False, tx_undo = []\<rparr>
           in Inr (t, m\<lparr>active_transactions := active_transactions m @ [t]\<rparr>))"

definition GetCommitTimestamp :: "DuckTransactionManager \<Rightarrow> transaction_t \<times> DuckTransactionManager" where
  "GetCommitTimestamp m =
     (let commit_ts = current_start_timestamp m
      in (commit_ts, m\<lparr>current_start_timestamp := commit_ts + 1, last_commit := commit_ts\<rparr>))"

text \<open>
  The transaction at position \<open>k\<close> ends. The others give the lowest start time. It is kept, or given
  to the cleanup at once; recently committed transactions that no running one started before
  become old, and old ones that no running query may use are cleaned up.
\<close>

definition RemoveTransaction ::
  "transaction_t \<Rightarrow> nat \<Rightarrow> bool \<Rightarrow> DuckTransactionManager \<Rightarrow> DuckCleanupInfo \<times> DuckTransactionManager" where
  "RemoveTransaction current_query k store_transaction m =
     (let t = active_transactions m ! k;
          others = take k (active_transactions m) @ drop (k + 1) (active_transactions m);
          lowest_start_time = fold (\<lambda>u lowest. min lowest (tx_start_time u)) others TRANSACTION_ID_START;
          lowest_transaction_id = fold (\<lambda>u lowest. min lowest (tx_transaction_id u)) others MAX_TRANSACTION_ID;
          lowest_active_query = fold (\<lambda>u lowest. min lowest (tx_active_query u)) others MAXIMUM_QUERY_ID;
          recent = recently_committed_transactions m @ (if store_transaction \<and> tx_commit_id t \<noteq> 0 then [t] else []);
          old = old_transactions m @ (if store_transaction \<and> tx_commit_id t = 0 then [t\<lparr>tx_highest_active_query := current_query\<rparr>] else []);
          scheduled = (if \<not> store_transaction \<and> ChangesMade t then [t\<lparr>tx_awaiting_cleanup := True\<rparr>] else []);
          moved = takeWhile (\<lambda>u. \<not> (tx_commit_id u \<ge> lowest_start_time)) recent;
          old = old @ map (\<lambda>u. u\<lparr>tx_awaiting_cleanup := True, tx_highest_active_query := current_query\<rparr>) moved;
          free = (if others = [] then old else takeWhile (\<lambda>u. \<not> (tx_highest_active_query u \<ge> lowest_active_query)) old)
      in (\<lparr>cl_lowest_start_time = lowest_start_time, cl_transactions = scheduled @ free\<rparr>,
          m\<lparr>lowest_active_start := lowest_start_time, lowest_active_id := lowest_transaction_id, active_transactions := others,
            recently_committed_transactions := drop (length moved) recent, old_transactions := drop (length free) old\<rparr>))"

definition schedule_cleanup :: "DuckCleanupInfo \<Rightarrow> DuckTransactionManager \<Rightarrow> DuckTransactionManager" where
  "schedule_cleanup info m = (if cl_transactions info \<noteq> [] then m\<lparr>cleanup_queue := cleanup_queue m @ [info]\<rparr> else m)"

subsection \<open>Deleting rows of a row group\<close>

record delete_state =
  ds_current_chunk :: nat
  ds_rows :: "nat list"
  ds_count :: nat
  ds_chunk_row :: nat
  ds_delete_count :: nat

definition new_delete_state :: delete_state where
  "new_delete_state = \<lparr>ds_current_chunk = 2 ^ 64 - 1, ds_rows = replicate STANDARD_VECTOR_SIZE 0, ds_count = 0, ds_chunk_row = 0,
     ds_delete_count = 0\<rparr>"

text \<open>The states of a delete: its own, the versions, and the undo buffer; and whether it has thrown.\<close>

type_synonym delete_run = "(delete_state \<times> RowVersionManager \<times> undo_entry list) \<times> duck_error option"

definition delete_Flush ::
  "transaction_t \<Rightarrow> nat \<Rightarrow> delete_state \<times> RowVersionManager \<times> undo_entry list \<Rightarrow> delete_run" where
  "delete_Flush transaction_id base_row = (\<lambda>(ds, mgr, undo).
     if ds_count ds = 0 then ((ds, mgr, undo), None)
     else let (mgr, rows, r) = DeleteRows (ds_current_chunk ds) transaction_id (ds_rows ds) (ds_count ds) mgr
          in case r of
               Inl e \<Rightarrow> ((ds\<lparr>ds_rows := rows\<rparr>, mgr, undo), Some e)
             | Inr actual_delete_count \<Rightarrow>
                 let ds = ds\<lparr>ds_rows := rows, ds_delete_count := ds_delete_count ds + actual_delete_count\<rparr>
                 in case (if actual_delete_count > 0
                          then PushDelete (ds_current_chunk ds) rows actual_delete_count (base_row + ds_chunk_row ds) undo
                          else Inr undo) of
                      Inl e \<Rightarrow> ((ds, mgr, undo), Some e)
                    | Inr undo \<Rightarrow> ((ds\<lparr>ds_count := 0\<rparr>, mgr, undo), None))"

definition delete_Delete ::
  "transaction_t \<Rightarrow> nat \<Rightarrow> nat \<Rightarrow> delete_state \<times> RowVersionManager \<times> undo_entry list \<Rightarrow> delete_run" where
  "delete_Delete transaction_id base_row row_id s =
     (let vector_idx = row_id div STANDARD_VECTOR_SIZE;
          idx_in_vector = row_id - vector_idx * STANDARD_VECTOR_SIZE;
          (s, e) = (if ds_current_chunk (fst s) \<noteq> vector_idx
                    then let ((ds, mgr, undo), e) = delete_Flush transaction_id base_row s
                         in ((if e = None then ds\<lparr>ds_current_chunk := vector_idx, ds_chunk_row := vector_idx * STANDARD_VECTOR_SIZE\<rparr> else ds,
                              mgr, undo), e)
                    else (s, None))
      in if e \<noteq> None then (s, e)
         else let (ds, mgr, undo) = s
              in if ds_count ds \<ge> length (ds_rows ds) then (s, Some OutOfBounds)
                 else ((ds\<lparr>ds_rows := (ds_rows ds)[ds_count ds := idx_in_vector], ds_count := ds_count ds + 1\<rparr>, mgr, undo), None))"

fun delete_ids ::
  "transaction_t \<Rightarrow> nat \<Rightarrow> nat list \<Rightarrow> delete_state \<times> RowVersionManager \<times> undo_entry list \<Rightarrow> delete_run" where
  "delete_ids transaction_id base_row [] s = delete_Flush transaction_id base_row s"
| "delete_ids transaction_id base_row (row_id # ids) s =
     (case delete_Delete transaction_id base_row (row_id - base_row) s of
        (s, Some e) \<Rightarrow> (s, Some e)
      | (s, None) \<Rightarrow> delete_ids transaction_id base_row ids s)"

definition RowGroup_Delete ::
  "transaction_t \<Rightarrow> nat \<Rightarrow> nat list \<Rightarrow> RowVersionManager \<Rightarrow> undo_entry list \<Rightarrow> (RowVersionManager \<times> undo_entry list) \<times> nat result" where
  "RowGroup_Delete transaction_id start ids mgr undo =
     (let ((ds, mgr, undo), e) = delete_ids transaction_id start ids (new_delete_state, mgr, undo)
      in ((mgr, undo), case e of Some e \<Rightarrow> Inl e | None \<Rightarrow> Inr (ds_delete_count ds)))"

subsection \<open>The operations of a transaction\<close>

record version_db =
  db_manager :: DuckTransactionManager
  db_versions :: RowVersionManager
  db_rows :: nat

definition new_db :: version_db where
  "new_db = \<lparr>db_manager = new_transaction_manager, db_versions = new_version_manager 0, db_rows = 0\<rparr>"

definition set_undo :: "nat \<Rightarrow> undo_entry list \<Rightarrow> version_db \<Rightarrow> version_db" where
  "set_undo k undo db =
     (let m = db_manager db
      in db\<lparr>db_manager := m\<lparr>active_transactions := (active_transactions m)[k := (active_transactions m ! k)\<lparr>tx_undo := undo\<rparr>]\<rparr>\<rparr>)"

text \<open>
  The local rows of a transaction go to the row group, in the undo buffer first. This is the branch
  that appends them; where the code moves a whole row group over, that group was filled with the id
  of the transaction in the same way.
\<close>

definition PushAppend :: "nat \<Rightarrow> nat \<Rightarrow> undo_entry list \<Rightarrow> undo_entry list" where
  "PushAppend start_row row_count undo = undo @ [INSERT_TUPLE start_row row_count]"

definition RowGroup_AppendVersionInfo :: "nat \<Rightarrow> TransactionData \<Rightarrow> nat \<Rightarrow> version_db \<Rightarrow> version_db result" where
  "RowGroup_AppendVersionInfo row_group_size transaction append_count db =
     (let row_group_start = db_rows db;
          row_group_end = (if row_group_start + append_count > row_group_size then row_group_size else row_group_start + append_count)
      in bind_result (AppendVersions transaction row_group_start row_group_end (db_versions db)) (\<lambda>mgr.
           Inr (db\<lparr>db_versions := mgr, db_rows := row_group_end\<rparr>)))"

definition Flush :: "nat \<Rightarrow> nat \<Rightarrow> nat \<Rightarrow> version_db \<Rightarrow> version_db result" where
  "Flush row_group_size k append_count db =
     (let t = active_transactions (db_manager db) ! k
      in RowGroup_AppendVersionInfo row_group_size (tx_data t) append_count
           (set_undo k (PushAppend (db_rows db) append_count (tx_undo t)) db))"

text \<open>
  The commit of a transaction that was not written to the log; an error of the commit itself, after
  which the code rolls back, is shown not to occur. \<open>store_transaction\<close> stands for the updates,
  catalog changes and index deletes the transaction may also have.
\<close>

definition CommitTransaction :: "transaction_t \<Rightarrow> bool \<Rightarrow> nat \<Rightarrow> version_db \<Rightarrow> version_db result" where
  "CommitTransaction current_query store_transaction k db =
     (let (commit_id, m) = GetCommitTimestamp (db_manager db);
          t = (active_transactions m ! k)\<lparr>tx_commit_id := commit_id\<rparr>
      in bind_result (if \<not> ChangesMade t then Inr (db_versions db) else fold_result (CommitEntry commit_id) (tx_undo t) (db_versions db))
           (\<lambda>mgr. let (info, m) = RemoveTransaction current_query k store_transaction (m\<lparr>active_transactions := (active_transactions m)[k := t]\<rparr>)
                   in Inr (db\<lparr>db_manager := schedule_cleanup info m, db_versions := mgr\<rparr>)))"

definition RollbackTransaction :: "transaction_t \<Rightarrow> nat \<Rightarrow> version_db \<Rightarrow> version_db result" where
  "RollbackTransaction current_query k db =
     (let t = active_transactions (db_manager db) ! k
      in bind_result (fold_result RollbackEntry (rev (tx_undo t)) (db_versions db, db_rows db))
           (\<lambda>(mgr, row_count). let (info, m) = RemoveTransaction current_query k (ChangesMade t) (db_manager db)
                   in Inr (db\<lparr>db_manager := schedule_cleanup info m, db_versions := mgr, db_rows := row_count\<rparr>)))"

definition Cleanup :: "DuckCleanupInfo \<Rightarrow> RowVersionManager \<Rightarrow> RowVersionManager" where
  "Cleanup info mgr =
     fold (\<lambda>t mgr. if tx_awaiting_cleanup t then fold (CleanupEntry (cl_lowest_start_time info)) (tx_undo t) mgr else mgr)
       (cl_transactions info) mgr"

subsection \<open>What a delete does\<close>

fun entry_rows :: "undo_entry \<Rightarrow> nat list" where
  "entry_rows (INSERT_TUPLE s k) = []"
| "entry_rows (DELETE_TUPLE del) = map (\<lambda>x. di_vector_idx del * STANDARD_VECTOR_SIZE + x) (deleted_rows del)"

definition undo_rows :: "undo_entry list \<Rightarrow> nat list" where "undo_rows undo = concat (map entry_rows undo)"

lemma undo_rows_simps [simp]:
  "undo_rows [] = []" "undo_rows (x # xs) = entry_rows x @ undo_rows xs" "undo_rows (xs @ ys) = undo_rows xs @ undo_rows ys"
  by (simp_all add: undo_rows_def)

definition delete_ok :: "nat \<Rightarrow> DeleteInfo \<Rightarrow> bool" where
  "delete_ok n del \<longleftrightarrow> (di_is_consecutive del \<or> di_count del \<le> length (di_rows del)) \<and> deleted_rows del \<noteq> [] \<and>
     (\<forall>x \<in> set (deleted_rows del). x < rows_in n (di_vector_idx del))"

text \<open>The deletes of an undo buffer name the rows that are marked by its transaction, each once.\<close>

definition deletes_ok :: "transaction_t \<Rightarrow> nat \<Rightarrow> RowVersionManager \<Rightarrow> undo_entry list \<Rightarrow> bool" where
  "deletes_ok t n mgr undo \<longleftrightarrow>
     (\<forall>del. DELETE_TUPLE del \<in> set undo \<longrightarrow> delete_ok n del) \<and> distinct (undo_rows undo) \<and>
     set (undo_rows undo) = {r. r < n \<and> row_del mgr r = t}"

lemma PushDelete_result:
  assumes "d \<le> length rows" "\<forall>x \<in> set (take d rows). x < rows_in n i" "0 < d"
  shows "\<exists>del. PushDelete i rows d first_row undo = Inr (undo @ [DELETE_TUPLE del]) \<and> deleted_rows del = take d rows \<and>
    di_vector_idx del = i \<and> delete_ok n del"
proof -
  have small: "x < 2 ^ 16" if "x \<in> set (take d rows)" for x
    using assms(2) that rows_in_le [of n i] by (fastforce simp: STANDARD_VECTOR_SIZE_def)
  have nonempty: "take d rows \<noteq> []" using assms(1,3) by auto
  show ?thesis
  proof (cases "list_all (\<lambda>i. rows ! i = i) [0..<d]")
    case True
    then have "take d rows = [0..<d]" using assms(1) by (intro nth_equalityI) (auto simp: list_all_iff)
    then show ?thesis using True assms(2,3) by (auto simp: PushDelete_def deleted_rows_def delete_ok_def)
  next
    case False
    let ?cast = "\<lambda>row. if row < 2 ^ 16 then Inr (word_of_nat row :: 16 word) else Inl InternalException"
    have words: "map_result ?cast (take d rows) = Inr (map word_of_nat (take d rows))"
      by (rule map_result_Inr) (use small in auto)
    have "map unat (map (word_of_nat :: nat \<Rightarrow> 16 word) (take d rows)) = take d rows"
      using small by (auto simp: unat_of_nat intro!: map_idI)
    then show ?thesis using False words assms nonempty by (auto simp: PushDelete_def deleted_rows_def delete_ok_def)
  qed
qed

text \<open>What deleting the rows \<open>R\<close> has done so far, whether or not it fails later.\<close>

definition marked :: "transaction_t \<Rightarrow> nat \<Rightarrow> RowVersionManager \<Rightarrow> nat set \<Rightarrow> RowVersionManager \<Rightarrow> undo_entry list \<Rightarrow> bool" where
  "marked t n mgr0 R mgr undo \<longleftrightarrow>
     manager_ok n mgr \<and> deletes_ok t n mgr undo \<and>
     (\<forall>r < n. row_ins mgr r = row_ins mgr0 r) \<and>
     (\<forall>r < n. row_del mgr r = row_del mgr0 r \<or> (r \<in> R \<and> row_del mgr0 r = NOT_DELETED_ID \<and> row_del mgr r = t))"

definition pending :: "delete_state \<Rightarrow> nat list" where
  "pending ds = map (\<lambda>x. ds_current_chunk ds * STANDARD_VECTOR_SIZE + x) (take (ds_count ds) (ds_rows ds))"

definition delete_run_ok ::
  "transaction_t \<Rightarrow> nat \<Rightarrow> RowVersionManager \<Rightarrow> nat set \<Rightarrow> undo_entry list \<Rightarrow> delete_state \<Rightarrow> RowVersionManager \<Rightarrow> undo_entry list \<Rightarrow> bool" where
  "delete_run_ok t n mgr0 R undo0 ds mgr undo \<longleftrightarrow>
     marked t n mgr0 R mgr undo \<and> (\<exists>dels. undo = undo0 @ map DELETE_TUPLE dels) \<and>
     finite R \<and> (\<forall>r \<in> R. r < n) \<and> distinct (pending ds) \<and> set (pending ds) \<subseteq> R \<and> length (ds_rows ds) = STANDARD_VECTOR_SIZE \<and>
     ds_count ds \<le> STANDARD_VECTOR_SIZE \<and> ds_delete_count ds + ds_count ds = card R \<and>
     (\<forall>x \<in> set (take (ds_count ds) (ds_rows ds)). x < rows_in n (ds_current_chunk ds)) \<and>
     (\<forall>r \<in> set (pending ds). row_del mgr r \<noteq> t \<and> row_del mgr0 r = row_del mgr r) \<and>
     (\<forall>r \<in> R - set (pending ds). row_del mgr0 r = NOT_DELETED_ID \<and> row_del mgr r = t)"

lemma pending_rows: "r \<in> set (pending ds) \<longleftrightarrow> (\<exists>x \<in> set (take (ds_count ds) (ds_rows ds)). r = ds_current_chunk ds * STANDARD_VECTOR_SIZE + x)"
  by (auto simp: pending_def)

lemma pending_place:
  assumes "\<forall>y \<in> set (take (ds_count ds) (ds_rows ds)). y < STANDARD_VECTOR_SIZE"
  shows "r \<in> set (pending ds) \<longleftrightarrow>
    r div STANDARD_VECTOR_SIZE = ds_current_chunk ds \<and> r mod STANDARD_VECTOR_SIZE \<in> set (take (ds_count ds) (ds_rows ds))"
proof
  assume "r \<in> set (pending ds)"
  then obtain y where "y \<in> set (take (ds_count ds) (ds_rows ds))" "r = ds_current_chunk ds * STANDARD_VECTOR_SIZE + y"
    by (auto simp: pending_rows)
  then show "r div STANDARD_VECTOR_SIZE = ds_current_chunk ds \<and> r mod STANDARD_VECTOR_SIZE \<in> set (take (ds_count ds) (ds_rows ds))"
    using assms by (simp add: row_place)
next
  assume "r div STANDARD_VECTOR_SIZE = ds_current_chunk ds \<and> r mod STANDARD_VECTOR_SIZE \<in> set (take (ds_count ds) (ds_rows ds))"
  moreover have "r = r div STANDARD_VECTOR_SIZE * STANDARD_VECTOR_SIZE + r mod STANDARD_VECTOR_SIZE" by simp
  ultimately show "r \<in> set (pending ds)" unfolding pending_rows by metis
qed

text \<open>Marking the rows of one vector, which \<open>f\<close> places in the row group.\<close>

lemma marked_more:
  assumes "marked t n mgr0 R mgr undo" "manager_ok n mgr'" "\<forall>r < n. row_ins mgr' r = row_ins mgr r"
    and "\<forall>r < n. row_del mgr' r = (if r \<in> P then t else row_del mgr r)" "P \<subseteq> R" "\<forall>r \<in> P. r < n \<and> row_del mgr r = NOT_DELETED_ID \<and> row_del mgr0 r = row_del mgr r"
    and "set (entry_rows (DELETE_TUPLE del)) = P" "distinct (entry_rows (DELETE_TUPLE del))" "delete_ok n del" "t \<noteq> NOT_DELETED_ID"
  shows "marked t n mgr0 R mgr' (undo @ [DELETE_TUPLE del])"
proof -
  have ok: "deletes_ok t n mgr undo" using assms(1) by (simp add: marked_def)
  have "set (undo_rows undo) \<inter> P = {}" using ok assms(6,10) by (auto simp: deletes_ok_def)
  then have "deletes_ok t n mgr' (undo @ [DELETE_TUPLE del])"
    using ok assms(4,6-9) unfolding deletes_ok_def by (auto simp del: entry_rows.simps)
  then show ?thesis using assms unfolding marked_def by (auto simp del: entry_rows.simps)
qed

lemma delete_Flush_result:
  assumes "delete_run_ok t n mgr0 R undo0 ds mgr undo" "t \<noteq> NOT_DELETED_ID" "delete_Flush t 0 (ds, mgr, undo) = ((ds', mgr', undo'), e)"
  shows "(e = None \<and> ds_count ds' = 0 \<and> delete_run_ok t n mgr0 R undo0 ds' mgr' undo') \<or>
    (e = Some TransactionException \<and> marked t n mgr0 R mgr' undo' \<and> undo' = undo \<and>
      (\<exists>r \<in> R. row_del mgr0 r \<noteq> NOT_DELETED_ID \<and> row_del mgr0 r \<noteq> t))"
proof (cases "ds_count ds = 0")
  case True
  then show ?thesis using assms by (auto simp: delete_Flush_def)
next
  case False
  let ?S = STANDARD_VECTOR_SIZE and ?i = "ds_current_chunk ds" and ?k = "ds_count ds"
  note run = assms(1) [unfolded delete_run_ok_def]
  obtain rows' r where del: "DeleteRows ?i t (ds_rows ds) ?k mgr = (mgr', rows', r)"
    using assms(3) False by (auto simp: delete_Flush_def Let_def split: prod.splits sum.splits if_splits)
  have ok: "manager_ok n mgr" "?k \<le> length (ds_rows ds)" "\<forall>x \<in> set (take ?k (ds_rows ds)). x < rows_in n ?i"
    using run by (simp_all add: marked_def)
  have "take ?k (ds_rows ds) \<noteq> []" using False ok(2) by auto
  then have "\<exists>x. x < rows_in n ?i" using ok(3) by (metis list.set_intros(1) neq_Nil_conv)
  then have i: "?i * ?S < n" using row_bounds(3) by (metis le_add1 le_less_trans)
  note d = DeleteRows_result [OF del ok(1) i manager_ok_not_all_deleted [OF ok(1)] ok(2,3) assms(2)]
  have own: "row_del mgr (?i * ?S + x) \<noteq> t" if "x \<in> set (take ?k (ds_rows ds))" for x
    using run that by (auto simp: pending_rows)
  have bound: "x < ?S" if "x < rows_in n ?i" for x using that rows_in_le [of n ?i] by simp
  show ?thesis
  proof (cases r)
    case (Inl ex)
    then have ex: "ex = TransactionException" "\<exists>x \<in> set (take ?k (ds_rows ds)). row_del mgr (?i * ?S + x) \<noteq> NOT_DELETED_ID"
      "\<forall>x < rows_in n ?i. row_del mgr' (?i * ?S + x) = row_del mgr (?i * ?S + x)"
      using d(5) own by (auto simp: delete_outcome_def)
    have "row_del mgr' x = row_del mgr x" if "x < n" for x
    proof (cases "x div ?S = ?i")
      case True
      then have "?i * ?S + x mod ?S = x" "x mod ?S < rows_in n ?i" using row_bounds(1) [OF that] div_mult_mod_eq [of x ?S] by auto
      then show ?thesis using ex(3) by metis
    qed (use d(4) that in simp)
    then have "marked t n mgr0 R mgr' undo" using run d(1,2) by (auto simp: marked_def deletes_ok_def)
    moreover have "e = Some TransactionException" "undo' = undo" using assms(3) False del Inl ex(1) by (simp_all add: delete_Flush_def)
    moreover have "\<exists>r \<in> R. row_del mgr0 r \<noteq> NOT_DELETED_ID \<and> row_del mgr0 r \<noteq> t"
    proof -
      obtain x where x: "x \<in> set (take ?k (ds_rows ds))" "row_del mgr (?i * ?S + x) \<noteq> NOT_DELETED_ID" using ex(2) by blast
      then have "?i * ?S + x \<in> set (pending ds)" by (auto simp: pending_rows)
      then show ?thesis using run x(2) by (intro bexI [of _ "?i * ?S + x"]) auto
    qed
    ultimately show ?thesis by blast
  next
    case (Inr m)
    have m: "m \<le> length rows'" "distinct (take m rows')" "set (take m rows') = set (take ?k (ds_rows ds))"
      "\<forall>x \<in> set (take ?k (ds_rows ds)). row_del mgr (?i * ?S + x) = NOT_DELETED_ID"
      "\<forall>x < rows_in n ?i. row_del mgr' (?i * ?S + x) = (if x \<in> set (take ?k (ds_rows ds)) then t else row_del mgr (?i * ?S + x))"
      using d(5) own Inr by (auto simp: delete_outcome_def)
    have "inj_on (\<lambda>x. ?i * ?S + x) A" for A by (simp add: inj_on_def)
    then have "distinct (take ?k (ds_rows ds))" using run by (simp add: pending_def distinct_map)
    then have "m = ?k" using m(1-3) ok(2) distinct_card [of "take m rows'"] distinct_card [of "take ?k (ds_rows ds)"] by simp
    then have m0: "0 < m" using False by simp
    obtain del where push: "PushDelete ?i rows' m (0 + ds_chunk_row ds) undo = Inr (undo @ [DELETE_TUPLE del])"
      "deleted_rows del = take m rows'" "di_vector_idx del = ?i" "delete_ok n del"
      using PushDelete_result [OF m(1) _ m0] m(3) ok(3) by metis
    have result: "e = None" "undo' = undo @ [DELETE_TUPLE del]"
      "ds' = ds\<lparr>ds_rows := rows', ds_delete_count := ds_delete_count ds + ?k, ds_count := 0\<rparr>"
      using assms(3) False del Inr push(1) m0 \<open>m = ?k\<close> by (simp_all add: delete_Flush_def)
    have rows: "set (entry_rows (DELETE_TUPLE del)) = set (pending ds)" "distinct (entry_rows (DELETE_TUPLE del))"
      using push(2,3) m(2,3) by (auto simp: pending_def distinct_map inj_on_def)
    have place: "x \<in> set (pending ds) \<longleftrightarrow> x div ?S = ?i \<and> x mod ?S \<in> set (take ?k (ds_rows ds))" for x
      by (rule pending_place) (use ok(3) bound in blast)
    have all: "row_del mgr' x = (if x \<in> set (pending ds) then t else row_del mgr x)" if "x < n" for x
    proof (cases "x div ?S = ?i")
      case True
      then have x: "?i * ?S + x mod ?S = x" "x mod ?S < rows_in n ?i" using row_bounds(1) [OF that] div_mult_mod_eq [of x ?S] by auto
      then show ?thesis using spec [OF m(5), of "x mod ?S"] True by (simp add: place)
    next
      case False
      then show ?thesis using d(4) that by (simp add: place)
    qed
    have P: "\<forall>x \<in> set (pending ds). x < n \<and> row_del mgr x = NOT_DELETED_ID \<and> row_del mgr0 x = row_del mgr x"
      using m(4) ok(3) run by (auto simp: pending_rows row_bounds(3))
    have "marked t n mgr0 R mgr' undo'"
      using marked_more [OF _ d(1,2) _ _ P rows push(4) assms(2), of R undo] run all result(2) by simp
    moreover have "\<forall>x \<in> R. row_del mgr0 x = NOT_DELETED_ID \<and> row_del mgr' x = t"
    proof
      fix x assume x: "x \<in> R"
      have "x < n" using run x by blast
      then show "row_del mgr0 x = NOT_DELETED_ID \<and> row_del mgr' x = t" using all P run x by (cases "x \<in> set (pending ds)") auto
    qed
    moreover have "length rows' = ?S" using d(6) run by simp
    moreover have "pending ds' = []" "ds_count ds' = 0" "ds_rows ds' = rows'" "ds_delete_count ds' + ds_count ds' = card R"
      using run result(3) by (simp_all add: pending_def)
    moreover obtain dels where "undo' = undo0 @ map DELETE_TUPLE (dels @ [del])" using run result(2) by auto
    then have "\<exists>dels. undo' = undo0 @ map DELETE_TUPLE dels" by blast
    moreover have "finite R" "\<forall>r \<in> R. r < n" using run by blast+
    ultimately show ?thesis using result(1) unfolding delete_run_ok_def by simp
  qed
qed

lemma marked_mono: "marked t n mgr0 R mgr undo \<Longrightarrow> R \<subseteq> R' \<Longrightarrow> marked t n mgr0 R' mgr undo"
  by (auto simp: marked_def)

lemma delete_run_next_row:
  assumes "delete_run_ok t n mgr0 R undo0 ds mgr undo" "ds_current_chunk ds = r div STANDARD_VECTOR_SIZE" "r \<notin> R" "r < n"
    and "row_del mgr0 r \<noteq> t" "ds_count ds < STANDARD_VECTOR_SIZE"
  shows "delete_run_ok t n mgr0 (insert r R) undo0
    (ds\<lparr>ds_rows := (ds_rows ds)[ds_count ds := r mod STANDARD_VECTOR_SIZE], ds_count := ds_count ds + 1\<rparr>) mgr undo"
    (is "delete_run_ok t n mgr0 (insert r R) undo0 ?ds mgr undo")
proof -
  note run = assms(1) [unfolded delete_run_ok_def]
  have taken: "take (ds_count ?ds) (ds_rows ?ds) = take (ds_count ds) (ds_rows ds) @ [r mod STANDARD_VECTOR_SIZE]"
    using run assms(6) by (simp add: take_Suc_update)
  have "row_del mgr r = row_del mgr0 r" using run assms(3,4) by (auto simp: marked_def)
  moreover have pending: "pending ?ds = pending ds @ [r]"
    using taken assms(2) by (simp add: pending_def)
  moreover have "marked t n mgr0 (insert r R) mgr undo" using run marked_mono by blast
  moreover have "r \<notin> set (pending ds)" using run assms(3) by blast
  ultimately show ?thesis
    using run taken assms row_bounds(1) [OF assms(4)] unfolding delete_run_ok_def by (auto simp: card_insert_if)
qed

lemma delete_run_next_chunk:
  "delete_run_ok t n mgr0 R undo0 ds mgr undo \<Longrightarrow> ds_count ds = 0 \<Longrightarrow>
     delete_run_ok t n mgr0 R undo0 (ds\<lparr>ds_current_chunk := i, ds_chunk_row := j\<rparr>) mgr undo"
  by (simp add: delete_run_ok_def pending_def)

lemma delete_Delete_result:
  assumes "delete_run_ok t n mgr0 R undo0 ds mgr undo" "t \<noteq> NOT_DELETED_ID" "r \<notin> R" "r < n" "row_del mgr0 r \<noteq> t"
    and "card R < STANDARD_VECTOR_SIZE" "delete_Delete t 0 r (ds, mgr, undo) = ((ds', mgr', undo'), e)"
  shows "(e = None \<and> delete_run_ok t n mgr0 (insert r R) undo0 ds' mgr' undo') \<or>
    (e = Some TransactionException \<and> marked t n mgr0 R mgr' undo' \<and> (\<exists>dels. undo' = undo0 @ map DELETE_TUPLE dels) \<and>
      (\<exists>r \<in> R. row_del mgr0 r \<noteq> NOT_DELETED_ID \<and> row_del mgr0 r \<noteq> t))"
proof -
  let ?S = STANDARD_VECTOR_SIZE
  have rest: "r - r div ?S * ?S = r mod ?S" by (simp add: minus_div_mult_eq_mod)
  have add: "delete_run_ok t n mgr0 (insert r R) undo0 (ds1\<lparr>ds_rows := (ds_rows ds1)[ds_count ds1 := r mod ?S], ds_count := ds_count ds1 + 1\<rparr>) mgr1 undo1 \<and>
      ds_count ds1 < length (ds_rows ds1)"
    if "delete_run_ok t n mgr0 R undo0 ds1 mgr1 undo1" "ds_current_chunk ds1 = r div ?S" for ds1 mgr1 undo1
  proof -
    have "ds_count ds1 \<le> card R" "length (ds_rows ds1) = ?S" using that(1) unfolding delete_run_ok_def by linarith+
    then show ?thesis using delete_run_next_row [OF that assms(3-5)] assms(6) by simp
  qed
  show ?thesis
  proof (cases "ds_current_chunk ds = r div ?S")
    case True
    then show ?thesis using add [OF assms(1) True] assms(7) by (auto simp: delete_Delete_def Let_def rest)
  next
    case False
    obtain ds1 mgr1 undo1 e1 where flush: "delete_Flush t 0 (ds, mgr, undo) = ((ds1, mgr1, undo1), e1)" by (metis surj_pair)
    from delete_Flush_result [OF assms(1,2) flush] show ?thesis
    proof (elim disjE conjE)
      assume "e1 = None" and run: "ds_count ds1 = 0" "delete_run_ok t n mgr0 R undo0 ds1 mgr1 undo1"
      then show ?thesis using add [OF delete_run_next_chunk [OF run(2,1), where i = "r div ?S" and j = "r div ?S * ?S"]] assms(7) flush False
        by (auto simp: delete_Delete_def Let_def rest)
    next
      assume "e1 = Some TransactionException" "marked t n mgr0 R mgr1 undo1" "undo1 = undo"
        "\<exists>r \<in> R. row_del mgr0 r \<noteq> NOT_DELETED_ID \<and> row_del mgr0 r \<noteq> t"
      moreover have "\<exists>dels. undo = undo0 @ map DELETE_TUPLE dels" using assms(1) unfolding delete_run_ok_def by blast
      ultimately show ?thesis using assms(7) flush False by (auto simp: delete_Delete_def Let_def)
    qed
  qed
qed

lemma delete_ids_result:
  assumes "delete_run_ok t n mgr0 R undo0 ds mgr undo" "t \<noteq> NOT_DELETED_ID" "distinct ids" "set ids \<inter> R = {}" "\<forall>r \<in> set ids. r < n \<and> row_del mgr0 r \<noteq> t"
    and "card R + length ids \<le> STANDARD_VECTOR_SIZE" "delete_ids t 0 ids (ds, mgr, undo) = ((ds', mgr', undo'), e)"
  shows "(e = None \<and> marked t n mgr0 (R \<union> set ids) mgr' undo' \<and> ds_delete_count ds' = card R + length ids \<and>
      (\<exists>dels. undo' = undo0 @ map DELETE_TUPLE dels) \<and> (\<forall>r \<in> R \<union> set ids. row_del mgr0 r = NOT_DELETED_ID \<and> row_del mgr' r = t)) \<or>
    (e = Some TransactionException \<and> marked t n mgr0 (R \<union> set ids) mgr' undo' \<and> (\<exists>dels. undo' = undo0 @ map DELETE_TUPLE dels) \<and>
      (\<exists>r \<in> R \<union> set ids. row_del mgr0 r \<noteq> NOT_DELETED_ID \<and> row_del mgr0 r \<noteq> t))"
  using assms
proof (induction ids arbitrary: R ds mgr undo)
  case Nil
  then have "delete_Flush t 0 (ds, mgr, undo) = ((ds', mgr', undo'), e)" by simp
  from delete_Flush_result [OF Nil.prems(1,2) this] show ?case
  proof (elim disjE conjE)
    assume "e = None" "ds_count ds' = 0" "delete_run_ok t n mgr0 R undo0 ds' mgr' undo'"
    then show ?thesis unfolding delete_run_ok_def by (auto simp: pending_def)
  next
    assume "e = Some TransactionException" "marked t n mgr0 R mgr' undo'" "undo' = undo"
      "\<exists>r \<in> R. row_del mgr0 r \<noteq> NOT_DELETED_ID \<and> row_del mgr0 r \<noteq> t"
    moreover have "\<exists>dels. undo = undo0 @ map DELETE_TUPLE dels" using Nil.prems(1) unfolding delete_run_ok_def by blast
    ultimately show ?thesis by auto
  qed
next
  case (Cons r ids)
  obtain ds1 mgr1 undo1 e1 where step: "delete_Delete t 0 r (ds, mgr, undo) = ((ds1, mgr1, undo1), e1)" by (metis surj_pair)
  have r: "r \<notin> R" "r < n" "row_del mgr0 r \<noteq> t" "card R < STANDARD_VECTOR_SIZE" using Cons.prems(4-6) by auto
  have "finite R" using Cons.prems(1) by (simp add: delete_run_ok_def)
  then have card: "card (insert r R) = card R + 1" using r(1) by simp
  from delete_Delete_result [OF Cons.prems(1,2) r step] show ?case
  proof (elim disjE conjE)
    assume e1: "e1 = None" "delete_run_ok t n mgr0 (insert r R) undo0 ds1 mgr1 undo1"
    then have "delete_ids t 0 ids (ds1, mgr1, undo1) = ((ds', mgr', undo'), e)" using Cons.prems(7) step by simp
    from Cons.IH [OF e1(2) Cons.prems(2) _ _ _ _ this] Cons.prems(3-6) show ?thesis by (simp add: card)
  next
    assume "e1 = Some TransactionException" "marked t n mgr0 R mgr1 undo1" "\<exists>dels. undo1 = undo0 @ map DELETE_TUPLE dels"
      "\<exists>r \<in> R. row_del mgr0 r \<noteq> NOT_DELETED_ID \<and> row_del mgr0 r \<noteq> t"
    then show ?thesis using Cons.prems(7) step marked_mono [of t n mgr0 R mgr1 undo1 "R \<union> set (r # ids)"] by auto
  qed
qed

lemma RowGroup_Delete_result:
  assumes "RowGroup_Delete t 0 ids mgr undo = ((mgr', undo'), r)" "manager_ok n mgr" "deletes_ok t n mgr undo" "t \<noteq> NOT_DELETED_ID"
    and "distinct ids" "length ids \<le> STANDARD_VECTOR_SIZE" "\<forall>x \<in> set ids. x < n \<and> row_del mgr x \<noteq> t"
  shows "manager_ok n mgr'" "deletes_ok t n mgr' undo'" "\<exists>dels. undo' = undo @ map DELETE_TUPLE dels" "\<forall>x < n. row_ins mgr' x = row_ins mgr x"
    "\<forall>x < n. row_del mgr' x = row_del mgr x \<or> (x \<in> set ids \<and> row_del mgr x = NOT_DELETED_ID \<and> row_del mgr' x = t)"
    "r = Inr (length ids) \<and> (\<forall>x \<in> set ids. row_del mgr x = NOT_DELETED_ID \<and> row_del mgr' x = t) \<or>
     r = Inl TransactionException \<and> (\<exists>x \<in> set ids. row_del mgr x \<noteq> NOT_DELETED_ID)"
proof -
  have "\<exists>dels. undo = undo @ map DELETE_TUPLE dels" by (rule exI [of _ "[]"]) simp
  then have run: "delete_run_ok t n mgr {} undo new_delete_state mgr undo"
    using assms(2,3) by (simp add: delete_run_ok_def new_delete_state_def pending_def marked_def)
  obtain ds' e where ids: "delete_ids t 0 ids (new_delete_state, mgr, undo) = ((ds', mgr', undo'), e)"
    and r: "r = (case e of Some e \<Rightarrow> Inl e | None \<Rightarrow> Inr (ds_delete_count ds'))"
    using assms(1) by (auto simp: RowGroup_Delete_def split: prod.splits)
  have "set ids \<inter> {} = {}" "card {} + length ids \<le> STANDARD_VECTOR_SIZE" using assms(6) by simp_all
  note result = delete_ids_result [OF run assms(4,5) this(1) assms(7) this(2) ids]
  then have "marked t n mgr (set ids) mgr' undo'" by auto
  then show "manager_ok n mgr'" "deletes_ok t n mgr' undo'" "\<forall>x < n. row_ins mgr' x = row_ins mgr x"
    "\<forall>x < n. row_del mgr' x = row_del mgr x \<or> (x \<in> set ids \<and> row_del mgr x = NOT_DELETED_ID \<and> row_del mgr' x = t)"
    by (simp_all add: marked_def)
  show "\<exists>dels. undo' = undo @ map DELETE_TUPLE dels" using result by blast
  show "r = Inr (length ids) \<and> (\<forall>x \<in> set ids. row_del mgr x = NOT_DELETED_ID \<and> row_del mgr' x = t) \<or>
     r = Inl TransactionException \<and> (\<exists>x \<in> set ids. row_del mgr x \<noteq> NOT_DELETED_ID)"
    using result r by auto
qed

end
