(* ===== verification/TransactionSteps.thy ===== *)
theory TransactionSteps
  imports Transactions
begin

text \<open>
  The steps of transactions and the invariant they keep. A transaction takes one step at a time:
  it starts, deletes rows it sees, writes its local rows, commits or rolls back; the cleanup of
  those that ended runs at any later time. Rows are written while no other transaction has
  uncommitted ones, since the code holds a lock from there to the commit.
\<close>

subsection \<open>The step relation\<close>

definition MAX_ROW_GROUP_SIZE :: nat where "MAX_ROW_GROUP_SIZE = 2 ^ 30"

definition no_insert :: "undo_entry list \<Rightarrow> bool" where
  "no_insert undo \<longleftrightarrow> (\<forall>s k. INSERT_TUPLE s k \<notin> set undo)"

abbreviation active :: "version_db \<Rightarrow> DuckTransaction list" where "active db \<equiv> active_transactions (db_manager db)"

definition seen :: "DuckTransaction \<Rightarrow> version_db \<Rightarrow> nat set" where
  "seen t db = {r. r < db_rows db \<and> sees (tx_data t) (db_versions db) r}"

text \<open>The rows of the commits so far, and those a running transaction has inserted or marked as deleted.\<close>

definition committed_rows :: "version_db \<Rightarrow> nat set" where
  "committed_rows db =
     {r. r < db_rows db \<and> row_ins (db_versions db) r < current_start_timestamp (db_manager db) \<and>
       \<not> row_del (db_versions db) r < current_start_timestamp (db_manager db)}"

definition inserted :: "DuckTransaction \<Rightarrow> version_db \<Rightarrow> nat set" where
  "inserted t db = {r. r < db_rows db \<and> row_ins (db_versions db) r = tx_transaction_id t}"

definition deleted :: "DuckTransaction \<Rightarrow> version_db \<Rightarrow> nat set" where
  "deleted t db = {r. r < db_rows db \<and> row_del (db_versions db) r = tx_transaction_id t}"

definition set_query :: "nat \<Rightarrow> transaction_t \<Rightarrow> version_db \<Rightarrow> version_db" where
  "set_query k query db =
     (let m = db_manager db
      in db\<lparr>db_manager := m\<lparr>active_transactions := (active_transactions m)[k := (active_transactions m ! k)\<lparr>tx_active_query := query\<rparr>]\<rparr>\<rparr>)"

text \<open>The second argument is the id of the transaction that takes the step, if one does.\<close>

inductive version_step :: "nat \<Rightarrow> version_db \<Rightarrow> transaction_t option \<Rightarrow> version_db \<Rightarrow> bool" for size_max :: nat where
  step_begin: "StartTransaction (db_manager db) = Inr (t, m) \<Longrightarrow> version_step size_max db None (db\<lparr>db_manager := m\<rparr>)"
| step_query: "k < length (active db) \<Longrightarrow> version_step size_max db None (set_query k query db)"
| step_flush: "k < length (active db) \<Longrightarrow> \<forall>u \<in> set (active db). no_insert (tx_undo u) \<Longrightarrow> 0 < n \<Longrightarrow> db_rows db + n \<le> size_max \<Longrightarrow>
    Flush size_max k n db = Inr db' \<Longrightarrow> version_step size_max db (Some (tx_transaction_id (active db ! k))) db'"
| step_delete: "k < length (active db) \<Longrightarrow> no_insert (tx_undo (active db ! k)) \<Longrightarrow> distinct ids \<Longrightarrow> length ids \<le> STANDARD_VECTOR_SIZE \<Longrightarrow>
    set ids \<subseteq> seen (active db ! k) db \<Longrightarrow>
    RowGroup_Delete (tx_transaction_id (active db ! k)) 0 ids (db_versions db) (tx_undo (active db ! k)) = ((mgr, undo), r) \<Longrightarrow>
    version_step size_max db (Some (tx_transaction_id (active db ! k))) (set_undo k undo db\<lparr>db_versions := mgr\<rparr>)"
| step_commit: "k < length (active db) \<Longrightarrow> current_start_timestamp (db_manager db) < TRANSACTION_ID_START \<Longrightarrow>
    CommitTransaction current_query store_transaction k db = Inr db' \<Longrightarrow>
    version_step size_max db (Some (tx_transaction_id (active db ! k))) db'"
| step_rollback: "k < length (active db) \<Longrightarrow> RollbackTransaction current_query k db = Inr db' \<Longrightarrow>
    version_step size_max db (Some (tx_transaction_id (active db ! k))) db'"
| step_cleanup: "cleanup_queue (db_manager db) = info # rest \<Longrightarrow>
    version_step size_max db None
      (db\<lparr>db_versions := Cleanup info (db_versions db), db_manager := (db_manager db)\<lparr>cleanup_queue := rest\<rparr>\<rparr>)"

inductive version_reachable :: "nat \<Rightarrow> version_db \<Rightarrow> bool" for size_max :: nat where
  versions_new: "version_reachable size_max new_db"
| versions_step: "version_reachable size_max db \<Longrightarrow> version_step size_max db actor db' \<Longrightarrow> version_reachable size_max db'"

subsection \<open>The invariant\<close>

abbreviation ids :: "DuckTransactionManager \<Rightarrow> transaction_t set" where
  "ids m \<equiv> tx_transaction_id ` set (active_transactions m)"

abbreviation starts :: "DuckTransactionManager \<Rightarrow> transaction_t set" where
  "starts m \<equiv> tx_start_time ` set (active_transactions m)"

definition clock_ok :: "DuckTransactionManager \<Rightarrow> bool" where
  "clock_ok m \<longleftrightarrow>
     0 < current_start_timestamp m \<and> current_start_timestamp m \<le> TRANSACTION_ID_START \<and> TRANSACTION_ID_START \<le> current_transaction_id m \<and>
     unat (current_transaction_id m) \<le> unat TRANSACTION_ID_START + unat (current_start_timestamp m) \<and>
     distinct (map tx_transaction_id (active_transactions m)) \<and>
     (\<forall>s \<in> starts m. 0 < s \<and> s < current_start_timestamp m) \<and>
     (\<forall>i \<in> ids m. TRANSACTION_ID_START \<le> i \<and> i < current_transaction_id m) \<and>
     (\<forall>t \<in> set (active_transactions m). tx_commit_id t = 0 \<and> \<not> tx_awaiting_cleanup t)"

text \<open>
  A row was inserted by a commit or by a running transaction, and likewise deleted; only rows of
  commits are deleted; the first row of a vector was not inserted after the second; and no
  commit has the time of a start.
\<close>

definition rows_ok :: "DuckTransactionManager \<Rightarrow> nat \<Rightarrow> RowVersionManager \<Rightarrow> bool" where
  "rows_ok m n mgr \<longleftrightarrow>
     manager_ok n mgr \<and>
     (\<forall>r < n. row_ins mgr r < current_start_timestamp m \<or> row_ins mgr r \<in> ids m) \<and>
     (\<forall>r < n. row_del mgr r = NOT_DELETED_ID \<or> row_del mgr r < current_start_timestamp m \<or> row_del mgr r \<in> ids m) \<and>
     (\<forall>r < n. TRANSACTION_ID_START \<le> row_ins mgr r \<longrightarrow> row_del mgr r = NOT_DELETED_ID) \<and>
     (\<forall>r. r mod STANDARD_VECTOR_SIZE = 0 \<and> r + 1 < n \<longrightarrow> row_ins mgr r \<le> row_ins mgr (r + 1)) \<and>
     (\<forall>r < n. row_ins mgr r \<notin> starts m)"

text \<open>The undo buffer of a running transaction: its deletes, and then at most one append, of the last rows.\<close>

definition undo_ok :: "nat \<Rightarrow> RowVersionManager \<Rightarrow> DuckTransaction \<Rightarrow> bool" where
  "undo_ok n mgr t \<longleftrightarrow>
     deletes_ok (tx_transaction_id t) n mgr (tx_undo t) \<and>
     (\<exists>dels. (tx_undo t = map DELETE_TUPLE dels \<and> (\<forall>r < n. row_ins mgr r \<noteq> tx_transaction_id t)) \<or>
        (\<exists>s k. tx_undo t = map DELETE_TUPLE dels @ [INSERT_TUPLE s k] \<and> 0 < k \<and> s + k = n \<and>
           (\<forall>r < n. row_ins mgr r = tx_transaction_id t \<longleftrightarrow> s \<le> r)))"

text \<open>An ended transaction: no row up to those it appended was inserted after its commit.\<close>

definition settled :: "DuckTransactionManager \<Rightarrow> nat \<Rightarrow> RowVersionManager \<Rightarrow> DuckTransaction \<Rightarrow> bool" where
  "settled m n mgr t \<longleftrightarrow>
     tx_commit_id t < current_start_timestamp m \<and>
     (\<forall>s k. INSERT_TUPLE s k \<in> set (tx_undo t) \<longrightarrow> s + k \<le> n \<and> (\<forall>r < s + k. row_ins mgr r \<le> tx_commit_id t))"

definition cleanup_ok :: "DuckTransactionManager \<Rightarrow> nat \<Rightarrow> RowVersionManager \<Rightarrow> DuckCleanupInfo \<Rightarrow> bool" where
  "cleanup_ok m n mgr info \<longleftrightarrow>
     (\<forall>t \<in> set (cl_transactions info). tx_awaiting_cleanup t \<longrightarrow> settled m n mgr t \<and>
        (\<forall>s \<in> starts m. cl_lowest_start_time info \<le> s \<or> tx_commit_id t < s))"

definition finished_ok :: "DuckTransactionManager \<Rightarrow> nat \<Rightarrow> RowVersionManager \<Rightarrow> bool" where
  "finished_ok m n mgr \<longleftrightarrow>
     (\<forall>t \<in> set (recently_committed_transactions m). settled m n mgr t) \<and>
     (\<forall>t \<in> set (old_transactions m). tx_awaiting_cleanup t \<longrightarrow> settled m n mgr t) \<and>
     (\<forall>info \<in> set (cleanup_queue m). cleanup_ok m n mgr info)"

definition db_ok :: "nat \<Rightarrow> version_db \<Rightarrow> bool" where
  "db_ok size_max db \<longleftrightarrow>
     clock_ok (db_manager db) \<and> rows_ok (db_manager db) (db_rows db) (db_versions db) \<and>
     (\<forall>t \<in> set (active db). undo_ok (db_rows db) (db_versions db) t) \<and>
     finished_ok (db_manager db) (db_rows db) (db_versions db) \<and> db_rows db \<le> size_max"

lemma db_ok_new: "db_ok size_max new_db"
  by (simp add: db_ok_def new_db_def new_transaction_manager_def clock_ok_def rows_ok_def finished_ok_def manager_ok_def infos_ok_def
      new_version_manager_def info_at_def TRANSACTION_ID_START_def)

subsection \<open>Ids and times\<close>

lemma word_Suc:
  fixes x :: transaction_t
  assumes "unat x < 2 ^ 64 - 1"
  shows "unat (x + 1) = unat x + 1" "x < x + 1" "y < x + 1 \<longleftrightarrow> y \<le> x"
proof -
  show "unat (x + 1) = unat x + 1" using assms by (simp add: unat_word_ariths)
  then show "x < x + 1" "y < x + 1 \<longleftrightarrow> y \<le> x" by (auto simp: word_less_nat_alt word_le_nat_alt)
qed

lemma unat_START: "unat TRANSACTION_ID_START = 4611686018427388000" "unat NOT_DELETED_ID = 18446744073709551614"
proof -
  show "unat NOT_DELETED_ID = 18446744073709551614"
    unfolding NOT_DELETED_ID_def by (subst unat_minus_one) (simp_all add: unsigned_minus_1_eq_mask mask_eq_exp_minus_1)
qed (simp add: TRANSACTION_ID_START_def)

lemma clock_bounds:
  assumes "clock_ok m"
  shows "unat (current_start_timestamp m) < 2 ^ 63" "current_transaction_id m \<le> NOT_DELETED_ID"
    "i \<in> ids m \<Longrightarrow> i < NOT_DELETED_ID" "i \<in> ids m \<Longrightarrow> \<not> i < current_start_timestamp m" "i \<in> ids m \<Longrightarrow> TRANSACTION_ID_START \<le> i"
    "NOT_DELETED_ID \<notin> ids m" "\<not> NOT_DELETED_ID < current_start_timestamp m"
proof -
  have c: "unat (current_start_timestamp m) \<le> unat TRANSACTION_ID_START"
    "unat (current_transaction_id m) \<le> unat TRANSACTION_ID_START + unat (current_start_timestamp m)"
    using assms by (simp_all add: clock_ok_def word_le_nat_alt)
  then show "unat (current_start_timestamp m) < 2 ^ 63" by (simp add: unat_START)
  show le: "current_transaction_id m \<le> NOT_DELETED_ID" using c by (simp add: word_le_nat_alt unat_START)
  have i: "i < current_transaction_id m" "TRANSACTION_ID_START \<le> i" if "i \<in> ids m" for i
    using assms that by (auto simp: clock_ok_def)
  then show lt: "i \<in> ids m \<Longrightarrow> i < NOT_DELETED_ID" for i using le by (meson order_less_le_trans)
  then show "NOT_DELETED_ID \<notin> ids m" by blast
  show "i \<in> ids m \<Longrightarrow> TRANSACTION_ID_START \<le> i" by (rule i)
  have "current_start_timestamp m \<le> TRANSACTION_ID_START" using assms by (simp add: clock_ok_def)
  then show "i \<in> ids m \<Longrightarrow> \<not> i < current_start_timestamp m" using i(2) by (meson leD order_less_le_trans)
  show "\<not> NOT_DELETED_ID < current_start_timestamp m"
    using \<open>current_start_timestamp m \<le> TRANSACTION_ID_START\<close> id_bounds(2) by (meson leD order_less_le_trans order_less_imp_le)
qed

lemma active_running:
  assumes "clock_ok m" "t \<in> set (active_transactions m)"
  shows "running (tx_data t)"
proof -
  have "tx_start_time t < current_start_timestamp m" "0 < tx_start_time t" "current_start_timestamp m \<le> TRANSACTION_ID_START"
    using assms by (auto simp: clock_ok_def)
  then show ?thesis using clock_bounds(3,5) [OF assms(1), of "tx_transaction_id t"] assms(2)
    by (auto simp: running_def tx_data_def)
qed

end

