(* ===== verification/TransactionInvariant.thy ===== *)
theory TransactionInvariant
  imports TransactionSteps
begin

text \<open>
  Every step keeps the invariant, and leaves what the other running transactions see as it is. Each
  lemma is about one kind of step; the last ones put them together.
\<close>

subsection \<open>What a running transaction sees\<close>

lemma active_member: "k < length (active db) \<Longrightarrow> active db ! k \<in> set (active db)"
  by simp

lemma own_id: "t \<in> set (active_transactions m) \<Longrightarrow> tx_transaction_id t \<in> ids m"
  by simp

lemma same_id:
  assumes "clock_ok m" "t \<in> set (active_transactions m)" "u \<in> set (active_transactions m)" "tx_transaction_id t = tx_transaction_id u"
  shows "t = u"
  using assms by (auto simp: clock_ok_def distinct_map dest: inj_onD)

lemma rows_okD:
  assumes "rows_ok m n mgr"
  shows "manager_ok n mgr" "r < n \<Longrightarrow> row_ins mgr r < current_start_timestamp m \<or> row_ins mgr r \<in> ids m"
    "r < n \<Longrightarrow> row_del mgr r = NOT_DELETED_ID \<or> row_del mgr r < current_start_timestamp m \<or> row_del mgr r \<in> ids m"
    "r < n \<Longrightarrow> TRANSACTION_ID_START \<le> row_ins mgr r \<Longrightarrow> row_del mgr r = NOT_DELETED_ID"
    "r mod STANDARD_VECTOR_SIZE = 0 \<Longrightarrow> r + 1 < n \<Longrightarrow> row_ins mgr r \<le> row_ins mgr (r + 1)"
    "r < n \<Longrightarrow> row_ins mgr r \<notin> starts m"
  using assms by (simp_all add: rows_ok_def)

lemma UseVersion_later:
  assumes "clock_ok m" "u \<in> set (active_transactions m)" "\<not> v < current_start_timestamp m"
  shows "UseVersion (tx_data u) v \<longleftrightarrow> v = tx_transaction_id u"
proof -
  have "tx_start_time u < current_start_timestamp m" using assms(1,2) by (auto simp: clock_ok_def)
  then show ?thesis using assms(3) by (auto simp: UseVersion_iff tx_data_def dest: less_trans)
qed

lemma seen_same:
  assumes "\<And>r. r < db_rows db \<or> r < db_rows db' \<Longrightarrow>
    (r < db_rows db \<and> sees (tx_data t) (db_versions db) r) = (r < db_rows db' \<and> sees (tx_data t) (db_versions db') r)"
  shows "seen t db' = seen t db"
  using assms by (auto simp: seen_def)

lemma deletes_ok_transfer:
  assumes "deletes_ok t n mgr undo" "{r. r < n' \<and> row_del mgr' r = t} = {r. r < n \<and> row_del mgr r = t}"
  shows "deletes_ok t n' mgr' undo"
proof -
  have "delete_ok n' del" if del: "DELETE_TUPLE del \<in> set undo" for del
  proof -
    have ok: "delete_ok n del" using assms(1) del by (simp add: deletes_ok_def)
    have "x < rows_in n' (di_vector_idx del)" if x: "x \<in> set (deleted_rows del)" for x
    proof -
      have "di_vector_idx del * STANDARD_VECTOR_SIZE + x \<in> set (undo_rows undo)"
        using del x by (force simp: undo_rows_def intro: bexI [of _ "DELETE_TUPLE del"])
      then have "di_vector_idx del * STANDARD_VECTOR_SIZE + x < n'" using assms by (auto simp: deletes_ok_def)
      moreover have "x < STANDARD_VECTOR_SIZE" using ok x by (auto simp: delete_ok_def row_bounds(3))
      ultimately show ?thesis by (simp add: row_bounds(3))
    qed
    then show ?thesis using ok by (simp add: delete_ok_def)
  qed
  then show ?thesis using assms by (simp add: deletes_ok_def)
qed

lemma undo_ok_transfer:
  assumes "undo_ok n mgr u" "\<forall>r < n. row_ins mgr' r = tx_transaction_id u \<longleftrightarrow> row_ins mgr r = tx_transaction_id u"
    and "\<forall>r < n. row_del mgr' r = tx_transaction_id u \<longleftrightarrow> row_del mgr r = tx_transaction_id u"
  shows "undo_ok n mgr' u"
proof -
  have "deletes_ok (tx_transaction_id u) n mgr' (tx_undo u)"
    by (rule deletes_ok_transfer [of _ n mgr]) (use assms in \<open>auto simp: undo_ok_def\<close>)
  then show ?thesis using assms(1,2) unfolding undo_ok_def by simp
qed

subsection \<open>Starting a transaction\<close>

lemma settled_later:
  "settled m n mgr t \<Longrightarrow> current_start_timestamp m \<le> current_start_timestamp m' \<Longrightarrow> settled m' n mgr t"
  by (auto simp: settled_def)

lemma StartTransaction_result:
  assumes "StartTransaction m = Inr (t, m')"
  shows "current_start_timestamp m < TRANSACTION_ID_START" "tx_start_time t = current_start_timestamp m" "tx_transaction_id t = current_transaction_id m"
    "tx_commit_id t = 0" "\<not> tx_awaiting_cleanup t" "tx_undo t = []"
    "current_start_timestamp m' = current_start_timestamp m + 1" "current_transaction_id m' = current_transaction_id m + 1"
    "active_transactions m' = active_transactions m @ [t]" "recently_committed_transactions m' = recently_committed_transactions m"
    "old_transactions m' = old_transactions m" "cleanup_queue m' = cleanup_queue m"
  using assms by (auto simp: StartTransaction_def Let_def split: if_split_asm)

lemma begin_ok:
  assumes "db_ok size_max db" "StartTransaction (db_manager db) = Inr (t, m')"
  shows "db_ok size_max (db\<lparr>db_manager := m'\<rparr>)"
proof -
  define m where "m = db_manager db"
  let ?clock = "current_start_timestamp m" and ?id = "current_transaction_id m"
  have ok: "clock_ok m" "rows_ok m (db_rows db) (db_versions db)" "finished_ok m (db_rows db) (db_versions db)"
    using assms(1) by (simp_all add: db_ok_def m_def)
  note t = StartTransaction_result(1-6) [OF assms(2), folded m_def] and m' = StartTransaction_result(7-12) [OF assms(2), folded m_def]
  have small: "unat ?clock < 2 ^ 64 - 1" "unat ?id < 2 ^ 64 - 1" "?id \<noteq> NOT_DELETED_ID"
  proof -
    have "unat ?clock < unat TRANSACTION_ID_START" using t(1) by (simp add: word_less_nat_alt)
    moreover have "unat ?id \<le> unat TRANSACTION_ID_START + unat ?clock" using ok(1) by (simp add: clock_ok_def)
    ultimately show "unat ?clock < 2 ^ 64 - 1" "unat ?id < 2 ^ 64 - 1" "?id \<noteq> NOT_DELETED_ID" by (auto simp: unat_START)
  qed
  note clock = word_Suc [OF small(1)] and id' = word_Suc [OF small(2)]
  have le: "?clock + 1 \<le> TRANSACTION_ID_START" using t(1) clock(1) by (simp add: word_less_nat_alt word_le_nat_alt)
  have "\<not> ?id < ?clock" using ok(1) t(1) by (auto simp: clock_ok_def)
  have "clock_ok m'"
    using ok(1) t clock(2,3) id' le unfolding clock_ok_def m' by (auto simp: clock(1) order_le_less_trans intro: less_imp_le)
  moreover have "rows_ok m' (db_rows db) (db_versions db)"
  proof -
    have "row_ins (db_versions db) r \<noteq> ?clock" if "r < db_rows db" for r
      using rows_okD(2) [OF ok(2) that] clock_bounds(5) [OF ok(1), of "row_ins (db_versions db) r"] t(1) by (metis leD less_irrefl)
    then show ?thesis using ok(2) t clock(2,3) unfolding rows_ok_def m' by (auto intro: less_imp_le)
  qed
  moreover have "undo_ok (db_rows db) (db_versions db) t"
  proof -
    have "row_ins (db_versions db) r \<noteq> ?id \<and> row_del (db_versions db) r \<noteq> ?id" if "r < db_rows db" for r
    proof -
      have "\<forall>i \<in> ids m. i < ?id" using ok(1) by (simp add: clock_ok_def)
      then show ?thesis using ok(2) that \<open>\<not> ?id < ?clock\<close> small(3) unfolding rows_ok_def by (metis less_irrefl)
    qed
    then show ?thesis by (auto simp: undo_ok_def deletes_ok_def t)
  qed
  moreover have "finished_ok m' (db_rows db) (db_versions db)"
  proof -
    have "settled m' n mgr u" if "settled m n mgr u" for n mgr u using that clock(2) by (auto simp: m' settled_def intro: less_trans)
    moreover have "tx_commit_id u < ?clock" if "settled m n mgr u" for n mgr u using that by (simp add: settled_def)
    ultimately show ?thesis using ok(3) by (fastforce simp: finished_ok_def cleanup_ok_def m' t(2))
  qed
  ultimately show ?thesis using assms(1) by (auto simp: db_ok_def m' m_def)
qed

subsection \<open>Steps that change one transaction\<close>

lemma map_update_same: "f y = f (xs ! k) \<Longrightarrow> map f (xs[k := y]) = map f xs"
  by (metis list_update_id map_update)

lemma image_update_same: "f y = f (xs ! k) \<Longrightarrow> f ` set (xs[k := y]) = f ` set xs"
  by (metis map_update_same set_map)

text \<open>Replacing a transaction by one with the same times leaves what is known of the others.\<close>

lemma update_active_ok:
  assumes "clock_ok m" "k < length (active_transactions m)" "m' = m\<lparr>active_transactions := (active_transactions m)[k := t]\<rparr>"
    and "tx_start_time t = tx_start_time (active_transactions m ! k)" "tx_transaction_id t = tx_transaction_id (active_transactions m ! k)"
    and "tx_commit_id t = tx_commit_id (active_transactions m ! k)" "tx_awaiting_cleanup t = tx_awaiting_cleanup (active_transactions m ! k)"
  shows "clock_ok m'" "rows_ok m' n mgr = rows_ok m n mgr" "finished_ok m' n mgr = finished_ok m n mgr"
    "u \<in> set (active_transactions m') \<Longrightarrow> u = t \<or> (u \<in> set (active_transactions m) \<and> tx_transaction_id u \<noteq> tx_transaction_id t)"
proof -
  let ?xs = "active_transactions m"
  have sets: "ids m' = ids m" "starts m' = starts m" "map tx_transaction_id (active_transactions m') = map tx_transaction_id ?xs"
    using assms(4,5) by (simp_all add: assms(3) image_update_same map_update_same)
  have "\<forall>u \<in> set (active_transactions m'). tx_commit_id u = 0 \<and> \<not> tx_awaiting_cleanup u"
    using assms(1,2,6,7) set_update_subset_insert [of ?xs k t] nth_mem [OF assms(2)] by (auto simp: clock_ok_def assms(3))
  then show clock: "clock_ok m'" using assms(1) sets unfolding clock_ok_def by (simp add: assms(3))
  show "rows_ok m' n mgr = rows_ok m n mgr" unfolding rows_ok_def sets by (simp add: assms(3))
  have "settled m' = settled m" by (simp add: settled_def assms(3) fun_eq_iff)
  then have "cleanup_ok m' n mgr = cleanup_ok m n mgr" unfolding cleanup_ok_def sets by simp
  then show "finished_ok m' n mgr = finished_ok m n mgr" using \<open>settled m' = settled m\<close> by (simp add: finished_ok_def assms(3))
  assume u: "u \<in> set (active_transactions m')"
  have t: "t \<in> set (active_transactions m')" using assms(2) by (simp add: assms(3) set_update_memI)
  show "u = t \<or> (u \<in> set ?xs \<and> tx_transaction_id u \<noteq> tx_transaction_id t)"
    using u same_id [OF clock u t] set_update_subset_insert [of ?xs k t] by (auto simp: assms(3))
qed

lemma undo_update_ok:
  assumes "clock_ok m" "k < length (active_transactions m)" "t = (active_transactions m ! k)\<lparr>tx_undo := undo\<rparr>"
    and "m' = m\<lparr>active_transactions := (active_transactions m)[k := t]\<rparr>"
  shows "clock_ok m'" "rows_ok m' n mgr = rows_ok m n mgr" "finished_ok m' n mgr = finished_ok m n mgr"
    "u \<in> set (active_transactions m') \<Longrightarrow> u = t \<or> (u \<in> set (active_transactions m) \<and> tx_transaction_id u \<noteq> tx_transaction_id (active_transactions m ! k))"
  using update_active_ok [OF assms(1,2,4)] assms(3) by auto

lemma query_ok:
  assumes "db_ok size_max db" "k < length (active db)"
  shows "db_ok size_max (set_query k query db)"
proof -
  let ?m = "db_manager db" and ?t = "(active db ! k)\<lparr>tx_active_query := query\<rparr>"
  note ok = update_active_ok [of ?m k "?m\<lparr>active_transactions := (active_transactions ?m)[k := ?t]\<rparr>" ?t]
  have "undo_ok n mgr ?t = undo_ok n mgr (active db ! k)" for n mgr by (simp add: undo_ok_def)
  moreover have "clock_ok ?m" "undo_ok (db_rows db) (db_versions db) (active db ! k)"
    using assms active_member [OF assms(2)] by (simp_all add: db_ok_def)
  ultimately show ?thesis using assms ok unfolding db_ok_def set_query_def Let_def by fastforce
qed

subsection \<open>Writing local rows\<close>

lemma undo_ok_no_insert:
  assumes "undo_ok n mgr u" "no_insert (tx_undo u)"
  shows "\<exists>dels. tx_undo u = map DELETE_TUPLE dels" "r < n \<Longrightarrow> row_ins mgr r \<noteq> tx_transaction_id u"
  using assms by (fastforce simp: undo_ok_def no_insert_def)+

lemma undo_ok_deletes:
  assumes "tx_undo u = map DELETE_TUPLE dels" "deletes_ok (tx_transaction_id u) n mgr (tx_undo u)" "\<forall>r < n. row_ins mgr r \<noteq> tx_transaction_id u"
  shows "undo_ok n mgr u"
  using assms unfolding undo_ok_def by blast

lemma settled_grow:
  assumes "settled m n mgr t" "n \<le> n'" "\<forall>r < n. row_ins mgr' r = row_ins mgr r"
  shows "settled m n' mgr' t"
proof -
  have "s + k \<le> n' \<and> (\<forall>r < s + k. row_ins mgr' r \<le> tx_commit_id t)" if "INSERT_TUPLE s k \<in> set (tx_undo t)" for s k
  proof -
    have "s + k \<le> n" "\<forall>r < s + k. row_ins mgr r \<le> tx_commit_id t" using assms(1) that by (auto simp: settled_def)
    then show ?thesis using assms(2,3) by simp
  qed
  then show ?thesis using assms(1) by (simp add: settled_def)
qed

lemma finished_ok_mono:
  assumes "finished_ok m n mgr" "\<And>t. settled m n mgr t \<Longrightarrow> settled m n' mgr' t"
  shows "finished_ok m n' mgr'"
  using assms by (auto simp: finished_ok_def cleanup_ok_def)

text \<open>The ids of the rows before and after \<open>k\<close> rows were appended by the transaction with the id \<open>i\<close>.\<close>

definition extends :: "transaction_t \<Rightarrow> nat \<Rightarrow> nat \<Rightarrow> RowVersionManager \<Rightarrow> RowVersionManager \<Rightarrow> bool" where
  "extends i n k mgr mgr' \<longleftrightarrow>
     (\<forall>r < n. row_ins mgr' r = row_ins mgr r \<and> row_del mgr' r = row_del mgr r) \<and>
     (\<forall>r. n \<le> r \<and> r < n + k \<longrightarrow> row_ins mgr' r = i \<and> row_del mgr' r = NOT_DELETED_ID)"

lemma extendsD:
  assumes "extends i n k mgr mgr'"
  shows "r < n \<Longrightarrow> row_ins mgr' r = row_ins mgr r" "r < n \<Longrightarrow> row_del mgr' r = row_del mgr r"
    "n \<le> r \<Longrightarrow> r < n + k \<Longrightarrow> row_ins mgr' r = i" "n \<le> r \<Longrightarrow> r < n + k \<Longrightarrow> row_del mgr' r = NOT_DELETED_ID"
  using assms by (simp_all add: extends_def)

lemma flush_result:
  assumes "manager_ok (db_rows db) (db_versions db)" "0 < n" "db_rows db + n \<le> size_max" "size_max \<le> MAX_ROW_GROUP_SIZE" "t = active db ! k"
  shows "\<exists>mgr. Flush size_max k n db =
      Inr (set_undo k (tx_undo t @ [INSERT_TUPLE (db_rows db) n]) db\<lparr>db_versions := mgr, db_rows := db_rows db + n\<rparr>) \<and>
    manager_ok (db_rows db + n) mgr \<and> extends (tx_transaction_id t) (db_rows db) n (db_versions db) mgr"
proof -
  let ?N = "db_rows db" and ?mgr = "db_versions db"
  have bound: "?N < ?N + n" "?N + n \<le> 2 ^ 64" using assms(2-4) by (simp_all add: MAX_ROW_GROUP_SIZE_def)
  obtain mgr where mgr: "AppendVersions (tx_data t) ?N (?N + n) ?mgr = Inr mgr" "manager_ok (?N + n) mgr"
    "\<forall>r < ?N + n. row_ins mgr r = (if ?N \<le> r then tx_transaction_id t else row_ins ?mgr r) \<and> row_del mgr r = row_del ?mgr r"
    using AppendVersions_result [OF assms(1) bound, of "tx_data t"] by (auto simp: tx_data_def)
  have "row_del mgr r = NOT_DELETED_ID" if "?N \<le> r" "r < ?N + n" for r
    using mgr(3) that del_at_beyond [of ?N "vm_vector_info ?mgr" r] assms(1) by (simp add: manager_ok_def row_del_def)
  then have "extends (tx_transaction_id t) ?N n ?mgr mgr" using mgr(3) by (simp add: extends_def)
  then show ?thesis using mgr(1,2) assms(3,5) by (intro exI [of _ mgr]) (simp add: Flush_def RowGroup_AppendVersionInfo_def PushAppend_def set_undo_def Let_def)
qed

lemma id_not_start:
  assumes "clock_ok m" "i \<in> ids m"
  shows "i \<notin> starts m"
proof -
  have "\<forall>s \<in> starts m. s < TRANSACTION_ID_START" using assms(1) unfolding clock_ok_def by (meson order_less_le_trans)
  then show ?thesis using clock_bounds(5) [OF assms] by (metis leD)
qed

lemma extends_rows_ok:
  assumes "clock_ok m" "rows_ok m n mgr" "manager_ok (n + k) mgr'" "extends i n k mgr mgr'" "i \<in> ids m" "\<forall>r < n. row_ins mgr r \<notin> ids m"
  shows "rows_ok m (n + k) mgr'"
  unfolding rows_ok_def
proof (intro conjI allI impI)
  note old = extendsD(1,2) [OF assms(4)] and new = extendsD(3,4) [OF assms(4)]
  show "manager_ok (n + k) mgr'" by (rule assms(3))
  fix r
  assume r: "r < n + k"
  show "row_ins mgr' r < current_start_timestamp m \<or> row_ins mgr' r \<in> ids m"
    using old(1) [of r] new(1) [OF _ r] rows_okD(2) [OF assms(2), of r] assms(5) by (cases "r < n") simp_all
  show "row_ins mgr' r \<notin> starts m"
    using old(1) [of r] new(1) [OF _ r] rows_okD(6) [OF assms(2), of r] id_not_start [OF assms(1,5)] by (cases "r < n") simp_all
  show "row_del mgr' r = NOT_DELETED_ID \<or> row_del mgr' r < current_start_timestamp m \<or> row_del mgr' r \<in> ids m"
    using old(2) [of r] new(2) [OF _ r] rows_okD(3) [OF assms(2), of r] by (cases "r < n") simp_all
  assume "TRANSACTION_ID_START \<le> row_ins mgr' r"
  then show "row_del mgr' r = NOT_DELETED_ID"
    using old [of r] new(2) [OF _ r] rows_okD(4) [OF assms(2), of r] by (cases "r < n") simp_all
next
  note old = extendsD(1,2) [OF assms(4)] and new = extendsD(3,4) [OF assms(4)]
  fix r
  assume r: "r mod STANDARD_VECTOR_SIZE = 0 \<and> r + 1 < n + k"
  have "row_ins mgr r \<le> i" if "r < n"
  proof -
    have "row_ins mgr r < current_start_timestamp m" using rows_okD(2) [OF assms(2) that] assms(6) that by blast
    then show ?thesis using clock_bounds(4) [OF assms(1,5)] by (meson less_imp_le order_less_le_trans not_less)
  qed
  moreover have "row_ins mgr r \<le> row_ins mgr (r + 1)" if "r + 1 < n" by (rule rows_okD(5) [OF assms(2)]) (use r that in auto)
  ultimately show "row_ins mgr' r \<le> row_ins mgr' (r + 1)"
    using old(1) [of r] old(1) [of "r + 1"] new(1) [of r] new(1) [of "r + 1"] r by (cases "r < n"; cases "r + 1 < n") simp_all
qed

lemma extends_deletes:
  assumes "extends i n k mgr mgr'" "j \<noteq> NOT_DELETED_ID"
  shows "{r. r < n + k \<and> row_del mgr' r = j} = {r. r < n \<and> row_del mgr r = j}"
proof (rule Collect_cong)
  show "(r < n + k \<and> row_del mgr' r = j) = (r < n \<and> row_del mgr r = j)" for r
    using extendsD(2,4) [OF assms(1), of r] assms(2) by (cases "r < n") auto
qed

text \<open>The transaction that appends the rows, and one that does not.\<close>

lemma extends_undo_ok:
  assumes "extends (tx_transaction_id t) n k mgr mgr'" "undo_ok n mgr t" "no_insert (tx_undo t)" "tx_transaction_id t \<noteq> NOT_DELETED_ID" "0 < k"
  shows "undo_ok (n + k) mgr' (t\<lparr>tx_undo := tx_undo t @ [INSERT_TUPLE n k]\<rparr>)"
proof -
  obtain dels where dels: "tx_undo t = map DELETE_TUPLE dels" using undo_ok_no_insert(1) [OF assms(2,3)] by blast
  have "deletes_ok (tx_transaction_id t) (n + k) mgr' (tx_undo t)"
    by (rule deletes_ok_transfer [OF _ extends_deletes [OF assms(1,4)]]) (use assms(2) in \<open>simp add: undo_ok_def\<close>)
  then have "deletes_ok (tx_transaction_id t) (n + k) mgr' (tx_undo t @ [INSERT_TUPLE n k])" by (auto simp: deletes_ok_def)
  moreover have "row_ins mgr' r = tx_transaction_id t \<longleftrightarrow> n \<le> r" if "r < n + k" for r
    using extendsD(1,3) [OF assms(1), of r] undo_ok_no_insert(2) [OF assms(2,3), of r] that by (cases "r < n") simp_all
  ultimately show ?thesis using dels assms(5) by (auto simp: undo_ok_def)
qed

lemma extends_other_undo_ok:
  assumes "extends i n k mgr mgr'" "undo_ok n mgr u" "no_insert (tx_undo u)" "tx_transaction_id u \<noteq> i" "tx_transaction_id u \<noteq> NOT_DELETED_ID"
  shows "undo_ok (n + k) mgr' u"
proof -
  obtain dels where dels: "tx_undo u = map DELETE_TUPLE dels" using undo_ok_no_insert(1) [OF assms(2,3)] by blast
  have "deletes_ok (tx_transaction_id u) (n + k) mgr' (tx_undo u)"
    by (rule deletes_ok_transfer [OF _ extends_deletes [OF assms(1,5)]]) (use assms(2) in \<open>simp add: undo_ok_def\<close>)
  moreover have "row_ins mgr' r \<noteq> tx_transaction_id u" if "r < n + k" for r
    using extendsD(1,3) [OF assms(1), of r] undo_ok_no_insert(2) [OF assms(2,3), of r] that assms(4) by (cases "r < n") auto
  ultimately show ?thesis using undo_ok_deletes [OF dels] by blast
qed

lemma flush_step:
  assumes "db_ok size_max db" "k < length (active db)" "\<forall>u \<in> set (active db). no_insert (tx_undo u)" "0 < n" "db_rows db + n \<le> size_max"
    and "Flush size_max k n db = Inr db'" "size_max \<le> MAX_ROW_GROUP_SIZE" "t = active db ! k"
  shows "db_ok size_max db'" "extends (tx_transaction_id t) (db_rows db) n (db_versions db) (db_versions db')"
    "db_rows db' = db_rows db + n" "current_start_timestamp (db_manager db') = current_start_timestamp (db_manager db)"
    "active db' = (active db)[k := t\<lparr>tx_undo := tx_undo t @ [INSERT_TUPLE (db_rows db) n]\<rparr>]"
proof -
  let ?m = "db_manager db" and ?N = "db_rows db" and ?mgr = "db_versions db"
  have ok: "clock_ok ?m" "rows_ok ?m ?N ?mgr" "finished_ok ?m ?N ?mgr" and undo: "u \<in> set (active db) \<Longrightarrow> undo_ok ?N ?mgr u" for u
    using assms(1) by (simp_all add: db_ok_def)
  have t: "t \<in> set (active db)" "tx_transaction_id t \<in> ids ?m" using assms(2,8) by simp_all
  let ?t' = "t\<lparr>tx_undo := tx_undo t @ [INSERT_TUPLE ?N n]\<rparr>"
  let ?m' = "?m\<lparr>active_transactions := (active db)[k := ?t']\<rparr>"
  obtain mgr where flush: "Flush size_max k n db = Inr (set_undo k (tx_undo t @ [INSERT_TUPLE ?N n]) db\<lparr>db_versions := mgr, db_rows := ?N + n\<rparr>)"
    and mgr: "manager_ok (?N + n) mgr" "extends (tx_transaction_id t) ?N n ?mgr mgr"
    using flush_result [OF rows_okD(1) [OF ok(2)] assms(4,5,7,8)] by blast
  have db': "db' = db\<lparr>db_manager := ?m', db_versions := mgr, db_rows := ?N + n\<rparr>"
    using flush assms(6,8) by (simp add: set_undo_def Let_def)
  have id: "tx_transaction_id u \<noteq> NOT_DELETED_ID" if "u \<in> set (active db)" for u
    using clock_bounds(3) [OF ok(1), of "tx_transaction_id u"] that by auto
  have "\<forall>r < ?N. row_ins ?mgr r \<notin> ids ?m" using undo_ok_no_insert(2) [OF undo] assms(3) by blast
  note rows = extends_rows_ok [OF ok(1,2) mgr t(2) this]
  note upd = undo_update_ok [OF ok(1) assms(2) refl refl, where undo = "tx_undo t @ [INSERT_TUPLE ?N n]", folded assms(8)]
  have "undo_ok (?N + n) mgr u" if mem: "u \<in> set (active_transactions ?m')" for u
    using upd(4) [OF mem]
  proof (elim disjE conjE)
    assume "u = ?t'"
    then show ?thesis using extends_undo_ok [OF mgr(2) undo [OF t(1)] _ id [OF t(1)] assms(4)] assms(3) t(1) by blast
  next
    assume u: "u \<in> set (active db)" "tx_transaction_id u \<noteq> tx_transaction_id t"
    then show ?thesis using extends_other_undo_ok [OF mgr(2) undo [OF u(1)] _ u(2) id [OF u(1)]] assms(3) by blast
  qed
  moreover have "finished_ok ?m (?N + n) mgr"
    by (rule finished_ok_mono [OF ok(3)]) (rule settled_grow, use mgr(2) in \<open>auto simp: extends_def\<close>)
  ultimately show "db_ok size_max db'" using upd rows assms(5) by (simp add: db_ok_def db')
  show "extends (tx_transaction_id t) ?N n ?mgr (db_versions db')" "db_rows db' = ?N + n"
    "current_start_timestamp (db_manager db') = current_start_timestamp ?m" "active db' = (active db)[k := ?t']"
    using mgr(2) by (simp_all add: db')
qed

subsection \<open>Deleting rows\<close>

lemma rows_ok_same_ins:
  assumes "rows_ok m n mgr" "manager_ok n mgr'" "\<forall>r < n. row_ins mgr' r = row_ins mgr r"
    and "\<forall>r < n. row_del mgr' r = NOT_DELETED_ID \<or> row_del mgr' r < current_start_timestamp m \<or> row_del mgr' r \<in> ids m"
    and "\<forall>r < n. TRANSACTION_ID_START \<le> row_ins mgr r \<longrightarrow> row_del mgr' r = NOT_DELETED_ID"
  shows "rows_ok m n mgr'"
  using assms unfolding rows_ok_def by simp

lemma not_used_id:
  assumes "clock_ok m" "u \<in> set (active_transactions m)" "i \<in> ids m" "tx_transaction_id u \<noteq> i"
  shows "\<not> UseVersion (tx_data u) i"
  using UseVersion_later [OF assms(1,2)] clock_bounds(4) [OF assms(1,3)] assms(4) by auto

lemma not_used_NOT_DELETED:
  "clock_ok m \<Longrightarrow> u \<in> set (active_transactions m) \<Longrightarrow> \<not> UseVersion (tx_data u) NOT_DELETED_ID"
  using running_UseVersion(2) active_running by blast

lemma seen_committed:
  assumes "clock_ok m" "t \<in> set (active_transactions m)" "UseVersion (tx_data t) v" "v \<noteq> tx_transaction_id t"
  shows "v < TRANSACTION_ID_START"
  using running_UseVersion(3) [OF active_running [OF assms(1,2)], of v] assms(3,4) by (metis tx_data_def TransactionData.select_convs(1) leI)

text \<open>The ids of the rows before and after the transaction with the id \<open>i\<close> marked some of the rows \<open>R\<close> as deleted.\<close>

definition marks :: "transaction_t \<Rightarrow> nat set \<Rightarrow> nat \<Rightarrow> RowVersionManager \<Rightarrow> RowVersionManager \<Rightarrow> bool" where
  "marks i R n mgr mgr' \<longleftrightarrow>
     (\<forall>r < n. row_ins mgr' r = row_ins mgr r \<and>
        (row_del mgr' r = row_del mgr r \<or> (r \<in> R \<and> row_del mgr r = NOT_DELETED_ID \<and> row_del mgr' r = i)))"

lemma delete_step:
  assumes "db_ok size_max db" "k < length (active db)" "t = active db ! k" "no_insert (tx_undo t)" "distinct rows"
    and "length rows \<le> STANDARD_VECTOR_SIZE" "set rows \<subseteq> seen t db"
    and "RowGroup_Delete (tx_transaction_id t) 0 rows (db_versions db) (tx_undo t) = ((mgr, undo), r)"
    and "db' = set_undo k undo db\<lparr>db_versions := mgr\<rparr>"
  shows "db_ok size_max db'" "marks (tx_transaction_id t) (set rows) (db_rows db) (db_versions db) (db_versions db')"
    "active db' = (active db)[k := t\<lparr>tx_undo := undo\<rparr>]" "db_rows db' = db_rows db"
    "current_start_timestamp (db_manager db') = current_start_timestamp (db_manager db)"
    "(r = Inr (length rows) \<and> (\<forall>x \<in> set rows. row_del (db_versions db) x = NOT_DELETED_ID \<and> row_del (db_versions db') x = tx_transaction_id t)) \<or>
     (r = Inl TransactionException \<and> (\<exists>x \<in> set rows. row_del (db_versions db) x \<noteq> NOT_DELETED_ID))"
proof -
  let ?m = "db_manager db" and ?N = "db_rows db" and ?mgr = "db_versions db"
  let ?i = "tx_transaction_id t" and ?t' = "t\<lparr>tx_undo := undo\<rparr>"
  let ?m' = "?m\<lparr>active_transactions := (active db)[k := ?t']\<rparr>"
  have ok: "clock_ok ?m" "rows_ok ?m ?N ?mgr" "finished_ok ?m ?N ?mgr" and undo: "u \<in> set (active db) \<Longrightarrow> undo_ok ?N ?mgr u" for u
    using assms(1) by (simp_all add: db_ok_def)
  have t: "t \<in> set (active db)" using assms(2,3) by simp
  have i: "?i \<in> ids ?m" "?i \<noteq> NOT_DELETED_ID" using t clock_bounds(3) [OF ok(1), of ?i] by auto
  have rows: "\<forall>x \<in> set rows. x < ?N \<and> row_del ?mgr x \<noteq> ?i"
    using assms(7) by (auto simp: seen_def sees_def UseVersion_iff tx_data_def)
  have "deletes_ok ?i ?N ?mgr (tx_undo t)" using undo [OF t] by (simp add: undo_ok_def)
  note d = RowGroup_Delete_result [OF assms(8) rows_okD(1) [OF ok(2)] this i(2) assms(5,6) rows]
  note upd = undo_update_ok [OF ok(1) assms(2) refl refl, where undo = undo, folded assms(3)]
  note mine = undo_ok_no_insert [OF undo [OF t] assms(4)]
  have db': "db' = db\<lparr>db_manager := ?m', db_versions := mgr\<rparr>" by (simp add: assms(3,9) set_undo_def Let_def)
  have committed: "row_ins ?mgr x < TRANSACTION_ID_START" if "x \<in> set rows" for x
    using seen_committed [OF ok(1) t] mine(2) assms(7) that by (auto simp: seen_def sees_def)
  have "rows_ok ?m ?N mgr"
  proof (rule rows_ok_same_ins [OF ok(2) d(1,4)])
    show "\<forall>r < ?N. row_del mgr r = NOT_DELETED_ID \<or> row_del mgr r < current_start_timestamp ?m \<or> row_del mgr r \<in> ids ?m"
      using d(5) rows_okD(3) [OF ok(2)] i(1) by metis
    show "\<forall>r < ?N. TRANSACTION_ID_START \<le> row_ins ?mgr r \<longrightarrow> row_del mgr r = NOT_DELETED_ID"
      using d(5) rows_okD(4) [OF ok(2)] committed by (metis leD)
  qed
  moreover have "undo_ok ?N mgr u" if mem: "u \<in> set (active_transactions ?m')" for u
    using upd(4) [OF mem]
  proof (elim disjE conjE)
    assume u: "u = ?t'"
    obtain dels dels' where "tx_undo t = map DELETE_TUPLE dels" "undo = tx_undo t @ map DELETE_TUPLE dels'" using mine(1) d(3) by blast
    then have "tx_undo u = map DELETE_TUPLE (dels @ dels')" using u by simp
    then show ?thesis by (rule undo_ok_deletes) (use u d(2,4) mine(2) in auto)
  next
    assume "u \<in> set (active db)" "tx_transaction_id u \<noteq> ?i"
    then show ?thesis using undo_ok_transfer [OF undo] d(4,5) clock_bounds(3) [OF ok(1), of "tx_transaction_id u"]
      by (metis less_irrefl own_id)
  qed
  moreover have "finished_ok ?m ?N mgr" by (rule finished_ok_mono [OF ok(3)]) (rule settled_grow, use d(4) in auto)
  ultimately show "db_ok size_max db'" using upd assms(1) by (simp add: db_ok_def db')
  show "marks ?i (set rows) ?N ?mgr (db_versions db')" "active db' = (active db)[k := ?t']" "db_rows db' = ?N"
    "current_start_timestamp (db_manager db') = current_start_timestamp ?m"
    using d(4,5) by (simp_all add: db' marks_def)
  show "(r = Inr (length rows) \<and> (\<forall>x \<in> set rows. row_del ?mgr x = NOT_DELETED_ID \<and> row_del (db_versions db') x = ?i)) \<or>
     (r = Inl TransactionException \<and> (\<exists>x \<in> set rows. row_del ?mgr x \<noteq> NOT_DELETED_ID))"
    using d(6) by (simp add: db')
qed

end
