(* ===== verification/TransactionEnd.thy ===== *)
theory TransactionEnd
  imports TransactionInvariant
begin

text \<open>
  The steps that end a transaction, and the cleanup of ended ones, keep the invariant; no other
  running transaction sees a difference, and neither a commit nor a rollback fails.
\<close>

subsection \<open>Removing a transaction\<close>

lemma set_without:
  assumes "distinct (map f xs)" "k < length xs"
  shows "set (take k xs @ drop (k + 1) xs) = {x \<in> set xs. f x \<noteq> f (xs ! k)}" "distinct (map f (take k xs @ drop (k + 1) xs))"
proof -
  have xs: "xs = take k xs @ xs ! k # drop (k + 1) xs" using id_take_nth_drop [OF assms(2)] by simp
  then have "distinct (map f (take k xs @ xs ! k # drop (k + 1) xs))" using assms(1) by simp
  then have d: "distinct (map f (take k xs @ drop (k + 1) xs))" "f (xs ! k) \<notin> f ` set (take k xs @ drop (k + 1) xs)" by auto
  show "distinct (map f (take k xs @ drop (k + 1) xs))" by (rule d(1))
  define A where "A = set (take k xs @ drop (k + 1) xs)"
  have "set xs = insert (xs ! k) A" using arg_cong [OF xs, of set] by (simp add: A_def)
  then have "A = {x \<in> set xs. f x \<noteq> f (xs ! k)}" using d(2) unfolding A_def [symmetric] by (auto simp: image_iff)
  then show "set (take k xs @ drop (k + 1) xs) = {x \<in> set xs. f x \<noteq> f (xs ! k)}" by (simp only: A_def)
qed

lemma fold_min_le:
  fixes a :: "'b::linorder"
  shows "fold (\<lambda>u lowest. min lowest (f u)) xs a \<le> a \<and> (\<forall>x \<in> set xs. fold (\<lambda>u lowest. min lowest (f u)) xs a \<le> f x)"
proof (induction xs arbitrary: a)
  case (Cons y xs)
  from Cons [of "min a (f y)"] show ?case by auto
qed simp

lemma settled_cong [simp]:
  "settled m n mgr (t\<lparr>tx_awaiting_cleanup := a\<rparr>) = settled m n mgr t"
  "settled m n mgr (t\<lparr>tx_highest_active_query := q\<rparr>) = settled m n mgr t"
  by (simp_all add: settled_def)

text \<open>The fields of the manager after a removal, in terms of the transactions that leave each list.\<close>

lemma RemoveTransaction_split:
  assumes "RemoveTransaction current_query k store_transaction m = (info, m')" "t = active_transactions m ! k"
    and "others = take k (active_transactions m) @ drop (k + 1) (active_transactions m)"
  shows "active_transactions m' = others" "current_start_timestamp m' = current_start_timestamp m"
    "current_transaction_id m' = current_transaction_id m" "cleanup_queue m' = cleanup_queue m"
    "cl_lowest_start_time info = fold (\<lambda>u lowest. min lowest (tx_start_time u)) others TRANSACTION_ID_START"
    "\<exists>moved recent old free scheduled. set moved \<subseteq> set recent \<and> set free \<subseteq> set old \<and>
       set recent \<subseteq> set (recently_committed_transactions m) \<union> (if tx_commit_id t \<noteq> 0 then {t} else {}) \<and>
       set old \<subseteq> set (old_transactions m) \<union> (if tx_commit_id t = 0 then {t\<lparr>tx_highest_active_query := current_query\<rparr>} else {}) \<union>
         (\<lambda>u. u\<lparr>tx_awaiting_cleanup := True, tx_highest_active_query := current_query\<rparr>) ` set moved \<and>
       set scheduled \<subseteq> (if \<not> store_transaction \<and> ChangesMade t then {t\<lparr>tx_awaiting_cleanup := True\<rparr>} else {}) \<and>
       set (recently_committed_transactions m') \<subseteq> set recent \<and> set (old_transactions m') \<subseteq> set old \<and>
       cl_transactions info = scheduled @ free"
proof -
  define lowest where "lowest = fold (\<lambda>u lowest. min lowest (tx_start_time u)) others TRANSACTION_ID_START"
  define recent where "recent = recently_committed_transactions m @ (if store_transaction \<and> tx_commit_id t \<noteq> 0 then [t] else [])"
  define moved where "moved = takeWhile (\<lambda>u. \<not> (tx_commit_id u \<ge> lowest)) recent"
  define old where "old = (old_transactions m @ (if store_transaction \<and> tx_commit_id t = 0 then [t\<lparr>tx_highest_active_query := current_query\<rparr>] else [])) @
    map (\<lambda>u. u\<lparr>tx_awaiting_cleanup := True, tx_highest_active_query := current_query\<rparr>) moved"
  define free where "free = (if others = [] then old
    else takeWhile (\<lambda>u. \<not> (tx_highest_active_query u \<ge> fold (\<lambda>u lowest. min lowest (tx_active_query u)) others MAXIMUM_QUERY_ID)) old)"
  define scheduled where "scheduled = (if \<not> store_transaction \<and> ChangesMade t then [t\<lparr>tx_awaiting_cleanup := True\<rparr>] else [])"
  note eqs = assms(1) [unfolded RemoveTransaction_def Let_def prod.inject, folded assms(2,3), folded lowest_def recent_def, folded moved_def,
    folded old_def, folded free_def scheduled_def]
  note manager = eqs [THEN conjunct2, symmetric] and cleanup = eqs [THEN conjunct1, symmetric]
  show "active_transactions m' = others" "current_start_timestamp m' = current_start_timestamp m"
    "current_transaction_id m' = current_transaction_id m" "cleanup_queue m' = cleanup_queue m"
    "cl_lowest_start_time info = fold (\<lambda>u lowest. min lowest (tx_start_time u)) others TRANSACTION_ID_START"
    by (simp_all add: manager cleanup lowest_def)
  have m': "recently_committed_transactions m' = drop (length moved) recent" "old_transactions m' = drop (length free) old"
    and info: "cl_transactions info = scheduled @ free"
    by (simp_all add: manager cleanup)
  have "set moved \<subseteq> set recent" by (auto simp: moved_def dest: set_takeWhileD)
  moreover have "set free \<subseteq> set old" by (auto simp: free_def dest: set_takeWhileD)
  moreover have "set recent \<subseteq> set (recently_committed_transactions m) \<union> (if tx_commit_id t \<noteq> 0 then {t} else {})"
    by (auto simp: recent_def)
  moreover have "set old \<subseteq> set (old_transactions m) \<union> (if tx_commit_id t = 0 then {t\<lparr>tx_highest_active_query := current_query\<rparr>} else {}) \<union>
      (\<lambda>u. u\<lparr>tx_awaiting_cleanup := True, tx_highest_active_query := current_query\<rparr>) ` set moved"
    by (auto simp: old_def)
  moreover have "set scheduled \<subseteq> (if \<not> store_transaction \<and> ChangesMade t then {t\<lparr>tx_awaiting_cleanup := True\<rparr>} else {})"
    by (simp add: scheduled_def)
  moreover have "set (recently_committed_transactions m') \<subseteq> set recent" "set (old_transactions m') \<subseteq> set old"
    unfolding m' by (rule set_drop_subset)+
  ultimately show "\<exists>moved recent old free scheduled. set moved \<subseteq> set recent \<and> set free \<subseteq> set old \<and>
       set recent \<subseteq> set (recently_committed_transactions m) \<union> (if tx_commit_id t \<noteq> 0 then {t} else {}) \<and>
       set old \<subseteq> set (old_transactions m) \<union> (if tx_commit_id t = 0 then {t\<lparr>tx_highest_active_query := current_query\<rparr>} else {}) \<union>
         (\<lambda>u. u\<lparr>tx_awaiting_cleanup := True, tx_highest_active_query := current_query\<rparr>) ` set moved \<and>
       set scheduled \<subseteq> (if \<not> store_transaction \<and> ChangesMade t then {t\<lparr>tx_awaiting_cleanup := True\<rparr>} else {}) \<and>
       set (recently_committed_transactions m') \<subseteq> set recent \<and> set (old_transactions m') \<subseteq> set old \<and>
       cl_transactions info = scheduled @ free"
    using info by blast
qed

lemma settled_clock: "current_start_timestamp m' = current_start_timestamp m \<Longrightarrow> settled m' n mgr t = settled m n mgr t"
  by (simp add: settled_def)

lemma cleanup_ok_fewer:
  assumes "cleanup_ok m n mgr info" "settled m' n mgr = settled m n mgr" "starts m' \<subseteq> starts m"
  shows "cleanup_ok m' n mgr info"
  unfolding cleanup_ok_def assms(2)
proof (intro ballI impI)
  fix t
  assume "t \<in> set (cl_transactions info)" "tx_awaiting_cleanup t"
  then have "settled m n mgr t \<and> (\<forall>s \<in> starts m. cl_lowest_start_time info \<le> s \<or> tx_commit_id t < s)"
    using assms(1) unfolding cleanup_ok_def by blast
  then show "settled m n mgr t \<and> (\<forall>s \<in> starts m'. cl_lowest_start_time info \<le> s \<or> tx_commit_id t < s)"
    using assms(3) by blast
qed

text \<open>
  An ended transaction is kept or handed to the cleanup. One that committed is settled; the code
  never cleans up one that was rolled back.
\<close>

lemma RemoveTransaction_finished:
  assumes "RemoveTransaction current_query k store_transaction m = (info, m')" "finished_ok m n mgr" "t = active_transactions m ! k"
    and "tx_commit_id t \<noteq> 0 \<Longrightarrow> settled m n mgr t"
    and "tx_commit_id t = 0 \<Longrightarrow> \<not> tx_awaiting_cleanup t \<and> (store_transaction \<or> \<not> ChangesMade t)"
    and "starts m' \<subseteq> starts m"
  shows "finished_ok (schedule_cleanup info m') n mgr"
proof -
  define settle where "settle = settled m n mgr"
  note fields = RemoveTransaction_split [OF assms(1,3) refl]
  have ok: "\<forall>u \<in> set (recently_committed_transactions m). settle u" "\<forall>u \<in> set (old_transactions m). tx_awaiting_cleanup u \<longrightarrow> settle u"
    "\<forall>info \<in> set (cleanup_queue m). cleanup_ok m n mgr info"
    using assms(2) by (simp_all add: finished_ok_def settle_def)
  have t: "tx_commit_id t \<noteq> 0 \<Longrightarrow> settle t" using assms(4) by (simp add: settle_def)
  have same: "settle (u\<lparr>tx_awaiting_cleanup := a\<rparr>) = settle u" "settle (u\<lparr>tx_highest_active_query := q\<rparr>) = settle u" for u a q
    by (simp_all add: settle_def)
  obtain moved recent old free scheduled where lists: "set moved \<subseteq> set recent" "set free \<subseteq> set old"
    "set recent \<subseteq> set (recently_committed_transactions m) \<union> (if tx_commit_id t \<noteq> 0 then {t} else {})"
    "set old \<subseteq> set (old_transactions m) \<union> (if tx_commit_id t = 0 then {t\<lparr>tx_highest_active_query := current_query\<rparr>} else {}) \<union>
       (\<lambda>u. u\<lparr>tx_awaiting_cleanup := True, tx_highest_active_query := current_query\<rparr>) ` set moved"
    "set scheduled \<subseteq> (if \<not> store_transaction \<and> ChangesMade t then {t\<lparr>tx_awaiting_cleanup := True\<rparr>} else {})"
    "set (recently_committed_transactions m') \<subseteq> set recent" "set (old_transactions m') \<subseteq> set old" "cl_transactions info = scheduled @ free"
    using fields(6) by blast
  have recent: "settle u" if "u \<in> set recent" for u using that lists(3) ok(1) t by (auto split: if_split_asm)
  have old: "settle u" if u: "u \<in> set old" "tx_awaiting_cleanup u" for u
  proof -
    consider "u \<in> set (old_transactions m)" | "tx_commit_id t = 0" "u = t\<lparr>tx_highest_active_query := current_query\<rparr>"
      | v where "v \<in> set moved" "u = v\<lparr>tx_awaiting_cleanup := True, tx_highest_active_query := current_query\<rparr>"
      using subsetD [OF lists(4) u(1)] by (auto split: if_split_asm)
    then show ?thesis using u(2) ok(2) recent lists(1) assms(5) by cases (auto simp: same)
  qed
  have "settle u" if u: "u \<in> set scheduled" for u
  proof -
    have "u = t\<lparr>tx_awaiting_cleanup := True\<rparr>" "tx_commit_id t \<noteq> 0"
      using subsetD [OF lists(5) u] assms(5) by (auto split: if_split_asm)
    then show ?thesis using t by (simp add: same)
  qed
  then have new: "(\<forall>u \<in> set (recently_committed_transactions m'). settle u) \<and> (\<forall>u \<in> set (old_transactions m'). tx_awaiting_cleanup u \<longrightarrow> settle u) \<and>
      (\<forall>u \<in> set (cl_transactions info). tx_awaiting_cleanup u \<longrightarrow> settle u)"
    using subsetD [OF lists(2)] subsetD [OF lists(6)] subsetD [OF lists(7)] lists(8) recent old by (simp add: ball_Un)
  have low: "\<forall>s \<in> starts m'. cl_lowest_start_time info \<le> s"
    using conjunct2 [OF fold_min_le [of tx_start_time "active_transactions m'" TRANSACTION_ID_START]] fields(1,5) by simp
  have "settled m' n mgr = settle" using settled_clock [OF fields(2)] by (simp add: settle_def fun_eq_iff)
  moreover have "cleanup_ok m' n mgr info" using new low \<open>settled m' n mgr = settle\<close> by (simp add: cleanup_ok_def)
  moreover have "\<forall>info \<in> set (cleanup_queue m'). cleanup_ok m' n mgr info"
    using ok(3) cleanup_ok_fewer [OF _ _ assms(6), of n mgr] fields(4) \<open>settled m' n mgr = settle\<close> settle_def by simp
  ultimately have "finished_ok m' n mgr \<and> cleanup_ok m' n mgr info" using new by (simp add: finished_ok_def)
  then show ?thesis by (auto simp: schedule_cleanup_def finished_ok_def cleanup_ok_def settled_def)
qed

lemma schedule_cleanup_fields [simp]:
  "active_transactions (schedule_cleanup info m) = active_transactions m"
  "current_start_timestamp (schedule_cleanup info m) = current_start_timestamp m"
  "current_transaction_id (schedule_cleanup info m) = current_transaction_id m"
  by (simp_all add: schedule_cleanup_def)

end
