(* ===== verification/TransactionCommit.thy ===== *)
theory TransactionCommit
  imports TransactionEnd
begin

text \<open>
  What the undo buffer does to the row versions at a commit and at a rollback, and that these steps
  and the cleanup keep the invariant.
\<close>

subsection \<open>Replaying the deletes of an undo buffer\<close>

lemma entry_rows_place:
  assumes "delete_ok n del"
  shows "r \<in> set (entry_rows (DELETE_TUPLE del)) \<longleftrightarrow>
    r div STANDARD_VECTOR_SIZE = di_vector_idx del \<and> r mod STANDARD_VECTOR_SIZE \<in> set (deleted_rows del)"
proof
  assume "r \<in> set (entry_rows (DELETE_TUPLE del))"
  then obtain x where x: "x \<in> set (deleted_rows del)" "r = di_vector_idx del * STANDARD_VECTOR_SIZE + x" by auto
  then have "x < STANDARD_VECTOR_SIZE" using assms rows_in_le [of n "di_vector_idx del"] by (fastforce simp: delete_ok_def)
  then show "r div STANDARD_VECTOR_SIZE = di_vector_idx del \<and> r mod STANDARD_VECTOR_SIZE \<in> set (deleted_rows del)"
    using x by (simp add: row_place)
next
  assume r: "r div STANDARD_VECTOR_SIZE = di_vector_idx del \<and> r mod STANDARD_VECTOR_SIZE \<in> set (deleted_rows del)"
  have "r = r div STANDARD_VECTOR_SIZE * STANDARD_VECTOR_SIZE + r mod STANDARD_VECTOR_SIZE" by simp
  then show "r \<in> set (entry_rows (DELETE_TUPLE del))" using r by (auto simp: image_iff)
qed

lemma commit_delete:
  assumes "manager_ok n mgr" "delete_ok n del" "\<forall>r \<in> set (entry_rows (DELETE_TUPLE del)). row_del mgr r \<noteq> NOT_DELETED_ID"
  shows "\<exists>mgr'. CommitDelete (di_vector_idx del) v del mgr = Inr mgr' \<and> manager_ok n mgr' \<and>
    (\<forall>r < n. row_ins mgr' r = row_ins mgr r \<and>
       row_del mgr' r = (if r \<in> set (entry_rows (DELETE_TUPLE del)) then v else row_del mgr r))"
proof -
  have del: "di_is_consecutive del \<or> di_count del \<le> length (di_rows del)" "deleted_rows del \<noteq> []"
    "\<forall>x \<in> set (deleted_rows del). x < rows_in n (di_vector_idx del)"
    using assms(2) by (simp_all add: delete_ok_def)
  then obtain x where "x < rows_in n (di_vector_idx del)" by (metis list.set_intros(1) neq_Nil_conv)
  then have i: "di_vector_idx del * STANDARD_VECTOR_SIZE < n" using row_bounds(3) by (metis le_add1 le_less_trans)
  have "\<forall>x \<in> set (deleted_rows del). row_del mgr (di_vector_idx del * STANDARD_VECTOR_SIZE + x) \<noteq> NOT_DELETED_ID" using assms(3) by simp
  from CommitDelete_result [OF assms(1) i manager_ok_not_all_deleted [OF assms(1)] del(1,3) this, of v] show ?thesis
    unfolding entry_rows_place [OF assms(2)] .
qed

lemma commit_deletes:
  assumes "manager_ok n mgr" "\<forall>del \<in> set dels. delete_ok n del" "distinct (undo_rows (map DELETE_TUPLE dels))"
    and "\<forall>r \<in> set (undo_rows (map DELETE_TUPLE dels)). r < n \<and> row_del mgr r \<noteq> NOT_DELETED_ID"
  shows "\<exists>mgr'. fold_result (CommitEntry v) (map DELETE_TUPLE dels) mgr = Inr mgr' \<and> manager_ok n mgr' \<and>
    (\<forall>r < n. row_ins mgr' r = row_ins mgr r \<and>
       row_del mgr' r = (if r \<in> set (undo_rows (map DELETE_TUPLE dels)) then v else row_del mgr r))"
  using assms
proof (induction dels arbitrary: mgr)
  case (Cons del dels)
  let ?rows = "entry_rows (DELETE_TUPLE del)" and ?rest = "undo_rows (map DELETE_TUPLE dels)"
  have split: "undo_rows (map DELETE_TUPLE (del # dels)) = ?rows @ ?rest" by (simp del: entry_rows.simps)
  have "\<forall>r \<in> set ?rows. row_del mgr r \<noteq> NOT_DELETED_ID" using Cons.prems(4) unfolding split by (simp del: entry_rows.simps)
  then obtain mgr1 where step: "CommitDelete (di_vector_idx del) v del mgr = Inr mgr1" "manager_ok n mgr1"
    "\<forall>r < n. row_ins mgr1 r = row_ins mgr r \<and> row_del mgr1 r = (if r \<in> set ?rows then v else row_del mgr r)"
    using commit_delete [OF Cons.prems(1), of del v] Cons.prems(2) by auto
  have disjoint: "distinct ?rest" "set ?rows \<inter> set ?rest = {}" using Cons.prems(3) unfolding split by (simp_all del: entry_rows.simps)
  have "\<forall>r \<in> set ?rest. r < n \<and> row_del mgr1 r \<noteq> NOT_DELETED_ID"
    using Cons.prems(4) disjoint(2) step(3) unfolding split by (auto simp del: entry_rows.simps)
  then obtain mgr' where "fold_result (CommitEntry v) (map DELETE_TUPLE dels) mgr1 = Inr mgr'" "manager_ok n mgr'"
    "\<forall>r < n. row_ins mgr' r = row_ins mgr1 r \<and> row_del mgr' r = (if r \<in> set ?rest then v else row_del mgr1 r)"
    using Cons.IH [OF step(2) _ disjoint(1)] Cons.prems(2) by auto
  moreover have "CommitEntry v (DELETE_TUPLE del) mgr = Inr mgr1" using step(1) by (simp add: CommitEntry_def)
  ultimately show ?case using step(3) unfolding split by (intro exI [of _ mgr']) (simp del: entry_rows.simps)
qed simp

text \<open>A rollback does to the deletes what a commit with the id of rows that are not deleted would do.\<close>

lemma rollback_deletes:
  "fold_result RollbackEntry (map DELETE_TUPLE dels) (mgr, c) =
     bind_result (fold_result (CommitEntry NOT_DELETED_ID) (map DELETE_TUPLE dels) mgr) (\<lambda>mgr. Inr (mgr, c))"
proof (induction dels arbitrary: mgr)
  case (Cons del dels)
  then show ?case by (cases "CommitDelete (di_vector_idx del) NOT_DELETED_ID del mgr") (simp_all add: RollbackEntry_def CommitEntry_def)
qed simp

lemma undo_rows_rev: "set (undo_rows (rev undo)) = set (undo_rows undo)" "distinct (undo_rows (rev undo)) = distinct (undo_rows undo)"
  by (induction undo) auto

subsection \<open>Committing the undo buffer\<close>

lemma deletes_ok_deletes:
  assumes "deletes_ok i n mgr undo" "undo = map DELETE_TUPLE dels @ tail" "undo_rows tail = []" "i \<noteq> NOT_DELETED_ID"
  shows "\<forall>del \<in> set dels. delete_ok n del" "distinct (undo_rows (map DELETE_TUPLE dels))"
    "r \<in> set (undo_rows (map DELETE_TUPLE dels)) \<longleftrightarrow> r < n \<and> row_del mgr r = i"
    "\<forall>r \<in> set (undo_rows (map DELETE_TUPLE dels)). r < n \<and> row_del mgr r \<noteq> NOT_DELETED_ID"
  using assms by (auto simp: deletes_ok_def)

lemma commit_undo:
  assumes "undo_ok n mgr t" "manager_ok n mgr" "n \<le> 2 ^ 64" "tx_transaction_id t \<noteq> NOT_DELETED_ID" "tx_transaction_id t \<noteq> 0"
  shows "\<exists>mgr'. fold_result (CommitEntry c) (tx_undo t) mgr = Inr mgr' \<and> manager_ok n mgr' \<and>
    (\<forall>r < n. row_ins mgr' r = (if row_ins mgr r = tx_transaction_id t then c else row_ins mgr r) \<and>
       row_del mgr' r = (if row_del mgr r = tx_transaction_id t then c else row_del mgr r))"
proof -
  obtain dels where dels: "(tx_undo t = map DELETE_TUPLE dels \<and> (\<forall>r < n. row_ins mgr r \<noteq> tx_transaction_id t)) \<or>
      (\<exists>s k. tx_undo t = map DELETE_TUPLE dels @ [INSERT_TUPLE s k] \<and> 0 < k \<and> s + k = n \<and>
         (\<forall>r < n. row_ins mgr r = tx_transaction_id t \<longleftrightarrow> s \<le> r))"
    using assms(1) unfolding undo_ok_def by blast
  have ok: "deletes_ok (tx_transaction_id t) n mgr (tx_undo t)" using assms(1) by (simp add: undo_ok_def)
  obtain tail where tail: "tx_undo t = map DELETE_TUPLE dels @ tail" "undo_rows tail = []" using dels by auto
  note d = deletes_ok_deletes [OF ok tail assms(4)]
  obtain mgr1 where m1: "fold_result (CommitEntry c) (map DELETE_TUPLE dels) mgr = Inr mgr1" "manager_ok n mgr1"
    "\<forall>r < n. row_ins mgr1 r = row_ins mgr r \<and> row_del mgr1 r = (if row_del mgr r = tx_transaction_id t then c else row_del mgr r)"
    using commit_deletes [OF assms(2) d(1,2,4), of c] d(3) by auto
  show ?thesis
    using dels
  proof (elim disjE exE conjE)
    assume "tx_undo t = map DELETE_TUPLE dels" "\<forall>r < n. row_ins mgr r \<noteq> tx_transaction_id t"
    then show ?thesis using m1 by auto
  next
    fix s k
    assume ins: "tx_undo t = map DELETE_TUPLE dels @ [INSERT_TUPLE s k]" "0 < k" "s + k = n"
      "\<forall>r < n. row_ins mgr r = tx_transaction_id t \<longleftrightarrow> s \<le> r"
    have "\<forall>r < n. row_ins mgr1 r = tx_transaction_id t \<longleftrightarrow> s \<le> r \<and> r < s + k" using m1(3) ins(3,4) by simp
    from CommitAppend_result [OF m1(2) ins(2) eq_imp_le [OF ins(3)] assms(3) this assms(5), of c]
    obtain mgr' where m': "CommitAppend c s k mgr1 = Inr mgr'" "manager_ok n mgr'"
      "\<forall>r < n. row_ins mgr' r = (if s \<le> r \<and> r < s + k then c else row_ins mgr1 r) \<and> row_del mgr' r = row_del mgr1 r" by blast
    have "fold_result (CommitEntry c) (tx_undo t) mgr = Inr mgr'"
      using m1(1) m'(1) by (simp add: ins(1) fold_result_append CommitEntry_def)
    moreover have "\<forall>r < n. row_ins mgr' r = (if row_ins mgr r = tx_transaction_id t then c else row_ins mgr r) \<and>
       row_del mgr' r = (if row_del mgr r = tx_transaction_id t then c else row_del mgr r)"
      using m'(3) m1(3) ins(3,4) by simp
    ultimately show ?thesis using m'(2) by blast
  qed
qed

subsection \<open>Rolling the undo buffer back\<close>

text \<open>An append is only cut within a vector whose rows have ids of their own.\<close>

lemma constant_cut:
  assumes "\<forall>r < n. row_ins mgr r = i \<longleftrightarrow> s \<le> r" "s < n" "info_at (vm_vector_info mgr) (s div STANDARD_VECTOR_SIZE) = Some (ConstantInfo c)"
  shows "s mod STANDARD_VECTOR_SIZE = 0"
proof (rule ccontr)
  assume "s mod STANDARD_VECTOR_SIZE \<noteq> 0"
  moreover from this have "s \<noteq> 0" by (metis mod_0)
  ultimately have "s \<noteq> 0" "(s - 1) div STANDARD_VECTOR_SIZE = s div STANDARD_VECTOR_SIZE"
    using div_Suc [of "s - 1" STANDARD_VECTOR_SIZE] by (simp_all del: mod_greater_zero_iff_not_dvd)
  then have "row_ins mgr (s - 1) = row_ins mgr s" using assms(3) by (simp add: row_ins_def ins_at_def)
  moreover have "row_ins mgr s = i" "row_ins mgr (s - 1) \<noteq> i" using assms(1,2) \<open>s \<noteq> 0\<close> by auto
  ultimately show False by simp
qed

lemma rollback_undo_deletes:
  assumes "manager_ok n mgr" "deletes_ok i n mgr (map DELETE_TUPLE dels)" "i \<noteq> NOT_DELETED_ID"
  shows "\<exists>mgr'. fold_result RollbackEntry (rev (map DELETE_TUPLE dels)) (mgr, c) = Inr (mgr', c) \<and> manager_ok n mgr' \<and>
    (\<forall>r < n. row_ins mgr' r = row_ins mgr r \<and> row_del mgr' r = (if row_del mgr r = i then NOT_DELETED_ID else row_del mgr r))"
proof -
  note d = deletes_ok_deletes [OF assms(2), of dels "[]", OF _ _ assms(3)]
  have rows: "set (undo_rows (map DELETE_TUPLE (rev dels))) = set (undo_rows (map DELETE_TUPLE dels))"
    "distinct (undo_rows (map DELETE_TUPLE (rev dels))) = distinct (undo_rows (map DELETE_TUPLE dels))"
    using undo_rows_rev [of "map DELETE_TUPLE dels"] by (simp_all only: rev_map)
  have "\<exists>mgr'. fold_result (CommitEntry NOT_DELETED_ID) (map DELETE_TUPLE (rev dels)) mgr = Inr mgr' \<and> manager_ok n mgr' \<and>
    (\<forall>r < n. row_ins mgr' r = row_ins mgr r \<and>
       row_del mgr' r = (if r \<in> set (undo_rows (map DELETE_TUPLE (rev dels))) then NOT_DELETED_ID else row_del mgr r))"
    by (rule commit_deletes [OF assms(1)]) (use d in \<open>simp_all add: rows\<close>)
  then show ?thesis using d(3) unfolding rev_map rollback_deletes rows by auto
qed

lemma rollback_undo:
  assumes "undo_ok n mgr t" "manager_ok n mgr" "\<forall>r < n. row_ins mgr r = tx_transaction_id t \<longrightarrow> row_del mgr r = NOT_DELETED_ID"
    and "tx_transaction_id t \<noteq> NOT_DELETED_ID"
  shows "\<exists>mgr' n'. fold_result RollbackEntry (rev (tx_undo t)) (mgr, n) = Inr (mgr', n') \<and> manager_ok n' mgr' \<and> n' \<le> n \<and>
    (\<forall>r < n. row_ins mgr r = tx_transaction_id t \<longleftrightarrow> n' \<le> r) \<and>
    (\<forall>r < n'. row_ins mgr' r = row_ins mgr r \<and>
       row_del mgr' r = (if row_del mgr r = tx_transaction_id t then NOT_DELETED_ID else row_del mgr r))"
proof -
  let ?i = "tx_transaction_id t"
  have ok: "deletes_ok ?i n mgr (tx_undo t)" using assms(1) by (simp add: undo_ok_def)
  obtain dels where dels: "(tx_undo t = map DELETE_TUPLE dels \<and> (\<forall>r < n. row_ins mgr r \<noteq> ?i)) \<or>
      (\<exists>s k. tx_undo t = map DELETE_TUPLE dels @ [INSERT_TUPLE s k] \<and> 0 < k \<and> s + k = n \<and> (\<forall>r < n. row_ins mgr r = ?i \<longleftrightarrow> s \<le> r))"
    using assms(1) unfolding undo_ok_def by blast
  then show ?thesis
  proof (elim disjE exE conjE)
    assume none: "tx_undo t = map DELETE_TUPLE dels" "\<forall>r < n. row_ins mgr r \<noteq> ?i"
    obtain mgr' where "fold_result RollbackEntry (rev (tx_undo t)) (mgr, n) = Inr (mgr', n)" "manager_ok n mgr'"
      "\<forall>r < n. row_ins mgr' r = row_ins mgr r \<and> row_del mgr' r = (if row_del mgr r = ?i then NOT_DELETED_ID else row_del mgr r)"
      using rollback_undo_deletes [OF assms(2) _ assms(4)] ok none(1) by metis
    then show ?thesis using none(2) by (intro exI [of _ mgr'] exI [of _ n]) auto
  next
    fix s k
    assume ins: "tx_undo t = map DELETE_TUPLE dels @ [INSERT_TUPLE s k]" "0 < k" "s + k = n" "\<forall>r < n. row_ins mgr r = ?i \<longleftrightarrow> s \<le> r"
    let ?mgr = "VersionRevertAppend s mgr"
    have s: "s \<le> n" "s < n" "min s n = s" using ins(2,3) by simp_all
    have new: "\<forall>r. s \<le> r \<and> r < n \<longrightarrow> row_del mgr r = NOT_DELETED_ID" using assms(3) ins(4) by simp
    have cut: "\<forall>c. info_at (vm_vector_info mgr) (s div STANDARD_VECTOR_SIZE) = Some (ConstantInfo c) \<longrightarrow> s mod STANDARD_VECTOR_SIZE = 0"
      using constant_cut [OF ins(4) s(2)] by blast
    note r = VersionRevertAppend_result [OF assms(2) s(1) new cut]
    have "{r. r < s \<and> row_del ?mgr r = ?i} = {r. r < n \<and> row_del mgr r = ?i}"
    proof (rule Collect_cong)
      show "(x < s \<and> row_del ?mgr x = ?i) = (x < n \<and> row_del mgr x = ?i)" for x
        using spec [OF r(2), of x] spec [OF new, of x] s(1) assms(4) by (cases "x < s") auto
    qed
    then have "deletes_ok ?i s ?mgr (tx_undo t)" by (rule deletes_ok_transfer [OF ok])
    then have del_ok: "deletes_ok ?i s ?mgr (map DELETE_TUPLE dels)" by (simp add: ins(1) deletes_ok_def)
    obtain mgr' where mgr': "fold_result RollbackEntry (rev (map DELETE_TUPLE dels)) (?mgr, s) = Inr (mgr', s)" "manager_ok s mgr'"
      "\<forall>r < s. row_ins mgr' r = row_ins ?mgr r \<and> row_del mgr' r = (if row_del ?mgr r = ?i then NOT_DELETED_ID else row_del ?mgr r)"
      using rollback_undo_deletes [OF r(1) del_ok assms(4)] by metis
    have "RollbackEntry (INSERT_TUPLE s k) (mgr, n) = Inr (?mgr, s)" by (simp add: RollbackEntry_def s(3))
    then have "fold_result RollbackEntry (rev (tx_undo t)) (mgr, n) = Inr (mgr', s)" unfolding ins(1) rev_append using mgr'(1) by simp
    moreover have "\<forall>r < s. row_ins mgr' r = row_ins mgr r \<and> row_del mgr' r = (if row_del mgr r = ?i then NOT_DELETED_ID else row_del mgr r)"
      using mgr'(3) r(2) by simp
    ultimately show ?thesis using mgr'(2) ins(4) s(1) by blast
  qed
qed

subsection \<open>The other running transactions\<close>

lemma writer_last:
  assumes "undo_ok n mgr t" "r < n" "row_ins mgr r = tx_transaction_id t" "r \<le> r'" "r' < n"
  shows "row_ins mgr r' = tx_transaction_id t"
  using assms unfolding undo_ok_def by (auto intro: order_trans)

text \<open>Only one running transaction has rows in the row group.\<close>

lemma one_writer:
  assumes "undo_ok n mgr t" "undo_ok n mgr u" "r < n" "row_ins mgr r = tx_transaction_id t" "r' < n" "row_ins mgr r' = tx_transaction_id u"
  shows "tx_transaction_id u = tx_transaction_id t"
  using writer_last [OF assms(1,3,4), of "n - 1"] writer_last [OF assms(2,5,6), of "n - 1"] assms(3,5) by simp

lemma removed_ok:
  assumes "clock_ok m" "k < length (active_transactions m)"
    and "active_transactions m' = take k (active_transactions m) @ drop (k + 1) (active_transactions m)"
    and "current_start_timestamp m \<le> current_start_timestamp m'" "current_start_timestamp m' \<le> TRANSACTION_ID_START"
    and "current_transaction_id m' = current_transaction_id m"
  shows "clock_ok m'" "set (active_transactions m') = {u \<in> set (active_transactions m). tx_transaction_id u \<noteq> tx_transaction_id (active_transactions m ! k)}"
    "ids m' = ids m - {tx_transaction_id (active_transactions m ! k)}" "starts m' \<subseteq> starts m"
proof -
  have d: "distinct (map tx_transaction_id (active_transactions m))" using assms(1) by (simp add: clock_ok_def)
  note w = set_without [OF d assms(2), folded assms(3)]
  show set: "set (active_transactions m') = {u \<in> set (active_transactions m). tx_transaction_id u \<noteq> tx_transaction_id (active_transactions m ! k)}"
    by (rule w(1))
  then show "ids m' = ids m - {tx_transaction_id (active_transactions m ! k)}" "starts m' \<subseteq> starts m" by auto
  have "unat (current_start_timestamp m) \<le> unat (current_start_timestamp m')" using assms(4) by (simp add: word_le_nat_alt)
  then show "clock_ok m'"
    using assms(1,4-6) w(2) unfolding clock_ok_def set by (auto intro: order_less_le_trans)
qed

subsection \<open>The commit\<close>

text \<open>The ids of the rows before and after the transaction with the id \<open>i\<close> has committed at the time \<open>c\<close>.\<close>

definition commits :: "transaction_t \<Rightarrow> transaction_t \<Rightarrow> nat \<Rightarrow> RowVersionManager \<Rightarrow> RowVersionManager \<Rightarrow> bool" where
  "commits i c n mgr mgr' \<longleftrightarrow>
     (\<forall>r < n. row_ins mgr' r = (if row_ins mgr r = i then c else row_ins mgr r) \<and>
        row_del mgr' r = (if row_del mgr r = i then c else row_del mgr r))"

lemma commits_other:
  assumes "commits i c n mgr mgr'" "c \<noteq> j" "i \<noteq> j" "r < n"
  shows "row_ins mgr' r = j \<longleftrightarrow> row_ins mgr r = j" "row_del mgr' r = j \<longleftrightarrow> row_del mgr r = j"
  using assms by (simp_all add: commits_def)

lemma commit_rows_ok:
  assumes "clock_ok m" "rows_ok m n mgr" "\<forall>u \<in> set (active_transactions m). undo_ok n mgr u" "k < length (active_transactions m)"
    and "i = tx_transaction_id (active_transactions m ! k)" "c = current_start_timestamp m" "c < TRANSACTION_ID_START"
    and "manager_ok n mgr'" "commits i c n mgr mgr'"
    and "current_start_timestamp m' = c + 1" "ids m' = ids m - {i}" "starts m' \<subseteq> starts m"
  shows "rows_ok m' n mgr'"
proof -
  have t: "active_transactions m ! k \<in> set (active_transactions m)" "undo_ok n mgr (active_transactions m ! k)" "i \<in> ids m"
    using assms(3-5) by simp_all
  have ids: "row_ins mgr' r = (if row_ins mgr r = i then c else row_ins mgr r)" "row_del mgr' r = (if row_del mgr r = i then c else row_del mgr r)"
    if "r < n" for r using assms(9) that by (simp_all add: commits_def)
  have "unat c < 2 ^ 64 - 1" using clock_bounds(1) [OF assms(1)] by (simp add: assms(6))
  note later = word_Suc(2,3) [OF this]
  have i: "i \<noteq> NOT_DELETED_ID" "TRANSACTION_ID_START \<le> i" "\<not> i < c" using clock_bounds(3-5) [OF assms(1) t(3)] assms(6) by auto
  show ?thesis
    unfolding rows_ok_def assms(10,11)
  proof (intro conjI allI impI)
    show "manager_ok n mgr'" by (rule assms(8))
    fix r
    assume r: "r < n"
    show "row_ins mgr' r < c + 1 \<or> row_ins mgr' r \<in> ids m - {i}"
      using rows_okD(2) [OF assms(2) r] later by (auto simp: ids [OF r] assms(6))
    show "row_del mgr' r = NOT_DELETED_ID \<or> row_del mgr' r < c + 1 \<or> row_del mgr' r \<in> ids m - {i}"
      using rows_okD(3) [OF assms(2) r] later by (auto simp: ids [OF r] assms(6))
    have "c \<notin> starts m" using assms(1,6) by (auto simp: clock_ok_def)
    then show "row_ins mgr' r \<notin> starts m'" using rows_okD(6) [OF assms(2) r] assms(12) by (auto simp: ids [OF r])
    assume "TRANSACTION_ID_START \<le> row_ins mgr' r"
    then show "row_del mgr' r = NOT_DELETED_ID"
      using rows_okD(4) [OF assms(2) r] assms(7) i(1) by (auto simp: ids [OF r] split: if_split_asm)
  next
    fix r
    assume r: "r mod STANDARD_VECTOR_SIZE = 0 \<and> r + 1 < n"
    have le: "row_ins mgr r \<le> row_ins mgr (r + 1)" by (rule rows_okD(5) [OF assms(2)]) (use r in auto)
    have "row_ins mgr (r + 1) = i" if "row_ins mgr r = i" using writer_last [OF t(2)] that r assms(5) by simp
    moreover have "row_ins mgr r \<le> c" if last: "row_ins mgr (r + 1) = i" "row_ins mgr r \<noteq> i"
    proof -
      have "row_ins mgr r \<notin> ids m"
      proof
        assume "row_ins mgr r \<in> ids m"
        then obtain u where u: "u \<in> set (active_transactions m)" "row_ins mgr r = tx_transaction_id u" by auto
        then have "undo_ok n mgr u" using assms(3) by blast
        then have "tx_transaction_id u = i" using one_writer [OF t(2), of u "r + 1" r] r last(1) u(2) assms(5) by simp
        then show False using u(2) last(2) by simp
      qed
      then show ?thesis using rows_okD(2) [OF assms(2), of r] r assms(6) by auto
    qed
    ultimately show "row_ins mgr' r \<le> row_ins mgr' (r + 1)" using le r by (auto simp: ids)
  qed
qed

lemma finished_ok_later:
  assumes "finished_ok m n mgr" "\<And>t. settled m n mgr t \<Longrightarrow> settled m' n' mgr' t" "starts m' \<subseteq> starts m"
    and "recently_committed_transactions m' = recently_committed_transactions m" "old_transactions m' = old_transactions m"
    and "cleanup_queue m' = cleanup_queue m"
  shows "finished_ok m' n' mgr'"
proof -
  have "cleanup_ok m' n' mgr' info" if info: "cleanup_ok m n mgr info" for info
    unfolding cleanup_ok_def
  proof (intro ballI impI)
    fix t
    assume "t \<in> set (cl_transactions info)" "tx_awaiting_cleanup t"
    then have "settled m n mgr t" "\<forall>s \<in> starts m. cl_lowest_start_time info \<le> s \<or> tx_commit_id t < s"
      using info unfolding cleanup_ok_def by blast+
    then show "settled m' n' mgr' t \<and> (\<forall>s \<in> starts m'. cl_lowest_start_time info \<le> s \<or> tx_commit_id t < s)"
      using assms(2,3) by blast
  qed
  then show ?thesis using assms(1,2,4-6) by (simp add: finished_ok_def)
qed

lemma commit_settled:
  assumes "settled m n mgr u" "commits i c n mgr mgr'" "current_start_timestamp m \<le> i" "current_start_timestamp m \<le> current_start_timestamp m'"
  shows "settled m' n mgr' u"
proof -
  have "row_ins mgr' r \<le> tx_commit_id u" if "r < n" "row_ins mgr r \<le> tx_commit_id u" for r
  proof -
    have "row_ins mgr r \<noteq> i" using assms(1,3) that(2) unfolding settled_def by (meson leD order_le_less_trans)
    then show ?thesis using assms(2) that by (simp add: commits_def)
  qed
  then show ?thesis using assms(1,4) unfolding settled_def by (meson order_less_le_trans)
qed

lemma commit_own_settled:
  assumes "undo_ok n mgr t" "commits (tx_transaction_id t) c n mgr mgr'"
    and "\<forall>r < n. row_ins mgr r \<noteq> tx_transaction_id t \<longrightarrow> (\<exists>r' < n. row_ins mgr r' = tx_transaction_id t) \<longrightarrow> row_ins mgr r \<le> c"
    and "c < current_start_timestamp m"
  shows "settled m n mgr' (t\<lparr>tx_commit_id := c\<rparr>)"
proof -
  have "s + k \<le> n \<and> (\<forall>r < s + k. row_ins mgr' r \<le> c)" if ins: "INSERT_TUPLE s k \<in> set (tx_undo t)" for s k
  proof -
    have n: "s + k = n" "0 < k" "\<forall>r < n. row_ins mgr r = tx_transaction_id t \<longleftrightarrow> s \<le> r" using assms(1) ins by (auto simp: undo_ok_def)
    then have "row_ins mgr s = tx_transaction_id t" "s < n" by auto
    then have "row_ins mgr' r \<le> c" if "r < n" for r using assms(2,3) that by (auto simp: commits_def)
    then show ?thesis using n(1) by simp
  qed
  then show ?thesis using assms(4) by (simp add: settled_def)
qed

lemma schedule_ok: "clock_ok (schedule_cleanup info m) = clock_ok m" "rows_ok (schedule_cleanup info m) n mgr = rows_ok m n mgr"
  by (simp_all add: clock_ok_def rows_ok_def)

lemma RemoveTransaction_fields:
  assumes "RemoveTransaction current_query k store_transaction m = (info, m')"
  shows "active_transactions m' = take k (active_transactions m) @ drop (k + 1) (active_transactions m)"
    "current_start_timestamp m' = current_start_timestamp m" "current_transaction_id m' = current_transaction_id m"
  using RemoveTransaction_split [OF assms refl refl] by simp_all

lemma commit_step:
  assumes "db_ok size_max db" "k < length (active db)" "current_start_timestamp (db_manager db) < TRANSACTION_ID_START"
    and "size_max \<le> MAX_ROW_GROUP_SIZE" "t = active db ! k"
  shows "\<exists>db'. CommitTransaction current_query store_transaction k db = Inr db' \<and> db_ok size_max db' \<and>
    set (active db') = {u \<in> set (active db). tx_transaction_id u \<noteq> tx_transaction_id t} \<and>
    current_start_timestamp (db_manager db') = current_start_timestamp (db_manager db) + 1 \<and>
    db_rows db' = db_rows db \<and>
    commits (tx_transaction_id t) (current_start_timestamp (db_manager db)) (db_rows db) (db_versions db) (db_versions db')"
proof -
  let ?m = "db_manager db" and ?N = "db_rows db" and ?mgr = "db_versions db" and ?i = "tx_transaction_id t"
  define c where "c = current_start_timestamp ?m"
  have ok: "clock_ok ?m" "rows_ok ?m ?N ?mgr" "finished_ok ?m ?N ?mgr" "\<forall>u \<in> set (active db). undo_ok ?N ?mgr u" "?N \<le> size_max"
    using assms(1) by (simp_all add: db_ok_def)
  have t: "t \<in> set (active db)" "undo_ok ?N ?mgr t" "?i \<in> ids ?m" using assms(2,5) ok(4) by simp_all
  note i = clock_bounds(3-5) [OF ok(1) t(3)]
  have "?N \<le> 2 ^ 64" using ok(5) assms(4) by (simp add: MAX_ROW_GROUP_SIZE_def)
  moreover have "?i \<noteq> NOT_DELETED_ID" "?i \<noteq> 0" using i(1,3) id_bounds by auto
  ultimately obtain mgr' where mgr': "fold_result (CommitEntry c) (tx_undo t) ?mgr = Inr mgr'" "manager_ok ?N mgr'" "commits ?i c ?N ?mgr mgr'"
    using commit_undo [OF t(2) rows_okD(1) [OF ok(2)], of c] unfolding commits_def by blast
  let ?m1 = "?m\<lparr>current_start_timestamp := c + 1, last_commit := c, active_transactions := (active db)[k := t\<lparr>tx_commit_id := c\<rparr>]\<rparr>"
  obtain info m2 where remove: "RemoveTransaction current_query k store_transaction ?m1 = (info, m2)" by fastforce
  note m2 = RemoveTransaction_fields [OF remove]
  let ?db = "db\<lparr>db_manager := schedule_cleanup info m2, db_versions := mgr'\<rparr>"
  have commit: "CommitTransaction current_query store_transaction k db = Inr ?db"
  proof (cases "tx_undo t = []")
    case True
    then have "mgr' = ?mgr" using mgr'(1) by simp
    then have "db\<lparr>db_manager := schedule_cleanup info m2\<rparr> = ?db" by (intro version_db.equality) simp_all
    then show ?thesis using True remove
      by (simp add: CommitTransaction_def GetCommitTimestamp_def Let_def c_def [symmetric] assms(5) [symmetric] ChangesMade_def)
  next
    case False
    then show ?thesis using mgr'(1) remove
      by (simp add: CommitTransaction_def GetCommitTimestamp_def Let_def c_def [symmetric] assms(5) [symmetric] ChangesMade_def)
  qed
  have small: "unat c < 2 ^ 64 - 1" using clock_bounds(1) [OF ok(1)] by (simp add: c_def)
  note later = word_Suc [OF small]
  have le: "c + 1 \<le> TRANSACTION_ID_START" using assms(3) later(1) by (simp add: c_def word_less_nat_alt word_le_nat_alt)
  have rest: "active_transactions m2 = take k (active db) @ drop (k + 1) (active db)" using m2(1) by simp
  have clock: "current_start_timestamp m2 = c + 1" "current_transaction_id m2 = current_transaction_id ?m" using m2(2,3) by simp_all
  have mono: "current_start_timestamp ?m \<le> current_start_timestamp m2" "current_start_timestamp m2 \<le> TRANSACTION_ID_START"
    using clock later(2) le by (simp_all add: c_def less_imp_le)
  note removed = removed_ok [OF ok(1) assms(2) rest mono clock(2), folded assms(5)]
  have rows: "rows_ok m2 ?N mgr'"
    by (rule commit_rows_ok [OF ok(1,2,4) assms(2) _ c_def _ mgr'(2,3)]) (use removed assms(3,5) clock in \<open>simp_all add: c_def\<close>)
  have undo: "undo_ok ?N mgr' u" if "u \<in> set (active_transactions m2)" for u
  proof -
    have u: "u \<in> set (active db)" "tx_transaction_id u \<noteq> ?i" using that removed(2) by simp_all
    then have "c \<noteq> tx_transaction_id u" using clock_bounds(5) [OF ok(1), of "tx_transaction_id u"] assms(3) by (auto simp: c_def)
    then show ?thesis
      using undo_ok_transfer [of ?N ?mgr u mgr'] u(1) ok(4) commits_other [OF mgr'(3) _ u(2) [symmetric]] by blast
  qed
  have starts: "starts ?m1 = starts ?m" by (simp add: image_update_same assms(5))
  have "finished_ok ?m1 ?N mgr'"
    by (rule finished_ok_later [OF ok(3) commit_settled [OF _ mgr'(3)]]) (use i(2) mono(1) clock(1) starts in \<open>auto simp: not_less\<close>)
  moreover have "settled ?m1 ?N mgr' (t\<lparr>tx_commit_id := c\<rparr>)"
  proof (rule commit_own_settled [OF t(2) mgr'(3)])
    show "\<forall>r < ?N. row_ins ?mgr r \<noteq> ?i \<longrightarrow> (\<exists>r' < ?N. row_ins ?mgr r' = ?i) \<longrightarrow> row_ins ?mgr r \<le> c"
    proof (intro allI impI)
      fix r
      assume r: "r < ?N" "row_ins ?mgr r \<noteq> ?i" "\<exists>r' < ?N. row_ins ?mgr r' = ?i"
      then have "row_ins ?mgr r \<notin> ids ?m" using one_writer [OF t(2)] ok(4) by fastforce
      then show "row_ins ?mgr r \<le> c" using rows_okD(2) [OF ok(2) r(1)] by (simp add: c_def)
    qed
    show "c < current_start_timestamp ?m1" using later(2) by simp
  qed
  moreover have "c \<noteq> 0" using ok(1) by (auto simp: clock_ok_def c_def)
  moreover have "t\<lparr>tx_commit_id := c\<rparr> = active_transactions ?m1 ! k" "starts m2 \<subseteq> starts ?m1" using assms(2) removed(4) starts by auto
  ultimately have "finished_ok (schedule_cleanup info m2) ?N mgr'"
    by (intro RemoveTransaction_finished [OF remove]) auto
  then have "db_ok size_max ?db" using removed(1) rows undo ok(5) by (simp add: db_ok_def schedule_ok)
  then show ?thesis
    using commit removed(2) clock(1) mgr'(3) by (intro exI [of _ ?db]) (simp add: c_def)
qed

text \<open>What the others see after the commit, and what later transactions will.\<close>

lemma commit_seen:
  assumes "clock_ok m" "u \<in> set (active_transactions m)" "i \<in> ids m" "tx_transaction_id u \<noteq> i" "c = current_start_timestamp m" "c < TRANSACTION_ID_START"
    and "commits i c n mgr mgr'" "r < n"
  shows "sees (tx_data u) mgr' r = sees (tx_data u) mgr r"
proof -
  have "c \<noteq> tx_transaction_id u" using clock_bounds(5) [OF assms(1), of "tx_transaction_id u"] assms(2,6) by auto
  then have "\<not> UseVersion (tx_data u) c" using UseVersion_later [OF assms(1,2), of c] assms(5) by simp
  then show ?thesis using not_used_id [OF assms(1-4)] assms(7,8) by (simp add: sees_def commits_def)
qed

text \<open>No row has the time at which the next transaction starts or commits.\<close>

lemma row_tick:
  assumes "db_ok size_max db" "current_start_timestamp (db_manager db) < TRANSACTION_ID_START" "r < db_rows db"
  shows "row_ins (db_versions db) r < current_start_timestamp (db_manager db) + 1 \<longleftrightarrow> row_ins (db_versions db) r < current_start_timestamp (db_manager db)"
    "row_del (db_versions db) r < current_start_timestamp (db_manager db) + 1 \<longleftrightarrow> row_del (db_versions db) r < current_start_timestamp (db_manager db)"
proof -
  let ?m = "db_manager db" and ?c = "current_start_timestamp (db_manager db)"
  have ok: "clock_ok ?m" "rows_ok ?m (db_rows db) (db_versions db)" using assms(1) by (simp_all add: db_ok_def)
  have "unat ?c < 2 ^ 64 - 1" using clock_bounds(1) [OF ok(1)] by simp
  note later = word_Suc(3) [OF this]
  have c: "?c \<notin> ids ?m" using clock_bounds(5) [OF ok(1), of ?c] assms(2) by (metis leD)
  have "row_ins (db_versions db) r \<noteq> ?c" using rows_okD(2) [OF ok(2) assms(3)] c by (metis less_irrefl)
  moreover have "row_del (db_versions db) r \<noteq> ?c" using rows_okD(3) [OF ok(2) assms(3)] c clock_bounds(7) [OF ok(1)] assms(2) id_bounds(2) by (metis less_irrefl order_less_trans)
  ultimately show "row_ins (db_versions db) r < ?c + 1 \<longleftrightarrow> row_ins (db_versions db) r < ?c" "row_del (db_versions db) r < ?c + 1 \<longleftrightarrow> row_del (db_versions db) r < ?c"
    by (auto simp: later order_le_less)
qed

lemma commit_committed:
  assumes "db_ok size_max db" "t \<in> set (active db)" "commits (tx_transaction_id t) (current_start_timestamp (db_manager db)) (db_rows db) (db_versions db) (db_versions db')"
    and "db_rows db' = db_rows db" "current_start_timestamp (db_manager db') = current_start_timestamp (db_manager db) + 1"
    and "current_start_timestamp (db_manager db) < TRANSACTION_ID_START"
  shows "committed_rows db' = committed_rows db - deleted t db \<union> inserted t db"
proof -
  let ?m = "db_manager db" and ?N = "db_rows db" and ?mgr = "db_versions db" and ?i = "tx_transaction_id t" and ?c = "current_start_timestamp (db_manager db)"
  have ok: "clock_ok ?m" "rows_ok ?m ?N ?mgr" using assms(1) by (simp_all add: db_ok_def)
  have i: "?i \<in> ids ?m" using assms(2) by simp
  have "unat ?c < 2 ^ 64 - 1" using clock_bounds(1) [OF ok(1)] by simp
  note later = word_Suc(2) [OF this]
  have "r \<in> committed_rows db' \<longleftrightarrow> r \<in> committed_rows db - deleted t db \<union> inserted t db" for r
  proof (cases "r < ?N")
    case True
    have ids: "row_ins (db_versions db') r = (if row_ins ?mgr r = ?i then ?c else row_ins ?mgr r)"
      "row_del (db_versions db') r = (if row_del ?mgr r = ?i then ?c else row_del ?mgr r)"
      using assms(3) True by (simp_all add: commits_def)
    have "row_del ?mgr r = NOT_DELETED_ID" if "row_ins ?mgr r = ?i"
      using rows_okD(4) [OF ok(2) True] clock_bounds(5) [OF ok(1) i] that by simp
    then show ?thesis
      using True row_tick [OF assms(1,6) True] later clock_bounds(3,4) [OF ok(1) i] clock_bounds(7) [OF ok(1)]
      by (auto simp: committed_rows_def deleted_def inserted_def assms(4,5) ids)
  qed (simp add: committed_rows_def inserted_def assms(4))
  then show ?thesis by (rule set_eqI)
qed

end
