(* ===== verification/TransactionRollback.thy ===== *)
theory TransactionRollback
  imports TransactionCommit
begin

text \<open>
  The rollback of a transaction, and the cleanup of ended ones. Afterwards the rows are as if the
  transaction had not run, and no running transaction sees that versions were dropped.
\<close>

subsection \<open>The rollback\<close>

text \<open>The rows before and after the transaction with the id \<open>i\<close> is rolled rb: its own are gone.\<close>

definition rolls_back :: "transaction_t \<Rightarrow> nat \<Rightarrow> RowVersionManager \<Rightarrow> nat \<Rightarrow> RowVersionManager \<Rightarrow> bool" where
  "rolls_back i n mgr n' mgr' \<longleftrightarrow>
     n' \<le> n \<and> (\<forall>r < n. row_ins mgr r = i \<longleftrightarrow> n' \<le> r) \<and>
     (\<forall>r < n'. row_ins mgr' r = row_ins mgr r \<and> row_del mgr' r = (if row_del mgr r = i then NOT_DELETED_ID else row_del mgr r))"

lemma rolls_backD:
  assumes "rolls_back i n mgr n' mgr'" "r < n'"
  shows "r < n" "row_ins mgr r \<noteq> i" "row_ins mgr' r = row_ins mgr r" "row_del mgr' r = (if row_del mgr r = i then NOT_DELETED_ID else row_del mgr r)"
  using assms by (auto simp: rolls_back_def)

lemma rollback_rows_ok:
  assumes "rows_ok m n mgr" "manager_ok n' mgr'" "rolls_back i n mgr n' mgr'"
    and "current_start_timestamp m' = current_start_timestamp m" "ids m' = ids m - {i}" "starts m' \<subseteq> starts m"
  shows "rows_ok m' n' mgr'"
  unfolding rows_ok_def assms(4,5)
proof (intro conjI allI impI)
  show "manager_ok n' mgr'" by (rule assms(2))
  fix r
  assume r: "r < n'"
  note ids = rolls_backD [OF assms(3) r]
  show "row_ins mgr' r < current_start_timestamp m \<or> row_ins mgr' r \<in> ids m - {i}"
    using rows_okD(2) [OF assms(1) ids(1)] ids by simp
  show "row_del mgr' r = NOT_DELETED_ID \<or> row_del mgr' r < current_start_timestamp m \<or> row_del mgr' r \<in> ids m - {i}"
    using rows_okD(3) [OF assms(1) ids(1)] ids by simp
  show "row_ins mgr' r \<notin> starts m'" using rows_okD(6) [OF assms(1) ids(1)] ids assms(6) by auto
  assume "TRANSACTION_ID_START \<le> row_ins mgr' r"
  then show "row_del mgr' r = NOT_DELETED_ID" using rows_okD(4) [OF assms(1) ids(1)] ids by simp
next
  fix r
  assume r: "r mod STANDARD_VECTOR_SIZE = 0 \<and> r + 1 < n'"
  then have n': "r < n'" "r + 1 < n'" by simp_all
  have "row_ins mgr r \<le> row_ins mgr (r + 1)"
    by (rule rows_okD(5) [OF assms(1)]) (use r rolls_backD(1) [OF assms(3) n'(2)] in auto)
  then show "row_ins mgr' r \<le> row_ins mgr' (r + 1)"
    using rolls_backD(3) [OF assms(3) n'(1)] rolls_backD(3) [OF assms(3) n'(2)] by simp
qed

lemma rollback_settled:
  assumes "settled m n mgr u" "rolls_back i n mgr n' mgr'" "current_start_timestamp m \<le> i" "current_start_timestamp m' = current_start_timestamp m"
  shows "settled m' n' mgr' u"
proof -
  have "s + k \<le> n' \<and> (\<forall>r < s + k. row_ins mgr' r \<le> tx_commit_id u)" if "INSERT_TUPLE s k \<in> set (tx_undo u)" for s k
  proof -
    have u: "s + k \<le> n" "\<forall>r < s + k. row_ins mgr r \<le> tx_commit_id u" "tx_commit_id u < current_start_timestamp m"
      using assms(1) that by (auto simp: settled_def)
    have "r < n'" if "r < s + k" for r
    proof -
      have "row_ins mgr r \<noteq> i" using u(2,3) that assms(3) by (meson leD order_le_less_trans)
      then show ?thesis using assms(2) u(1) that by (auto simp: rolls_back_def not_less)
    qed
    then have "s + k \<le> n'" by (meson leI less_irrefl)
    then show ?thesis using u(2) rolls_backD(3) [OF assms(2)] by simp
  qed
  then show ?thesis using assms(1,4) by (simp add: settled_def)
qed

lemma rollback_undo_ok:
  assumes "undo_ok n mgr t" "undo_ok n mgr u" "rolls_back (tx_transaction_id t) n mgr n' mgr'" "tx_transaction_id u \<noteq> tx_transaction_id t"
    and "tx_transaction_id u \<noteq> NOT_DELETED_ID" "\<forall>r < n. row_ins mgr r = tx_transaction_id t \<longrightarrow> row_del mgr r = NOT_DELETED_ID"
  shows "undo_ok n' mgr' u"
proof -
  let ?i = "tx_transaction_id t" and ?j = "tx_transaction_id u"
  have "{r. r < n' \<and> row_del mgr' r = ?j} = {r. r < n \<and> row_del mgr r = ?j}"
  proof (rule Collect_cong)
    show "(r < n' \<and> row_del mgr' r = ?j) = (r < n \<and> row_del mgr r = ?j)" for r
    proof (cases "r < n'")
      case True
      then show ?thesis using rolls_backD [OF assms(3) True] assms(4,5) by auto
    next
      case False
      then have "row_ins mgr r = ?i" if "r < n" using assms(3) that by (simp add: rolls_back_def)
      then show ?thesis using False assms(5,6) by auto
    qed
  qed
  then have del: "deletes_ok ?j n' mgr' (tx_undo u)" using deletes_ok_transfer assms(2) by (auto simp: undo_ok_def)
  obtain dels where dels: "(tx_undo u = map DELETE_TUPLE dels \<and> (\<forall>r < n. row_ins mgr r \<noteq> ?j)) \<or>
      (\<exists>s k. tx_undo u = map DELETE_TUPLE dels @ [INSERT_TUPLE s k] \<and> 0 < k \<and> s + k = n \<and> (\<forall>r < n. row_ins mgr r = ?j \<longleftrightarrow> s \<le> r))"
    using assms(2) unfolding undo_ok_def by blast
  then show ?thesis
  proof (elim disjE exE conjE)
    assume "tx_undo u = map DELETE_TUPLE dels" "\<forall>r < n. row_ins mgr r \<noteq> ?j"
    then show ?thesis using undo_ok_deletes [OF _ del] rolls_backD(1,3) [OF assms(3)] by metis
  next
    fix s k
    assume ins: "tx_undo u = map DELETE_TUPLE dels @ [INSERT_TUPLE s k]" "0 < k" "s + k = n" "\<forall>r < n. row_ins mgr r = ?j \<longleftrightarrow> s \<le> r"
    have "n' = n"
    proof (rule ccontr)
      assume "n' \<noteq> n"
      then have "n' < n" "row_ins mgr n' = ?i" using assms(3) by (auto simp: rolls_back_def)
      moreover have "s < n" "row_ins mgr s = ?j" using ins(2-4) by auto
      ultimately show False using one_writer [OF assms(1,2), of n' s] assms(4) by simp
    qed
    then have "\<forall>r < n'. row_ins mgr' r = ?j \<longleftrightarrow> s \<le> r" "s + k = n'" using ins(3,4) rolls_backD(3) [OF assms(3)] by simp_all
    then show ?thesis using del ins(1,2) unfolding undo_ok_def by blast
  qed
qed

lemma rollback_step:
  assumes "db_ok size_max db" "k < length (active db)" "t = active db ! k"
  shows "\<exists>db'. RollbackTransaction current_query k db = Inr db' \<and> db_ok size_max db' \<and>
    set (active db') = {u \<in> set (active db). tx_transaction_id u \<noteq> tx_transaction_id t} \<and>
    current_start_timestamp (db_manager db') = current_start_timestamp (db_manager db) \<and>
    rolls_back (tx_transaction_id t) (db_rows db) (db_versions db) (db_rows db') (db_versions db')"
proof -
  let ?m = "db_manager db" and ?N = "db_rows db" and ?mgr = "db_versions db" and ?i = "tx_transaction_id t"
  have ok: "clock_ok ?m" "rows_ok ?m ?N ?mgr" "finished_ok ?m ?N ?mgr" "\<forall>u \<in> set (active db). undo_ok ?N ?mgr u" "?N \<le> size_max"
    using assms(1) by (simp_all add: db_ok_def)
  have t: "t \<in> set (active db)" "undo_ok ?N ?mgr t" "?i \<in> ids ?m" using assms(2,3) ok(4) by simp_all
  note i = clock_bounds(3-5) [OF ok(1) t(3)]
  have own: "\<forall>r < ?N. row_ins ?mgr r = ?i \<longrightarrow> row_del ?mgr r = NOT_DELETED_ID" using rows_okD(4) [OF ok(2)] i(3) by simp
  have "?i \<noteq> NOT_DELETED_ID" using i(1) by auto
  from rollback_undo [OF t(2) rows_okD(1) [OF ok(2)] own this]
  obtain mgr' n' where rb: "fold_result RollbackEntry (rev (tx_undo t)) (?mgr, ?N) = Inr (mgr', n')" "manager_ok n' mgr'" "rolls_back ?i ?N ?mgr n' mgr'"
    unfolding rolls_back_def by blast
  obtain info m2 where remove: "RemoveTransaction current_query k (ChangesMade t) ?m = (info, m2)" by fastforce
  note m2 = RemoveTransaction_fields [OF remove]
  let ?db = "db\<lparr>db_manager := schedule_cleanup info m2, db_versions := mgr', db_rows := n'\<rparr>"
  have run: "RollbackTransaction current_query k db = Inr ?db"
    using rb(1) remove by (simp add: RollbackTransaction_def Let_def assms(3) [symmetric])
  have clock: "current_start_timestamp ?m \<le> current_start_timestamp m2" "current_start_timestamp m2 \<le> TRANSACTION_ID_START"
    using ok(1) m2(2) by (simp_all add: clock_ok_def)
  note removed = removed_ok [OF ok(1) assms(2) m2(1) clock m2(3), folded assms(3)]
  have rows: "rows_ok m2 n' mgr'" by (rule rollback_rows_ok [OF ok(2) rb(2,3) m2(2) removed(3,4)])
  have undo: "undo_ok n' mgr' u" if "u \<in> set (active_transactions m2)" for u
  proof -
    have u: "u \<in> set (active db)" "tx_transaction_id u \<noteq> ?i" using that removed(2) by simp_all
    then have "tx_transaction_id u \<noteq> NOT_DELETED_ID" using clock_bounds(3) [OF ok(1), of "tx_transaction_id u"] by auto
    then show ?thesis using rollback_undo_ok [OF t(2) _ rb(3) u(2) _ own] ok(4) u(1) by blast
  qed
  have "current_start_timestamp ?m \<le> ?i" using i(2) by (simp add: not_less)
  then have "finished_ok ?m n' mgr'"
    by (intro finished_ok_mono [OF ok(3)] rollback_settled [OF _ rb(3) _ refl])
  moreover have "tx_commit_id t = 0" "\<not> tx_awaiting_cleanup t" using ok(1) t(1) by (simp_all add: clock_ok_def)
  ultimately have "finished_ok (schedule_cleanup info m2) n' mgr'"
    by (intro RemoveTransaction_finished [OF remove _ assms(3)]) (use removed(4) in auto)
  moreover have "n' \<le> size_max" using rb(3) ok(5) by (simp add: rolls_back_def)
  ultimately have "db_ok size_max ?db" using removed(1) rows undo by (simp add: db_ok_def schedule_ok)
  then show ?thesis using run removed(2) m2(2) rb(3) by (intro exI [of _ ?db]) simp
qed

text \<open>The others, and later transactions, see the rows as before.\<close>

lemma rollback_seen:
  assumes "clock_ok m" "u \<in> set (active_transactions m)" "i \<in> ids m" "tx_transaction_id u \<noteq> i" "rolls_back i n mgr n' mgr'"
  shows "(r < n' \<and> sees (tx_data u) mgr' r) = (r < n \<and> sees (tx_data u) mgr r)"
proof (cases "r < n'")
  case True
  then show ?thesis using rolls_backD [OF assms(5) True] not_used_id [OF assms(1-4)] not_used_NOT_DELETED [OF assms(1,2)] by (simp add: sees_def)
next
  case False
  then have "row_ins mgr r = i" if "r < n" using assms(5) that by (simp add: rolls_back_def)
  then show ?thesis using False not_used_id [OF assms(1-4)] by (auto simp: sees_def)
qed

lemma rollback_committed:
  assumes "clock_ok (db_manager db)" "i \<in> ids (db_manager db)" "rolls_back i (db_rows db) (db_versions db) (db_rows db') (db_versions db')"
    and "current_start_timestamp (db_manager db') = current_start_timestamp (db_manager db)"
  shows "committed_rows db' = committed_rows db"
proof -
  note i = clock_bounds(4) [OF assms(1,2)] clock_bounds(7) [OF assms(1)]
  have "r \<in> committed_rows db' \<longleftrightarrow> r \<in> committed_rows db" for r
  proof (cases "r < db_rows db'")
    case True
    then show ?thesis using rolls_backD [OF assms(3) True] i by (simp add: committed_rows_def assms(4))
  next
    case False
    then have "row_ins (db_versions db) r = i" if "r < db_rows db" using assms(3) that by (simp add: rolls_back_def)
    then show ?thesis using False i by (auto simp: committed_rows_def)
  qed
  then show ?thesis by (rule set_eqI)
qed

subsection \<open>The cleanup\<close>

text \<open>The rows of some vectors lose ids that every running transaction saw as inserted and not deleted.\<close>

definition harmless :: "DuckTransactionManager \<Rightarrow> nat \<Rightarrow> RowVersionManager \<Rightarrow> RowVersionManager \<Rightarrow> bool" where
  "harmless m n mgr mgr' \<longleftrightarrow>
     manager_ok n mgr' \<and>
     (\<exists>V. \<forall>r < n. if r div STANDARD_VECTOR_SIZE \<in> V
        then row_ins mgr' r = 0 \<and> row_del mgr' r = NOT_DELETED_ID \<and> row_del mgr r = NOT_DELETED_ID \<and>
          row_ins mgr r < current_start_timestamp m \<and> (\<forall>s \<in> starts m. row_ins mgr r < s)
        else row_ins mgr' r = row_ins mgr r \<and> row_del mgr' r = row_del mgr r)"

lemma harmlessD:
  assumes "harmless m n mgr mgr'" "r < n"
  shows "row_del mgr' r = row_del mgr r"
    "row_ins mgr' r = row_ins mgr r \<or>
       (row_ins mgr' r = 0 \<and> row_del mgr r = NOT_DELETED_ID \<and> row_ins mgr r < current_start_timestamp m \<and> (\<forall>s \<in> starts m. row_ins mgr r < s))"
  using assms unfolding harmless_def by metis+

lemma harmless_refl: "manager_ok n mgr \<Longrightarrow> harmless m n mgr mgr"
  unfolding harmless_def by (auto intro!: exI [of _ "{}"])

lemma harmless_trans:
  assumes "harmless m n mgr mgr1" "harmless m n mgr1 mgr2"
  shows "harmless m n mgr mgr2"
proof -
  let ?S = STANDARD_VECTOR_SIZE
  obtain V W where V: "\<forall>r < n. if r div ?S \<in> V
        then row_ins mgr1 r = 0 \<and> row_del mgr1 r = NOT_DELETED_ID \<and> row_del mgr r = NOT_DELETED_ID \<and>
          row_ins mgr r < current_start_timestamp m \<and> (\<forall>s \<in> starts m. row_ins mgr r < s)
        else row_ins mgr1 r = row_ins mgr r \<and> row_del mgr1 r = row_del mgr r"
    and W: "\<forall>r < n. if r div ?S \<in> W
        then row_ins mgr2 r = 0 \<and> row_del mgr2 r = NOT_DELETED_ID \<and> row_del mgr1 r = NOT_DELETED_ID \<and>
          row_ins mgr1 r < current_start_timestamp m \<and> (\<forall>s \<in> starts m. row_ins mgr1 r < s)
        else row_ins mgr2 r = row_ins mgr1 r \<and> row_del mgr2 r = row_del mgr1 r"
    using assms unfolding harmless_def by blast
  have "if r div ?S \<in> V \<union> W
        then row_ins mgr2 r = 0 \<and> row_del mgr2 r = NOT_DELETED_ID \<and> row_del mgr r = NOT_DELETED_ID \<and>
          row_ins mgr r < current_start_timestamp m \<and> (\<forall>s \<in> starts m. row_ins mgr r < s)
        else row_ins mgr2 r = row_ins mgr r \<and> row_del mgr2 r = row_del mgr r" if "r < n" for r
    using spec [OF V, of r] spec [OF W, of r] that by (cases "r div ?S \<in> V"; cases "r div ?S \<in> W") simp_all
  then show ?thesis using assms(2) unfolding harmless_def by blast
qed

lemma harmless_rows_ok:
  assumes "clock_ok m" "rows_ok m n mgr" "harmless m n mgr mgr'"
  shows "rows_ok m n mgr'"
  unfolding rows_ok_def
proof (intro conjI allI impI)
  show "manager_ok n mgr'" using assms(3) by (simp add: harmless_def)
  fix r
  assume r: "r < n"
  note h = harmlessD [OF assms(3) r] and ok = rows_okD [OF assms(2)]
  have zero: "0 < current_start_timestamp m" "0 \<notin> starts m" using assms(1) by (auto simp: clock_ok_def)
  show "row_ins mgr' r < current_start_timestamp m \<or> row_ins mgr' r \<in> ids m" using h(2) ok(2) [OF r] zero by metis
  show "row_del mgr' r = NOT_DELETED_ID \<or> row_del mgr' r < current_start_timestamp m \<or> row_del mgr' r \<in> ids m" using h(1) ok(3) [OF r] by simp
  show "row_ins mgr' r \<notin> starts m" using h(2) ok(6) [OF r] zero by metis
  assume "TRANSACTION_ID_START \<le> row_ins mgr' r"
  then show "row_del mgr' r = NOT_DELETED_ID" using h ok(4) [OF r] by metis
next
  fix r
  assume r: "r mod STANDARD_VECTOR_SIZE = 0 \<and> r + 1 < n"
  then have r': "r < n" "r + 1 < n" by simp_all
  have le: "row_ins mgr r \<le> row_ins mgr (r + 1)" by (rule rows_okD(5) [OF assms(2)]) (use r in auto)
  have "1 < STANDARD_VECTOR_SIZE" by (simp add: STANDARD_VECTOR_SIZE_def)
  then have same: "(r + 1) div STANDARD_VECTOR_SIZE = r div STANDARD_VECTOR_SIZE" using r by (auto simp: div_Suc mod_Suc)
  show "row_ins mgr' r \<le> row_ins mgr' (r + 1)"
    using assms(3) r' le same unfolding harmless_def by (metis order_refl)
qed

lemma harmless_settled:
  assumes "settled m n mgr t" "harmless m n mgr mgr'"
  shows "settled m n mgr' t"
proof -
  have "row_ins mgr' r \<le> tx_commit_id t" if "r < n" "row_ins mgr r \<le> tx_commit_id t" for r
    using harmlessD(2) [OF assms(2) that(1)] that(2) by auto
  then show ?thesis using assms(1) unfolding settled_def by (meson order_less_le_trans)
qed

lemma harmless_undo_ok:
  assumes "clock_ok m" "undo_ok n mgr t" "t \<in> set (active_transactions m)" "harmless m n mgr mgr'"
  shows "undo_ok n mgr' t"
proof -
  have i: "tx_transaction_id t \<in> ids m" using assms(3) by simp
  have "tx_transaction_id t \<noteq> 0" "\<not> tx_transaction_id t < current_start_timestamp m"
    using clock_bounds(4,5) [OF assms(1) i] id_bounds by auto
  then have "row_ins mgr' r = tx_transaction_id t \<longleftrightarrow> row_ins mgr r = tx_transaction_id t" if "r < n" for r
    using harmlessD(2) [OF assms(4) that] by metis
  then show ?thesis using undo_ok_transfer [OF assms(2)] harmlessD(1) [OF assms(4)] by simp
qed

lemma harmless_seen:
  assumes "clock_ok m" "t \<in> set (active_transactions m)" "harmless m n mgr mgr'" "r < n"
  shows "sees (tx_data t) mgr' r = sees (tx_data t) mgr r"
proof -
  have "UseVersion (tx_data t) 0" using running_UseVersion(1) [OF active_running [OF assms(1,2)]] .
  moreover have "tx_start_time t \<in> starts m" using assms(2) by simp
  ultimately show ?thesis using harmlessD [OF assms(3,4)] by (auto simp: sees_def UseVersion_iff tx_data_def)
qed

lemma cleaned_harmless:
  assumes "clock_ok m" "rows_ok m n mgr" "settled m n mgr t" "INSERT_TUPLE s k \<in> set (tx_undo t)" "n \<le> 2 ^ 64"
    and "\<forall>s \<in> starts m. lowest \<le> s \<or> tx_commit_id t < s"
  shows "harmless m n mgr (CleanupAppend lowest s k mgr)"
proof -
  let ?S = STANDARD_VECTOR_SIZE
  have t: "s + k \<le> n" "\<forall>r < s + k. row_ins mgr r \<le> tx_commit_id t" "tx_commit_id t < current_start_timestamp m"
    using assms(3,4) by (auto simp: settled_def)
  obtain V where V: "cleaned_vectors V lowest (s + k) n mgr (CleanupAppend lowest s k mgr)"
    using CleanupAppend_cleaned [OF rows_okD(1) [OF assms(2)] t(1) assms(5)] by blast
  have old: "row_del mgr r = NOT_DELETED_ID \<and> row_ins mgr r < current_start_timestamp m \<and> (\<forall>x \<in> starts m. row_ins mgr r < x)"
    if r: "unneeded lowest (s + k) mgr r" for r
  proof -
    have n: "r < s + k" "r < n" using r t(1) by (simp_all add: unneeded_def)
    have "row_ins mgr r \<le> lowest"
    proof (cases "row_ins mgr r \<le> lowest")
      case False
      then have nxt: "r mod ?S = 0" "r + 1 < s + k" "row_ins mgr (r + 1) \<le> lowest" using r by (simp_all add: unneeded_def)
      have "row_ins mgr r \<le> row_ins mgr (r + 1)" by (rule rows_okD(5) [OF assms(2) nxt(1)]) (use nxt(2) t(1) in simp)
      then show ?thesis using nxt(3) by (rule order_trans)
    qed
    moreover have "row_ins mgr r \<le> tx_commit_id t" using t(2) n(1) by blast
    moreover have "row_ins mgr r \<notin> starts m" by (rule rows_okD(6) [OF assms(2) n(2)])
    ultimately have "row_ins mgr r < x" if "x \<in> starts m" for x
      using assms(6) that by (metis order_le_imp_less_or_eq order_le_less_trans order_trans)
    then show ?thesis using r t(3) \<open>row_ins mgr r \<le> tx_commit_id t\<close> by (auto simp: unneeded_def)
  qed
  then show ?thesis using V unfolding harmless_def cleaned_vectors_def by (intro conjI exI [of _ V]) simp_all
qed

lemma cleanup_entries:
  assumes "clock_ok m" "rows_ok m n mgr" "settled m n mgr t" "set entries \<subseteq> set (tx_undo t)" "n \<le> 2 ^ 64"
    and "\<forall>s \<in> starts m. lowest \<le> s \<or> tx_commit_id t < s"
  shows "harmless m n mgr (fold (CleanupEntry lowest) entries mgr)"
  using assms
proof (induction entries arbitrary: mgr)
  case Nil
  then show ?case using harmless_refl rows_okD(1) by simp
next
  case (Cons entry entries)
  have step: "harmless m n mgr (CleanupEntry lowest entry mgr)"
  proof (cases entry)
    case (INSERT_TUPLE s k)
    then show ?thesis
      using cleaned_harmless [OF Cons.prems(1-3) _ Cons.prems(5,6), of s k] Cons.prems(4) by (simp add: CleanupEntry_def)
  qed (simp add: CleanupEntry_def harmless_refl rows_okD(1) [OF Cons.prems(2)])
  have "set entries \<subseteq> set (tx_undo t)" using Cons.prems(4) by simp
  from Cons.IH [OF Cons.prems(1) harmless_rows_ok [OF Cons.prems(1,2) step] harmless_settled [OF Cons.prems(3) step] this Cons.prems(5,6)]
  show ?case using harmless_trans [OF step] by simp
qed

lemma Cleanup_harmless:
  assumes "clock_ok m" "rows_ok m n mgr" "cleanup_ok m n mgr info" "n \<le> 2 ^ 64"
  shows "harmless m n mgr (Cleanup info mgr)"
proof -
  let ?step = "\<lambda>t mgr. if tx_awaiting_cleanup t then fold (CleanupEntry (cl_lowest_start_time info)) (tx_undo t) mgr else mgr"
  have "harmless m n mgr (fold ?step ts mgr)" if "set ts \<subseteq> set (cl_transactions info)" "rows_ok m n mgr" "cleanup_ok m n mgr info" for ts mgr
    using that
  proof (induction ts arbitrary: mgr)
    case Nil
    then show ?case using harmless_refl rows_okD(1) by simp
  next
    case (Cons t ts)
    have step: "harmless m n mgr (?step t mgr)"
    proof (cases "tx_awaiting_cleanup t")
      case True
      then have "settled m n mgr t" "\<forall>s \<in> starts m. cl_lowest_start_time info \<le> s \<or> tx_commit_id t < s"
        using Cons.prems(1,3) unfolding cleanup_ok_def by (meson list.set_intros(1) subsetD)+
      then show ?thesis using cleanup_entries [OF assms(1) Cons.prems(2) _ subset_refl assms(4)] True by simp
    qed (simp add: harmless_refl rows_okD(1) [OF Cons.prems(2)])
    have "cleanup_ok m n (?step t mgr) info"
      using Cons.prems(3) harmless_settled [OF _ step] unfolding cleanup_ok_def by blast
    moreover have "set ts \<subseteq> set (cl_transactions info)" using Cons.prems(1) by simp
    ultimately have "harmless m n (?step t mgr) (fold ?step ts (?step t mgr))"
      using Cons.IH harmless_rows_ok [OF assms(1) Cons.prems(2) step] by blast
    then show ?case using harmless_trans [OF step] by simp
  qed
  then show ?thesis using assms(2,3) by (simp add: Cleanup_def)
qed

lemma cleanup_step:
  assumes "db_ok size_max db" "cleanup_queue (db_manager db) = info # rest" "size_max \<le> MAX_ROW_GROUP_SIZE"
    and "db' = db\<lparr>db_versions := Cleanup info (db_versions db), db_manager := (db_manager db)\<lparr>cleanup_queue := rest\<rparr>\<rparr>"
  shows "db_ok size_max db'" "harmless (db_manager db) (db_rows db) (db_versions db) (db_versions db')" "committed_rows db' = committed_rows db"
proof -
  let ?m = "db_manager db" and ?N = "db_rows db" and ?mgr = "db_versions db" and ?m' = "(db_manager db)\<lparr>cleanup_queue := rest\<rparr>"
  have ok: "clock_ok ?m" "rows_ok ?m ?N ?mgr" "finished_ok ?m ?N ?mgr" "\<forall>u \<in> set (active db). undo_ok ?N ?mgr u" "?N \<le> size_max"
    using assms(1) by (simp_all add: db_ok_def)
  have "?N \<le> 2 ^ 64" using ok(5) assms(3) by (simp add: MAX_ROW_GROUP_SIZE_def)
  moreover have "cleanup_ok ?m ?N ?mgr info" using ok(3) assms(2) by (simp add: finished_ok_def)
  ultimately have h: "harmless ?m ?N ?mgr (Cleanup info ?mgr)" using Cleanup_harmless ok(1,2) by blast
  have "finished_ok ?m ?N (Cleanup info ?mgr)" by (rule finished_ok_mono [OF ok(3)]) (rule harmless_settled [OF _ h])
  then have "finished_ok ?m' ?N (Cleanup info ?mgr)" using assms(2) by (simp add: finished_ok_def cleanup_ok_def settled_def)
  moreover have "clock_ok ?m'" "rows_ok ?m' ?N (Cleanup info ?mgr)"
    using ok(1) harmless_rows_ok [OF ok(1,2) h] by (simp_all add: clock_ok_def rows_ok_def)
  moreover have "\<forall>u \<in> set (active db). undo_ok ?N (Cleanup info ?mgr) u" using harmless_undo_ok [OF ok(1) _ _ h] ok(4) by blast
  ultimately show "db_ok size_max db'" using ok(5) by (simp add: db_ok_def assms(4))
  show "harmless ?m ?N ?mgr (db_versions db')" using h by (simp add: assms(4))
  have "0 < current_start_timestamp ?m" using ok(1) by (simp add: clock_ok_def)
  then show "committed_rows db' = committed_rows db"
    using harmlessD [OF h] unfolding committed_rows_def assms(4) by (intro Collect_cong) (simp, metis)
qed

end
