(* ===== verification/TransactionSpec.thy ===== *)
theory TransactionSpec
  imports TransactionRollback
begin

text \<open>
  What the transactions promise, without versions: each works on its own set of rows, taken when it
  starts, and its changes reach the common set at once, when it commits. Every step of the code is
  a step of this specification.
\<close>

subsection \<open>The specification\<close>

record snapshot =
  sn_seen :: "nat set"
  sn_inserted :: "nat set"
  sn_deleted :: "nat set"

record snapshot_db =
  sd_rows :: "nat set"
  sd_running :: "transaction_t \<Rightarrow> snapshot option"

definition set_running :: "transaction_t \<Rightarrow> snapshot option \<Rightarrow> snapshot_db \<Rightarrow> snapshot_db" where
  "set_running i v s = s\<lparr>sd_running := (sd_running s)(i := v)\<rparr>"

text \<open>
  Inserted rows are new. A transaction deletes rows that it sees and that are still there, and that
  no other running transaction deletes: the first one wins.
\<close>

inductive snapshot_step :: "snapshot_db \<Rightarrow> snapshot_db \<Rightarrow> bool" where
  snapshot_begin: "sd_running s i = None \<Longrightarrow>
    snapshot_step s (set_running i (Some \<lparr>sn_seen = sd_rows s, sn_inserted = {}, sn_deleted = {}\<rparr>) s)"
| snapshot_insert: "sd_running s i = Some v \<Longrightarrow> R \<inter> sd_rows s = {} \<Longrightarrow> \<forall>w \<in> ran (sd_running s). R \<inter> (sn_seen w \<union> sn_inserted w) = {} \<Longrightarrow>
    snapshot_step s (set_running i (Some (v\<lparr>sn_seen := sn_seen v \<union> R, sn_inserted := sn_inserted v \<union> R\<rparr>)) s)"
| snapshot_delete: "sd_running s i = Some v \<Longrightarrow> R \<subseteq> sn_seen v \<inter> sd_rows s \<Longrightarrow> \<forall>w \<in> ran (sd_running s). R \<inter> sn_deleted w = {} \<Longrightarrow>
    snapshot_step s (set_running i (Some (v\<lparr>sn_seen := sn_seen v - R, sn_deleted := sn_deleted v \<union> R\<rparr>)) s)"
| snapshot_commit: "sd_running s i = Some v \<Longrightarrow>
    snapshot_step s (set_running i None (s\<lparr>sd_rows := sd_rows s - sn_deleted v \<union> sn_inserted v\<rparr>))"
| snapshot_rollback: "sd_running s i = Some v \<Longrightarrow> snapshot_step s (set_running i None s)"
| snapshot_idle: "snapshot_step s s"

subsection \<open>The state of the specification that a database has\<close>

definition view :: "DuckTransaction \<Rightarrow> version_db \<Rightarrow> snapshot" where
  "view t db = \<lparr>sn_seen = seen t db, sn_inserted = inserted t db, sn_deleted = deleted t db\<rparr>"

definition snapshot_of :: "version_db \<Rightarrow> snapshot_db" where
  "snapshot_of db = \<lparr>sd_rows = committed_rows db, sd_running = map_of (map (\<lambda>t. (tx_transaction_id t, view t db)) (active db))\<rparr>"

lemma view_simps [simp]: "sn_seen (view t db) = seen t db" "sn_inserted (view t db) = inserted t db" "sn_deleted (view t db) = deleted t db"
  by (simp_all add: view_def)

lemma snapshot_of_rows [simp]: "sd_rows (snapshot_of db) = committed_rows db"
  by (simp add: snapshot_of_def)

lemma running_at:
  assumes "clock_ok (db_manager db)"
  shows "t \<in> set (active db) \<Longrightarrow> sd_running (snapshot_of db) (tx_transaction_id t) = Some (view t db)"
    "i \<notin> ids (db_manager db) \<Longrightarrow> sd_running (snapshot_of db) i = None"
proof -
  have "distinct (map fst (map (\<lambda>t. (tx_transaction_id t, view t db)) (active db)))"
    using assms by (simp add: clock_ok_def comp_def)
  then show "t \<in> set (active db) \<Longrightarrow> sd_running (snapshot_of db) (tx_transaction_id t) = Some (view t db)"
    unfolding snapshot_of_def by (simp only: snapshot_db.select_convs) (rule map_of_is_SomeI, auto)
  show "i \<notin> ids (db_manager db) \<Longrightarrow> sd_running (snapshot_of db) i = None"
    by (auto simp: snapshot_of_def map_of_eq_None_iff image_comp comp_def)
qed

lemma running_ran:
  assumes "clock_ok (db_manager db)" "w \<in> ran (sd_running (snapshot_of db))"
  obtains u where "u \<in> set (active db)" "w = view u db"
proof -
  obtain i where i: "sd_running (snapshot_of db) i = Some w" using assms(2) by (auto simp: ran_def)
  then have "i \<in> ids (db_manager db)" using running_at(2) [OF assms(1), of i] by (metis option.distinct(1))
  then obtain u where "u \<in> set (active db)" "i = tx_transaction_id u" by auto
  then show thesis using running_at(1) [OF assms(1)] i that by simp
qed

text \<open>A step that changes the entry of the transaction with the id \<open>i\<close> only.\<close>

lemma snapshot_of_update:
  assumes "clock_ok (db_manager db)" "clock_ok (db_manager db')"
    and "\<And>u. u \<in> set (active db') \<Longrightarrow> tx_transaction_id u \<noteq> i \<Longrightarrow> tx_transaction_id u \<in> ids (db_manager db) \<and> sd_running (snapshot_of db) (tx_transaction_id u) = Some (view u db')"
    and "ids (db_manager db) - {i} \<subseteq> ids (db_manager db')" "sd_running (snapshot_of db') i = v"
  shows "snapshot_of db' = set_running i v ((snapshot_of db)\<lparr>sd_rows := committed_rows db'\<rparr>)"
proof -
  have "sd_running (snapshot_of db') j = ((sd_running (snapshot_of db))(i := v)) j" for j
  proof (cases "j = i")
    case False
    show ?thesis
    proof (cases "j \<in> ids (db_manager db')")
      case True
      then obtain u where "u \<in> set (active db')" "j = tx_transaction_id u" by auto
      then show ?thesis using running_at(1) [OF assms(2)] assms(3) False by simp
    next
      case outside: False
      then have "j \<notin> ids (db_manager db)" using assms(4) False by blast
      then show ?thesis using running_at(2) [OF assms(1)] running_at(2) [OF assms(2) outside] False by simp
    qed
  qed (simp add: assms(5))
  then show ?thesis by (intro snapshot_db.equality) (simp_all add: set_running_def fun_eq_iff)
qed

subsection \<open>What each change of the ids does to a view\<close>

lemma view_cong [simp]: "view (t\<lparr>tx_undo := undo\<rparr>) db = view t db" "view (t\<lparr>tx_active_query := query\<rparr>) db = view t db"
  by (simp_all add: view_def seen_def inserted_def deleted_def tx_data_def)

lemma view_eqI:
  assumes "\<And>r. (r < db_rows db' \<and> sees (tx_data u) (db_versions db') r) = (r < db_rows db \<and> sees (tx_data u) (db_versions db) r)"
    and "\<And>r. (r < db_rows db' \<and> row_ins (db_versions db') r = tx_transaction_id u) = (r < db_rows db \<and> row_ins (db_versions db) r = tx_transaction_id u)"
    and "\<And>r. (r < db_rows db' \<and> row_del (db_versions db') r = tx_transaction_id u) = (r < db_rows db \<and> row_del (db_versions db) r = tx_transaction_id u)"
  shows "view u db' = view u db"
  using assms by (simp add: view_def seen_def inserted_def deleted_def)

lemma view_same_rows:
  assumes "db_rows db' = db_rows db"
    and "\<And>r. r < db_rows db \<Longrightarrow> sees (tx_data u) (db_versions db') r = sees (tx_data u) (db_versions db) r \<and>
      (row_ins (db_versions db') r = tx_transaction_id u) = (row_ins (db_versions db) r = tx_transaction_id u) \<and>
      (row_del (db_versions db') r = tx_transaction_id u) = (row_del (db_versions db) r = tx_transaction_id u)"
  shows "view u db' = view u db"
  by (rule view_eqI) (use assms in \<open>auto simp: assms(1)\<close>)

lemma extends_view:
  assumes "clock_ok (db_manager db)" "u \<in> set (active db)" "i \<in> ids (db_manager db)" "tx_transaction_id u \<noteq> i"
    and "extends i (db_rows db) n (db_versions db) (db_versions db')" "db_rows db' = db_rows db + n"
  shows "view u db' = view u db"
proof -
  have id: "tx_transaction_id u \<noteq> NOT_DELETED_ID" using clock_bounds(3) [OF assms(1), of "tx_transaction_id u"] assms(2) by auto
  note e = extendsD [OF assms(5)]
  show ?thesis
  proof (rule view_eqI)
    fix r
    show "(r < db_rows db' \<and> sees (tx_data u) (db_versions db') r) = (r < db_rows db \<and> sees (tx_data u) (db_versions db) r)"
      "(r < db_rows db' \<and> row_ins (db_versions db') r = tx_transaction_id u) = (r < db_rows db \<and> row_ins (db_versions db) r = tx_transaction_id u)"
      "(r < db_rows db' \<and> row_del (db_versions db') r = tx_transaction_id u) = (r < db_rows db \<and> row_del (db_versions db) r = tx_transaction_id u)"
      using e [of r] not_used_id [OF assms(1-4)] assms(4,6) id by (cases "r < db_rows db"; auto simp: sees_def)+
  qed
qed

lemma own_used: "UseVersion (tx_data t) (tx_transaction_id t)"
  by (simp add: UseVersion_iff tx_data_def)

lemma extends_own_view:
  assumes "clock_ok (db_manager db)" "t \<in> set (active db)"
    and "extends (tx_transaction_id t) (db_rows db) n (db_versions db) (db_versions db')" "db_rows db' = db_rows db + n"
  shows "view t db' = (view t db)\<lparr>sn_seen := seen t db \<union> {db_rows db..<db_rows db + n}, sn_inserted := inserted t db \<union> {db_rows db..<db_rows db + n}\<rparr>"
proof -
  have id: "tx_transaction_id t \<noteq> NOT_DELETED_ID" using clock_bounds(3) [OF assms(1), of "tx_transaction_id t"] assms(2) by auto
  note e = extendsD [OF assms(3)]
  have "r \<in> seen t db' \<longleftrightarrow> r \<in> seen t db \<union> {db_rows db..<db_rows db + n}"
    "r \<in> inserted t db' \<longleftrightarrow> r \<in> inserted t db \<union> {db_rows db..<db_rows db + n}" "r \<in> deleted t db' \<longleftrightarrow> r \<in> deleted t db" for r
    using e [of r] own_used [of t] not_used_NOT_DELETED [OF assms(1,2)] assms(4) id
    by (cases "r < db_rows db"; auto simp: sees_def seen_def inserted_def deleted_def)+
  then have "seen t db' = seen t db \<union> {db_rows db..<db_rows db + n}" "inserted t db' = inserted t db \<union> {db_rows db..<db_rows db + n}"
    "deleted t db' = deleted t db"
    by (simp_all add: set_eq_iff)
  then show ?thesis by (simp add: view_def)
qed

lemma extends_committed:
  assumes "clock_ok (db_manager db)" "i \<in> ids (db_manager db)" "extends i (db_rows db) n (db_versions db) (db_versions db')" "db_rows db' = db_rows db + n"
    and "current_start_timestamp (db_manager db') = current_start_timestamp (db_manager db)"
  shows "committed_rows db' = committed_rows db"
proof -
  have "r \<in> committed_rows db' \<longleftrightarrow> r \<in> committed_rows db" for r
    using extendsD [OF assms(3), of r] clock_bounds(4) [OF assms(1,2)] by (cases "r < db_rows db") (auto simp: committed_rows_def assms(4,5))
  then show ?thesis by (rule set_eqI)
qed

lemma marks_view:
  assumes "clock_ok (db_manager db)" "u \<in> set (active db)" "i \<in> ids (db_manager db)" "tx_transaction_id u \<noteq> i"
    and "marks i R (db_rows db) (db_versions db) (db_versions db')" "db_rows db' = db_rows db"
  shows "view u db' = view u db"
proof -
  have id: "tx_transaction_id u \<noteq> NOT_DELETED_ID" using clock_bounds(3) [OF assms(1), of "tx_transaction_id u"] assms(2) by auto
  show ?thesis
  proof (rule view_same_rows [OF assms(6)])
    fix r
    assume "r < db_rows db"
    then have "row_ins (db_versions db') r = row_ins (db_versions db) r"
      "row_del (db_versions db') r = row_del (db_versions db) r \<or> row_del (db_versions db) r = NOT_DELETED_ID \<and> row_del (db_versions db') r = i"
      using assms(5) by (auto simp: marks_def)
    then show "sees (tx_data u) (db_versions db') r = sees (tx_data u) (db_versions db) r \<and>
      (row_ins (db_versions db') r = tx_transaction_id u) = (row_ins (db_versions db) r = tx_transaction_id u) \<and>
      (row_del (db_versions db') r = tx_transaction_id u) = (row_del (db_versions db) r = tx_transaction_id u)"
      using not_used_id [OF assms(1-4)] not_used_NOT_DELETED [OF assms(1,2)] assms(4) id by (auto simp: sees_def)
  qed
qed

text \<open>The rows a delete has marked, whether it went through or not.\<close>

definition newly_marked :: "transaction_t \<Rightarrow> version_db \<Rightarrow> version_db \<Rightarrow> nat set" where
  "newly_marked i db db' = {r. r < db_rows db \<and> row_del (db_versions db) r = NOT_DELETED_ID \<and> row_del (db_versions db') r = i}"

lemma marks_own_view:
  assumes "clock_ok (db_manager db)" "t \<in> set (active db)" "db_rows db' = db_rows db"
    and "marks (tx_transaction_id t) R (db_rows db) (db_versions db) (db_versions db')"
  shows "view t db' = (view t db)\<lparr>sn_seen := seen t db - newly_marked (tx_transaction_id t) db db', sn_deleted := deleted t db \<union> newly_marked (tx_transaction_id t) db db'\<rparr>"
proof -
  let ?i = "tx_transaction_id t" and ?new = "newly_marked (tx_transaction_id t) db db'"
  have m: "row_ins (db_versions db') r = row_ins (db_versions db) r"
    "row_del (db_versions db') r = row_del (db_versions db) r \<or> row_del (db_versions db) r = NOT_DELETED_ID \<and> row_del (db_versions db') r = ?i"
    if "r < db_rows db" for r using assms(4) that by (auto simp: marks_def)
  have id: "?i \<noteq> NOT_DELETED_ID" using clock_bounds(3) [OF assms(1), of ?i] assms(2) by auto
  have "r \<in> seen t db' \<longleftrightarrow> r \<in> seen t db - ?new" "r \<in> inserted t db' \<longleftrightarrow> r \<in> inserted t db" "r \<in> deleted t db' \<longleftrightarrow> r \<in> deleted t db \<union> ?new" for r
    using m [of r] own_used [of t] not_used_NOT_DELETED [OF assms(1,2)] id
    by (cases "r < db_rows db"; auto simp: sees_def seen_def inserted_def deleted_def newly_marked_def assms(3))+
  then have "seen t db' = seen t db - ?new" "inserted t db' = inserted t db" "deleted t db' = deleted t db \<union> ?new"
    by (simp_all add: set_eq_iff)
  then show ?thesis by (simp add: view_def)
qed

lemma marks_committed:
  assumes "clock_ok (db_manager db)" "i \<in> ids (db_manager db)" "marks i R (db_rows db) (db_versions db) (db_versions db')" "db_rows db' = db_rows db"
    and "current_start_timestamp (db_manager db') = current_start_timestamp (db_manager db)"
  shows "committed_rows db' = committed_rows db"
proof -
  have "r \<in> committed_rows db' \<longleftrightarrow> r \<in> committed_rows db" for r
    using assms(3) clock_bounds(4) [OF assms(1,2)] clock_bounds(7) [OF assms(1)] by (cases "r < db_rows db") (auto simp: committed_rows_def assms(4,5) marks_def)
  then show ?thesis by (rule set_eqI)
qed

lemma commits_view:
  assumes "clock_ok (db_manager db)" "u \<in> set (active db)" "i \<in> ids (db_manager db)" "tx_transaction_id u \<noteq> i" "c = current_start_timestamp (db_manager db)"
    and "c < TRANSACTION_ID_START" "commits i c (db_rows db) (db_versions db) (db_versions db')" "db_rows db' = db_rows db"
  shows "view u db' = view u db"
proof -
  have "c \<noteq> tx_transaction_id u" using clock_bounds(5) [OF assms(1), of "tx_transaction_id u"] assms(2,6) by auto
  then show ?thesis
    by (intro view_same_rows [OF assms(8)]) (use commit_seen [OF assms(1-7)] commits_other [OF assms(7) _ assms(4) [symmetric]] in blast)
qed

lemma rolls_back_view:
  assumes "db_ok size_max db" "u \<in> set (active db)" "i \<in> ids (db_manager db)" "tx_transaction_id u \<noteq> i"
    and "rolls_back i (db_rows db) (db_versions db) (db_rows db') (db_versions db')"
  shows "view u db' = view u db"
proof -
  have ok: "clock_ok (db_manager db)" "rows_ok (db_manager db) (db_rows db) (db_versions db)" using assms(1) by (simp_all add: db_ok_def)
  have id: "tx_transaction_id u \<noteq> NOT_DELETED_ID" using clock_bounds(3) [OF ok(1), of "tx_transaction_id u"] assms(2) by auto
  have gone: "row_ins (db_versions db) r = i \<and> row_del (db_versions db) r = NOT_DELETED_ID" if "db_rows db' \<le> r" "r < db_rows db" for r
    using assms(5) that rows_okD(4) [OF ok(2)] clock_bounds(5) [OF ok(1) assms(3)] by (auto simp: rolls_back_def)
  show ?thesis
  proof (rule view_eqI)
    fix r
    show "(r < db_rows db' \<and> sees (tx_data u) (db_versions db') r) = (r < db_rows db \<and> sees (tx_data u) (db_versions db) r)"
      by (rule rollback_seen [OF ok(1) assms(2-5)])
    show "(r < db_rows db' \<and> row_ins (db_versions db') r = tx_transaction_id u) = (r < db_rows db \<and> row_ins (db_versions db) r = tx_transaction_id u)"
      "(r < db_rows db' \<and> row_del (db_versions db') r = tx_transaction_id u) = (r < db_rows db \<and> row_del (db_versions db) r = tx_transaction_id u)"
      using rolls_backD [OF assms(5), of r] gone [of r] assms(4) id by (cases "r < db_rows db'"; auto simp: not_less)+
  qed
qed

lemma harmless_view:
  assumes "clock_ok (db_manager db)" "u \<in> set (active db)" "harmless (db_manager db) (db_rows db) (db_versions db) (db_versions db')" "db_rows db' = db_rows db"
  shows "view u db' = view u db"
proof (rule view_same_rows [OF assms(4)], intro conjI)
  fix r
  assume r: "r < db_rows db"
  have i: "tx_transaction_id u \<in> ids (db_manager db)" using assms(2) by simp
  have "tx_transaction_id u \<noteq> 0" using clock_bounds(5) [OF assms(1) i] id_bounds by auto
  then show "(row_ins (db_versions db') r = tx_transaction_id u) = (row_ins (db_versions db) r = tx_transaction_id u)"
    using harmlessD(2) [OF assms(3) r] clock_bounds(4) [OF assms(1) i] by auto
  show "(row_del (db_versions db') r = tx_transaction_id u) = (row_del (db_versions db) r = tx_transaction_id u)"
    using harmlessD(1) [OF assms(3) r] by simp
  show "sees (tx_data u) (db_versions db') r = sees (tx_data u) (db_versions db) r" by (rule harmless_seen [OF assms(1-3) r])
qed

subsection \<open>Every step of the code is a step of the specification\<close>

text \<open>A transaction that starts sees the rows of the commits so far, and has changed nothing.\<close>

lemma begin_view:
  assumes "db_ok size_max db" "StartTransaction (db_manager db) = Inr (t, m)"
  shows "committed_rows (db\<lparr>db_manager := m\<rparr>) = committed_rows db" "view t (db\<lparr>db_manager := m\<rparr>) = \<lparr>sn_seen = committed_rows db, sn_inserted = {}, sn_deleted = {}\<rparr>"
    "tx_transaction_id t \<notin> ids (db_manager db)" "ids m = insert (tx_transaction_id t) (ids (db_manager db))"
proof -
  let ?db = "db\<lparr>db_manager := m\<rparr>"
  note b = StartTransaction_result [OF assms(2)]
  have clock: "clock_ok (db_manager db)" using assms(1) by (simp add: db_ok_def)
  have new: "db_ok size_max ?db" by (rule begin_ok [OF assms])
  then have clock': "clock_ok m" by (simp add: db_ok_def)
  have t: "t \<in> set (active_transactions m)" using b(9) by simp
  have "undo_ok (db_rows db) (db_versions db) t" using new t by (simp add: db_ok_def)
  then have none: "row_ins (db_versions db) r \<noteq> tx_transaction_id t" "row_del (db_versions db) r \<noteq> tx_transaction_id t" if "r < db_rows db" for r
    using that b(6) by (auto simp: undo_ok_def deletes_ok_def)
  show "committed_rows ?db = committed_rows db" using row_tick [OF assms(1) b(1)] by (auto simp: committed_rows_def b(7))
  have "seen t ?db = committed_rows db" using none by (auto simp: seen_def sees_def committed_rows_def UseVersion_iff tx_data_def b(2))
  moreover have "inserted t ?db = {}" "deleted t ?db = {}" using none by (auto simp: inserted_def deleted_def)
  ultimately show "view t ?db = \<lparr>sn_seen = committed_rows db, sn_inserted = {}, sn_deleted = {}\<rparr>" by (simp add: view_def)
  have "distinct (map tx_transaction_id (active_transactions m))" using clock' by (simp add: clock_ok_def)
  then show "tx_transaction_id t \<notin> ids (db_manager db)" by (simp add: b(9))
  show "ids m = insert (tx_transaction_id t) (ids (db_manager db))" by (simp add: b(9))
qed

lemma begin_refines:
  assumes "db_ok size_max db" "StartTransaction (db_manager db) = Inr (t, m)"
  shows "snapshot_step (snapshot_of db) (snapshot_of (db\<lparr>db_manager := m\<rparr>))"
    "j \<in> ids (db_manager db) \<Longrightarrow> sd_running (snapshot_of (db\<lparr>db_manager := m\<rparr>)) j = sd_running (snapshot_of db) j"
proof -
  let ?db = "db\<lparr>db_manager := m\<rparr>" and ?i = "tx_transaction_id t"
  note b = begin_view [OF assms] and act = StartTransaction_result(9) [OF assms(2)]
  have clock: "clock_ok (db_manager db)" "clock_ok (db_manager ?db)"
    using assms(1) begin_ok [OF assms] by (simp_all add: db_ok_def)
  have same: "view u ?db = view u db" for u by (rule view_eqI) simp_all
  have "snapshot_of ?db = set_running ?i (Some (view t ?db)) ((snapshot_of db)\<lparr>sd_rows := committed_rows ?db\<rparr>)"
  proof (rule snapshot_of_update [OF clock])
    fix u
    assume "u \<in> set (active ?db)" "tx_transaction_id u \<noteq> ?i"
    then have "u \<in> set (active db)" using act by auto
    then show "tx_transaction_id u \<in> ids (db_manager db) \<and> sd_running (snapshot_of db) (tx_transaction_id u) = Some (view u ?db)"
      using running_at(1) [OF clock(1)] same by simp
  next
    show "sd_running (snapshot_of ?db) ?i = Some (view t ?db)" by (rule running_at(1) [OF clock(2)]) (simp add: act)
  qed (use b(4) in auto)
  then have "snapshot_of ?db = set_running ?i (Some \<lparr>sn_seen = sd_rows (snapshot_of db), sn_inserted = {}, sn_deleted = {}\<rparr>) (snapshot_of db)"
    using b(1,2) by (simp add: snapshot_of_def)
  then show "snapshot_step (snapshot_of db) (snapshot_of ?db)" "j \<in> ids (db_manager db) \<Longrightarrow> sd_running (snapshot_of ?db) j = sd_running (snapshot_of db) j"
    using snapshot_begin [OF running_at(2) [OF clock(1) b(3)]] b(3) by (simp, cases "j = ?i", simp_all add: set_running_def)
qed

text \<open>A step that replaces a transaction by one with the same times, and the views of the others.\<close>

lemma replaced_running:
  assumes "clock_ok (db_manager db)" "clock_ok (db_manager db')" "k < length (active db)" "t = active db ! k"
    and "active db' = (active db)[k := t']" "tx_transaction_id t' = tx_transaction_id t" "\<And>db. view t' db = view t db"
    and "\<And>u. u \<in> set (active db) \<Longrightarrow> tx_transaction_id u \<noteq> tx_transaction_id t \<Longrightarrow> view u db' = view u db"
  shows "snapshot_of db' = set_running (tx_transaction_id t) (Some (view t db')) ((snapshot_of db)\<lparr>sd_rows := committed_rows db'\<rparr>)"
proof (rule snapshot_of_update [OF assms(1,2)])
  have t': "t' \<in> set (active db')" using assms(3,5) by (simp add: set_update_memI)
  show "sd_running (snapshot_of db') (tx_transaction_id t) = Some (view t db')"
    using running_at(1) [OF assms(2) t'] assms(6,7) by simp
  have "ids (db_manager db') = ids (db_manager db)" using assms(4,6) by (simp add: assms(5) image_update_same)
  then show "ids (db_manager db) - {tx_transaction_id t} \<subseteq> ids (db_manager db')" by blast
  fix u
  assume "u \<in> set (active db')" "tx_transaction_id u \<noteq> tx_transaction_id t"
  then have "u \<in> set (active db)" using set_update_subset_insert [of "active db" k t'] assms(5,6) by auto
  then show "tx_transaction_id u \<in> ids (db_manager db) \<and> sd_running (snapshot_of db) (tx_transaction_id u) = Some (view u db')"
    using running_at(1) [OF assms(1)] assms(8) \<open>tx_transaction_id u \<noteq> tx_transaction_id t\<close> by simp
qed

lemma set_query_refines:
  assumes "db_ok size_max db" "k < length (active db)"
  shows "snapshot_of (set_query k query db) = snapshot_of db"
proof -
  let ?db = "set_query k query db"
  have clock: "clock_ok (db_manager db)" "clock_ok (db_manager ?db)"
    using assms(1) query_ok [OF assms] by (simp_all add: db_ok_def)
  have same: "view u ?db = view u db" for u by (rule view_eqI) (simp_all add: set_query_def Let_def)
  have "snapshot_of ?db = set_running (tx_transaction_id (active db ! k)) (Some (view (active db ! k) ?db)) ((snapshot_of db)\<lparr>sd_rows := committed_rows ?db\<rparr>)"
    by (rule replaced_running [OF clock assms(2) refl, where t' = "(active db ! k)\<lparr>tx_active_query := query\<rparr>"]) (simp_all add: set_query_def Let_def same [unfolded set_query_def Let_def])
  moreover have "committed_rows ?db = committed_rows db" by (simp add: committed_rows_def set_query_def Let_def)
  ultimately show ?thesis
    using running_at(1) [OF clock(1) active_member [OF assms(2)]] by (simp add: same set_running_def fun_upd_idem snapshot_of_def)
qed

lemma flush_refines:
  assumes "db_ok size_max db" "k < length (active db)" "\<forall>u \<in> set (active db). no_insert (tx_undo u)" "0 < n" "db_rows db + n \<le> size_max"
    and "Flush size_max k n db = Inr db'" "size_max \<le> MAX_ROW_GROUP_SIZE"
  shows "snapshot_step (snapshot_of db) (snapshot_of db')"
    "j \<noteq> tx_transaction_id (active db ! k) \<Longrightarrow> sd_running (snapshot_of db') j = sd_running (snapshot_of db) j"
proof -
  define t where "t = active db ! k"
  let ?i = "tx_transaction_id t" and ?R = "{db_rows db..<db_rows db + n}"
  note f = flush_step [OF assms t_def]
  have t: "t \<in> set (active db)" "?i \<in> ids (db_manager db)" using assms(2) by (simp_all add: t_def)
  have clock: "clock_ok (db_manager db)" "clock_ok (db_manager db')" using assms(1) f(1) by (simp_all add: db_ok_def)
  have views: "view u db' = view u db" if "u \<in> set (active db)" "tx_transaction_id u \<noteq> ?i" for u
    by (rule extends_view [OF clock(1) that(1) t(2) that(2) f(2,3)])
  note own = extends_own_view [OF clock(1) t(1) f(2,3)] and rows = extends_committed [OF clock(1) t(2) f(2-4)]
  have "snapshot_of db' = set_running ?i (Some (view t db')) ((snapshot_of db)\<lparr>sd_rows := committed_rows db'\<rparr>)"
    by (rule replaced_running [OF clock assms(2) t_def f(5)]) (use views in simp_all)
  then have eq: "snapshot_of db' = set_running ?i (Some ((view t db)\<lparr>sn_seen := sn_seen (view t db) \<union> ?R, sn_inserted := sn_inserted (view t db) \<union> ?R\<rparr>)) (snapshot_of db)"
    using own rows by (simp add: snapshot_of_def)
  show "j \<noteq> tx_transaction_id (active db ! k) \<Longrightarrow> sd_running (snapshot_of db') j = sd_running (snapshot_of db) j"
    by (simp add: eq set_running_def t_def)
  show "snapshot_step (snapshot_of db) (snapshot_of db')"
    unfolding eq
  proof (rule snapshot_insert)
    show "sd_running (snapshot_of db) ?i = Some (view t db)" by (rule running_at(1) [OF clock(1) t(1)])
    show "?R \<inter> sd_rows (snapshot_of db) = {}" by (auto simp: committed_rows_def)
    show "\<forall>w \<in> ran (sd_running (snapshot_of db)). ?R \<inter> (sn_seen w \<union> sn_inserted w) = {}"
    proof
      fix w
      assume w: "w \<in> ran (sd_running (snapshot_of db))"
      obtain u where "w = view u db" by (rule running_ran [OF clock(1) w])
      then show "?R \<inter> (sn_seen w \<union> sn_inserted w) = {}" by (auto simp: seen_def inserted_def)
    qed
  qed
qed

lemma delete_refines:
  assumes "db_ok size_max db" "k < length (active db)" "no_insert (tx_undo (active db ! k))" "distinct rows"
    and "length rows \<le> STANDARD_VECTOR_SIZE" "set rows \<subseteq> seen (active db ! k) db"
    and "RowGroup_Delete (tx_transaction_id (active db ! k)) 0 rows (db_versions db) (tx_undo (active db ! k)) = ((mgr, undo), r)"
    and "db' = set_undo k undo db\<lparr>db_versions := mgr\<rparr>"
  shows "snapshot_step (snapshot_of db) (snapshot_of db')"
    "j \<noteq> tx_transaction_id (active db ! k) \<Longrightarrow> sd_running (snapshot_of db') j = sd_running (snapshot_of db) j"
proof -
  define t where "t = active db ! k"
  let ?i = "tx_transaction_id t" and ?R = "newly_marked (tx_transaction_id t) db db'"
  note d = delete_step [OF assms(1,2) t_def assms(3) [folded t_def] assms(4,5) assms(6,7) [folded t_def] assms(8)]
  have t: "t \<in> set (active db)" "?i \<in> ids (db_manager db)" using assms(2) by (simp_all add: t_def)
  have ok: "clock_ok (db_manager db)" "clock_ok (db_manager db')" using assms(1) d(1) by (simp_all add: db_ok_def)
  have id: "tx_transaction_id u \<noteq> NOT_DELETED_ID" if "u \<in> set (active db)" for u
    using clock_bounds(3) [OF ok(1), of "tx_transaction_id u"] that by auto
  have views: "view u db' = view u db" if "u \<in> set (active db)" "tx_transaction_id u \<noteq> ?i" for u
    by (rule marks_view [OF ok(1) that(1) t(2) that(2) d(2,4)])
  note own = marks_own_view [OF ok(1) t(1) d(4,2)] and rows = marks_committed [OF ok(1) t(2) d(2,4,5)]
  have "snapshot_of db' = set_running ?i (Some (view t db')) ((snapshot_of db)\<lparr>sd_rows := committed_rows db'\<rparr>)"
    by (rule replaced_running [OF ok assms(2) t_def d(3)]) (use views in simp_all)
  then have eq: "snapshot_of db' = set_running ?i (Some ((view t db)\<lparr>sn_seen := sn_seen (view t db) - ?R, sn_deleted := sn_deleted (view t db) \<union> ?R\<rparr>)) (snapshot_of db)"
    using own rows by (simp add: snapshot_of_def)
  have new: "x \<in> seen t db" "x \<in> committed_rows db" if "x \<in> ?R" for x
  proof -
    have x: "x < db_rows db" "row_del (db_versions db) x = NOT_DELETED_ID" "x \<in> set rows"
      using that d(2) id [OF t(1)] by (auto simp: newly_marked_def marks_def)
    then show seen: "x \<in> seen t db" using assms(6) by (auto simp: t_def)
    have "row_ins (db_versions db) x \<noteq> ?i"
      using undo_ok_no_insert(2) [of "db_rows db" "db_versions db" t] assms(1,3) t(1) x(1) by (auto simp: db_ok_def t_def)
    then have "row_ins (db_versions db) x < tx_start_time t" using seen by (auto simp: seen_def sees_def UseVersion_iff tx_data_def)
    moreover have "tx_start_time t < current_start_timestamp (db_manager db)" using ok(1) t(1) by (auto simp: clock_ok_def)
    ultimately show "x \<in> committed_rows db" using x(1,2) clock_bounds(7) [OF ok(1)] by (simp add: committed_rows_def)
  qed
  show "j \<noteq> tx_transaction_id (active db ! k) \<Longrightarrow> sd_running (snapshot_of db') j = sd_running (snapshot_of db) j"
    by (simp add: eq set_running_def t_def)
  show "snapshot_step (snapshot_of db) (snapshot_of db')"
    unfolding eq
  proof (rule snapshot_delete)
    show "sd_running (snapshot_of db) ?i = Some (view t db)" by (rule running_at(1) [OF ok(1) t(1)])
    show "?R \<subseteq> sn_seen (view t db) \<inter> sd_rows (snapshot_of db)" using new by auto
    show "\<forall>w \<in> ran (sd_running (snapshot_of db)). ?R \<inter> sn_deleted w = {}"
    proof
      fix w
      assume w: "w \<in> ran (sd_running (snapshot_of db))"
      obtain u where "u \<in> set (active db)" "w = view u db" by (rule running_ran [OF ok(1) w])
      then show "?R \<inter> sn_deleted w = {}" using id [of u, symmetric] by (auto simp: deleted_def newly_marked_def)
    qed
  qed
qed

text \<open>A step that ends a transaction.\<close>

lemma removed_running:
  assumes "clock_ok (db_manager db)" "clock_ok (db_manager db')"
    and "set (active db') = {u \<in> set (active db). tx_transaction_id u \<noteq> i}"
    and "\<And>u. u \<in> set (active db) \<Longrightarrow> tx_transaction_id u \<noteq> i \<Longrightarrow> view u db' = view u db"
  shows "snapshot_of db' = set_running i None ((snapshot_of db)\<lparr>sd_rows := committed_rows db'\<rparr>)"
proof (rule snapshot_of_update [OF assms(1,2)])
  show "sd_running (snapshot_of db') i = None" by (rule running_at(2) [OF assms(2)]) (use assms(3) in auto)
  show "ids (db_manager db) - {i} \<subseteq> ids (db_manager db')" using assms(3) by auto
  fix u
  assume "u \<in> set (active db')"
  then have "u \<in> set (active db)" "tx_transaction_id u \<noteq> i" using assms(3) by simp_all
  then show "tx_transaction_id u \<in> ids (db_manager db) \<and> sd_running (snapshot_of db) (tx_transaction_id u) = Some (view u db')"
    using running_at(1) [OF assms(1)] assms(4) by simp
qed

lemma commit_refines:
  assumes "db_ok size_max db" "k < length (active db)" "current_start_timestamp (db_manager db) < TRANSACTION_ID_START"
    and "CommitTransaction current_query store_transaction k db = Inr db'" "size_max \<le> MAX_ROW_GROUP_SIZE"
  shows "db_ok size_max db'" "snapshot_step (snapshot_of db) (snapshot_of db')"
    "j \<noteq> tx_transaction_id (active db ! k) \<Longrightarrow> sd_running (snapshot_of db') j = sd_running (snapshot_of db) j"
proof -
  define t where "t = active db ! k"
  let ?i = "tx_transaction_id t"
  have c: "db_ok size_max db'" "set (active db') = {u \<in> set (active db). tx_transaction_id u \<noteq> ?i}"
    "current_start_timestamp (db_manager db') = current_start_timestamp (db_manager db) + 1" "db_rows db' = db_rows db"
    "commits ?i (current_start_timestamp (db_manager db)) (db_rows db) (db_versions db) (db_versions db')"
    using commit_step [OF assms(1-3,5) t_def, of current_query store_transaction] assms(4) by auto
  have t: "t \<in> set (active db)" "?i \<in> ids (db_manager db)" using assms(2) by (simp_all add: t_def)
  have clock: "clock_ok (db_manager db)" "clock_ok (db_manager db')" using assms(1) c(1) by (simp_all add: db_ok_def)
  have "snapshot_of db' = set_running ?i None ((snapshot_of db)\<lparr>sd_rows := committed_rows db'\<rparr>)"
    by (rule removed_running [OF clock c(2)], rule commits_view [OF clock(1) _ t(2) _ refl assms(3) c(5,4)])
  then have eq: "snapshot_of db' =
      set_running ?i None ((snapshot_of db)\<lparr>sd_rows := sd_rows (snapshot_of db) - sn_deleted (view t db) \<union> sn_inserted (view t db)\<rparr>)"
    using commit_committed [OF assms(1) t(1) c(5,4,3) assms(3)] by simp
  show "db_ok size_max db'" by (rule c(1))
  show "j \<noteq> tx_transaction_id (active db ! k) \<Longrightarrow> sd_running (snapshot_of db') j = sd_running (snapshot_of db) j"
    by (simp add: eq set_running_def t_def)
  show "snapshot_step (snapshot_of db) (snapshot_of db')" unfolding eq by (rule snapshot_commit [OF running_at(1) [OF clock(1) t(1)]])
qed

lemma rollback_refines:
  assumes "db_ok size_max db" "k < length (active db)" "RollbackTransaction current_query k db = Inr db'"
  shows "db_ok size_max db'" "snapshot_step (snapshot_of db) (snapshot_of db')"
    "j \<noteq> tx_transaction_id (active db ! k) \<Longrightarrow> sd_running (snapshot_of db') j = sd_running (snapshot_of db) j"
proof -
  define t where "t = active db ! k"
  let ?i = "tx_transaction_id t"
  have c: "db_ok size_max db'" "set (active db') = {u \<in> set (active db). tx_transaction_id u \<noteq> ?i}"
    "current_start_timestamp (db_manager db') = current_start_timestamp (db_manager db)"
    "rolls_back ?i (db_rows db) (db_versions db) (db_rows db') (db_versions db')"
    using rollback_step [OF assms(1,2) t_def, of current_query] assms(3) by auto
  have t: "t \<in> set (active db)" "?i \<in> ids (db_manager db)" using assms(2) by (simp_all add: t_def)
  have clock: "clock_ok (db_manager db)" "clock_ok (db_manager db')" using assms(1) c(1) by (simp_all add: db_ok_def)
  have "snapshot_of db' = set_running ?i None ((snapshot_of db)\<lparr>sd_rows := committed_rows db'\<rparr>)"
    by (rule removed_running [OF clock c(2)], rule rolls_back_view [OF assms(1) _ t(2) _ c(4)])
  then have eq: "snapshot_of db' = set_running ?i None (snapshot_of db)"
    using rollback_committed [OF clock(1) t(2) c(4,3)] by (simp add: snapshot_of_def)
  show "db_ok size_max db'" by (rule c(1))
  show "j \<noteq> tx_transaction_id (active db ! k) \<Longrightarrow> sd_running (snapshot_of db') j = sd_running (snapshot_of db) j"
    by (simp add: eq set_running_def t_def)
  show "snapshot_step (snapshot_of db) (snapshot_of db')" unfolding eq by (rule snapshot_rollback [OF running_at(1) [OF clock(1) t(1)]])
qed

lemma cleanup_refines:
  assumes "db_ok size_max db" "cleanup_queue (db_manager db) = info # rest" "size_max \<le> MAX_ROW_GROUP_SIZE"
    and "db' = db\<lparr>db_versions := Cleanup info (db_versions db), db_manager := (db_manager db)\<lparr>cleanup_queue := rest\<rparr>\<rparr>"
  shows "snapshot_of db' = snapshot_of db"
proof -
  note c = cleanup_step [OF assms]
  have clock: "clock_ok (db_manager db)" using assms(1) by (simp add: db_ok_def)
  have act: "active db' = active db" "db_rows db' = db_rows db" by (simp_all add: assms(4))
  have "view u db' = view u db" if "u \<in> set (active db)" for u by (rule harmless_view [OF clock that c(2) act(2)])
  then have "map (\<lambda>t. (tx_transaction_id t, view t db')) (active db') = map (\<lambda>t. (tx_transaction_id t, view t db)) (active db)" by (simp add: act)
  then show ?thesis by (simp only: snapshot_of_def c(3))
qed

lemma version_step_refines:
  assumes "version_step size_max db actor db'" "db_ok size_max db" "size_max \<le> MAX_ROW_GROUP_SIZE"
  shows "db_ok size_max db' \<and> snapshot_step (snapshot_of db) (snapshot_of db') \<and>
    (\<forall>j \<in> ids (db_manager db). actor \<noteq> Some j \<longrightarrow> sd_running (snapshot_of db') j = sd_running (snapshot_of db) j)"
  using assms
proof (induction rule: version_step.induct)
  case (step_begin db t m)
  then show ?case using begin_ok begin_refines by blast
next
  case (step_query k db query)
  then show ?case using query_ok [of size_max db k query] set_query_refines [of size_max db k query] snapshot_idle by simp
next
  case (step_flush k db n db')
  then show ?case using flush_step(1) [OF step_flush(6,1-5,7) refl] flush_refines [OF step_flush(6,1-5,7)] by simp
next
  case (step_delete k db rows mgr undo r)
  then show ?case using delete_step(1) [OF step_delete(7,1) refl step_delete(2-6) refl] delete_refines [OF step_delete(7,1-6) refl] by simp
next
  case (step_commit k db current_query store_transaction db')
  then show ?case using commit_refines [OF step_commit(4,1-3,5)] by simp
next
  case (step_rollback k db current_query db')
  then show ?case using rollback_refines [OF step_rollback(3,1,2)] by simp
next
  case (step_cleanup db info rest)
  then show ?case
    using cleanup_step(1) [OF step_cleanup(2,1,3) refl] cleanup_refines [OF step_cleanup(2,1,3) refl] snapshot_idle by simp
qed

lemma reachable_ok:
  assumes "version_reachable size_max db" "size_max \<le> MAX_ROW_GROUP_SIZE"
  shows "db_ok size_max db"
  using assms
proof (induction rule: version_reachable.induct)
  case versions_new
  show ?case by (rule db_ok_new)
qed (use version_step_refines in blast)

end
