(* ===== verification/TransactionProps.thy ===== *)
theory TransactionProps
  imports TransactionSpec RowGroupScan
begin

text \<open>
  The properties of transactions, in terms of what the code returns: the rows a scan gives, what a
  delete, a commit and a rollback answer, and what transactions that start later see.
\<close>

subsection \<open>The scan of a transaction\<close>

text \<open>
  One round of \<open>TemplatedScan\<close>: the versions select the rows of the vector, then the filters run
  on those.
\<close>

definition transaction_scan ::
  "(nat \<Rightarrow> Value \<Rightarrow> bool) \<Rightarrow> (nat \<Rightarrow> LogicalType) \<Rightarrow> (nat \<Rightarrow> Value list) \<Rightarrow> nat list \<Rightarrow> nat list \<Rightarrow> scan_filter_info \<Rightarrow>
   TransactionData \<Rightarrow> nat \<Rightarrow> RowVersionManager \<Rightarrow> nat \<Rightarrow> Value list list option result" where
  "transaction_scan ex types vectors column_ids permutation filter_info transaction vector_index mgr max_count =
     bind_result (GetSelVector transaction vector_index mgr max_count) (\<lambda>valid_sel.
       scan_vector ex types vectors column_ids permutation filter_info (selected_rows valid_sel max_count) max_count)"

lemma reachable_clock:
  assumes "version_reachable size_max db" "size_max \<le> MAX_ROW_GROUP_SIZE"
  shows "clock_ok (db_manager db)" "manager_ok (db_rows db) (db_versions db)"
  using reachable_ok [OF assms] rows_okD(1) by (auto simp: db_ok_def)

lemma Fetch_seen:
  assumes "version_reachable size_max db" "size_max \<le> MAX_ROW_GROUP_SIZE" "t \<in> set (active db)"
  shows "r < db_rows db \<Longrightarrow> Fetch (tx_data t) r (db_versions db) = Inr (sees (tx_data t) (db_versions db) r)"
    "r < db_rows db \<and> Fetch (tx_data t) r (db_versions db) = Inr True \<longleftrightarrow> r \<in> seen t db"
proof -
  note ok = reachable_clock [OF assms(1,2)]
  show f: "Fetch (tx_data t) r (db_versions db) = Inr (sees (tx_data t) (db_versions db) r)" if "r < db_rows db" for r
    by (rule Fetch_sees [OF ok(2) that active_running [OF ok(1) assms(3)]])
  show "r < db_rows db \<and> Fetch (tx_data t) r (db_versions db) = Inr True \<longleftrightarrow> r \<in> seen t db"
    using f [of r] by (auto simp: seen_def)
qed

lemma GetSelVector_seen:
  assumes "version_reachable size_max db" "size_max \<le> MAX_ROW_GROUP_SIZE" "t \<in> set (active db)" "n \<le> rows_in (db_rows db) i"
  shows "\<exists>sel. GetSelVector (tx_data t) i (db_versions db) n = Inr sel \<and>
    selected_rows sel n = filter (\<lambda>j. Fetch (tx_data t) (i * STANDARD_VECTOR_SIZE + j) (db_versions db) = Inr True) [0..<n]"
proof -
  note ok = reachable_clock [OF assms(1,2)]
  obtain sel where sel: "GetSelVector (tx_data t) i (db_versions db) n = Inr sel"
    "selected_rows sel n = filter (\<lambda>j. sees (tx_data t) (db_versions db) (i * STANDARD_VECTOR_SIZE + j)) [0..<n]"
    using GetSelVector_sees [OF ok(2) assms(4) active_running [OF ok(1) assms(3)]] by blast
  have same: "sees (tx_data t) (db_versions db) (i * STANDARD_VECTOR_SIZE + j) = (Fetch (tx_data t) (i * STANDARD_VECTOR_SIZE + j) (db_versions db) = Inr True)"
    if "j \<in> set [0..<n]" for j
  proof -
    have "i * STANDARD_VECTOR_SIZE + j < db_rows db" using that assms(4) row_bounds(3) [of j "db_rows db" i] by simp
    then show ?thesis using Fetch_seen(1) [OF assms(1-3)] by simp
  qed
  have "filter (\<lambda>j. sees (tx_data t) (db_versions db) (i * STANDARD_VECTOR_SIZE + j)) [0..<n] =
      filter (\<lambda>j. Fetch (tx_data t) (i * STANDARD_VECTOR_SIZE + j) (db_versions db) = Inr True) [0..<n]"
    by (rule filter_cong [OF refl same])
  then show ?thesis using sel by simp
qed

subsection \<open>A run\<close>

text \<open>Two transactions have started; then the second writes a vector of rows, and commits.\<close>

definition example_tx :: "transaction_t \<Rightarrow> transaction_t \<Rightarrow> undo_entry list \<Rightarrow> DuckTransaction" where
  "example_tx i start undo =
     \<lparr>tx_start_time = start, tx_transaction_id = i, tx_commit_id = 0, tx_highest_active_query = 0, tx_active_query = MAXIMUM_QUERY_ID,
      tx_awaiting_cleanup = False, tx_undo = undo\<rparr>"

definition example_db :: "undo_entry list \<Rightarrow> RowVersionManager \<Rightarrow> nat \<Rightarrow> version_db" where
  "example_db undo mgr n =
     \<lparr>db_manager =
        \<lparr>current_start_timestamp = 4, current_transaction_id = TRANSACTION_ID_START + 2, lowest_active_id = TRANSACTION_ID_START,
         lowest_active_start = 2, last_commit = 0,
         active_transactions = [example_tx TRANSACTION_ID_START 2 [], example_tx (TRANSACTION_ID_START + 1) 3 undo],
         recently_committed_transactions = [], old_transactions = [], cleanup_queue = []\<rparr>,
      db_versions = mgr, db_rows = n\<rparr>"

definition example_start :: version_db where "example_start = example_db [] (new_version_manager 0) 0"

definition example_written :: version_db where
  "example_written = example_db [INSERT_TUPLE 0 2048]
     (new_version_manager 0\<lparr>vm_unserialized := True,
        vm_vector_info := [Some (ConstantInfo (new_constant_info 0\<lparr>ci_insert_id := TRANSACTION_ID_START + 1, ci_delete_id := NOT_DELETED_ID\<rparr>))]\<rparr>) 2048"

lemma example_sizes [simp]: "4096 \<le> MAX_ROW_GROUP_SIZE"
  by (simp add: MAX_ROW_GROUP_SIZE_def)

lemma example_start_reachable: "version_reachable 4096 example_start"
proof -
  let ?t0 = "example_tx TRANSACTION_ID_START 2 []" and ?t1 = "example_tx (TRANSACTION_ID_START + 1) 3 []"
  let ?m = "new_transaction_manager\<lparr>current_start_timestamp := 3, current_transaction_id := TRANSACTION_ID_START + 1, lowest_active_start := 2,
    lowest_active_id := TRANSACTION_ID_START, active_transactions := [?t0]\<rparr>"
  have "StartTransaction (db_manager new_db) = Inr (?t0, ?m)"
    by (simp add: StartTransaction_def new_db_def new_transaction_manager_def example_tx_def TRANSACTION_ID_START_def Let_def)
  then have first: "version_reachable 4096 (new_db\<lparr>db_manager := ?m\<rparr>)"
    using versions_step [OF versions_new step_begin] by blast
  have "StartTransaction (db_manager (new_db\<lparr>db_manager := ?m\<rparr>)) = Inr (?t1, db_manager example_start)"
    by (simp add: StartTransaction_def new_transaction_manager_def example_tx_def TRANSACTION_ID_START_def Let_def example_start_def example_db_def)
  from versions_step [OF first step_begin [OF this]] show ?thesis by (simp add: example_start_def example_db_def new_db_def)
qed

lemma example_flush: "Flush 4096 1 2048 example_start = Inr example_written"
  by (simp add: Flush_def RowGroup_AppendVersionInfo_def PushAppend_def set_undo_def AppendVersions_def append_vector_def FillVectorInfo_def end_vector_def range_start_def range_end_def
      STANDARD_VECTOR_SIZE_def example_start_def example_written_def example_db_def example_tx_def tx_data_def new_version_manager_def Let_def)

lemma example_written_step: "version_step 4096 example_start (Some (TRANSACTION_ID_START + 1)) example_written"
  using step_flush [of 1 example_start 2048 4096 example_written] example_flush
  by (simp add: example_start_def example_db_def example_tx_def no_insert_def)

lemma example_written_reachable: "version_reachable 4096 example_written"
  using versions_step [OF example_start_reachable example_written_step] .

text \<open>The first transaction of the run, and the second.\<close>

lemma example_actives [simp]:
  "active example_start = [example_tx TRANSACTION_ID_START 2 [], example_tx (TRANSACTION_ID_START + 1) 3 []]"
  "active example_written = [example_tx TRANSACTION_ID_START 2 [], example_tx (TRANSACTION_ID_START + 1) 3 [INSERT_TUPLE 0 2048]]"
  "db_rows example_start = 0" "db_rows example_written = 2048"
  by (simp_all add: example_start_def example_written_def example_db_def)

text \<open>The rows are seen by their writer only.\<close>

lemma example_fetch:
  assumes "r < 2048"
  shows "Fetch (tx_data (example_tx TRANSACTION_ID_START 2 [])) r (db_versions example_written) = Inr False"
    "Fetch (tx_data (example_tx (TRANSACTION_ID_START + 1) 3 [INSERT_TUPLE 0 2048])) r (db_versions example_written) = Inr True"
proof -
  have "info_at (vm_vector_info (db_versions example_written)) (r div STANDARD_VECTOR_SIZE) =
      Some (ConstantInfo (new_constant_info 0\<lparr>ci_insert_id := TRANSACTION_ID_START + 1, ci_delete_id := NOT_DELETED_ID\<rparr>))"
    using assms by (simp add: example_written_def example_db_def info_at_def STANDARD_VECTOR_SIZE_def)
  then have ids: "row_ins (db_versions example_written) r = TRANSACTION_ID_START + 1" "row_del (db_versions example_written) r = NOT_DELETED_ID"
    by (simp_all add: row_ins_def row_del_def ins_at_def del_at_def)
  have "r < db_rows example_written" using assms by simp
  note fetch = Fetch_seen(1) [OF example_written_reachable example_sizes _ this]
  have "\<not> NOT_DELETED_ID < 3" "NOT_DELETED_ID \<noteq> TRANSACTION_ID_START + 1" by (simp_all add: NOT_DELETED_ID_def TRANSACTION_ID_START_def)
  then show "Fetch (tx_data (example_tx TRANSACTION_ID_START 2 [])) r (db_versions example_written) = Inr False"
    "Fetch (tx_data (example_tx (TRANSACTION_ID_START + 1) 3 [INSERT_TUPLE 0 2048])) r (db_versions example_written) = Inr True"
    using fetch [of "example_tx TRANSACTION_ID_START 2 []"] fetch [of "example_tx (TRANSACTION_ID_START + 1) 3 [INSERT_TUPLE 0 2048]"]
    by (simp_all add: sees_def UseVersion_iff tx_data_def ids) (simp_all add: example_tx_def TRANSACTION_ID_START_def)
qed

subsection \<open>What a running transaction sees\<close>







text \<open>C22: The selection of a scan and the fetch of single rows agree: the rows of a vector that a running
  transaction scans are those it can fetch, in order, whatever infos the vector has.\<close>
theorem scan_selects_fetched_rows:
  assumes "version_reachable size_max db" "size_max \<le> MAX_ROW_GROUP_SIZE" "t \<in> set (active db)" "n \<le> rows_in (db_rows db) i"
  shows "\<exists>sel. GetSelVector (tx_data t) i (db_versions db) n = Inr sel \<and>
    selected_rows sel n = filter (\<lambda>j. Fetch (tx_data t) (i * STANDARD_VECTOR_SIZE + j) (db_versions db) = Inr True) [0..<n]"
  by (rule GetSelVector_seen [OF assms])

lemma scan_selects_fetched_rows_witness:
  "\<exists>sel. GetSelVector (tx_data (example_tx TRANSACTION_ID_START 2 [])) 0 (db_versions example_written) 2 = Inr sel \<and> selected_rows sel 2 = []"
proof -
  have t: "example_tx TRANSACTION_ID_START 2 [] \<in> set (active example_written)" "2 \<le> rows_in (db_rows example_written) 0"
    by (simp_all add: rows_in_def STANDARD_VECTOR_SIZE_def)
  show ?thesis
    using scan_selects_fetched_rows [OF example_written_reachable example_sizes t] example_fetch(1) by (simp add: upt_rec)
qed

text \<open>C6: The scan of a vector by a running transaction gives exactly the rows that it can fetch and that
  satisfy the filters, for the row versions, the zone maps and the filters together.\<close>
theorem transaction_scan_exact:
  assumes "version_reachable size_max db" "size_max \<le> MAX_ROW_GROUP_SIZE" "t \<in> set (active db)" "n \<le> rows_in (db_rows db) i"
    and "list_all (reachable_column hs hp) columns" "scan_typed columns column_ids filters"
    and "ScanFilterInfo_Initialize filters column_ids = Inr info" "RowGroup_CheckZonemap hs hp columns info = Inr (True, info')"
    and "\<forall>(index, f) \<in> set filters. is_optional f \<or> (runnable (types (column_ids ! index)) f \<and> no_optional_result f)"
    and "\<forall>c \<in> set column_ids. length (vectors c) = n \<and> set (vectors c) \<subseteq> set (visible_rows (columns ! c))"
    and "distinct permutation" "set permutation = {..<length filters}"
  shows "\<exists>sel. transaction_scan ex types vectors column_ids permutation info' (tx_data t) i (db_versions db) n =
      Inr (if sel = [] then None else Some (map (\<lambda>c. slice_column sel (vectors c)) column_ids)) \<and>
    distinct sel \<and>
    set sel = {j. j < n \<and> Fetch (tx_data t) (i * STANDARD_VECTOR_SIZE + j) (db_versions db) = Inr True \<and>
      (\<forall>(index, f) \<in> set filters. is_optional f \<or> selects ex f (vectors (column_ids ! index) ! j))}"
proof -
  obtain sel where sel: "GetSelVector (tx_data t) i (db_versions db) n = Inr sel"
    "selected_rows sel n = filter (\<lambda>j. Fetch (tx_data t) (i * STANDARD_VECTOR_SIZE + j) (db_versions db) = Inr True) [0..<n]"
    using GetSelVector_seen [OF assms(1-4)] by blast
  have valid: "distinct (selected_rows sel n)" "set (selected_rows sel n) \<subseteq> {..<n}" by (auto simp: sel(2))
  have n: "n \<le> STANDARD_VECTOR_SIZE" using assms(4) rows_in_le order_trans by blast
  obtain rows where rows: "scan_vector ex types vectors column_ids permutation info' (selected_rows sel n) n =
      Inr (if rows = [] then None else Some (map (\<lambda>c. slice_column rows (vectors c)) column_ids))" "distinct rows"
    "set rows = {j \<in> set (selected_rows sel n). \<forall>(index, f) \<in> set filters. is_optional f \<or> selects ex f (vectors (column_ids ! index) ! j)}"
    using scan_rows [OF assms(5-9) n assms(10-12) valid, of ex] by (elim exE conjE) (rule that, assumption+)
  have "set rows = {j. j < n \<and> Fetch (tx_data t) (i * STANDARD_VECTOR_SIZE + j) (db_versions db) = Inr True \<and>
      (\<forall>(index, f) \<in> set filters. is_optional f \<or> selects ex f (vectors (column_ids ! index) ! j))}"
    unfolding rows(3) sel(2) by (intro set_eqI) simp
  then show ?thesis using rows(1,2) sel(1) by (intro exI [of _ rows]) (simp add: transaction_scan_def)
qed

text \<open>The writer of the run reads the row that the filter wants, the other transaction reads nothing.\<close>

lemma transaction_scan_exact_witness:
  "\<forall>hs ex. \<exists>info info'. ScanFilterInfo_Initialize [(0, ConstantFilter COMPARE_EQUAL (int_value 5))] [0] = Inr info \<and>
     RowGroup_CheckZonemap hs ((\<lambda>_. None)(1 \<mapsto> int_statistic [5, 7])) [int_column 1 no_temp_vectors] info = Inr (True, info') \<and>
     transaction_scan ex (\<lambda>_. int_type) (\<lambda>_. [int_value 5, int_value 7]) [0] [0] info'
       (tx_data (example_tx (TRANSACTION_ID_START + 1) 3 [INSERT_TUPLE 0 2048])) 0 (db_versions example_written) 2 = Inr (Some [[int_value 5]])"
proof (intro allI)
  fix hs :: hashes and ex :: "nat \<Rightarrow> Value \<Rightarrow> bool"
  let ?f = "ConstantFilter COMPARE_EQUAL (int_value 5)" and ?hp = "(\<lambda>_. None)(1 \<mapsto> int_statistic [5, 7])" and ?rows = "[int_value 5, int_value 7]"
  let ?t = "example_tx (TRANSACTION_ID_START + 1) 3 [INSERT_TUPLE 0 2048]"
  note e = example_scan
  obtain info info' where info: "ScanFilterInfo_Initialize [(0, ?f)] [0] = Inr info"
    "RowGroup_CheckZonemap hs ?hp [int_column 1 no_temp_vectors] info = Inr (True, info')" using e(3) by blast
  have types: "\<forall>(index, f) \<in> set [(0, ?f)]. is_optional f \<or> (runnable ((\<lambda>_. int_type) ([0] ! index)) f \<and> no_optional_result f)"
    and rows: "\<forall>c \<in> set [0]. length ((\<lambda>_. ?rows) c) = 2 \<and> set ((\<lambda>_. ?rows) c) \<subseteq> set (visible_rows ([int_column 1 no_temp_vectors] ! c))"
    using e(4,5) by auto
  have t: "?t \<in> set (active example_written)" "2 \<le> rows_in (db_rows example_written) 0" by (simp_all add: rows_in_def STANDARD_VECTOR_SIZE_def)
  obtain sel where sel: "transaction_scan ex (\<lambda>_. int_type) (\<lambda>_. ?rows) [0] [0] info' (tx_data ?t) 0 (db_versions example_written) 2 =
      Inr (if sel = [] then None else Some (map (\<lambda>c. slice_column sel ?rows) [0 :: nat]))" "distinct sel"
    "set sel = {j. j < 2 \<and> Fetch (tx_data ?t) (0 * STANDARD_VECTOR_SIZE + j) (db_versions example_written) = Inr True \<and>
      (\<forall>(index, f) \<in> set [(0 :: nat, ?f)]. is_optional f \<or> selects ex f (?rows ! j))}"
    using transaction_scan_exact [where types = "\<lambda>_. int_type" and vectors = "\<lambda>_. ?rows" and ex = ex,
        OF example_written_reachable example_sizes t e(1,2) info types rows e(6,7)] by (elim exE conjE) (rule that, assumption+)
  have "Fetch (tx_data ?t) (0 * STANDARD_VECTOR_SIZE + j) (db_versions example_written) = Inr True" if "j < 2" for j
    using example_fetch(2) [of j] that by simp
  then have "set sel = {j. j < 2 \<and> (\<forall>(index, f) \<in> set [(0 :: nat, ?f)]. is_optional f \<or> selects ex f (?rows ! j))}"
    unfolding sel(3) by (intro Collect_cong conj_cong refl) blast
  then have "set sel = {0}" using e(9) by simp
  then have "sel = [0]" using sel(2) by (cases sel; cases "tl sel") auto
  then show "\<exists>info info'. ScanFilterInfo_Initialize [(0, ?f)] [0] = Inr info \<and>
     RowGroup_CheckZonemap hs ?hp [int_column 1 no_temp_vectors] info = Inr (True, info') \<and>
     transaction_scan ex (\<lambda>_. int_type) (\<lambda>_. ?rows) [0] [0] info' (tx_data ?t) 0 (db_versions example_written) 2 = Inr (Some [[int_value 5]])"
    using info sel(1) by (auto simp: slice_column_def)
qed

subsection \<open>Deletes, commits and rollbacks\<close>

text \<open>The second transaction of the run has committed, and a third one has started.\<close>

definition example_versions :: RowVersionManager where
  "example_versions = new_version_manager 0\<lparr>vm_unserialized := True,
     vm_vector_info := [Some (ConstantInfo (new_constant_info 0\<lparr>ci_insert_id := 4, ci_delete_id := NOT_DELETED_ID\<rparr>))]\<rparr>"

definition example_committed :: version_db where
  "example_committed =
     \<lparr>db_manager =
        \<lparr>current_start_timestamp = 5, current_transaction_id = TRANSACTION_ID_START + 2, lowest_active_id = TRANSACTION_ID_START,
         lowest_active_start = 2, last_commit = 4, active_transactions = [example_tx TRANSACTION_ID_START 2 []],
         recently_committed_transactions = [example_tx (TRANSACTION_ID_START + 1) 3 [INSERT_TUPLE 0 2048]\<lparr>tx_commit_id := 4\<rparr>],
         old_transactions = [], cleanup_queue = []\<rparr>,
      db_versions = example_versions, db_rows = 2048\<rparr>"

definition example_third :: version_db where
  "example_third = example_committed\<lparr>db_manager := db_manager example_committed
     \<lparr>current_start_timestamp := 6, current_transaction_id := TRANSACTION_ID_START + 3,
      active_transactions := [example_tx TRANSACTION_ID_START 2 [], example_tx (TRANSACTION_ID_START + 2) 5 []]\<rparr>\<rparr>"

lemma example_commit: "CommitTransaction 0 True 1 example_written = Inr example_committed"
  by (simp add: CommitTransaction_def GetCommitTimestamp_def RemoveTransaction_def schedule_cleanup_def ChangesMade_def CommitEntry_def
      CommitAppend_def chunk_CommitAppend.simps constant_CommitAppend_def range_start_def range_end_def end_vector_def STANDARD_VECTOR_SIZE_def
      example_written_def example_committed_def example_versions_def example_db_def example_tx_def Let_def new_version_manager_def
      TRANSACTION_ID_START_def MAX_TRANSACTION_ID_def)

lemma example_third_reachable: "version_reachable 4096 example_third"
proof -
  have clock: "current_start_timestamp (db_manager example_written) < TRANSACTION_ID_START"
    by (simp add: example_written_def example_db_def TRANSACTION_ID_START_def)
  have "version_step 4096 example_written (Some (tx_transaction_id (active example_written ! 1))) example_committed"
    by (rule step_commit [OF _ clock example_commit]) simp
  then have "version_reachable 4096 example_committed" by (rule versions_step [OF example_written_reachable])
  moreover have "StartTransaction (db_manager example_committed) =
      Inr (example_tx (TRANSACTION_ID_START + 2) 5 [], db_manager example_third)"
    by (simp add: StartTransaction_def example_third_def example_committed_def example_tx_def TRANSACTION_ID_START_def Let_def)
  ultimately have "version_reachable 4096 (example_committed\<lparr>db_manager := db_manager example_third\<rparr>)"
    using versions_step step_begin by blast
  then show ?thesis by (simp add: example_third_def)
qed

lemma example_third_simps [simp]:
  "active example_third = [example_tx TRANSACTION_ID_START 2 [], example_tx (TRANSACTION_ID_START + 2) 5 []]" "db_rows example_third = 2048"
  "db_versions example_third = example_versions" "current_start_timestamp (db_manager example_third) = 6"
  by (simp_all add: example_third_def example_committed_def)

lemma example_third_ids:
  assumes "r < 2048"
  shows "row_ins example_versions r = 4" "row_del example_versions r = NOT_DELETED_ID"
proof -
  have "info_at (vm_vector_info example_versions) (r div STANDARD_VECTOR_SIZE) =
      Some (ConstantInfo (new_constant_info 0\<lparr>ci_insert_id := 4, ci_delete_id := NOT_DELETED_ID\<rparr>))"
    using assms by (simp add: example_versions_def info_at_def STANDARD_VECTOR_SIZE_def)
  then show "row_ins example_versions r = 4" "row_del example_versions r = NOT_DELETED_ID"
    by (simp_all add: row_ins_def row_del_def ins_at_def del_at_def)
qed

lemma example_third_seen: "seen (example_tx (TRANSACTION_ID_START + 2) 5 []) example_third = {..<2048}"
proof -
  have "\<not> NOT_DELETED_ID < 5" "NOT_DELETED_ID \<noteq> TRANSACTION_ID_START + 2" by (simp_all add: NOT_DELETED_ID_def TRANSACTION_ID_START_def)
  then have "sees (tx_data (example_tx (TRANSACTION_ID_START + 2) 5 [])) example_versions r" if "r < 2048" for r
    by (simp add: sees_def UseVersion_iff tx_data_def example_third_ids [OF that]) (simp add: example_tx_def)
  then show ?thesis by (auto simp: seen_def)
qed

text \<open>C18: A delete of rows that the transaction sees marks them all and counts them, or, when another
  transaction has deleted one of them since, throws and counts none; no other row changes.\<close>
theorem delete_marks_all_or_conflicts:
  assumes "version_reachable size_max db" "size_max \<le> MAX_ROW_GROUP_SIZE" "k < length (active db)" "t = active db ! k" "no_insert (tx_undo t)"
    and "distinct rows" "length rows \<le> STANDARD_VECTOR_SIZE" "\<forall>r \<in> set rows. r < db_rows db \<and> Fetch (tx_data t) r (db_versions db) = Inr True"
    and "RowGroup_Delete (tx_transaction_id t) 0 rows (db_versions db) (tx_undo t) = ((mgr, undo), answer)"
  shows "(if \<forall>r \<in> set rows. row_del (db_versions db) r = NOT_DELETED_ID
      then answer = Inr (length rows) \<and> (\<forall>r \<in> set rows. row_del mgr r = tx_transaction_id t)
      else answer = Inl TransactionException) \<and>
    (\<forall>r < db_rows db. row_ins mgr r = row_ins (db_versions db) r \<and> (r \<notin> set rows \<longrightarrow> row_del mgr r = row_del (db_versions db) r))"
proof -
  have t: "t \<in> set (active db)" using assms(3,4) by simp
  have seen: "set rows \<subseteq> seen t db" using assms(8) Fetch_seen(2) [OF assms(1,2) t] by blast
  note d = delete_step [OF reachable_ok [OF assms(1,2)] assms(3-7) seen assms(9) refl]
  show ?thesis using d(2,6) by (auto simp: marks_def)
qed

lemma delete_marks_all_or_conflicts_witness:
  "snd (RowGroup_Delete (TRANSACTION_ID_START + 2) 0 [3, 5] example_versions []) = Inr 2 \<and>
   row_del (fst (fst (RowGroup_Delete (TRANSACTION_ID_START + 2) 0 [3, 5] example_versions []))) 5 = TRANSACTION_ID_START + 2"
proof -
  let ?t = "example_tx (TRANSACTION_ID_START + 2) 5 []"
  obtain mgr undo answer where run: "RowGroup_Delete (tx_transaction_id ?t) 0 [3, 5] (db_versions example_third) (tx_undo ?t) = ((mgr, undo), answer)"
    by (metis surj_pair)
  have t: "1 < length (active example_third)" "?t = active example_third ! 1" "no_insert (tx_undo ?t)" "distinct [3, 5 :: nat]" "length [3, 5] \<le> STANDARD_VECTOR_SIZE"
    by (simp_all add: example_tx_def no_insert_def STANDARD_VECTOR_SIZE_def)
  have seen: "r < db_rows example_third \<and> Fetch (tx_data ?t) r (db_versions example_third) = Inr True" if "r < 2048" for r
    using Fetch_seen(2) [OF example_third_reachable example_sizes, of ?t r] that by (simp add: example_third_seen)
  have rows: "\<forall>r \<in> set [3, 5]. r < db_rows example_third \<and> Fetch (tx_data ?t) r (db_versions example_third) = Inr True"
    using seen [of 3] seen [of 5] by simp
  show ?thesis
    using delete_marks_all_or_conflicts [OF example_third_reachable example_sizes t rows run] run example_third_ids [of 3] example_third_ids [of 5]
    by (simp add: example_tx_def)
qed



text \<open>C16: A commit publishes all changes of its transaction at once: a transaction that starts next reads
  the rows committed before, without those it deleted, and with those it inserted.\<close>
theorem commit_publishes_changes:
  assumes "version_reachable size_max db" "size_max \<le> MAX_ROW_GROUP_SIZE" "k < length (active db)" "t = active db ! k"
    and "current_start_timestamp (db_manager db) < TRANSACTION_ID_START"
    and "CommitTransaction current_query store_transaction k db = Inr db'" "StartTransaction (db_manager db') = Inr (u, m)"
  shows "{r. r < db_rows db' \<and> Fetch (tx_data u) r (db_versions db') = Inr True} = committed_rows db - deleted t db \<union> inserted t db"
proof -
  let ?next = "db'\<lparr>db_manager := m\<rparr>"
  note ok = reachable_ok [OF assms(1,2)]
  have t: "t \<in> set (active db)" using assms(3,4) by simp
  have c: "db_ok size_max db'" "current_start_timestamp (db_manager db') = current_start_timestamp (db_manager db) + 1" "db_rows db' = db_rows db"
    "commits (tx_transaction_id t) (current_start_timestamp (db_manager db)) (db_rows db) (db_versions db) (db_versions db')"
    using commit_step [OF ok assms(3,5,2,4), of current_query store_transaction] assms(6) by auto
  have reached: "version_reachable size_max ?next"
    using versions_step [OF versions_step [OF assms(1) step_commit [OF assms(3,5,6)]] step_begin [OF assms(7)]] .
  have u: "u \<in> set (active ?next)" using StartTransaction_result(9) [OF assms(7)] by simp
  have "seen u ?next = committed_rows db'" using begin_view(2) [OF c(1) assms(7)] by (simp add: view_def)
  also have "\<dots> = committed_rows db - deleted t db \<union> inserted t db" by (rule commit_committed [OF ok t c(4,3,2) assms(5)])
  finally show ?thesis using Fetch_seen(2) [OF reached assms(2) u] by auto
qed

lemma commit_publishes_changes_witness:
  "{r. r < 2048 \<and> Fetch (tx_data (example_tx (TRANSACTION_ID_START + 2) 5 [])) r example_versions = Inr True} =
   committed_rows example_written - deleted (example_tx (TRANSACTION_ID_START + 1) 3 [INSERT_TUPLE 0 2048]) example_written \<union>
     inserted (example_tx (TRANSACTION_ID_START + 1) 3 [INSERT_TUPLE 0 2048]) example_written"
proof -
  have k: "1 < length (active example_written)" "example_tx (TRANSACTION_ID_START + 1) 3 [INSERT_TUPLE 0 2048] = active example_written ! 1"
    "current_start_timestamp (db_manager example_written) < TRANSACTION_ID_START"
    by simp_all (simp add: example_written_def example_db_def TRANSACTION_ID_START_def)
  have start: "StartTransaction (db_manager example_committed) = Inr (example_tx (TRANSACTION_ID_START + 2) 5 [], db_manager example_third)"
    by (simp add: StartTransaction_def example_third_def example_committed_def example_tx_def TRANSACTION_ID_START_def Let_def)
  show ?thesis
    using commit_publishes_changes [OF example_written_reachable example_sizes k example_commit start] by (simp add: example_committed_def)
qed



subsection \<open>Deletes that have not been committed\<close>

text \<open>The scan of the committed rows leaves out the rows that a running transaction has marked as
  deleted, although others still see them: it keeps those that are not marked, and those whose
  deletion was committed at the lowest start time or later.\<close>
theorem committed_scan_rows:
  assumes "version_reachable size_max db" "size_max \<le> MAX_ROW_GROUP_SIZE" "n \<le> rows_in (db_rows db) i"
  shows "\<exists>sel. GetCommittedSelVector lowest_start transaction_id i (db_versions db) n = Inr sel \<and>
    selected_rows sel n = filter (\<lambda>j. let d = row_del (db_versions db) (i * STANDARD_VECTOR_SIZE + j)
      in d = NOT_DELETED_ID \<or> (lowest_start \<le> d \<and> d < TRANSACTION_ID_START)) [0..<n]"
proof -
  obtain sel where sel: "GetCommittedSelVector lowest_start transaction_id i (db_versions db) n = Inr sel"
    "selected_rows sel n = filter (\<lambda>j. UseDeletedVersion CommittedVersionOperator lowest_start transaction_id
       (row_del (db_versions db) (i * STANDARD_VECTOR_SIZE + j))) [0..<n]"
    using GetCommittedSelVector_rows [OF reachable_clock(2) [OF assms(1,2)] assms(3)] by blast
  have "UseDeletedVersion CommittedVersionOperator lowest_start transaction_id d \<longleftrightarrow> d = NOT_DELETED_ID \<or> (lowest_start \<le> d \<and> d < TRANSACTION_ID_START)" for d
    by (auto simp: CommittedVersionOperator_def)
  then show ?thesis using sel by (simp add: Let_def)
qed


end
