(* ===== verification/ByteStream.thy ===== *)
theory ByteStream
  imports Prelude
begin

text \<open>
  The streams that statistics and versions are written to (\<open>common/serializer/write_stream.hpp\<close>,
  \<open>read_stream.hpp\<close>). A stream is the list of its bytes; a number is written with its lowest byte
  first, as on the machines the code is built for. Reading past the end throws, as the metadata
  reader does when it has no block left.
\<close>

unbundle bit_operations_syntax

type_synonym bytes = "8 word list"

definition stream_Write :: "nat \<Rightarrow> 64 word \<Rightarrow> bytes" where
  "stream_Write n v = map (\<lambda>i. ucast (drop_bit (8 * i) v)) [0..<n]"

definition number_of_bytes :: "bytes \<Rightarrow> 64 word" where
  "number_of_bytes bs = foldr (\<lambda>b v. ucast b OR push_bit 8 v) bs 0"

definition stream_Read :: "nat \<Rightarrow> bytes \<Rightarrow> (64 word \<times> bytes) result" where
  "stream_Read n bs = (if length bs < n then Inl IOException else Inr (number_of_bytes (take n bs), drop n bs))"

lemma length_stream_Write [simp]: "length (stream_Write n v) = n"
  by (simp add: stream_Write_def)

lemma stream_Write_Suc: "stream_Write (Suc n) v = ucast v # stream_Write n (drop_bit 8 v)"
  unfolding stream_Write_def upt_conv_Cons [OF zero_less_Suc] map_Suc_upt [symmetric] by (simp add: add.commute)

lemma low_byte_and_rest: "(ucast (ucast v :: 8 word) :: 64 word) OR push_bit 8 (take_bit n (drop_bit 8 v)) = take_bit (8 + n) v"
  by (rule bit_word_eqI) (auto simp: bit_simps)

lemma number_of_bytes_Write: "number_of_bytes (stream_Write n v) = take_bit (8 * n) v"
proof (induction n arbitrary: v)
  case (Suc n)
  then show ?case by (simp add: stream_Write_Suc number_of_bytes_def low_byte_and_rest)
qed (simp add: stream_Write_def number_of_bytes_def)

lemma stream_Read_Write: "stream_Read n (stream_Write n v @ rest) = Inr (take_bit (8 * n) v, rest)"
  by (simp add: stream_Read_def number_of_bytes_Write)

text \<open>Reading gives the number back if the bytes are enough for it.\<close>

lemma stream_roundtrip:
  assumes "k < 2 ^ (8 * n)" "n \<le> 8"
  shows "stream_Read n (stream_Write n (word_of_nat k) @ rest) = Inr (word_of_nat k, rest)" "unat (word_of_nat k :: 64 word) = k"
proof -
  have "(2 :: nat) ^ (8 * n) \<le> 2 ^ 64" using assms(2) by (intro power_increasing) simp_all
  then show u: "unat (word_of_nat k :: 64 word) = k" using assms(1) by (simp add: unat_of_nat)
  have "take_bit (8 * n) (word_of_nat k :: 64 word) = word_of_nat k"
    by (rule word_unat_eq_iff [THEN iffD2]) (simp add: unsigned_take_bit_eq u take_bit_nat_eq_self assms(1))
  then show "stream_Read n (stream_Write n (word_of_nat k) @ rest) = Inr (word_of_nat k, rest)" by (simp add: stream_Read_Write)
qed

lemma stream_Read_word [simp]: "stream_Read 8 (stream_Write 8 (v :: 64 word) @ rest) = Inr (v, rest)"
  by (simp add: stream_Read_Write take_bit_word_eq_self)

subsection \<open>Loops that read what a loop has written\<close>

text \<open>
  What a reader of items promises: given the bytes of an item it takes them from the stream and
  updates its state with the item. The loop then takes the bytes of any list of items.
\<close>

locale item_stream =
  fixes write_item :: "'a \<Rightarrow> bytes"
    and read_item :: "'s \<times> bytes \<Rightarrow> ('s \<times> bytes) result"
    and step :: "'a \<Rightarrow> 's \<Rightarrow> 's"
    and item :: "'a \<Rightarrow> bool"
    and state :: "'s \<Rightarrow> bool"
  assumes read_item: "item x \<Longrightarrow> state s \<Longrightarrow> read_item (s, write_item x @ rest) = Inr (step x s, rest)"
    and keeps_state: "item x \<Longrightarrow> state s \<Longrightarrow> state (step x s)"
begin

lemma read_items:
  assumes "\<forall>x \<in> set xs. item x" "state s"
  shows "fold_result (\<lambda>_. read_item) [a..<a + length xs] (s, concat (map write_item xs) @ rest) = Inr (fold step xs s, rest)"
  using assms
proof (induction xs arbitrary: a s)
  case (Cons x xs)
  have "fold_result (\<lambda>_. read_item) [Suc a..<Suc a + length xs] (step x s, concat (map write_item xs) @ rest) = Inr (fold step xs (step x s), rest)"
    using Cons.prems by (intro Cons.IH) (simp_all add: keeps_state)
  moreover have "[a..<a + length (x # xs)] = a # [Suc a..<Suc a + length xs]" by (subst upt_conv_Cons) simp_all
  ultimately show ?case using Cons.prems by (simp only:) (simp add: read_item del: upt_Suc)
qed simp

lemma items_state: "\<forall>x \<in> set xs. item x \<Longrightarrow> state s \<Longrightarrow> state (fold step xs s)"
  by (induction xs arbitrary: s) (simp_all add: keeps_state)

end

end
