(* ===== verification/ValidityMask.thy ===== *)
theory ValidityMask
  imports ByteStream
begin

text \<open>
  Masks with one bit for a row (\<open>common/types/validity_mask.hpp\<close>), the count of their bits, and
  their three encodings in a stream (\<open>validity_mask.cpp\<close>): all words, the rows whose bit is
  set, or those whose bit is not set, whichever takes the fewest bytes.
\<close>

unbundle bit_operations_syntax

subsection \<open>The mask\<close>

definition BITS_PER_VALUE :: nat where "BITS_PER_VALUE = 64"
definition MAX_ENTRY :: "64 word" where "MAX_ENTRY = NOT 0"

definition EntryCount :: "nat \<Rightarrow> nat" where
  "EntryCount n = (n + (BITS_PER_VALUE - 1)) div BITS_PER_VALUE"

definition ValidityMaskSize :: "nat \<Rightarrow> nat" where "ValidityMaskSize n = EntryCount n * 8"

text \<open>The words of a mask; without words every row is valid.\<close>

record ValidityMask =
  mask_data :: "64 word list option"
  mask_capacity :: nat

definition new_mask :: "nat \<Rightarrow> ValidityMask" where
  "new_mask capacity = \<lparr>mask_data = None, mask_capacity = capacity\<rparr>"

definition mask_Initialize :: "nat \<Rightarrow> ValidityMask" where
  "mask_Initialize n = \<lparr>mask_data = Some (replicate (EntryCount n) MAX_ENTRY), mask_capacity = n\<rparr>"

definition entry_RowIsValid :: "64 word \<Rightarrow> nat \<Rightarrow> bool" where
  "entry_RowIsValid entry idx_in_entry \<longleftrightarrow> entry AND push_bit idx_in_entry 1 \<noteq> 0"

definition RowIsValid :: "ValidityMask \<Rightarrow> nat \<Rightarrow> bool result" where
  "RowIsValid m row_idx =
     (case mask_data m of
        None \<Rightarrow> Inr True
      | Some entries \<Rightarrow>
          if row_idx div BITS_PER_VALUE \<ge> length entries then Inl OutOfBounds
          else Inr (entry_RowIsValid (entries ! (row_idx div BITS_PER_VALUE)) (row_idx mod BITS_PER_VALUE)))"

definition update_entry :: "nat \<Rightarrow> (64 word \<Rightarrow> 64 word) \<Rightarrow> 64 word list \<Rightarrow> ValidityMask \<Rightarrow> ValidityMask result" where
  "update_entry i f entries m =
     (if i \<ge> length entries then Inl OutOfBounds else Inr (m\<lparr>mask_data := Some (entries[i := f (entries ! i)])\<rparr>))"

definition SetValid :: "nat \<Rightarrow> ValidityMask \<Rightarrow> ValidityMask result" where
  "SetValid row_idx m =
     (case mask_data m of
        None \<Rightarrow> Inr m
      | Some entries \<Rightarrow>
          update_entry (row_idx div BITS_PER_VALUE) (\<lambda>entry. entry OR push_bit (row_idx mod BITS_PER_VALUE) 1) entries m)"

definition EnsureWritable :: "ValidityMask \<Rightarrow> ValidityMask" where
  "EnsureWritable m = (if mask_data m = None then mask_Initialize (mask_capacity m) else m)"

definition SetInvalid :: "nat \<Rightarrow> ValidityMask \<Rightarrow> ValidityMask result" where
  "SetInvalid row_idx m =
     (let m = EnsureWritable m
      in update_entry (row_idx div BITS_PER_VALUE) (\<lambda>entry. entry AND NOT (push_bit (row_idx mod BITS_PER_VALUE) 1))
           (the (mask_data m)) m)"

definition mask_Set :: "nat \<Rightarrow> bool \<Rightarrow> ValidityMask \<Rightarrow> ValidityMask result" where
  "mask_Set row_idx valid m = (if valid then SetValid row_idx m else SetInvalid row_idx m)"

definition SetRangeInvalid :: "nat \<Rightarrow> nat \<Rightarrow> nat \<Rightarrow> ValidityMask \<Rightarrow> ValidityMask result" where
  "SetRangeInvalid n begin_entry end_entry m =
     (let m = EnsureWritable m; entries = the (mask_data m); last_entry_index = EntryCount n - 1
      in if n = 0 then Inr m
         else bind_result
           (fold_result (\<lambda>i entries. if i \<ge> length entries then Inl OutOfBounds else Inr (entries[i := 0]))
              [begin_entry..<min last_entry_index end_entry] entries)
           (\<lambda>entries.
              if end_entry \<le> last_entry_index then Inr (m\<lparr>mask_data := Some entries\<rparr>)
              else let last_entry_bits = n mod BITS_PER_VALUE
                   in update_entry last_entry_index
                        (\<lambda>_. if last_entry_bits = 0 then 0 else push_bit last_entry_bits MAX_ENTRY) entries m))"

definition SetAllInvalid :: "nat \<Rightarrow> ValidityMask \<Rightarrow> ValidityMask result" where
  "SetAllInvalid n m = SetRangeInvalid n 0 (EntryCount n) m"

text \<open>Each round of the loop takes the lowest bit away.\<close>

function count_bits :: "64 word \<Rightarrow> nat \<Rightarrow> nat" where
  "count_bits entry valid = (if entry = 0 then valid else count_bits (entry AND (entry - 1)) (valid + 1))"
  by auto

definition CountValid :: "nat \<Rightarrow> ValidityMask \<Rightarrow> nat result" where
  "CountValid n m =
     (case mask_data m of
        None \<Rightarrow> Inr n
      | Some entries \<Rightarrow>
          if n = 0 then Inr 0
          else if EntryCount n > length entries then Inl OutOfBounds
          else Inr (fold (\<lambda>entry_idx valid.
                 let entry = entries ! entry_idx
                 in if entry_idx + 1 = EntryCount n \<and> n mod BITS_PER_VALUE \<noteq> 0
                    then count_bits (entry AND drop_bit (BITS_PER_VALUE - n mod BITS_PER_VALUE) MAX_ENTRY) valid
                    else if entry = MAX_ENTRY then valid + BITS_PER_VALUE
                    else count_bits entry valid) [0..<EntryCount n] 0))"

subsection \<open>Writing and reading\<close>

definition BITMASK :: "64 word" where "BITMASK = 0"
definition VALID_VALUES :: "64 word" where "VALID_VALUES = 1"
definition INVALID_VALUES :: "64 word" where "INVALID_VALUES = 2"

definition need_u32 :: "nat \<Rightarrow> bool" where "need_u32 n \<longleftrightarrow> n \<ge> 2 ^ 16 - 1"
definition bytes_per_value :: "nat \<Rightarrow> nat" where "bytes_per_value n = (if need_u32 n then 4 else 2)"

definition write_rows :: "nat \<Rightarrow> bool \<Rightarrow> nat \<Rightarrow> bool list \<Rightarrow> bytes" where
  "write_rows n serialize_valid count_values rows =
     stream_Write 1 (if serialize_valid then VALID_VALUES else INVALID_VALUES) @ stream_Write 4 (word_of_nat count_values) @
     concat (map (\<lambda>i. if rows ! i = serialize_valid then stream_Write (bytes_per_value n) (word_of_nat i) else []) [0..<n])"

definition mask_Write :: "nat \<Rightarrow> ValidityMask \<Rightarrow> bytes result" where
  "mask_Write n m =
     bind_result (CountValid n m) (\<lambda>valid_values.
       let invalid_values = n - valid_values; bitmask_bytes = ValidityMaskSize n;
           valid_value_size = bytes_per_value n * valid_values + 4; invalid_value_size = bytes_per_value n * invalid_values + 4
       in if valid_value_size < bitmask_bytes \<or> invalid_value_size < bitmask_bytes
          then if min valid_values invalid_values \<ge> 2 ^ 32 then Inl InternalException
               else bind_result (map_result (RowIsValid m) [0..<n]) (\<lambda>rows.
                 Inr (write_rows n (valid_value_size < invalid_value_size) (min valid_values invalid_values) rows))
          else case mask_data m of
                 None \<Rightarrow> if bitmask_bytes = 0 then Inr (stream_Write 1 BITMASK) else Inl OutOfBounds
               | Some entries \<Rightarrow>
                   if EntryCount n > length entries then Inl OutOfBounds
                   else Inr (stream_Write 1 BITMASK @ concat (map (stream_Write 8) (take (EntryCount n) entries))))"

definition read_row :: "nat \<Rightarrow> bool \<Rightarrow> ValidityMask \<times> bytes \<Rightarrow> (ValidityMask \<times> bytes) result" where
  "read_row n is_valid = (\<lambda>(m, bs).
     bind_result (stream_Read (bytes_per_value n) bs) (\<lambda>(index, bs).
       bind_result (mask_Set (unat index) is_valid m) (\<lambda>m. Inr (m, bs))))"

definition read_entry :: "64 word list \<times> bytes \<Rightarrow> (64 word list \<times> bytes) result" where
  "read_entry = (\<lambda>(entries, bs). bind_result (stream_Read 8 bs) (\<lambda>(entry, bs). Inr (entries @ [entry], bs)))"

definition mask_Read :: "nat \<Rightarrow> bytes \<Rightarrow> (ValidityMask \<times> bytes) result" where
  "mask_Read n bs =
     bind_result (stream_Read 1 bs) (\<lambda>(flag, bs).
       if flag = BITMASK
       then bind_result (fold_result (\<lambda>_. read_entry) [0..<EntryCount n] ([], bs)) (\<lambda>(entries, bs).
              Inr ((mask_Initialize n)\<lparr>mask_data := Some entries\<rparr>, bs))
       else let is_valid = (flag = VALID_VALUES)
            in bind_result (stream_Read 4 bs) (\<lambda>(serialize_count, bs).
                 bind_result (if is_valid then SetAllInvalid n (mask_Initialize n) else Inr (mask_Initialize n)) (\<lambda>m.
                   fold_result (\<lambda>_. read_row n is_valid) [0..<unat serialize_count] (m, bs))))"

subsection \<open>Counting the bits of a word\<close>

definition bits_of :: "nat \<Rightarrow> nat set" where "bits_of n = {i. bit n i}"

lemma finite_bits_of: "finite (bits_of n)"
proof -
  have "i < n" if "bit n i" for i
  proof -
    have "n div 2 ^ i \<noteq> 0" using that by (auto simp: bit_iff_odd intro!: Nat.gr0I)
    then have "2 ^ i \<le> n" by (meson div_less linorder_not_le)
    then show ?thesis using less_exp [of i] by linarith
  qed
  then have "bits_of n \<subseteq> {..<n}" by (auto simp: bits_of_def)
  then show ?thesis using finite_subset by blast
qed

lemma bits_of_step: "bits_of (of_bool b + 2 * n) = (if b then {0} else {}) \<union> Suc ` bits_of n"
proof -
  have "i \<in> bits_of (of_bool b + 2 * n) \<longleftrightarrow> i \<in> (if b then {0} else {}) \<union> Suc ` bits_of n" for i
    by (cases i) (auto simp: bits_of_def bit_0 bit_Suc)
  then show ?thesis by blast
qed

lemma card_bits_of_step: "card (bits_of (of_bool b + 2 * n)) = of_bool b + card (bits_of n)"
proof -
  have "card (Suc ` bits_of n) = card (bits_of n)" by (rule card_image) simp
  then show ?thesis unfolding bits_of_step by (simp add: finite_bits_of)
qed

lemma card_bits_of_and_pred: "0 < n \<Longrightarrow> card (bits_of (n AND (n - 1))) + 1 = card (bits_of n)"
proof (induction n rule: less_induct)
  case (less n)
  have n: "n = of_bool (odd n) + 2 * (n div 2)" by (cases "even n") simp_all
  have a: "n AND (n - 1) = of_bool (odd n \<and> odd (n - 1)) + 2 * ((n div 2) AND ((n - 1) div 2))" by (rule and_rec)
  have "card (bits_of n) = of_bool (odd n) + card (bits_of (n div 2))" by (subst n) (rule card_bits_of_step)
  moreover have "card (bits_of (n AND (n - 1))) = of_bool (odd n \<and> odd (n - 1)) + card (bits_of ((n div 2) AND ((n - 1) div 2)))"
    by (subst a) (rule card_bits_of_step)
  moreover have "0 < n div 2 \<and> n div 2 < n \<and> (n - 1) div 2 = n div 2 - 1" if "even n" using that less.prems by (auto elim!: evenE)
  moreover have "even (n - 1) \<and> (n - 1) div 2 = n div 2" if "odd n" using that less.prems by (auto elim!: oddE)
  ultimately show ?case using less.IH [of "n div 2"] by (cases "even n") simp_all
qed

lemma unat_and_pred: "entry \<noteq> 0 \<Longrightarrow> unat (entry AND (entry - 1)) = unat entry AND (unat entry - 1)"
  for entry :: "64 word"
  by (simp add: unsigned_and_eq unat_minus_one)

termination count_bits
proof (relation "measure (\<lambda>(entry, valid). unat entry)")
  fix entry :: "64 word" and valid :: nat
  assume "entry \<noteq> 0"
  moreover have "unat (entry AND (entry - 1)) \<le> unat (entry - 1)"
    using word_and_le2 [of "entry - 1" entry] by (simp add: word_le_nat_alt and.commute)
  ultimately have "0 < unat entry" "unat (entry AND (entry - 1)) \<le> unat entry - 1"
    by (simp_all add: unat_gt_0 unat_minus_one)
  then show "((entry AND (entry - 1), valid + 1), (entry, valid)) \<in> measure (\<lambda>(entry, valid). unat entry)" by simp
qed simp

declare count_bits.simps [simp del]

lemma count_bits_card: "count_bits entry valid = valid + card {i. bit entry i}"
proof (induction entry valid rule: count_bits.induct)
  case (1 entry valid)
  have bits: "{i. bit w i} = bits_of (unat w)" for w :: "64 word"
    by (auto simp: bits_of_def bit_unsigned_iff possible_bit_def dest: bit_imp_le_length)
  show ?case
  proof (cases "entry = 0")
    case False
    then show ?thesis
      using 1 card_bits_of_and_pred [of "unat entry"]
      by (subst count_bits.simps) (simp add: bits unat_and_pred unat_gt_0)
  qed (simp add: count_bits.simps)
qed

subsection \<open>What the operations do to the rows\<close>

definition row_valid :: "ValidityMask \<Rightarrow> nat \<Rightarrow> bool" where
  "row_valid m r = (case mask_data m of None \<Rightarrow> True | Some entries \<Rightarrow> bit (entries ! (r div BITS_PER_VALUE)) (r mod BITS_PER_VALUE))"

definition mask_covers :: "nat \<Rightarrow> ValidityMask \<Rightarrow> bool" where
  "mask_covers n m = (case mask_data m of None \<Rightarrow> True | Some entries \<Rightarrow> EntryCount n \<le> length entries)"

text \<open>A mask that has its words, as all masks have that are read from a stream.\<close>

definition mask_words :: "nat \<Rightarrow> ValidityMask \<Rightarrow> bool" where
  "mask_words n m \<longleftrightarrow> (\<exists>entries. mask_data m = Some entries \<and> length entries = EntryCount n)"

lemma entry_index: "r < n \<Longrightarrow> r div BITS_PER_VALUE < EntryCount n"
  unfolding EntryCount_def BITS_PER_VALUE_def by linarith

lemma row_index: "r mod BITS_PER_VALUE < 64"
  by (simp add: BITS_PER_VALUE_def)

lemma mask_words_covers: "mask_words n m \<Longrightarrow> mask_covers n m"
  by (auto simp: mask_words_def mask_covers_def)

lemma entry_RowIsValid_bit: "entry_RowIsValid entry i \<longleftrightarrow> bit entry i"
  by (simp add: entry_RowIsValid_def bit_iff_and_push_bit_not_eq_0)

lemma RowIsValid_row: "mask_covers n m \<Longrightarrow> r < n \<Longrightarrow> RowIsValid m r = Inr (row_valid m r)"
  using entry_index [of r n]
  by (auto simp: RowIsValid_def mask_covers_def row_valid_def entry_RowIsValid_bit split: option.splits)

lemma mask_Initialize_words: "mask_words n (mask_Initialize n)" "r < n \<Longrightarrow> row_valid (mask_Initialize n) r"
  using entry_index [of r n] row_index [of r]
  by (simp_all add: mask_words_def mask_Initialize_def row_valid_def MAX_ENTRY_def bit_simps)

lemma mask_Set_row:
  assumes "mask_words n m" "r < n"
  shows "\<exists>m'. mask_Set r v m = Inr m' \<and> mask_words n m' \<and> (\<forall>q. row_valid m' q = (if q = r then v else row_valid m q))"
proof -
  obtain es where es: "mask_data m = Some es" "length es = EntryCount n" using assms(1) by (auto simp: mask_words_def)
  let ?i = "r div BITS_PER_VALUE" and ?k = "r mod BITS_PER_VALUE"
  define f where "f entry = (if v then entry OR push_bit ?k 1 else entry AND NOT (push_bit ?k 1))" for entry :: "64 word"
  have i: "?i < length es" using entry_index [OF assms(2)] es(2) by simp
  have set: "mask_Set r v m = Inr (m\<lparr>mask_data := Some (es[?i := f (es ! ?i)])\<rparr>)"
    using i by (auto simp: mask_Set_def SetValid_def SetInvalid_def EnsureWritable_def update_entry_def es f_def Let_def)
  have bits: "bit (f entry) k = (if k = ?k then v else bit entry k)" if "k < 64" for entry k
    using that by (auto simp: f_def bit_simps)
  have eq: "q = r \<longleftrightarrow> q div BITS_PER_VALUE = ?i \<and> q mod BITS_PER_VALUE = ?k" for q
    by (metis div_mult_mod_eq)
  have "row_valid (m\<lparr>mask_data := Some (es[?i := f (es ! ?i)])\<rparr>) q = (if q = r then v else row_valid m q)" for q
    using i bits [OF row_index [of q]] by (cases "q div BITS_PER_VALUE = ?i") (auto simp: row_valid_def es(1) eq)
  then show ?thesis unfolding set by (intro exI [of _ "m\<lparr>mask_data := Some (es[?i := f (es ! ?i)])\<rparr>"]) (simp add: mask_words_def es)
qed

lemma clear_entries:
  assumes "k \<le> length entries"
  shows "fold_result (\<lambda>i entries. if i \<ge> length entries then Inl OutOfBounds else Inr (entries[i := 0])) [0..<k] entries
    = Inr (replicate k (0 :: 64 word) @ drop k entries)"
  using assms
proof (induction k)
  case (Suc k)
  have "(replicate k 0 @ drop k entries)[k := 0] = replicate (Suc k) (0 :: 64 word) @ drop (Suc k) entries"
    using Suc.prems by (simp add: list_update_append Cons_nth_drop_Suc [symmetric] replicate_app_Cons_same)
  then show ?case using Suc by (simp add: fold_result_append)
qed simp

lemma last_entry: "n mod BITS_PER_VALUE \<noteq> 0 \<Longrightarrow> EntryCount n - 1 = n div BITS_PER_VALUE"
proof -
  assume "n mod BITS_PER_VALUE \<noteq> 0"
  then have "n + (BITS_PER_VALUE - 1) = (n mod BITS_PER_VALUE - 1) + (n div BITS_PER_VALUE + 1) * BITS_PER_VALUE"
    using div_mult_mod_eq [of n BITS_PER_VALUE] by (simp add: BITS_PER_VALUE_def)
  moreover have "(n mod BITS_PER_VALUE - 1) div BITS_PER_VALUE = 0" by (simp add: BITS_PER_VALUE_def)
  ultimately have "EntryCount n = n div BITS_PER_VALUE + 1"
    unfolding EntryCount_def by (simp only: div_mult_self1) (simp add: BITS_PER_VALUE_def)
  then show ?thesis by simp
qed

lemma last_row:
  assumes "r < n" "r div BITS_PER_VALUE = EntryCount n - 1"
  shows "n mod BITS_PER_VALUE = 0 \<or> r mod BITS_PER_VALUE < n mod BITS_PER_VALUE"
  using assms last_entry [of n] div_mult_mod_eq [of n BITS_PER_VALUE] div_mult_mod_eq [of r BITS_PER_VALUE] by (metis nat_add_left_cancel_less)

lemma SetAllInvalid_rows:
  "\<exists>m. SetAllInvalid n (mask_Initialize n) = Inr m \<and> mask_words n m \<and> (\<forall>r < n. \<not> row_valid m r)"
proof (cases "n = 0")
  case True
  then show ?thesis
    using mask_Initialize_words(1) by (simp add: SetAllInvalid_def SetRangeInvalid_def EnsureWritable_def mask_Initialize_def)
next
  case False
  let ?k = "EntryCount n - 1"
  define e :: "64 word" where "e = (if n mod BITS_PER_VALUE = 0 then 0 else push_bit (n mod BITS_PER_VALUE) MAX_ENTRY)"
  define m where "m = (mask_Initialize n)\<lparr>mask_data := Some (replicate ?k 0 @ [e])\<rparr>"
  have k: "0 < EntryCount n" "?k < EntryCount n" using entry_index [of 0 n] False by simp_all
  have one: "drop ?k (replicate (EntryCount n) x) = [x]" for x :: "64 word" using k by simp
  have set: "SetAllInvalid n (mask_Initialize n) = Inr m"
    using False k clear_entries [of ?k "replicate (EntryCount n) MAX_ENTRY"]
    by (simp add: SetAllInvalid_def SetRangeInvalid_def EnsureWritable_def mask_Initialize_def Let_def one update_entry_def
        list_update_append m_def e_def min_def)
  have "\<not> row_valid m r" if "r < n" for r
  proof (cases "r div BITS_PER_VALUE < ?k")
    case True
    then show ?thesis by (simp add: m_def row_valid_def nth_append)
  next
    case last: False
    then have "r div BITS_PER_VALUE = ?k" using entry_index [OF that] by linarith
    moreover have "n mod BITS_PER_VALUE = 0 \<or> r mod BITS_PER_VALUE < n mod BITS_PER_VALUE"
      using last_row [OF that calculation] by blast
    ultimately show ?thesis by (auto simp: m_def row_valid_def nth_append e_def bit_simps)
  qed
  moreover have "mask_words n m" using k by (simp add: mask_words_def m_def)
  ultimately show ?thesis using set by blast
qed

subsection \<open>The count is that of the valid rows\<close>

lemma card_block:
  assumes "(j :: nat) * BITS_PER_VALUE \<le> n"
  shows "card {r. r < min ((j + 1) * BITS_PER_VALUE) n \<and> P r} =
    card {r. r < j * BITS_PER_VALUE \<and> P r} + card {i. i < min BITS_PER_VALUE (n - j * BITS_PER_VALUE) \<and> P (j * BITS_PER_VALUE + i)}"
proof -
  let ?b = "j * BITS_PER_VALUE" and ?I = "{i. i < min BITS_PER_VALUE (n - j * BITS_PER_VALUE) \<and> P (j * BITS_PER_VALUE + i)}"
  have split: "{r. r < min ((j + 1) * BITS_PER_VALUE) n \<and> P r} = {r. r < ?b \<and> P r} \<union> (+) ?b ` ?I"
  proof (intro set_eqI iffI)
    fix r
    assume r: "r \<in> {r. r < min ((j + 1) * BITS_PER_VALUE) n \<and> P r}"
    show "r \<in> {r. r < ?b \<and> P r} \<union> (+) ?b ` ?I"
    proof (cases "r < ?b")
      case False
      then have "r = ?b + (r - ?b)" "r - ?b \<in> ?I" using r by auto
      then show ?thesis by blast
    qed (use r in simp)
  next
    fix r
    assume "r \<in> {r. r < ?b \<and> P r} \<union> (+) ?b ` ?I"
    then show "r \<in> {r. r < min ((j + 1) * BITS_PER_VALUE) n \<and> P r}" using assms by auto
  qed
  have "card ((+) ?b ` ?I) = card ?I" by (rule card_image) simp
  moreover have "{r. r < ?b \<and> P r} \<inter> (+) ?b ` ?I = {}" by auto
  ultimately show ?thesis unfolding split by (simp add: card_Un_disjoint)
qed

lemma count_entry:
  assumes "k \<le> 64" "k = 64 \<or> masked"
  shows "(if masked then count_bits (entry AND drop_bit (64 - k) MAX_ENTRY) valid
      else if entry = MAX_ENTRY then valid + 64 else count_bits entry valid) = valid + card {i. i < k \<and> bit entry i}"
proof -
  have "{i. bit (entry AND drop_bit (64 - k) MAX_ENTRY) i} = {i. i < k \<and> bit entry i}"
    using assms(1) by (auto simp: MAX_ENTRY_def bit_simps dest: bit_imp_le_length)
  moreover have "{i. bit entry i} = {i. i < k \<and> bit entry i}" if "k = 64"
    using that bit_imp_le_length [of entry] by auto
  moreover have "{i. i < 64 \<and> bit MAX_ENTRY i} = {..<64}" by (auto simp: MAX_ENTRY_def bit_simps)
  ultimately show ?thesis using assms by (cases masked; cases "entry = MAX_ENTRY") (simp_all add: count_bits_card)
qed

lemma entry_bits:
  assumes "j < EntryCount n"
  shows "min BITS_PER_VALUE (n - j * BITS_PER_VALUE) =
    (if j + 1 = EntryCount n \<and> n mod BITS_PER_VALUE \<noteq> 0 then n mod BITS_PER_VALUE else BITS_PER_VALUE)"
proof (cases "j + 1 = EntryCount n")
  case True
  show ?thesis
  proof (cases "n mod BITS_PER_VALUE = 0")
    case even: True
    then obtain q where "n = BITS_PER_VALUE * q" by blast
    moreover from this have "EntryCount n = q" by (simp add: EntryCount_def BITS_PER_VALUE_def)
    ultimately show ?thesis using True even by (simp add: BITS_PER_VALUE_def)
  next
    case False
    then have "j = n div BITS_PER_VALUE" using True last_entry [OF False] by simp
    then have "n - j * BITS_PER_VALUE = n mod BITS_PER_VALUE" by (simp add: minus_div_mult_eq_mod)
    then show ?thesis using True False by (simp add: BITS_PER_VALUE_def)
  qed
next
  case False
  then have "j + 1 < EntryCount n" using assms by simp
  then have "(j + 2) * 64 \<le> EntryCount n * 64" by (intro mult_le_mono1) simp
  moreover have "EntryCount n * 64 \<le> n + 63" by (simp add: EntryCount_def BITS_PER_VALUE_def)
  ultimately have "(j + 1) * BITS_PER_VALUE \<le> n" by (simp add: BITS_PER_VALUE_def)
  then show ?thesis using False by (simp add: BITS_PER_VALUE_def)
qed

lemma CountValid_rows:
  assumes "mask_covers n m"
  shows "CountValid n m = Inr (length (filter (row_valid m) [0..<n]))"
proof (cases "mask_data m")
  case None
  then show ?thesis by (simp add: CountValid_def row_valid_def)
next
  case (Some es)
  define P where "P r = row_valid m r" for r
  define body where "body = (\<lambda>entry_idx valid. let entry = es ! entry_idx
     in if entry_idx + 1 = EntryCount n \<and> n mod BITS_PER_VALUE \<noteq> 0
        then count_bits (entry AND drop_bit (BITS_PER_VALUE - n mod BITS_PER_VALUE) MAX_ENTRY) valid
        else if entry = MAX_ENTRY then valid + BITS_PER_VALUE else count_bits entry valid)"
  have count: "fold body [0..<j] 0 = card {r. r < min (j * BITS_PER_VALUE) n \<and> P r}" if "j \<le> EntryCount n" for j
    using that
  proof (induction j)
    case (Suc j)
    define k where "k = min BITS_PER_VALUE (n - j * BITS_PER_VALUE)"
    have j: "j * BITS_PER_VALUE \<le> n" using Suc.prems unfolding EntryCount_def BITS_PER_VALUE_def by linarith
    have bits: "P (j * BITS_PER_VALUE + i) = bit (es ! j) i" if "i < k" for i
      using that by (simp add: P_def row_valid_def Some k_def BITS_PER_VALUE_def)
    have "body j v = v + card {i. i < k \<and> P (j * BITS_PER_VALUE + i)}" for v
    proof -
      define masked where "masked \<longleftrightarrow> j + 1 = EntryCount n \<and> n mod BITS_PER_VALUE \<noteq> 0"
      have k: "k = (if masked then n mod BITS_PER_VALUE else BITS_PER_VALUE)" unfolding k_def masked_def using entry_bits Suc.prems by simp
      then have "k \<le> 64" "k = 64 \<or> masked" by (simp_all add: BITS_PER_VALUE_def)
      moreover have "body j v = (if masked then count_bits (es ! j AND drop_bit (64 - k) MAX_ENTRY) v
          else if es ! j = MAX_ENTRY then v + 64 else count_bits (es ! j) v)"
        unfolding body_def Let_def masked_def [symmetric] using k by (simp add: BITS_PER_VALUE_def)
      ultimately have "body j v = v + card {i. i < k \<and> bit (es ! j) i}" by (simp only: count_entry)
      also have "{i. i < k \<and> bit (es ! j) i} = {i. i < k \<and> P (j * BITS_PER_VALUE + i)}" using bits by auto
      finally show ?thesis .
    qed
    moreover have "fold body [0..<j] 0 = card {r. r < j * BITS_PER_VALUE \<and> P r}" using Suc j by (simp add: min_absorb1)
    ultimately show ?case using card_block [OF j, of P] by (simp add: k_def)
  qed simp
  have all: "n \<le> EntryCount n * BITS_PER_VALUE" unfolding EntryCount_def BITS_PER_VALUE_def by linarith
  have "length (filter (row_valid m) [0..<n]) = card {r. r < n \<and> P r}" unfolding P_def
    by (subst distinct_card [symmetric]) (auto intro!: arg_cong [where f = card])
  moreover have "CountValid n m = Inr (fold body [0..<EntryCount n] 0)"
    using assms Some by (auto simp: CountValid_def body_def mask_covers_def EntryCount_def BITS_PER_VALUE_def)
  ultimately show ?thesis using count [OF order_refl] all by (simp add: min_absorb2)
qed

text \<open>C39: The count of the valid rows, a word at a time and with the lowest bit taken away in each round, is
  the number of rows that are valid, also when the last word has bits past the rows.\<close>
theorem count_valid_exact:
  assumes "mask_covers n m"
  shows "CountValid n m = Inr (length (filter (\<lambda>r. RowIsValid m r = Inr True) [0..<n]))"
proof -
  have "filter (\<lambda>r. RowIsValid m r = Inr True) [0..<n] = filter (row_valid m) [0..<n]"
    by (rule filter_cong) (simp_all add: RowIsValid_row [OF assms])
  then show ?thesis by (simp add: CountValid_rows [OF assms])
qed

lemma count_valid_exact_witness:
  "CountValid 70 \<lparr>mask_data = Some [MAX_ENTRY, 5], mask_capacity = 70\<rparr>
     = Inr (length (filter (\<lambda>r. RowIsValid \<lparr>mask_data = Some [MAX_ENTRY, 5], mask_capacity = 70\<rparr> r = Inr True) [0..<70]))"
  by (rule count_valid_exact) (simp add: mask_covers_def EntryCount_def BITS_PER_VALUE_def)

subsection \<open>Reading gives the rows back\<close>

definition set_row :: "bool \<Rightarrow> nat \<Rightarrow> ValidityMask \<Rightarrow> ValidityMask" where
  "set_row v r m = (case mask_Set r v m of Inr m' \<Rightarrow> m' | Inl _ \<Rightarrow> m)"

lemma set_row_words:
  assumes "mask_words n m" "r < n"
  shows "mask_Set r v m = Inr (set_row v r m)" "mask_words n (set_row v r m)" "row_valid (set_row v r m) q = (if q = r then v else row_valid m q)"
  using mask_Set_row [OF assms, of v] by (auto simp: set_row_def)

interpretation mask_entries: item_stream "stream_Write 8" read_entry "\<lambda>entry entries. entries @ [entry]" "\<lambda>_. True" "\<lambda>_. True"
  by unfold_locales (simp_all add: read_entry_def)

lemma value_width: "i < n \<Longrightarrow> n < 2 ^ 32 \<Longrightarrow> i < 2 ^ (8 * bytes_per_value n)" "bytes_per_value n \<le> 8"
  by (auto simp: bytes_per_value_def need_u32_def)

interpretation mask_rows: item_stream "\<lambda>i. stream_Write (bytes_per_value n) (word_of_nat i)" "read_row n v" "set_row v"
  "\<lambda>i. i < n \<and> n < 2 ^ 32" "mask_words n" for n v
proof
  fix i m rest
  assume i: "i < n \<and> n < 2 ^ 32" and m: "mask_words n m"
  then show "read_row n v (m, stream_Write (bytes_per_value n) (word_of_nat i) @ rest) = Inr (set_row v i m, rest)"
    using stream_roundtrip [OF value_width(1) value_width(2), of i n] set_row_words(1) [OF m, of i v]
    by (simp add: read_row_def)
  show "mask_words n (set_row v i m)" using i m set_row_words(2) by blast
qed

lemma fold_set_row:
  assumes "\<forall>i \<in> set rows. i < n" "mask_words n m"
  shows "mask_words n (fold (set_row v) rows m)" "row_valid (fold (set_row v) rows m) q = (if q \<in> set rows then v else row_valid m q)"
  using assms by (induction rows arbitrary: m) (auto simp: set_row_words)

lemma read_entries: "fold_result (\<lambda>_. read_entry) [0..<length entries] ([], concat (map (stream_Write 8) entries) @ rest) = Inr (entries, rest)"
proof -
  have "fold (\<lambda>entry entries. entries @ [entry]) xs es = es @ xs" for xs es :: "64 word list" by (induction xs arbitrary: es) simp_all
  then show ?thesis using mask_entries.read_items [where xs = entries and s = "[]" and a = 0 and rest = rest] by simp
qed

lemma read_bitmask:
  assumes "length entries = EntryCount n"
  shows "mask_Read n (stream_Write 1 BITMASK @ concat (map (stream_Write 8) entries) @ rest) =
    Inr (\<lparr>mask_data = Some entries, mask_capacity = n\<rparr>, rest)"
  using assms stream_roundtrip(1) [of 0 1] read_entries [of entries rest]
  by (simp add: mask_Read_def BITMASK_def mask_Initialize_def)

lemma read_written_rows:
  assumes "n < 2 ^ 32" "length rows = n" "\<forall>r < n. rows ! r = row_valid m r"
    and "k = length (filter (\<lambda>i. rows ! i = v) [0..<n])"
  shows "\<exists>m'. mask_Read n (write_rows n v k rows @ rest) = Inr (m', rest) \<and> mask_words n m' \<and> (\<forall>r < n. row_valid m' r = row_valid m r)"
proof -
  let ?rows = "filter (\<lambda>i. rows ! i = v) [0..<n]" and ?W = "\<lambda>i. stream_Write (bytes_per_value n) (word_of_nat i)"
  have k: "k \<le> n" unfolding assms(4) by (metis length_filter_le length_upt minus_nat.diff_0)
  have written: "write_rows n v k rows = stream_Write 1 (if v then VALID_VALUES else INVALID_VALUES) @ stream_Write 4 (word_of_nat k) @ concat (map ?W ?rows)"
  proof -
    have "concat (map (\<lambda>i. if P i then W i else []) xs) = concat (map W (filter P xs))" for P W and xs :: "nat list"
      by (induction xs) simp_all
    then show ?thesis by (simp add: write_rows_def)
  qed
  obtain start where start: "(if v then SetAllInvalid n (mask_Initialize n) else Inr (mask_Initialize n)) = Inr start"
    "mask_words n start" "\<forall>r < n. row_valid start r = (\<not> v)"
    using SetAllInvalid_rows [of n] mask_Initialize_words [where n = n] by (cases v) auto
  let ?m = "fold (set_row v) ?rows start"
  have items: "\<forall>i \<in> set ?rows. i < n \<and> n < 2 ^ 32" using assms(1) by simp
  have loop: "fold_result (\<lambda>_. read_row n v) [0..<k] (start, concat (map ?W ?rows) @ rest) = Inr (?m, rest)"
    using mask_rows.read_items [OF items start(2), where a = 0 and v = v and rest = rest] by (simp add: assms(4))
  define flag where "flag = (if v then VALID_VALUES else INVALID_VALUES)"
  have flag: "stream_Read 1 (stream_Write 1 flag @ bs) = Inr (flag, bs)" "(flag = BITMASK) = False" "(flag = VALID_VALUES) = v" for bs
    using stream_roundtrip(1) [of 1 1 bs] stream_roundtrip(1) [of 2 1 bs]
    by (simp_all add: flag_def VALID_VALUES_def INVALID_VALUES_def BITMASK_def)
  have size: "stream_Read 4 (stream_Write 4 (word_of_nat k) @ bs) = Inr (word_of_nat k, bs)" "unat (word_of_nat k :: 64 word) = k" for bs
    using stream_roundtrip [where k = k and n = 4] k assms(1) by simp_all
  have "mask_Read n (write_rows n v k rows @ rest) = Inr (?m, rest)"
    unfolding mask_Read_def written flag_def [symmetric]
    by (simp only: append_assoc flag size bind_result_simps prod.case if_False Let_def start(1) loop)
  moreover have "row_valid ?m r = row_valid m r" if "r < n" for r
    using that assms(3) start(3) fold_set_row(2) [OF _ start(2), where rows = ?rows and v = v and q = r] by (cases v) auto
  ultimately show ?thesis using fold_set_row(1) [OF _ start(2), where rows = ?rows and v = v] by (intro exI [of _ ?m]) simp
qed

lemma mask_Write_Read:
  assumes "mask_covers n m" "n < 2 ^ 32"
  shows "\<exists>bs m'. mask_Write n m = Inr bs \<and> mask_Read n (bs @ rest) = Inr (m', rest) \<and> (\<forall>r < n. RowIsValid m' r = RowIsValid m r)"
proof -
  define valid where "valid = length (filter (row_valid m) [0..<n])"
  define rows where "rows = map (row_valid m) [0..<n]"
  define wide where "wide k = bytes_per_value n * k + 4" for k
  have le: "valid \<le> n" unfolding valid_def by (metis length_filter_le length_upt minus_nat.diff_0)
  have invalid: "n - valid = length (filter (\<lambda>r. \<not> row_valid m r) [0..<n])"
    using sum_length_filter_compl [of "row_valid m" "[0..<n]"] by (simp add: valid_def)
  have rows: "map_result (RowIsValid m) [0..<n] = Inr rows" "length rows = n" "\<forall>r < n. rows ! r = row_valid m r"
    unfolding rows_def by (intro map_result_Inr) (simp_all add: RowIsValid_row [OF assms(1)])
  have same: "(\<forall>r < n. RowIsValid m' r = RowIsValid m r) \<longleftrightarrow> (\<forall>r < n. row_valid m' r = row_valid m r)" if "mask_covers n m'" for m'
    using RowIsValid_row [OF assms(1)] RowIsValid_row [OF that] by auto
  have small: "valid < 2 ^ 32" using le assms(2) by simp
  show ?thesis
  proof (cases "wide valid < ValidityMaskSize n \<or> wide (n - valid) < ValidityMaskSize n")
    case True
    let ?v = "wide valid < wide (n - valid)"
    have "mask_Write n m = Inr (write_rows n ?v (min valid (n - valid)) rows)"
      using True small by (simp add: mask_Write_def CountValid_rows [OF assms(1)] Let_def rows(1) flip: valid_def wide_def)
    moreover have "min valid (n - valid) = length (filter (\<lambda>i. rows ! i = ?v) [0..<n])"
    proof -
      have "filter (\<lambda>i. rows ! i = ?v) [0..<n] = filter (\<lambda>i. row_valid m i = ?v) [0..<n]" using rows(3) by (intro filter_cong) simp_all
      moreover have "?v \<longleftrightarrow> valid < n - valid" by (auto simp: wide_def bytes_per_value_def)
      ultimately show ?thesis using invalid by (cases ?v) (simp_all flip: valid_def)
    qed
    moreover from this obtain m' where "mask_Read n (write_rows n ?v (min valid (n - valid)) rows @ rest) = Inr (m', rest)"
      "mask_words n m'" "\<forall>r < n. row_valid m' r = row_valid m r"
      using read_written_rows [OF assms(2) rows(2,3)] by blast
    ultimately show ?thesis using same [OF mask_words_covers] by blast
  next
    case False
    show ?thesis
    proof (cases "mask_data m")
      case (Some entries)
      let ?es = "take (EntryCount n) entries" and ?m = "\<lparr>mask_data = Some (take (EntryCount n) entries), mask_capacity = n\<rparr>"
      have len: "length ?es = EntryCount n" using assms(1) Some by (simp add: mask_covers_def)
      have "mask_Write n m = Inr (stream_Write 1 BITMASK @ concat (map (stream_Write 8) ?es))"
        using False assms(1) Some by (simp add: mask_Write_def CountValid_rows [OF assms(1)] Let_def mask_covers_def flip: valid_def wide_def)
      moreover have "row_valid ?m r = row_valid m r" if "r < n" for r
        using entry_index [OF that] by (simp add: row_valid_def Some)
      moreover have "mask_covers n ?m" using len by (simp add: mask_covers_def)
      ultimately show ?thesis using read_bitmask [OF len, of rest] same [of ?m] by simp
    next
      case None
      then have "valid = n" by (simp add: valid_def row_valid_def)
      then have "n = 0" using False entry_index [of 0 n] by (auto simp: wide_def ValidityMaskSize_def)
      then have "EntryCount n = 0" "mask_Write n m = Inr (stream_Write 1 BITMASK @ concat (map (stream_Write 8) []))"
        using None by (simp_all add: EntryCount_def BITS_PER_VALUE_def mask_Write_def CountValid_def ValidityMaskSize_def)
      then show ?thesis using read_bitmask [of "[]" n rest] \<open>n = 0\<close> by simp
    qed
  qed
qed

text \<open>C38: A mask that is written for some rows and read back has the same valid rows, in each of the three
  encodings, and reading leaves the rest of the stream.\<close>
theorem validity_mask_roundtrip:
  assumes "mask_covers n m" "n < 2 ^ 32"
  shows "\<exists>bs m'. mask_Write n m = Inr bs \<and> mask_Read n (bs @ rest) = Inr (m', rest) \<and> (\<forall>r < n. RowIsValid m' r = RowIsValid m r)"
  by (rule mask_Write_Read [OF assms])

lemma validity_mask_roundtrip_witness:
  "\<exists>bs m'. mask_Write 70 \<lparr>mask_data = Some [5, 1], mask_capacity = 70\<rparr> = Inr bs \<and> mask_Read 70 (bs @ [42]) = Inr (m', [42]) \<and>
     (\<forall>r < 70. RowIsValid m' r = RowIsValid \<lparr>mask_data = Some [5, 1], mask_capacity = 70\<rparr> r)"
  by (rule validity_mask_roundtrip) (simp_all add: mask_covers_def EntryCount_def BITS_PER_VALUE_def)

end
