(* ===== verification/VersionSerial.thy ===== *)
theory VersionSerial
  imports TransactionProps ValidityMask
begin

text \<open>
  Writing the versions of a row group to disk and reading them back
  (\<open>storage/table/chunk_info.cpp\<close>, \<open>row_version_manager.cpp\<close>). Only deletes are written: rows that no
  transaction may read become rows deleted at time 0, all others are read back as not deleted.
  The metadata blocks are a stream of bytes.
\<close>

subsection \<open>One vector\<close>

definition CONSTANT_INFO :: "64 word" where "CONSTANT_INFO = 0"
definition VECTOR_INFO :: "64 word" where "VECTOR_INFO = 1"
definition EMPTY_INFO :: "64 word" where "EMPTY_INFO = 2"
definition INVALID_INDEX :: transaction_t where "INVALID_INDEX = - 1"

definition write_header :: "64 word \<Rightarrow> nat \<Rightarrow> bytes" where
  "write_header info_type start = stream_Write 1 info_type @ stream_Write 8 (word_of_nat start)"

definition constant_Write :: "ChunkConstantInfo \<Rightarrow> bytes" where
  "constant_Write info = write_header CONSTANT_INFO (ci_start info)"

definition vector_Write :: "ChunkVectorInfo \<Rightarrow> bytes result" where
  "vector_Write info =
     bind_result (vector_TemplatedGetSelVector TransactionVersionOperator (TRANSACTION_ID_START - 1) INVALID_INDEX info STANDARD_VECTOR_SIZE)
       (\<lambda>(n, sel).
          if n = STANDARD_VECTOR_SIZE then Inr (stream_Write 1 EMPTY_INFO)
          else if n = 0 then Inr (write_header CONSTANT_INFO (vi_start info))
          else bind_result (fold_result SetInvalid (take n sel) (mask_Initialize STANDARD_VECTOR_SIZE)) (\<lambda>mask.
                 bind_result (mask_Write STANDARD_VECTOR_SIZE mask) (\<lambda>bs.
                   Inr (write_header VECTOR_INFO (vi_start info) @ bs))))"

fun chunk_Write :: "ChunkInfo \<Rightarrow> bytes result" where
  "chunk_Write (ConstantInfo info) = Inr (constant_Write info)"
| "chunk_Write (VectorInfo info) = vector_Write info"

definition constant_Read :: "bytes \<Rightarrow> (ChunkConstantInfo \<times> bytes) result" where
  "constant_Read bs =
     bind_result (stream_Read 8 bs) (\<lambda>(start, bs).
       Inr ((new_constant_info (unat start))\<lparr>ci_insert_id := 0, ci_delete_id := 0\<rparr>, bs))"

definition vector_Read :: "bytes \<Rightarrow> (ChunkVectorInfo \<times> bytes) result" where
  "vector_Read bs =
     bind_result (stream_Read 8 bs) (\<lambda>(start, bs).
       bind_result (mask_Read STANDARD_VECTOR_SIZE bs) (\<lambda>(mask, bs).
         bind_result (map_result (RowIsValid mask) [0..<STANDARD_VECTOR_SIZE]) (\<lambda>valid.
           let info = new_vector_info (unat start)
           in Inr (info\<lparr>vi_any_deleted := True,
                        vi_deleted := map (\<lambda>i. if valid ! i then 0 else vi_deleted info ! i) [0..<STANDARD_VECTOR_SIZE]\<rparr>, bs))))"

definition chunk_Read :: "bytes \<Rightarrow> (ChunkInfo option \<times> bytes) result" where
  "chunk_Read bs =
     bind_result (stream_Read 1 bs) (\<lambda>(info_type, bs).
       if info_type = EMPTY_INFO then Inr (None, bs)
       else if info_type = CONSTANT_INFO then bind_result (constant_Read bs) (\<lambda>(info, bs). Inr (Some (ConstantInfo info), bs))
       else if info_type = VECTOR_INFO then bind_result (vector_Read bs) (\<lambda>(info, bs). Inr (Some (VectorInfo info), bs))
       else Inl SerializationException)"

subsection \<open>The manager\<close>

text \<open>
  The first argument stands for the blocks of the last checkpoint, which are used again if nothing
  has changed. No bytes are written, and no pointer is left, where no vector has deletes.
\<close>

definition Checkpoint :: "bytes \<Rightarrow> RowVersionManager \<Rightarrow> (bytes \<times> RowVersionManager) result" where
  "Checkpoint storage mgr =
     (if \<not> vm_unserialized mgr then Inr (storage, mgr)
      else let infos = vm_vector_info mgr;
               to_serialize = filter (\<lambda>i. case infos ! i of None \<Rightarrow> False | Some info \<Rightarrow> chunk_HasDeletes info) [0..<length infos]
           in bind_result (map_result (\<lambda>i. bind_result (chunk_Write (the (infos ! i))) (\<lambda>bs. Inr (stream_Write 8 (word_of_nat i) @ bs))) to_serialize)
                (\<lambda>items. Inr (if to_serialize = [] then [] else stream_Write 8 (word_of_nat (length to_serialize)) @ concat items,
                              mgr\<lparr>vm_unserialized := False\<rparr>)))"

text \<open>The product in the check of the index is one of 64-bit numbers.\<close>

definition read_chunk :: "RowVersionManager \<times> bytes \<Rightarrow> (RowVersionManager \<times> bytes) result" where
  "read_chunk = (\<lambda>(mgr, bs).
     bind_result (stream_Read 8 bs) (\<lambda>(vector_index, bs).
       if vector_index * word_of_nat STANDARD_VECTOR_SIZE \<ge> word_of_nat MAX_ROW_GROUP_SIZE then Inl IOException
       else bind_result (chunk_Read bs) (\<lambda>(info, bs).
              Inr (mgr\<lparr>vm_vector_info := (FillVectorInfo (unat vector_index) (vm_vector_info mgr))[unat vector_index := info]\<rparr>, bs))))"

definition Deserialize :: "nat \<Rightarrow> bytes \<Rightarrow> RowVersionManager option result" where
  "Deserialize start bs =
     (if bs = [] then Inr None
      else bind_result (stream_Read 8 bs) (\<lambda>(chunk_count, bs).
             bind_result (fold_result (\<lambda>_. read_chunk) [0..<unat chunk_count] (new_version_manager start, bs)) (\<lambda>(mgr, _).
               Inr (Some (mgr\<lparr>vm_unserialized := False\<rparr>)))))"

definition RowGroup_Fetch :: "TransactionData \<Rightarrow> nat \<Rightarrow> RowVersionManager option \<Rightarrow> bool result" where
  "RowGroup_Fetch transaction row vinfo = (case vinfo of None \<Rightarrow> Inr True | Some vinfo \<Rightarrow> Fetch transaction row vinfo)"

subsection \<open>A vector that is read back\<close>

definition opt_ins :: "ChunkInfo option \<Rightarrow> nat \<Rightarrow> transaction_t" where
  "opt_ins info r = (case info of None \<Rightarrow> 0 | Some info \<Rightarrow> inserted_id info r)"

definition opt_del :: "ChunkInfo option \<Rightarrow> nat \<Rightarrow> transaction_t" where
  "opt_del info r = (case info of None \<Rightarrow> NOT_DELETED_ID | Some info \<Rightarrow> deleted_id info r)"

text \<open>All rows have been inserted by commits, and those that are deleted by commits are so before the last time.\<close>

definition committed_ids :: "transaction_t \<Rightarrow> transaction_t \<Rightarrow> bool" where
  "committed_ids ins del \<longleftrightarrow> ins < TRANSACTION_ID_START - 1 \<and>
     (del < TRANSACTION_ID_START - 1 \<or> (TRANSACTION_ID_START \<le> del \<and> del < INVALID_INDEX))"

definition read_back :: "nat \<Rightarrow> ChunkInfo option \<Rightarrow> ChunkInfo option \<Rightarrow> bool" where
  "read_back n info info' \<longleftrightarrow>
     (\<forall>r < n. opt_ins info' r = 0 \<and> opt_del info' r = (if opt_del info r < TRANSACTION_ID_START - 1 then 0 else NOT_DELETED_ID))"

lemma committed_seen:
  assumes "committed_ids ins del"
  shows "UseInsertedVersion TransactionVersionOperator (TRANSACTION_ID_START - 1) INVALID_INDEX ins"
    "UseDeletedVersion TransactionVersionOperator (TRANSACTION_ID_START - 1) INVALID_INDEX del \<longleftrightarrow> \<not> del < TRANSACTION_ID_START - 1"
proof -
  have "TRANSACTION_ID_START - 1 < INVALID_INDEX" by (simp add: TRANSACTION_ID_START_def INVALID_INDEX_def)
  then show "UseInsertedVersion TransactionVersionOperator (TRANSACTION_ID_START - 1) INVALID_INDEX ins"
    "UseDeletedVersion TransactionVersionOperator (TRANSACTION_ID_START - 1) INVALID_INDEX del \<longleftrightarrow> \<not> del < TRANSACTION_ID_START - 1"
    using assms by (auto simp: committed_ids_def TransactionVersionOperator_def)
qed

text \<open>A selection of the whole vector, of which only the first rows need to be in order.\<close>

lemma whole_selection:
  assumes "vector_ok n c" "UseDeletedVersion OP s t NOT_DELETED_ID"
  shows "\<exists>k rows. vector_TemplatedGetSelVector OP s t c STANDARD_VECTOR_SIZE = Inr (k, rows) \<and>
    (let sel = selected_rows (k, rows) STANDARD_VECTOR_SIZE in
       length sel = k \<and> set sel \<subseteq> {..<STANDARD_VECTOR_SIZE} \<and>
       (\<forall>r < n. r \<in> set sel \<longleftrightarrow> UseInsertedVersion OP s t (vi_inserted c ! r) \<and> UseDeletedVersion OP s t (vi_deleted c ! r)))"
proof -
  define c' where "c' = (if vi_same_inserted_id c then c\<lparr>vi_inserted := replicate STANDARD_VECTOR_SIZE (vi_insert_id c)\<rparr> else c)"
  have ok: "vector_ok STANDARD_VECTOR_SIZE c'" using assms(1) by (auto simp: vector_ok_def c'_def)
  have n: "n \<le> STANDARD_VECTOR_SIZE" using assms(1) by (simp add: vector_ok_def)
  have same: "vector_TemplatedGetSelVector OP s t c m = vector_TemplatedGetSelVector OP s t c' m" for m
    by (simp add: vector_TemplatedGetSelVector_def c'_def)
  have ids: "vi_inserted c' ! r = vi_inserted c ! r" "vi_deleted c' ! r = vi_deleted c ! r" if "r < n" for r
    using assms(1) that n by (auto simp: c'_def vector_ok_def)
  obtain k rows where sel: "vector_TemplatedGetSelVector OP s t c' STANDARD_VECTOR_SIZE = Inr (k, rows)"
    "selected_rows (k, rows) STANDARD_VECTOR_SIZE = filter (\<lambda>r. UseInsertedVersion OP s t (vi_inserted c' ! r) \<and> UseDeletedVersion OP s t (vi_deleted c' ! r)) [0..<STANDARD_VECTOR_SIZE]"
    using vector_version.get_sel_exact [OF ok order_refl assms(2)] by (metis surj_pair)
  have "length (selected_rows (k, rows) STANDARD_VECTOR_SIZE) = k"
    using sel(1) by (auto simp: vector_TemplatedGetSelVector_def select_rows_def selected_rows_def Let_def split: if_splits)
  moreover have "\<forall>r < n. r \<in> set (selected_rows (k, rows) STANDARD_VECTOR_SIZE) \<longleftrightarrow>
      UseInsertedVersion OP s t (vi_inserted c ! r) \<and> UseDeletedVersion OP s t (vi_deleted c ! r)"
    unfolding sel(2) using ids n by auto
  moreover have "set (selected_rows (k, rows) STANDARD_VECTOR_SIZE) \<subseteq> {..<STANDARD_VECTOR_SIZE}" unfolding sel(2) by auto
  ultimately show ?thesis using sel(1) by (simp add: same Let_def)
qed

lemma set_rows_invalid:
  assumes "\<forall>i \<in> set rows. i < n" "mask_words n m"
  shows "fold_result SetInvalid rows m = Inr (fold (set_row False) rows m)"
  using assms
proof (induction rows arbitrary: m)
  case (Cons r rows)
  then have "SetInvalid r m = Inr (set_row False r m)" "mask_words n (set_row False r m)"
    using set_row_words(1,2) [of n m r False] by (simp_all add: mask_Set_def)
  then show ?case using Cons by simp
qed simp

lemma stream_Read_header:
  "stream_Read 1 (stream_Write 1 CONSTANT_INFO @ bs) = Inr (CONSTANT_INFO, bs)"
  "stream_Read 1 (stream_Write 1 VECTOR_INFO @ bs) = Inr (VECTOR_INFO, bs)"
  "stream_Read 1 (stream_Write 1 EMPTY_INFO @ bs) = Inr (EMPTY_INFO, bs)"
  using stream_roundtrip(1) [of 0 1 bs] stream_roundtrip(1) [of 1 1 bs] stream_roundtrip(1) [of 2 1 bs]
  by (simp_all add: CONSTANT_INFO_def VECTOR_INFO_def EMPTY_INFO_def)

lemma info_types: "CONSTANT_INFO \<noteq> EMPTY_INFO" "VECTOR_INFO \<noteq> EMPTY_INFO" "VECTOR_INFO \<noteq> CONSTANT_INFO"
  by (simp_all add: CONSTANT_INFO_def VECTOR_INFO_def EMPTY_INFO_def)

lemma read_empty: "chunk_Read (stream_Write 1 EMPTY_INFO @ rest) = Inr (None, rest)"
  unfolding chunk_Read_def by (simp only: stream_Read_header bind_result_simps prod.case if_True simp_thms)

lemma read_constant:
  "chunk_Read (write_header CONSTANT_INFO start @ rest) =
     Inr (Some (ConstantInfo ((new_constant_info (unat (word_of_nat start :: 64 word)))\<lparr>ci_insert_id := 0, ci_delete_id := 0\<rparr>)), rest)"
  unfolding chunk_Read_def write_header_def append_assoc
  by (simp only: stream_Read_header bind_result_simps prod.case info_types if_False if_True simp_thms)
    (simp add: constant_Read_def)

text \<open>The vector info that a mask is read as.\<close>

definition masked_info :: "nat \<Rightarrow> (nat \<Rightarrow> bool) \<Rightarrow> ChunkVectorInfo" where
  "masked_info start dead =
     (new_vector_info start)\<lparr>vi_any_deleted := True, vi_deleted := map (\<lambda>i. if dead i then 0 else NOT_DELETED_ID) [0..<STANDARD_VECTOR_SIZE]\<rparr>"

lemma read_vector:
  assumes "mask_words STANDARD_VECTOR_SIZE vm" "mask_Write STANDARD_VECTOR_SIZE vm = Inr bs"
  shows "chunk_Read (write_header VECTOR_INFO start @ bs @ rest) =
    Inr (Some (VectorInfo (masked_info (unat (word_of_nat start :: 64 word)) (row_valid vm))), rest)"
proof -
  have small: "STANDARD_VECTOR_SIZE < 2 ^ 32" by (simp add: STANDARD_VECTOR_SIZE_def)
  obtain vm2 where vm2: "mask_Read STANDARD_VECTOR_SIZE (bs @ rest) = Inr (vm2, rest)"
    "\<forall>r < STANDARD_VECTOR_SIZE. RowIsValid vm2 r = RowIsValid vm r"
    using mask_Write_Read [OF mask_words_covers [OF assms(1)] small, of rest] assms(2) by auto
  have "map_result (RowIsValid vm2) [0..<STANDARD_VECTOR_SIZE] = Inr (map (row_valid vm) [0..<STANDARD_VECTOR_SIZE])"
    using vm2(2) RowIsValid_row [OF mask_words_covers [OF assms(1)]] by (intro map_result_Inr) simp
  then have "vector_Read (stream_Write 8 (word_of_nat start) @ bs @ rest) = Inr (masked_info (unat (word_of_nat start :: 64 word)) (row_valid vm), rest)"
    by (simp add: vector_Read_def vm2(1) Let_def masked_info_def new_vector_info_def cong: map_cong)
  then show ?thesis
    unfolding chunk_Read_def write_header_def append_assoc
    by (simp only: stream_Read_header bind_result_simps prod.case info_types if_False if_True simp_thms)
qed

text \<open>
  A vector info that is written is read back with each row deleted at time 0 that the last transaction
  would not read, whatever became of it.
\<close>

definition last_sees :: "transaction_t \<Rightarrow> transaction_t \<Rightarrow> bool" where
  "last_sees ins del \<longleftrightarrow> UseInsertedVersion TransactionVersionOperator (TRANSACTION_ID_START - 1) INVALID_INDEX ins \<and>
     UseDeletedVersion TransactionVersionOperator (TRANSACTION_ID_START - 1) INVALID_INDEX del"

lemma vector_Write_Read:
  assumes "vector_ok n c"
  shows "\<exists>bs info'. vector_Write c = Inr bs \<and> (\<forall>rest. chunk_Read (bs @ rest) = Inr (info', rest)) \<and>
    (\<forall>r < n. opt_ins info' r = 0 \<and> opt_del info' r = (if last_sees (vi_inserted c ! r) (vi_deleted c ! r) then NOT_DELETED_ID else 0)) \<and>
    (\<forall>c'. info' = Some (VectorInfo c') \<longrightarrow> length (vi_inserted c') = STANDARD_VECTOR_SIZE \<and> length (vi_deleted c') = STANDARD_VECTOR_SIZE)"
proof -
  have n: "n \<le> STANDARD_VECTOR_SIZE" using assms by (simp add: vector_ok_def)
  have kept: "UseDeletedVersion TransactionVersionOperator (TRANSACTION_ID_START - 1) INVALID_INDEX NOT_DELETED_ID"
    by (simp add: TransactionVersionOperator_def TRANSACTION_ID_START_def INVALID_INDEX_def NOT_DELETED_ID_def)
  obtain k rows where w: "vector_TemplatedGetSelVector TransactionVersionOperator (TRANSACTION_ID_START - 1) INVALID_INDEX c STANDARD_VECTOR_SIZE = Inr (k, rows)"
    and sel: "length (selected_rows (k, rows) STANDARD_VECTOR_SIZE) = k" "set (selected_rows (k, rows) STANDARD_VECTOR_SIZE) \<subseteq> {..<STANDARD_VECTOR_SIZE}"
      "\<forall>r < n. r \<in> set (selected_rows (k, rows) STANDARD_VECTOR_SIZE) \<longleftrightarrow> last_sees (vi_inserted c ! r) (vi_deleted c ! r)"
    using whole_selection [OF assms kept] by (auto simp: Let_def last_sees_def)
  show ?thesis
  proof (cases "k = STANDARD_VECTOR_SIZE")
    case True
    then have "vector_Write c = Inr (stream_Write 1 EMPTY_INFO)" by (simp add: vector_Write_def w)
    moreover have "\<forall>r < n. last_sees (vi_inserted c ! r) (vi_deleted c ! r)" using sel(3) True n by (simp add: selected_rows_def)
    ultimately show ?thesis using read_empty by (intro exI [of _ "stream_Write 1 EMPTY_INFO"] exI [of _ None]) (simp add: opt_ins_def opt_del_def)
  next
    case more: False
    show ?thesis
    proof (cases "k = 0")
      case True
      let ?info = "(new_constant_info (unat (word_of_nat (vi_start c) :: 64 word)))\<lparr>ci_insert_id := 0, ci_delete_id := 0\<rparr>"
      have "vector_Write c = Inr (write_header CONSTANT_INFO (vi_start c))" using True more vector_size_pos
        by (simp add: vector_Write_def w del: vector_size_pos)
      moreover have "\<forall>r < n. \<not> last_sees (vi_inserted c ! r) (vi_deleted c ! r)" using sel(1,3) True by simp
      ultimately show ?thesis using read_constant [of "vi_start c"]
        by (intro exI [of _ "write_header CONSTANT_INFO (vi_start c)"] exI [of _ "Some (ConstantInfo ?info)"]) (simp add: opt_ins_def opt_del_def)
    next
      case False
      let ?mask = "fold (set_row False) (take k rows) (mask_Initialize STANDARD_VECTOR_SIZE)"
      let ?info = "masked_info (unat (word_of_nat (vi_start c) :: 64 word)) (row_valid ?mask)"
      have taken: "selected_rows (k, rows) STANDARD_VECTOR_SIZE = take k rows" using more by (simp add: selected_rows_def)
      have lt: "\<forall>i \<in> set (take k rows). i < STANDARD_VECTOR_SIZE" using sel(2) by (auto simp: taken)
      note start = mask_Initialize_words(1) [of STANDARD_VECTOR_SIZE]
      have words: "mask_words STANDARD_VECTOR_SIZE ?mask" by (rule fold_set_row(1) [OF lt start])
      have dead: "row_valid ?mask r \<longleftrightarrow> r \<notin> set (take k rows)" if "r < STANDARD_VECTOR_SIZE" for r
        using fold_set_row(2) [OF lt start, of False r] mask_Initialize_words(2) [OF that] by simp
      obtain bs where bs: "mask_Write STANDARD_VECTOR_SIZE ?mask = Inr bs"
        using mask_Write_Read [OF mask_words_covers [OF words]] by (auto simp: STANDARD_VECTOR_SIZE_def)
      have "vector_Write c = Inr (write_header VECTOR_INFO (vi_start c) @ bs)"
        using more False by (simp add: vector_Write_def w set_rows_invalid [OF lt start] bs)
      moreover have "\<forall>r < n. opt_ins (Some (VectorInfo ?info)) r = 0 \<and>
          opt_del (Some (VectorInfo ?info)) r = (if last_sees (vi_inserted c ! r) (vi_deleted c ! r) then NOT_DELETED_ID else 0)"
        using sel(3) [unfolded taken] dead n by (simp add: opt_ins_def opt_del_def masked_info_def new_vector_info_def)
      moreover have "length (vi_inserted ?info) = STANDARD_VECTOR_SIZE \<and> length (vi_deleted ?info) = STANDARD_VECTOR_SIZE"
        by (simp add: masked_info_def new_vector_info_def)
      ultimately show ?thesis using read_vector [OF words bs, of "vi_start c"]
        by (intro exI [of _ "write_header VECTOR_INFO (vi_start c) @ bs"] exI [of _ "Some (VectorInfo ?info)"]) simp
    qed
  qed
qed

text \<open>A vector with deletes is read back with the deletes that have been committed.\<close>

lemma chunk_Write_Read:
  assumes "chunk_ok n info" "0 < n" "n \<le> STANDARD_VECTOR_SIZE" "chunk_HasDeletes info" "\<forall>r < n. committed_ids (inserted_id info r) (deleted_id info r)"
  shows "\<exists>bs info'. chunk_Write info = Inr bs \<and> (\<forall>rest. chunk_Read (bs @ rest) = Inr (info', rest)) \<and> read_back n (Some info) info'"
proof (cases info)
  case (ConstantInfo c)
  then have "TRANSACTION_ID_START \<le> ci_insert_id c"
    using assms(1,4) id_bounds(2) by (auto simp: constant_HasDeletes_def dest: less_asym)
  moreover have "ci_insert_id c < TRANSACTION_ID_START - 1" using assms(2,5) ConstantInfo by (auto simp: committed_ids_def)
  moreover have "TRANSACTION_ID_START - 1 < TRANSACTION_ID_START" by (simp add: TRANSACTION_ID_START_def)
  ultimately show ?thesis by order
next
  case (VectorInfo c)
  have "last_sees (vi_inserted c ! r) (vi_deleted c ! r) \<longleftrightarrow> \<not> vi_deleted c ! r < TRANSACTION_ID_START - 1" if "r < n" for r
  proof -
    have "committed_ids (vi_inserted c ! r) (vi_deleted c ! r)" using assms(5) that VectorInfo by simp
    then show ?thesis using committed_seen by (simp add: last_sees_def)
  qed
  moreover obtain bs info' where "vector_Write c = Inr bs" "\<forall>rest. chunk_Read (bs @ rest) = Inr (info', rest)"
    "\<forall>r < n. opt_ins info' r = 0 \<and> opt_del info' r = (if last_sees (vi_inserted c ! r) (vi_deleted c ! r) then NOT_DELETED_ID else 0)"
    using vector_Write_Read [of n c] assms(1) VectorInfo by auto
  ultimately show ?thesis by (intro exI [of _ bs] exI [of _ info']) (simp add: VectorInfo read_back_def opt_del_def [of "Some _"])
qed

subsection \<open>All vectors\<close>

text \<open>An item of the stream: the index of a vector, the bytes of its info, and the info they are read as.\<close>

type_synonym chunk_item = "nat \<times> bytes \<times> ChunkInfo option"

definition store_info :: "chunk_item \<Rightarrow> RowVersionManager \<Rightarrow> RowVersionManager" where
  "store_info = (\<lambda>(i, bs, info) mgr. mgr\<lparr>vm_vector_info := (FillVectorInfo i (vm_vector_info mgr))[i := info]\<rparr>)"

definition chunk_item_ok :: "chunk_item \<Rightarrow> bool" where
  "chunk_item_ok = (\<lambda>(i, bs, info). i * STANDARD_VECTOR_SIZE < MAX_ROW_GROUP_SIZE \<and> (\<forall>rest. chunk_Read (bs @ rest) = Inr (info, rest)))"

lemma index_in_range:
  assumes "i * STANDARD_VECTOR_SIZE < MAX_ROW_GROUP_SIZE"
  shows "\<not> (word_of_nat i :: 64 word) * word_of_nat STANDARD_VECTOR_SIZE \<ge> word_of_nat MAX_ROW_GROUP_SIZE" "i < 2 ^ 64"
proof -
  have m: "MAX_ROW_GROUP_SIZE < 2 ^ 64" by (simp add: MAX_ROW_GROUP_SIZE_def)
  then have "unat (word_of_nat (i * STANDARD_VECTOR_SIZE) :: 64 word) = i * STANDARD_VECTOR_SIZE" "unat (word_of_nat MAX_ROW_GROUP_SIZE :: 64 word) = MAX_ROW_GROUP_SIZE"
    using assms by (simp_all add: unat_of_nat del: of_nat_mult)
  then show "\<not> (word_of_nat i :: 64 word) * word_of_nat STANDARD_VECTOR_SIZE \<ge> word_of_nat MAX_ROW_GROUP_SIZE"
    using assms by (simp add: word_le_nat_alt flip: of_nat_mult)
  have "i \<le> i * STANDARD_VECTOR_SIZE" by (simp add: Suc_le_eq)
  then show "i < 2 ^ 64" using assms m by linarith
qed

interpretation chunk_items: item_stream "\<lambda>(i, bs, info). stream_Write 8 (word_of_nat i) @ bs" read_chunk store_info chunk_item_ok "\<lambda>_. True"
proof
  fix x :: chunk_item and mgr rest
  assume "chunk_item_ok x"
  then obtain i bs info where x: "x = (i, bs, info)" "i * STANDARD_VECTOR_SIZE < MAX_ROW_GROUP_SIZE" "chunk_Read (bs @ rest) = Inr (info, rest)"
    by (auto simp: chunk_item_ok_def)
  have u: "unat (word_of_nat i :: 64 word) = i" using stream_roundtrip(2) [of i 8] index_in_range(2) [OF x(2)] by simp
  show "read_chunk (mgr, (case x of (i, bs, info) \<Rightarrow> stream_Write 8 (word_of_nat i) @ bs) @ rest) = Inr (store_info x mgr, rest)"
    by (simp add: x(1,3) read_chunk_def index_in_range(1) [OF x(2)] u store_info_def)
qed simp

lemma stored_infos:
  "distinct (map fst items) \<Longrightarrow> info_at (vm_vector_info (fold store_info items mgr)) j =
     (case map_of items j of None \<Rightarrow> info_at (vm_vector_info mgr) j | Some (bs, info) \<Rightarrow> info)"
proof (induction items arbitrary: mgr)
  case (Cons x items)
  obtain i bs info where x: "x = (i, bs, info)" by (cases x)
  have "info_at (vm_vector_info (store_info x mgr)) j = (if j = i then info else info_at (vm_vector_info mgr) j)"
    by (simp add: store_info_def x info_at_update)
  moreover have "map_of items i = None" using Cons.prems by (simp add: x map_of_eq_None_iff)
  ultimately show ?case using Cons by (cases "j = i") (simp_all add: x split: option.split)
qed simp

lemma not_serialized:
  assumes "infos_ok n infos" "info_at infos i = None \<or> (\<exists>info. info_at infos i = Some info \<and> \<not> chunk_HasDeletes info)"
  shows "read_back (rows_in n i) (info_at infos i) None"
proof (cases "info_at infos i")
  case (Some info)
  then have "chunk_ok (rows_in n i) info" "\<not> chunk_HasDeletes info" using assms by (auto simp: infos_ok_def)
  then have "deleted_id info r = NOT_DELETED_ID" if "r < rows_in n i" for r
    using that by (cases info) (auto simp: vector_HasDeletes_def vector_ok_def)
  then show ?thesis by (simp add: read_back_def opt_ins_def opt_del_def Some TRANSACTION_ID_START_def NOT_DELETED_ID_def)
qed (simp add: read_back_def opt_ins_def opt_del_def TRANSACTION_ID_START_def NOT_DELETED_ID_def)


lemma Checkpoint_infos:
  assumes "manager_ok n mgr" "n \<le> MAX_ROW_GROUP_SIZE" "vm_unserialized mgr" "\<forall>r < n. committed_ids (row_ins mgr r) (row_del mgr r)"
  shows "\<exists>bs vinfo. Checkpoint storage mgr = Inr (bs, mgr\<lparr>vm_unserialized := False\<rparr>) \<and> Deserialize start bs = Inr vinfo \<and>
    (\<forall>i. read_back (rows_in n i) (info_at (vm_vector_info mgr) i) (case vinfo of None \<Rightarrow> None | Some mgr' \<Rightarrow> info_at (vm_vector_info mgr') i))"
proof -
  let ?infos = "vm_vector_info mgr"
  define I where "I = filter (\<lambda>i. case ?infos ! i of None \<Rightarrow> False | Some info \<Rightarrow> chunk_HasDeletes info) [0..<length ?infos]"
  have ok: "infos_ok n ?infos" using assms(1) by (simp add: manager_ok_def)
  have I: "\<exists>info. info_at ?infos i = Some info \<and> ?infos ! i = Some info \<and> chunk_HasDeletes info \<and> i * STANDARD_VECTOR_SIZE < n" if "i \<in> set I" for i
    using that ok by (auto simp: I_def info_at_def infos_ok_def split: option.splits)
  have written: "\<exists>x. chunk_Write (the (?infos ! i)) = Inr (fst x) \<and> chunk_item_ok (i, x) \<and> read_back (rows_in n i) (info_at ?infos i) (snd x)" if "i \<in> set I" for i
  proof -
    note in_I = that
    obtain info where info: "info_at ?infos i = Some info" "?infos ! i = Some info" "chunk_HasDeletes info" "i * STANDARD_VECTOR_SIZE < n"
      using I [OF in_I] by blast
    have "committed_ids (inserted_id info r) (deleted_id info r)" if "r < rows_in n i" for r
    proof -
      have r: "r < STANDARD_VECTOR_SIZE" "i * STANDARD_VECTOR_SIZE + r < n" using that row_bounds(3) by blast+
      then have "(i * STANDARD_VECTOR_SIZE + r) div STANDARD_VECTOR_SIZE = i" "(i * STANDARD_VECTOR_SIZE + r) mod STANDARD_VECTOR_SIZE = r" by simp_all
      then show ?thesis
        using assms(4) [rule_format, OF r(2)] by (simp add: row_ins_def row_del_def ins_at_def del_at_def info(1))
    qed
    moreover have "chunk_ok (rows_in n i) info" using ok info(1) by (simp add: infos_ok_def)
    moreover have "0 < rows_in n i" "rows_in n i \<le> STANDARD_VECTOR_SIZE" using info(4) by (simp_all add: rows_in_def)
    ultimately show ?thesis
      using chunk_Write_Read [of "rows_in n i" info] info assms(2) by (auto simp: chunk_item_ok_def)
  qed
  then obtain X where X: "\<And>i. i \<in> set I \<Longrightarrow> chunk_Write (the (?infos ! i)) = Inr (fst (X i)) \<and> chunk_item_ok (i, X i) \<and> read_back (rows_in n i) (info_at ?infos i) (snd (X i))"
    by metis
  define items where "items = map (\<lambda>i. (i, X i)) I"
  let ?item_bytes = "\<lambda>(i, bs, info). stream_Write 8 (word_of_nat i) @ bs"
  have body: "map_result (\<lambda>i. bind_result (chunk_Write (the (?infos ! i))) (\<lambda>bs. Inr (stream_Write 8 (word_of_nat i) @ bs))) I = Inr (map ?item_bytes items)"
    unfolding items_def list.map_comp by (intro map_result_Inr) (use X in \<open>simp add: case_prod_unfold\<close>)
  have items: "\<forall>x \<in> set items. chunk_item_ok x" "distinct (map fst items)" using X by (auto simp: items_def I_def comp_def)
  define bs where "bs = (if I = [] then [] else stream_Write 8 (word_of_nat (length I)) @ concat (map ?item_bytes items))"
  define vinfo where "vinfo = (if I = [] then None else Some ((fold store_info items (new_version_manager start))\<lparr>vm_unserialized := False\<rparr>))"
  have "Checkpoint storage mgr = Inr (bs, mgr\<lparr>vm_unserialized := False\<rparr>)"
    using assms(3) body by (simp add: Checkpoint_def Let_def bs_def flip: I_def)
  moreover have "Deserialize start bs = Inr vinfo"
  proof (cases "I = []")
    case False
    have "i < MAX_ROW_GROUP_SIZE" if "i \<in> set I" for i
      using I [OF that] assms(2) mult_le_mono2 [of 1 STANDARD_VECTOR_SIZE i] by (auto simp: STANDARD_VECTOR_SIZE_def)
    then have "set I \<subseteq> {..<MAX_ROW_GROUP_SIZE}" by blast
    then have "card (set I) \<le> MAX_ROW_GROUP_SIZE" using card_mono [of "{..<MAX_ROW_GROUP_SIZE}" "set I"] by simp
    moreover have "distinct I" by (simp add: I_def)
    ultimately have len: "length I < 2 ^ (8 * 8)" by (simp add: distinct_card MAX_ROW_GROUP_SIZE_def)
    have "fold_result (\<lambda>_. read_chunk) [0..<length I] (new_version_manager start, concat (map ?item_bytes items) @ []) = Inr (fold store_info items (new_version_manager start), [])"
      using chunk_items.read_items [OF items(1), where a = 0 and s = "new_version_manager start" and rest = "[]"] by (simp add: items_def)
    moreover have "stream_Write 8 v \<noteq> []" for v using length_stream_Write [of 8 v] by (metis list.size(3) zero_neq_numeral)
    ultimately show ?thesis
      using False stream_roundtrip(2) [OF len] by (simp add: Deserialize_def bs_def vinfo_def)
  qed (simp add: Deserialize_def bs_def vinfo_def)
  moreover have "read_back (rows_in n i) (info_at ?infos i) (case vinfo of None \<Rightarrow> None | Some mgr' \<Rightarrow> info_at (vm_vector_info mgr') i)" for i
  proof -
    have "map_of items i = (if i \<in> set I then Some (X i) else None)" by (simp add: items_def map_of_map_restrict restrict_map_def)
    then have found: "(case vinfo of None \<Rightarrow> None | Some mgr' \<Rightarrow> info_at (vm_vector_info mgr') i) = (if i \<in> set I then snd (X i) else None)"
      using stored_infos [OF items(2)] by (auto simp: vinfo_def new_version_manager_def info_at_def case_prod_unfold)
    show ?thesis
    proof (cases "i \<in> set I")
      case False
      then have "info_at ?infos i = None \<or> (\<exists>info. info_at ?infos i = Some info \<and> \<not> chunk_HasDeletes info)"
        by (auto simp: I_def info_at_def split: option.splits)
      then show ?thesis using not_serialized [OF ok] False found by simp
    qed (use X found in simp)
  qed
  ultimately show ?thesis by blast
qed


subsection \<open>What a checkpoint keeps\<close>

lemma read_back_fetch:
  assumes "\<forall>i. read_back (rows_in n i) (info_at (vm_vector_info mgr) i) (case vinfo of None \<Rightarrow> None | Some mgr' \<Rightarrow> info_at (vm_vector_info mgr') i)"
    and "r < n" "running t"
  shows "RowGroup_Fetch t r vinfo = Inr (\<not> row_del mgr r < TRANSACTION_ID_START - 1)"
proof (cases vinfo)
  case None
  let ?i = "r div STANDARD_VECTOR_SIZE"
  have "opt_del None (r mod STANDARD_VECTOR_SIZE) =
      (if opt_del (info_at (vm_vector_info mgr) ?i) (r mod STANDARD_VECTOR_SIZE) < TRANSACTION_ID_START - 1 then 0 else NOT_DELETED_ID)"
    using assms(1) row_bounds(1) [OF assms(2)] None by (auto simp: read_back_def)
  moreover have "opt_del (info_at (vm_vector_info mgr) ?i) (r mod STANDARD_VECTOR_SIZE) = row_del mgr r"
    by (simp add: row_del_def del_at_def opt_del_def)
  ultimately show ?thesis using id_bounds by (auto simp: RowGroup_Fetch_def None opt_del_def [of None] split: if_splits)
next
  case (Some mgr')
  let ?i = "r div STANDARD_VECTOR_SIZE" and ?r = "r mod STANDARD_VECTOR_SIZE"
  have d: "opt_del (info_at (vm_vector_info mgr) ?i) ?r = row_del mgr r" by (simp add: row_del_def del_at_def opt_del_def)
  have ids: "opt_ins (info_at (vm_vector_info mgr') ?i) ?r = 0"
    "opt_del (info_at (vm_vector_info mgr') ?i) ?r = (if row_del mgr r < TRANSACTION_ID_START - 1 then 0 else NOT_DELETED_ID)"
    using assms(1) row_bounds(1) [OF assms(2)] Some d by (auto simp: read_back_def)
  have fetch: "chunk_Fetch t info ?r = Inr (UseVersion t (inserted_id info ?r) \<and> \<not> UseVersion t (deleted_id info ?r))" for info
    by (cases info) (simp_all add: constant_Fetch_def vector_Fetch_def not_le)
  show ?thesis
  proof (cases "info_at (vm_vector_info mgr') ?i")
    case None
    then show ?thesis using ids id_bounds
      by (auto simp: RowGroup_Fetch_def Some Fetch_def Let_def GetChunkInfo_at opt_del_def split: if_splits)
  next
    case info: (Some info)
    then show ?thesis using ids fetch [of info] running_UseVersion(1,2) [OF assms(3)]
      by (simp add: RowGroup_Fetch_def Some Fetch_def Let_def GetChunkInfo_at opt_ins_def opt_del_def minus_div_mult_eq_mod)
  qed
qed

text \<open>C20: A checkpoint that no transaction with uncommitted rows overlaps keeps the committed rows: the versions
  that are written to the metadata blocks and read back from them, uncommitted deletes left out,
  let every transaction read exactly the rows that were committed.\<close>
theorem checkpoint_keeps_committed_rows:
  assumes "version_reachable size_max db" "size_max \<le> MAX_ROW_GROUP_SIZE" "\<forall>u \<in> set (active db). no_insert (tx_undo u)"
    and "vm_unserialized (db_versions db)" "current_start_timestamp (db_manager db) < TRANSACTION_ID_START" "running t"
  shows "\<exists>bs mgr vinfo. Checkpoint storage (db_versions db) = Inr (bs, mgr) \<and> Deserialize start bs = Inr vinfo \<and>
    {r. r < db_rows db \<and> RowGroup_Fetch t r vinfo = Inr True} = committed_rows db"
proof -
  let ?now = "current_start_timestamp (db_manager db)" and ?mgr = "db_versions db"
  have ok: "clock_ok (db_manager db)" "TransactionSteps.rows_ok (db_manager db) (db_rows db) ?mgr" "\<forall>u \<in> set (active db). undo_ok (db_rows db) ?mgr u" "db_rows db \<le> size_max"
    using reachable_ok [OF assms(1,2)] by (simp_all add: db_ok_def)
  have now: "v < TRANSACTION_ID_START - 1" if "v < ?now" for v
    using that assms(5) by (simp add: word_less_nat_alt TRANSACTION_ID_START_def)
  have ids: "TRANSACTION_ID_START \<le> i \<and> i < INVALID_INDEX" if "i \<in> ids (db_manager db)" for i
    using clock_bounds(3,5) [OF ok(1) that] by (auto simp: NOT_DELETED_ID_def INVALID_INDEX_def intro: less_trans)
  have ins: "row_ins ?mgr r < ?now" if "r < db_rows db" for r
    using rows_okD(2) [OF ok(2) that] undo_ok_no_insert(2) assms(3) ok(3) that by fastforce
  have del: "row_del ?mgr r < ?now \<or> (TRANSACTION_ID_START \<le> row_del ?mgr r \<and> row_del ?mgr r < INVALID_INDEX)" if "r < db_rows db" for r
    using rows_okD(3) [OF ok(2) that] ids by (auto simp: TRANSACTION_ID_START_def NOT_DELETED_ID_def INVALID_INDEX_def)
  have "\<forall>r < db_rows db. committed_ids (row_ins ?mgr r) (row_del ?mgr r)" using ins del now by (auto simp: committed_ids_def)
  then obtain bs vinfo where read: "Checkpoint storage ?mgr = Inr (bs, ?mgr\<lparr>vm_unserialized := False\<rparr>)" "Deserialize start bs = Inr vinfo"
    "\<forall>i. read_back (rows_in (db_rows db) i) (info_at (vm_vector_info ?mgr) i) (case vinfo of None \<Rightarrow> None | Some mgr' \<Rightarrow> info_at (vm_vector_info mgr') i)"
    using Checkpoint_infos [OF rows_okD(1) [OF ok(2)] _ assms(4), of storage start] ok(4) assms(2) by fastforce
  have "RowGroup_Fetch t r vinfo = Inr (\<not> row_del ?mgr r < ?now)" if "r < db_rows db" for r
  proof -
    have "\<not> TRANSACTION_ID_START < TRANSACTION_ID_START - 1" by (simp add: TRANSACTION_ID_START_def)
    then have "row_del ?mgr r < TRANSACTION_ID_START - 1 \<longleftrightarrow> row_del ?mgr r < ?now" using del [OF that] now by force
    then show ?thesis using read_back_fetch [OF read(3) that assms(6)] by simp
  qed
  then have "{r. r < db_rows db \<and> RowGroup_Fetch t r vinfo = Inr True} = committed_rows db"
    using ins by (auto simp: committed_rows_def)
  then show ?thesis using read(1,2) by blast
qed

text \<open>In the run, the rows of the second transaction are committed, and no row is deleted.\<close>

lemma checkpoint_keeps_committed_rows_witness:
  "\<exists>bs mgr vinfo. Checkpoint [] example_versions = Inr (bs, mgr) \<and> Deserialize 0 bs = Inr vinfo \<and>
    {r. r < 2048 \<and> RowGroup_Fetch (tx_data (example_tx TRANSACTION_ID_START 2 [])) r vinfo = Inr True} = committed_rows example_third"
proof -
  have "\<forall>u \<in> set (active example_third). no_insert (tx_undo u)" by (simp add: no_insert_def example_tx_def)
  moreover have "vm_unserialized (db_versions example_third)" by (simp add: example_versions_def)
  moreover have "current_start_timestamp (db_manager example_third) < TRANSACTION_ID_START" by (simp add: TRANSACTION_ID_START_def)
  moreover have "running (tx_data (example_tx TRANSACTION_ID_START 2 []))"
    by (simp add: running_def tx_data_def example_tx_def TRANSACTION_ID_START_def NOT_DELETED_ID_def)
  ultimately show ?thesis
    using checkpoint_keeps_committed_rows [OF example_third_reachable example_sizes, of "tx_data (example_tx TRANSACTION_ID_START 2 [])" "[]" 0] by simp
qed


subsection \<open>Rows after an append that was taken back\<close>



text \<open>A row was deleted by a commit, and the third place has the id of a transaction that was rolled back.\<close>

definition reverted_info :: ChunkVectorInfo where
  "reverted_info = (new_vector_info 0)\<lparr>vi_inserted := (replicate STANDARD_VECTOR_SIZE 0)[2 := TRANSACTION_ID_START],
     vi_insert_id := NOT_DELETED_ID, vi_same_inserted_id := False, vi_deleted := (replicate STANDARD_VECTOR_SIZE NOT_DELETED_ID)[0 := 5],
     vi_any_deleted := True\<rparr>"


end
